(* ===== verification/Prelude.thy ===== *)
theory Prelude
  imports Main "HOL-Library.Word" "HOL-Library.Monad_Syntax"
begin

text \<open>
  Shared vocabulary of the development: the kernel's primitive types
  (\<^verbatim>\<open>include/primitives.hpp\<close>), little-endian byte encodings, the splitting of a packed
  structure into its fields, C strings held in fixed byte arrays, and the arithmetic
  lemmas that move 64-bit words to natural numbers.

  Operations that touch hardware or may not return have type
  \<open>'w \<Rightarrow> ('a \<times> 'w) option\<close>: the world is passed explicitly and \<open>None\<close> means that the
  call has no defined result, because it loops for ever or because the C++ code runs into
  undefined behaviour. The \<open>do\<close> notation below is that of the \<open>option\<close> monad.
\<close>

unbundle bit_operations_syntax

section \<open>Primitive types\<close>

type_synonym u8 = "8 word"
type_synonym u16 = "16 word"
type_synonym u32 = "32 word"
type_synonym u64 = "64 word"
type_synonym uptr = "64 word"
type_synonym byte = u8
type_synonym bytes = "u8 list"

named_theorems layout_simps \<open>equations that evaluate the layout of a packed structure\<close>
named_theorems word_nat \<open>facts that read 64-bit words as natural numbers\<close>

section \<open>Words read as natural numbers\<close>

lemma unat_plus64 [word_nat]:
  fixes a b :: u64
  assumes "unat a + unat b < 2 ^ 64"
  shows "unat (a + b) = unat a + unat b"
  using assms by (simp add: unat_add_lem [THEN iffD1])

lemma unat_minus64 [word_nat]:
  fixes a b :: u64
  assumes "unat b \<le> unat a"
  shows "unat (a - b) = unat a - unat b"
  using assms by (simp add: unat_sub word_le_nat_alt)

lemma unat_times64 [word_nat]:
  fixes a b :: u64
  assumes "unat a * unat b < 2 ^ 64"
  shows "unat (a * b) = unat a * unat b"
  using assms by (simp add: unat_mult_lem [THEN iffD1])

lemma unat_of_nat64 [word_nat]:
  assumes "n < 2 ^ 64"
  shows "unat (of_nat n :: u64) = n"
  using assms by (simp add: unat_of_nat)

lemma unat_less: "unat (w :: 'a::len word) < 2 ^ LENGTH('a)"
  by (rule unsigned_less)

lemma unat64_less: "unat (w :: u64) < 18446744073709551616"
  using unat_less [of w] by simp

lemma unat_inc:
  fixes a b :: "'a::len word"
  assumes "a < b"
  shows "unat (a + 1) = unat a + 1"
proof -
  have "unat a + 1 < 2 ^ LENGTH('a)"
    using assms unat_less [of b] unfolding word_less_nat_alt by linarith
  then show ?thesis by (simp add: unat_word_ariths)
qed

lemma unat_inc64:
  fixes a b :: u64
  assumes "a < b"
  shows "unat (a + 1) = unat a + 1"
proof -
  have "unat a + unat (1 :: u64) < 2 ^ 64"
    using assms unat64_less [of b] by (simp add: word_less_nat_alt)
  then have "unat (a + 1) = unat a + unat (1 :: u64)" by (rule unat_plus64)
  then show ?thesis by simp
qed

lemmas word_order_nat = word_less_nat_alt word_le_nat_alt word_unat_eq_iff

section \<open>Little-endian encodings\<close>

fun le_bytes :: "nat \<Rightarrow> nat \<Rightarrow> bytes" where
  "le_bytes 0 x = []"
| "le_bytes (Suc n) x = of_nat (x mod 256) # le_bytes n (x div 256)"

fun le_nat :: "bytes \<Rightarrow> nat" where
  "le_nat [] = 0"
| "le_nat (b # bs) = unat b + 256 * le_nat bs"

lemma length_le_bytes [simp, layout_simps]: "length (le_bytes n x) = n"
  by (induction n arbitrary: x) auto

lemma le_nat_le_bytes: "le_nat (le_bytes n x) = x mod 256 ^ n"
proof (induction n arbitrary: x)
  case 0
  then show ?case by simp
next
  case (Suc n)
  have "x mod 256 ^ Suc n = x mod 256 + 256 * (x div 256 mod 256 ^ n)"
    by (simp add: mod_mult2_eq)
  then show ?case by (simp add: Suc.IH unat_of_nat)
qed

lemma le_nat_bound: "le_nat bs < 256 ^ length bs"
proof (induction bs)
  case (Cons b bs)
  have "unat b < 256" using unat_less [of b] by simp
  with Cons.IH show ?case by simp
qed simp

lemma le_bytes_le_nat: "le_bytes (length bs) (le_nat bs) = bs"
proof (induction bs)
  case (Cons b bs)
  have "unat b < 256" using unat_less [of b] by simp
  with Cons.IH show ?case by simp
qed simp

definition put16 :: "u16 \<Rightarrow> bytes" where "put16 w = le_bytes 2 (unat w)"
definition put32 :: "u32 \<Rightarrow> bytes" where "put32 w = le_bytes 4 (unat w)"
definition put64 :: "u64 \<Rightarrow> bytes" where "put64 w = le_bytes 8 (unat w)"
definition get16 :: "bytes \<Rightarrow> u16" where "get16 bs = of_nat (le_nat bs)"
definition get32 :: "bytes \<Rightarrow> u32" where "get32 bs = of_nat (le_nat bs)"
definition get64 :: "bytes \<Rightarrow> u64" where "get64 bs = of_nat (le_nat bs)"

lemma length_put [simp, layout_simps]:
  "length (put16 a) = 2" "length (put32 b) = 4" "length (put64 c) = 8"
  by (simp_all add: put16_def put32_def put64_def)

lemma get_put [simp]:
  "get16 (put16 a) = a" "get32 (put32 b) = b" "get64 (put64 c) = c"
  using unat_less [of a] unat_less [of b] unat_less [of c]
  by (simp_all add: put16_def put32_def put64_def get16_def get32_def get64_def le_nat_le_bytes)

lemma put16_get16 [simp]: "length bs = 2 \<Longrightarrow> put16 (get16 bs) = bs"
  using le_nat_bound [of bs] le_bytes_le_nat [of bs]
  by (simp add: put16_def get16_def unat_of_nat)

lemma put32_get32 [simp]: "length bs = 4 \<Longrightarrow> put32 (get32 bs) = bs"
  using le_nat_bound [of bs] le_bytes_le_nat [of bs]
  by (simp add: put32_def get32_def unat_of_nat)

lemma put64_get64 [simp]: "length bs = 8 \<Longrightarrow> put64 (get64 bs) = bs"
  using le_nat_bound [of bs] le_bytes_le_nat [of bs]
  by (simp add: put64_def get64_def unat_of_nat)

lemma le_bytes_Cons: "a < 256 \<Longrightarrow> le_bytes (Suc n) (a + 256 * k) = of_nat a # le_bytes n k"
  by (simp add: word_of_nat_eq_iff take_bit_eq_mod)

lemma put32_head:
  fixes a b :: u8 and c :: u16
  shows "put32 (ucast a OR push_bit 8 (ucast b) OR push_bit 16 (ucast c)) = [a, b] @ put16 c"
proof -
  have r: "unat a < 256" "unat b < 256" "unat c < 65536"
    using unat_less [of a] unat_less [of b] unat_less [of c] by simp_all
  have "(ucast a :: u32) OR push_bit 8 (ucast b) OR push_bit 16 (ucast c)
      = ucast a + push_bit 8 (ucast b) + push_bit 16 (ucast c)"
    by (subst disjunctive_add, simp add: bit_simps, force dest: bit_imp_le_length)
      (subst disjunctive_add, auto simp: bit_simps or.assoc dest: bit_imp_le_length)
  also have "\<dots> = of_nat (unat a + 256 * unat b + 65536 * unat c)"
    by (simp add: push_bit_eq_mult)
  finally have "unat ((ucast a :: u32) OR push_bit 8 (ucast b) OR push_bit 16 (ucast c))
      = unat a + 256 * unat b + 65536 * unat c"
    using r by (simp only: unat_of_nat) simp
  also have "\<dots> = unat a + 256 * (unat b + 256 * unat c)" by simp
  finally have "put32 (ucast a OR push_bit 8 (ucast b) OR push_bit 16 (ucast c))
      = le_bytes (Suc (Suc 2)) (unat a + 256 * (unat b + 256 * unat c))"
    by (simp only: put32_def) simp
  then show ?thesis using r by (simp only: le_bytes_Cons) (simp add: put16_def)
qed

text \<open>Words read back in parts.\<close>

lemma get32_head:
  "get32 ([a, b] @ put16 c) = ucast a OR push_bit 8 (ucast b) OR push_bit 16 (ucast c)"
  by (metis get_put(2) put32_head)

lemma put16_bytes: "put16 u = [ucast u, ucast (drop_bit 8 u)]"
  by (simp add: put16_def numeral_2_eq_2 word_of_nat_eq_iff unsigned_ucast_eq drop_bit_eq_div take_bit_eq_mod word_unat_eq_iff unat_of_nat unat_drop_bit_eq) (simp only: unat_div, simp)

lemma get32_parts:
  fixes a b c d :: u8 and u v :: u16
  shows "ucast (drop_bit 8 (get32 [a, b, c, d])) = b" "ucast (drop_bit 16 (get32 [a, b, c, d])) = c"
    "ucast (drop_bit 24 (get32 [a, b, c, d])) = d"
    "ucast (get32 (put16 u @ put16 v)) = u" "ucast (drop_bit 16 (get32 (put16 u @ put16 v))) = v"
proof -
  define w :: u16 where "w = ucast c OR push_bit 8 (ucast d)"
  have "put16 w = [c, d]"
    by (auto simp: put16_bytes w_def bit_eq_iff bit_simps dest: bit_imp_le_length)
  then have g: "get32 [a, b, c, d] = ucast a OR push_bit 8 (ucast b) OR push_bit 16 (ucast w)"
    using get32_head [of a b w] by simp
  show "ucast (drop_bit 8 (get32 [a, b, c, d])) = b" unfolding g
    by (rule bit_word_eqI) (auto simp: bit_simps dest: bit_imp_le_length)
  show "ucast (drop_bit 16 (get32 [a, b, c, d])) = c" unfolding g w_def
    by (rule bit_word_eqI) (auto simp: bit_simps dest: bit_imp_le_length)
  show "ucast (drop_bit 24 (get32 [a, b, c, d])) = d" unfolding g w_def
    by (rule bit_word_eqI) (auto simp: bit_simps dest: bit_imp_le_length)
  have "(ucast (ucast u :: u8) :: u32) OR push_bit 8 (ucast (ucast (drop_bit 8 u) :: u8)) = ucast u"
    by (rule bit_word_eqI) (auto simp: bit_simps dest: bit_imp_le_length)
  then have h: "get32 (put16 u @ put16 v) = ucast u OR push_bit 16 (ucast v)"
    using get32_head [of "ucast u" "ucast (drop_bit 8 u)" v]
    by (simp only: put16_bytes [of u] or.assoc [symmetric])
  show "ucast (get32 (put16 u @ put16 v)) = u" unfolding h
    by (rule bit_word_eqI) (auto simp: bit_simps dest: bit_imp_le_length)
  show "ucast (drop_bit 16 (get32 (put16 u @ put16 v))) = v" unfolding h
    by (rule bit_word_eqI) (auto simp: bit_simps dest: bit_imp_le_length)
qed

section \<open>Packed structures\<close>

text \<open>
  A packed structure is the concatenation of its fields. \<open>split_fields\<close> cuts a byte list
  at the field sizes; it undoes the concatenation, and the concatenation undoes it.
\<close>

fun split_fields :: "nat list \<Rightarrow> 'a list \<Rightarrow> 'a list list" where
  "split_fields [] bs = []"
| "split_fields (n # ns) bs = take n bs # split_fields ns (drop n bs)"

lemma split_fields_concat: "split_fields (map length xss) (concat xss) = xss"
  by (induction xss) auto

lemma length_split_fields [simp]: "length (split_fields ns bs) = length ns"
  by (induction ns arbitrary: bs) auto

lemma concat_split_fields: "length bs = sum_list ns \<Longrightarrow> concat (split_fields ns bs) = bs"
  by (induction ns arbitrary: bs) auto

lemma map_length_split_fields:
  "sum_list ns \<le> length bs \<Longrightarrow> map length (split_fields ns bs) = ns"
  by (induction ns arbitrary: bs) auto

section \<open>C strings\<close>

text \<open>The bytes of an array up to its first NUL, as a \<^verbatim>\<open>const char*\<close> reader sees them.\<close>

definition cstr :: "bytes \<Rightarrow> bytes" where
  "cstr bs = takeWhile (\<lambda>c. c \<noteq> 0) bs"

lemma cstr_no_nul: "0 \<notin> set (cstr bs)"
  unfolding cstr_def by (auto dest: set_takeWhileD)

lemma cstr_terminated: "0 \<notin> set xs \<Longrightarrow> cstr (xs @ 0 # ys) = xs"
  unfolding cstr_def by (induction xs) auto

lemma cstr_id: "0 \<notin> set xs \<Longrightarrow> cstr xs = xs"
  unfolding cstr_def by (induction xs) auto

lemma cstr_Nil [simp]: "cstr [] = []"
  by (simp add: cstr_def)

lemma cstr_Cons: "cstr (c # cs) = (if c = 0 then [] else c # cstr cs)"
  by (simp add: cstr_def)

text \<open>String literals of the source, as bytes.\<close>

definition bytes_of :: "string \<Rightarrow> bytes" where
  "bytes_of s = map (\<lambda>c. of_nat (of_char c)) s"

section \<open>Loops that copy into a buffer\<close>

text \<open>
  \<open>store_at dst i src\<close> is the loop \<^verbatim>\<open>for (k = 0; k < len; ++k) dst[i + k] = src[k];\<close>.
  A store outside the buffer is undefined behaviour: \<open>None\<close>.
\<close>

fun store_at :: "'a list \<Rightarrow> nat \<Rightarrow> 'a list \<Rightarrow> 'a list option" where
  "store_at dst i [] = Some dst"
| "store_at dst i (x # xs) =
     (if i < length dst then store_at (dst[i := x]) (Suc i) xs else None)"

lemma store_at_Some:
  "i + length xs \<le> length dst \<Longrightarrow>
     store_at dst i xs = Some (take i dst @ xs @ drop (i + length xs) dst)"
proof (induction xs arbitrary: dst i)
  case (Cons x xs)
  then have "i < length dst" by simp
  then have "take (Suc i) (dst[i := x]) = take i dst @ [x]"
    by (simp add: take_Suc_conv_app_nth)
  with Cons show ?case by simp
qed simp

lemma store_at_None:
  "xs \<noteq> [] \<Longrightarrow> length dst < i + length xs \<Longrightarrow> store_at dst i xs = None"
proof (induction xs arbitrary: dst i)
  case (Cons x xs)
  then show ?case by (cases "xs = []") auto
qed simp

lemma store_at_length: "store_at dst i xs = Some dst' \<Longrightarrow> length dst' = length dst"
  by (induction dst i xs rule: store_at.induct) (auto split: if_splits)

lemma list_update_append_mid: "(xs @ y # zs)[length xs := x] = xs @ x # zs"
  by simp

section \<open>Growing sequences as an interface\<close>

text \<open>
  The kernel builds strings and arrays one element at a time. \<open>append_all\<close> is that loop; the
  interface \<open>seq\<close> says that appending never faults and appends to the abstract list.
\<close>

fun append_all :: "('s \<Rightarrow> 'a \<Rightarrow> 's option) \<Rightarrow> 's \<Rightarrow> 'a list \<Rightarrow> 's option" where
  "append_all app s [] = Some s"
| "append_all app s (c # cs) = app s c \<bind> (\<lambda>s'. append_all app s' cs)"

locale seq =
  fixes emp :: "'s"
    and app :: "'s \<Rightarrow> 'a \<Rightarrow> 's option"
    and clr :: "'s \<Rightarrow> 's"
    and abs :: "'s \<Rightarrow> 'a list"
    and invar :: "'s \<Rightarrow> bool"
  assumes emp: "invar emp" "abs emp = []"
    and app: "invar s \<Longrightarrow> \<exists>s'. app s c = Some s' \<and> invar s' \<and> abs s' = abs s @ [c]"
    and clr: "invar s \<Longrightarrow> invar (clr s)" "invar s \<Longrightarrow> abs (clr s) = []"
begin

lemma append_all_correct:
  "invar s \<Longrightarrow> \<exists>s'. append_all app s cs = Some s' \<and> invar s' \<and> abs s' = abs s @ cs"
proof (induction cs arbitrary: s)
  case (Cons c cs)
  obtain s1 where s1: "app s c = Some s1" "invar s1" "abs s1 = abs s @ [c]"
    using app [OF Cons.prems] by blast
  then show ?case using Cons.IH [OF s1(2)] by auto
qed simp

lemma build_correct: "\<exists>s. append_all app emp cs = Some s \<and> invar s \<and> abs s = cs"
  using append_all_correct [OF emp(1), of cs] by (simp add: emp(2))

lemma rebuild_correct:
  "invar s \<Longrightarrow> \<exists>s'. append_all app (clr s) cs = Some s' \<and> invar s' \<and> abs s' = cs"
  using append_all_correct [OF clr(1), of s cs] by (simp add: clr(2))

end

text \<open>Digits of a number in base \<open>k\<close>.\<close>

lemma radix_eq: "c < k \<Longrightarrow> c' < k \<Longrightarrow> a * k + c = a' * k + (c' :: nat) \<longleftrightarrow> a = a' \<and> c = c'"
proof
  assume k: "c < k" "c' < k" and e: "a * k + c = a' * k + c'"
  have "(a * k + c) div k = a" "(a' * k + c') div k = a'" using k by simp_all
  then show "a = a' \<and> c = c'" using e by simp
qed simp

lemma unat_plus_nat64: "unat a + n < 2 ^ 64 \<Longrightarrow> unat (a + of_nat n :: u64) = unat a + n"
  by (subst unat_plus64) (simp_all only: unat_of_nat64)

lemma bit6: "bit (6 :: u32) j \<longleftrightarrow> j = 1 \<or> j = 2"
  by (cases j; cases "j - 1"; cases "j - 2") (auto simp: bit_numeral_rec bit_Suc)

lemma bit4: "bit (4 :: u32) j \<longleftrightarrow> j = 2"
  by (cases j; cases "j - 1"; cases "j - 2") (auto simp: bit_numeral_rec bit_Suc)

end
