(* ===== verification/ErrorCodes.thy ===== *)
theory ErrorCodes
  imports Prelude "HOL-Library.Char_ord"
begin

text \<open>
  The kernel-wide error codes (\<^verbatim>\<open>include/AlopexOS/AlopexOS_ErrorCodes.hpp\<close>), their numeric
  values, and \<^verbatim>\<open>returnErrorAsCstring\<close> (\<^verbatim>\<open>src/AlopexOS_ErrorCodes.cpp\<close>), which prints
  them. An \<^verbatim>\<open>enum class errorCode : u64\<close> object holds any 64-bit value, so the printer works
  on the value.
\<close>

section \<open>The enumeration\<close>

datatype errorCode =
  Success | Generic_Error | InvalidParameters | NotImplemented |
  PermissionDenied | Timeout | Busy | AlreadyExists |
  NotFound | OutOfMemory | InvalidAddress | AlignmentFault |
  PageFault | DeviceNotReady | DeviceTimeout | DeviceInitializationFailed |
  IOError | HardwareFault | InvalidLBA | OutOfBounds |
  BufferUnaligned | WriteProtected | InvalidSuperblock | CorruptedHeader |
  NodeNotFound | NoSpaceLeft | ReadOnlyFilesystem | IsDirectory |
  NotDirectory | FileNotFound | FileAlreadyExists | BufferTooSmall |
  DeviceNotMounted | InvalidPath | AllocationFailed | WriteFailed

fun errorCode_value :: "errorCode \<Rightarrow> u64" where
  "errorCode_value Success = 0"
| "errorCode_value Generic_Error = -1"
| "errorCode_value InvalidParameters = 1"
| "errorCode_value NotImplemented = 2"
| "errorCode_value PermissionDenied = 3"
| "errorCode_value Timeout = 4"
| "errorCode_value Busy = 5"
| "errorCode_value AlreadyExists = 6"
| "errorCode_value NotFound = 7"
| "errorCode_value OutOfMemory = 100"
| "errorCode_value InvalidAddress = 101"
| "errorCode_value AlignmentFault = 102"
| "errorCode_value PageFault = 103"
| "errorCode_value DeviceNotReady = 200"
| "errorCode_value DeviceTimeout = 201"
| "errorCode_value DeviceInitializationFailed = 202"
| "errorCode_value IOError = 203"
| "errorCode_value HardwareFault = 204"
| "errorCode_value InvalidLBA = 300"
| "errorCode_value OutOfBounds = 301"
| "errorCode_value BufferUnaligned = 302"
| "errorCode_value WriteProtected = 303"
| "errorCode_value InvalidSuperblock = 400"
| "errorCode_value CorruptedHeader = 401"
| "errorCode_value NodeNotFound = 402"
| "errorCode_value NoSpaceLeft = 403"
| "errorCode_value ReadOnlyFilesystem = 404"
| "errorCode_value IsDirectory = 405"
| "errorCode_value NotDirectory = 406"
| "errorCode_value FileNotFound = 407"
| "errorCode_value FileAlreadyExists = 408"
| "errorCode_value BufferTooSmall = 409"
| "errorCode_value DeviceNotMounted = 410"
| "errorCode_value InvalidPath = 411"
| "errorCode_value AllocationFailed = 412"
| "errorCode_value WriteFailed = 413"

definition returnErrorAsCstring :: "u64 \<Rightarrow> string" where
  "returnErrorAsCstring err =
    (if err = errorCode_value Success then ''Err::Success'' else
     if err = errorCode_value Generic_Error then ''Err::Generic_Error'' else
     if err = errorCode_value InvalidParameters then ''Err::InvalidParameters'' else
     if err = errorCode_value NotImplemented then ''Err::NotImplemented'' else
     if err = errorCode_value PermissionDenied then ''Err::PermissionDenied'' else
     if err = errorCode_value Timeout then ''Err::Timeout'' else
     if err = errorCode_value Busy then ''Err::Busy'' else
     if err = errorCode_value AlreadyExists then ''Err::AlreadyExists'' else
     if err = errorCode_value NotFound then ''Err::NotFound'' else
     if err = errorCode_value OutOfMemory then ''Err::OutOfMemory'' else
     if err = errorCode_value InvalidAddress then ''Err::InvalidAddress'' else
     if err = errorCode_value AlignmentFault then ''Err::AlignmentFault'' else
     if err = errorCode_value PageFault then ''Err::PageFault'' else
     if err = errorCode_value DeviceNotReady then ''Err::DeviceNotReady'' else
     if err = errorCode_value DeviceTimeout then ''Err::DeviceTimeout'' else
     if err = errorCode_value DeviceInitializationFailed then ''Err::DeviceInitializationFailed'' else
     if err = errorCode_value IOError then ''Err::IOError'' else
     if err = errorCode_value HardwareFault then ''Err::HardwareFault'' else
     if err = errorCode_value InvalidLBA then ''Err::InvalidLBA'' else
     if err = errorCode_value OutOfBounds then ''Err::OutOfBounds'' else
     if err = errorCode_value BufferUnaligned then ''Err::BufferUnaligned'' else
     if err = errorCode_value WriteProtected then ''Err::WriteProtected'' else
     if err = errorCode_value InvalidSuperblock then ''Err::InvalidSuperblock'' else
     if err = errorCode_value CorruptedHeader then ''Err::CorruptedHeader'' else
     if err = errorCode_value NodeNotFound then ''Err::NodeNotFound'' else
     if err = errorCode_value NoSpaceLeft then ''Err::NoSpaceLeft'' else
     if err = errorCode_value ReadOnlyFilesystem then ''Err::ReadOnlyFilesystem'' else
     if err = errorCode_value IsDirectory then ''Err::IsDirectory'' else
     if err = errorCode_value NotDirectory then ''Err::NotDirectory'' else
     if err = errorCode_value FileNotFound then ''Err::FileNotFound'' else
     if err = errorCode_value FileAlreadyExists then ''Err::FileAlreadyExists'' else
     if err = errorCode_value BufferTooSmall then ''Err::BufferTooSmall'' else
     if err = errorCode_value DeviceNotMounted then ''Err::DeviceNotMounted'' else
     if err = errorCode_value InvalidPath then ''Err::InvalidPath'' else
     if err = errorCode_value AllocationFailed then ''Err::AllocationFailed'' else
     if err = errorCode_value WriteFailed then ''Err::WriteFailed'' else
     ''Err::Error_code_not_implemented_yet'')"

definition all_errorCodes :: "errorCode list" where
  "all_errorCodes =
  [Success, Generic_Error, InvalidParameters, NotImplemented, PermissionDenied,
  Timeout, Busy, AlreadyExists, NotFound, OutOfMemory,
  InvalidAddress, AlignmentFault, PageFault, DeviceNotReady, DeviceTimeout,
  DeviceInitializationFailed, IOError, HardwareFault, InvalidLBA, OutOfBounds,
  BufferUnaligned, WriteProtected, InvalidSuperblock, CorruptedHeader, NodeNotFound,
  NoSpaceLeft, ReadOnlyFilesystem, IsDirectory, NotDirectory, FileNotFound,
  FileAlreadyExists, BufferTooSmall, DeviceNotMounted, InvalidPath, AllocationFailed,
  WriteFailed]"

section \<open>Every code is printed under its own name\<close>

lemma all_errorCodes_complete: "e \<in> set all_errorCodes"
  by (cases e) (simp_all add: all_errorCodes_def)

lemma distinct_errorCode_values: "distinct (map errorCode_value all_errorCodes)"
  by code_simp

lemma inj_errorCode_value: "inj errorCode_value"
proof -
  have "inj_on errorCode_value (set all_errorCodes)"
    using distinct_errorCode_values by (simp add: distinct_map)
  then show ?thesis using all_errorCodes_complete by (auto simp: inj_on_def)
qed

lemma errorCode_value_eq_iff [simp]: "errorCode_value a = errorCode_value b \<longleftrightarrow> a = b"
  using inj_errorCode_value by (auto simp: inj_def)

lemma distinct_errorCode_names:
  "distinct (map (returnErrorAsCstring \<circ> errorCode_value) all_errorCodes)"
  by code_simp

lemma names_not_fallback:
  "\<forall>e \<in> set all_errorCodes.
     returnErrorAsCstring (errorCode_value e) \<noteq> ''Err::Error_code_not_implemented_yet''"
  by code_simp

lemma inj_errorCode_name: "inj (\<lambda>e. returnErrorAsCstring (errorCode_value e))"
proof -
  have "inj_on (returnErrorAsCstring \<circ> errorCode_value) (set all_errorCodes)"
    using distinct_errorCode_names by (simp add: distinct_map)
  then show ?thesis using all_errorCodes_complete by (auto simp: inj_on_def)
qed

lemma returnErrorAsCstring_other:
  assumes "v \<notin> range errorCode_value"
  shows "returnErrorAsCstring v = ''Err::Error_code_not_implemented_yet''"
proof -
  have ne: "v \<noteq> errorCode_value e" for e using assms by blast
  show ?thesis unfolding returnErrorAsCstring_def by (simp only: ne if_False)
qed

text \<open>\<^verbatim>\<open>returnErrorAsCstring\<close> prints distinct enumerators under distinct names, never
  prints an enumerator as the catch-all string, and prints every other 64-bit value as the
  catch-all string.\<close>

theorem returnErrorAsCstring_faithful:
  "(returnErrorAsCstring (errorCode_value a) = returnErrorAsCstring (errorCode_value b))
     = (a = b) \<and>
   (returnErrorAsCstring v = ''Err::Error_code_not_implemented_yet'')
     = (v \<notin> range errorCode_value)"
  using injD [OF inj_errorCode_name] names_not_fallback all_errorCodes_complete
    returnErrorAsCstring_other [of v] by auto

section \<open>Codes compare by value\<close>

instantiation errorCode :: linorder
begin

definition less_eq_errorCode :: "errorCode \<Rightarrow> errorCode \<Rightarrow> bool" where
  "less_eq_errorCode a b \<longleftrightarrow> errorCode_value a \<le> errorCode_value b"

definition less_errorCode :: "errorCode \<Rightarrow> errorCode \<Rightarrow> bool" where
  "less_errorCode a b \<longleftrightarrow> errorCode_value a < errorCode_value b"

instance
proof
  fix a b c :: errorCode
  show "(a < b) = (a \<le> b \<and> \<not> b \<le> a)"
    by (auto simp: less_eq_errorCode_def less_errorCode_def less_le)
  show "a \<le> a" by (simp add: less_eq_errorCode_def)
  show "a \<le> b \<Longrightarrow> b \<le> c \<Longrightarrow> a \<le> c"
    by (auto simp: less_eq_errorCode_def)
  show "a \<le> b \<Longrightarrow> b \<le> a \<Longrightarrow> a = b"
    by (auto simp: less_eq_errorCode_def dest: order.antisym)
  show "a \<le> b \<or> b \<le> a"
    by (auto simp: less_eq_errorCode_def)
qed

end

end
