(* ===== verification/Expected.thy ===== *)
theory Expected
  imports ErrorCodes
begin

text \<open>
  \<^verbatim>\<open>AurenFox::core::Expected\<close> and \<^verbatim>\<open>unexpected\<close> (\<^verbatim>\<open>include/expected.hpp\<close>): a union of a
  value and an error with a flag that says which member is alive. The class is modelled with
  its raw storage, so that reading the member that is not alive is visible; the lemmas show
  that its constructors keep flag and storage consistent, so that the class implements the sum
  type the other theories use.
\<close>

section \<open>The class\<close>

datatype ('a, 'e) Storage = NoMember | Value 'a | Error 'e

record ('a, 'e) Expected =
  storage :: "('a, 'e) Storage"
  has_value_flag :: bool

record 'e unexpected =
  unexpected_error :: 'e

definition Expected_of_value :: "'a \<Rightarrow> ('a, 'e) Expected" where
  "Expected_of_value val = \<lparr>storage = Value val, has_value_flag = True\<rparr>"

definition Expected_of_unexpected :: "'e unexpected \<Rightarrow> ('a, 'e) Expected" where
  "Expected_of_unexpected err = \<lparr>storage = Error (unexpected_error err), has_value_flag = False\<rparr>"

definition Expected_of_error :: "'e \<Rightarrow> ('a, 'e) Expected" where
  "Expected_of_error err = \<lparr>storage = Error err, has_value_flag = False\<rparr>"

definition has_value :: "('a, 'e) Expected \<Rightarrow> bool" where
  "has_value x = has_value_flag x"

text \<open>\<open>None\<close> is the read of a union member that is not alive.\<close>

definition get_value :: "('a, 'e) Expected \<Rightarrow> 'a option" where
  "get_value x = (case storage x of Value v \<Rightarrow> Some v | _ \<Rightarrow> None)"

definition get_error :: "('a, 'e) Expected \<Rightarrow> 'e option" where
  "get_error x = (case storage x of Error e \<Rightarrow> Some e | _ \<Rightarrow> None)"

text \<open>The destructor destroys the member the flag names; \<open>None\<close> when that is not the member
  that is alive.\<close>

definition destroy :: "('a, 'e) Expected \<Rightarrow> ('a, 'e) Storage option" where
  "destroy x =
    (if has_value_flag x then (case storage x of Value _ \<Rightarrow> Some NoMember | _ \<Rightarrow> None)
     else (case storage x of Error _ \<Rightarrow> Some NoMember | _ \<Rightarrow> None))"

section \<open>The class implements a sum\<close>

type_synonym 'a expected = "errorCode + 'a"

definition wf_Expected :: "('a, 'e) Expected \<Rightarrow> bool" where
  "wf_Expected x = (case storage x of
     NoMember \<Rightarrow> False | Value _ \<Rightarrow> has_value_flag x | Error _ \<Rightarrow> \<not> has_value_flag x)"

definition to_sum :: "('a, 'e) Expected \<Rightarrow> 'e + 'a" where
  "to_sum x = (case storage x of
     Value v \<Rightarrow> Inr v | Error e \<Rightarrow> Inl e | NoMember \<Rightarrow> undefined)"

lemmas Expected_defs = Expected_of_value_def Expected_of_error_def Expected_of_unexpected_def
  has_value_def get_value_def get_error_def destroy_def wf_Expected_def to_sum_def

lemma wf_Expected_constructors:
  "wf_Expected (Expected_of_value v)" "wf_Expected (Expected_of_error e)"
  "wf_Expected (Expected_of_unexpected u)"
  by (simp_all add: Expected_defs)

lemma to_sum_constructors [simp]:
  "to_sum (Expected_of_value v) = Inr v" "to_sum (Expected_of_error e) = Inl e"
  "to_sum (Expected_of_unexpected u) = Inl (unexpected_error u)"
  by (simp_all add: Expected_defs)

lemma wf_Expected_access:
  assumes "wf_Expected x"
  shows "if has_value x then get_value x = Some (projr (to_sum x)) \<and> get_error x = None
         else get_error x = Some (projl (to_sum x)) \<and> get_value x = None"
  using assms by (auto simp: Expected_defs split: Storage.splits)

lemma wf_Expected_destroy: "wf_Expected x \<Longrightarrow> destroy x = Some NoMember"
  by (auto simp: Expected_defs split: Storage.splits)

end
