(* ===== verification/KString.thy ===== *)
theory KString
  imports Prelude "HOL-Library.List_Lexorder"
begin

text \<open>
  \<^verbatim>\<open>AlopexOS::basic_string<SSO_Capacity>\<close> and \<^verbatim>\<open>string_view\<close> (\<^verbatim>\<open>include/string.hpp\<close>). A string
  is kept in a buffer inside the object until it outgrows \<^verbatim>\<open>SSO_Capacity\<close>, then in a heap
  buffer with a capacity. The template parameter is the first argument \<open>cap\<close> of the
  operations that depend on it.

  The model keeps the union (\<open>SSO\<close> or \<open>HEAP\<close>), the flag and the length, and every
  store is bounds-checked: \<open>None\<close> is a store or a read outside a buffer. The theorems show
  that under the class invariant no operation faults and that the class implements byte
  lists: \<open>str_abs\<close> is the abstraction function. Lengths are natural numbers: each is the
  length of a byte sequence that is in memory, so 64-bit sums of two of them do not wrap. The heap is
  taken to have the block a growing string asks for (when it has not, \<^verbatim>\<open>operator new\<close> halts the kernel).
  A source that points into the string's own buffer is passed by its contents at the call;
  the code makes the copy \<^verbatim>\<open>local_buf\<close> of it, or reads only below the old length and writes
  only from it on.
\<close>

section \<open>State\<close>

record heap_repr =
  ptr :: bytes
  heap_size :: nat
  heap_capacity :: nat

datatype string_storage = SSO bytes | HEAP heap_repr

record basic_string =
  str_storage :: string_storage
  is_sso :: bool
  str_length :: nat

record string_view =
  view_data :: "bytes option"
  view_length :: nat

section \<open>Operations\<close>

definition str_init :: "nat \<Rightarrow> basic_string" where
  "str_init cap = \<lparr>str_storage = SSO (replicate (cap + 1) 0), is_sso = True, str_length = 0\<rparr>"

definition c_str :: "basic_string \<Rightarrow> bytes" where
  "c_str s = (case str_storage s of SSO b \<Rightarrow> b | HEAP h \<Rightarrow> ptr h)"

definition str_capacity :: "nat \<Rightarrow> basic_string \<Rightarrow> nat" where
  "str_capacity cap s = (case str_storage s of SSO b \<Rightarrow> cap | HEAP h \<Rightarrow> heap_capacity h)"

definition str_empty :: "basic_string \<Rightarrow> bool" where
  "str_empty s \<longleftrightarrow> str_length s = 0"

definition str_clear :: "nat \<Rightarrow> basic_string \<Rightarrow> basic_string" where
  "str_clear cap s =
     \<lparr>str_storage = SSO (case str_storage s of SSO b \<Rightarrow> b[0 := 0] | HEAP h \<Rightarrow> replicate (cap + 1) 0),
      is_sso = True, str_length = 0\<rparr>"

text \<open>\<^verbatim>\<open>append(const char* str, u64 len)\<close>, branch by branch.\<close>

definition str_append :: "nat \<Rightarrow> basic_string \<Rightarrow> bytes \<Rightarrow> nat \<Rightarrow> basic_string option" where
  "str_append cap s str len =
    (if len = 0 then Some s
     else if length str < len then None
     else
       let src = take len str; n = str_length s; new_len = n + len in
       (case str_storage s of
          SSO b \<Rightarrow>
            (if new_len \<le> cap then do {
               b1 \<leftarrow> store_at b n src;
               b2 \<leftarrow> store_at b1 new_len [0];
               Some (s\<lparr>str_storage := SSO b2, str_length := new_len\<rparr>) }
             else do {
               let new_cap = (if new_len * 2 < 32 then 32 else new_len * 2);
               p1 \<leftarrow> store_at (replicate (new_cap + 1) 0) 0 (take n b);
               p2 \<leftarrow> store_at p1 n src;
               p3 \<leftarrow> store_at p2 new_len [0];
               Some \<lparr>str_storage = HEAP \<lparr>ptr = p3, heap_size = new_len, heap_capacity = new_cap\<rparr>,
                     is_sso = False, str_length = new_len\<rparr> })
        | HEAP h \<Rightarrow>
            (if new_len \<le> heap_capacity h then do {
               p1 \<leftarrow> store_at (ptr h) n src;
               p2 \<leftarrow> store_at p1 new_len [0];
               Some (s\<lparr>str_storage := HEAP (h\<lparr>ptr := p2, heap_size := new_len\<rparr>),
                       str_length := new_len\<rparr>) }
             else do {
               let new_cap = new_len * 2;
               p1 \<leftarrow> store_at (replicate (new_cap + 1) 0) 0 (take n (ptr h));
               p2 \<leftarrow> store_at p1 n src;
               p3 \<leftarrow> store_at p2 new_len [0];
               Some (s\<lparr>str_storage := HEAP \<lparr>ptr = p3, heap_size = new_len, heap_capacity = new_cap\<rparr>,
                       str_length := new_len\<rparr>) })))"

definition str_append_char :: "nat \<Rightarrow> basic_string \<Rightarrow> u8 \<Rightarrow> basic_string option" where
  "str_append_char cap s ch = str_append cap s [ch] 1"

text \<open>\<^verbatim>\<open>while (cstr[len] != '\0') len++;\<close>: \<open>None\<close> when the array holds no terminator.\<close>

fun cstr_length :: "bytes \<Rightarrow> nat option" where
  "cstr_length [] = None"
| "cstr_length (c # cs) = (if c = 0 then Some 0 else map_option Suc (cstr_length cs))"

definition str_append_cstr :: "nat \<Rightarrow> basic_string \<Rightarrow> bytes option \<Rightarrow> basic_string option" where
  "str_append_cstr cap s p = (case p of
     None \<Rightarrow> Some s
   | Some cs \<Rightarrow> do { len \<leftarrow> cstr_length cs; str_append cap s cs len })"

definition str_of_cstr :: "nat \<Rightarrow> bytes option \<Rightarrow> basic_string option" where
  "str_of_cstr cap p = str_append_cstr cap (str_init cap) p"

definition str_copy :: "nat \<Rightarrow> basic_string \<Rightarrow> basic_string option" where
  "str_copy cap other = str_append cap (str_init cap) (c_str other) (str_length other)"

text \<open>Copy assignment between two different objects, and of an object to itself.\<close>

definition str_assign :: "nat \<Rightarrow> basic_string \<Rightarrow> basic_string \<Rightarrow> basic_string option" where
  "str_assign cap s other = str_append cap (str_clear cap s) (c_str other) (str_length other)"

text \<open>The move constructor: the new object and the emptied source.\<close>

definition str_move :: "nat \<Rightarrow> basic_string \<Rightarrow> (basic_string \<times> basic_string) option" where
  "str_move cap other = (case str_storage other of
     SSO b \<Rightarrow> do {
       b1 \<leftarrow> store_at (replicate (cap + 1) 0) 0 (take (str_length other + 1) b);
       Some (\<lparr>str_storage = SSO b1, is_sso = is_sso other, str_length = str_length other\<rparr>,
             other\<lparr>str_storage := SSO (b[0 := 0]), is_sso := True, str_length := 0\<rparr>) }
   | HEAP h \<Rightarrow>
       Some (\<lparr>str_storage = HEAP h, is_sso = is_sso other, str_length = str_length other\<rparr>,
             str_init cap))"

definition view_of :: "basic_string \<Rightarrow> string_view" where
  "view_of s = \<lparr>view_data = Some (c_str s), view_length = str_length s\<rparr>"

text \<open>The comparison loops. \<^verbatim>\<open>char\<close> is signed on the target, so \<open>sint\<close> orders it.\<close>

fun eq_loop :: "bytes \<Rightarrow> bytes \<Rightarrow> nat list \<Rightarrow> bool" where
  "eq_loop a b [] = True"
| "eq_loop a b (i # is) = (if a ! i \<noteq> b ! i then False else eq_loop a b is)"

definition str_eq :: "basic_string \<Rightarrow> basic_string \<Rightarrow> bool" where
  "str_eq lhs rhs =
    (if str_length lhs \<noteq> str_length rhs then False
     else eq_loop (c_str lhs) (c_str rhs) [0..<str_length lhs])"

fun less_loop :: "bytes \<Rightarrow> bytes \<Rightarrow> nat list \<Rightarrow> bool \<Rightarrow> bool" where
  "less_loop a b [] r = r"
| "less_loop a b (i # is) r =
     (if sint (a ! i) < sint (b ! i) then True
      else if sint (b ! i) < sint (a ! i) then False
      else less_loop a b is r)"

definition str_less :: "basic_string \<Rightarrow> basic_string \<Rightarrow> bool" where
  "str_less lhs rhs =
     less_loop (c_str lhs) (c_str rhs) [0..<min (str_length lhs) (str_length rhs)]
       (str_length lhs < str_length rhs)"

definition str_ne :: "basic_string \<Rightarrow> basic_string \<Rightarrow> bool" where
  "str_ne lhs rhs \<longleftrightarrow> \<not> str_eq lhs rhs"
definition str_greater :: "basic_string \<Rightarrow> basic_string \<Rightarrow> bool" where
  "str_greater lhs rhs \<longleftrightarrow> str_less rhs lhs"
definition str_le :: "basic_string \<Rightarrow> basic_string \<Rightarrow> bool" where
  "str_le lhs rhs \<longleftrightarrow> \<not> str_less rhs lhs"
definition str_ge :: "basic_string \<Rightarrow> basic_string \<Rightarrow> bool" where
  "str_ge lhs rhs \<longleftrightarrow> \<not> str_less lhs rhs"

section \<open>Invariant and abstraction\<close>

definition str_inv :: "nat \<Rightarrow> basic_string \<Rightarrow> bool" where
  "str_inv cap s = (case str_storage s of
     SSO b \<Rightarrow> is_sso s \<and> length b = cap + 1 \<and> str_length s \<le> cap \<and> b ! str_length s = 0
   | HEAP h \<Rightarrow> \<not> is_sso s \<and> length (ptr h) = heap_capacity h + 1 \<and>
       str_length s \<le> heap_capacity h \<and> heap_size h = str_length s \<and> ptr h ! str_length s = 0)"

definition str_abs :: "basic_string \<Rightarrow> bytes" where
  "str_abs s = take (str_length s) (c_str s)"

lemma length_str_abs: "str_inv cap s \<Longrightarrow> length (str_abs s) = str_length s"
  by (auto simp: str_inv_def str_abs_def c_str_def split: string_storage.splits)

lemma str_inv_init: "str_inv cap (str_init cap)"
  by (simp add: str_inv_def str_init_def)

lemma str_abs_init [simp]: "str_abs (str_init cap) = []"
  by (simp add: str_abs_def str_init_def)

lemma str_inv_clear: "str_inv cap s \<Longrightarrow> str_inv cap (str_clear cap s)"
  by (auto simp: str_inv_def str_clear_def split: string_storage.splits)

lemma str_abs_clear [simp]: "str_abs (str_clear cap s) = []"
  by (simp add: str_abs_def str_clear_def)

lemma str_empty_iff: "str_inv cap s \<Longrightarrow> str_empty s \<longleftrightarrow> str_abs s = []"
  using length_str_abs [of cap s] by (auto simp: str_empty_def)

text \<open>A store of the new bytes and of the terminator behind a prefix.\<close>

lemma append_stores:
  assumes "length src = len" and "n + len < length b"
  obtains b1 b2 where "store_at b n src = Some b1" "store_at b1 (n + len) [0 :: u8] = Some b2"
    "length b2 = length b" "take (n + len) b2 = take n b @ src" "b2 ! (n + len) = 0"
  using assms by (auto simp: store_at_Some nth_append min_def intro!: that)

lemma store_at_fresh:
  "length xs \<le> c \<Longrightarrow>
     store_at (replicate (c + 1) 0) 0 xs = Some (xs @ replicate (c + 1 - length xs) 0)"
  by (simp add: store_at_Some del: replicate_Suc)

lemma str_append_correct:
  assumes inv: "str_inv cap s" and len: "len \<le> length str"
  obtains s' where "str_append cap s str len = Some s'" "str_inv cap s'"
    "str_abs s' = str_abs s @ take len str"
proof (cases "len = 0")
  case True
  then show ?thesis using inv that [of s] by (simp add: str_append_def)
next
  case False
  let ?src = "take len str" and ?n = "str_length s"
  have lsrc: "length ?src = len" using len by simp
  show ?thesis
  proof (cases "str_storage s")
    case (SSO b)
    show ?thesis
    proof (cases "?n + len \<le> cap")
      case True
      obtain b1 b2 where "store_at b ?n ?src = Some b1" "store_at b1 (?n + len) [0] = Some b2"
        "length b2 = length b" "take (?n + len) b2 = take ?n b @ ?src" "b2 ! (?n + len) = 0"
        by (rule append_stores [OF lsrc, of ?n b]) (use inv SSO True in \<open>auto simp: str_inv_def\<close>)
      then show ?thesis
        using that [of "s\<lparr>str_storage := SSO b2, str_length := ?n + len\<rparr>"] SSO inv True False len
        by (simp add: str_append_def str_inv_def str_abs_def c_str_def Let_def)
    next
      case grow: False
      let ?c = "if (?n + len) * 2 < 32 then 32 else (?n + len) * 2"
      let ?p = "take ?n b @ replicate (?c + 1 - ?n) 0"
      have lb: "length (take ?n b) = ?n" using inv SSO by (simp add: str_inv_def)
      then have p: "store_at (replicate (?c + 1) 0) 0 (take ?n b) = Some ?p" "length ?p = ?c + 1"
        using store_at_fresh [of "take ?n b" ?c] by (simp_all del: replicate_Suc)
      obtain p2 p3 where "store_at ?p ?n ?src = Some p2" "store_at p2 (?n + len) [0] = Some p3"
        "length p3 = ?c + 1" "take (?n + len) p3 = take ?n b @ ?src" "p3 ! (?n + len) = 0"
        by (rule append_stores [OF lsrc, of ?n ?p]) (use p(2) lb in auto)
      then show ?thesis
        using that [of "\<lparr>str_storage = HEAP \<lparr>ptr = p3, heap_size = ?n + len, heap_capacity = ?c\<rparr>,
            is_sso = False, str_length = ?n + len\<rparr>"] SSO inv grow False len p
        by (simp add: str_append_def str_inv_def str_abs_def c_str_def Let_def)
    qed
  next
    case (HEAP h)
    show ?thesis
    proof (cases "?n + len \<le> heap_capacity h")
      case True
      obtain b1 b2 where "store_at (ptr h) ?n ?src = Some b1"
        "store_at b1 (?n + len) [0] = Some b2" "length b2 = length (ptr h)"
        "take (?n + len) b2 = take ?n (ptr h) @ ?src" "b2 ! (?n + len) = 0"
        by (rule append_stores [OF lsrc, of ?n "ptr h"])
          (use inv HEAP True in \<open>auto simp: str_inv_def\<close>)
      then show ?thesis
        using that [of "s\<lparr>str_storage := HEAP (h\<lparr>ptr := b2, heap_size := ?n + len\<rparr>),
            str_length := ?n + len\<rparr>"] HEAP inv True False len
        by (simp add: str_append_def str_inv_def str_abs_def c_str_def Let_def)
    next
      case grow: False
      let ?c = "(?n + len) * 2"
      let ?p = "take ?n (ptr h) @ replicate (?c + 1 - ?n) 0"
      have lb: "length (take ?n (ptr h)) = ?n" using inv HEAP by (simp add: str_inv_def)
      then have p: "store_at (replicate (?c + 1) 0) 0 (take ?n (ptr h)) = Some ?p"
        "length ?p = ?c + 1"
        using store_at_fresh [of "take ?n (ptr h)" ?c] by (simp_all del: replicate_Suc)
      obtain p2 p3 where "store_at ?p ?n ?src = Some p2" "store_at p2 (?n + len) [0] = Some p3"
        "length p3 = ?c + 1" "take (?n + len) p3 = take ?n (ptr h) @ ?src"
        "p3 ! (?n + len) = 0"
        by (rule append_stores [OF lsrc, of ?n ?p]) (use p(2) lb False in auto)
      then show ?thesis
        using that [of "s\<lparr>str_storage := HEAP \<lparr>ptr = p3, heap_size = ?n + len,
            heap_capacity = ?c\<rparr>, str_length := ?n + len\<rparr>"] HEAP inv grow False len p
        by (simp add: str_append_def str_inv_def str_abs_def c_str_def Let_def)
    qed
  qed
qed

lemma str_append_char_correct:
  assumes "str_inv cap s"
  obtains s' where "str_append_char cap s c = Some s'" "str_inv cap s'"
    "str_abs s' = str_abs s @ [c]"
  using assms by (auto simp: str_append_char_def elim: str_append_correct [of cap s 1 "[c]"])

lemma length_c_str: "str_inv cap s \<Longrightarrow> str_length s < length (c_str s)"
  by (auto simp: str_inv_def c_str_def split: string_storage.splits)

lemma str_copy_correct:
  assumes "str_inv cap' s"
  obtains s' where "str_copy cap s = Some s'" "str_inv cap s'" "str_abs s' = str_abs s"
  using str_append_correct [OF str_inv_init, of "str_length s" "c_str s" cap]
    length_c_str [OF assms]
  by (auto simp: str_copy_def str_abs_def [of s])

lemma str_assign_correct:
  assumes "str_inv cap s" and "str_inv cap' t"
  obtains s' where "str_assign cap s t = Some s'" "str_inv cap s'" "str_abs s' = str_abs t"
  using str_append_correct [OF str_inv_clear [OF assms(1)], of "str_length t" "c_str t"]
    length_c_str [OF assms(2)]
  by (auto simp: str_assign_def str_abs_def [of t])

lemma str_move_correct:
  assumes inv: "str_inv cap s"
  obtains a b where "str_move cap s = Some (a, b)" "str_inv cap a" "str_inv cap b"
    "str_abs a = str_abs s" "str_abs b = []"
proof (cases "str_storage s")
  case (SSO buf)
  let ?n = "str_length s"
  let ?b1 = "take (?n + 1) buf @ replicate (cap - ?n) 0"
  have buf: "length buf = cap + 1" "?n \<le> cap" "buf ! ?n = 0" "is_sso s"
    using inv SSO by (simp_all add: str_inv_def)
  then have "store_at (replicate (cap + 1) 0) 0 (take (?n + 1) buf) = Some ?b1"
    by (simp add: store_at_Some del: replicate_Suc)
  moreover have "?b1 ! ?n = 0" "take ?n ?b1 = take ?n buf"
    using buf by (simp_all add: nth_append min_def)
  ultimately show ?thesis
    using that SSO buf by (simp add: str_move_def str_inv_def str_abs_def c_str_def)
next
  case (HEAP h)
  then show ?thesis
    using that inv by (simp add: str_move_def str_inv_def str_init_def str_abs_def c_str_def)
qed

section \<open>C strings\<close>

lemma cstr_length_eq: "0 \<in> set cs \<Longrightarrow> cstr_length cs = Some (length (cstr cs))"
  by (induction cs) (auto simp: cstr_Cons)

lemma take_cstr: "take (length (cstr cs)) cs = cstr cs"
  by (induction cs) (auto simp: cstr_Cons)

lemma length_cstr_le: "length (cstr cs) \<le> length cs"
  by (simp add: cstr_def length_takeWhile_le)

lemma str_append_cstr_correct:
  assumes "str_inv cap s" and "0 \<in> set cs"
  obtains s' where "str_append_cstr cap s (Some cs) = Some s'" "str_inv cap s'"
    "str_abs s' = str_abs s @ cstr cs"
  using str_append_correct [OF assms(1) length_cstr_le] assms(2)
  by (auto simp: str_append_cstr_def cstr_length_eq take_cstr)

lemma str_of_cstr_correct:
  assumes "0 \<in> set cs"
  obtains s' where "str_of_cstr cap (Some cs) = Some s'" "str_inv cap s'"
    "str_abs s' = cstr cs"
  using str_append_cstr_correct [OF str_inv_init assms] by (auto simp: str_of_cstr_def)

section \<open>Comparisons\<close>

lemma eq_loop_iff: "eq_loop a b is \<longleftrightarrow> (\<forall>i \<in> set is. a ! i = b ! i)"
  by (induction "is") auto

lemma str_eq_iff:
  assumes "str_inv c s" and "str_inv d t"
  shows "str_eq s t \<longleftrightarrow> str_abs s = str_abs t"
proof -
  have "str_length s < length (c_str s)" "str_length t < length (c_str t)"
    using assms by (auto intro: length_c_str)
  then show ?thesis
    by (auto simp: str_eq_def eq_loop_iff str_abs_def list_eq_iff_nth_eq)
qed

lemma word_of_int_sint_aux: "word_of_int (sint (x :: 'a::len word)) = x"
  by simp

lemma sint_eq_iff: "sint (x :: 'a::len word) = sint y \<longleftrightarrow> x = y"
  by (metis word_of_int_sint_aux)

lemma Nil_less_iff: "([] :: int list) < xs \<longleftrightarrow> xs \<noteq> []"
  by (cases xs) auto

lemma less_loop_iff:
  assumes "m \<le> length a" and "n \<le> length b" and "k \<le> min m n"
  shows "less_loop a b [k..<min m n] (m < n) \<longleftrightarrow>
    map sint (drop k (take m a)) < map sint (drop k (take n b))"
  using assms(3)
proof (induction "min m n - k" arbitrary: k)
  case 0
  then have "k = min m n" by simp
  with assms show ?case by (cases "m < n") (auto simp: not_less min_def Nil_less_iff)
next
  case (Suc d)
  from Suc.hyps(2) have k: "k < min m n" by (metis zero_less_Suc zero_less_diff)
  have IH: "less_loop a b [Suc k..<min m n] (m < n) \<longleftrightarrow>
      map sint (drop (Suc k) (take m a)) < map sint (drop (Suc k) (take n b))"
    using Suc.hyps(2) k by (intro Suc.hyps(1)) auto
  have a: "drop k (take m a) = a ! k # drop (Suc k) (take m a)"
    using k assms(1) Cons_nth_drop_Suc [of k "take m a"] by simp
  have b: "drop k (take n b) = b ! k # drop (Suc k) (take n b)"
    using k assms(2) Cons_nth_drop_Suc [of k "take n b"] by simp
  have r: "[k..<min m n] = k # [Suc k..<min m n]" using k by (simp add: upt_conv_Cons)
  show ?case unfolding a b r using IH by (auto simp: sint_eq_iff)
qed

lemma str_less_iff:
  assumes "str_inv c s" and "str_inv d t"
  shows "str_less s t \<longleftrightarrow> map sint (str_abs s) < map sint (str_abs t)"
  using less_loop_iff [of "str_length s" "c_str s" "str_length t" "c_str t" 0]
    length_c_str [OF assms(1)] length_c_str [OF assms(2)]
  by (simp add: str_less_def str_abs_def)

section \<open>Strings as an interface\<close>

text \<open>
  What the file systems rely on: a growing sequence of bytes that can be compared.
\<close>

locale string_adt = seq emp app clr abs invar
  for emp :: "'s" and app :: "'s \<Rightarrow> u8 \<Rightarrow> 's option" and clr :: "'s \<Rightarrow> 's"
    and abs :: "'s \<Rightarrow> bytes" and invar :: "'s \<Rightarrow> bool" +
  fixes is_emp :: "'s \<Rightarrow> bool"
    and eq :: "'s \<Rightarrow> 's \<Rightarrow> bool"
    and less :: "'s \<Rightarrow> 's \<Rightarrow> bool"
  assumes is_emp: "invar s \<Longrightarrow> is_emp s \<longleftrightarrow> abs s = []"
    and eq: "invar s \<Longrightarrow> invar t \<Longrightarrow> eq s t \<longleftrightarrow> abs s = abs t"
    and less: "invar s \<Longrightarrow> invar t \<Longrightarrow> less s t \<longleftrightarrow> map sint (abs s) < map sint (abs t)"
begin

lemma built_eq_iff:
  assumes "append_all app emp xs = Some s" and "append_all app emp ys = Some t"
  shows "eq s t \<longleftrightarrow> xs = ys"
  using assms build_correct [of xs] build_correct [of ys] by (auto simp: eq)

lemma trichotomy:
  assumes "invar s" and "invar t"
  shows "eq s t \<or> less s t \<or> less t s"
proof -
  have "map sint (abs s) = map sint (abs t) \<longleftrightarrow> abs s = abs t"
    by (simp add: inj_map_eq_map inj_def sint_eq_iff)
  then show ?thesis
    using assms linorder_less_linear [of "map sint (abs s)" "map sint (abs t)"]
    by (auto simp: eq less)
qed

end

interpretation kstr: string_adt "str_init cap" "str_append_char cap" "str_clear cap" str_abs
    "str_inv cap" str_empty str_eq str_less for cap
proof unfold_locales
  fix s c assume "str_inv cap s"
  then show "\<exists>s'. str_append_char cap s c = Some s' \<and> str_inv cap s' \<and> str_abs s' = str_abs s @ [c]"
    by (metis str_append_char_correct)
qed (auto simp: str_inv_init str_empty_iff str_inv_clear str_eq_iff str_less_iff)

text \<open>Appending to a string never reads or writes outside a buffer, whichever of the four
  growth paths is taken, keeps the class invariant (in-object buffer or heap buffer,
  terminator in place, capacity respected), and appends the bytes.\<close>

theorem str_append_refines:
  assumes "str_inv cap s" and "len \<le> length str"
  shows "\<exists>s'. str_append cap s str len = Some s' \<and> str_inv cap s' \<and>
    str_abs s' = str_abs s @ take len str"
  using assms by (metis str_append_correct)

theorem str_append_refines_witness:
  "\<exists>s'. str_append 3 (str_init 3) [65, 66, 67, 68, 69] 5 = Some s' \<and> str_inv 3 s' \<and>
    str_abs s' = [65, 66, 67, 68, 69]"
  using str_append_refines [OF str_inv_init, of 5 "[65, 66, 67, 68, 69]" 3] by simp

text \<open>Copying, assigning and moving strings transports the bytes: copy and copy assignment
  give an equal string, a move empties its source, and equality and order of strings are
  equality and the lexicographic order (of signed characters) of their bytes, even between
  strings of different in-object capacities.\<close>

theorem str_value_semantics:
  assumes "str_inv c s" and "str_inv d t"
  shows "(\<exists>s'. str_copy e s = Some s' \<and> str_inv e s' \<and> str_abs s' = str_abs s) \<and>
    (\<exists>s'. str_assign c s t = Some s' \<and> str_inv c s' \<and> str_abs s' = str_abs t) \<and>
    (\<exists>a b. str_move c s = Some (a, b) \<and> str_abs a = str_abs s \<and> str_abs b = []) \<and>
    str_eq s t = (str_abs s = str_abs t) \<and>
    str_less s t = (map sint (str_abs s) < map sint (str_abs t))"
proof (intro conjI)
  show "\<exists>s'. str_copy e s = Some s' \<and> str_inv e s' \<and> str_abs s' = str_abs s"
    by (rule str_copy_correct [OF assms(1), of e]) blast
  show "\<exists>s'. str_assign c s t = Some s' \<and> str_inv c s' \<and> str_abs s' = str_abs t"
    by (rule str_assign_correct [OF assms]) blast
  show "\<exists>a b. str_move c s = Some (a, b) \<and> str_abs a = str_abs s \<and> str_abs b = []"
    by (rule str_move_correct [OF assms(1)]) blast
qed (use assms in \<open>simp_all add: str_eq_iff str_less_iff\<close>)

theorem str_value_semantics_witness:
  "str_inv 3 (str_init 3) \<and> str_inv 8 (str_init 8) \<and> str_eq (str_init 3) (str_init 8)"
  using str_value_semantics [OF str_inv_init [of 3] str_inv_init [of 8], of 5]
  by (simp add: str_inv_init)

end
