(* ===== verification/DynArr.thy ===== *)
theory DynArr
  imports KString
begin

text \<open>
  \<^verbatim>\<open>arr<T, N>\<close> and \<^verbatim>\<open>dynarr<T>\<close> (\<^verbatim>\<open>include/arr.hpp\<close>). A \<^verbatim>\<open>dynarr\<close> is a pointer, a size and a
  capacity. The pointer is null, points to heap memory of \<open>capacity\<close> slots (\<open>None\<close>: raw
  memory, \<open>Some x\<close>: a constructed element), or, after \<^verbatim>\<open>dynarr(external, n)\<close>, to memory the
  array does not own, with capacity 0.

  An operation is \<open>None\<close> where the C++ code has no defined behaviour: a placement-new or
  access outside the buffer, or \<^verbatim>\<open>operator delete\<close> of a pointer that the kernel heap never
  handed out. The theorems show that arrays the class owns never reach such a point and
  implement lists, and that growing a view of external memory always does.

  Sizes are natural numbers and an allocation always succeeds. So the model speaks of the code only while
  the bytes asked for, \<^verbatim>\<open>sizeof(T) * new_cap\<close>, stay below \<open>2^64\<close>, where the product of \<^verbatim>\<open>grow\<close> wraps, and the
  kernel heap has them; otherwise \<^verbatim>\<open>operator new\<close> halts the kernel.
\<close>

section \<open>Fixed arrays of bytes\<close>

text \<open>\<^verbatim>\<open>arr<byte, N>(cstring)\<close> and \<^verbatim>\<open>operator=(cstring)\<close>: zero-fill, then copy up to \<open>N\<close>
  characters or the terminator. The index is an \<^verbatim>\<open>int\<close>; the loop reads \<^verbatim>\<open>cstring[i]\<close> before
  it compares \<open>i\<close> with \<open>N\<close>.\<close>

fun arr_copy_loop :: "nat \<Rightarrow> bytes \<Rightarrow> nat \<Rightarrow> bytes \<Rightarrow> bytes option" where
  "arr_copy_loop n dst i [] = None"
| "arr_copy_loop n dst i (c # cs) =
     (if c = 0 \<or> n \<le> i then Some dst else arr_copy_loop n (dst[i := c]) (Suc i) cs)"

definition arr_of_cstr :: "nat \<Rightarrow> bytes option \<Rightarrow> bytes option" where
  "arr_of_cstr n p = (case p of
     None \<Rightarrow> Some (replicate n 0)
   | Some cs \<Rightarrow> arr_copy_loop n (replicate n 0) 0 cs)"

section \<open>Dynamic arrays: state and operations\<close>

datatype 'a mem = Nullptr | External "'a list" | HeapBuf "'a option list"

record 'a dynarr =
  data :: "'a mem"
  size_field :: nat
  capacity_field :: nat

definition dyn_init :: "'a dynarr" where
  "dyn_init = \<lparr>data = Nullptr, size_field = 0, capacity_field = 0\<rparr>"

definition dyn_view :: "'a list option \<Rightarrow> nat \<Rightarrow> 'a dynarr" where
  "dyn_view p n = \<lparr>data = (case p of None \<Rightarrow> Nullptr | Some xs \<Rightarrow> External xs),
                   size_field = n, capacity_field = 0\<rparr>"

definition mem_read :: "'a mem \<Rightarrow> nat \<Rightarrow> 'a option" where
  "mem_read m i = (case m of
     Nullptr \<Rightarrow> None
   | External xs \<Rightarrow> (if i < length xs then Some (xs ! i) else None)
   | HeapBuf xs \<Rightarrow> (if i < length xs then xs ! i else None))"

definition mem_write :: "'a mem \<Rightarrow> nat \<Rightarrow> 'a \<Rightarrow> 'a mem option" where
  "mem_write m i x = (case m of
     Nullptr \<Rightarrow> None
   | External xs \<Rightarrow> (if i < length xs then Some (External (xs[i := x])) else None)
   | HeapBuf xs \<Rightarrow> (if i < length xs then Some (HeapBuf (xs[i := Some x])) else None))"

definition mem_destroy :: "'a mem \<Rightarrow> nat \<Rightarrow> 'a mem" where
  "mem_destroy m i = (case m of HeapBuf xs \<Rightarrow> HeapBuf (xs[i := None]) | _ \<Rightarrow> m)"

text \<open>\<^verbatim>\<open>::operator delete(p)\<close>: nothing for null, undefined for memory the heap never gave out.\<close>

definition mem_delete :: "'a mem \<Rightarrow> unit option" where
  "mem_delete m = (case m of Nullptr \<Rightarrow> Some () | External _ \<Rightarrow> None | HeapBuf _ \<Rightarrow> Some ())"

fun read_all :: "'a mem \<Rightarrow> nat list \<Rightarrow> 'a list option" where
  "read_all m [] = Some []"
| "read_all m (i # is) = do { x \<leftarrow> mem_read m i; xs \<leftarrow> read_all m is; Some (x # xs) }"

fun write_all :: "'a mem \<Rightarrow> nat \<Rightarrow> 'a list \<Rightarrow> 'a mem option" where
  "write_all m i [] = Some m"
| "write_all m i (x # xs) = mem_write m i x \<bind> (\<lambda>m'. write_all m' (Suc i) xs)"

text \<open>The first loop of \<open>grow\<close> moves every element into the new buffer.\<close>

definition dyn_grow :: "nat \<Rightarrow> 'a dynarr \<Rightarrow> 'a dynarr option" where
  "dyn_grow new_cap d = do {
     xs \<leftarrow> read_all (data d) [0..<size_field d];
     new_data \<leftarrow> write_all (HeapBuf (replicate new_cap None)) 0 xs;
     _ \<leftarrow> mem_delete (data d);
     Some (d\<lparr>data := new_data, capacity_field := new_cap\<rparr>) }"

definition dyn_reserve :: "nat \<Rightarrow> 'a dynarr \<Rightarrow> 'a dynarr option" where
  "dyn_reserve new_cap d = (if capacity_field d < new_cap then dyn_grow new_cap d else Some d)"

definition dyn_push_back :: "'a dynarr \<Rightarrow> 'a \<Rightarrow> 'a dynarr option" where
  "dyn_push_back d x = do {
     d1 \<leftarrow> (if capacity_field d \<le> size_field d
            then dyn_grow (if capacity_field d = 0 then 1 else capacity_field d * 2) d
            else Some d);
     m \<leftarrow> mem_write (data d1) (size_field d1) x;
     Some (d1\<lparr>data := m, size_field := Suc (size_field d1)\<rparr>) }"

definition dyn_pop_back :: "'a dynarr \<Rightarrow> 'a dynarr" where
  "dyn_pop_back d =
     (if 0 < size_field d
      then d\<lparr>size_field := size_field d - 1, data := mem_destroy (data d) (size_field d - 1)\<rparr>
      else d)"

text \<open>\<open>x0\<close> is the value of \<^verbatim>\<open>T()\<close>.\<close>

definition dyn_resize :: "'a \<Rightarrow> nat \<Rightarrow> 'a dynarr \<Rightarrow> 'a dynarr option" where
  "dyn_resize x0 n d = do {
     d1 \<leftarrow> (if capacity_field d < n then dyn_grow n d else Some d);
     m \<leftarrow> (if size_field d1 < n
           then write_all (data d1) (size_field d1) (replicate (n - size_field d1) x0)
           else Some (fold (\<lambda>i m. mem_destroy m i) [n..<size_field d1] (data d1)));
     Some (d1\<lparr>data := m, size_field := n\<rparr>) }"

definition dyn_clear :: "'a dynarr \<Rightarrow> 'a dynarr" where
  "dyn_clear d =
     d\<lparr>data := fold (\<lambda>i m. mem_destroy m i) [0..<size_field d] (data d), size_field := 0\<rparr>"

definition dyn_destroy :: "'a dynarr \<Rightarrow> unit option" where
  "dyn_destroy d =
     (if data d \<noteq> Nullptr \<and> 0 < capacity_field d then mem_delete (data d) else Some ())"

definition dyn_index :: "'a dynarr \<Rightarrow> nat \<Rightarrow> 'a option" where
  "dyn_index d i = mem_read (data d) i"

text \<open>\<^verbatim>\<open>at\<close> spins for ever on an index that is out of range.\<close>

definition dyn_at :: "'a dynarr \<Rightarrow> nat \<Rightarrow> 'a option" where
  "dyn_at d i = (if size_field d \<le> i then None else mem_read (data d) i)"

definition dyn_set :: "'a dynarr \<Rightarrow> nat \<Rightarrow> 'a \<Rightarrow> 'a dynarr option" where
  "dyn_set d i x = do { m \<leftarrow> mem_write (data d) i x; Some (d\<lparr>data := m\<rparr>) }"

definition dyn_copy :: "'a \<Rightarrow> 'a dynarr \<Rightarrow> 'a dynarr option" where
  "dyn_copy x0 other = do {
     d \<leftarrow> dyn_resize x0 (size_field other) dyn_init;
     xs \<leftarrow> read_all (data other) [0..<size_field d];
     m \<leftarrow> write_all (data d) 0 xs;
     Some (d\<lparr>data := m\<rparr>) }"

definition dyn_assign :: "'a \<Rightarrow> 'a dynarr \<Rightarrow> 'a dynarr \<Rightarrow> 'a dynarr option" where
  "dyn_assign x0 d other = do {
     d1 \<leftarrow> dyn_resize x0 (size_field other) (dyn_clear d);
     xs \<leftarrow> read_all (data other) [0..<size_field d1];
     m \<leftarrow> write_all (data d1) 0 xs;
     Some (d1\<lparr>data := m\<rparr>) }"

definition dyn_move :: "'a dynarr \<Rightarrow> 'a dynarr \<times> 'a dynarr" where
  "dyn_move other = (other, dyn_init)"

definition dyn_move_assign :: "'a dynarr \<Rightarrow> 'a dynarr \<Rightarrow> ('a dynarr \<times> 'a dynarr) option" where
  "dyn_move_assign d other = do {
     _ \<leftarrow> mem_delete (data (dyn_clear d));
     Some (other, dyn_init) }"

definition dyn_of_cstr :: "bytes option \<Rightarrow> byte dynarr option" where
  "dyn_of_cstr p = (case p of
     None \<Rightarrow> Some dyn_init
   | Some cs \<Rightarrow> do {
       len \<leftarrow> cstr_length cs;
       d \<leftarrow> dyn_resize 0 len dyn_init;
       m \<leftarrow> write_all (data d) 0 (take len cs);
       Some (d\<lparr>data := m\<rparr>) })"

definition dyn_assign_cstr :: "byte dynarr \<Rightarrow> bytes option \<Rightarrow> byte dynarr option" where
  "dyn_assign_cstr d p = (case p of
     None \<Rightarrow> Some (dyn_clear d)
   | Some cs \<Rightarrow> do {
       len \<leftarrow> cstr_length cs;
       d1 \<leftarrow> dyn_resize 0 len (dyn_clear d);
       m \<leftarrow> write_all (data d1) 0 (take len cs);
       Some (d1\<lparr>data := m\<rparr>) })"

definition dyn_push_cstr :: "byte dynarr \<Rightarrow> bytes option \<Rightarrow> byte dynarr option" where
  "dyn_push_cstr d p = (case p of
     None \<Rightarrow> Some d
   | Some cs \<Rightarrow> do {
       len \<leftarrow> cstr_length cs;
       d1 \<leftarrow> dyn_resize 0 (size_field d + len) d;
       m \<leftarrow> write_all (data d1) (size_field d) (take len cs);
       Some (d1\<lparr>data := m\<rparr>) })"

section \<open>Invariant and abstraction\<close>

text \<open>An owning array: the constructed slots are exactly the first \<open>size\<close> ones.\<close>

definition owned :: "'a list \<Rightarrow> nat \<Rightarrow> 'a mem" where
  "owned xs cap = HeapBuf (map Some xs @ replicate (cap - length xs) None)"

definition dyn_inv :: "'a dynarr \<Rightarrow> bool" where
  "dyn_inv d \<longleftrightarrow>
     (data d = Nullptr \<and> size_field d = 0 \<and> capacity_field d = 0) \<or>
     (\<exists>xs. data d = owned xs (capacity_field d) \<and> size_field d = length xs \<and>
           length xs \<le> capacity_field d \<and> 0 < capacity_field d)"

definition dyn_abs :: "'a dynarr \<Rightarrow> 'a list" where
  "dyn_abs d = (case data d of
     Nullptr \<Rightarrow> [] | External xs \<Rightarrow> take (size_field d) xs
   | HeapBuf xs \<Rightarrow> map the (take (size_field d) xs))"

lemma dyn_abs_owned [simp]:
  "data d = owned xs c \<Longrightarrow> size_field d = length xs \<Longrightarrow> dyn_abs d = xs"
  by (simp add: dyn_abs_def owned_def comp_def)

lemma dyn_inv_cases:
  assumes "dyn_inv d"
  obtains (null) "data d = Nullptr" "size_field d = 0" "capacity_field d = 0" "dyn_abs d = []"
  | (own) xs where "data d = owned xs (capacity_field d)" "size_field d = length xs"
      "length xs \<le> capacity_field d" "0 < capacity_field d" "dyn_abs d = xs"
  using assms by (auto simp: dyn_inv_def dyn_abs_def [of d] owned_def comp_def)

lemma dyn_invI:
  "data d = owned xs (capacity_field d) \<Longrightarrow> size_field d = length xs \<Longrightarrow>
   length xs \<le> capacity_field d \<Longrightarrow> 0 < capacity_field d \<Longrightarrow> dyn_inv d"
  by (auto simp: dyn_inv_def)

lemma dyn_init_correct: "dyn_inv dyn_init" "dyn_abs dyn_init = []"
  by (simp_all add: dyn_inv_def dyn_init_def dyn_abs_def)

lemma size_field_abs: "dyn_inv d \<Longrightarrow> size_field d = length (dyn_abs d)"
  by (erule dyn_inv_cases) auto

lemma mem_read_owned: "i < length xs \<Longrightarrow> mem_read (owned xs c) i = Some (xs ! i)"
  by (simp add: mem_read_def owned_def nth_append)

lemma mem_write_owned: "i < length xs \<Longrightarrow> mem_write (owned xs c) i x = Some (owned (xs[i := x]) c)"
  by (simp add: mem_write_def owned_def map_update list_update_append)

lemma mem_write_owned_next:
  fixes x :: 'a
  assumes "length xs < c"
  shows "mem_write (owned xs c) (length xs) x = Some (owned (xs @ [x]) c)"
proof -
  have "replicate (c - length xs) (None :: 'a option)
      = None # replicate (c - Suc (length xs)) None"
    using assms by (simp add: Suc_diff_Suc flip: replicate_Suc)
  then show ?thesis using assms by (simp add: mem_write_def owned_def list_update_append)
qed

lemma read_all_map:
  "(\<And>i. i \<in> set is \<Longrightarrow> mem_read m i = Some (f i)) \<Longrightarrow> read_all m is = Some (map f is)"
  by (induction "is") auto

lemma read_all_owned: "n \<le> length xs \<Longrightarrow> read_all (owned xs c) [0..<n] = Some (take n xs)"
  by (subst read_all_map [where f = "\<lambda>i. xs ! i"]) (auto simp: mem_read_owned list_eq_iff_nth_eq)

lemma write_all_owned_next:
  "length xs + length ys \<le> c \<Longrightarrow>
     write_all (owned xs c) (length xs) ys = Some (owned (xs @ ys) c)"
proof (induction ys arbitrary: xs)
  case (Cons y ys)
  then show ?case using Cons.IH [of "xs @ [y]"] by (simp add: mem_write_owned_next)
qed simp

lemma write_all_owned:
  "i + length ys \<le> length xs \<Longrightarrow>
     write_all (owned xs c) i ys = Some (owned (take i xs @ ys @ drop (i + length ys) xs) c)"
proof (induction ys arbitrary: xs i)
  case (Cons y ys)
  then have "i < length xs" by simp
  then have "take (Suc i) (xs[i := y]) = take i xs @ [y]"
    by (simp add: take_Suc_conv_app_nth)
  with Cons show ?case by (simp add: mem_write_owned)
qed simp

lemma destroy_owned:
  assumes "n \<le> length xs" and "length xs \<le> c"
  shows "fold (\<lambda>i m. mem_destroy m i) [n..<length xs] (owned xs c) = owned (take n xs) c"
proof -
  have "fold (\<lambda>i m. mem_destroy m i) [n..<k] (HeapBuf zs)
      = HeapBuf (take n zs @ replicate (k - n) None @ drop k zs)"
    if "n \<le> k" "k \<le> length zs" for k and zs :: "'a option list"
    using that
  proof (induction k)
    case (Suc k)
    show ?case
    proof (cases "n = Suc k")
      case False
      then have "n \<le> k" "k < length zs" using Suc.prems by auto
      moreover from this have "drop k zs = zs ! k # drop (Suc k) zs"
        by (simp add: Cons_nth_drop_Suc)
      ultimately show ?thesis
        using Suc.IH by (simp add: mem_destroy_def list_update_append Suc_diff_le
            replicate_append_same [symmetric] min_def)
    qed simp
  qed simp
  from this [of "length xs" "map Some xs @ replicate (c - length xs) None"] assms
  show ?thesis by (simp add: owned_def take_map replicate_add [symmetric] min_def)
qed

section \<open>Owning arrays implement lists\<close>

lemma dyn_grow_correct:
  assumes inv: "dyn_inv d" and n: "size_field d \<le> n" "0 < n"
  obtains d' where "dyn_grow n d = Some d'" "dyn_inv d'" "dyn_abs d' = dyn_abs d"
    "data d' = owned (dyn_abs d) n" "capacity_field d' = n" "size_field d' = size_field d"
  using inv
proof (cases rule: dyn_inv_cases)
  case null
  then show ?thesis
    using that [of "d\<lparr>data := owned [] n, capacity_field := n\<rparr>"] n
    by (simp add: dyn_grow_def mem_delete_def owned_def dyn_inv_def dyn_abs_def)
next
  case (own xs)
  let ?d = "d\<lparr>data := owned xs n, capacity_field := n\<rparr>"
  have "HeapBuf (replicate n None) = owned [] n" by (simp add: owned_def)
  then have "dyn_grow n d = Some ?d"
    using own n write_all_owned_next [of "[]" xs n]
    by (simp add: dyn_grow_def read_all_owned mem_delete_def owned_def [of xs "capacity_field d"]
        del: replicate.simps)
      (simp add: owned_def read_all_owned [unfolded owned_def])
  moreover have "dyn_inv ?d" using own n by (intro dyn_invI [of _ xs]) auto
  ultimately show ?thesis using that [of ?d] own by simp
qed

lemma dyn_push_back_correct:
  assumes inv: "dyn_inv d"
  obtains d' where "dyn_push_back d x = Some d'" "dyn_inv d'" "dyn_abs d' = dyn_abs d @ [x]"
proof -
  let ?xs = "dyn_abs d"
  obtain d1 where d1: "(if capacity_field d \<le> size_field d
       then dyn_grow (if capacity_field d = 0 then 1 else capacity_field d * 2) d
       else Some d) = Some d1" "data d1 = owned ?xs (capacity_field d1)"
      "size_field d1 = length ?xs" "length ?xs < capacity_field d1"
  proof (cases "capacity_field d \<le> size_field d")
    case True
    let ?n = "if capacity_field d = 0 then 1 else capacity_field d * 2"
    have n: "size_field d < ?n" using True by (cases rule: dyn_inv_cases [OF inv]) auto
    obtain d' where "dyn_grow ?n d = Some d'" "data d' = owned ?xs ?n"
      "capacity_field d' = ?n" "size_field d' = size_field d"
      by (rule dyn_grow_correct [OF inv, of ?n]) (use n in auto)
    then show ?thesis using that [of d'] True n size_field_abs [OF inv] by simp
  next
    case False
    then show ?thesis
      using that [of d] by (cases rule: dyn_inv_cases [OF inv]) auto
  qed
  let ?d = "d1\<lparr>data := owned (?xs @ [x]) (capacity_field d1), size_field := Suc (length ?xs)\<rparr>"
  have "dyn_push_back d x = Some ?d"
    using d1 by (simp add: dyn_push_back_def mem_write_owned_next)
  moreover have "dyn_inv ?d" using d1 by (intro dyn_invI [of _ "?xs @ [x]"]) auto
  ultimately show ?thesis using that [of ?d] by simp
qed

lemma dyn_resize_correct:
  assumes inv: "dyn_inv d"
  obtains d' where "dyn_resize x0 n d = Some d'" "dyn_inv d'"
    "dyn_abs d' = take n (dyn_abs d) @ replicate (n - length (dyn_abs d)) x0"
proof (cases "n = 0 \<and> capacity_field d = 0")
  case True
  then show ?thesis
    using that [of d] inv by (cases rule: dyn_inv_cases [OF inv]) (auto simp: dyn_resize_def)
next
  case False
  let ?xs = "dyn_abs d"
  obtain d1 where d1: "(if capacity_field d < n then dyn_grow n d else Some d) = Some d1"
      "data d1 = owned ?xs (capacity_field d1)" "size_field d1 = length ?xs"
      "length ?xs \<le> capacity_field d1" "n \<le> capacity_field d1" "0 < capacity_field d1"
  proof (cases "capacity_field d < n")
    case True
    then have n: "size_field d \<le> n" by (cases rule: dyn_inv_cases [OF inv]) auto
    obtain d' where "dyn_grow n d = Some d'" "data d' = owned ?xs n"
      "capacity_field d' = n" "size_field d' = size_field d"
      by (rule dyn_grow_correct [OF inv n]) (use True in auto)
    then show ?thesis using that [of d'] True n size_field_abs [OF inv] by simp
  next
    case f: False
    then show ?thesis
      using that [of d] False by (cases rule: dyn_inv_cases [OF inv]) auto
  qed
  let ?ys = "take n ?xs @ replicate (n - length ?xs) x0"
  let ?d = "d1\<lparr>data := owned ?ys (capacity_field d1), size_field := n\<rparr>"
  have "dyn_resize x0 n d = Some ?d"
    using d1 write_all_owned_next [of ?xs "replicate (n - length ?xs) x0"]
    by (auto simp: dyn_resize_def destroy_owned)
  moreover have "dyn_inv ?d" using d1 by (intro dyn_invI [of _ ?ys]) (auto simp: min_def)
  moreover have "dyn_abs ?d = ?ys" by (rule dyn_abs_owned) (auto simp: min_def)
  ultimately show ?thesis using that [of ?d] by simp
qed

lemma dyn_clear_correct:
  assumes "dyn_inv d"
  shows "dyn_inv (dyn_clear d)" and "dyn_abs (dyn_clear d) = []"
  using assms
  by (cases rule: dyn_inv_cases; simp add: dyn_clear_def dyn_inv_def dyn_abs_def destroy_owned;
      simp add: owned_def)+

lemma dyn_pop_back_correct:
  assumes "dyn_inv d"
  shows "dyn_inv (dyn_pop_back d) \<and> dyn_abs (dyn_pop_back d) = butlast (dyn_abs d)"
  using assms
proof (cases rule: dyn_inv_cases)
  case (own xs)
  show ?thesis
  proof (cases xs rule: rev_cases)
    case (snoc ys y)
    have "mem_destroy (owned xs (capacity_field d)) (length xs - 1) = owned ys (capacity_field d)"
      using destroy_owned [of "length ys" xs "capacity_field d"] snoc own(3) by simp
    then have "dyn_pop_back d = d\<lparr>size_field := length ys, data := owned ys (capacity_field d)\<rparr>"
      using own snoc by (simp add: dyn_pop_back_def)
    then show ?thesis using own snoc by (auto intro!: dyn_invI [of _ ys])
  qed (use own in \<open>auto simp: dyn_pop_back_def intro: assms\<close>)
qed (auto simp: dyn_pop_back_def intro: assms)

lemma dyn_index_correct:
  "dyn_inv d \<Longrightarrow> i < length (dyn_abs d) \<Longrightarrow> dyn_index d i = Some (dyn_abs d ! i)"
  by (erule dyn_inv_cases) (auto simp: dyn_index_def mem_read_owned)

lemma dyn_at_correct:
  "dyn_inv d \<Longrightarrow> dyn_at d i = (if i < length (dyn_abs d) then Some (dyn_abs d ! i) else None)"
  using size_field_abs [of d] dyn_index_correct [of d i] by (auto simp: dyn_at_def dyn_index_def)

lemma read_all_abs: "dyn_inv d \<Longrightarrow> read_all (data d) [0..<length (dyn_abs d)] = Some (dyn_abs d)"
  by (erule dyn_inv_cases) (auto simp: read_all_owned)

lemma write_all_abs:
  assumes "dyn_inv d" and "length ys = length (dyn_abs d)"
  obtains m where "write_all (data d) 0 ys = Some m" "dyn_inv (d\<lparr>data := m\<rparr>)"
    "dyn_abs (d\<lparr>data := m\<rparr>) = ys"
  using assms(1)
proof (cases rule: dyn_inv_cases)
  case null
  then show ?thesis using that [of "data d"] assms by (simp add: dyn_inv_def dyn_abs_def)
next
  case (own xs)
  have "write_all (data d) 0 ys = Some (owned ys (capacity_field d))"
    using own assms(2) by (simp add: write_all_owned)
  moreover have "dyn_inv (d\<lparr>data := owned ys (capacity_field d)\<rparr>)"
    using own assms(2) by (intro dyn_invI [of _ ys]) auto
  moreover have "dyn_abs (d\<lparr>data := owned ys (capacity_field d)\<rparr>) = ys"
    using own assms(2) by (intro dyn_abs_owned) auto
  ultimately show ?thesis by (rule that)
qed

lemma dyn_set_correct:
  assumes "dyn_inv d" and "i < length (dyn_abs d)"
  shows "\<exists>d'. dyn_set d i x = Some d' \<and> dyn_inv d' \<and> dyn_abs d' = (dyn_abs d)[i := x]"
  using assms(1)
proof (cases rule: dyn_inv_cases)
  case null
  then show ?thesis using assms(2) by simp
next
  case (own xs)
  let ?d = "d\<lparr>data := owned (xs[i := x]) (capacity_field d)\<rparr>"
  have "dyn_set d i x = Some ?d" using own assms(2) by (simp add: dyn_set_def mem_write_owned)
  moreover have "dyn_inv ?d" by (rule dyn_invI [of _ "xs[i := x]"]) (use own in simp_all)
  moreover have "dyn_abs ?d = (dyn_abs d)[i := x]"
    using own by (simp add: dyn_abs_owned)
  ultimately show ?thesis by blast
qed

lemma dyn_assign_correct:
  assumes "dyn_inv d" and "dyn_inv e"
  obtains d' where "dyn_assign x0 d e = Some d'" "dyn_inv d'" "dyn_abs d' = dyn_abs e"
proof -
  obtain d1 where d1: "dyn_resize x0 (size_field e) (dyn_clear d) = Some d1" "dyn_inv d1"
    "dyn_abs d1 = replicate (length (dyn_abs e)) x0"
    by (rule dyn_resize_correct [OF dyn_clear_correct(1) [OF assms(1)], of x0 "size_field e"])
      (use assms in \<open>simp add: dyn_clear_correct size_field_abs\<close>)
  obtain m where "write_all (data d1) 0 (dyn_abs e) = Some m" "dyn_inv (d1\<lparr>data := m\<rparr>)"
    "dyn_abs (d1\<lparr>data := m\<rparr>) = dyn_abs e"
    by (rule write_all_abs [OF d1(2), of "dyn_abs e"]) (use d1 in auto)
  then show ?thesis
    using that d1 read_all_abs [OF assms(2)] size_field_abs [OF d1(2)]
    by (simp add: dyn_assign_def)
qed

lemma dyn_copy_correct:
  assumes "dyn_inv e"
  obtains d' where "dyn_copy x0 e = Some d'" "dyn_inv d'" "dyn_abs d' = dyn_abs e"
  using dyn_assign_correct [OF dyn_init_correct(1) assms, of x0]
  by (auto simp: dyn_assign_def dyn_copy_def dyn_clear_def dyn_init_def)

lemma dyn_of_cstr_correct:
  assumes "0 \<in> set cs"
  obtains d where "dyn_of_cstr (Some cs) = Some d" "dyn_inv d" "dyn_abs d = cstr cs"
proof -
  obtain d1 where d1: "dyn_resize (0 :: u8) (length (cstr cs)) dyn_init = Some d1" "dyn_inv d1"
    "dyn_abs d1 = replicate (length (cstr cs)) 0"
    by (rule dyn_resize_correct [OF dyn_init_correct(1), of "0 :: u8" "length (cstr cs)"])
      (simp add: dyn_init_correct)
  obtain m where "write_all (data d1) 0 (cstr cs) = Some m" "dyn_inv (d1\<lparr>data := m\<rparr>)"
    "dyn_abs (d1\<lparr>data := m\<rparr>) = cstr cs"
    by (rule write_all_abs [OF d1(2), of "cstr cs"]) (use d1 in auto)
  then show ?thesis
    using that d1 assms by (simp add: dyn_of_cstr_def cstr_length_eq take_cstr)
qed

section \<open>Arrays as an interface\<close>

locale array_adt = seq emp app clr abs invar
  for emp :: "'d" and app :: "'d \<Rightarrow> 'a \<Rightarrow> 'd option" and clr :: "'d \<Rightarrow> 'd"
    and abs :: "'d \<Rightarrow> 'a list" and invar :: "'d \<Rightarrow> bool" +
  fixes len :: "'d \<Rightarrow> nat"
    and idx :: "'d \<Rightarrow> nat \<Rightarrow> 'a option"
    and resize :: "'a \<Rightarrow> nat \<Rightarrow> 'd \<Rightarrow> 'd option"
    and pop :: "'d \<Rightarrow> 'd"
  assumes len: "invar d \<Longrightarrow> len d = length (abs d)"
    and idx: "invar d \<Longrightarrow> i < length (abs d) \<Longrightarrow> idx d i = Some (abs d ! i)"
    and resize: "invar d \<Longrightarrow> \<exists>d'. resize x0 n d = Some d' \<and> invar d' \<and>
      abs d' = take n (abs d) @ replicate (n - length (abs d)) x0"
    and pop: "invar d \<Longrightarrow> invar (pop d) \<and> abs (pop d) = butlast (abs d)"
begin

lemma push_then_index:
  assumes "invar d" and "app d x = Some d'"
  shows "idx d' (len d) = Some x" and "i < len d \<Longrightarrow> idx d' i = idx d i"
proof -
  have "invar d'" "abs d' = abs d @ [x]" using app [OF assms(1), of x] assms(2) by auto
  then show "idx d' (len d) = Some x" and "i < len d \<Longrightarrow> idx d' i = idx d i"
    using assms(1) by (auto simp: len idx nth_append)
qed

lemma push_pop: "invar d \<Longrightarrow> app d x = Some d' \<Longrightarrow> abs (pop d') = abs d"
  using app [of d x] pop [of d'] by auto

end

interpretation dyn: array_adt dyn_init dyn_push_back dyn_clear dyn_abs dyn_inv
    size_field dyn_index dyn_resize dyn_pop_back
proof unfold_locales
  fix d :: "'a dynarr" and x x0 :: 'a and n :: nat
  assume d: "dyn_inv d"
  show "\<exists>d'. dyn_push_back d x = Some d' \<and> dyn_inv d' \<and> dyn_abs d' = dyn_abs d @ [x]"
    by (rule dyn_push_back_correct [OF d, of x]) blast
  show "\<exists>d'. dyn_resize x0 n d = Some d' \<and> dyn_inv d' \<and>
      dyn_abs d' = take n (dyn_abs d) @ replicate (n - length (dyn_abs d)) x0"
    by (rule dyn_resize_correct [OF d, of x0 n]) blast
qed (simp_all add: dyn_init_correct dyn_clear_correct size_field_abs dyn_index_correct
    dyn_pop_back_correct)

section \<open>Views of external memory\<close>

lemma dyn_grow_view: "data d = External xs \<Longrightarrow> dyn_grow n d = None"
  by (cases "read_all (data d) [0..<size_field d]")
    (simp_all add: dyn_grow_def mem_delete_def bind_eq_None_conv)

lemma dyn_resize_view: "0 < n \<Longrightarrow> dyn_resize x0 n (dyn_view (Some xs) k) = None"
  by (simp add: dyn_resize_def dyn_grow_view dyn_view_def)

lemma dyn_push_back_view: "dyn_push_back (dyn_view (Some xs) k) x = None"
  by (simp add: dyn_push_back_def dyn_grow_view dyn_view_def)

text \<open>An owning \<^verbatim>\<open>dynarr\<close> is a list. From an array that satisfies the class invariant,
  \<^verbatim>\<open>push_back\<close>, \<^verbatim>\<open>resize\<close>, \<^verbatim>\<open>pop_back\<close>, \<^verbatim>\<open>clear\<close>, copy assignment and indexing below the size
  never touch memory outside the buffer or free memory twice, keep the invariant, and do on the
  abstract list what their names say; \<^verbatim>\<open>at\<close> returns exactly for the indices in range.\<close>

theorem dynarr_implements_list:
  fixes d e :: "'a dynarr"
  assumes "dyn_inv d" and "dyn_inv e"
  shows "(\<exists>d'. dyn_push_back d x = Some d' \<and> dyn_inv d' \<and> dyn_abs d' = dyn_abs d @ [x]) \<and>
    (\<exists>d'. dyn_resize x n d = Some d' \<and> dyn_inv d' \<and>
       dyn_abs d' = take n (dyn_abs d) @ replicate (n - length (dyn_abs d)) x) \<and>
    (\<exists>d'. dyn_assign x d e = Some d' \<and> dyn_inv d' \<and> dyn_abs d' = dyn_abs e) \<and>
    (dyn_inv (dyn_pop_back d) \<and> dyn_abs (dyn_pop_back d) = butlast (dyn_abs d)) \<and>
    (dyn_inv (dyn_clear d) \<and> dyn_abs (dyn_clear d) = []) \<and>
    dyn_at d i = (if i < length (dyn_abs d) then Some (dyn_abs d ! i) else None)"
proof (intro conjI)
  show "\<exists>d'. dyn_assign x d e = Some d' \<and> dyn_inv d' \<and> dyn_abs d' = dyn_abs e"
    by (rule dyn_assign_correct [OF assms, of x]) blast
qed (use assms in \<open>simp_all add: dyn.app dyn.resize dyn.pop dyn.clr dyn_at_correct\<close>)

theorem dynarr_implements_list_witness:
  "dyn_at (dyn_init :: nat dynarr) 0 = None \<and>
   (\<exists>d'. dyn_push_back (dyn_init :: nat dynarr) 7 = Some d' \<and> dyn_abs d' = [7])"
  using dynarr_implements_list [OF dyn_init_correct(1) dyn_init_correct(1), of "7 :: nat" 0 0]
  by (auto simp: dyn_init_correct)

text \<open>A \<^verbatim>\<open>dynarr\<close> made over external memory with \<^verbatim>\<open>dynarr(ptr, n)\<close> cannot be resized or
  appended to. Its capacity is 0, so every \<^verbatim>\<open>push_back\<close> and every \<^verbatim>\<open>resize\<close> to a positive size
  grows it, and growing hands the external pointer to \<^verbatim>\<open>operator delete\<close>.\<close>

theorem dynarr_view_growth_undefined:
  assumes "0 < n"
  shows "dyn_resize x n (dyn_view (Some xs) k) = None \<and>
    dyn_push_back (dyn_view (Some xs) k) x = None"
  using assms by (simp add: dyn_resize_view dyn_push_back_view)

theorem dynarr_view_growth_undefined_witness:
  "dyn_resize 0 1 (dyn_view (Some [1 :: nat, 2]) 2) = None"
  using dynarr_view_growth_undefined [of 1 "0 :: nat" "[1, 2]" 2] by simp

end
