(* ===== verification/DiskFormat.thy ===== *)
theory DiskFormat
  imports Prelude
begin

text \<open>
  The on-disk structures of AbtrFS: \<^verbatim>\<open>include/AlopexOS/abtrfs/partition_header.hpp\<close> and
  \<^verbatim>\<open>include/AlopexOS/abtrfs/format.hpp\<close>. Both headers are packed structures of exactly one
  4096-byte block; the kernel writes the object's memory to the disk and reads it back, so
  the byte layout is the file format. Encoding and decoding are given by the list of fields
  and one general lemma on splitting a concatenation.
\<close>

section \<open>Constants and flags\<close>

definition ABTRFS_HEADER_BLOCK_SIZE :: u64 where "ABTRFS_HEADER_BLOCK_SIZE = 4096"

definition ABTRFS_PARTITION_HEADER_BLOCK_SIZE :: u64 where
  "ABTRFS_PARTITION_HEADER_BLOCK_SIZE = 4096"

definition ABTRFS_MAGIC_64 :: u64 where
  "ABTRFS_MAGIC_64 =
     push_bit 40 (of_char CHR ''A'') OR push_bit 32 (of_char CHR ''b'') OR
     push_bit 24 (of_char CHR ''t'') OR push_bit 16 (of_char CHR ''r'') OR
     push_bit 8 (of_char CHR ''F'') OR of_char CHR ''S''"

datatype AbtrfsDiskFlags = Flag_None | Encrypted | Journaled | ReadOnly | IsFile

fun flag_bits :: "AbtrfsDiskFlags \<Rightarrow> u32" where
  "flag_bits Flag_None = 0"
| "flag_bits Encrypted = push_bit 0 1"
| "flag_bits Journaled = push_bit 1 1"
| "flag_bits ReadOnly = push_bit 2 1"
| "flag_bits IsFile = push_bit 3 1"

definition flags_or :: "u32 \<Rightarrow> u32 \<Rightarrow> u32" where "flags_or a b = a OR b"
definition flags_and :: "u32 \<Rightarrow> u32 \<Rightarrow> bool" where "flags_and a b \<longleftrightarrow> a AND b \<noteq> 0"

section \<open>The partition header\<close>

record PARTITION_HEADER =
  ph_magic :: u64
  ph_block_size :: u64
  total_blocks :: u64
  root_node_block :: u64
  free_blocks_count :: u64
  version :: u32
  volume_label :: bytes
  padding :: bytes

definition default_PARTITION_HEADER :: PARTITION_HEADER where
  "default_PARTITION_HEADER =
     \<lparr>ph_magic = ABTRFS_MAGIC_64, ph_block_size = 4096, total_blocks = 0, root_node_block = 0,
      free_blocks_count = 0, version = 1, volume_label = replicate 32 0,
      padding = replicate 4020 0\<rparr>"

definition partition_layout :: "nat list" where
  "partition_layout = [8, 8, 8, 8, 8, 4, 32, 4020]"

definition partition_fields :: "PARTITION_HEADER \<Rightarrow> bytes list" where
  "partition_fields p =
     [put64 (ph_magic p), put64 (ph_block_size p), put64 (total_blocks p),
      put64 (root_node_block p), put64 (free_blocks_count p), put32 (version p),
      volume_label p, padding p]"

definition encode_partition :: "PARTITION_HEADER \<Rightarrow> bytes" where
  "encode_partition p = concat (partition_fields p)"

definition decode_partition :: "bytes \<Rightarrow> PARTITION_HEADER" where
  "decode_partition bs =
     (let f = split_fields partition_layout bs in
      \<lparr>ph_magic = get64 (f ! 0), ph_block_size = get64 (f ! 1), total_blocks = get64 (f ! 2),
       root_node_block = get64 (f ! 3), free_blocks_count = get64 (f ! 4),
       version = get32 (f ! 5), volume_label = f ! 6, padding = f ! 7\<rparr>)"

definition wf_partition :: "PARTITION_HEADER \<Rightarrow> bool" where
  "wf_partition p \<longleftrightarrow> length (volume_label p) = 32 \<and> length (padding p) = 4020"

section \<open>The file header\<close>

record AbtrFSBaseHeader =
  magic :: u16
  flags :: u32
  checksum :: u32
  transaction_sequence :: u64

record AbtrFSAccessControl =
  uid :: u32
  gid :: u32
  permissions :: u16

record AbtrfsExtent =
  start_block :: u64
  block_count :: u64

record AbtrFSDiskHeader =
  base :: AbtrFSBaseHeader
  acl :: AbtrFSAccessControl
  password_hash :: bytes
  section_count :: u64
  creation_time :: u64
  modification_time :: u64
  access_time :: u64
  path :: bytes
  icon :: bytes
  owner :: bytes
  group :: bytes
  hsize :: u16
  block_size :: u64
  payload_offset :: u64
  extent_count :: u8
  extents :: "AbtrfsExtent list"
  reserved :: bytes

text \<open>The value of \<^verbatim>\<open>AbtrFSDiskHeader{}\<close>: the default member initialisers, zero elsewhere.\<close>

definition default_AbtrFSDiskHeader :: AbtrFSDiskHeader where
  "default_AbtrFSDiskHeader =
     \<lparr>base = \<lparr>magic = 0xABF5, flags = 0, checksum = 0, transaction_sequence = 0\<rparr>,
      acl = \<lparr>uid = 0, gid = 0, permissions = 0\<rparr>,
      password_hash = replicate 64 0, section_count = 0, creation_time = 0,
      modification_time = 0, access_time = 0, path = replicate 256 0, icon = replicate 256 0,
      owner = replicate 64 0, group = replicate 64 0, hsize = 0,
      block_size = ABTRFS_HEADER_BLOCK_SIZE, payload_offset = 0, extent_count = 0,
      extents = replicate 64 \<lparr>start_block = 0, block_count = 0\<rparr>, reserved = replicate 2289 0\<rparr>"

definition put_extent :: "AbtrfsExtent \<Rightarrow> bytes" where
  "put_extent e = put64 (start_block e) @ put64 (block_count e)"

definition get_extent :: "bytes \<Rightarrow> AbtrfsExtent" where
  "get_extent bs = \<lparr>start_block = get64 (take 8 bs), block_count = get64 (drop 8 bs)\<rparr>"

definition put_extents :: "AbtrfsExtent list \<Rightarrow> bytes" where
  "put_extents es = concat (map put_extent es)"

definition get_extents :: "bytes \<Rightarrow> AbtrfsExtent list" where
  "get_extents bs = map get_extent (split_fields (replicate 64 16) bs)"

definition header_layout :: "nat list" where
  "header_layout =
     [2, 4, 4, 8, 4, 4, 2, 64, 8, 8, 8, 8, 256, 256, 64, 64, 2, 8, 8, 1, 1024, 2289]"

definition header_fields :: "AbtrFSDiskHeader \<Rightarrow> bytes list" where
  "header_fields h =
     [put16 (magic (base h)), put32 (flags (base h)), put32 (checksum (base h)),
      put64 (transaction_sequence (base h)), put32 (uid (acl h)), put32 (gid (acl h)),
      put16 (permissions (acl h)), password_hash h, put64 (section_count h),
      put64 (creation_time h), put64 (modification_time h), put64 (access_time h),
      path h, icon h, owner h, group h, put16 (hsize h), put64 (block_size h),
      put64 (payload_offset h), [extent_count h], put_extents (extents h), reserved h]"

definition encode_header :: "AbtrFSDiskHeader \<Rightarrow> bytes" where
  "encode_header h = concat (header_fields h)"

definition decode_header :: "bytes \<Rightarrow> AbtrFSDiskHeader" where
  "decode_header bs =
     (let f = split_fields header_layout bs in
      \<lparr>base = \<lparr>magic = get16 (f ! 0), flags = get32 (f ! 1), checksum = get32 (f ! 2),
               transaction_sequence = get64 (f ! 3)\<rparr>,
       acl = \<lparr>uid = get32 (f ! 4), gid = get32 (f ! 5), permissions = get16 (f ! 6)\<rparr>,
       password_hash = f ! 7, section_count = get64 (f ! 8), creation_time = get64 (f ! 9),
       modification_time = get64 (f ! 10), access_time = get64 (f ! 11), path = f ! 12,
       icon = f ! 13, owner = f ! 14, group = f ! 15, hsize = get16 (f ! 16),
       block_size = get64 (f ! 17), payload_offset = get64 (f ! 18),
       extent_count = hd (f ! 19), extents = get_extents (f ! 20), reserved = f ! 21\<rparr>)"

definition wf_header :: "AbtrFSDiskHeader \<Rightarrow> bool" where
  "wf_header h \<longleftrightarrow>
     length (password_hash h) = 64 \<and> length (path h) = 256 \<and> length (icon h) = 256 \<and>
     length (owner h) = 64 \<and> length (group h) = 64 \<and> length (extents h) = 64 \<and>
     length (reserved h) = 2289"

section \<open>Round trips\<close>

lemma length_put_extent [simp]: "length (put_extent e) = 16"
  by (simp add: put_extent_def)

lemma get_put_extent [simp]: "get_extent (put_extent e) = e"
  by (simp add: get_extent_def put_extent_def)

lemma put_get_extent [simp]: "length bs = 16 \<Longrightarrow> put_extent (get_extent bs) = bs"
  by (simp add: get_extent_def put_extent_def)

lemma length_put_extents [simp]: "length (put_extents es) = 16 * length es"
  by (induction es) (auto simp: put_extents_def)

lemma get_put_extents [simp]:
  assumes "length es = 64"
  shows "get_extents (put_extents es) = es"
proof -
  have "map length (map put_extent es) = replicate 64 16"
    using assms by (simp add: list_eq_iff_nth_eq)
  then have "split_fields (replicate 64 16) (put_extents es) = map put_extent es"
    using split_fields_concat [of "map put_extent es"] by (simp only: put_extents_def)
  then show ?thesis by (simp add: get_extents_def comp_def)
qed

lemma put_get_extents [simp]:
  assumes len: "length bs = 1024"
  shows "put_extents (get_extents bs) = bs"
proof -
  let ?f = "split_fields (replicate 64 16) bs"
  have "map length ?f = replicate 64 16"
    using len by (intro map_length_split_fields) (simp add: sum_list_replicate)
  then have "length b = 16" if "b \<in> set ?f" for b
    using that by (metis image_eqI in_set_replicate list.set_map)
  then have "map put_extent (map get_extent ?f) = ?f"
    by (simp add: map_idI)
  then show ?thesis
    using len by (simp add: put_extents_def get_extents_def concat_split_fields
        sum_list_replicate del: map_map)
qed

lemma sum_layouts: "sum_list header_layout = 4096" "sum_list partition_layout = 4096"
  by (simp_all add: header_layout_def partition_layout_def)

lemma partition_fields_layout:
  "wf_partition p \<Longrightarrow> map length (partition_fields p) = partition_layout"
  by (simp add: partition_fields_def partition_layout_def wf_partition_def)

lemma header_fields_layout:
  "wf_header h \<Longrightarrow> map length (header_fields h) = header_layout"
  by (simp add: header_fields_def header_layout_def wf_header_def)

lemma split_encode_partition:
  "wf_partition p \<Longrightarrow> split_fields partition_layout (encode_partition p) = partition_fields p"
  using split_fields_concat [of "partition_fields p"]
  by (simp add: encode_partition_def partition_fields_layout)

lemma split_encode_header:
  "wf_header h \<Longrightarrow> split_fields header_layout (encode_header h) = header_fields h"
  using split_fields_concat [of "header_fields h"]
  by (simp add: encode_header_def header_fields_layout)

lemma length_encode_partition: "wf_partition p \<Longrightarrow> length (encode_partition p) = 4096"
  by (simp add: encode_partition_def length_concat partition_fields_layout partition_layout_def)

lemma length_encode_header: "wf_header h \<Longrightarrow> length (encode_header h) = 4096"
  by (simp add: encode_header_def length_concat header_fields_layout header_layout_def)

lemma decode_encode_partition:
  "wf_partition p \<Longrightarrow> decode_partition (encode_partition p) = p"
  by (simp add: decode_partition_def split_encode_partition) (simp add: partition_fields_def)

lemma decode_encode_header: "wf_header h \<Longrightarrow> decode_header (encode_header h) = h"
  by (simp add: decode_header_def split_encode_header)
    (simp add: header_fields_def wf_header_def)

lemma split_nth_length:
  assumes "sum_list ns \<le> length bs" and "i < length ns"
  shows "length (split_fields ns bs ! i) = ns ! i"
  using map_length_split_fields [OF assms(1)] assms(2)
  by (metis length_split_fields nth_map)

lemma wf_decode_partition: "length bs = 4096 \<Longrightarrow> wf_partition (decode_partition bs)"
  by (simp add: wf_partition_def decode_partition_def partition_layout_def)

lemma wf_decode_header: "length bs = 4096 \<Longrightarrow> wf_header (decode_header bs)"
  by (simp add: wf_header_def decode_header_def header_layout_def get_extents_def)

lemma partition_fields_decode:
  assumes "length bs = 4096"
  shows "partition_fields (decode_partition bs) = split_fields partition_layout bs"
  using assms
  by (simp add: partition_fields_def decode_partition_def partition_layout_def)

lemma header_fields_decode:
  assumes "length bs = 4096"
  shows "header_fields (decode_header bs) = split_fields header_layout bs"
proof -
  have one: "[hd xs] = take (Suc 0) xs" if "xs \<noteq> []" for xs :: bytes
    using that by (cases xs) auto
  show ?thesis
    using assms
    by (simp add: header_fields_def decode_header_def header_layout_def one)
qed

lemma encode_decode_header: "length bs = 4096 \<Longrightarrow> encode_header (decode_header bs) = bs"
  by (simp add: encode_header_def header_fields_decode concat_split_fields sum_layouts)

lemma encode_decode_partition:
  "length bs = 4096 \<Longrightarrow> encode_partition (decode_partition bs) = bs"
  by (simp add: encode_partition_def partition_fields_decode concat_split_fields sum_layouts)

lemma wf_default_headers:
  "wf_header default_AbtrFSDiskHeader" "wf_partition default_PARTITION_HEADER"
  by (simp_all add: wf_header_def wf_partition_def default_AbtrFSDiskHeader_def
      default_PARTITION_HEADER_def)

text \<open>The two on-disk headers survive a write and a read: decoding an encoded header
  gives the header back, an encoded header fills exactly one 4096-byte block, and encoding the
  decoding of any block gives the block back.\<close>

theorem disk_headers_roundtrip:
  assumes "wf_header h" and "wf_partition p" and "length bs = 4096"
  shows "decode_header (encode_header h) = h \<and> length (encode_header h) = 4096 \<and>
    decode_partition (encode_partition p) = p \<and> length (encode_partition p) = 4096 \<and>
    encode_header (decode_header bs) = bs \<and> encode_partition (decode_partition bs) = bs"
  using assms by (simp add: decode_encode_header decode_encode_partition length_encode_header
      length_encode_partition encode_decode_header encode_decode_partition)

theorem disk_headers_roundtrip_witness:
  "decode_header (encode_header (default_AbtrFSDiskHeader\<lparr>section_count := 3\<rparr>))
     = default_AbtrFSDiskHeader\<lparr>section_count := 3\<rparr> \<and>
   decode_partition (encode_partition default_PARTITION_HEADER) = default_PARTITION_HEADER \<and>
   encode_header (decode_header (replicate 4096 7)) = replicate 4096 7"
  using disk_headers_roundtrip
    [of "default_AbtrFSDiskHeader\<lparr>section_count := 3\<rparr>" default_PARTITION_HEADER
      "replicate 4096 7"] wf_default_headers
  by (simp add: wf_header_def)

end
