(* ===== verification/Gaossd.thy ===== *)
theory Gaossd
  imports Expected
begin

text \<open>
  The generic storage driver (\<^verbatim>\<open>include/AlopexOS/gaossd/gaossd.hpp\<close>,
  \<^verbatim>\<open>src/gaossd/gaossd.cpp\<close>): a table of storage devices with their handler functions and a
  queue of pointers to the callers' request objects. Request objects live in a store from
  addresses to requests, so that the queue and its callers share them; address 0 is null.

  A handler is a function of the request and of the world \<open>'w\<close> (controller, memory, disk);
  \<open>None\<close> is a call that does not return, and also the call of a null handler or the use of
  a request object that is gone.
\<close>

section \<open>State\<close>

definition InvalidHandle :: u64 where "InvalidHandle = - 1"

datatype StorageType = NVME_storage | SSD_storage | HDD_storage | DVD_storage

datatype opcode = Op_Read | Op_Write | Op_Flush | Op_Identify | Op_Format

record request =
  OpCode :: opcode
  device_handle :: u64
  lba :: u64
  req_count :: u32
  PhysAddr :: u64
  status :: errorCode
  completed :: bool

definition default_request :: request where
  "default_request = \<lparr>OpCode = Op_Read, device_handle = InvalidHandle, lba = 0, req_count = 0,
     PhysAddr = 0, status = Success, completed = False\<rparr>"

record 'w PhysicalStorage =
  address :: u64
  storage_type :: StorageType
  submit_fn :: "(request \<Rightarrow> 'w \<Rightarrow> (errorCode \<times> 'w) option) option"
  process_fn :: "('w \<Rightarrow> (errorCode \<times> 'w) option) option"
  dev_name :: bytes

definition default_PhysicalStorage :: "'w PhysicalStorage" where
  "default_PhysicalStorage = \<lparr>address = 0, storage_type = NVME_storage, submit_fn = None,
     process_fn = None, dev_name = replicate 64 0\<rparr>"

type_synonym ptr = u64
type_synonym store = "ptr \<rightharpoonup> request"

record 'w gaossd =
  storageDevices :: "'w PhysicalStorage list"
  queue :: "ptr list"

section \<open>Operations\<close>

definition device_count :: "'w gaossd \<Rightarrow> u64" where
  "device_count g = of_nat (length (storageDevices g))"

definition get_device :: "'w gaossd \<Rightarrow> u64 \<Rightarrow> 'w PhysicalStorage option" where
  "get_device g handle =
     (if length (storageDevices g) \<le> unat handle then None
      else Some (storageDevices g ! unat handle))"

text \<open>The new handle is written only on success.\<close>

definition register_device ::
    "'w gaossd \<Rightarrow> 'w PhysicalStorage \<Rightarrow> errorCode \<times> u64 option \<times> 'w gaossd" where
  "register_device g dev =
     (if submit_fn dev = None \<or> process_fn dev = None then (InvalidParameters, None, g)
      else (let ds = storageDevices g @ [dev]
            in (Success, Some (of_nat (length ds - 1)), g\<lparr>storageDevices := ds\<rparr>)))"

definition scan_and_initialize_hardware :: errorCode where
  "scan_and_initialize_hardware = Success"

definition submit_request :: "'w gaossd \<Rightarrow> store \<Rightarrow> ptr \<Rightarrow> (errorCode \<times> 'w gaossd) option" where
  "submit_request g rs p = (case rs p of
     None \<Rightarrow> None
   | Some req \<Rightarrow>
       Some (if length (storageDevices g) \<le> unat (device_handle req) then (InvalidParameters, g)
             else (Success, g\<lparr>queue := queue g @ [p]\<rparr>)))"

text \<open>The variadic overload: a fold over the comma operator, each status overwriting the
  last one.\<close>

fun submit_requests_from ::
    "errorCode \<Rightarrow> 'w gaossd \<Rightarrow> store \<Rightarrow> ptr list \<Rightarrow> (errorCode \<times> 'w gaossd) option" where
  "submit_requests_from st g rs [] = Some (st, g)"
| "submit_requests_from st g rs (p # ps) =
     do { (st', g') \<leftarrow> submit_request g rs p; submit_requests_from st' g' rs ps }"

definition submit_requests ::
    "'w gaossd \<Rightarrow> store \<Rightarrow> ptr list \<Rightarrow> (errorCode \<times> 'w gaossd) option" where
  "submit_requests g rs ps = submit_requests_from Success g rs ps"

definition process_request ::
    "'w PhysicalStorage list \<Rightarrow> request \<Rightarrow> 'w \<Rightarrow> (request \<times> 'w) option" where
  "process_request devs req w =
    (if completed req then Some (req, w)
     else if length devs \<le> unat (device_handle req) then
       Some (req\<lparr>status := InvalidParameters, completed := True\<rparr>, w)
     else do {
       submit \<leftarrow> submit_fn (devs ! unat (device_handle req));
       (st, w1) \<leftarrow> submit req w;
       (st', w2) \<leftarrow> (if st = Success
          then do { process \<leftarrow> process_fn (devs ! unat (device_handle req)); process w1 }
          else Some (st, w1));
       Some (req\<lparr>status := st', completed := True\<rparr>, w2) })"

fun process_loop ::
    "'w PhysicalStorage list \<Rightarrow> ptr list \<Rightarrow> store \<Rightarrow> 'w \<Rightarrow> (store \<times> 'w) option" where
  "process_loop devs [] rs w = Some (rs, w)"
| "process_loop devs (p # ps) rs w =
     (if p = 0 then process_loop devs ps rs w
      else do {
        req \<leftarrow> rs p;
        (req', w1) \<leftarrow> process_request devs req w;
        process_loop devs ps (rs(p \<mapsto> req')) w1 })"

definition process_queue ::
    "'w gaossd \<Rightarrow> store \<Rightarrow> 'w \<Rightarrow> (errorCode \<times> 'w gaossd \<times> store \<times> 'w) option" where
  "process_queue g rs w =
     (if queue g = [] then Some (Success, g, rs, w)
      else do {
        (rs', w') \<leftarrow> process_loop (storageDevices g) (queue g) rs w;
        Some (Success, g\<lparr>queue := []\<rparr>, rs', w') })"

section \<open>The device table and the queue stay usable\<close>

definition gaossd_inv :: "'w gaossd \<Rightarrow> bool" where
  "gaossd_inv g \<longleftrightarrow>
     (\<forall>d \<in> set (storageDevices g). submit_fn d \<noteq> None \<and> process_fn d \<noteq> None)"

text \<open>A queue whose pointers are alive: each is null or the address of a request object.\<close>

definition queue_alive :: "'w gaossd \<Rightarrow> store \<Rightarrow> bool" where
  "queue_alive g rs \<longleftrightarrow> (\<forall>p \<in> set (queue g). p = 0 \<or> rs p \<noteq> None)"

text \<open>A condition on the hardware under which every handler returns, and which every handler keeps. A handler that
  polls a device returns in some states of the device only.\<close>

definition handlers_keep :: "'w gaossd \<Rightarrow> ('w \<Rightarrow> bool) \<Rightarrow> bool" where
  "handlers_keep g good \<longleftrightarrow> (\<forall>d \<in> set (storageDevices g).
     (\<forall>f req w. submit_fn d = Some f \<and> good w \<longrightarrow> (\<exists>e w'. f req w = Some (e, w') \<and> good w')) \<and>
     (\<forall>f w. process_fn d = Some f \<and> good w \<longrightarrow> (\<exists>e w'. f w = Some (e, w') \<and> good w')))"

lemma register_device_inv:
  "gaossd_inv g \<Longrightarrow> gaossd_inv (snd (snd (register_device g d)))"
  by (auto simp: gaossd_inv_def register_device_def Let_def)

lemma register_get_device:
  assumes "register_device g d = (Success, Some h, g')" and "length (storageDevices g) < 2 ^ 64"
  shows "get_device g' h = Some d \<and>
    (\<forall>k. unat k < length (storageDevices g) \<longrightarrow> get_device g' k = get_device g k)"
  using assms by (auto simp: register_device_def get_device_def Let_def unat_of_nat64 nth_append
      split: if_splits)

lemma submit_request_inv:
  "submit_request g rs p = Some (st, g') \<Longrightarrow> gaossd_inv g \<Longrightarrow> gaossd_inv g'"
  by (auto simp: submit_request_def gaossd_inv_def split: option.splits if_splits)

lemma submit_request_alive:
  "submit_request g rs p = Some (st, g') \<Longrightarrow> queue_alive g rs \<Longrightarrow> queue_alive g' rs"
  by (auto simp: submit_request_def queue_alive_def split: option.splits if_splits)

lemma process_request_completes:
  "process_request devs req w = Some (req', w') \<Longrightarrow> completed req'"
  by (auto simp: process_request_def bind_eq_Some_conv split: if_splits)

lemma process_request_frame:
  "process_request devs req w = Some (req', w') \<Longrightarrow>
     OpCode req' = OpCode req \<and> device_handle req' = device_handle req \<and> lba req' = lba req \<and>
     req_count req' = req_count req \<and> PhysAddr req' = PhysAddr req"
  by (auto simp: process_request_def bind_eq_Some_conv split: if_splits)

lemma process_request_returns:
  assumes "gaossd_inv g" and "handlers_keep g good" and "good w"
  shows "\<exists>req' w'. process_request (storageDevices g) req w = Some (req', w') \<and> good w'"
proof (cases "completed req \<or> length (storageDevices g) \<le> unat (device_handle req)")
  case True
  then show ?thesis using assms(3) by (auto simp: process_request_def)
next
  case False
  let ?d = "storageDevices g ! unat (device_handle req)"
  have d: "?d \<in> set (storageDevices g)" using False by simp
  obtain f p where fp: "submit_fn ?d = Some f" "process_fn ?d = Some p"
    using assms(1) d by (auto simp: gaossd_inv_def)
  obtain st w1 where f: "f req w = Some (st, w1)" "good w1"
    using assms(2,3) d fp(1) unfolding handlers_keep_def by blast
  obtain st' w2 where "p w1 = Some (st', w2)" "good w2"
    using assms(2) d fp(2) f(2) unfolding handlers_keep_def by blast
  then show ?thesis using False fp f by (auto simp: process_request_def)
qed

lemma process_loop_completes:
  assumes "process_loop devs ps rs w = Some (rs', w')"
  shows "(\<forall>p \<in> set ps. p \<noteq> 0 \<longrightarrow> (\<exists>req. rs' p = Some req \<and> completed req)) \<and>
    (\<forall>p. p \<notin> set ps \<longrightarrow> rs' p = rs p)"
proof -
  have keep: "rs' q = rs q" if "process_loop devs ps rs w = Some (rs', w')" "q \<notin> set ps"
    for q ps rs w rs' w'
    using that by (induction ps arbitrary: rs w) (auto simp: bind_eq_Some_conv split: if_splits)
  have done_stays: "\<exists>req. rs' q = Some req \<and> completed req"
    if "process_loop devs ps rs w = Some (rs', w')" "rs q = Some r" "completed r"
    for q r ps rs w rs' w'
    using that
  proof (induction ps arbitrary: rs w r)
    case (Cons p ps)
    then show ?case
      by (cases "p = q")
        (auto simp: bind_eq_Some_conv fun_upd_def process_request_completes
          split: if_splits elim!: Cons.IH)
  qed simp
  show ?thesis using assms
  proof (induction ps arbitrary: rs w)
    case (Cons p ps)
    show ?case
    proof (cases "p = 0")
      case True
      then show ?thesis using Cons by auto
    next
      case False
      obtain req req' w1 where r: "rs p = Some req" "process_request devs req w = Some (req', w1)"
        "process_loop devs ps (rs(p \<mapsto> req')) w1 = Some (rs', w')"
        using Cons.prems False by (auto simp: bind_eq_Some_conv)
      have "completed req'" using r(2) by (rule process_request_completes)
      then have "\<exists>req. rs' p = Some req \<and> completed req" using done_stays [OF r(3)] by simp
      then show ?thesis using Cons.IH [OF r(3)] by auto
    qed
  qed simp
qed

lemma process_loop_returns:
  assumes "gaossd_inv g" and "handlers_keep g good"
  shows "(\<forall>p \<in> set ps. p = 0 \<or> rs p \<noteq> None) \<Longrightarrow> good w \<Longrightarrow>
    \<exists>rs' w'. process_loop (storageDevices g) ps rs w = Some (rs', w') \<and> good w'"
proof (induction ps arbitrary: rs w)
  case (Cons p ps)
  show ?case
  proof (cases "p = 0")
    case True
    then show ?thesis using Cons by simp
  next
    case False
    then obtain req where "rs p = Some req" using Cons.prems by auto
    moreover obtain req' w1 where "process_request (storageDevices g) req w = Some (req', w1)" "good w1"
      using process_request_returns [OF assms Cons.prems(2)] by blast
    ultimately show ?thesis using False Cons by simp
  qed
qed simp

text \<open>C29: processing the queue of a driver, with the hardware in a state in which its handlers return and which they
  keep, and with a queue of live requests, returns \<open>Success\<close>, empties the queue, leaves every queued
  request completed and every other request object as it was, and keeps the hardware in such a state.\<close>

theorem process_queue_completes_all:
  assumes "gaossd_inv g" and "handlers_keep g good" and "good w" and "queue_alive g rs"
  shows "\<exists>g' rs' w'. process_queue g rs w = Some (Success, g', rs', w') \<and> queue g' = [] \<and>
    storageDevices g' = storageDevices g \<and> good w' \<and>
    (\<forall>p. (if p \<in> set (queue g) \<and> p \<noteq> 0 then \<exists>req. rs' p = Some req \<and> completed req
          else p \<in> set (queue g) \<or> rs' p = rs p))"
proof (cases "queue g = []")
  case True
  then show ?thesis using assms(3) by (simp add: process_queue_def)
next
  case False
  obtain rs' w' where r: "process_loop (storageDevices g) (queue g) rs w = Some (rs', w')" "good w'"
    using process_loop_returns [OF assms(1,2) _ assms(3)] assms(4) by (metis queue_alive_def)
  then show ?thesis
    using False process_loop_completes [OF r(1)] by (auto simp: process_queue_def)
qed

text \<open>A driver with one device that accepts every request.\<close>

definition one_device :: "unit gaossd" where
  "one_device = \<lparr>storageDevices = [default_PhysicalStorage
      \<lparr>submit_fn := Some (\<lambda>req w. Some (Success, w)), process_fn := Some (\<lambda>w. Some (Success, w))\<rparr>],
     queue = [1]\<rparr>"

text \<open>The variadic \<^verbatim>\<open>submit_request(r1, ..., rn)\<close> reports only what happened to its last
  argument: a rejected request followed by an accepted one is reported as \<open>Success\<close>, and only
  the accepted one is queued.\<close>

theorem submit_requests_reports_last_only:
  assumes "rs p = Some r1" and "length (storageDevices g) \<le> unat (device_handle r1)"
    and "rs q = Some r2" and "unat (device_handle r2) < length (storageDevices g)"
  shows "submit_request g rs p = Some (InvalidParameters, g) \<and>
    submit_requests g rs [p, q] = Some (Success, g\<lparr>queue := queue g @ [q]\<rparr>)"
  using assms by (simp add: submit_request_def submit_requests_def)

lemma unat_InvalidHandle: "unat InvalidHandle = 18446744073709551615"
  by (simp add: InvalidHandle_def unsigned_minus_1_eq_mask mask_eq_exp_minus_1)

theorem submit_requests_reports_last_only_witness:
  "submit_requests one_device
     [2 \<mapsto> default_request, 3 \<mapsto> default_request\<lparr>device_handle := 0\<rparr>] [2, 3]
   = Some (Success, one_device\<lparr>queue := [1, 3]\<rparr>)"
proof -
  let ?rs = "[2 \<mapsto> default_request, 3 \<mapsto> default_request\<lparr>device_handle := 0\<rparr>] :: store"
  have "length (storageDevices one_device) = 1" "queue one_device = [1]"
    by (simp_all add: one_device_def)
  then show ?thesis
    using submit_requests_reports_last_only
      [of ?rs 2 default_request one_device 3 "default_request\<lparr>device_handle := 0\<rparr>"]
    by (simp add: default_request_def unat_InvalidHandle)
qed

end
