(* ===== verification/AbtrFS.thy ===== *)
theory AbtrFS
  imports DiskFormat DynArr Gaossd
begin

text \<open>
  The AbtrFS file system (\<^verbatim>\<open>include/AlopexOS/abtrfs/abtrfs.hpp\<close>,
  \<^verbatim>\<open>src/abtrfs/abtrfs.cpp\<close>), operation by operation.

  The two block operations \<^verbatim>\<open>read_block\<close> and \<^verbatim>\<open>write_block\<close> are arguments \<open>rb\<close> and
  \<open>wb\<close> of the operations that call them: they take the device handle, the block number and
  (for a write) the 4096 bytes of the buffer; a failed read returns \<open>None\<close> for the bytes.
  Theory \<open>AbtrfsIO\<close> defines the kernel's two functions over the storage driver.
  Theory \<open>AbtrfsSpec\<close> states the laws of a block device as a locale and proves the file
  system correct in it.

  A path is an \<^verbatim>\<open>arr<byte, 2048>\<close>: a list of 2048 bytes. File data are byte lists; theory
  \<open>DynArr\<close> shows that \<^verbatim>\<open>dynarr<byte>\<close> implements them. An operation's outer \<open>None\<close> is
  a call without a defined result: a scan that never ends, or a store outside a buffer.
\<close>

type_synonym 's block_read = "u64 \<Rightarrow> u64 \<Rightarrow> 's \<Rightarrow> (bytes option \<times> 's) option"
type_synonym 's block_write = "u64 \<Rightarrow> u64 \<Rightarrow> bytes \<Rightarrow> 's \<Rightarrow> (bool \<times> 's) option"

section \<open>State\<close>

datatype TreeNode =
    NullNode
  | Node (node_name: basic_string) (is_directory: bool) (left: TreeNode) (right: TreeNode)

record AbtrFS =
  is_mounted :: bool
  partition_header :: PARTITION_HEADER
  device_base_address :: u64
  fs_hhdm_offset :: u64
  fs_device_handle :: u64
  root_node :: TreeNode
  fs_gaossd :: ptr

definition AbtrFS_init :: AbtrFS where
  "AbtrFS_init = \<lparr>is_mounted = False, partition_header = default_PARTITION_HEADER,
     device_base_address = 0, fs_hhdm_offset = 0, fs_device_handle = InvalidHandle,
     root_node = NullNode, fs_gaossd = 0\<rparr>"

definition attach_gaossd :: "ptr \<Rightarrow> AbtrFS \<Rightarrow> errorCode \<times> AbtrFS" where
  "attach_gaossd g fs = (Success, fs\<lparr>fs_gaossd := g\<rparr>)"

definition gaossd_instance :: "AbtrFS \<Rightarrow> ptr" where
  "gaossd_instance fs = fs_gaossd fs"

definition ABTRFS_FS_MAGIC :: u64 where "ABTRFS_FS_MAGIC = 0xABF4"
definition ABTRFS_FILE_MAGIC :: u16 where "ABTRFS_FILE_MAGIC = 0xABF5"

section \<open>Mounting and formatting\<close>

definition fs_at :: "u64 \<Rightarrow> u64 \<Rightarrow> u64 \<Rightarrow> AbtrFS \<Rightarrow> AbtrFS" where
  "fs_at base_addr hhdm handle fs =
     fs\<lparr>device_base_address := base_addr, fs_hhdm_offset := hhdm, fs_device_handle := handle\<rparr>"

definition mount :: "'s block_read \<Rightarrow> u64 \<Rightarrow> u64 \<Rightarrow> u64 \<Rightarrow> AbtrFS \<Rightarrow> 's \<Rightarrow>
    (bool \<times> AbtrFS \<times> 's) option" where
  "mount rb base_addr hhdm handle fs w = do {
     let fs1 = fs_at base_addr hhdm handle fs;
     (r, w1) \<leftarrow> rb handle 0 w;
     (case r of
        None \<Rightarrow> Some (False, fs1\<lparr>is_mounted := False\<rparr>, w1)
      | Some bs \<Rightarrow>
          let fs2 = fs1\<lparr>partition_header := decode_partition bs\<rparr> in
          if ph_magic (partition_header fs2) \<noteq> ABTRFS_FS_MAGIC
          then Some (False, fs2\<lparr>is_mounted := False\<rparr>, w1)
          else Some (True, fs2\<lparr>is_mounted := True\<rparr>, w1)) }"

definition mount_existing :: "'s block_read \<Rightarrow> u64 \<Rightarrow> u64 \<Rightarrow> u64 \<Rightarrow> AbtrFS \<Rightarrow> 's \<Rightarrow>
    (AbtrFS \<times> 's) option" where
  "mount_existing rb base_addr hhdm handle fs w = do {
     let fs1 = fs_at base_addr hhdm handle fs;
     (r, w1) \<leftarrow> rb handle 0 w;
     (case r of
        None \<Rightarrow> Some (fs1, w1)
      | Some bs \<Rightarrow>
          let fs2 = fs1\<lparr>partition_header := decode_partition bs\<rparr> in
          if ph_magic (partition_header fs2) = ABTRFS_FS_MAGIC
          then Some (fs2\<lparr>is_mounted := True\<rparr>, w1) else Some (fs2, w1)) }"

definition format_header :: PARTITION_HEADER where
  "format_header =
     (let h = default_PARTITION_HEADER\<lparr>ph_magic := ABTRFS_FS_MAGIC, total_blocks := 204800\<rparr>
      in h\<lparr>free_blocks_count := total_blocks h - 1, ph_block_size := ABTRFS_HEADER_BLOCK_SIZE\<rparr>)"

definition format :: "'s block_write \<Rightarrow> u64 \<Rightarrow> u64 \<Rightarrow> u64 \<Rightarrow> AbtrFS \<Rightarrow> 's \<Rightarrow>
    (bool \<times> AbtrFS \<times> 's) option" where
  "format wb base_addr hhdm handle fs w = do {
     let fs1 = (fs_at base_addr hhdm handle fs)\<lparr>partition_header := format_header\<rparr>;
     (ok, w1) \<leftarrow> wb handle 0 (encode_partition format_header) w;
     Some (if ok then (True, fs1\<lparr>is_mounted := True\<rparr>, w1) else (False, fs1, w1)) }"

section \<open>Paths\<close>

text \<open>\<^verbatim>\<open>chopPath\<close>: the list is what is left of the 2048 bytes. A segment is pushed by copy.\<close>

definition flush_segment :: "basic_string \<Rightarrow> basic_string list \<Rightarrow>
    (basic_string \<times> basic_string list) option" where
  "flush_segment obj result =
     (if str_empty obj then Some (obj, result)
      else do { c \<leftarrow> str_copy 23 obj; Some (str_clear 23 obj, result @ [c]) })"

fun chop_loop :: "bytes \<Rightarrow> basic_string \<Rightarrow> basic_string list \<Rightarrow>
    (basic_string \<times> basic_string list) option" where
  "chop_loop [] obj result = Some (obj, result)"
| "chop_loop (c # cs) obj result =
     (if c = 0 then Some (obj, result)
      else if c = of_char CHR ''/'' then do {
        (obj', result') \<leftarrow> flush_segment obj result;
        chop_loop cs obj' result' }
      else do { obj' \<leftarrow> str_append_char 23 obj c; chop_loop cs obj' result })"

definition chopPath :: "bytes \<Rightarrow> basic_string list expected option" where
  "chopPath p = do {
     (obj, result) \<leftarrow> chop_loop (take 2048 p) (str_init 23) [];
     (_, result') \<leftarrow> flush_segment obj result;
     Some (Inr result') }"

text \<open>\<^verbatim>\<open>is_path_equal\<close>: reads both arrays for \<open>i < 255\<close>.\<close>

fun path_eq_loop :: "bytes \<Rightarrow> bytes \<Rightarrow> nat list \<Rightarrow> bool" where
  "path_eq_loop p h [] = False"
| "path_eq_loop p h (i # is) =
     (if p ! i \<noteq> h ! i then False else if p ! i = 0 then True else path_eq_loop p h is)"

definition is_path_equal :: "bytes \<Rightarrow> bytes \<Rightarrow> bool" where
  "is_path_equal p header_path = path_eq_loop p header_path [0..<255]"

text \<open>The loop of \<^verbatim>\<open>write_file\<close> that stores the path in the header.\<close>

fun path_store_loop :: "bytes \<Rightarrow> nat \<Rightarrow> bytes \<Rightarrow> bytes \<times> nat" where
  "path_store_loop hp p_idx [] = (hp, p_idx)"
| "path_store_loop hp p_idx (c # cs) =
     (if c \<noteq> 0 \<and> p_idx < 255 then path_store_loop (hp[p_idx := c]) (Suc p_idx) cs
      else (hp, p_idx))"

definition store_path :: "bytes \<Rightarrow> bytes \<Rightarrow> bytes" where
  "store_path hp p = (case path_store_loop hp 0 (take 2048 p) of (hp', i) \<Rightarrow> hp'[i := 0])"

section \<open>The in-memory tree\<close>

text \<open>\<^verbatim>\<open>find_or_create_node\<close>: the updated tree and the node found or made.\<close>

partial_function (option) find_or_create_node ::
    "TreeNode \<Rightarrow> basic_string list \<Rightarrow> nat \<Rightarrow> (TreeNode \<times> TreeNode) option" where
  "find_or_create_node root segments index =
    (if length segments \<le> index then Some (root, root)
     else
       let target_name = segments ! index; is_last = (index = length segments - 1) in
       (case root of NullNode \<Rightarrow> do {
           nm \<leftarrow> str_copy 23 target_name;
           Some (Node nm (\<not> is_last) NullNode NullNode) }
         | Node a b c d \<Rightarrow> Some root) \<bind> (\<lambda>root1. case root1 of
           NullNode \<Rightarrow> None
         | Node nm dir l r \<Rightarrow>
             if str_eq target_name nm then
               (if is_last then Some (root1, root1)
                else find_or_create_node l segments (index + 1) \<bind> (\<lambda>(l', n).
                  Some (Node nm dir l' r, n)))
             else if str_less target_name nm then
               find_or_create_node l segments index \<bind> (\<lambda>(l', n).
                 Some (Node nm dir l' r, n))
             else
               find_or_create_node r segments index \<bind> (\<lambda>(r', n).
                 Some (Node nm dir l r', n))))"

section \<open>Finding a file header\<close>

definition is_file_header :: "AbtrFSDiskHeader \<Rightarrow> bool" where
  "is_file_header h \<longleftrightarrow>
     magic (base h) = ABTRFS_FILE_MAGIC \<and> flags_and (flags (base h)) (flag_bits IsFile)"

definition header_skip :: "AbtrFSDiskHeader \<Rightarrow> u64" where
  "header_skip h =
     (if magic (base h) = ABTRFS_FILE_MAGIC \<and> 0 < section_count h
      then 1 + section_count h else 1)"

text \<open>The scan of \<^verbatim>\<open>find_file_header\<close>. A read error ends it as "not found".\<close>

partial_function (option) find_loop ::
    "'s block_read \<Rightarrow> u64 \<Rightarrow> u64 \<Rightarrow> bytes \<Rightarrow> u64 \<Rightarrow> 's \<Rightarrow> (AbtrFSDiskHeader option \<times> 's) option"
  where
  "find_loop rb handle used_blocks p curr_block w =
    (if curr_block < used_blocks then
       rb handle curr_block w \<bind> (\<lambda>(r, w1).
       (case r of
          None \<Rightarrow> Some (None, w1)
        | Some bs \<Rightarrow>
            let header = decode_header bs in
            if is_file_header header \<and> is_path_equal p (path header) then Some (Some header, w1)
            else find_loop rb handle used_blocks p (curr_block + header_skip header) w1))
     else Some (None, w))"

definition find_file_header :: "'s block_read \<Rightarrow> u64 \<Rightarrow> u64 \<Rightarrow> u64 \<Rightarrow> bytes \<Rightarrow> 's \<Rightarrow>
    (AbtrFSDiskHeader option \<times> 's) option" where
  "find_file_header rb handle total_n free_n p w = find_loop rb handle (total_n - free_n) p 1 w"

text \<open>The size that a header's block count and last-block size stand for.\<close>

definition header_total_size :: "AbtrFSDiskHeader \<Rightarrow> u64" where
  "header_total_size h =
     (if 0 < section_count h
      then (section_count h - 1) * ABTRFS_HEADER_BLOCK_SIZE + ucast (hsize h) else 0)"

section \<open>Reading a file\<close>

definition fs_find :: "'s block_read \<Rightarrow> AbtrFS \<Rightarrow> bytes \<Rightarrow> 's \<Rightarrow>
    (AbtrFSDiskHeader option \<times> 's) option" where
  "fs_find rb fs p w = find_file_header rb (fs_device_handle fs)
     (total_blocks (partition_header fs)) (free_blocks_count (partition_header fs)) p w"

text \<open>The copy loops of \<^verbatim>\<open>read_file\<close>: block \<open>b\<close> contributes its bytes from
  \<open>k_start\<close> on, as many as are still wanted. \<open>m\<close> is the memory of the target array.\<close>

partial_function (option) read_loop ::
    "'s block_read \<Rightarrow> u64 \<Rightarrow> u64 \<Rightarrow> u64 \<Rightarrow> nat \<Rightarrow> nat \<Rightarrow> u64 \<Rightarrow> nat \<Rightarrow> u8 mem \<Rightarrow> 's \<Rightarrow>
     ((bool \<times> u8 mem) \<times> 's) option" where
  "read_loop rb handle payload count to_read k_start b copied m w =
    (if b < count \<and> copied < to_read then
       rb handle (payload + b) w \<bind> (\<lambda>(r, w1).
       (case r of
          None \<Rightarrow> Some ((False, m), w1)
        | Some block \<Rightarrow>
            let chunk = take (to_read - copied) (drop k_start (take 4096 block)) in
            write_all m copied chunk \<bind> (\<lambda>m'.
              read_loop rb handle payload count to_read 0 (b + 1) (copied + length chunk) m' w1)))
     else Some ((True, m), w))"

text \<open>\<^verbatim>\<open>read_file\<close> once the header is found.\<close>

definition read_found :: "'s block_read \<Rightarrow> AbtrFS \<Rightarrow> AbtrFSDiskHeader \<Rightarrow> byte dynarr option \<Rightarrow> u64 \<Rightarrow>
    u64 \<Rightarrow> 's \<Rightarrow> (byte dynarr expected \<times> byte dynarr option \<times> 's) option" where
  "read_found rb fs h data_arg read_offset max_read_size w =
    (let data_blocks_count = section_count h;
         total_size = header_total_size h;
         payload = payload_offset h
     in if total_size \<le> read_offset then do {
          data' \<leftarrow> (case data_arg of
             None \<Rightarrow> Some None
           | Some d \<Rightarrow> map_option Some (dyn_assign 0 d dyn_init));
          Some (Inr dyn_init, data', w) }
        else do {
          let available_size = total_size - read_offset;
          let bytes_to_read = (if 0 < max_read_size \<and> max_read_size < available_size
                               then max_read_size else available_size);
          let target0 = (case data_arg of None \<Rightarrow> dyn_init | Some d \<Rightarrow> d);
          target \<leftarrow> dyn_resize 0 (unat bytes_to_read) target0;
          let start = read_offset div ABTRFS_HEADER_BLOCK_SIZE;
          let shift = read_offset mod ABTRFS_HEADER_BLOCK_SIZE;
          ((ok, m), w1) \<leftarrow> read_loop rb (fs_device_handle fs) payload data_blocks_count
              (unat bytes_to_read) (unat shift) start 0 (data target) w;
          let target' = target\<lparr>data := m\<rparr>;
          let data' = map_option (\<lambda>_. target') data_arg;
          if \<not> ok then Some (Inl IOError, data', w1)
          else do { c \<leftarrow> dyn_copy 0 target'; Some (Inr c, data', w1) } })"

definition read_file :: "'s block_read \<Rightarrow> AbtrFS \<Rightarrow> bytes \<Rightarrow> byte dynarr option \<Rightarrow> u64 \<Rightarrow> u64 \<Rightarrow>
    's \<Rightarrow> (byte dynarr expected \<times> byte dynarr option \<times> 's) option" where
  "read_file rb fs p data_arg read_offset max_read_size w =
    (if \<not> is_mounted fs then Some (Inl DeviceNotMounted, data_arg, w)
     else do {
       chopped \<leftarrow> chopPath p;
       (case chopped of
          Inl e \<Rightarrow> Some (Inl e, data_arg, w)
        | Inr segments \<Rightarrow>
            if length segments = 0 then Some (Inl InvalidPath, data_arg, w)
            else do {
              (found, w1) \<leftarrow> fs_find rb fs p w;
              (case found of
                 None \<Rightarrow> Some (Inl FileNotFound, data_arg, w1)
               | Some h \<Rightarrow> read_found rb fs h data_arg read_offset max_read_size w1) }) })"

definition exists :: "'s block_read \<Rightarrow> AbtrFS \<Rightarrow> bytes \<Rightarrow> 's \<Rightarrow> (errorCode \<times> 's) option" where
  "exists rb fs p w =
    (if \<not> is_mounted fs then Some (DeviceNotMounted, w)
     else do {
       chopped \<leftarrow> chopPath p;
       (case chopped of
          Inl e \<Rightarrow> Some (e, w)
        | Inr segments \<Rightarrow>
            if length segments = 0 then Some (InvalidPath, w)
            else do {
              (found, w1) \<leftarrow> fs_find rb fs p w;
              Some (if found = None then FileNotFound else Success, w1) }) })"

section \<open>Writing a file\<close>

text \<open>The contents after the call: the old bytes, zero-extended to \<open>final_size\<close>, with the new
  bytes stored from \<open>write_offset\<close> on. The index of a store is a 64-bit sum.\<close>

fun store_at64 :: "bytes \<Rightarrow> u64 \<Rightarrow> bytes \<Rightarrow> bytes option" where
  "store_at64 dst i [] = Some dst"
| "store_at64 dst i (x # xs) =
     (if unat i < length dst then store_at64 (dst[unat i := x]) (i + 1) xs else None)"

definition write_old_content :: "'s block_read \<Rightarrow> AbtrFS \<Rightarrow> bytes \<Rightarrow> bool \<Rightarrow> u64 \<Rightarrow> 's \<Rightarrow>
    (bytes \<times> 's) option" where
  "write_old_content rb fs p file_exists final_size w =
    (let expanded = replicate (unat final_size) 0 in
     if file_exists then do {
       (old, _, w1) \<leftarrow> read_file rb fs p None 0 0 w;
       (case old of
          Inl _ \<Rightarrow> Some (expanded, w1)
        | Inr d \<Rightarrow> do {
            e \<leftarrow> store_at expanded 0 (take (unat final_size) (dyn_abs d));
            Some (e, w1) }) }
     else Some (expanded, w))"

text \<open>The block buffer of data block \<open>b\<close>: its bytes, zero behind the end of the file.\<close>

definition data_block :: "bytes \<Rightarrow> u64 \<Rightarrow> bytes" where
  "data_block raw b =
    (let chunk_offset = b * ABTRFS_HEADER_BLOCK_SIZE in
     map (\<lambda>k. if unat chunk_offset + k < length raw then raw ! (unat chunk_offset + k) else 0)
       [0..<4096])"

partial_function (option) write_loop ::
    "'s block_write \<Rightarrow> u64 \<Rightarrow> u64 \<Rightarrow> u64 \<Rightarrow> bytes \<Rightarrow> u64 \<Rightarrow> 's \<Rightarrow> (bool \<times> 's) option" where
  "write_loop wb handle payload count raw b w =
    (if b < count then
       wb handle (payload + b) (data_block raw b) w \<bind> (\<lambda>(ok, w1).
         if ok then write_loop wb handle payload count raw (b + 1) w1 else Some (False, w1))
     else Some (True, w))"

text \<open>The space check and the header that goes with it: the assigned header block, the updated
  partition header and file header, or \<open>NoSpaceLeft\<close>.\<close>

definition reserve_blocks :: "PARTITION_HEADER \<Rightarrow> AbtrFSDiskHeader \<Rightarrow> bool \<Rightarrow> u64 \<Rightarrow>
    (PARTITION_HEADER \<times> AbtrFSDiskHeader) expected" where
  "reserve_blocks ph h file_exists data_blocks_count =
    (let assigned = total_blocks ph - free_blocks_count ph in
     if \<not> file_exists then
       (if free_blocks_count ph < 1 + data_blocks_count \<or>
           total_blocks ph < assigned + 1 + data_blocks_count
        then Inl NoSpaceLeft
        else Inr (ph\<lparr>free_blocks_count := free_blocks_count ph - (1 + data_blocks_count)\<rparr>,
                  h\<lparr>payload_offset := assigned + 1\<rparr>))
     else if section_count h < data_blocks_count then
       (let extra = data_blocks_count - section_count h in
        if free_blocks_count ph < extra then Inl NoSpaceLeft
        else Inr (ph\<lparr>free_blocks_count := free_blocks_count ph - extra\<rparr>, h))
     else Inr (ph, h))"

definition finish_header :: "AbtrFSDiskHeader \<Rightarrow> u64 \<Rightarrow> u64 \<Rightarrow> bytes \<Rightarrow> AbtrFSDiskHeader" where
  "finish_header h data_blocks_count final_size p =
    (let remainder = final_size mod ABTRFS_HEADER_BLOCK_SIZE in
     h\<lparr>base := (base h)\<lparr>magic := ABTRFS_FILE_MAGIC, flags := flag_bits IsFile\<rparr>,
       section_count := data_blocks_count,
       hsize := ucast (if remainder = 0 then ABTRFS_HEADER_BLOCK_SIZE else remainder),
       block_size := ABTRFS_HEADER_BLOCK_SIZE,
       path := store_path (path h) p\<rparr>)"

text \<open>The last part of \<^verbatim>\<open>write_file\<close>: the header of a new file, the data blocks, the
  partition header. \<open>ph\<close> and \<open>h\<close> are the updated headers.\<close>

definition write_out :: "'s block_write \<Rightarrow> u64 \<Rightarrow> PARTITION_HEADER \<Rightarrow> AbtrFSDiskHeader \<Rightarrow> bool \<Rightarrow>
    u64 \<Rightarrow> bytes \<Rightarrow> 's \<Rightarrow> (errorCode \<times> 's) option" where
  "write_out wb handle ph h file_exists assigned raw w = do {
     (ok1, w1) \<leftarrow> (if file_exists then Some (True, w) else wb handle assigned (encode_header h) w);
     if \<not> ok1 then Some (WriteFailed, w1)
     else do {
       (ok2, w2) \<leftarrow> write_loop wb handle (payload_offset h) (section_count h) raw 0 w1;
       if \<not> ok2 then Some (WriteFailed, w2)
       else do {
         (ok3, w3) \<leftarrow> wb handle 0 (encode_partition ph) w2;
         Some (if ok3 then Success else WriteFailed, w3) } } }"

text \<open>\<^verbatim>\<open>write_file\<close> after the search.\<close>

definition write_found :: "'s block_read \<Rightarrow> 's block_write \<Rightarrow> AbtrFS \<Rightarrow> bytes \<Rightarrow> bytes \<Rightarrow> u64 \<Rightarrow>
    AbtrFSDiskHeader option \<Rightarrow> 's \<Rightarrow> (errorCode \<times> AbtrFS \<times> 's) option" where
  "write_found rb wb fs p content write_offset found w =
    (let file_exists = (found \<noteq> None);
         header0 = (case found of None \<Rightarrow> default_AbtrFSDiskHeader | Some h \<Rightarrow> h);
         existing_total_size = (if file_exists then header_total_size header0 else 0);
         target_end_size = write_offset + of_nat (length content);
         final_size = max target_end_size existing_total_size
     in if final_size = 0 then Some (InvalidParameters, fs, w)
        else do {
          let required_blocks =
            (final_size + ABTRFS_HEADER_BLOCK_SIZE - 1) div ABTRFS_HEADER_BLOCK_SIZE;
          (expanded, w1) \<leftarrow> write_old_content rb fs p file_exists final_size w;
          raw \<leftarrow> store_at64 expanded write_offset content;
          let ph = partition_header fs;
          let assigned = total_blocks ph - free_blocks_count ph;
          (case reserve_blocks ph header0 file_exists required_blocks of
             Inl e \<Rightarrow> Some (e, fs, w1)
           | Inr (ph', h1) \<Rightarrow> do {
               let h2 = finish_header h1 required_blocks final_size p;
               (e, w2) \<leftarrow> write_out wb (fs_device_handle fs) ph' h2 file_exists assigned raw w1;
               Some (e, fs\<lparr>partition_header := ph'\<rparr>, w2) }) })"

definition write_file :: "'s block_read \<Rightarrow> 's block_write \<Rightarrow> AbtrFS \<Rightarrow> bytes \<Rightarrow> bytes \<Rightarrow> u64 \<Rightarrow>
    's \<Rightarrow> (errorCode \<times> AbtrFS \<times> 's) option" where
  "write_file rb wb fs p content write_offset w =
    (if \<not> is_mounted fs then Some (DeviceNotMounted, fs, w)
     else do {
       chopped \<leftarrow> chopPath p;
       (case chopped of
          Inl e \<Rightarrow> Some (e, fs, w)
        | Inr segments \<Rightarrow>
          if length segments = 0 then Some (InvalidPath, fs, w)
          else do {
            (root', _) \<leftarrow> find_or_create_node (root_node fs) segments 0;
            let fs1 = fs\<lparr>root_node := root'\<rparr>;
            (found, w1) \<leftarrow> fs_find rb fs1 p w;
            write_found rb wb fs1 p content write_offset found w1 }) })"

end
