(* ===== verification/AbtrfsPath.thy ===== *)
theory AbtrfsPath
  imports AbtrFS
begin

text \<open>
  The path functions of AbtrFS: \<^verbatim>\<open>chopPath\<close> splits at the slashes, \<^verbatim>\<open>is_path_equal\<close> compares
  with the path in a header, \<^verbatim>\<open>write_file\<close> stores the path in a header, and the search in
  the in-memory tree always ends. A path is the C string in its array.
\<close>

section \<open>Chopping a path\<close>

text \<open>\<open>segments_of cur cs\<close>: the non-empty parts between slashes, with \<open>cur\<close> read so far.\<close>

fun segments_of :: "bytes \<Rightarrow> bytes \<Rightarrow> bytes list" where
  "segments_of cur [] = (if cur = [] then [] else [cur])"
| "segments_of cur (c # cs) =
     (if c = of_char CHR ''/'' then (if cur = [] then segments_of [] cs else cur # segments_of [] cs)
      else segments_of (cur @ [c]) cs)"

definition strs_inv :: "basic_string list \<Rightarrow> bool" where
  "strs_inv ss \<longleftrightarrow> (\<forall>s \<in> set ss. str_inv 23 s)"

lemma strs_inv_simps [simp]:
  "strs_inv []" "strs_inv (ss @ [s]) \<longleftrightarrow> strs_inv ss \<and> str_inv 23 s"
  by (auto simp: strs_inv_def)

lemma flush_segment_correct:
  assumes "str_inv 23 obj" and "strs_inv res"
  obtains obj' res' where "flush_segment obj res = Some (obj', res')" "str_inv 23 obj'"
    "strs_inv res'" "str_abs obj' = []"
    "map str_abs res' = map str_abs res @ (if str_abs obj = [] then [] else [str_abs obj])"
proof (cases "str_empty obj")
  case True
  then show ?thesis
    using that [of obj res] assms by (simp add: flush_segment_def str_empty_iff)
next
  case False
  obtain c where "str_copy 23 obj = Some c" "str_inv 23 c" "str_abs c = str_abs obj"
    by (rule str_copy_correct [OF assms(1)])
  then show ?thesis
    using that [of "str_clear 23 obj" "res @ [c]"] False assms
    by (simp add: flush_segment_def str_empty_iff str_inv_clear)
qed

lemma chop_loop_correct:
  assumes "str_inv 23 obj" and "strs_inv res"
  shows "\<exists>obj' res'. chop_loop cs obj res = Some (obj', res') \<and> str_inv 23 obj' \<and>
    strs_inv res' \<and> map str_abs res' @ segments_of (str_abs obj') []
      = map str_abs res @ segments_of (str_abs obj) (cstr cs)"
  using assms
proof (induction cs arbitrary: obj res)
  case (Cons c cs)
  consider "c = 0" | "c \<noteq> 0" "c = of_char CHR ''/''" | "c \<noteq> 0" "c \<noteq> of_char CHR ''/''" by blast
  then show ?case
  proof cases
    case 1
    then show ?thesis
      using Cons.prems by (auto simp: cstr_Cons simp del: segments_of.simps(1))
  next
    case 2
    obtain obj' res' where f: "flush_segment obj res = Some (obj', res')" "str_inv 23 obj'"
      "strs_inv res'" "str_abs obj' = []"
      "map str_abs res' = map str_abs res @ (if str_abs obj = [] then [] else [str_abs obj])"
      by (rule flush_segment_correct [OF Cons.prems])
    show ?thesis
      using Cons.IH [OF f(2,3)] 2 f by (auto simp: cstr_Cons simp del: segments_of.simps(1))
  next
    case 3
    obtain obj' where a: "str_append_char 23 obj c = Some obj'" "str_inv 23 obj'"
      "str_abs obj' = str_abs obj @ [c]"
      by (rule str_append_char_correct [OF Cons.prems(1), of c])
    show ?thesis
      using Cons.IH [OF a(2) Cons.prems(2)] 3 a
      by (auto simp: cstr_Cons simp del: segments_of.simps(1))
  qed
qed auto

lemma chopPath_correct:
  obtains segs where "chopPath p = Some (Inr segs)" "strs_inv segs"
    "map str_abs segs = segments_of [] (cstr (take 2048 p))"
proof -
  obtain obj res where c: "chop_loop (take 2048 p) (str_init 23) [] = Some (obj, res)"
    "str_inv 23 obj" "strs_inv res"
    "map str_abs res @ segments_of (str_abs obj) [] = segments_of [] (cstr (take 2048 p))"
    using chop_loop_correct [OF str_inv_init strs_inv_simps(1)] by fastforce
  obtain obj' res' where "flush_segment obj res = Some (obj', res')" "strs_inv res'"
    "map str_abs res' = map str_abs res @ (if str_abs obj = [] then [] else [str_abs obj])"
    by (rule flush_segment_correct [OF c(2,3)])
  then show ?thesis using that c by (simp add: chopPath_def)
qed

lemma segments_of_nonempty: "[] \<notin> set (segments_of cur cs)"
  by (induction cur cs rule: segments_of.induct) auto

lemma segments_of_no_slash:
  "of_char CHR ''/'' \<notin> set cur \<Longrightarrow> s \<in> set (segments_of cur cs) \<Longrightarrow> of_char CHR ''/'' \<notin> set s"
  by (induction cur cs rule: segments_of.induct) (auto split: if_splits)

lemma segments_of_Nil_iff:
  "segments_of cur cs = [] \<longleftrightarrow> cur = [] \<and> set cs \<subseteq> {of_char CHR ''/''}"
  by (induction cur cs rule: segments_of.induct) auto

lemma segments_of_slash_join:
  "of_char CHR ''/'' \<notin> set s \<Longrightarrow> cur @ s \<noteq> [] \<Longrightarrow>
     segments_of cur (s @ of_char CHR ''/'' # cs) = (cur @ s) # segments_of [] cs"
  by (induction s arbitrary: cur) auto

text \<open>A path that names something: \<^verbatim>\<open>write_file\<close>, \<^verbatim>\<open>read_file\<close> and \<^verbatim>\<open>exists\<close> accept it.\<close>

definition good_path :: "bytes \<Rightarrow> bool" where
  "good_path p \<longleftrightarrow> length p = 2048 \<and> segments_of [] (cstr p) \<noteq> []"

lemma chopPath_good:
  assumes "good_path p"
  obtains segs where "chopPath p = Some (Inr segs)" "strs_inv segs" "segs \<noteq> []"
proof -
  obtain segs where s: "chopPath p = Some (Inr segs)" "strs_inv segs"
    "map str_abs segs = segments_of [] (cstr (take 2048 p))"
    by (rule chopPath_correct)
  then have "segs \<noteq> []" using assms by (auto simp: good_path_def)
  with s that show ?thesis by blast
qed

section \<open>Comparing and storing a path\<close>

lemma cstr_drop_nth:
  "k < length p \<Longrightarrow> cstr (drop k p) = (if p ! k = 0 then [] else p ! k # cstr (drop (Suc k) p))"
  by (metis Cons_nth_drop_Suc cstr_Cons)

lemma path_eq_loop_iff:
  assumes "n \<le> length p" and "n \<le> length h" and "k \<le> n"
  shows "path_eq_loop p h [k..<n] \<longleftrightarrow>
    cstr (drop k p) = cstr (drop k h) \<and> k + length (cstr (drop k p)) < n"
  using assms(3)
proof (induction "n - k" arbitrary: k)
  case (Suc d)
  then have k: "k < n" by simp
  have IH: "path_eq_loop p h [Suc k..<n] \<longleftrightarrow>
      cstr (drop (Suc k) p) = cstr (drop (Suc k) h) \<and> Suc k + length (cstr (drop (Suc k) p)) < n"
    using Suc.hyps(2) k by (intro Suc.hyps(1)) auto
  have "[k..<n] = k # [Suc k..<n]" using k by (simp add: upt_conv_Cons)
  then show ?case using IH k assms cstr_drop_nth [of k p] cstr_drop_nth [of k h] by auto
qed simp

lemma is_path_equal_iff:
  "255 \<le> length p \<Longrightarrow> 255 \<le> length h \<Longrightarrow>
     is_path_equal p h \<longleftrightarrow> cstr p = cstr h \<and> length (cstr p) < 255"
  using path_eq_loop_iff [of 255 p h 0] by (simp add: is_path_equal_def)

lemma path_store_loop_eq:
  "length hp = 256 \<Longrightarrow> i \<le> 255 \<Longrightarrow> path_store_loop hp i cs =
     (let s = take (255 - i) (cstr cs)
      in (take i hp @ s @ drop (i + length s) hp, i + length s))"
proof (induction hp i cs rule: path_store_loop.induct)
  case (2 hp i c cs)
  show ?case
  proof (cases "c \<noteq> 0 \<and> i < 255")
    case True
    then have "take (Suc i) (hp[i := c]) = take i hp @ [c]"
      using "2.prems" by (simp add: take_Suc_conv_app_nth)
    moreover have "255 - i = Suc (255 - Suc i)" using True by linarith
    ultimately show ?thesis
      using True "2" by (simp add: cstr_Cons Let_def)
  next
    case False
    then show ?thesis using "2.prems" by (auto simp: cstr_Cons)
  qed
qed simp

lemma store_path_eq:
  assumes "length hp = 256" and "length p = 2048"
  shows "store_path hp p =
    take 255 (cstr p) @ 0 # drop (Suc (length (take 255 (cstr p)))) hp"
proof -
  let ?s = "take 255 (cstr p)"
  have "length ?s < length hp" using assms by simp
  then have "drop (length ?s) hp = hp ! length ?s # drop (Suc (length ?s)) hp"
    by (simp add: Cons_nth_drop_Suc)
  then have "store_path hp p = (?s @ hp ! length ?s # drop (Suc (length ?s)) hp)[length ?s := 0]"
    using assms by (simp add: store_path_def path_store_loop_eq Let_def)
  then show ?thesis by (simp only: list_update_append_mid)
qed

lemma length_store_path: "length hp = 256 \<Longrightarrow> length p = 2048 \<Longrightarrow> length (store_path hp p) = 256"
  by (simp add: store_path_eq min_def)

lemma cstr_store_path:
  "length hp = 256 \<Longrightarrow> length p = 2048 \<Longrightarrow> cstr (store_path hp p) = take 255 (cstr p)"
  using cstr_no_nul [of p] cstr_terminated [of "take 255 (cstr p)"]
  by (auto simp: store_path_eq dest: in_set_takeD)

text \<open>C37: a path is found again in the header \<^verbatim>\<open>write_file\<close> stored it in exactly when it has
  fewer than 255 characters. The store loop keeps up to 255 characters, the comparison wants the
  terminator within the first 255 bytes, so a path of exactly 255 characters, which is stored
  complete, is never found.\<close>

theorem stored_path_found_iff:
  assumes "length hp = 256" and "length p = 2048"
  shows "is_path_equal p (store_path hp p) = (length (cstr p) < 255) \<and>
    (cstr (store_path hp p) = cstr p) = (length (cstr p) \<le> 255)"
proof -
  have "is_path_equal p (store_path hp p) \<longleftrightarrow>
      cstr p = take 255 (cstr p) \<and> length (cstr p) < 255"
    using assms by (simp add: is_path_equal_iff cstr_store_path length_store_path)
  moreover have "take 255 (cstr p) = cstr p \<longleftrightarrow> length (cstr p) \<le> 255"
    by (metis length_take min.cobounded2 take_all min_def)
  ultimately show ?thesis using assms by (auto simp: cstr_store_path)
qed

theorem stored_path_found_iff_witness:
  "\<not> is_path_equal (replicate 255 65 @ replicate 1793 0)
      (store_path (replicate 256 0) (replicate 255 65 @ replicate 1793 0)) \<and>
   cstr (store_path (replicate 256 0) (replicate 255 65 @ replicate 1793 0)) = replicate 255 65"
proof -
  have c: "cstr (replicate 255 65 @ replicate 1793 0) = replicate 255 65"
    using cstr_terminated [of "replicate 255 65" "replicate 1792 0"]
    by (simp add: replicate_Suc [symmetric] del: replicate_Suc)
  show ?thesis
    using stored_path_found_iff [of "replicate 256 0" "replicate 255 65 @ replicate 1793 0"]
    by (simp only: c length_append length_replicate) simp
qed

section \<open>The tree search ends\<close>

fun tree_inv :: "TreeNode \<Rightarrow> bool" where
  "tree_inv NullNode = True"
| "tree_inv (Node nm d l r) \<longleftrightarrow> str_inv 23 nm \<and> tree_inv l \<and> tree_inv r"

fun tree_names :: "TreeNode \<Rightarrow> bytes set" where
  "tree_names NullNode = {}"
| "tree_names (Node nm d l r) = insert (str_abs nm) (tree_names l \<union> tree_names r)"

lemma find_or_create_node_correct:
  assumes "strs_inv segs" and "tree_inv root"
  shows "\<exists>root' n. find_or_create_node root segs index = Some (root', n) \<and> tree_inv root' \<and>
    tree_names root \<subseteq> tree_names root' \<and>
    tree_names root' \<subseteq> tree_names root \<union> str_abs ` set segs"
  using assms(2)
proof (induction "length segs - index" arbitrary: index root)
  case 0
  then show ?case by (subst find_or_create_node.simps) auto
next
  case (Suc d)
  have index: "index < length segs" using Suc.hyps(2) by simp
  then have seg: "segs ! index \<in> set segs" by simp
  then have inv: "str_inv 23 (segs ! index)" using assms(1) by (auto simp: strs_inv_def)
  have descend: "\<exists>l' n. find_or_create_node l segs (Suc index) = Some (l', n) \<and> tree_inv l' \<and>
      tree_names l \<subseteq> tree_names l' \<and> tree_names l' \<subseteq> tree_names l \<union> str_abs ` set segs"
    if "tree_inv l" for l
    using Suc.hyps(2) that by (intro Suc.hyps(1)) auto
  show ?case using Suc.prems
  proof (induction root)
    case NullNode
    obtain nm where nm: "str_copy 23 (segs ! index) = Some nm" "str_inv 23 nm"
      "str_abs nm = str_abs (segs ! index)"
      by (rule str_copy_correct [OF inv])
    obtain l' n where "find_or_create_node NullNode segs (Suc index) = Some (l', n)"
      "tree_inv l'" "tree_names l' \<subseteq> str_abs ` set segs"
      using descend [of NullNode] by auto
    then show ?case
      using index nm inv seg by (subst find_or_create_node.simps) (auto simp: Let_def str_eq_iff)
  next
    case (Node nm dir l r)
    obtain l1 n1 where 1: "find_or_create_node l segs (Suc index) = Some (l1, n1)"
      "tree_inv l1" "tree_names l \<subseteq> tree_names l1"
      "tree_names l1 \<subseteq> tree_names l \<union> str_abs ` set segs"
      using descend [of l] Node.prems by auto
    obtain l2 n2 where 2: "find_or_create_node l segs index = Some (l2, n2)"
      "tree_inv l2" "tree_names l \<subseteq> tree_names l2"
      "tree_names l2 \<subseteq> tree_names l \<union> str_abs ` set segs"
      using Node.IH(1) Node.prems by auto
    obtain r3 n3 where 3: "find_or_create_node r segs index = Some (r3, n3)"
      "tree_inv r3" "tree_names r \<subseteq> tree_names r3"
      "tree_names r3 \<subseteq> tree_names r \<union> str_abs ` set segs"
      using Node.IH(2) Node.prems by auto
    show ?case
      using index 1 2 3 Node.prems
      by (subst find_or_create_node.simps) (auto simp: Let_def)
  qed
qed

end
