(* ===== verification/AbtrfsSpec.thy ===== *)
theory AbtrfsSpec
  imports AbtrfsPath
begin

text \<open>
  What AbtrFS promises. A disk is a list of 4096-byte blocks; \<open>files_at\<close> says that a list of
  named contents is laid out on it, one after the other, each a header block followed by its data
  blocks. The locale \<open>block_device\<close> states the laws of the two block operations; in it the
  searching, reading and writing of \<open>AbtrFS\<close> are proved against that layout. A device may
  fail at any time: \<open>good\<close> are the states in which it does not.
\<close>

section \<open>Files on a disk\<close>

definition wf_disk :: "nat \<Rightarrow> bytes list \<Rightarrow> bool" where
  "wf_disk n d \<longleftrightarrow> length d = n \<and> (\<forall>b \<in> set d. length b = 4096)"

definition blocks_of :: "nat \<Rightarrow> nat" where
  "blocks_of n = (n + 4095) div 4096"

text \<open>The bytes of \<open>n\<close> consecutive blocks.\<close>

definition stream :: "bytes list \<Rightarrow> nat \<Rightarrow> nat \<Rightarrow> bytes" where
  "stream d b n = concat (take n (drop b d))"

definition file_at :: "bytes list \<Rightarrow> nat \<Rightarrow> bytes \<Rightarrow> bytes \<Rightarrow> bool" where
  "file_at d b nm c \<longleftrightarrow>
    (let h = decode_header (d ! b); n = blocks_of (length c) in
     is_file_header h \<and> cstr (path h) = nm \<and> length nm < 255 \<and> c \<noteq> [] \<and>
     section_count h = of_nat n \<and> header_total_size h = of_nat (length c) \<and>
     payload_offset h = of_nat (Suc b) \<and> take (length c) (stream d (Suc b) n) = c)"

fun files_at :: "bytes list \<Rightarrow> nat \<Rightarrow> (bytes \<times> bytes) list \<Rightarrow> nat \<Rightarrow> bool" where
  "files_at d b [] e \<longleftrightarrow> b = e"
| "files_at d b ((nm, c) # fs) e \<longleftrightarrow>
     file_at d b nm c \<and> files_at d (b + 1 + blocks_of (length c)) fs e"

fun locate :: "(bytes \<times> bytes) list \<Rightarrow> nat \<Rightarrow> bytes \<Rightarrow> nat option" where
  "locate [] b nm = None"
| "locate ((n, c) # fs) b nm =
     (if n = nm then Some b else locate fs (b + 1 + blocks_of (length c)) nm)"

lemma blocks_of_simps:
  "n \<le> blocks_of n * 4096" "0 < n \<Longrightarrow> blocks_of n * 4096 < n + 4096"
  "0 < n \<Longrightarrow> 0 < blocks_of n" "blocks_of n = 0 \<longleftrightarrow> n = 0"
  unfolding blocks_of_def by linarith+

lemma blocks_of_le: "n \<le> k * 4096 \<Longrightarrow> blocks_of n \<le> k"
  unfolding blocks_of_def by linarith

lemma blocks_of_mono: "m \<le> n \<Longrightarrow> blocks_of m \<le> blocks_of n"
  unfolding blocks_of_def by (simp add: div_le_mono)

lemma files_at_le: "files_at d b fs e \<Longrightarrow> b \<le> e"
  by (induction d b fs e rule: files_at.induct) auto

lemma locate_None_iff: "locate fs b nm = None \<longleftrightarrow> nm \<notin> fst ` set fs"
  by (induction fs b nm rule: locate.induct) auto

lemma locate_Some:
  assumes "files_at d b fs e" and "locate fs b nm = Some i"
  obtains c where "map_of fs nm = Some c" "file_at d i nm c" "b \<le> i"
    "i + 1 + blocks_of (length c) \<le> e"
  using assms
proof (induction fs b nm arbitrary: thesis rule: locate.induct)
  case (2 n c fs b nm)
  show ?case
  proof (cases "n = nm")
    case True
    then show ?thesis using 2(2) [of c] 2(3-) files_at_le by fastforce
  next
    case False
    obtain c' where "map_of fs nm = Some c'" "file_at d i nm c'"
      "b + 1 + blocks_of (length c) \<le> i" "i + 1 + blocks_of (length c') \<le> e"
      using 2(1) [OF False] 2(3-) False by auto
    then show ?thesis using 2(2) [of c'] False by simp
  qed
qed simp

lemma files_at_append:
  "files_at d b (fs @ gs) e \<longleftrightarrow> (\<exists>m. files_at d b fs m \<and> files_at d m gs e)"
  by (induction d b fs e rule: files_at.induct) (auto simp del: One_nat_def)

lemma locate_split:
  assumes "files_at d b fs e" and "locate fs b nm = Some i"
  obtains fs1 c fs2 where "fs = fs1 @ (nm, c) # fs2" "nm \<notin> fst ` set fs1" "files_at d b fs1 i"
    "file_at d i nm c" "files_at d (i + 1 + blocks_of (length c)) fs2 e"
  using assms
proof (induction fs b nm arbitrary: thesis rule: locate.induct)
  case (2 n c fs b nm)
  show ?case
  proof (cases "n = nm")
    case True
    then show ?thesis using 2(2) [of "[]" c fs] 2(3-) by simp
  next
    case False
    obtain fs1 c' fs2 where "fs = fs1 @ (nm, c') # fs2" "nm \<notin> fst ` set fs1"
      "files_at d (b + 1 + blocks_of (length c)) fs1 i" "file_at d i nm c'"
      "files_at d (i + 1 + blocks_of (length c')) fs2 e"
      using 2(1) [OF False] 2(3-) False by auto
    then show ?thesis using 2(2) [of "(n, c) # fs1" c' fs2] 2(3) False by simp
  qed
qed simp

text \<open>A file only depends on its own blocks.\<close>

lemma stream_cong:
  assumes "length d' = length d" and "\<forall>i. b \<le> i \<and> i < b + n \<longrightarrow> i < length d \<longrightarrow> d' ! i = d ! i"
  shows "stream d' b n = stream d b n"
proof -
  have "take n (drop b d') = take n (drop b d)"
    using assms by (intro nth_equalityI) auto
  then show ?thesis by (simp add: stream_def)
qed

lemma file_at_cong:
  assumes "file_at d b nm c" and "length d' = length d"
    and "\<forall>i. b \<le> i \<and> i < b + 1 + blocks_of (length c) \<longrightarrow> d' ! i = d ! i"
  shows "file_at d' b nm c"
proof -
  have "d' ! b = d ! b" using assms(3) by simp
  moreover have "stream d' (Suc b) (blocks_of (length c)) = stream d (Suc b) (blocks_of (length c))"
    using assms(2,3) by (intro stream_cong) auto
  ultimately show ?thesis using assms(1) by (simp add: file_at_def)
qed

lemma files_at_cong:
  assumes "files_at d b fs e" and "length d' = length d"
    and "\<forall>i. b \<le> i \<and> i < e \<longrightarrow> d' ! i = d ! i"
  shows "files_at d' b fs e"
  using assms
proof (induction d b fs e rule: files_at.induct)
  case (2 d b nm c fs e)
  then have "b + 1 + blocks_of (length c) \<le> e" using files_at_le by auto
  with 2 show ?case by (auto intro: file_at_cong)
qed simp

lemma stream_Suc: "b < length d \<Longrightarrow> stream d b (Suc k) = d ! b @ stream d (Suc b) k"
  by (simp add: stream_def Cons_nth_drop_Suc [symmetric])

lemma stream_0 [simp]: "stream d b 0 = []"
  by (simp add: stream_def)

lemma length_stream:
  assumes "wf_disk m d" and "b + k \<le> m"
  shows "length (stream d b k) = k * 4096"
  using assms
proof (induction k arbitrary: b)
  case (Suc k)
  then have "b < length d" "length (d ! b) = 4096" by (auto simp: wf_disk_def)
  then show ?case using Suc.IH [of "Suc b"] Suc.prems by (simp add: stream_Suc)
qed simp

lemma take_stored: "i \<le> length xs \<Longrightarrow> take (i + length ys) (take i xs @ ys @ zs) = take i xs @ ys"
  by simp

lemma stream_add:
  assumes "b + j \<le> length d"
  shows "stream d b (j + k) = stream d b j @ stream d (b + j) k"
  using assms by (simp add: stream_def take_add add.commute flip: concat_append)

lemma stream_drop:
  assumes "wf_disk m d" and "b + k \<le> m" and "j \<le> k"
  shows "drop (j * 4096) (stream d b k) = stream d (b + j) (k - j)"
proof -
  have "stream d b k = stream d b j @ stream d (b + j) (k - j)"
    using assms stream_add [of b j d "k - j"] by (simp add: wf_disk_def)
  then show ?thesis using length_stream [OF assms(1), of b j] assms(2,3) by simp
qed

text \<open>What a read of at most \<open>mx\<close> bytes from \<open>off\<close> on returns (\<open>mx = 0\<close>: all of them).\<close>

definition file_slice :: "u64 \<Rightarrow> u64 \<Rightarrow> bytes \<Rightarrow> bytes" where
  "file_slice off mx c =
     (let s = drop (unat off) c in if mx = 0 then s else take (unat mx) s)"

text \<open>What a write of \<open>new\<close> at \<open>off\<close> makes of a file: the old bytes, extended with
  zeros as far as the write reaches, with the new bytes over them.\<close>

definition overlay :: "bytes \<Rightarrow> nat \<Rightarrow> bytes \<Rightarrow> bytes" where
  "overlay old off new =
    (let e = old @ replicate (off + length new - length old) 0
     in take off e @ new @ drop (off + length new) e)"

lemma length_overlay: "length (overlay old off new) = max (length old) (off + length new)"
  by (auto simp: overlay_def Let_def)

lemma overlay_nth:
  assumes "i < max (length old) (off + length new)"
  shows "overlay old off new ! i =
    (if off \<le> i \<and> i < off + length new then new ! (i - off)
     else if i < length old then old ! i else 0)"
  using assms by (auto simp: overlay_def Let_def nth_append min_def)

lemma overlay_Nil: "overlay [] off new = replicate off 0 @ new"
  by (simp add: overlay_def)

lemma store_at64_Some:
  assumes "unat i + length xs \<le> length dst" and "length dst < 18446744073709551616"
  shows "store_at64 dst i xs = Some (take (unat i) dst @ xs @ drop (unat i + length xs) dst)"
proof -
  have "store_at64 dst i xs = store_at dst (unat i) xs"
    using assms
  proof (induction xs arbitrary: dst i)
    case (Cons x xs)
    then have "unat (i + 1) = Suc (unat i)" by (simp add: unat_plus64)
    then show ?case using Cons by simp
  qed simp
  then show ?thesis using assms by (simp add: store_at_Some)
qed

lemma overlay_store:
  assumes "length dst = max (length old) (unat off + length new)"
    and "length dst < 18446744073709551616"
    and "dst = old @ replicate (unat off + length new - length old) 0"
  shows "store_at64 dst off new = Some (overlay old (unat off) new)"
  using assms by (subst store_at64_Some) (auto simp: overlay_def Let_def)

section \<open>The blocks of a file\<close>

lemma stream_blocks:
  assumes "\<forall>j < k. d ! (b + j) = take 4096 (drop (j * 4096) s)" and "b + k \<le> length d"
  shows "stream d b k = take (k * 4096) s"
  using assms
proof (induction k)
  case (Suc k)
  have "stream d b (k + 1) = stream d b k @ d ! (b + k)"
    using Suc.prems(2) stream_add [of b k d 1] stream_Suc [of "b + k" d 0] by simp
  also have "\<dots> = take (k * 4096) s @ take 4096 (drop (k * 4096) s)"
    using Suc by simp
  also have "\<dots> = take (Suc k * 4096) s"
    by (simp add: take_add [symmetric] add.commute)
  finally show ?case by simp
qed simp

lemma data_block_eq:
  assumes "j < k" and "k * 4096 < 18446744073709551616"
  shows "data_block raw (of_nat j)
    = take 4096 (drop (j * 4096) (raw @ replicate (k * 4096 - length raw) 0))"
proof -
  have j: "j * 4096 + 4096 \<le> k * 4096" using assms(1) by simp
  then have "unat (of_nat j * ABTRFS_HEADER_BLOCK_SIZE :: u64) = j * 4096"
    using assms(2) by (simp add: ABTRFS_HEADER_BLOCK_SIZE_def word_nat)
  then show ?thesis
    using j by (intro nth_equalityI) (auto simp: data_block_def nth_append min_def)
qed

lemma length_data_block [simp]: "length (data_block raw b) = 4096"
  by (simp add: data_block_def Let_def)

lemma stream_data_blocks:
  assumes "\<forall>j < k. d ! (b + j) = data_block raw (of_nat j)" and "b + k \<le> length d"
    and "k * 4096 < 18446744073709551616" and "length raw \<le> k * 4096"
  shows "take (length raw) (stream d b k) = raw"
proof -
  let ?s = "raw @ replicate (k * 4096 - length raw) (0 :: u8)"
  have "stream d b k = take (k * 4096) ?s"
    using assms(1,2) data_block_eq [OF _ assms(3), of _ raw] by (intro stream_blocks) auto
  then show ?thesis using assms(4) by simp
qed

text \<open>The header that a write of \<open>m\<close> bytes makes stands for \<open>m\<close> bytes.\<close>

lemma required_blocks_eq:
  assumes "unat fin = m" and "0 < m" and "m + 4096 \<le> 18446744073709551616"
  shows "(fin + ABTRFS_HEADER_BLOCK_SIZE - 1) div ABTRFS_HEADER_BLOCK_SIZE = of_nat (blocks_of m)"
    and "unat (of_nat (blocks_of m) :: u64) = blocks_of m"
proof -
  have a: "unat (fin + ABTRFS_HEADER_BLOCK_SIZE - 1) = m + 4095"
  proof -
    have "fin + ABTRFS_HEADER_BLOCK_SIZE - 1 = fin + 4095"
      by (simp add: ABTRFS_HEADER_BLOCK_SIZE_def)
    then show ?thesis using assms by (simp only:) (simp add: unat_plus64)
  qed
  show b: "unat (of_nat (blocks_of m) :: u64) = blocks_of m"
    using assms(3) by (intro unat_of_nat64) (simp add: blocks_of_def)
  show "(fin + ABTRFS_HEADER_BLOCK_SIZE - 1) div ABTRFS_HEADER_BLOCK_SIZE = of_nat (blocks_of m)"
    using a by (simp add: word_unat_eq_iff b unat_div_distrib)
      (simp add: ABTRFS_HEADER_BLOCK_SIZE_def blocks_of_def)
qed

lemma blocks_of_split: "r < 4096 \<Longrightarrow> blocks_of (q * 4096 + r) = q + (if r = 0 then 0 else 1)"
  unfolding blocks_of_def by (intro div_nat_eqI) auto

lemma last_block_size:
  assumes "0 < m"
  shows "(blocks_of m - 1) * 4096 + (if m mod 4096 = 0 then 4096 else m mod 4096) = m"
proof -
  have m: "m = m div 4096 * 4096 + m mod 4096" by simp
  have "blocks_of m = m div 4096 + (if m mod 4096 = 0 then 0 else 1)"
    using blocks_of_split [of "m mod 4096" "m div 4096"] by simp
  moreover have "m mod 4096 = 0 \<Longrightarrow> 0 < m div 4096" using assms m by linarith
  ultimately show ?thesis using m by (auto simp: diff_mult_distrib)
qed

lemma finish_header_size:
  assumes "unat fin = m" and "0 < m" and "m + 4096 \<le> 18446744073709551616"
  shows "header_total_size (finish_header h (of_nat (blocks_of m)) fin p) = of_nat m"
proof -
  let ?h = "finish_header h (of_nat (blocks_of m)) fin p"
  let ?r = "if m mod 4096 = 0 then 4096 else m mod 4096"
  have r: "unat (fin mod ABTRFS_HEADER_BLOCK_SIZE) = m mod 4096"
    using assms(1) by (simp add: unat_mod ABTRFS_HEADER_BLOCK_SIZE_def)
  have sz: "unat (ucast (hsize ?h) :: u64) = ?r"
    using r by (auto simp: finish_header_def Let_def word_unat_eq_iff unsigned_ucast_eq
        take_bit_eq_mod unat_mod ABTRFS_HEADER_BLOCK_SIZE_def)
  have k: "unat (of_nat (blocks_of m) :: u64) = blocks_of m" "0 < blocks_of m"
    using required_blocks_eq(2) [OF assms] assms(2) by (simp_all add: blocks_of_simps)
  have cnt: "section_count ?h = of_nat (blocks_of m)" by (simp add: finish_header_def Let_def)
  have "unat (section_count ?h - 1) = blocks_of m - 1"
    using k unfolding cnt by (subst unat_minus64) simp_all
  moreover have le: "(blocks_of m - 1) * 4096 + ?r = m" by (rule last_block_size [OF assms(2)])
  ultimately have "unat ((section_count ?h - 1) * ABTRFS_HEADER_BLOCK_SIZE + ucast (hsize ?h)) = m"
    using sz assms(3) by (subst unat_plus64; subst unat_times64; simp add: ABTRFS_HEADER_BLOCK_SIZE_def)
  moreover have "0 < section_count ?h" using k unfolding cnt by (simp add: word_less_nat_alt)
  ultimately show ?thesis
    using assms(3) by (simp add: header_total_size_def word_unat_eq_iff word_nat)
qed

text \<open>The contents of a file after \<^verbatim>\<open>write_file\<close>: a new file holds what was written; a file
  that existed keeps its size, because its header is not written again.\<close>

definition written :: "bytes option \<Rightarrow> nat \<Rightarrow> bytes \<Rightarrow> bytes" where
  "written old off new = (case old of
     None \<Rightarrow> overlay [] off new | Some c \<Rightarrow> take (length c) (overlay c off new))"

text \<open>The writes whose effect is specified: a new file, or inside the blocks of an old one.\<close>

definition write_fits :: "bytes option \<Rightarrow> nat \<Rightarrow> nat \<Rightarrow> bool" where
  "write_fits old off len = (case old of
     None \<Rightarrow> off + len + 4096 \<le> 18446744073709551616
   | Some c \<Rightarrow> off + len \<le> blocks_of (length c) * 4096)"

abbreviation used_blocks :: "AbtrFS \<Rightarrow> nat" where
  "used_blocks fs \<equiv> unat (total_blocks (partition_header fs) - free_blocks_count (partition_header fs))"

text \<open>A mounted file system whose files are \<open>files\<close>: the used part of the disk holds exactly
  their headers and data.\<close>

definition fs_layout ::
    "u64 \<Rightarrow> nat \<Rightarrow> bytes list \<Rightarrow> AbtrFS \<Rightarrow> (bytes \<times> bytes) list \<Rightarrow> bool" where
  "fs_layout handle n d fs files \<longleftrightarrow>
    (let ph = partition_header fs in
     is_mounted fs \<and> fs_device_handle fs = handle \<and> tree_inv (root_node fs) \<and> wf_partition ph \<and>
     ph_magic ph = ABTRFS_FS_MAGIC \<and> decode_partition (d ! 0) = ph \<and>
     free_blocks_count ph \<le> total_blocks ph \<and> unat (total_blocks ph) \<le> n \<and>
     files_at d 1 files (unat (total_blocks ph - free_blocks_count ph)) \<and>
     distinct (map fst files))"

section \<open>Block devices\<close>

text \<open>
  The interface AbtrFS relies on: a read returns the block or fails and leaves the disk alone; a
  write that succeeds stores the block, one that fails may leave anything in that block and
  touches no other. In a \<open>good\<close> state the operation succeeds and the state stays good. Blocks
  beyond the \<open>n\<close> blocks of the disk are outside the contract. A disk has fewer than \<open>2^52\<close>
  blocks, so that byte offsets in it fit 64 bits.
\<close>

locale block_device =
  fixes rb :: "'s block_read" and wb :: "'s block_write" and handle :: u64 and n :: nat
    and disk :: "'s \<Rightarrow> bytes list" and dinv :: "'s \<Rightarrow> bool" and good :: "'s \<Rightarrow> bool"
  assumes n_bound: "n < 4503599627370496"
    and disk_wf: "dinv w \<Longrightarrow> wf_disk n (disk w)"
    and read_law: "dinv w \<Longrightarrow> unat b < n \<Longrightarrow> \<exists>r w'. rb handle b w = Some (r, w') \<and> dinv w' \<and>
      disk w' = disk w \<and> (r = None \<or> r = Some (disk w ! unat b)) \<and>
      (good w \<longrightarrow> r \<noteq> None \<and> good w')"
    and write_law: "dinv w \<Longrightarrow> unat b < n \<Longrightarrow> length bs = 4096 \<Longrightarrow>
      \<exists>ok w' x. wb handle b bs w = Some (ok, w') \<and> dinv w' \<and> disk w' = (disk w)[unat b := x] \<and>
      (ok \<longrightarrow> x = bs) \<and> (good w \<longrightarrow> ok \<and> good w')"
begin

lemma read_cases:
  assumes "dinv w" and "unat b < n"
  obtains (ok) w' where "rb handle b w = Some (Some (disk w ! unat b), w')" "dinv w'"
      "disk w' = disk w" "good w \<longrightarrow> good w'"
    | (failed) w' where "rb handle b w = Some (None, w')" "dinv w'" "disk w' = disk w" "\<not> good w"
  using read_law [OF assms] by blast

lemma block_length: "dinv w \<Longrightarrow> i < n \<Longrightarrow> length (disk w ! i) = 4096"
  using disk_wf [of w] by (simp add: wf_disk_def)

lemma disk_length: "dinv w \<Longrightarrow> length (disk w) = n"
  using disk_wf [of w] by (simp add: wf_disk_def)

lemma header_path_length:
  "dinv w \<Longrightarrow> i < n \<Longrightarrow> length (path (decode_header (disk w ! i))) = 256"
  using wf_decode_header [OF block_length] by (simp add: wf_header_def)

lemma unat_of_block: "b \<le> n \<Longrightarrow> unat (of_nat b :: u64) = b"
  using n_bound by (simp add: word_nat)

text \<open>The scan over a laid out disk finds the header of the named file, or fails with the
  device.\<close>

lemma find_loop_files:
  assumes "dinv w" and "files_at (disk w) b fs e" and "e \<le> n" and "length p = 2048"
  shows "\<exists>r w'. find_loop rb handle (of_nat e) p (of_nat b) w = Some (r, w') \<and> dinv w' \<and>
    disk w' = disk w \<and>
    (r = None \<or> r = map_option (\<lambda>i. decode_header (disk w ! i)) (locate fs b (cstr p))) \<and>
    (good w \<longrightarrow> good w' \<and>
      r = map_option (\<lambda>i. decode_header (disk w ! i)) (locate fs b (cstr p)))"
  using assms
proof (induction fs arbitrary: b w)
  case Nil
  then show ?case by (subst find_loop.simps) auto
next
  case (Cons f fs)
  obtain nm c where f: "f = (nm, c)" by fastforce
  let ?h = "decode_header (disk w ! b)" and ?k = "blocks_of (length c)"
  have at: "file_at (disk w) b nm c" and rest: "files_at (disk w) (b + 1 + ?k) fs e"
    using Cons.prems(2) f by auto
  have le: "b + 1 + ?k \<le> e" using files_at_le [OF rest] .
  then have b: "b < e" "b < n" "unat (of_nat b :: u64) = b" "(of_nat b :: u64) < of_nat e"
    using Cons.prems(3) by (auto simp: unat_of_block word_less_nat_alt)
  have h: "is_file_header ?h" "cstr (path ?h) = nm" "length nm < 255" "0 < length c"
    "section_count ?h = of_nat ?k"
    using at by (auto simp: file_at_def Let_def)
  have k: "0 < ?k" "unat (of_nat ?k :: u64) = ?k"
    using h(4) le Cons.prems(3) by (auto simp: blocks_of_simps unat_of_block)
  then have "0 < section_count ?h" using h(5) by (simp add: word_less_nat_alt)
  then have skip: "of_nat b + header_skip ?h = (of_nat (b + 1 + ?k) :: u64)"
    using h(1,5) by (simp add: header_skip_def is_file_header_def)
  have eq: "is_path_equal p (path ?h) \<longleftrightarrow> nm = cstr p"
    using h(2,3) Cons.prems(4) header_path_length [OF Cons.prems(1) b(2)]
    by (auto simp: is_path_equal_iff)
  show ?case
  proof (cases rule: read_cases [OF Cons.prems(1), of "of_nat b"])
    case (2 w1)
    show ?thesis
    proof (cases "nm = cstr p")
      case True
      then show ?thesis
        using 2 b h(1) eq f by (subst find_loop.simps) (simp add: Let_def)
    next
      case False
      have "find_loop rb handle (of_nat e) p (of_nat b) w
          = find_loop rb handle (of_nat e) p (of_nat (b + 1 + ?k)) w1"
        using 2 b eq False skip
        by (subst find_loop.simps) (simp add: Let_def del: of_nat_add)
      moreover have "locate (f # fs) b (cstr p) = locate fs (b + 1 + ?k) (cstr p)"
        using False f by simp
      ultimately show ?thesis
        using Cons.IH [OF 2(2) _ Cons.prems(3,4), of "b + 1 + ?k"] rest 2 by auto
    qed
  next
    case (3 w1)
    then show ?thesis using b by (subst find_loop.simps) simp
  qed (use b in simp)
qed

text \<open>The copy loops of \<^verbatim>\<open>read_file\<close> deliver the stream of the data blocks.\<close>

lemma read_loop_stream:
  assumes "dinv w" and "pos + cnt \<le> n" and "b \<le> cnt" and "k < 4096"
    and "copied \<le> to_read" and "to_read - copied + k \<le> (cnt - b) * 4096 \<or> copied = to_read"
    and "length xs = to_read"
  shows "\<exists>ok m w'. read_loop rb handle (of_nat pos) (of_nat cnt) to_read k (of_nat b) copied
        (owned xs cap) w = Some ((ok, m), w') \<and> dinv w' \<and> disk w' = disk w \<and>
      (\<exists>ys. length ys = to_read \<and> m = owned ys cap) \<and>
      (ok \<longrightarrow> m = owned (take copied xs @
         take (to_read - copied) (drop k (stream (disk w) (pos + b) (cnt - b)))) cap) \<and>
      (good w \<longrightarrow> ok \<and> good w')"
  using assms
proof (induction "cnt - b" arbitrary: b k copied xs w)
  case 0
  then have "(cnt - b) * 4096 = 0" by simp
  then have "copied = to_read" using "0.prems"(5,6) by arith
  then show ?case using "0.prems" by (subst read_loop.simps) auto
next
  case (Suc d)
  show ?case
  proof (cases "copied = to_read")
    case True
    then show ?thesis using Suc.prems by (subst read_loop.simps) auto
  next
    case False
    have b: "b < cnt" "unat (of_nat (pos + b) :: u64) = pos + b" "pos + b < n"
      "(of_nat b :: u64) < of_nat cnt"
      using Suc.hyps(2) Suc.prems(2)
      by (auto simp: unat_of_block word_less_nat_alt simp del: of_nat_add)
    define blk where "blk = disk w ! (pos + b)"
    define chunk where "chunk = take (to_read - copied) (drop k blk)"
    define ys where "ys = take copied xs @ chunk @ drop (copied + length chunk) xs"
    define c where "c = copied + length chunk"
    have len: "length blk = 4096" using block_length [OF Suc.prems(1) b(3)] by (simp add: blk_def)
    have c: "c \<le> to_read" "length ys = to_read"
      using Suc.prems(5,7) by (auto simp: c_def chunk_def ys_def)
    have wr: "write_all (owned xs cap) copied chunk = Some (owned ys cap)"
      unfolding ys_def by (rule write_all_owned) (use Suc.prems(5,7) in \<open>simp add: chunk_def\<close>)
    have str: "stream (disk w) (pos + b) (cnt - b)
        = blk @ stream (disk w) (pos + Suc b) (cnt - Suc b)"
      using stream_Suc [of "pos + b" "disk w" "cnt - Suc b"] b disk_length [OF Suc.prems(1)]
      by (simp add: Suc_diff_Suc blk_def)
    have more: "to_read - c + 0 \<le> (cnt - Suc b) * 4096 \<or> c = to_read"
      using Suc.prems(4,6) False len b(1)
      by (auto simp: min_def diff_mult_distrib c_def chunk_def)
    have out: "take copied xs @ take (to_read - copied)
          (drop k (stream (disk w) (pos + b) (cnt - b)))
        = take c ys @ take (to_read - c) (drop 0 (stream (disk w) (pos + Suc b) (cnt - Suc b)))"
    proof -
      have "take c ys = take copied xs @ chunk"
        unfolding c_def ys_def using Suc.prems(5,7) by (intro take_stored) simp
      moreover have "take (to_read - copied) (drop k (stream (disk w) (pos + b) (cnt - b)))
          = chunk @ take (to_read - c) (stream (disk w) (pos + Suc b) (cnt - Suc b))"
        using Suc.prems(4) len unfolding str chunk_def c_def by (simp add: min_def)
      ultimately show ?thesis by simp
    qed
    show ?thesis
    proof (cases rule: read_cases [OF Suc.prems(1), of "of_nat (pos + b)"])
      case (2 w1)
      have "read_loop rb handle (of_nat pos) (of_nat cnt) to_read k (of_nat b) copied
            (owned xs cap) w
          = read_loop rb handle (of_nat pos) (of_nat cnt) to_read 0 (of_nat (Suc b)) c
            (owned ys cap) w1"
      proof -
        have "rb handle (of_nat pos + of_nat b) w = Some (Some blk, w1)"
          using 2(1) b(2) by (simp add: blk_def)
        moreover have "take (to_read - copied) (drop k (take 4096 blk)) = chunk"
          using len by (simp add: chunk_def)
        moreover have "(of_nat b + 1 :: u64) = of_nat (Suc b)" by simp
        ultimately show ?thesis
          using b(4) False Suc.prems(5) wr
          by (subst read_loop.simps) (simp add: Let_def c_def del: of_nat_Suc)
      qed
      moreover have "d = cnt - Suc b" using Suc.hyps(2) by simp
      ultimately show ?thesis
        using Suc.hyps(1) [of "Suc b" w1 0 c ys] 2(2-4) Suc.prems(2) b(1) more c
        unfolding out by simp blast
    qed (use b False Suc.prems(5,7) in \<open>auto simp: read_loop.simps [of rb handle "of_nat pos"]\<close>)
  qed
qed

lemma fs_find_files:
  assumes "dinv w" and "fs_layout handle n (disk w) fs files" and "length p = 2048"
  shows "\<exists>r w'. fs_find rb fs p w = Some (r, w') \<and> dinv w' \<and> disk w' = disk w \<and>
    (r = None \<or> r = map_option (\<lambda>i. decode_header (disk w ! i)) (locate files 1 (cstr p))) \<and>
    (good w \<longrightarrow> good w' \<and>
      r = map_option (\<lambda>i. decode_header (disk w ! i)) (locate files 1 (cstr p)))"
proof -
  let ?ph = "partition_header fs"
  let ?e = "unat (total_blocks ?ph - free_blocks_count ?ph)"
  have l: "fs_device_handle fs = handle" "files_at (disk w) 1 files ?e"
      "free_blocks_count ?ph \<le> total_blocks ?ph" "unat (total_blocks ?ph) \<le> n"
    using assms(2) by (auto simp: fs_layout_def Let_def)
  then have "?e \<le> n" using unat_sub [OF l(3)] by linarith
  from find_loop_files [OF assms(1) l(2) this assms(3)] show ?thesis
    by (simp add: fs_find_def find_file_header_def l(1))
qed

text \<open>Where a file of the layout is, and the numbers of its header.\<close>

lemma file_facts:
  assumes "dinv w" and "fs_layout handle n (disk w) fs files" and "locate files 1 nm = Some i"
  obtains c where "map_of files nm = Some c" "file_at (disk w) i nm c" "1 \<le> i"
    "Suc i + blocks_of (length c) \<le> n" "length c < 18446744073709551616" "0 < length c"
    "unat (of_nat (length c) :: u64) = length c"
proof -
  let ?ph = "partition_header fs"
  let ?e = "unat (total_blocks ?ph - free_blocks_count ?ph)"
  have l: "files_at (disk w) 1 files ?e"
      "free_blocks_count ?ph \<le> total_blocks ?ph" "unat (total_blocks ?ph) \<le> n"
    using assms(2) by (auto simp: fs_layout_def Let_def)
  obtain c where c: "map_of files nm = Some c" "file_at (disk w) i nm c" "1 \<le> i"
      "i + 1 + blocks_of (length c) \<le> ?e"
    by (rule locate_Some [OF l(1) assms(3)])
  have "?e \<le> n" using l(3) unat_sub [OF l(2)] by linarith
  then have "Suc i + blocks_of (length c) \<le> n" using c(4) by linarith
  moreover from this have "length c < 18446744073709551616"
    using blocks_of_simps(1) [of "length c"] n_bound by linarith
  moreover have "0 < length c" using c(2) by (simp add: file_at_def Let_def)
  ultimately show ?thesis using that [OF c(1-3)] by (simp add: word_nat)
qed

text \<open>The part of a file that a read wants, out of its data blocks.\<close>

lemma slice_stream:
  assumes "dinv w" and "file_at (disk w) i nm c" and "Suc i + blocks_of (length c) \<le> n"
    and "off < length c" and "m \<le> length c - off"
  shows "take m (drop (off mod 4096) (stream (disk w) (Suc i + off div 4096)
      (blocks_of (length c) - off div 4096))) = take m (drop off c)"
proof -
  let ?s = "stream (disk w) (Suc i) (blocks_of (length c))"
  have j: "off div 4096 \<le> blocks_of (length c)"
    using blocks_of_simps(1) [of "length c"] assms(4) by linarith
  have c: "take (length c) ?s = c" using assms(2) by (simp add: file_at_def Let_def)
  have "drop (off mod 4096) (drop (off div 4096 * 4096) ?s) = drop off ?s"
    by (simp add: add.commute)
  then have "take m (drop (off mod 4096) (stream (disk w) (Suc i + off div 4096)
      (blocks_of (length c) - off div 4096))) = take m (drop off ?s)"
    using stream_drop [OF disk_wf [OF assms(1)] assms(3) j] by simp
  also have "\<dots> = take m (drop off (take (length c) ?s))"
    using assms(5) by (simp add: drop_take min_def)
  finally show ?thesis unfolding c .
qed

lemma read_loop_file:
  assumes w: "dinv w" and at: "file_at (disk w) i nm c" and i: "Suc i + blocks_of (length c) \<le> n"
    and off: "unat off < length c" and m: "m \<le> length c - unat off" and xs: "length xs = m"
  shows "\<exists>ok m' w'. read_loop rb handle (of_nat (Suc i)) (of_nat (blocks_of (length c))) m
        (unat (off mod ABTRFS_HEADER_BLOCK_SIZE)) (off div ABTRFS_HEADER_BLOCK_SIZE) 0
        (owned xs cap) w = Some ((ok, m'), w') \<and> dinv w' \<and> disk w' = disk w \<and>
      (\<exists>ys. length ys = m \<and> m' = owned ys cap) \<and>
      (ok \<longrightarrow> m' = owned (take m (drop (unat off) c)) cap) \<and> (good w \<longrightarrow> ok \<and> good w')"
proof -
  let ?b = "unat off div 4096" and ?k = "blocks_of (length c)"
  have "unat (off div ABTRFS_HEADER_BLOCK_SIZE) = ?b"
    by (simp add: unat_div_distrib ABTRFS_HEADER_BLOCK_SIZE_def)
  then have b: "off div ABTRFS_HEADER_BLOCK_SIZE = of_nat ?b"
      "unat (off mod ABTRFS_HEADER_BLOCK_SIZE) = unat off mod 4096"
    by (metis of_nat_unat ucast_id) (simp add: unat_mod ABTRFS_HEADER_BLOCK_SIZE_def)
  have "length c \<le> ?k * 4096" by (rule blocks_of_simps)
  moreover have "unat off = ?b * 4096 + unat off mod 4096" by simp
  ultimately have "m + unat off mod 4096 + ?b * 4096 \<le> ?k * 4096" "?b \<le> ?k"
    using off m by linarith+
  then have k: "?b \<le> ?k" "m - 0 + unat off mod 4096 \<le> (?k - ?b) * 4096 \<or> 0 = m"
    by (simp_all only: diff_mult_distrib) linarith+
  have "take m (drop (unat off mod 4096) (stream (disk w) (Suc i + ?b) (?k - ?b)))
      = take m (drop (unat off) c)"
    by (rule slice_stream [OF w at i off m])
  then show ?thesis
    using read_loop_stream [OF w i k(1) _ le0 k(2) xs, of cap] unfolding b by simp
qed

lemma read_found_reads:
  assumes w: "dinv w" and at: "file_at (disk w) i nm c" and i: "Suc i + blocks_of (length c) \<le> n"
    and c: "unat (of_nat (length c) :: u64) = length c" and handle: "fs_device_handle fs = handle"
    and arg: "\<forall>d. arg = Some d \<longrightarrow> dyn_inv d"
  shows "\<exists>r arg' w'. read_found rb fs (decode_header (disk w ! i)) arg off mx w
      = Some (r, arg', w') \<and> dinv w' \<and> disk w' = disk w \<and>
    (case r of Inl e \<Rightarrow> e = IOError \<and> \<not> good w
     | Inr d \<Rightarrow> dyn_inv d \<and> dyn_abs d = file_slice off mx c \<and>
         (\<forall>a. arg = Some a \<longrightarrow> (\<exists>a'. arg' = Some a' \<and> dyn_inv a' \<and> dyn_abs a' = dyn_abs d))) \<and>
    (good w \<longrightarrow> good w')"
proof -
  let ?k = "blocks_of (length c)" and ?h = "decode_header (disk w ! i)"
  have h: "section_count ?h = of_nat ?k" "header_total_size ?h = of_nat (length c)"
    "payload_offset ?h = of_nat (Suc i)"
    using at by (auto simp: file_at_def Let_def)
  show ?thesis
  proof (cases "length c \<le> unat off")
    case True
    then have le: "of_nat (length c) \<le> off" using c by (simp add: word_le_nat_alt)
    have sl: "file_slice off mx c = []" using True by (simp add: file_slice_def)
    show ?thesis
    proof (cases arg)
      case None
      then show ?thesis
        using le w sl by (simp add: read_found_def Let_def h dyn_init_correct)
    next
      case (Some a)
      obtain a' where "dyn_assign 0 a dyn_init = Some a'" "dyn_inv a'" "dyn_abs a' = []"
        by (rule dyn_assign_correct [of a dyn_init 0]) (use arg Some dyn_init_correct in auto)
      then show ?thesis
        using Some le w sl by (simp add: read_found_def Let_def h dyn_init_correct)
    qed
  next
    case False
    then have lt: "\<not> of_nat (length c) \<le> off" using c by (simp add: word_le_nat_alt)
    define want where "want = (if 0 < mx \<and> mx < of_nat (length c) - off then mx
      else of_nat (length c) - off)"
    have avail: "unat (of_nat (length c) - off) = length c - unat off"
      using False c unat_sub [of off "of_nat (length c)"] by (simp add: word_le_nat_alt)
    have want: "0 < unat want" "unat want \<le> length c - unat off"
      using False avail unfolding want_def
      by (auto simp: word_less_nat_alt unat_gt_0 split: if_splits)
    have slice: "take (unat want) (drop (unat off) c) = file_slice off mx c"
      using avail unfolding want_def file_slice_def Let_def
      by (auto simp: word_less_nat_alt unat_gt_0 word_gt_0 unat_eq_0)
    define t0 where "t0 = (case arg of None \<Rightarrow> dyn_init | Some d \<Rightarrow> d)"
    have "dyn_inv t0" using arg dyn_init_correct by (cases arg) (auto simp: t0_def)
    then obtain t where t: "dyn_resize 0 (unat want) t0 = Some t" "dyn_inv t"
      "length (dyn_abs t) = unat want"
      by (rule dyn_resize_correct [of t0 0 "unat want"]) simp
    obtain xs cap where xs: "data t = owned xs cap" "size_field t = unat want"
      "length xs = unat want" "capacity_field t = cap" "unat want \<le> cap" "0 < cap"
      using t(2,3) want(1) by (cases rule: dyn_inv_cases [OF t(2)]) auto
    obtain ok m' w2 where rl: "read_loop rb handle (of_nat (Suc i)) (of_nat ?k) (unat want)
        (unat (off mod ABTRFS_HEADER_BLOCK_SIZE)) (off div ABTRFS_HEADER_BLOCK_SIZE) 0
        (owned xs cap) w = Some ((ok, m'), w2)" "dinv w2" "disk w2 = disk w"
      "\<exists>ys. length ys = unat want \<and> m' = owned ys cap"
      "ok \<longrightarrow> m' = owned (file_slice off mx c) cap" "good w \<longrightarrow> ok \<and> good w2"
      using read_loop_file [OF w at i, of off "unat want" xs cap] False want(2) xs(3) slice
      by auto
    have "read_found rb fs ?h arg off mx w =
      (if \<not> ok then Some (Inl IOError, map_option (\<lambda>_. t\<lparr>data := m'\<rparr>) arg, w2)
       else do { c \<leftarrow> dyn_copy 0 (t\<lparr>data := m'\<rparr>);
                 Some (Inr c, map_option (\<lambda>_. t\<lparr>data := m'\<rparr>) arg, w2) })"
      using lt t(1) rl(1) xs(1)
      by (simp add: read_found_def Let_def h handle want_def [symmetric] t0_def [symmetric]
          del: of_nat_Suc)
    moreover have "dyn_inv (t\<lparr>data := m'\<rparr>)"
      using rl(4) xs by (auto intro!: dyn_invI)
    moreover have "ok \<longrightarrow> dyn_abs (t\<lparr>data := m'\<rparr>) = file_slice off mx c"
      using rl(5) xs(2) want(2) by (auto simp flip: slice intro!: dyn_abs_owned)
    moreover obtain e where "dyn_copy 0 (t\<lparr>data := m'\<rparr>) = Some e" "dyn_inv e"
      "dyn_abs e = dyn_abs (t\<lparr>data := m'\<rparr>)"
      by (rule dyn_copy_correct [OF calculation(2), of 0])
    ultimately show ?thesis using rl(2,3,6) by auto
  qed
qed

text \<open>\<^verbatim>\<open>read_file\<close>: the wanted part of the named file, in the returned array and in the
  caller's; \<open>FileNotFound\<close> or \<open>IOError\<close> when the device fails or there is no such file.\<close>

lemma read_file_reads:
  assumes w: "dinv w" and lay: "fs_layout handle n (disk w) fs files" and p: "good_path p"
    and arg: "\<forall>d. arg = Some d \<longrightarrow> dyn_inv d"
  shows "\<exists>r arg' w'. read_file rb fs p arg off mx w = Some (r, arg', w') \<and> dinv w' \<and>
    disk w' = disk w \<and>
    (case r of Inl e \<Rightarrow> e = FileNotFound \<and> (map_of files (cstr p) = None \<or> \<not> good w) \<or>
                        e = IOError \<and> \<not> good w
     | Inr d \<Rightarrow> \<exists>c. map_of files (cstr p) = Some c \<and> dyn_inv d \<and> dyn_abs d = file_slice off mx c \<and>
         (\<forall>a. arg = Some a \<longrightarrow> (\<exists>a'. arg' = Some a' \<and> dyn_inv a' \<and> dyn_abs a' = dyn_abs d))) \<and>
    (good w \<longrightarrow> good w')"
proof -
  have m: "is_mounted fs" "length p = 2048" "fs_device_handle fs = handle"
    using lay p by (auto simp: fs_layout_def Let_def good_path_def)
  obtain segs where segs: "chopPath p = Some (Inr segs)" "segs \<noteq> []"
    by (rule chopPath_good [OF p])
  obtain r w1 where f: "fs_find rb fs p w = Some (r, w1)" "dinv w1" "disk w1 = disk w"
    "r = None \<or> r = map_option (\<lambda>i. decode_header (disk w ! i)) (locate files 1 (cstr p))"
    "good w \<longrightarrow> good w1 \<and>
      r = map_option (\<lambda>i. decode_header (disk w ! i)) (locate files 1 (cstr p))"
    using fs_find_files [OF w lay m(2)] by blast
  show ?thesis
  proof (cases r)
    case None
    have "map_of files (cstr p) = None \<or> \<not> good w"
    proof (cases "good w")
      case True
      then have "locate files 1 (cstr p) = None" using f(5) None by simp
      then show ?thesis by (simp add: locate_None_iff map_of_eq_None_iff)
    qed simp
    then show ?thesis
      using None f m(1) segs by (auto simp: read_file_def)
  next
    case (Some h)
    obtain i where i: "locate files 1 (cstr p) = Some i" "h = decode_header (disk w ! i)"
      using f(4) Some by (cases "locate files 1 (cstr p)") auto
    obtain c where c: "map_of files (cstr p) = Some c" "file_at (disk w) i (cstr p) c"
      "Suc i + blocks_of (length c) \<le> n" "unat (of_nat (length c) :: u64) = length c"
      by (rule file_facts [OF w lay i(1)])
    have "read_file rb fs p arg off mx w
        = read_found rb fs (decode_header (disk w1 ! i)) arg off mx w1"
      using m(1) segs f(1,3) Some i(2) by (simp add: read_file_def)
    moreover obtain r' arg' w' where g:
      "read_found rb fs (decode_header (disk w1 ! i)) arg off mx w1 = Some (r', arg', w')"
      "dinv w'" "disk w' = disk w1"
      "case r' of Inl e \<Rightarrow> e = IOError \<and> \<not> good w1
       | Inr d \<Rightarrow> dyn_inv d \<and> dyn_abs d = file_slice off mx c \<and>
         (\<forall>a. arg = Some a \<longrightarrow> (\<exists>a'. arg' = Some a' \<and> dyn_inv a' \<and> dyn_abs a' = dyn_abs d))"
      "good w1 \<longrightarrow> good w'"
      using read_found_reads [OF f(2) _ c(3,4) m(3) arg, of "cstr p" off mx] c(2)
      unfolding f(3) by blast
    ultimately show ?thesis
      using c(1) f(3,5) by (cases r') auto
  qed
qed

lemma write_cases:
  assumes "dinv w" and "unat b < n" and "length bs = 4096"
  obtains (ok) w' where "wb handle b bs w = Some (True, w')" "dinv w'"
      "disk w' = (disk w)[unat b := bs]" "good w \<longrightarrow> good w'"
    | (failed) w' x where "wb handle b bs w = Some (False, w')" "dinv w'"
      "disk w' = (disk w)[unat b := x]" "\<not> good w"
  using write_law [OF assms] by (metis (full_types))

text \<open>The block loop of \<^verbatim>\<open>write_file\<close> touches the data blocks only, and stores all of them when
  it succeeds.\<close>

lemma write_loop_blocks:
  assumes "dinv w" and "pos + cnt \<le> n" and "b \<le> cnt"
  shows "\<exists>ok w'. write_loop wb handle (of_nat pos) (of_nat cnt) raw (of_nat b) w = Some (ok, w') \<and>
    dinv w' \<and> (\<forall>i. i < pos + b \<or> pos + cnt \<le> i \<longrightarrow> disk w' ! i = disk w ! i) \<and>
    (ok \<longrightarrow> (\<forall>j. b \<le> j \<and> j < cnt \<longrightarrow> disk w' ! (pos + j) = data_block raw (of_nat j))) \<and>
    (good w \<longrightarrow> ok \<and> good w')"
  using assms
proof (induction "cnt - b" arbitrary: b w)
  case 0
  then have b: "b = cnt" by simp
  have "write_loop wb handle (of_nat pos) (of_nat cnt) raw (of_nat cnt) w = Some (True, w)"
    by (subst write_loop.simps) simp
  then show ?case unfolding b using "0.prems"(1) by force
next
  case (Suc d)
  have b: "b < cnt" "unat (of_nat (pos + b) :: u64) = pos + b" "pos + b < n"
    "(of_nat b :: u64) < of_nat cnt" "(of_nat b + 1 :: u64) = of_nat (Suc b)"
    using Suc.hyps(2) Suc.prems(2)
    by (auto simp: unat_of_block word_less_nat_alt simp del: of_nat_add)
  show ?case
  proof (cases rule: write_cases [OF Suc.prems(1), of "of_nat (pos + b)" "data_block raw (of_nat b)"])
    case (3 w1)
    have "write_loop wb handle (of_nat pos) (of_nat cnt) raw (of_nat b) w
        = write_loop wb handle (of_nat pos) (of_nat cnt) raw (of_nat (Suc b)) w1"
      using 3(1) b(4,5) by (subst write_loop.simps) (simp del: of_nat_Suc)
    moreover obtain ok w' where l:
      "write_loop wb handle (of_nat pos) (of_nat cnt) raw (of_nat (Suc b)) w1 = Some (ok, w')"
      "dinv w'" "\<forall>i. i < pos + Suc b \<or> pos + cnt \<le> i \<longrightarrow> disk w' ! i = disk w1 ! i"
      "ok \<longrightarrow> (\<forall>j. Suc b \<le> j \<and> j < cnt \<longrightarrow> disk w' ! (pos + j) = data_block raw (of_nat j))"
      "good w1 \<longrightarrow> ok \<and> good w'"
    proof -
      have "d = cnt - Suc b" "Suc b \<le> cnt" using Suc.hyps(2) b(1) by auto
      from Suc.hyps(1) [OF this(1) 3(2) Suc.prems(2) this(2)] show ?thesis using that by blast
    qed
    moreover have d1: "disk w1 ! i = (if i = pos + b then data_block raw (of_nat b) else disk w ! i)"
      for i
      using 3(3) b(2,3) disk_length [OF Suc.prems(1)]
      by (auto simp: nth_list_update simp del: of_nat_add)
    moreover have "disk w' ! i = disk w ! i" if "i < pos + b \<or> pos + cnt \<le> i" for i
      using l(3) d1 [of i] that b(1) by auto
    moreover have "disk w' ! (pos + j) = data_block raw (of_nat j)" if "ok" "b \<le> j \<and> j < cnt" for j
    proof (cases "j = b")
      case True
      then show ?thesis using l(3) d1 [of "pos + b"] by simp
    qed (use l(4) that in auto)
    ultimately show ?thesis using 3(4) by auto
  next
    case (4 w1 x)
    have "disk w1 ! i = disk w ! i" if "i \<noteq> pos + b" for i
      using 4(3) b(2) that by (auto simp del: of_nat_add)
    then show ?thesis
      using 4 b by (subst write_loop.simps) auto
  qed (use b in \<open>simp_all del: of_nat_add\<close>)
qed

text \<open>A device whose failing writes leave the disk alone, as one that loses power does.\<close>

definition write_atomic :: bool where
  "write_atomic \<longleftrightarrow> (\<forall>b bs w w'. dinv w \<longrightarrow> wb handle b bs w = Some (False, w') \<longrightarrow> disk w' = disk w)"

lemma write_out_blocks:
  assumes w: "dinv w" and pos: "1 \<le> e" "Suc e + k \<le> n"
    and h: "wf_header h" "payload_offset h = of_nat (Suc e)" "section_count h = of_nat k"
    and ph: "wf_partition ph" and a: "ex \<or> a = of_nat e"
  shows "\<exists>r w'. write_out wb handle ph h ex a raw w = Some (r, w') \<and> dinv w' \<and>
    (\<forall>i. 0 < i \<and> (i < e \<or> e + k < i) \<longrightarrow> disk w' ! i = disk w ! i) \<and>
    (r = Success \<longrightarrow> decode_partition (disk w' ! 0) = ph \<and>
       disk w' ! e = (if ex then disk w ! e else encode_header h) \<and>
       (\<forall>j < k. disk w' ! (Suc e + j) = data_block raw (of_nat j))) \<and>
    (write_atomic \<longrightarrow> r \<noteq> Success \<longrightarrow> disk w' ! 0 = disk w ! 0) \<and>
    (r = Success \<or> r = WriteFailed) \<and> (good w \<longrightarrow> r = Success \<and> good w')"
proof -
  have e: "unat (of_nat e :: u64) = e" "e < n" using pos by (simp_all add: unat_of_block)
  obtain ok1 w1 where 1: "(if ex then Some (True, w) else wb handle a (encode_header h) w)
        = Some (ok1, w1)" "dinv w1" "\<forall>i. i \<noteq> e \<longrightarrow> disk w1 ! i = disk w ! i"
      "ok1 \<longrightarrow> disk w1 ! e = (if ex then disk w ! e else encode_header h)"
      "good w \<longrightarrow> ok1 \<and> good w1"
  proof (cases ex)
    case True
    then show ?thesis using that [of True w] w by simp
  next
    case False
    then have a: "a = of_nat e" using a by simp
    show ?thesis
    proof (cases rule: write_cases [OF w, of "of_nat e" "encode_header h"])
      case (3 w1)
      then show ?thesis using that [of True w1] False a e disk_length [OF w] by simp
    next
      case (4 w1 x)
      then show ?thesis using that [of False w1] False a e by simp
    qed (use e h(1) in \<open>simp_all add: length_encode_header\<close>)
  qed
  show ?thesis
  proof (cases ok1)
    case False
    then have "write_out wb handle ph h ex a raw w = Some (WriteFailed, w1)"
      using 1(1) by (simp add: write_out_def)
    moreover have "disk w1 ! 0 = disk w ! 0" using 1(3) pos(1) by simp
    ultimately show ?thesis using 1(2,3,5) False by force
  next
    case True
    obtain ok2 w2 where 2: "write_loop wb handle (of_nat (Suc e)) (of_nat k) raw 0 w1 = Some (ok2, w2)"
        "dinv w2" "\<forall>i. i < Suc e \<or> Suc e + k \<le> i \<longrightarrow> disk w2 ! i = disk w1 ! i"
        "ok2 \<longrightarrow> (\<forall>j. j < k \<longrightarrow> disk w2 ! (Suc e + j) = data_block raw (of_nat j))"
        "good w1 \<longrightarrow> ok2 \<and> good w2"
      using write_loop_blocks [OF 1(2) pos(2), of 0 raw] by auto
    show ?thesis
    proof (cases ok2)
      case False
      then have "write_out wb handle ph h ex a raw w = Some (WriteFailed, w2)"
        using 1(1) 2(1) True by (simp add: write_out_def h del: of_nat_Suc)
      moreover have "disk w2 ! i = disk w ! i" if "0 < i \<and> (i < e \<or> e + k < i)" for i
        using that 1(3) 2(3) by auto
      moreover have "disk w2 ! 0 = disk w ! 0" using 1(3) 2(3) pos(1) by simp
      ultimately show ?thesis using 1(5) 2(2,5) False by force
    next
      case True2: True
      obtain ok3 w3 x where 3: "wb handle 0 (encode_partition ph) w2 = Some (ok3, w3)" "dinv w3"
          "disk w3 = (disk w2)[0 := x]" "ok3 \<longrightarrow> x = encode_partition ph"
          "good w2 \<longrightarrow> ok3 \<and> good w3"
        using write_law [OF 2(2), of 0 "encode_partition ph"] pos ph
        by (auto simp: length_encode_partition)
      have d3: "disk w3 ! i = (if i = 0 then x else disk w2 ! i)" for i
        using 3(3) disk_length [OF 2(2)] pos by (simp add: nth_list_update)
      have "write_out wb handle ph h ex a raw w
          = Some (if ok3 then Success else WriteFailed, w3)"
        using 1(1) 2(1) 3(1) True True2 by (simp add: write_out_def h del: of_nat_Suc)
      moreover have "disk w3 ! i = disk w ! i" if "0 < i \<and> (i < e \<or> e + k < i)" for i
        using that 1(3) 2(3) d3 [of i] by auto
      moreover have "disk w3 ! e = (if ex then disk w ! e else encode_header h)"
        using 1(4) True 2(3) d3 [of e] pos(1) by simp
      moreover have "disk w3 ! (Suc e + j) = data_block raw (of_nat j)" if "j < k" for j
        using 2(4) True2 that d3 [of "Suc e + j"] by simp
      moreover have "ok3 \<longrightarrow> decode_partition (disk w3 ! 0) = ph"
        using 3(4) d3 [of 0] ph by (simp add: decode_encode_partition)
      moreover have "write_atomic \<longrightarrow> \<not> ok3 \<longrightarrow> disk w3 ! 0 = disk w ! 0"
        using 1(3) 2(2,3) 3(1) pos(1) by (auto simp: write_atomic_def)
      ultimately show ?thesis using 1(5) 2(5) 3(2,5) by (cases ok3) auto
    qed
  qed
qed

lemma reserve_new:
  assumes "free_blocks_count ph \<le> total_blocks ph" and "unat (total_blocks ph) \<le> n"
    and "k \<le> 4503599627370496"
  shows "reserve_blocks ph h False (of_nat k) =
    (if unat (free_blocks_count ph) < 1 + k then Inl NoSpaceLeft
     else Inr (ph\<lparr>free_blocks_count := free_blocks_count ph - of_nat (1 + k)\<rparr>,
               h\<lparr>payload_offset := of_nat (Suc (unat (total_blocks ph - free_blocks_count ph)))\<rparr>))"
proof -
  let ?t = "total_blocks ph" and ?f = "free_blocks_count ph"
  have t: "unat (?t - ?f) = unat ?t - unat ?f" using unat_sub [OF assms(1)] .
  have k: "unat (1 + of_nat k :: u64) = 1 + k"
    using assms(3) by (simp add: unat_plus64 word_nat)
  moreover have "unat (?t - ?f + 1 + of_nat k) = unat ?t - unat ?f + 1 + k"
    using assms(2,3) n_bound t by (simp add: unat_plus64 word_nat)
  moreover have "unat ?f \<le> unat ?t" using assms(1) by (simp add: word_le_nat_alt)
  ultimately have "(?f < 1 + of_nat k \<or> ?t < ?t - ?f + 1 + of_nat k) = (unat ?f < 1 + k)"
    by (auto simp: word_less_nat_alt)
  then show ?thesis by (simp add: reserve_blocks_def Let_def)
qed

text \<open>The header that \<^verbatim>\<open>write_file\<close> stores describes the file it stores.\<close>

lemma written_file_at:
  assumes "disk_hdr = encode_header (finish_header h (of_nat (blocks_of (length c))) fin p)"
    and "wf_header h" and "payload_offset h = of_nat (Suc e)" and "path h = replicate 256 0"
    and "d ! e = disk_hdr" and "unat fin = length c" and "c \<noteq> []"
    and "length c + 4096 \<le> 18446744073709551616" and "length p = 2048" and "length (cstr p) < 255"
    and "\<forall>j < blocks_of (length c). d ! (Suc e + j) = data_block c (of_nat j)"
    and "Suc e + blocks_of (length c) \<le> length d"
  shows "file_at d e (cstr p) c"
proof -
  let ?h = "finish_header h (of_nat (blocks_of (length c))) fin p"
  have wf: "wf_header ?h"
    using assms(2,4,9) by (simp add: finish_header_def Let_def wf_header_def length_store_path)
  have dec: "decode_header (d ! e) = ?h" using assms(1,5) wf by (simp add: decode_encode_header)
  have sz: "header_total_size ?h = of_nat (length c)"
    using assms(6-8) by (intro finish_header_size) simp_all
  have "cstr (path ?h) = cstr p"
    using assms(4,9,10) cstr_store_path [of "replicate 256 0" p]
    by (simp add: finish_header_def Let_def)
  moreover have "is_file_header ?h"
    by (simp add: is_file_header_def finish_header_def Let_def flags_and_def)
  moreover have "section_count ?h = of_nat (blocks_of (length c))"
      "payload_offset ?h = of_nat (Suc e)"
    using assms(3) by (simp_all add: finish_header_def Let_def)
  moreover have "take (length c) (stream d (Suc e) (blocks_of (length c))) = c"
  proof (rule stream_data_blocks)
    show "blocks_of (length c) * 4096 < 18446744073709551616"
      using assms(7,8) blocks_of_simps(2) [of "length c"] by simp
    show "length c \<le> blocks_of (length c) * 4096" by (rule blocks_of_simps)
  qed (use assms(11,12) in auto)
  ultimately show ?thesis
    using assms(7,10) sz by (simp add: file_at_def Let_def dec)
qed

lemma layout_facts:
  assumes "fs_layout handle n d fs files"
  shows "is_mounted fs" "fs_device_handle fs = handle" "tree_inv (root_node fs)"
    "wf_partition (partition_header fs)" "ph_magic (partition_header fs) = ABTRFS_FS_MAGIC"
    "free_blocks_count (partition_header fs) \<le> total_blocks (partition_header fs)"
    "unat (total_blocks (partition_header fs)) \<le> n" "files_at d 1 files (used_blocks fs)"
    "distinct (map fst files)" "1 \<le> used_blocks fs"
    "used_blocks fs = unat (total_blocks (partition_header fs))
       - unat (free_blocks_count (partition_header fs))"
    "unat (free_blocks_count (partition_header fs)) \<le> unat (total_blocks (partition_header fs))"
  using assms files_at_le [of d 1 files]
  by (auto simp: fs_layout_def Let_def unat_sub word_le_nat_alt)

lemma write_found_new:
  assumes w: "dinv w" and lay: "fs_layout handle n (disk w) fs files"
    and p: "length p = 2048" "length (cstr p) < 255" "cstr p \<notin> fst ` set files"
    and len: "unat off + length content + 4096 \<le> 18446744073709551616"
  defines "c \<equiv> overlay [] (unat off) content"
  defines "full \<equiv> unat (free_blocks_count (partition_header fs)) < 1 + blocks_of (length c)"
  shows "\<exists>r fs' w'. write_found rb wb fs p content off None w = Some (r, fs', w') \<and> dinv w' \<and>
    files_at (disk w') 1 files (used_blocks fs) \<and>
    (if c = [] then r = InvalidParameters \<and> fs' = fs \<and> w' = w
     else if full then r = NoSpaceLeft \<and> fs' = fs \<and> w' = w
     else (r = Success \<or> r = WriteFailed) \<and> (good w \<longrightarrow> r = Success \<and> good w') \<and>
       (write_atomic \<longrightarrow> r \<noteq> Success \<longrightarrow> disk w' ! 0 = disk w ! 0) \<and>
       (r = Success \<longrightarrow> fs_layout handle n (disk w') fs' (files @ [(cstr p, c)])))"
proof -
  note l = layout_facts [OF lay]
  let ?ph = "partition_header fs" and ?k = "blocks_of (length c)" and ?e = "used_blocks fs"
  let ?fin = "off + of_nat (length content) :: u64"
  have c: "length c = unat off + length content" by (simp add: c_def length_overlay)
  have fin: "unat ?fin = length c" using len by (simp add: c unat_plus64 word_nat)
  show ?thesis
  proof (cases "c = []")
    case True
    then have "?fin = 0" using fin by (simp add: unat_eq_0)
    then show ?thesis
      using True w l(8) by (simp add: write_found_def Let_def)
  next
    case ne: False
    then have c0: "0 < length c" by simp
    have fin0: "?fin \<noteq> 0" using fin c0 by (metis less_numeral_extra(3) unat_0)
    have lenc: "length c + 4096 \<le> 18446744073709551616" using len c by simp
    note req = required_blocks_eq [OF fin c0 lenc]
    have old: "write_old_content rb fs p False ?fin w = Some (replicate (length c) 0, w)"
      by (simp add: write_old_content_def Let_def fin)
    have raw: "store_at64 (replicate (length c) 0) off content = Some c"
      unfolding c_def using lenc c by (intro overlay_store) (simp_all add: length_overlay)
    have kb: "?k \<le> 4503599627370496" using lenc by (intro blocks_of_le) simp
    have "default_AbtrFSDiskHeader = default_AbtrFSDiskHeader\<lparr>payload_offset := 0\<rparr>"
      by (simp add: default_AbtrFSDiskHeader_def)
    define h1 where "h1 = default_AbtrFSDiskHeader\<lparr>payload_offset := of_nat (Suc ?e)\<rparr>"
    define h2 where "h2 = finish_header h1 (of_nat ?k) ?fin p"
    define ph' where "ph' = ?ph\<lparr>free_blocks_count := free_blocks_count ?ph - of_nat (1 + ?k)\<rparr>"
    have res: "reserve_blocks ?ph default_AbtrFSDiskHeader False (of_nat ?k)
        = (if full then Inl NoSpaceLeft else Inr (ph', h1))"
      using reserve_new [OF l(6,7) kb] by (simp add: full_def ph'_def h1_def)
    have eval: "write_found rb wb fs p content off None w =
      (if full then Some (NoSpaceLeft, fs, w)
       else write_out wb handle ph' h2 False (of_nat ?e) c w \<bind>
              (\<lambda>(e, w2). Some (e, fs\<lparr>partition_header := ph'\<rparr>, w2)))"
      using fin0 req(1) old raw res l(2) by (simp add: write_found_def Let_def h2_def)
    show ?thesis
    proof (cases full)
      case True
      then show ?thesis using ne eval w l(8) by simp
    next
      case False
      have k: "?e + (1 + ?k) \<le> n" "1 + ?k \<le> unat (free_blocks_count ?ph)"
        using False l(7,11,12) by (auto simp: full_def)
      have wf: "wf_header h1" "path h1 = replicate 256 0" "payload_offset h1 = of_nat (Suc ?e)"
        using wf_default_headers(1) by (auto simp: h1_def wf_header_def default_AbtrFSDiskHeader_def)
      have h2: "wf_header h2" "payload_offset h2 = of_nat (Suc ?e)" "section_count h2 = of_nat ?k"
        using wf p(1) by (auto simp: h2_def finish_header_def Let_def wf_header_def length_store_path)
      have ph: "wf_partition ph'" using l(4) by (simp add: ph'_def wf_partition_def)
      obtain r w' where o: "write_out wb handle ph' h2 False (of_nat ?e) c w = Some (r, w')" "dinv w'"
          "\<forall>i. 0 < i \<and> (i < ?e \<or> ?e + ?k < i) \<longrightarrow> disk w' ! i = disk w ! i"
          "r = Success \<longrightarrow> decode_partition (disk w' ! 0) = ph' \<and> disk w' ! ?e = encode_header h2 \<and>
             (\<forall>j < ?k. disk w' ! (Suc ?e + j) = data_block c (of_nat j))"
          "r = Success \<or> r = WriteFailed" "good w \<longrightarrow> r = Success \<and> good w'"
          "write_atomic \<longrightarrow> r \<noteq> Success \<longrightarrow> disk w' ! 0 = disk w ! 0"
        using write_out_blocks [OF w l(10) _ h2 ph, of False "of_nat ?e" c] k(1) by auto
      have len': "length (disk w') = length (disk w)" using disk_length w o(2) by simp
      have old_files: "files_at (disk w') 1 files ?e"
        using o(3) by (intro files_at_cong [OF l(8) len']) auto
      have "fs_layout handle n (disk w') (fs\<lparr>partition_header := ph'\<rparr>) (files @ [(cstr p, c)])"
        if "r = Success"
      proof -
        have at: "file_at (disk w') ?e (cstr p) c"
          using o(4) that wf p(1,2) fin ne lenc k(1) disk_length [OF o(2)]
          by (intro written_file_at [of _ h1 c ?fin p]) (auto simp: h2_def)
        have f: "unat (free_blocks_count ph') = unat (free_blocks_count ?ph) - (1 + ?k)"
          using k(2) unat64_less [of "free_blocks_count ?ph"]
          by (simp only: ph'_def PARTITION_HEADER.simps) (simp add: unat_minus64 word_nat del: of_nat_Suc of_nat_add)
        have t: "total_blocks ph' = total_blocks ?ph" by (simp add: ph'_def)
        have le: "free_blocks_count ph' \<le> total_blocks ph'"
          using f t l(12) by (simp add: word_le_nat_alt)
        then have "unat (total_blocks ph' - free_blocks_count ph') = ?e + 1 + ?k"
          using unat_sub [OF le] f t l(11,12) k(2) by simp
        then have "files_at (disk w') 1 (files @ [(cstr p, c)])
            (unat (total_blocks ph' - free_blocks_count ph'))"
          using old_files at by (auto simp: files_at_append)
        then show ?thesis
          using lay le t l(7) ph p(3) o(4) that
          by (simp add: fs_layout_def Let_def ph'_def)
      qed
      then show ?thesis
        using ne False eval o old_files by auto
    qed
  qed
qed

text \<open>The old contents that \<^verbatim>\<open>write_file\<close> reads back on a device that works.\<close>

lemma write_old_content_good:
  assumes w: "dinv w" "good w" and lay: "fs_layout handle n (disk w) fs files" and p: "good_path p"
    and c: "map_of files (cstr p) = Some c" and fin: "length c \<le> unat fin"
  shows "\<exists>w'. write_old_content rb fs p True fin w
      = Some (c @ replicate (unat fin - length c) 0, w') \<and> dinv w' \<and> disk w' = disk w \<and> good w'"
proof -
  have "\<forall>d. None = Some d \<longrightarrow> dyn_inv d" by simp
  from read_file_reads [OF w(1) lay p this, of 0 0]
  obtain r arg' w' where r: "read_file rb fs p None 0 0 w = Some (r, arg', w')" "dinv w'"
      "disk w' = disk w" "good w \<longrightarrow> good w'"
      "\<forall>e. r = Inl e \<longrightarrow> map_of files (cstr p) = None \<or> \<not> good w"
      "\<forall>d. r = Inr d \<longrightarrow> (\<exists>c. map_of files (cstr p) = Some c \<and> dyn_abs d = file_slice 0 0 c)"
    by (elim exE conjE) (rule that, assumption+, auto split: sum.split_asm)
  then obtain d where d: "r = Inr d" "dyn_abs d = c"
    using w(2) c by (cases r) (auto simp: file_slice_def)
  have "store_at (replicate (unat fin) 0) 0 (take (unat fin) c)
      = Some (c @ replicate (unat fin - length c) 0)"
    using fin by (subst store_at_Some) auto
  then show ?thesis using r w(2) d by (simp add: write_old_content_def Let_def)
qed

lemma write_found_in_place:
  assumes w: "dinv w" "good w" and lay: "fs_layout handle n (disk w) fs files" and p: "good_path p"
    and i: "locate files 1 (cstr p) = Some i" and c: "map_of files (cstr p) = Some c"
    and len: "unat off + length content \<le> blocks_of (length c) * 4096"
  defines "c' \<equiv> take (length c) (overlay c (unat off) content)"
  shows "\<exists>w' files'. write_found rb wb fs p content off (Some (decode_header (disk w ! i))) w
      = Some (Success, fs, w') \<and> dinv w' \<and> good w' \<and> fs_layout handle n (disk w') fs files' \<and>
      map_of files' = (map_of files)(cstr p \<mapsto> c')"
proof -
  note l = layout_facts [OF lay]
  let ?h = "decode_header (disk w ! i)" and ?k = "blocks_of (length c)"
  let ?raw = "overlay c (unat off) content"
  obtain fs1 c0 fs2 where sp: "files = fs1 @ (cstr p, c0) # fs2" "cstr p \<notin> fst ` set fs1"
    "files_at (disk w) 1 fs1 i" "file_at (disk w) i (cstr p) c0"
    "files_at (disk w) (i + 1 + blocks_of (length c0)) fs2 (used_blocks fs)"
    by (rule locate_split [OF l(8) i])
  have "map_of fs1 (cstr p) = None" using sp(2) by (simp add: map_of_eq_None_iff)
  then have c0: "c0 = c" using c sp(1) by (simp add: map_add_def)
  have bnd: "1 \<le> i" "Suc i + ?k \<le> used_blocks fs" "used_blocks fs \<le> n"
    using files_at_le [OF sp(3)] files_at_le [OF sp(5)] l(7,11) c0 by auto
  have h: "section_count ?h = of_nat ?k" "header_total_size ?h = of_nat (length c)"
    "payload_offset ?h = of_nat (Suc i)" "c \<noteq> []"
    using sp(4) by (auto simp: file_at_def Let_def c0)
  have kb: "?k * 4096 + 4096 \<le> 18446744073709551616" using bnd n_bound by linarith
  have m: "length ?raw \<le> ?k * 4096" "length c \<le> length ?raw"
    using len blocks_of_simps(1) [of "length c"] by (simp_all add: length_overlay)
  define fin where "fin = max (off + of_nat (length content)) (of_nat (length c) :: u64)"
  have fin: "unat fin = length ?raw"
  proof -
    have "unat (off + of_nat (length content)) = unat off + length content"
      using len kb by (simp add: unat_plus64 word_nat)
    moreover have "unat (of_nat (length c) :: u64) = length c"
      using m kb by (simp add: word_nat)
    ultimately show ?thesis
      by (auto simp: fin_def length_overlay max_def word_le_nat_alt)
  qed
  have raw0: "0 < length ?raw" "length ?raw + 4096 \<le> 18446744073709551616"
    using m h(4) kb by auto
  have kr: "blocks_of (length ?raw) = ?k"
    using blocks_of_le [OF m(1)] blocks_of_mono [OF m(2)] by simp
  have req: "(fin + ABTRFS_HEADER_BLOCK_SIZE - 1) div ABTRFS_HEADER_BLOCK_SIZE = of_nat ?k"
    using required_blocks_eq(1) [OF fin raw0] by (simp add: kr)
  have le: "length c \<le> unat fin" using fin m by simp
  obtain w1 where old: "write_old_content rb fs p True fin w
      = Some (c @ replicate (length ?raw - length c) 0, w1)" "dinv w1" "disk w1 = disk w" "good w1"
    using write_old_content_good [OF w lay p c le] unfolding fin by blast
  have st: "store_at64 (c @ replicate (length ?raw - length c) 0) off content = Some ?raw"
    using m raw0 by (intro overlay_store) (auto simp: length_overlay max_def)
  have res: "reserve_blocks (partition_header fs) ?h True (of_nat ?k) = Inr (partition_header fs, ?h)"
    by (simp add: reserve_blocks_def Let_def h)
  define h2 where "h2 = finish_header ?h (of_nat ?k) fin p"
  have "wf_header ?h" using wf_decode_header [OF block_length [OF w(1), of i]] bnd by simp
  then have h2: "wf_header h2" "payload_offset h2 = of_nat (Suc i)" "section_count h2 = of_nat ?k"
    using p by (auto simp: h2_def finish_header_def Let_def wf_header_def length_store_path
        good_path_def h)
  have fin0: "fin \<noteq> 0" using fin raw0 by (metis less_numeral_extra(3) unat_0)
  let ?a = "total_blocks (partition_header fs) - free_blocks_count (partition_header fs)"
  have eval: "write_found rb wb fs p content off (Some ?h) w =
      write_out wb handle (partition_header fs) h2 True ?a ?raw w1 \<bind>
        (\<lambda>(e, w2). Some (e, fs, w2))"
    using fin0 req old(1) st res l(2)
    by (simp add: write_found_def Let_def h2_def h fin_def [symmetric])
  have bnd': "Suc i + ?k \<le> n" using bnd by simp
  obtain w' where o: "write_out wb handle (partition_header fs) h2 True ?a ?raw w1
        = Some (Success, w')" "dinv w'" "good w'"
      "\<forall>j. 0 < j \<and> (j < i \<or> i + ?k < j) \<longrightarrow> disk w' ! j = disk w ! j"
      "decode_partition (disk w' ! 0) = partition_header fs" "disk w' ! i = disk w ! i"
      "\<forall>j < ?k. disk w' ! (Suc i + j) = data_block ?raw (of_nat j)"
    using write_out_blocks [OF old(2) bnd(1) bnd' h2 l(4), of True ?a ?raw] old(3,4) by auto
  have len': "length (disk w') = length (disk w)" using disk_length w(1) o(2) by simp
  have cl: "length c' = length c" using m by (simp add: c'_def)
  have "take (length ?raw) (stream (disk w') (Suc i) ?k) = ?raw"
    using o(7) bnd' disk_length [OF o(2)] kb m by (intro stream_data_blocks) auto
  then have "take (length c) (take (length ?raw) (stream (disk w') (Suc i) ?k)) = c'"
    unfolding c'_def by (rule arg_cong)
  then have st': "take (length c) (stream (disk w') (Suc i) ?k) = c'"
    using m by (simp only: take_take min.absorb1)
  have at: "file_at (disk w') i (cstr p) c'"
    using sp(4) h(4) cl st' by (simp add: file_at_def Let_def o(6) c0) auto
  have f1: "files_at (disk w') 1 fs1 i"
    using o(4) by (intro files_at_cong [OF sp(3) len']) auto
  have f2: "files_at (disk w') (i + 1 + ?k) fs2 (used_blocks fs)"
    using o(4) sp(5) c0 by (intro files_at_cong [OF _ len', of _ fs2]) auto
  have "files_at (disk w') 1 (fs1 @ (cstr p, c') # fs2) (used_blocks fs)"
    using f1 f2 at cl by (auto simp: files_at_append)
  then have "fs_layout handle n (disk w') fs (fs1 @ (cstr p, c') # fs2)"
    using lay o(5) sp(1) by (simp add: fs_layout_def Let_def)
  moreover have "map_of (fs1 @ (cstr p, c') # fs2) = (map_of files)(cstr p \<mapsto> c')"
    using sp(2) by (simp add: sp(1) c0 map_add_upd_left dom_map_of_conv_image_fst)
  ultimately show ?thesis using eval o(1-3) by auto
qed

lemma write_file_prefix:
  assumes "is_mounted fs" and "good_path p" and "tree_inv (root_node fs)"
  obtains root' where "tree_inv root'"
    "write_file rb wb fs p content off w =
       fs_find rb (fs\<lparr>root_node := root'\<rparr>) p w \<bind> (\<lambda>(found, w1).
         write_found rb wb (fs\<lparr>root_node := root'\<rparr>) p content off found w1)"
proof -
  obtain segs where segs: "chopPath p = Some (Inr segs)" "strs_inv segs" "segs \<noteq> []"
    by (rule chopPath_good [OF assms(2)])
  obtain root' nd where "find_or_create_node (root_node fs) segs 0 = Some (root', nd)" "tree_inv root'"
    using find_or_create_node_correct [OF segs(2) assms(3), of 0] by blast
  then show ?thesis using that [of root'] assms(1) segs by (simp add: write_file_def Let_def)
qed

lemma write_file_refines:
  assumes w: "dinv w" "good w" and lay: "fs_layout handle n (disk w) fs files"
    and p: "good_path p" "length (cstr p) < 255"
    and fits: "write_fits (map_of files (cstr p)) (unat off) (length content)"
  shows "\<exists>r fs' w' files'. write_file rb wb fs p content off w = Some (r, fs', w') \<and>
    dinv w' \<and> good w' \<and> fs_layout handle n (disk w') fs' files' \<and>
    (if r = Success
     then map_of files' = (map_of files)
       (cstr p \<mapsto> written (map_of files (cstr p)) (unat off) content)
     else files' = files \<and> map_of files (cstr p) = None \<and>
       (r = InvalidParameters \<and> unat off + length content = 0 \<or>
        r = NoSpaceLeft \<and> 0 < unat off + length content \<and>
          unat (free_blocks_count (partition_header fs))
          < 1 + blocks_of (unat off + length content)))"
proof -
  note l = layout_facts [OF lay]
  obtain root' where root': "tree_inv root'" "write_file rb wb fs p content off w =
       fs_find rb (fs\<lparr>root_node := root'\<rparr>) p w \<bind> (\<lambda>(found, w1).
         write_found rb wb (fs\<lparr>root_node := root'\<rparr>) p content off found w1)"
    by (rule write_file_prefix [OF l(1) p(1) l(3)])
  define fs1 where "fs1 = fs\<lparr>root_node := root'\<rparr>"
  have lay1: "fs_layout handle n (disk w) fs1 files"
    using lay root'(1) by (simp add: fs_layout_def fs1_def Let_def)
  have free: "free_blocks_count (partition_header fs1) = free_blocks_count (partition_header fs)"
    by (simp add: fs1_def)
  have lp: "length p = 2048" using p(1) by (simp add: good_path_def)
  obtain w1 where w1: "fs_find rb fs1 p w = Some (map_option (\<lambda>i. decode_header (disk w ! i))
        (locate files 1 (cstr p)), w1)" "dinv w1" "good w1" "disk w1 = disk w"
    using fs_find_files [OF w(1) lay1 lp] w(2) by metis
  have lay2: "fs_layout handle n (disk w1) fs1 files" using lay1 w1(4) by simp
  show ?thesis
  proof (cases "locate files 1 (cstr p)")
    case None
    then have new: "cstr p \<notin> fst ` set files" by (simp add: locate_None_iff)
    then have m: "map_of files (cstr p) = None" by (simp add: map_of_eq_None_iff)
    let ?c = "overlay [] (unat off) content"
    have len: "length ?c = unat off + length content" by (simp add: length_overlay)
    have "unat off + length content + 4096 \<le> 18446744073709551616"
      using fits m by (simp add: write_fits_def)
    from write_found_new [OF w1(2) lay2 lp p(2) new this]
    obtain r fs' w' where r: "write_found rb wb fs1 p content off None w1 = Some (r, fs', w')"
      "dinv w'"
      "if ?c = [] then r = InvalidParameters \<and> fs' = fs1 \<and> w' = w1
       else if unat (free_blocks_count (partition_header fs)) < 1 + blocks_of (length ?c)
       then r = NoSpaceLeft \<and> fs' = fs1 \<and> w' = w1
       else r = Success \<and> good w' \<and> fs_layout handle n (disk w') fs' (files @ [(cstr p, ?c)])"
      using w1(3) unfolding free by (auto split: if_splits)
    have "write_file rb wb fs p content off w = Some (r, fs', w')"
      using root'(2) w1(1) r(1) None by (simp add: fs1_def)
    moreover have "map_of (files @ [(cstr p, ?c)])
        = (map_of files)(cstr p \<mapsto> written (map_of files (cstr p)) (unat off) content)"
      using m by (auto simp: written_def map_add_def fun_eq_iff split: option.splits)
    ultimately show ?thesis
      using r(2,3) w1(3) lay2 m len by (cases "?c = []") (auto split: if_splits)
  next
    case (Some i)
    obtain c where c: "map_of files (cstr p) = Some c" using file_facts [OF w(1) lay Some] by blast
    have "unat off + length content \<le> blocks_of (length c) * 4096"
      using fits c by (simp add: write_fits_def)
    from write_found_in_place [OF w1(2,3) lay2 p(1) Some c this]
    show ?thesis
      using root'(2) w1(1,4) Some c by (auto simp: fs1_def written_def)
  qed
qed

lemma create_outcome:
  assumes w: "dinv w" and lay: "fs_layout handle n (disk w) fs files"
    and p: "good_path p" "length (cstr p) < 255" "map_of files (cstr p) = None"
    and len: "unat off + length content + 4096 \<le> 18446744073709551616"
  obtains r fs' w' where "write_file rb wb fs p content off w = Some (r, fs', w')" "dinv w'"
    "files_at (disk w') 1 files (used_blocks fs)"
    "r = Success \<longrightarrow> fs_layout handle n (disk w') fs' (files @ [(cstr p, overlay [] (unat off) content)])"
    "write_atomic \<longrightarrow> r \<noteq> Success \<longrightarrow> fs_layout handle n (disk w') fs files"
proof -
  note l = layout_facts [OF lay]
  obtain root' where root': "tree_inv root'" "write_file rb wb fs p content off w =
       fs_find rb (fs\<lparr>root_node := root'\<rparr>) p w \<bind> (\<lambda>(found, w1).
         write_found rb wb (fs\<lparr>root_node := root'\<rparr>) p content off found w1)"
    by (rule write_file_prefix [OF l(1) p(1) l(3)])
  define fs1 where "fs1 = fs\<lparr>root_node := root'\<rparr>"
  have lay1: "fs_layout handle n (disk w) fs1 files"
    using lay root'(1) by (simp add: fs_layout_def fs1_def Let_def)
  have lp: "length p = 2048" using p(1) by (simp add: good_path_def)
  have new: "cstr p \<notin> fst ` set files" using p(3) by (simp add: map_of_eq_None_iff)
  then have "locate files 1 (cstr p) = None" by (simp add: locate_None_iff)
  then obtain w1 where w1: "fs_find rb fs1 p w = Some (None, w1)" "dinv w1" "disk w1 = disk w"
    using fs_find_files [OF w lay1 lp] by auto
  have lay2: "fs_layout handle n (disk w1) fs1 files" using lay1 w1(3) by simp
  obtain r fs' w' where r: "write_found rb wb fs1 p content off None w1 = Some (r, fs', w')" "dinv w'"
    "files_at (disk w') 1 files (used_blocks fs1)"
    "r = Success \<longrightarrow> fs_layout handle n (disk w') fs' (files @ [(cstr p, overlay [] (unat off) content)])"
    "write_atomic \<longrightarrow> r \<noteq> Success \<longrightarrow> disk w' ! 0 = disk w1 ! 0"
    using write_found_new [OF w1(2) lay2 lp p(2) new len] by (auto split: if_split_asm)
  have "files_at (disk w') 1 files (used_blocks fs)" using r(3) by (simp add: fs1_def)
  moreover from this have "write_atomic \<longrightarrow> r \<noteq> Success \<longrightarrow> fs_layout handle n (disk w') fs files"
    using r(5) w1(3) lay by (simp add: fs_layout_def Let_def)
  moreover have "write_file rb wb fs p content off w = Some (r, fs', w')"
    using root'(2) w1(1) r(1) by (simp add: fs1_def)
  ultimately show ?thesis using that r(2,4) by blast
qed

text \<open>Formatting makes an empty file system, mounting finds the files again.\<close>

lemma format_empty:
  assumes w: "dinv w" and n: "204800 \<le> n" and root: "tree_inv (root_node fs)"
  shows "\<exists>ok fs' w'. format wb base_addr hhdm handle fs w = Some (ok, fs', w') \<and> dinv w' \<and>
    (good w \<longrightarrow> ok \<and> good w') \<and> (ok \<longrightarrow> fs_layout handle n (disk w') fs' [])"
proof -
  have wf: "wf_partition format_header"
    using wf_default_headers(2) by (simp add: format_header_def wf_partition_def Let_def)
  obtain ok w' x where r: "wb handle 0 (encode_partition format_header) w = Some (ok, w')" "dinv w'"
      "disk w' = (disk w)[0 := x]" "ok \<longrightarrow> x = encode_partition format_header"
      "good w \<longrightarrow> ok \<and> good w'"
    using write_law [OF w, of 0 "encode_partition format_header"] n wf
    by (auto simp: length_encode_partition)
  have "0 < length (disk w)" using disk_length [OF w] n by simp
  then have "ok \<longrightarrow> decode_partition (disk w' ! 0) = format_header"
    using r(3,4) wf by (simp add: decode_encode_partition)
  then have "ok \<longrightarrow> fs_layout handle n (disk w') (fs_at base_addr hhdm handle fs
      \<lparr>partition_header := format_header, is_mounted := True\<rparr>) []"
    using wf root n by (simp add: fs_layout_def Let_def fs_at_def format_header_def word_le_nat_alt)
  then show ?thesis using r by (auto simp: format_def Let_def)
qed

lemma mount_finds_files:
  assumes w: "dinv w" and lay: "fs_layout handle n (disk w) fs0 files" and root: "tree_inv (root_node fs)"
  shows "\<exists>ok fs' w'. mount rb base_addr hhdm handle fs w = Some (ok, fs', w') \<and> dinv w' \<and>
    disk w' = disk w \<and> (good w \<longrightarrow> ok \<and> good w') \<and> is_mounted fs' = ok \<and>
    (ok \<longrightarrow> fs_layout handle n (disk w') fs' files)"
proof -
  note l = layout_facts [OF lay]
  have "0 < n" using l(7,10,11) by linarith
  then obtain r w' where r: "rb handle 0 w = Some (r, w')" "dinv w'" "disk w' = disk w"
      "r = None \<or> r = Some (disk w ! 0)" "good w \<longrightarrow> r \<noteq> None \<and> good w'"
    using read_law [OF w, of 0] by auto
  have d: "decode_partition (disk w ! 0) = partition_header fs0"
    using lay by (simp add: fs_layout_def Let_def)
  show ?thesis
  proof (cases r)
    case None
    then show ?thesis using r by (auto simp: mount_def Let_def)
  next
    case (Some bs)
    then have "bs = disk w ! 0" using r(4) by simp
    then show ?thesis
      using Some r lay l(5) d root
      by (auto simp: mount_def Let_def fs_layout_def fs_at_def)
  qed
qed

lemma exists_agrees:
  assumes w: "dinv w" and lay: "fs_layout handle n (disk w) fs files" and p: "good_path p"
  shows "\<exists>r w'. exists rb fs p w = Some (r, w') \<and> dinv w' \<and> disk w' = disk w \<and>
    (r = Success \<longrightarrow> cstr p \<in> fst ` set files) \<and> (r = Success \<or> r = FileNotFound) \<and>
    (good w \<longrightarrow> good w' \<and> r = (if cstr p \<in> fst ` set files then Success else FileNotFound))"
proof -
  obtain segs where segs: "chopPath p = Some (Inr segs)" "segs \<noteq> []"
    by (rule chopPath_good [OF p])
  have lp: "length p = 2048" using p by (simp add: good_path_def)
  obtain r w1 where f: "fs_find rb fs p w = Some (r, w1)" "dinv w1" "disk w1 = disk w"
    "r = None \<or> r = map_option (\<lambda>i. decode_header (disk w ! i)) (locate files 1 (cstr p))"
    "good w \<longrightarrow> good w1 \<and>
      r = map_option (\<lambda>i. decode_header (disk w ! i)) (locate files 1 (cstr p))"
    using fs_find_files [OF w lay lp] by blast
  have "exists rb fs p w = Some (if r = None then FileNotFound else Success, w1)"
    using layout_facts(1) [OF lay] segs f(1) by (simp add: exists_def)
  moreover have "r \<noteq> None \<longrightarrow> locate files 1 (cstr p) \<noteq> None"
    using f(4) by (cases "locate files 1 (cstr p)") auto
  moreover have "good w \<longrightarrow> (r = None) = (locate files 1 (cstr p) = None)"
    using f(5) by (cases "locate files 1 (cstr p)") auto
  ultimately show ?thesis using f(2,3,5) unfolding locate_None_iff by auto
qed

end

section \<open>A reference device\<close>

text \<open>A disk in memory with a schedule of faults: each operation takes one entry, \<open>True\<close> makes it
  fail; no operation fails once the schedule is used up.\<close>

record ref_disk =
  ref_blocks :: "bytes list"
  ref_faults :: "bool list"

definition ref_read :: "ref_disk block_read" where
  "ref_read h b d =
     (let d' = d\<lparr>ref_faults := tl (ref_faults d)\<rparr>;
          f = (ref_faults d \<noteq> [] \<and> hd (ref_faults d)) \<or> length (ref_blocks d) \<le> unat b
      in Some (if f then None else Some (ref_blocks d ! unat b), d'))"

definition ref_write :: "ref_disk block_write" where
  "ref_write h b bs d =
     (let d' = d\<lparr>ref_faults := tl (ref_faults d)\<rparr>;
          f = (ref_faults d \<noteq> [] \<and> hd (ref_faults d)) \<or> length (ref_blocks d) \<le> unat b
      in Some (if f then (False, d')
               else (True, d'\<lparr>ref_blocks := (ref_blocks d)[unat b := bs]\<rparr>)))"

definition ref_good :: "ref_disk \<Rightarrow> bool" where "ref_good d \<longleftrightarrow> True \<notin> set (ref_faults d)"

definition ref_inv :: "ref_disk \<Rightarrow> bool" where "ref_inv d \<longleftrightarrow> wf_disk 204800 (ref_blocks d)"

lemma tl_good: "True \<notin> set xs \<Longrightarrow> True \<notin> set (tl xs)"
  by (cases xs) auto

interpretation ref: block_device ref_read ref_write h 204800 ref_blocks ref_inv ref_good for h
proof unfold_locales
  fix w :: ref_disk and b :: u64 and bs :: bytes
  assume w: "ref_inv w" "unat b < 204800"
  define fault where
    "fault \<longleftrightarrow> (ref_faults w \<noteq> [] \<and> hd (ref_faults w)) \<or> length (ref_blocks w) \<le> unat b"
  have b: "unat b < length (ref_blocks w)" using w by (simp add: ref_inv_def wf_disk_def)
  have good: "ref_good w \<longrightarrow> \<not> fault \<and> True \<notin> set (tl (ref_faults w))"
    using b by (cases "ref_faults w") (auto simp: ref_good_def fault_def)
  have "ref_read h b w = Some (if fault then None else Some (ref_blocks w ! unat b),
      w\<lparr>ref_faults := tl (ref_faults w)\<rparr>)"
    by (simp add: ref_read_def Let_def fault_def)
  then show "\<exists>r w'. ref_read h b w = Some (r, w') \<and> ref_inv w' \<and> ref_blocks w' = ref_blocks w \<and>
      (r = None \<or> r = Some (ref_blocks w ! unat b)) \<and> (ref_good w \<longrightarrow> r \<noteq> None \<and> ref_good w')"
    using w(1) good by (simp add: ref_inv_def ref_good_def)
  assume bs: "length bs = 4096"
  have upd: "wf_disk 204800 ((ref_blocks w)[unat b := bs])"
    using w(1) bs set_update_subset_insert [of "ref_blocks w" "unat b" bs]
    unfolding ref_inv_def wf_disk_def by (simp only: length_list_update) blast
  show "\<exists>ok w' x. ref_write h b bs w = Some (ok, w') \<and> ref_inv w' \<and>
      ref_blocks w' = (ref_blocks w)[unat b := x] \<and> (ok \<longrightarrow> x = bs) \<and>
      (ref_good w \<longrightarrow> ok \<and> ref_good w')"
  proof (cases fault)
    case True
    then have "ref_write h b bs w = Some (False, w\<lparr>ref_faults := tl (ref_faults w)\<rparr>)"
      by (simp add: ref_write_def Let_def fault_def)
    then show ?thesis
      using w(1) good True
      by (intro exI [of _ False] exI [of _ "w\<lparr>ref_faults := tl (ref_faults w)\<rparr>"]
          exI [of _ "ref_blocks w ! unat b"]) (simp add: ref_inv_def ref_good_def)
  next
    case False
    then have "ref_write h b bs w = Some (True,
        w\<lparr>ref_faults := tl (ref_faults w), ref_blocks := (ref_blocks w)[unat b := bs]\<rparr>)"
      by (simp add: ref_write_def Let_def fault_def)
    then show ?thesis using upd good by (simp add: ref_inv_def ref_good_def) blast
  qed
qed (simp_all add: ref_inv_def)

definition blank_disk :: ref_disk where
  "blank_disk = \<lparr>ref_blocks = replicate 204800 (replicate 4096 0), ref_faults = []\<rparr>"

lemma blank_disk_facts: "ref_inv blank_disk" "ref_good blank_disk"
  by (simp_all add: ref_inv_def ref_good_def blank_disk_def wf_disk_def)

lemma tree_inv_init: "tree_inv (root_node AbtrFS_init)"
  by (simp add: AbtrFS_init_def)

lemma formatted_ref:
  obtains fs w where "format ref_write 0 0 0 AbtrFS_init blank_disk = Some (True, fs, w)"
    "ref_inv w" "ref_good w" "fs_layout 0 204800 (ref_blocks w) fs []"
    "free_blocks_count (partition_header fs) = 204799"
proof -
  obtain ok fs w where r: "format ref_write 0 0 0 AbtrFS_init blank_disk = Some (ok, fs, w)" "ref_inv w"
      "ok \<and> ref_good w" "fs_layout 0 204800 (ref_blocks w) fs []"
    using ref.format_empty [OF blank_disk_facts(1) _ tree_inv_init, of 0 0 0] blank_disk_facts(2)
    by auto
  moreover have "partition_header fs = format_header"
    using r(1,3) by (auto simp: format_def Let_def bind_eq_Some_conv split: if_splits)
  ultimately show ?thesis using that by (simp add: format_header_def Let_def)
qed

end
