(* ===== verification/AbtrfsProps.thy ===== *)
theory AbtrfsProps
  imports AbtrfsSpec
begin

text \<open>
  The properties of AbtrFS over any block device that keeps the laws of \<open>block_device\<close>, with
  the file system's contents as a map from paths to bytes. The witnesses run on the reference
  disk of \<open>AbtrfsSpec\<close>.
\<close>

section \<open>Paths for the witnesses\<close>

definition path_of :: "bytes \<Rightarrow> bytes" where
  "path_of s = s @ replicate (2048 - length s) 0"

lemma path_of_facts:
  assumes "0 \<notin> set s" and "length s < 255" and "\<not> set s \<subseteq> {of_char CHR ''/''}"
  shows "good_path (path_of s)" "cstr (path_of s) = s" "length (cstr (path_of s)) < 255"
proof -
  have "path_of s = s @ 0 # replicate (2047 - length s) 0"
    using assms(2) by (simp add: path_of_def flip: replicate_Suc)
  then show c: "cstr (path_of s) = s" using cstr_terminated [OF assms(1)] by simp
  then show "length (cstr (path_of s)) < 255" using assms(2) by simp
  show "good_path (path_of s)"
    using c assms(2,3) by (auto simp: good_path_def path_of_def segments_of_Nil_iff)
qed

lemma path_47_65: "good_path (path_of [47, 65])" "cstr (path_of [47, 65]) = [47, 65]"
    "length (cstr (path_of [47, 65])) < 255"
  using path_of_facts [of "[47, 65]"] by simp_all

section \<open>Properties\<close>

text \<open>C5: on a device that works, \<^verbatim>\<open>write_file\<close> to a path of at most 254 characters, of a new file or
  inside the blocks an old file has, is an update of the map from paths to contents.
  From a laid out file system it always returns and leaves a laid out file system; success means
  that exactly the named path changed, to the written bytes (after zeros up to the offset for a
  new file, inside its old size for an old one); the only failures are an empty new file and a
  new file that does not fit, and they change nothing. Writes that need more blocks than an old file has are outside
  this claim: they go over the next file.\<close>

theorem write_file_updates_map:
  assumes "block_device rb wb handle n disk dinv good"
    and "dinv w" and "good w" and "fs_layout handle n (disk w) fs files"
    and "good_path p" and "length (cstr p) < 255"
    and "write_fits (map_of files (cstr p)) (unat off) (length content)"
  shows "\<exists>r fs' w' files'. write_file rb wb fs p content off w = Some (r, fs', w') \<and>
    dinv w' \<and> good w' \<and> fs_layout handle n (disk w') fs' files' \<and>
    (if r = Success
     then map_of files' = (map_of files)
       (cstr p \<mapsto> written (map_of files (cstr p)) (unat off) content)
     else files' = files \<and> map_of files (cstr p) = None \<and>
       (r = InvalidParameters \<and> unat off + length content = 0 \<or>
        r = NoSpaceLeft \<and> 0 < unat off + length content \<and>
          unat (free_blocks_count (partition_header fs))
          < 1 + blocks_of (unat off + length content)))"
  by (rule block_device.write_file_refines [OF assms])

theorem write_file_updates_map_witness:
  "\<exists>fs w fs' w' files'. format ref_write 0 0 0 AbtrFS_init blank_disk = Some (True, fs, w) \<and>
     write_file ref_read ref_write fs (path_of [47, 65]) [1, 2, 3] 0 w = Some (Success, fs', w') \<and>
     fs_layout 0 204800 (ref_blocks w') fs' files' \<and> map_of files' = [[47, 65] \<mapsto> [1, 2, 3]]"
proof -
  obtain fs w where f: "format ref_write 0 0 0 AbtrFS_init blank_disk = Some (True, fs, w)"
    "ref_inv w" "ref_good w" "fs_layout 0 204800 (ref_blocks w) fs []"
    "free_blocks_count (partition_header fs) = 204799"
    by (rule formatted_ref)
  have "write_fits (map_of [] (cstr (path_of [47, 65]))) (unat 0) (length [1 :: u8, 2, 3])"
    by (simp add: write_fits_def)
  from write_file_updates_map [OF ref.block_device_axioms f(2-4) path_47_65(1,3) this]
  obtain r fs' w' files' where r:
    "write_file ref_read ref_write fs (path_of [47, 65]) [1, 2, 3] 0 w = Some (r, fs', w')"
    "fs_layout 0 204800 (ref_blocks w') fs' files'"
    "if r = Success then map_of files' = [[47, 65] \<mapsto> [1, 2, 3]] else r = NoSpaceLeft \<and>
       unat (free_blocks_count (partition_header fs)) < 1 + blocks_of (Suc (Suc (Suc 0)))"
    by (auto simp: path_47_65(2) written_def overlay_Nil split: if_splits)
  then have "r = Success" using f(5) by (auto simp: blocks_of_def split: if_splits)
  then show ?thesis using f(1) r by auto
qed

text \<open>C6: \<^verbatim>\<open>read_file\<close> never returns wrong bytes. On any device, failing or not, it returns
  without touching the disk, and what it returns is the wanted part of the named file, in the
  result and in the caller's array; on a device that works it fails exactly when there is no such
  file.\<close>

theorem read_file_sound_complete:
  assumes "block_device rb wb handle n disk dinv good"
    and "dinv w" and "fs_layout handle n (disk w) fs files" and "good_path p"
    and "\<forall>d. arg = Some d \<longrightarrow> dyn_inv d"
  shows "\<exists>r arg' w'. read_file rb fs p arg off mx w = Some (r, arg', w') \<and> dinv w' \<and>
    disk w' = disk w \<and>
    (case r of Inl e \<Rightarrow> e = FileNotFound \<and> (map_of files (cstr p) = None \<or> \<not> good w) \<or>
                        e = IOError \<and> \<not> good w
     | Inr d \<Rightarrow> \<exists>c. map_of files (cstr p) = Some c \<and> dyn_inv d \<and> dyn_abs d = file_slice off mx c \<and>
         (\<forall>a. arg = Some a \<longrightarrow> (\<exists>a'. arg' = Some a' \<and> dyn_inv a' \<and> dyn_abs a' = dyn_abs d))) \<and>
    (good w \<longrightarrow> good w')"
  by (rule block_device.read_file_reads [OF assms])

theorem read_file_sound_complete_witness:
  "\<exists>fs w a w'. format ref_write 0 0 0 AbtrFS_init blank_disk = Some (True, fs, w) \<and>
     read_file ref_read fs (path_of [47, 65]) None 0 0 w = Some (Inl FileNotFound, a, w')"
proof -
  obtain fs w where f: "format ref_write 0 0 0 AbtrFS_init blank_disk = Some (True, fs, w)"
    "ref_inv w" "ref_good w" "fs_layout 0 204800 (ref_blocks w) fs []"
    by (rule formatted_ref)
  have "\<forall>d. None = Some d \<longrightarrow> dyn_inv d" by simp
  from read_file_sound_complete [OF ref.block_device_axioms f(2,4) path_47_65(1) this, of 0 0]
  obtain r arg' w' where r: "read_file ref_read fs (path_of [47, 65]) None 0 0 w
      = Some (r, arg', w')" "r = Inl FileNotFound"
    using f(3) by (elim exE conjE) (rule that, assumption, auto split: sum.split_asm)
  then show ?thesis using f(1) by auto
qed

lemma read_whole:
  assumes dev: "block_device rb wb handle n disk dinv good"
    and w: "dinv w" "good w" and lay: "fs_layout handle n (disk w) fs files" and p: "good_path p"
    and c: "map_of files (cstr p) = Some c"
  obtains d arg' w' where "read_file rb fs p None 0 0 w = Some (Inr d, arg', w')" "dyn_abs d = c"
proof -
  have "\<forall>d. None = Some d \<longrightarrow> dyn_inv d" by simp
  from block_device.read_file_reads [OF dev w(1) lay p this, of 0 0]
  obtain r arg' w' where r: "read_file rb fs p None 0 0 w = Some (r, arg', w')"
      "\<forall>e. r = Inl e \<longrightarrow> map_of files (cstr p) = None \<or> \<not> good w"
      "\<forall>d. r = Inr d \<longrightarrow> (\<exists>c. map_of files (cstr p) = Some c \<and> dyn_abs d = file_slice 0 0 c)"
    by (elim exE conjE) (rule that, assumption+, auto split: sum.split_asm)
  then show ?thesis using that w(2) c by (cases r) (auto simp: file_slice_def)
qed

text \<open>What was written is read back. On a device that works, after \<^verbatim>\<open>write_file\<close> created
  a file with some data, \<^verbatim>\<open>read_file\<close> of that path returns the data (behind zeros up to the
  offset), and \<^verbatim>\<open>read_file\<close> of every other file returns what it held before.\<close>

theorem write_then_read:
  assumes dev: "block_device rb wb handle n disk dinv good"
    and w: "dinv w" "good w" and lay: "fs_layout handle n (disk w) fs files"
    and p: "good_path p" "length (cstr p) < 255" "map_of files (cstr p) = None"
    and len: "unat off + length content + 4096 \<le> 18446744073709551616"
    and wr: "write_file rb wb fs p content off w = Some (Success, fs', w')"
    and q: "good_path q" "cstr q = cstr p \<or> map_of files (cstr q) = Some c"
  shows "\<exists>d arg' w''. read_file rb fs' q None 0 0 w' = Some (Inr d, arg', w'') \<and>
    dyn_abs d = (if cstr q = cstr p then replicate (unat off) 0 @ content else c)"
proof -
  have fits: "write_fits (map_of files (cstr p)) (unat off) (length content)"
    using p(3) len by (simp add: write_fits_def)
  obtain files' where f: "dinv w'" "good w'" "fs_layout handle n (disk w') fs' files'"
      "map_of files' = (map_of files)(cstr p \<mapsto> replicate (unat off) 0 @ content)"
    using block_device.write_file_refines [OF dev w lay p(1,2) fits] wr p(3)
    by (auto simp: written_def overlay_Nil)
  have m: "map_of files' (cstr q)
      = Some (if cstr q = cstr p then replicate (unat off) 0 @ content else c)"
    using f(4) q(2) by auto
  obtain d arg' w'' where "read_file rb fs' q None 0 0 w' = Some (Inr d, arg', w'')"
    "dyn_abs d = (if cstr q = cstr p then replicate (unat off) 0 @ content else c)"
    by (rule read_whole [OF dev f(1-3) q(1) m])
  then show ?thesis by blast
qed

text \<open>The reference disk with one file on it.\<close>

lemma created_ref:
  obtains fs0 w0 fs w files where "fs_layout 0 204800 (ref_blocks w0) fs0 []" "ref_inv w0"
    "ref_good w0"
    "write_file ref_read ref_write fs0 (path_of [47, 65]) [1, 2, 3] 0 w0 = Some (Success, fs, w)"
    "ref_inv w" "ref_good w" "fs_layout 0 204800 (ref_blocks w) fs files"
    "map_of files = [[47, 65] \<mapsto> [1, 2, 3]]"
proof -
  obtain fs0 w0 where f: "format ref_write 0 0 0 AbtrFS_init blank_disk = Some (True, fs0, w0)"
    "ref_inv w0" "ref_good w0" "fs_layout 0 204800 (ref_blocks w0) fs0 []"
    "free_blocks_count (partition_header fs0) = 204799"
    by (rule formatted_ref)
  have fits: "write_fits (map_of [] (cstr (path_of [47, 65]))) (unat 0) (length [1 :: u8, 2, 3])"
    by (simp add: write_fits_def)
  have few: "\<not> unat (free_blocks_count (partition_header fs0)) < 1 + blocks_of (unat (0 :: u64) + length [1 :: u8, 2, 3])"
    using f(5) by (simp add: blocks_of_def)
  obtain fs w files where
    "write_file ref_read ref_write fs0 (path_of [47, 65]) [1, 2, 3] 0 w0 = Some (Success, fs, w)"
    "ref_inv w" "ref_good w" "fs_layout 0 204800 (ref_blocks w) fs files"
    "map_of files = [cstr (path_of [47, 65]) \<mapsto> written None 0 [1, 2, 3]]"
    using ref.write_file_refines [OF f(2-4) path_47_65(1,3) fits] few
    by (auto split: if_splits)
  then show ?thesis using that f(2-4) by (simp add: path_47_65(2) written_def overlay_Nil)
qed

theorem write_then_read_witness:
  "\<exists>fs0 w0 fs w d a w'.
     write_file ref_read ref_write fs0 (path_of [47, 65]) [1, 2, 3] 0 w0 = Some (Success, fs, w) \<and>
     read_file ref_read fs (path_of [47, 65]) None 0 0 w = Some (Inr d, a, w') \<and>
     dyn_abs d = [1, 2, 3]"
proof -
  obtain fs0 w0 fs w files where f: "fs_layout 0 204800 (ref_blocks w0) fs0 []" "ref_inv w0"
    "ref_good w0"
    "write_file ref_read ref_write fs0 (path_of [47, 65]) [1, 2, 3] 0 w0 = Some (Success, fs, w)"
    by (rule created_ref)
  have "map_of [] (cstr (path_of [47, 65])) = None"
    "unat (0 :: u64) + length [1 :: u8, 2, 3] + 4096 \<le> 18446744073709551616" by simp_all
  from write_then_read [OF ref.block_device_axioms f(2,3,1) path_47_65(1,3) this f(4) path_47_65(1)]
  show ?thesis using f(4) by fastforce
qed

text \<open>C26: growth inside the last block is lost. Appending to a file whose last block has room
  reports success, but the header on the disk keeps the old size, so the file reads back as if
  nothing had been appended.\<close>

theorem append_is_lost:
  assumes dev: "block_device rb wb handle n disk dinv good"
    and w: "dinv w" "good w" and lay: "fs_layout handle n (disk w) fs files"
    and p: "good_path p" "length (cstr p) < 255" "map_of files (cstr p) = Some c"
    and off: "unat off = length c"
    and len: "length c + length content \<le> blocks_of (length c) * 4096"
  shows "\<exists>fs' w' d a w''. write_file rb wb fs p content off w = Some (Success, fs', w') \<and>
    read_file rb fs' p None 0 0 w' = Some (Inr d, a, w'') \<and> dyn_abs d = c"
proof -
  have fits: "write_fits (map_of files (cstr p)) (unat off) (length content)"
    using p(3) off len by (simp add: write_fits_def)
  have same: "written (Some c) (unat off) content = c"
    using off by (simp add: written_def overlay_def Let_def)
  obtain r fs' w' files' where f: "write_file rb wb fs p content off w = Some (r, fs', w')"
      "dinv w'" "good w'" "fs_layout handle n (disk w') fs' files'"
      "r = Success" "map_of files' = (map_of files)(cstr p \<mapsto> c)"
    using block_device.write_file_refines [OF dev w lay p(1,2) fits] p(3) same
    by (auto split: if_splits)
  have m: "map_of files' (cstr p) = Some c" using f(6) by simp
  obtain d a w'' where "read_file rb fs' p None 0 0 w' = Some (Inr d, a, w'')" "dyn_abs d = c"
    by (rule read_whole [OF dev f(2-4) p(1) m])
  then show ?thesis using f(1,5) by blast
qed

theorem append_is_lost_witness:
  "\<exists>fs w fs' w' d a w''.
     write_file ref_read ref_write fs (path_of [47, 65]) [4, 5] 3 w = Some (Success, fs', w') \<and>
     read_file ref_read fs' (path_of [47, 65]) None 0 0 w' = Some (Inr d, a, w'') \<and>
     dyn_abs d = [1, 2, 3]"
proof -
  obtain fs w files where f: "ref_inv w" "ref_good w" "fs_layout 0 204800 (ref_blocks w) fs files"
    "map_of files = [[47, 65] \<mapsto> [1, 2, 3]]"
    by (rule created_ref)
  have "map_of files (cstr (path_of [47, 65])) = Some [1, 2, 3]"
    "unat (3 :: u64) = length [1 :: u8, 2, 3]"
    "length [1 :: u8, 2, 3] + length [4 :: u8, 5] \<le> blocks_of (length [1 :: u8, 2, 3]) * 4096"
    using f(4) by (simp_all add: path_47_65(2) blocks_of_def)
  from append_is_lost [OF ref.block_device_axioms f(1-3) path_47_65(1,3) this] show ?thesis by blast
qed

text \<open>C11: creating a file never harms another one. Whatever the device does, a write to a path
  that does not exist returns, and every file that was on the disk is still there, with its
  header and its data.\<close>

theorem create_keeps_other_files:
  assumes dev: "block_device rb wb handle n disk dinv good"
    and w: "dinv w" and lay: "fs_layout handle n (disk w) fs files"
    and p: "good_path p" "length (cstr p) < 255" "map_of files (cstr p) = None"
    and len: "unat off + length content + 4096 \<le> 18446744073709551616"
  shows "\<exists>r fs' w'. write_file rb wb fs p content off w = Some (r, fs', w') \<and> dinv w' \<and>
    files_at (disk w') 1 files (used_blocks fs)"
  by (rule block_device.create_outcome [OF assms]) blast

text \<open>The same disk in front of an operation that fails: the second write to it.\<close>

theorem create_keeps_other_files_witness:
  "\<exists>fs w r fs' w' files.
     write_file ref_read ref_write fs (path_of [47, 66]) [9] 0 (w\<lparr>ref_faults := [False, False, True]\<rparr>)
       = Some (r, fs', w') \<and>
     map_of files = [[47, 65] \<mapsto> [1, 2, 3]] \<and>
     files_at (ref_blocks w') 1 files (used_blocks fs)"
proof -
  obtain fs w files where f: "ref_inv w" "fs_layout 0 204800 (ref_blocks w) fs files"
    "map_of files = [[47, 65] \<mapsto> [1, 2, 3]]"
    by (rule created_ref)
  let ?w = "w\<lparr>ref_faults := [False, False, True]\<rparr>"
  have b: "good_path (path_of [47, 66])" "cstr (path_of [47, 66]) = [47, 66]"
      "length (cstr (path_of [47, 66])) < 255"
    using path_of_facts [of "[47, 66]"] by simp_all
  have "ref_inv ?w" "fs_layout 0 204800 (ref_blocks ?w) fs files"
      "map_of files (cstr (path_of [47, 66])) = None"
      "unat (0 :: u64) + length [9 :: u8] + 4096 \<le> 18446744073709551616"
    using f b by (simp_all add: ref_inv_def)
  from create_keeps_other_files [OF ref.block_device_axioms this(1,2) b(1,3) this(3,4)]
  show ?thesis using f(3) by blast
qed

text \<open>C25: mounting finds the files again. From any driver object, mounting a device whose disk
  holds a laid out file system either fails with the device or gives a mounted file system with
  the same files; with the formatted disk as the starting point this holds from the first use.\<close>

theorem mount_finds_same_files:
  assumes dev: "block_device rb wb handle n disk dinv good"
    and w: "dinv w" and lay: "fs_layout handle n (disk w) fs0 files"
    and root: "tree_inv (root_node fs)"
  shows "\<exists>ok fs' w'. mount rb base_addr hhdm handle fs w = Some (ok, fs', w') \<and> dinv w' \<and>
    disk w' = disk w \<and> (good w \<longrightarrow> ok \<and> good w') \<and> is_mounted fs' = ok \<and>
    (ok \<longrightarrow> fs_layout handle n (disk w') fs' files)"
  by (rule block_device.mount_finds_files [OF assms])

theorem mount_finds_same_files_witness:
  "\<exists>w fs' w' files. mount ref_read 0 0 0 AbtrFS_init w = Some (True, fs', w') \<and>
     fs_layout 0 204800 (ref_blocks w') fs' files \<and> map_of files = [[47, 65] \<mapsto> [1, 2, 3]]"
proof -
  obtain fs w files where f: "ref_inv w" "ref_good w" "fs_layout 0 204800 (ref_blocks w) fs files"
    "map_of files = [[47, 65] \<mapsto> [1, 2, 3]]"
    by (rule created_ref)
  from mount_finds_same_files [OF ref.block_device_axioms f(1,3) tree_inv_init, of 0 0]
  obtain fs' w' where "mount ref_read 0 0 0 AbtrFS_init w = Some (True, fs', w')"
    "fs_layout 0 204800 (ref_blocks w') fs' files"
    using f(2) by auto
  then show ?thesis using f(4) by blast
qed

text \<open>\<^verbatim>\<open>exists\<close> tells the truth. It returns without touching the disk; it says
  \<open>Success\<close> only for a file that is there, and on a device that works exactly then.\<close>

theorem exists_tells_truth:
  assumes dev: "block_device rb wb handle n disk dinv good"
    and w: "dinv w" and lay: "fs_layout handle n (disk w) fs files" and p: "good_path p"
  shows "\<exists>r w'. exists rb fs p w = Some (r, w') \<and> dinv w' \<and> disk w' = disk w \<and>
    (r = Success \<longrightarrow> cstr p \<in> fst ` set files) \<and> (r = Success \<or> r = FileNotFound) \<and>
    (good w \<longrightarrow> good w' \<and> r = (if cstr p \<in> fst ` set files then Success else FileNotFound))"
  by (rule block_device.exists_agrees [OF assms])

theorem exists_tells_truth_witness:
  "\<exists>fs w w'. exists ref_read fs (path_of [47, 65]) w = Some (Success, w')"
proof -
  obtain fs w files where f: "ref_inv w" "ref_good w" "fs_layout 0 204800 (ref_blocks w) fs files"
    "map_of files = [[47, 65] \<mapsto> [1, 2, 3]]"
    by (rule created_ref)
  have "map_of files [47, 65] \<noteq> None" using f(4) by simp
  then have "[47, 65] \<in> fst ` set files" by (simp add: map_of_eq_None_iff)
  with exists_tells_truth [OF ref.block_device_axioms f(1,3) path_47_65(1)]
  show ?thesis using f(2) by (auto simp: path_47_65(2))
qed

section \<open>A scan that never ends\<close>

lemma find_loop_stuck:
  assumes "rb handle b w = Some (Some bs, w)" and "b < used"
    and "section_count (decode_header bs) = -1" and "magic (base (decode_header bs)) = ABTRFS_FILE_MAGIC"
    and "\<not> is_path_equal p (path (decode_header bs))"
  shows "find_loop rb handle used p b w = None"
proof (rule ccontr)
  assume "find_loop rb handle used p b w \<noteq> None"
  then obtain y where "find_loop rb handle used p b w = Some y" by auto
  then have "\<not> (rb handle b w = Some (Some bs, w) \<and> b < used \<and>
      section_count (decode_header bs) = -1 \<and>
      magic (base (decode_header bs)) = ABTRFS_FILE_MAGIC \<and>
      \<not> is_path_equal p (path (decode_header bs)))"
  proof (rule find_loop.raw_induct [rotated], goal_cases)
    case (1 f rb handle used p b w y)
    show ?case
    proof (rule notI, elim conjE)
      assume h: "rb handle b w = Some (Some bs, w)" "b < used"
        "section_count (decode_header bs) = -1"
        "magic (base (decode_header bs)) = ABTRFS_FILE_MAGIC"
        "\<not> is_path_equal p (path (decode_header bs))"
      then have "header_skip (decode_header bs) = 0" by (simp add: header_skip_def word_gt_0)
      then have "f rb handle used p b w = Some y" using 1(2) h by (simp add: Let_def)
      from 1(1) [OF this] h show False by blast
    qed
  qed
  then show False using assms by blast
qed

text \<open>A corrupted header can hang the kernel. A file header whose block count is
  \<open>2^64 - 1\<close> makes the scan advance by \<open>1 + count = 0\<close> blocks: looking for any other path then
  never returns, and neither do \<^verbatim>\<open>exists\<close>, \<^verbatim>\<open>read_file\<close> and \<^verbatim>\<open>write_file\<close>.\<close>

theorem corrupt_count_hangs_scan:
  assumes "rb (fs_device_handle fs) 1 w = Some (Some bs, w)"
    and "1 < total_blocks (partition_header fs) - free_blocks_count (partition_header fs)"
    and "section_count (decode_header bs) = -1" and "magic (base (decode_header bs)) = ABTRFS_FILE_MAGIC"
    and "\<not> is_path_equal p (path (decode_header bs))"
    and "is_mounted fs" and "good_path p"
  shows "exists rb fs p w = None \<and> read_file rb fs p arg off mx w = None"
proof -
  obtain segs where segs: "chopPath p = Some (Inr segs)" "segs \<noteq> []"
    by (rule chopPath_good [OF assms(7)])
  have "fs_find rb fs p w = None"
    using find_loop_stuck [of rb _ 1 w bs, OF assms(1-5)] by (simp add: fs_find_def find_file_header_def)
  then show ?thesis using segs assms(6) by (simp add: exists_def read_file_def)
qed

theorem corrupt_count_hangs_scan_witness:
  "exists (\<lambda>h b w. Some (Some (encode_header (default_AbtrFSDiskHeader\<lparr>section_count := -1\<rparr>)), w))
     (AbtrFS_init\<lparr>is_mounted := True, partition_header := default_PARTITION_HEADER\<lparr>total_blocks := 9\<rparr>\<rparr>)
     (path_of [47, 65]) () = None"
proof -
  let ?h = "default_AbtrFSDiskHeader\<lparr>section_count := -1\<rparr>"
  have d: "decode_header (encode_header ?h) = ?h"
    using wf_default_headers(1) by (intro decode_encode_header) (simp add: wf_header_def)
  have ne: "\<not> is_path_equal (path_of [47, 65]) (path ?h)"
    using path_47_65 by (subst is_path_equal_iff)
      (auto simp: good_path_def default_AbtrFSDiskHeader_def cstr_Cons numeral_eq_Suc)
  show ?thesis
    using corrupt_count_hangs_scan [of "\<lambda>h b w. Some (Some (encode_header ?h), w)"
        "AbtrFS_init\<lparr>is_mounted := True,
           partition_header := default_PARTITION_HEADER\<lparr>total_blocks := 9\<rparr>\<rparr>"
        "()" "encode_header ?h" "path_of [47, 65]"] d ne path_47_65(1)
    by (simp add: default_PARTITION_HEADER_def default_AbtrFSDiskHeader_def ABTRFS_FILE_MAGIC_def)
qed

end
