(* ===== verification/AbtrfsSessions.thy ===== *)
theory AbtrfsSessions
  imports AbtrfsProps
begin

text \<open>
  Long runs of the file system: any sequence of writes, reads, queries and new mounts behaves like
  a map from paths to contents on a volume of a fixed number of blocks. The map alone decides every
  result, the lack of space included.
\<close>

section \<open>A volume\<close>

text \<open>The blocks that the files of a map take: a header each, and their contents in whole blocks.\<close>

definition room :: "(bytes \<rightharpoonup> bytes) \<Rightarrow> nat" where
  "room m = (\<Sum>nm \<in> dom m. 1 + blocks_of (length (the (m nm))))"

definition vol_write :: "nat \<Rightarrow> bytes \<Rightarrow> nat \<Rightarrow> bytes \<Rightarrow> (bytes \<rightharpoonup> bytes) \<Rightarrow> errorCode \<times> (bytes \<rightharpoonup> bytes)" where
  "vol_write T nm off c m =
     (if m nm = None \<and> off + length c = 0 then (InvalidParameters, m)
      else if m nm = None \<and> T < 1 + room m + (1 + blocks_of (off + length c)) then (NoSpaceLeft, m)
      else (Success, m(nm \<mapsto> written (m nm) off c)))"

definition vol_read :: "bytes \<Rightarrow> u64 \<Rightarrow> u64 \<Rightarrow> (bytes \<rightharpoonup> bytes) \<Rightarrow> errorCode + bytes" where
  "vol_read nm off mx m = (case m nm of None \<Rightarrow> Inl FileNotFound | Some c \<Rightarrow> Inr (file_slice off mx c))"

section \<open>Sessions\<close>

text \<open>A client's calls. \<open>F_remount\<close> drops the file system object and mounts the disk with a new one.\<close>

datatype fs_op = F_write bytes u64 bytes | F_read bytes u64 u64 | F_exists bytes | F_remount u64 u64

datatype fs_result = R_code errorCode | R_data "errorCode + bytes" | R_mounted bool

fun fs_call :: "'s block_read \<Rightarrow> 's block_write \<Rightarrow> u64 \<Rightarrow> fs_op \<Rightarrow> AbtrFS \<times> 's \<Rightarrow>
    (fs_result \<times> AbtrFS \<times> 's) option" where
  "fs_call rb wb h (F_write p off c) (fs, w) =
     map_option (\<lambda>(r, fs', w'). (R_code r, fs', w')) (write_file rb wb fs p c off w)"
| "fs_call rb wb h (F_read p off mx) (fs, w) =
     map_option (\<lambda>(r, arg, w'). (R_data (map_sum id dyn_abs r), fs, w')) (read_file rb fs p None off mx w)"
| "fs_call rb wb h (F_exists p) (fs, w) =
     map_option (\<lambda>(r, w'). (R_code r, fs, w')) (exists rb fs p w)"
| "fs_call rb wb h (F_remount base_addr hhdm) (fs, w) =
     map_option (\<lambda>(ok, fs', w'). (R_mounted ok, fs', w')) (mount rb base_addr hhdm h AbtrFS_init w)"

fun vol_call :: "nat \<Rightarrow> fs_op \<Rightarrow> (bytes \<rightharpoonup> bytes) \<Rightarrow> fs_result \<times> (bytes \<rightharpoonup> bytes)" where
  "vol_call T (F_write p off c) m = (case vol_write T (cstr p) (unat off) c m of (r, m') \<Rightarrow> (R_code r, m'))"
| "vol_call T (F_read p off mx) m = (R_data (vol_read (cstr p) off mx m), m)"
| "vol_call T (F_exists p) m = (R_code (if m (cstr p) = None then FileNotFound else Success), m)"
| "vol_call T (F_remount base_addr hhdm) m = (R_mounted True, m)"

text \<open>Paths of at most 254 characters that name something; writes make a file or stay inside the blocks of
  an old one.\<close>

fun call_ok :: "fs_op \<Rightarrow> (bytes \<rightharpoonup> bytes) \<Rightarrow> bool" where
  "call_ok (F_write p off c) m \<longleftrightarrow>
     good_path p \<and> length (cstr p) < 255 \<and> write_fits (m (cstr p)) (unat off) (length c)"
| "call_ok (F_read p off mx) m \<longleftrightarrow> good_path p"
| "call_ok (F_exists p) m \<longleftrightarrow> good_path p"
| "call_ok (F_remount base_addr hhdm) m \<longleftrightarrow> True"

fun fs_session :: "'s block_read \<Rightarrow> 's block_write \<Rightarrow> u64 \<Rightarrow> fs_op list \<Rightarrow> AbtrFS \<times> 's \<Rightarrow>
    (fs_result list \<times> AbtrFS \<times> 's) option" where
  "fs_session rb wb h [] st = Some ([], st)"
| "fs_session rb wb h (x # xs) st = do {
     (r, st1) \<leftarrow> fs_call rb wb h x st;
     (rs, st2) \<leftarrow> fs_session rb wb h xs st1;
     Some (r # rs, st2) }"

fun vol_session :: "nat \<Rightarrow> fs_op list \<Rightarrow> (bytes \<rightharpoonup> bytes) \<Rightarrow> fs_result list \<times> (bytes \<rightharpoonup> bytes)" where
  "vol_session T [] m = ([], m)"
| "vol_session T (x # xs) m =
     (case vol_call T x m of (r, m1) \<Rightarrow> case vol_session T xs m1 of (rs, m2) \<Rightarrow> (r # rs, m2))"

fun session_ok :: "nat \<Rightarrow> fs_op list \<Rightarrow> (bytes \<rightharpoonup> bytes) \<Rightarrow> bool" where
  "session_ok T [] m \<longleftrightarrow> True"
| "session_ok T (x # xs) m \<longleftrightarrow> call_ok x m \<and> session_ok T xs (snd (vol_call T x m))"

section \<open>Space\<close>

lemma files_at_end:
  "files_at d b files e \<Longrightarrow> e = b + (\<Sum>(nm, c) \<leftarrow> files. 1 + blocks_of (length c))"
  by (induction d b files e rule: files_at.induct) auto

lemma room_files: "distinct (map fst files) \<Longrightarrow> room (map_of files) = (\<Sum>(nm, c) \<leftarrow> files. 1 + blocks_of (length c))"
proof (induction files)
  case Nil
  then show ?case by (simp add: room_def)
next
  case (Cons x files)
  obtain nm c where x: "x = (nm, c)" by (cases x)
  have new: "nm \<notin> dom (map_of files)" using Cons.prems by (auto simp: x dom_map_of_conv_image_fst)
  have "(\<Sum>k \<in> dom (map_of files). 1 + blocks_of (length (the (((map_of files)(nm \<mapsto> c)) k)))) = room (map_of files)"
    unfolding room_def using new by (intro sum.cong) auto
  then have "room ((map_of files)(nm \<mapsto> c)) = 1 + blocks_of (length c) + room (map_of files)"
    using new by (simp add: room_def finite_dom_map_of)
  moreover have "map_of (x # files) = (map_of files)(nm \<mapsto> c)" by (simp add: x)
  ultimately have "room (map_of (x # files)) = 1 + blocks_of (length c) + room (map_of files)" by simp
  then show ?case using Cons.IH Cons.prems x by (simp only: list.map sum_list.Cons prod.case distinct.simps(2))
qed

lemma reserve_blocks_total:
  "reserve_blocks ph h ex k = Inr (ph', h') \<Longrightarrow> total_blocks ph' = total_blocks ph"
  by (auto simp: reserve_blocks_def Let_def split: if_splits)

lemma write_found_total:
  assumes "write_found rb wb fs p content off found w = Some (r, fs', w')"
  shows "total_blocks (partition_header fs') = total_blocks (partition_header fs)"
proof -
  have "fs' = fs \<or> (\<exists>ph' h h' ex k. fs' = fs\<lparr>partition_header := ph'\<rparr> \<and>
      reserve_blocks (partition_header fs) h ex k = Inr (ph', h'))"
    using assms unfolding write_found_def Let_def
    by (auto simp: bind_eq_Some_conv split: if_split_asm sum.split_asm)
  then show ?thesis using reserve_blocks_total by auto
qed

lemma write_file_total:
  assumes "write_file rb wb fs p content off w = Some (r, fs', w')"
  shows "total_blocks (partition_header fs') = total_blocks (partition_header fs)"
proof -
  have "fs' = fs \<or> (\<exists>root found w1. write_found rb wb (fs\<lparr>root_node := root\<rparr>) p content off found w1 = Some (r, fs', w'))"
    using assms unfolding write_file_def Let_def
    by (cases "chopPath p"; cases "the (chopPath p)") (auto simp: bind_eq_Some_conv split: if_split_asm)
  then show ?thesis using write_found_total by fastforce
qed

section \<open>The file system is a volume\<close>

context block_device
begin

text \<open>A file system object on a disk in a good state, and the volume it stands for.\<close>

definition holds :: "nat \<Rightarrow> (bytes \<rightharpoonup> bytes) \<Rightarrow> AbtrFS \<Rightarrow> 's \<Rightarrow> bool" where
  "holds T m fs w \<longleftrightarrow> dinv w \<and> good w \<and> unat (total_blocks (partition_header fs)) = T \<and>
     (\<exists>files. fs_layout handle n (disk w) fs files \<and> map_of files = m)"

lemma holds_room:
  assumes "fs_layout handle n d fs files"
  shows "unat (total_blocks (partition_header fs)) =
      unat (free_blocks_count (partition_header fs)) + 1 + room (map_of files)"
  using layout_facts(8,9,11,12) [OF assms] files_at_end [OF layout_facts(8) [OF assms]] room_files [of files]
  by simp

lemma layout_contents:
  assumes "fs_layout handle n d fs files" and "map_of files nm = Some c"
  shows "c \<noteq> []"
proof -
  have "files_at d b files e \<Longrightarrow> (nm, c) \<in> set files \<Longrightarrow> c \<noteq> []" for b e
    by (induction d b files e rule: files_at.induct) (auto simp: file_at_def Let_def)
  then show ?thesis using layout_facts(8) [OF assms(1)] assms(2) by (metis map_of_SomeD)
qed

lemma room_update_new:
  assumes "m nm = None" and "finite (dom m)"
  shows "room (m(nm \<mapsto> c)) = 1 + blocks_of (length c) + room m"
proof -
  have "(\<Sum>k \<in> dom m. 1 + blocks_of (length (the ((m(nm \<mapsto> c)) k)))) = room m"
    unfolding room_def using assms(1) by (intro sum.cong) auto
  then show ?thesis using assms by (simp add: room_def insert_absorb domIff)
qed

lemma write_is_volume_write:
  assumes h: "holds T m fs w" and p: "good_path p" "length (cstr p) < 255"
    and fits: "write_fits (m (cstr p)) (unat off) (length c)"
  shows "\<exists>r fs' w'. write_file rb wb fs p c off w = Some (r, fs', w') \<and>
    holds T (snd (vol_write T (cstr p) (unat off) c m)) fs' w' \<and> r = fst (vol_write T (cstr p) (unat off) c m)"
proof -
  obtain files where lay: "fs_layout handle n (disk w) fs files" "map_of files = m"
    and w: "dinv w" "good w" "unat (total_blocks (partition_header fs)) = T"
    using h by (auto simp: holds_def)
  let ?nm = "cstr p" and ?need = "1 + blocks_of (unat off + length c)"
  obtain r fs' w' files' where r: "write_file rb wb fs p c off w = Some (r, fs', w')" "dinv w'" "good w'"
    "fs_layout handle n (disk w') fs' files'"
    "if r = Success then map_of files' = m(?nm \<mapsto> written (m ?nm) (unat off) c)
     else files' = files \<and> m ?nm = None \<and> (r = InvalidParameters \<and> unat off + length c = 0 \<or>
       r = NoSpaceLeft \<and> 0 < unat off + length c \<and> unat (free_blocks_count (partition_header fs)) < ?need)"
    using write_file_refines [OF w(1,2) lay(1) p fits [folded lay(2)]] unfolding lay(2) by blast
  have T': "unat (total_blocks (partition_header fs')) = T" using write_file_total [OF r(1)] w(3) by simp
  note sp = holds_room [OF lay(1), unfolded lay(2) w(3)]
  have hold: "holds T (map_of files') fs' w'" using r(2-4) T' by (auto simp: holds_def)
  show ?thesis
  proof (cases "r = Success")
    case True
    then have m': "map_of files' = m(?nm \<mapsto> written (m ?nm) (unat off) c)" using r(5) by simp
    then have "written (m ?nm) (unat off) c \<noteq> []" using layout_contents [OF r(4), of ?nm] by simp
    then have ne: "\<not> (m ?nm = None \<and> unat off + length c = 0)" by (auto simp: written_def overlay_Nil)
    have "\<not> (m ?nm = None \<and> T < 1 + room m + ?need)"
    proof
      assume a: "m ?nm = None \<and> T < 1 + room m + ?need"
      have "finite (dom m)" using lay(2) finite_dom_map_of by metis
      then have "room (map_of files') = 1 + blocks_of (unat off + length c) + room m"
        using a unfolding m' by (simp add: room_update_new written_def length_overlay)
      then show False using holds_room [OF r(4)] T' a by simp
    qed
    then have "vol_write T ?nm (unat off) c m = (Success, map_of files')"
      using ne by (auto simp: vol_write_def m')
    then show ?thesis using r(1) hold True by simp
  next
    case False
    then have f: "files' = files" "m ?nm = None" "r = InvalidParameters \<and> unat off + length c = 0 \<or>
       r = NoSpaceLeft \<and> 0 < unat off + length c \<and> unat (free_blocks_count (partition_header fs)) < ?need" using r(5) by simp_all
    then have "vol_write T ?nm (unat off) c m = (r, m)"
      using sp by (auto simp: vol_write_def)
    then show ?thesis using r(1) hold f(1) lay(2) by simp
  qed
qed

lemma read_is_volume_read:
  assumes h: "holds T m fs w" and p: "good_path p"
  shows "\<exists>r arg w'. read_file rb fs p None off mx w = Some (r, arg, w') \<and> holds T m fs w' \<and>
    map_sum id dyn_abs r = vol_read (cstr p) off mx m"
proof -
  obtain files where lay: "fs_layout handle n (disk w) fs files" "map_of files = m"
    and w: "dinv w" "good w" "unat (total_blocks (partition_header fs)) = T"
    using h by (auto simp: holds_def)
  have "\<forall>d. None = Some d \<longrightarrow> dyn_inv d" by simp
  from read_file_reads [OF w(1) lay(1) p this, of off mx]
  obtain r arg w' where r: "read_file rb fs p None off mx w = Some (r, arg, w')" "dinv w'" "good w'"
    "disk w' = disk w"
    "case r of Inl e \<Rightarrow> e = FileNotFound \<and> m (cstr p) = None
      | Inr d \<Rightarrow> \<exists>c. m (cstr p) = Some c \<and> dyn_abs d = file_slice off mx c"
    using w(2) lay(2) by (elim exE conjE) (rule that, assumption, auto split: sum.splits)
  then have "holds T m fs w'" using lay w by (auto simp: holds_def)
  moreover have "map_sum id dyn_abs r = vol_read (cstr p) off mx m"
    using r(5) by (auto simp: vol_read_def split: sum.split_asm)
  ultimately show ?thesis using r(1) by blast
qed

lemma remount_finds_volume:
  assumes h: "holds T m fs w"
  shows "\<exists>fs' w'. mount rb base_addr hhdm handle AbtrFS_init w = Some (True, fs', w') \<and> holds T m fs' w'"
proof -
  obtain files where lay: "fs_layout handle n (disk w) fs files" "map_of files = m"
    and w: "dinv w" "good w" "unat (total_blocks (partition_header fs)) = T"
    using h by (auto simp: holds_def)
  obtain fs' w' where r: "mount rb base_addr hhdm handle AbtrFS_init w = Some (True, fs', w')" "dinv w'"
    "good w'" "disk w' = disk w" "fs_layout handle n (disk w') fs' files"
    using mount_finds_files [OF w(1) lay(1) tree_inv_init, of base_addr hhdm] w(2) by auto
  have "partition_header fs' = partition_header fs"
    using r(4,5) lay(1) by (simp add: fs_layout_def Let_def)
  then have "holds T m fs' w'" using r w(3) lay(2) by (auto simp: holds_def)
  then show ?thesis using r(1) by blast
qed

lemma call_is_volume_call:
  assumes h: "holds T m fs w" and ok: "call_ok x m"
  shows "\<exists>fs' w'. fs_call rb wb handle x (fs, w) = Some (fst (vol_call T x m), fs', w') \<and>
    holds T (snd (vol_call T x m)) fs' w'"
proof (cases x)
  case (F_write p off c)
  then show ?thesis
    using write_is_volume_write [OF h, of p off c] ok by (auto simp: case_prod_unfold)
next
  case (F_read p off mx)
  then show ?thesis using read_is_volume_read [OF h, of p off mx] ok by auto
next
  case (F_exists p)
  obtain files where lay: "fs_layout handle n (disk w) fs files" "map_of files = m"
    and w: "dinv w" "good w" "unat (total_blocks (partition_header fs)) = T"
    using h by (auto simp: holds_def)
  have "good_path p" using ok F_exists by simp
  from exists_agrees [OF w(1) lay(1) this] w(2) obtain r w' where
    r: "exists rb fs p w = Some (r, w')" "dinv w'" "good w'" "disk w' = disk w"
      "r = (if cstr p \<in> fst ` set files then Success else FileNotFound)" by blast
  have "cstr p \<in> fst ` set files \<longleftrightarrow> m (cstr p) \<noteq> None"
    unfolding lay(2) [symmetric] by (simp add: map_of_eq_None_iff)
  then have "r = (if m (cstr p) = None then FileNotFound else Success)" using r(5) by simp
  moreover have "holds T m fs w'" using r(2-4) lay w by (auto simp: holds_def)
  ultimately show ?thesis using r(1) F_exists by simp
next
  case (F_remount base_addr hhdm)
  then show ?thesis using remount_finds_volume [OF h, of base_addr hhdm] by auto
qed

lemma session_is_volume_session:
  assumes "holds T m fs w" and "session_ok T ops m"
  shows "\<exists>fs' w'. fs_session rb wb handle ops (fs, w) = Some (fst (vol_session T ops m), fs', w') \<and>
    holds T (snd (vol_session T ops m)) fs' w'"
  using assms
proof (induction ops arbitrary: m fs w)
  case Nil
  then show ?case by simp
next
  case (Cons x xs)
  obtain fs1 w1 where 1: "fs_call rb wb handle x (fs, w) = Some (fst (vol_call T x m), fs1, w1)"
    "holds T (snd (vol_call T x m)) fs1 w1"
    using call_is_volume_call [OF Cons.prems(1), of x] Cons.prems(2) by auto
  from Cons.IH [OF 1(2)] Cons.prems(2) show ?case
    by (auto simp: 1(1) case_prod_unfold)
qed

end

section \<open>Every session\<close>

text \<open>C3: On a storage device that works, any sequence of writes, reads, queries and new mounts whose
  paths name something, whose writes go to paths of at most 254 characters, and whose writes to an old file stay inside the
  blocks that file has, returns, and returns exactly what the same sequence does on a map from paths to contents with a
  fixed number of blocks: every byte read, every \<open>FileNotFound\<close>, every \<open>NoSpaceLeft\<close> and every
  refusal of an empty file is what the map says, and the files on the disk at the end are those of
  the map. A write that needs more blocks than its file has is outside this claim: it goes over the next file.\<close>

theorem fs_sessions_refine:
  assumes dev: "block_device rb wb handle n disk dinv good"
    and w: "dinv w" "good w" and lay: "fs_layout handle n (disk w) fs files"
    and ok: "session_ok (unat (total_blocks (partition_header fs))) ops (map_of files)"
  shows "\<exists>rs fs' w' files'. fs_session rb wb handle ops (fs, w) = Some (rs, fs', w') \<and>
    vol_session (unat (total_blocks (partition_header fs))) ops (map_of files) = (rs, map_of files') \<and>
    dinv w' \<and> good w' \<and> fs_layout handle n (disk w') fs' files'"
proof -
  let ?T = "unat (total_blocks (partition_header fs))"
  have "block_device.holds handle n disk dinv good ?T (map_of files) fs w"
    using w lay by (auto simp: block_device.holds_def [OF dev])
  from block_device.session_is_volume_session [OF dev this ok] obtain fs' w' files' where
    "fs_session rb wb handle ops (fs, w) = Some (fst (vol_session ?T ops (map_of files)), fs', w')"
    "dinv w'" "good w'" "fs_layout handle n (disk w') fs' files'"
    "map_of files' = snd (vol_session ?T ops (map_of files))"
    by (auto simp: block_device.holds_def [OF dev])
  then show ?thesis by (metis prod.collapse)
qed

text \<open>A file is written and read, overwritten in its middle, the disk is mounted anew and the file read
  again; a file that is not there is neither found nor read.\<close>

definition sample_session :: "fs_op list" where
  "sample_session =
     [F_write (path_of [47, 65]) 0 [1, 2, 3], F_read (path_of [47, 65]) 0 0,
      F_write (path_of [47, 65]) 1 [9], F_remount 0 0, F_read (path_of [47, 65]) 0 0,
      F_exists (path_of [47, 65]), F_write (path_of [47, 66]) 0 []]"

lemma path_47_66: "good_path (path_of [47, 66])" "cstr (path_of [47, 66]) = [47, 66]"
  "length (cstr (path_of [47, 66])) < 255"
  using path_of_facts [of "[47, 66]"] by simp_all

lemma sample_session_volume:
  "session_ok 204800 sample_session (map_of [])"
  "fst (vol_session 204800 sample_session (map_of [])) =
     [R_code Success, R_data (Inr [1, 2, 3]), R_code Success, R_mounted True,
      R_data (Inr [1, 9, 3]), R_code Success, R_code InvalidParameters]"
  by (simp_all add: sample_session_def vol_write_def vol_read_def written_def overlay_def room_def
      blocks_of_def write_fits_def file_slice_def path_47_65 path_47_66)

lemma format_total:
  assumes "format wb base_addr hhdm h fs0 w0 = Some (ok, fs, w)"
  shows "unat (total_blocks (partition_header fs)) = 204800"
  using assms by (auto simp: format_def Let_def bind_eq_Some_conv fs_at_def format_header_def split: if_split_asm)

theorem fs_sessions_refine_witness:
  "\<exists>fs w fs' w'. format ref_write 0 0 0 AbtrFS_init blank_disk = Some (True, fs, w) \<and>
     fs_session ref_read ref_write 0 sample_session (fs, w) = Some
       ([R_code Success, R_data (Inr [1, 2, 3]), R_code Success, R_mounted True,
         R_data (Inr [1, 9, 3]), R_code Success, R_code InvalidParameters], fs', w')"
proof -
  obtain fs w where f: "format ref_write 0 0 0 AbtrFS_init blank_disk = Some (True, fs, w)"
    "ref_inv w" "ref_good w" "fs_layout 0 204800 (ref_blocks w) fs []"
    by (rule formatted_ref)
  note T = format_total [OF f(1)]
  have ok: "session_ok (unat (total_blocks (partition_header fs))) sample_session (map_of [])"
    using sample_session_volume(1) by (simp add: T)
  from fs_sessions_refine [OF ref.block_device_axioms f(2-4) ok]
  show ?thesis using f(1) sample_session_volume(2) by (auto simp: T)
qed

end
