(* ===== verification/AbtrfsCrash.thy ===== *)
theory AbtrfsCrash
  imports AbtrfsProps
begin

text \<open>
  Files and power loss. The partition header is the last block \<^verbatim>\<open>write_file\<close> writes for a new
  file; on a device that leaves a block alone when a write of it fails, as one that loses power
  does, a run of file creations can break off anywhere, and the next mount finds the files whose creation was
  reported as done, and nothing of the one that was not.
\<close>

section \<open>Runs that stop at the first failure\<close>

fun create_run :: "'s block_read \<Rightarrow> 's block_write \<Rightarrow> (bytes \<times> bytes) list \<Rightarrow> AbtrFS \<Rightarrow> 's \<Rightarrow>
    (errorCode list \<times> AbtrFS \<times> 's) option" where
  "create_run rb wb [] fs w = Some ([], fs, w)"
| "create_run rb wb ((p, c) # xs) fs w = do {
     (r, fs1, w1) \<leftarrow> write_file rb wb fs p c 0 w;
     if r \<noteq> Success then Some ([r], fs1, w1)
     else do {
       (rs, fs2, w2) \<leftarrow> create_run rb wb xs fs1 w1;
       Some (r # rs, fs2, w2) } }"

text \<open>The creations that were reported as done.\<close>

definition done_of :: "errorCode list \<Rightarrow> nat" where
  "done_of rs = length (filter (\<lambda>r. r = Success) rs)"

definition named :: "(bytes \<times> bytes) list \<Rightarrow> (bytes \<times> bytes) list" where
  "named xs = map (\<lambda>x. (cstr (fst x), snd x)) xs"

text \<open>New files, each under a name of its own.\<close>

definition creatable :: "(bytes \<times> bytes) list \<Rightarrow> (bytes \<times> bytes) list \<Rightarrow> bool" where
  "creatable xs files \<longleftrightarrow> distinct (map (cstr \<circ> fst) xs) \<and>
     (\<forall>x \<in> set xs. good_path (fst x) \<and> length (cstr (fst x)) < 255 \<and>
        length (snd x) + 4096 \<le> 18446744073709551616 \<and> map_of files (cstr (fst x)) = None)"

lemma creatable_Cons:
  assumes "creatable ((p, c) # xs) files"
  shows "good_path p" "length (cstr p) < 255" "map_of files (cstr p) = None"
    "unat (0 :: u64) + length c + 4096 \<le> 18446744073709551616" "creatable xs (files @ [(cstr p, c)])"
  using assms by (force simp: creatable_def map_add_def)+

context block_device
begin

lemma create_run_breaks_off:
  assumes "dinv w" and "fs_layout handle n (disk w) fs files" and "write_atomic" and "creatable xs files"
  shows "\<exists>rs fs' w' fs0. create_run rb wb xs fs w = Some (rs, fs', w') \<and> dinv w' \<and>
    fs_layout handle n (disk w') fs0 (files @ named (take (done_of rs) xs))"
  using assms
proof (induction xs arbitrary: w fs files)
  case Nil
  then show ?case by (auto simp: done_of_def named_def)
next
  case (Cons x xs)
  obtain p c where x: "x = (p, c)" by (cases x)
  note ok = creatable_Cons [OF Cons.prems(4) [unfolded x]]
  obtain r fs1 w1 where r: "write_file rb wb fs p c 0 w = Some (r, fs1, w1)" "dinv w1"
    "r = Success \<longrightarrow> fs_layout handle n (disk w1) fs1 (files @ [(cstr p, overlay [] (unat (0 :: u64)) c)])"
    "write_atomic \<longrightarrow> r \<noteq> Success \<longrightarrow> fs_layout handle n (disk w1) fs files"
    by (rule create_outcome [OF Cons.prems(1,2) ok(1-4)])
  show ?case
  proof (cases "r = Success")
    case True
    then have lay: "fs_layout handle n (disk w1) fs1 (files @ [(cstr p, c)])" using r(3) by (simp add: overlay_Nil)
    obtain rs fs2 w2 fs0 where "create_run rb wb xs fs1 w1 = Some (rs, fs2, w2)" "dinv w2"
      "fs_layout handle n (disk w2) fs0 ((files @ [(cstr p, c)]) @ named (take (done_of rs) xs))"
      using Cons.IH [OF r(2) lay Cons.prems(3) ok(5)] by blast
    then show ?thesis using r(1) True by (auto simp: x done_of_def named_def)
  next
    case False
    then show ?thesis using r Cons.prems(3) by (auto simp: x done_of_def named_def)
  qed
qed

end

section \<open>Power loss\<close>

text \<open>C4: power loss costs no file. On a device whose failing writes leave the disk alone, whenever its
  reads and writes begin to fail, a run of file creations returns and stops at the first that is not
  reported as done; and a mount afterwards, if it gets the block it reads, finds the files that were there
  before and those reported as done, whole, in order, and no other.\<close>

theorem power_loss_keeps_files:
  assumes dev: "block_device rb wb handle n disk dinv good"
    and atomic: "\<forall>b bs w w'. dinv w \<longrightarrow> wb handle b bs w = Some (False, w') \<longrightarrow> disk w' = disk w"
    and w: "dinv w" and lay: "fs_layout handle n (disk w) fs files" and xs: "creatable xs files"
  shows "\<exists>rs fs' w' ok fs2 w2. create_run rb wb xs fs w = Some (rs, fs', w') \<and>
    mount rb base_addr hhdm handle AbtrFS_init w' = Some (ok, fs2, w2) \<and>
    (ok \<longrightarrow> fs_layout handle n (disk w2) fs2 (files @ named (take (done_of rs) xs)))"
proof -
  have "block_device.write_atomic wb handle disk dinv"
    using atomic by (simp add: block_device.write_atomic_def [OF dev])
  from block_device.create_run_breaks_off [OF dev w lay this xs]
  obtain rs fs' w' fs0 where r: "create_run rb wb xs fs w = Some (rs, fs', w')" "dinv w'"
    "fs_layout handle n (disk w') fs0 (files @ named (take (done_of rs) xs))" by blast
  from block_device.mount_finds_files [OF dev r(2,3) tree_inv_init, of base_addr hhdm]
  show ?thesis using r(1) by blast
qed

text \<open>Two files, and a device that fails from its fifth access on.\<close>

theorem power_loss_keeps_files_witness:
  "\<exists>fs w rs fs' w' ok fs2 w2. fs_layout 0 204800 (ref_blocks w) fs [] \<and> ref_faults w = replicate 4 False @ [True] \<and>
     create_run ref_read ref_write [(path_of [47, 65], [1, 2, 3]), (path_of [47, 66], [9])] fs w = Some (rs, fs', w') \<and>
     mount ref_read 0 0 0 AbtrFS_init w' = Some (ok, fs2, w2) \<and>
     (ok \<longrightarrow> fs_layout 0 204800 (ref_blocks w2) fs2 (take (done_of rs) [([47, 65], [1, 2, 3]), ([47, 66], [9])]))"
proof -
  obtain fs w where f: "ref_inv w" "fs_layout 0 204800 (ref_blocks w) fs []" by (rule formatted_ref)
  let ?w = "w\<lparr>ref_faults := replicate 4 False @ [True]\<rparr>"
  have w: "ref_inv ?w" "fs_layout 0 204800 (ref_blocks ?w) fs []" using f by (simp_all add: ref_inv_def)
  have b: "good_path (path_of [47, 66])" "cstr (path_of [47, 66]) = [47, 66]"
    using path_of_facts [of "[47, 66]"] by simp_all
  have xs: "creatable [(path_of [47, 65], [1, 2, 3]), (path_of [47, 66], [9])] []"
    using path_47_65 b by (simp add: creatable_def named_def)
  have atomic: "\<forall>b bs w w'. ref_inv w \<longrightarrow> ref_write 0 b bs w = Some (False, w') \<longrightarrow> ref_blocks w' = ref_blocks w"
    by (auto simp: ref_write_def Let_def)
  from power_loss_keeps_files [OF ref.block_device_axioms atomic w xs, of 0 0]
  obtain rs fs' w' ok fs2 w2 where
    "create_run ref_read ref_write [(path_of [47, 65], [1, 2, 3]), (path_of [47, 66], [9])] fs ?w = Some (rs, fs', w')"
    "mount ref_read 0 0 0 AbtrFS_init w' = Some (ok, fs2, w2)"
    "ok \<longrightarrow> fs_layout 0 204800 (ref_blocks w2) fs2 (named (take (done_of rs) [(path_of [47, 65], [1, 2, 3]), (path_of [47, 66], [9])]))"
    by auto
  moreover have "named (take k [(path_of [47, 65], [1, 2, 3]), (path_of [47, 66], [9])]) =
      take k [([47, 65], [1, 2, 3]), ([47, 66], [9])]" for k
    by (simp add: named_def take_map [symmetric] path_47_65(2) b(2))
  ultimately show ?thesis using w(2) by (intro exI [of _ fs] exI [of _ ?w]) auto
qed

end
