(* ===== verification/Nvme.thy ===== *)
theory Nvme
  imports Gaossd
begin

unbundle bit_operations_syntax

text \<open>
  The NVMe controller driver (\<^verbatim>\<open>include/AlopexOS/PCI/nvme/nvme.hpp\<close>, \<^verbatim>\<open>nvme_regs.hpp\<close>,
  \<^verbatim>\<open>src/PCI/nvme/nvme.cpp\<close>).

  The device and the memory it shares with the driver are a parameter: \<open>hw\<close> holds the loads and
  stores the driver makes (registers, queue entries, data), each over a state \<open>'h\<close> of which
  nothing is known here. Theory \<open>NvmeSpec\<close> states the laws of the queue protocol. The
  addresses of the driver's static objects and Limine's answer about the kernel's address are in
  a \<open>kernel_env\<close>. A polling loop that never sees its bit has the result \<open>None\<close>. Serial
  output is left out, except the text of \<^verbatim>\<open>decode_nvme_status\<close>.
\<close>

section \<open>Registers and queue entries\<close>

definition reg_cap :: u64 where "reg_cap = 0"
definition reg_cc :: u64 where "reg_cc = 20"
definition reg_csts :: u64 where "reg_csts = 28"
definition reg_aqa :: u64 where "reg_aqa = 36"
definition reg_asq :: u64 where "reg_asq = 40"
definition reg_acq :: u64 where "reg_acq = 48"

record SubmissionQueueEntry =
  cdw0 :: u32
  nsid :: u32
  sq_reserved0 :: u64
  mptr :: u64
  dptr0 :: u64
  dptr1 :: u64
  cdw10 :: u32
  cdw11 :: u32
  cdw12 :: u32
  cdw13 :: u32
  cdw14 :: u32
  cdw15 :: u32

record CompletionQueueEntry =
  cq_dw0 :: u32
  cq_reserved :: u32
  cq_sq_head :: u16
  cq_sq_id :: u16
  command_id :: u16
  cq_status :: u16

text \<open>\<^verbatim>\<open>__builtin_memset(&cmd, 0, sizeof cmd)\<close>.\<close>

definition zero_sqe :: SubmissionQueueEntry where
  "zero_sqe = \<lparr>cdw0 = 0, nsid = 0, sq_reserved0 = 0, mptr = 0, dptr0 = 0, dptr1 = 0,
     cdw10 = 0, cdw11 = 0, cdw12 = 0, cdw13 = 0, cdw14 = 0, cdw15 = 0\<rparr>"

record 'h hw =
  hw_read32 :: "u64 \<Rightarrow> 'h \<Rightarrow> u32 \<times> 'h"
  hw_read64 :: "u64 \<Rightarrow> 'h \<Rightarrow> u64 \<times> 'h"
  hw_write32 :: "u64 \<Rightarrow> u32 \<Rightarrow> 'h \<Rightarrow> 'h"
  hw_write64 :: "u64 \<Rightarrow> u64 \<Rightarrow> 'h \<Rightarrow> 'h"
  hw_put_sqe :: "u64 \<Rightarrow> SubmissionQueueEntry \<Rightarrow> 'h \<Rightarrow> 'h"
  hw_get_cqe :: "u64 \<Rightarrow> 'h \<Rightarrow> CompletionQueueEntry \<times> 'h"
  hw_put_bytes :: "u64 \<Rightarrow> bytes \<Rightarrow> 'h \<Rightarrow> 'h"
  hw_get_bytes :: "u64 \<Rightarrow> nat \<Rightarrow> 'h \<Rightarrow> bytes"

record kernel_env =
  exec_addr :: "(u64 \<times> u64) option"
  at_admin_sq :: u64
  at_admin_cq :: u64
  at_io_sq :: u64
  at_io_cq :: u64
  at_identify :: u64
  at_namespace :: u64
  at_attach :: u64

section \<open>The controller object\<close>

record Controller =
  m_regs :: u64
  m_hhdm_offset :: u64
  m_db_stride :: u32
  m_max_queue_entries :: u16
  m_sq_tail :: u16
  m_cq_head :: u16
  m_cq_phase :: u8
  m_io_sq_tail :: u16
  m_io_cq_head :: u16
  m_io_cq_phase :: u8
  m_initialized :: bool

definition Controller_init :: Controller where
  "Controller_init = \<lparr>m_regs = 0, m_hhdm_offset = 0, m_db_stride = 0, m_max_queue_entries = 0,
     m_sq_tail = 0, m_cq_head = 0, m_cq_phase = 1, m_io_sq_tail = 0, m_io_cq_head = 0,
     m_io_cq_phase = 1, m_initialized = False\<rparr>"

definition virt_to_phys :: "kernel_env \<Rightarrow> Controller \<Rightarrow> u64 \<Rightarrow> u64" where
  "virt_to_phys env c virt =
     (case exec_addr env of
        Some (k_virt, k_phys) \<Rightarrow>
          if k_virt \<le> virt then (virt - k_virt) + k_phys
          else if m_hhdm_offset c \<le> virt then virt - m_hhdm_offset c else virt
      | None \<Rightarrow> if m_hhdm_offset c \<le> virt then virt - m_hhdm_offset c else virt)"

definition check_status :: "u16 \<Rightarrow> bool" where
  "check_status status_field \<longleftrightarrow> (drop_bit 1 status_field) AND 0x7FFF = 0"

section \<open>Doorbells\<close>

definition sq_doorbell :: "Controller \<Rightarrow> u32 \<Rightarrow> u64" where
  "sq_doorbell c qid =
     (let stride_bytes = push_bit (unat (m_db_stride c)) 4 :: u32
      in m_regs c + 0x1000 + ucast ((2 * qid) * stride_bytes))"

definition cq_doorbell :: "Controller \<Rightarrow> u32 \<Rightarrow> u64" where
  "cq_doorbell c qid =
     m_regs c + 0x1000 + ucast ((2 * qid + 1) * (push_bit (unat (m_db_stride c)) 4 :: u32))"

definition ring_sq_doorbell :: "'h hw \<Rightarrow> Controller \<Rightarrow> u32 \<Rightarrow> u16 \<Rightarrow> 'h \<Rightarrow> 'h" where
  "ring_sq_doorbell hw c qid val h = hw_write32 hw (sq_doorbell c qid) (ucast val) h"

definition ring_cq_doorbell :: "'h hw \<Rightarrow> Controller \<Rightarrow> u32 \<Rightarrow> u16 \<Rightarrow> 'h \<Rightarrow> 'h" where
  "ring_cq_doorbell hw c qid val h = hw_write32 hw (cq_doorbell c qid) (ucast val) h"

section \<open>Submitting a command and waiting for it\<close>

text \<open>The polling loop every command ends with. The status is loaded once for its phase bit and, when that is the
  expected one, a second time for the result.\<close>

partial_function (option) poll_cq :: "'h hw \<Rightarrow> u64 \<Rightarrow> u8 \<Rightarrow> 'h \<Rightarrow> (u16 \<times> 'h) option" where
  "poll_cq hw a phase h =
    (case hw_get_cqe hw a h of (cqe, h1) \<Rightarrow>
       if ucast (cq_status cqe AND 1) = phase then (case hw_get_cqe hw a h1 of (cqe', h2) \<Rightarrow> Some (cq_status cqe', h2))
       else poll_cq hw a phase h1)"

definition next_phase :: "u16 \<Rightarrow> u8 \<Rightarrow> u8" where
  "next_phase head phase = (if head = 0 then phase XOR 1 else phase)"

text \<open>The admin queue pair: the code that surrounds the command in \<^verbatim>\<open>identify\<close>,
  \<^verbatim>\<open>identify_namespace\<close>, \<^verbatim>\<open>format_namespace\<close>, \<^verbatim>\<open>namespace_attach\<close> and
  \<^verbatim>\<open>create_io_queues\<close>.\<close>

definition admin_command ::
    "'h hw \<Rightarrow> kernel_env \<Rightarrow> (u16 \<Rightarrow> SubmissionQueueEntry) \<Rightarrow> Controller \<Rightarrow> 'h \<Rightarrow>
     (u16 \<times> Controller \<times> 'h) option" where
  "admin_command hw env mk c h = do {
     let cid = m_sq_tail c;
     let h1 = hw_put_sqe hw (at_admin_sq env + 64 * ucast (m_sq_tail c)) (mk cid) h;
     let c1 = c\<lparr>m_sq_tail := (m_sq_tail c + 1) mod 64\<rparr>;
     let h2 = ring_sq_doorbell hw c1 0 (m_sq_tail c1) h1;
     (status_field, h3) \<leftarrow> poll_cq hw (at_admin_cq env + 16 * ucast (m_cq_head c1)) (m_cq_phase c1) h2;
     let head = (m_cq_head c1 + 1) mod 64;
     let c2 = c1\<lparr>m_cq_head := head, m_cq_phase := next_phase head (m_cq_phase c1)\<rparr>;
     Some (status_field, c2, ring_cq_doorbell hw c2 0 head h3) }"

definition io_command ::
    "'h hw \<Rightarrow> kernel_env \<Rightarrow> (u16 \<Rightarrow> SubmissionQueueEntry) \<Rightarrow> Controller \<Rightarrow> 'h \<Rightarrow>
     (u16 \<times> Controller \<times> 'h) option" where
  "io_command hw env mk c h = do {
     let cid = m_io_sq_tail c;
     let h1 = hw_put_sqe hw (at_io_sq env + 64 * ucast (m_io_sq_tail c)) (mk cid) h;
     let c1 = c\<lparr>m_io_sq_tail := (m_io_sq_tail c + 1) mod 64\<rparr>;
     let h2 = ring_sq_doorbell hw c1 1 (m_io_sq_tail c1) h1;
     (status_field, h3) \<leftarrow> poll_cq hw (at_io_cq env + 16 * ucast (m_io_cq_head c1)) (m_io_cq_phase c1) h2;
     let head = (m_io_cq_head c1 + 1) mod 64;
     let c2 = c1\<lparr>m_io_cq_head := head, m_io_cq_phase := next_phase head (m_io_cq_phase c1)\<rparr>;
     Some (status_field, c2, ring_cq_doorbell hw c2 1 head h3) }"

section \<open>Admin commands\<close>

definition cmd_head :: "u32 \<Rightarrow> u16 \<Rightarrow> u32" where
  "cmd_head opc cid = opc OR push_bit 16 (ucast cid)"

definition identify :: "'h hw \<Rightarrow> kernel_env \<Rightarrow> Controller \<Rightarrow> 'h \<Rightarrow> (bool \<times> Controller \<times> 'h) option"
  where
  "identify hw env c h = do {
     (st, c', h') \<leftarrow> admin_command hw env (\<lambda>cid. zero_sqe\<lparr>cdw0 := cmd_head 0x06 cid,
       nsid := 0xFFFFFFFF, dptr0 := virt_to_phys env c (at_identify env), cdw10 := 1\<rparr>) c h;
     Some (check_status st, c', h') }"

definition identify_namespace ::
    "'h hw \<Rightarrow> kernel_env \<Rightarrow> Controller \<Rightarrow> 'h \<Rightarrow> (bool \<times> Controller \<times> 'h) option" where
  "identify_namespace hw env c h = do {
     (st, c', h') \<leftarrow> admin_command hw env (\<lambda>cid. zero_sqe\<lparr>cdw0 := cmd_head 0x06 cid,
       nsid := 1, dptr0 := virt_to_phys env c (at_namespace env), cdw10 := 0\<rparr>) c h;
     Some (check_status st, c', h') }"

definition format_namespace ::
    "'h hw \<Rightarrow> kernel_env \<Rightarrow> Controller \<Rightarrow> 'h \<Rightarrow> (bool \<times> Controller \<times> 'h) option" where
  "format_namespace hw env c h = do {
     (st, c', h') \<leftarrow> admin_command hw env
       (\<lambda>cid. zero_sqe\<lparr>cdw0 := cmd_head 0x80 cid, nsid := 1, cdw10 := 0\<rparr>) c h;
     Some (check_status st, c', h') }"

text \<open>The attach buffer: one controller in the list, controller id 0.\<close>

definition attach_list :: bytes where
  "attach_list = put16 1 @ put16 0 @ replicate 4092 0"

definition status_sct :: "u16 \<Rightarrow> u16" where "status_sct s = drop_bit 9 s AND 0x7"
definition status_sc :: "u16 \<Rightarrow> u16" where "status_sc s = drop_bit 1 s AND 0xFF"

definition namespace_attach ::
    "'h hw \<Rightarrow> kernel_env \<Rightarrow> Controller \<Rightarrow> 'h \<Rightarrow> (bool \<times> Controller \<times> 'h) option" where
  "namespace_attach hw env c h = do {
     let h1 = hw_put_bytes hw (at_attach env) attach_list h;
     (st, c', h') \<leftarrow> admin_command hw env (\<lambda>cid. zero_sqe\<lparr>cdw0 := cmd_head 0x15 cid,
       nsid := 1, dptr0 := virt_to_phys env c (at_attach env), cdw10 := 0\<rparr>) c h1;
     Some (if \<not> check_status st then status_sct st = 1 \<and> status_sc st = 0x18 else True, c', h') }"

definition create_io_queues ::
    "'h hw \<Rightarrow> kernel_env \<Rightarrow> Controller \<Rightarrow> 'h \<Rightarrow> (bool \<times> Controller \<times> 'h) option" where
  "create_io_queues hw env c h = do {
     (st1, c1, h1) \<leftarrow> admin_command hw env (\<lambda>cid. zero_sqe\<lparr>cdw0 := cmd_head 0x05 cid,
       dptr0 := virt_to_phys env c (at_io_cq env), cdw10 := push_bit 16 63 OR 1, cdw11 := 1\<rparr>) c h;
     if \<not> check_status st1 then Some (False, c1, h1)
     else do {
       (st2, c2, h2) \<leftarrow> admin_command hw env (\<lambda>cid. zero_sqe\<lparr>cdw0 := cmd_head 0x01 cid,
         dptr0 := virt_to_phys env c1 (at_io_sq env), cdw10 := push_bit 16 63 OR 1,
         cdw11 := push_bit 16 1 OR 1\<rparr>) c1 h1;
       Some (check_status st2, c2, h2) } }"

section \<open>Enabling, resetting, shutting down\<close>

text \<open>\<^verbatim>\<open>while (m_regs->csts & mask) pause\<close> and its negation.\<close>

partial_function (option) wait_clear :: "'h hw \<Rightarrow> u64 \<Rightarrow> u32 \<Rightarrow> 'h \<Rightarrow> 'h option" where
  "wait_clear hw a bits h =
    (case hw_read32 hw a h of (csts, h1) \<Rightarrow>
       if csts AND bits \<noteq> 0 then wait_clear hw a bits h1 else Some h1)"

partial_function (option) wait_set :: "'h hw \<Rightarrow> u64 \<Rightarrow> u32 \<Rightarrow> 'h \<Rightarrow> 'h option" where
  "wait_set hw a bits h =
    (case hw_read32 hw a h of (csts, h1) \<Rightarrow>
       if csts AND bits \<noteq> 0 then Some h1 else wait_set hw a bits h1)"

text \<open>The loop of \<^verbatim>\<open>enable\<close>: ready, or a fatal status in between.\<close>

partial_function (option) wait_ready :: "'h hw \<Rightarrow> u64 \<Rightarrow> 'h \<Rightarrow> (bool \<times> 'h) option" where
  "wait_ready hw a h =
    (case hw_read32 hw a h of (csts1, h1) \<Rightarrow>
       if csts1 AND 1 \<noteq> 0 then Some (True, h1)
       else (case hw_read32 hw a h1 of (csts2, h2) \<Rightarrow>
         if csts2 AND 2 \<noteq> 0 then Some (False, h2) else wait_ready hw a h2))"

definition enable_bits :: "u32 \<Rightarrow> u32" where
  "enable_bits cc =
     ((((((cc AND NOT (push_bit 4 0x7)) AND NOT (push_bit 16 0xF)) AND NOT (push_bit 20 0xF))
       OR push_bit 4 0) OR push_bit 16 6) OR push_bit 20 4) OR 1"

definition enable :: "'h hw \<Rightarrow> Controller \<Rightarrow> 'h \<Rightarrow> (bool \<times> 'h) option" where
  "enable hw c h =
     (case hw_read32 hw (m_regs c + reg_cc) h of (cc, h1) \<Rightarrow>
        wait_ready hw (m_regs c + reg_csts)
          (hw_write32 hw (m_regs c + reg_cc) (enable_bits cc) h1))"

text \<open>\<^verbatim>\<open>m_regs->cc &= ~0x1u\<close> and the wait for the controller to stop.\<close>

definition disable :: "'h hw \<Rightarrow> Controller \<Rightarrow> 'h \<Rightarrow> 'h option" where
  "disable hw c h =
     (case hw_read32 hw (m_regs c + reg_cc) h of (cc, h1) \<Rightarrow>
        wait_clear hw (m_regs c + reg_csts) 1
          (hw_write32 hw (m_regs c + reg_cc) (cc AND NOT 1) h1))"

definition reset_controller :: "'h hw \<Rightarrow> Controller \<Rightarrow> 'h \<Rightarrow> (bool \<times> 'h) option" where
  "reset_controller hw c h = disable hw c h \<bind> enable hw c"

definition shutdown :: "'h hw \<Rightarrow> Controller \<Rightarrow> 'h \<Rightarrow> (bool \<times> 'h) option" where
  "shutdown hw c h =
     (case hw_read32 hw (m_regs c + reg_cc) h of (cc, h1) \<Rightarrow>
        map_option (\<lambda>h2. (True, h2)) (wait_set hw (m_regs c + reg_csts) (push_bit 4 0x2)
          (hw_write32 hw (m_regs c + reg_cc) (cc OR push_bit 14 0x2) h1)))"

definition poll_io_completion :: "u16 \<Rightarrow> bool" where
  "poll_io_completion expected_cid = True"

section \<open>Initialisation\<close>

text \<open>The commands of \<^verbatim>\<open>init\<close> once the controller runs. The third one formats the namespace.\<close>

definition init_commands :: "'h hw \<Rightarrow> kernel_env \<Rightarrow> Controller \<Rightarrow> 'h \<Rightarrow> (bool \<times> Controller \<times> 'h) option"
  where
  "init_commands hw env c1 h1 = do {
     (ok, c2, h2) \<leftarrow> identify hw env c1 h1;
     if \<not> ok then Some (False, c2, h2) else do {
     (ok, c3, h3) \<leftarrow> identify_namespace hw env c2 h2;
     if \<not> ok then Some (False, c3, h3) else do {
     (ok, c4, h4) \<leftarrow> format_namespace hw env c3 h3;
     if \<not> ok then Some (False, c4, h4) else do {
     (ok, c5, h5) \<leftarrow> namespace_attach hw env c4 h4;
     if \<not> ok then Some (False, c5, h5) else do {
     (ok, c6, h6) \<leftarrow> create_io_queues hw env c5 h5;
     if \<not> ok then Some (False, c6, h6)
     else Some (True, c6\<lparr>m_initialized := True\<rparr>, h6) } } } } }"

definition init :: "'h hw \<Rightarrow> kernel_env \<Rightarrow> u64 \<Rightarrow> u64 \<Rightarrow> Controller \<Rightarrow> 'h \<Rightarrow>
    (bool \<times> Controller \<times> 'h) option" where
  "init hw env bar0 hhdm c h =
    (if m_initialized c then Some (True, c, h)
     else if bar0 = 0 then Some (False, c, h)
     else do {
       let c0 = c\<lparr>m_hhdm_offset := hhdm, m_regs := bar0 + hhdm\<rparr>;
       let (cap, h0) = hw_read64 hw (m_regs c0 + reg_cap) h;
       let c1 = c0\<lparr>m_max_queue_entries := ucast (cap AND 0xFFFF) + 1,
                   m_db_stride := ucast (drop_bit 32 cap AND 0xF)\<rparr>;
       let (cc, h1) = hw_read32 hw (m_regs c1 + reg_cc) h0;
       h2 \<leftarrow> (if cc AND 1 \<noteq> 0 then disable hw c1 h1 else Some h1);
       let h3 = hw_write32 hw (m_regs c1 + reg_aqa) (push_bit 16 63 OR 63) h2;
       let h4 = hw_write64 hw (m_regs c1 + reg_asq) (virt_to_phys env c1 (at_admin_sq env)) h3;
       let h5 = hw_write64 hw (m_regs c1 + reg_acq) (virt_to_phys env c1 (at_admin_cq env)) h4;
       (ok, h6) \<leftarrow> enable hw c1 h5;
       if \<not> ok then Some (False, c1, h6) else init_commands hw env c1 h6 })"

section \<open>Reading and writing\<close>

text \<open>The address put in the command: a virtual one is translated again.\<close>

definition io_address :: "kernel_env \<Rightarrow> Controller \<Rightarrow> u64 \<Rightarrow> u64" where
  "io_address env c phys = (if m_hhdm_offset c < phys then virt_to_phys env c phys else phys)"

definition rw_entry :: "u32 \<Rightarrow> u64 \<Rightarrow> u64 \<Rightarrow> u32 \<Rightarrow> u16 \<Rightarrow> SubmissionQueueEntry" where
  "rw_entry opc phys first count cid = zero_sqe\<lparr>cdw0 := cmd_head opc cid, nsid := 1,
     dptr0 := phys, cdw10 := ucast (first AND 0xFFFFFFFF),
     cdw11 := ucast (drop_bit 32 first AND 0xFFFFFFFF), cdw12 := (count - 1) AND 0xFFFF\<rparr>"

definition nvme_read :: "'h hw \<Rightarrow> kernel_env \<Rightarrow> u64 \<Rightarrow> u64 \<Rightarrow> u32 \<Rightarrow> Controller \<Rightarrow> 'h \<Rightarrow>
    (errorCode \<times> Controller \<times> 'h) option" where
  "nvme_read hw env dest first count c h = do {
     (st, c', h') \<leftarrow> io_command hw env (rw_entry 0x02 (io_address env c dest) first count) c h;
     Some (if check_status st then Success else Generic_Error, c', h') }"

definition nvme_write :: "'h hw \<Rightarrow> kernel_env \<Rightarrow> u64 \<Rightarrow> u64 \<Rightarrow> u32 \<Rightarrow> Controller \<Rightarrow> 'h \<Rightarrow>
    (errorCode \<times> Controller \<times> 'h) option" where
  "nvme_write hw env src first count c h = do {
     (st, c', h') \<leftarrow> io_command hw env (rw_entry 0x01 (io_address env c src) first count) c h;
     Some (if check_status st then Success else Generic_Error, c', h') }"

end
