(* ===== verification/NvmeSpec.thy ===== *)
theory NvmeSpec
  imports Nvme
begin

text \<open>
  The queue protocol. The locale \<open>nvme_device\<close> states what an NVMe controller does with a queue
  pair of 64 entries: a command stored in the slot of the old tail and announced by the doorbell
  is completed by an entry in the next completion slot, whose phase bit flips each time the ring
  wraps. In it the driver's \<open>admin_command\<close> and \<open>io_command\<close> are proved to keep step
  with the device for any number of commands.
\<close>

section \<open>Polling\<close>

inductive polled :: "'h hw \<Rightarrow> u64 \<Rightarrow> bool \<Rightarrow> 'h \<Rightarrow> u16 \<Rightarrow> 'h \<Rightarrow> bool"
  for hw :: "'h hw" and a :: u64 and ph :: bool
where
  ready: "hw_get_cqe hw a h = (cqe, h1) \<Longrightarrow> bit (cq_status cqe) 0 = ph \<Longrightarrow>
    hw_get_cqe hw a h1 = (cqe', h2) \<Longrightarrow> polled hw a ph h (cq_status cqe') h2"
| wait: "hw_get_cqe hw a h = (cqe, h1) \<Longrightarrow> bit (cq_status cqe) 0 \<noteq> ph \<Longrightarrow>
    polled hw a ph h1 st h' \<Longrightarrow> polled hw a ph h st h'"

definition phase_bit :: "bool \<Rightarrow> u8" where "phase_bit ph = (if ph then 1 else 0)"

lemma phase_match: "ucast (s AND 1 :: u16) = phase_bit ph \<longleftrightarrow> bit s 0 = ph"
  by (cases "bit s 0") (auto simp: phase_bit_def and_one_eq bit_0 mod_2_eq_odd)

lemma poll_cq_polled:
  "polled hw a ph h st h' \<Longrightarrow> poll_cq hw a (phase_bit ph) h = Some (st, h')"
proof (induction rule: polled.induct)
  case (ready h cqe h1 cqe' h2)
  then show ?case by (subst poll_cq.simps) (simp add: phase_match)
next
  case (wait h cqe h1 st h')
  then show ?case by (subst poll_cq.simps) (simp add: phase_match)
qed

lemma next_phase_bit:
  "next_phase head (phase_bit ph) = phase_bit (if head = 0 then \<not> ph else ph)"
  by (simp add: next_phase_def phase_bit_def)

section \<open>Rings\<close>

lemma unat_ring_next:
  fixes t :: u16
  assumes "unat t < 64"
  shows "unat ((t + 1) mod 64) = (unat t + 1) mod 64" "unat ((t + 1) mod 64) < 64"
proof -
  have "unat (t + 1) = unat t + 1"
    using assms by (simp add: unat_word_ariths)
  then show "unat ((t + 1) mod 64) = (unat t + 1) mod 64" by (simp add: unat_mod)
  then show "unat ((t + 1) mod 64) < 64" by simp
qed

lemma ring_next_zero:
  fixes t :: u16
  assumes "unat t < 64"
  shows "(t + 1) mod 64 = 0 \<longleftrightarrow> unat t = 63"
proof -
  have "(t + 1) mod 64 = 0 \<longleftrightarrow> (unat t + 1) mod 64 = 0"
    using unat_ring_next(1) [OF assms] by (metis unat_0 unat_eq_0)
  then show ?thesis using assms by (cases "unat t = 63") auto
qed

text \<open>The doorbell addresses of the specification: pairs of registers, \<open>4 * 2^stride\<close> bytes
  apart, from offset \<open>0x1000\<close> on.\<close>

definition doorbell_at :: "u64 \<Rightarrow> nat \<Rightarrow> nat \<Rightarrow> u64" where
  "doorbell_at regs stride k = regs + 0x1000 + of_nat (k * (4 * 2 ^ stride))"

definition sq_base :: "kernel_env \<Rightarrow> nat \<Rightarrow> u64" where
  "sq_base env q = (if q = 0 then at_admin_sq env else at_io_sq env)"

definition cq_base :: "kernel_env \<Rightarrow> nat \<Rightarrow> u64" where
  "cq_base env q = (if q = 0 then at_admin_cq env else at_io_cq env)"

lemma stride_bytes:
  assumes "s < 16" and "k < 4"
  shows "(ucast (of_nat k * push_bit s 4 :: u32) :: u64) = of_nat (k * (4 * 2 ^ s))"
proof -
  have "(2 :: nat) ^ s \<le> 2 ^ 15" using assms by (intro power_increasing) auto
  then have "k * (4 * 2 ^ s) \<le> 3 * (4 * 2 ^ 15)"
    using assms by (intro mult_le_mono) auto
  then have "k * (4 * 2 ^ s) < 2 ^ 32" by simp
  moreover have "of_nat k * push_bit s 4 = (of_nat (k * (4 * 2 ^ s)) :: u32)"
    by (simp add: push_bit_eq_mult)
  moreover have "(ucast (of_nat m :: u32) :: u64) = of_nat m" if "m < 2 ^ 32" for m
    using that by (simp add: word_unat_eq_iff unsigned_ucast_eq take_bit_nat_eq_self unat_of_nat)
  ultimately show ?thesis by (simp only:)
qed

section \<open>The device\<close>

locale nvme_device =
  fixes hw :: "'h hw" and env :: kernel_env and regs :: u64 and stride :: nat
    and idle :: "nat \<Rightarrow> nat \<Rightarrow> nat \<Rightarrow> bool \<Rightarrow> 'h \<Rightarrow> bool"
    and executed :: "nat \<Rightarrow> SubmissionQueueEntry \<Rightarrow> u16 \<Rightarrow> 'h \<Rightarrow> 'h \<Rightarrow> bool"
  assumes stride: "stride < 16"
    and idle_range: "idle q t c ph h \<Longrightarrow> q < 2 \<and> t < 64 \<and> c < 64"
    and queue_law: "idle q t c ph h \<Longrightarrow>
      \<exists>st h1. polled hw (cq_base env q + 16 * of_nat c) ph
          (hw_write32 hw (doorbell_at regs stride (2 * q)) (of_nat ((t + 1) mod 64))
            (hw_put_sqe hw (sq_base env q + 64 * of_nat t) cmd h)) st h1 \<and>
        (let h2 = hw_write32 hw (doorbell_at regs stride (2 * q + 1)) (of_nat ((c + 1) mod 64)) h1
         in idle q ((t + 1) mod 64) ((c + 1) mod 64) (if c = 63 then \<not> ph else ph) h2 \<and>
            (\<forall>q' t' c' ph'. q' \<noteq> q \<and> idle q' t' c' ph' h \<longrightarrow> idle q' t' c' ph' h2) \<and>
            executed q cmd st h h2)"
begin

text \<open>Driver and device agree on the admin queue pair, and on the I/O queue pair.\<close>

definition admin_sync :: "Controller \<Rightarrow> 'h \<Rightarrow> bool" where
  "admin_sync c h \<longleftrightarrow> m_regs c = regs \<and> m_db_stride c = of_nat stride \<and>
     (\<exists>ph. m_cq_phase c = phase_bit ph \<and> idle 0 (unat (m_sq_tail c)) (unat (m_cq_head c)) ph h)"

definition io_sync :: "Controller \<Rightarrow> 'h \<Rightarrow> bool" where
  "io_sync c h \<longleftrightarrow> m_regs c = regs \<and> m_db_stride c = of_nat stride \<and>
     (\<exists>ph. m_io_cq_phase c = phase_bit ph \<and>
        idle 1 (unat (m_io_sq_tail c)) (unat (m_io_cq_head c)) ph h)"

lemma doorbells:
  assumes "m_regs c = regs" and "m_db_stride c = of_nat stride" and "q < 2"
  shows "sq_doorbell c (of_nat q) = doorbell_at regs stride (2 * q)"
    and "cq_doorbell c (of_nat q) = doorbell_at regs stride (2 * q + 1)"
proof -
  have s: "unat (of_nat stride :: u32) = stride" using stride by (simp add: unat_of_nat)
  show "sq_doorbell c (of_nat q) = doorbell_at regs stride (2 * q)"
    using stride_bytes [OF stride, of "2 * q"] assms
    by (simp add: sq_doorbell_def doorbell_at_def Let_def s)
  show "cq_doorbell c (of_nat q) = doorbell_at regs stride (2 * q + 1)"
    using stride_bytes [OF stride, of "2 * q + 1"] assms
    by (simp add: cq_doorbell_def doorbell_at_def s add.commute)
qed

lemma slot_address: "(64 * ucast (t :: u16) :: u64) = 64 * of_nat (unat t)"
    "(16 * ucast (t :: u16) :: u64) = 16 * of_nat (unat t)"
    "(ucast ((t + 1) mod 64) :: u32) = of_nat (unat ((t + 1) mod 64))"
  by simp_all

text \<open>One exchange on a queue pair, as the driver makes it.\<close>

lemma exchange:
  fixes t head :: u16
  assumes i: "idle q (unat t) (unat head) ph h"
  obtains st h1 h2 ph' where
    "poll_cq hw (cq_base env q + 16 * ucast head) (phase_bit ph)
       (hw_write32 hw (doorbell_at regs stride (2 * q)) (ucast ((t + 1) mod 64))
         (hw_put_sqe hw (sq_base env q + 64 * ucast (t :: u16)) cmd h)) = Some (st, h1)"
    "h2 = hw_write32 hw (doorbell_at regs stride (2 * q + 1)) (ucast ((head + 1) mod 64)) h1"
    "next_phase ((head + 1) mod 64) (phase_bit ph) = phase_bit ph'"
    "idle q (unat ((t + 1) mod 64)) (unat ((head + 1) mod 64)) ph' h2"
    "\<forall>q' t' c' ph'. q' \<noteq> q \<and> idle q' t' c' ph' h \<longrightarrow> idle q' t' c' ph' h2"
    "executed q cmd st h h2"
proof -
  have r: "unat t < 64" "unat head < 64" using idle_range [OF i] by auto
  note t = unat_ring_next [OF r(1)] and c = unat_ring_next [OF r(2)]
  obtain st h1 where q: "polled hw (cq_base env q + 16 * of_nat (unat head)) ph
        (hw_write32 hw (doorbell_at regs stride (2 * q)) (of_nat ((unat t + 1) mod 64))
          (hw_put_sqe hw (sq_base env q + 64 * of_nat (unat t)) cmd h)) st h1"
      "let h2 = hw_write32 hw (doorbell_at regs stride (2 * q + 1)) (of_nat ((unat head + 1) mod 64)) h1
       in idle q ((unat t + 1) mod 64) ((unat head + 1) mod 64) (if unat head = 63 then \<not> ph else ph) h2 \<and>
          (\<forall>q' t' c' ph'. q' \<noteq> q \<and> idle q' t' c' ph' h \<longrightarrow> idle q' t' c' ph' h2) \<and>
          executed q cmd st h h2"
    using queue_law [OF i, of cmd] by blast
  define h2 where
    "h2 = hw_write32 hw (doorbell_at regs stride (2 * q + 1)) (of_nat ((unat head + 1) mod 64)) h1"
  note q2 = q(2) [folded h2_def, unfolded Let_def]
  show ?thesis
  proof (rule that)
    show "poll_cq hw (cq_base env q + 16 * ucast head) (phase_bit ph)
       (hw_write32 hw (doorbell_at regs stride (2 * q)) (ucast ((t + 1) mod 64))
         (hw_put_sqe hw (sq_base env q + 64 * ucast t) cmd h)) = Some (st, h1)"
      using poll_cq_polled [OF q(1)] by (simp only: slot_address t)
    show "h2 = hw_write32 hw (doorbell_at regs stride (2 * q + 1)) (ucast ((head + 1) mod 64)) h1"
      by (simp only: h2_def slot_address c)
    show "next_phase ((head + 1) mod 64) (phase_bit ph)
        = phase_bit (if unat head = 63 then \<not> ph else ph)"
      by (simp add: next_phase_bit ring_next_zero [OF r(2)])
    show "idle q (unat ((t + 1) mod 64)) (unat ((head + 1) mod 64)) (if unat head = 63 then \<not> ph else ph) h2"
      using q2 by (simp only: t c)
  qed (use q2 in blast)+
qed

text \<open>One command on either pair: it returns the status the device gave it, and leaves the two in
  step. The other pair is not disturbed.\<close>

lemma admin_command_sync:
  assumes "admin_sync c h"
  shows "\<exists>st c' h'. admin_command hw env mk c h = Some (st, c', h') \<and> admin_sync c' h' \<and>
    executed 0 (mk (m_sq_tail c)) st h h' \<and>
    c' = c\<lparr>m_sq_tail := (m_sq_tail c + 1) mod 64, m_cq_head := (m_cq_head c + 1) mod 64,
           m_cq_phase := next_phase ((m_cq_head c + 1) mod 64) (m_cq_phase c)\<rparr> \<and>
    (io_sync c h \<longrightarrow> io_sync c' h')"
proof -
  obtain ph where s: "m_regs c = regs" "m_db_stride c = of_nat stride"
      "m_cq_phase c = phase_bit ph" "idle 0 (unat (m_sq_tail c)) (unat (m_cq_head c)) ph h"
    using assms by (auto simp: admin_sync_def)
  have d: "sq_doorbell (c\<lparr>m_sq_tail := x\<rparr>) 0 = doorbell_at regs stride (2 * 0)"
      "cq_doorbell (c\<lparr>m_sq_tail := x, m_cq_head := y, m_cq_phase := z\<rparr>) 0
       = doorbell_at regs stride (2 * 0 + 1)" for x y z
    using doorbells [of "c\<lparr>m_sq_tail := x\<rparr>" 0]
      doorbells [of "c\<lparr>m_sq_tail := x, m_cq_head := y, m_cq_phase := z\<rparr>" 0] s(1,2) by auto
  obtain st h1 h2 ph' where e:
    "poll_cq hw (cq_base env 0 + 16 * ucast (m_cq_head c)) (phase_bit ph)
       (hw_write32 hw (doorbell_at regs stride (2 * 0)) (ucast ((m_sq_tail c + 1) mod 64))
         (hw_put_sqe hw (sq_base env 0 + 64 * ucast (m_sq_tail c)) (mk (m_sq_tail c)) h))
     = Some (st, h1)"
    "h2 = hw_write32 hw (doorbell_at regs stride (2 * 0 + 1)) (ucast ((m_cq_head c + 1) mod 64)) h1"
    "next_phase ((m_cq_head c + 1) mod 64) (phase_bit ph) = phase_bit ph'"
    "idle 0 (unat ((m_sq_tail c + 1) mod 64)) (unat ((m_cq_head c + 1) mod 64)) ph' h2"
    "\<forall>q' t' c' ph'. q' \<noteq> 0 \<and> idle q' t' c' ph' h \<longrightarrow> idle q' t' c' ph' h2"
    "executed 0 (mk (m_sq_tail c)) st h h2"
    by (rule exchange [OF s(4), of "mk (m_sq_tail c)"])
  let ?c' = "c\<lparr>m_sq_tail := (m_sq_tail c + 1) mod 64, m_cq_head := (m_cq_head c + 1) mod 64,
           m_cq_phase := next_phase ((m_cq_head c + 1) mod 64) (m_cq_phase c)\<rparr>"
  have "admin_command hw env mk c h = Some (st, ?c', h2)"
    using e(1,2) s(3) by (simp add: admin_command_def ring_sq_doorbell_def ring_cq_doorbell_def
        d sq_base_def cq_base_def Let_def)
  moreover have "admin_sync ?c' h2"
    using s(1-3) e(3,4) by (auto simp: admin_sync_def)
  moreover have "io_sync c h \<longrightarrow> io_sync ?c' h2"
    using e(5) by (auto simp: io_sync_def)
  ultimately show ?thesis using e(6) by blast
qed

lemma io_command_sync:
  assumes "io_sync c h"
  shows "\<exists>st c' h'. io_command hw env mk c h = Some (st, c', h') \<and> io_sync c' h' \<and>
    executed 1 (mk (m_io_sq_tail c)) st h h' \<and>
    c' = c\<lparr>m_io_sq_tail := (m_io_sq_tail c + 1) mod 64, m_io_cq_head := (m_io_cq_head c + 1) mod 64,
           m_io_cq_phase := next_phase ((m_io_cq_head c + 1) mod 64) (m_io_cq_phase c)\<rparr> \<and>
    (admin_sync c h \<longrightarrow> admin_sync c' h')"
proof -
  obtain ph where s: "m_regs c = regs" "m_db_stride c = of_nat stride"
      "m_io_cq_phase c = phase_bit ph" "idle 1 (unat (m_io_sq_tail c)) (unat (m_io_cq_head c)) ph h"
    using assms by (auto simp: io_sync_def)
  have d: "sq_doorbell (c\<lparr>m_io_sq_tail := x\<rparr>) 1 = doorbell_at regs stride (2 * 1)"
      "cq_doorbell (c\<lparr>m_io_sq_tail := x, m_io_cq_head := y, m_io_cq_phase := z\<rparr>) 1
       = doorbell_at regs stride (2 * 1 + 1)" for x y z
    using doorbells [of "c\<lparr>m_io_sq_tail := x\<rparr>" 1]
      doorbells [of "c\<lparr>m_io_sq_tail := x, m_io_cq_head := y, m_io_cq_phase := z\<rparr>" 1] s(1,2) by auto
  obtain st h1 h2 ph' where e:
    "poll_cq hw (cq_base env 1 + 16 * ucast (m_io_cq_head c)) (phase_bit ph)
       (hw_write32 hw (doorbell_at regs stride (2 * 1)) (ucast ((m_io_sq_tail c + 1) mod 64))
         (hw_put_sqe hw (sq_base env 1 + 64 * ucast (m_io_sq_tail c)) (mk (m_io_sq_tail c)) h))
     = Some (st, h1)"
    "h2 = hw_write32 hw (doorbell_at regs stride (2 * 1 + 1)) (ucast ((m_io_cq_head c + 1) mod 64)) h1"
    "next_phase ((m_io_cq_head c + 1) mod 64) (phase_bit ph) = phase_bit ph'"
    "idle 1 (unat ((m_io_sq_tail c + 1) mod 64)) (unat ((m_io_cq_head c + 1) mod 64)) ph' h2"
    "\<forall>q' t' c' ph'. q' \<noteq> 1 \<and> idle q' t' c' ph' h \<longrightarrow> idle q' t' c' ph' h2"
    "executed 1 (mk (m_io_sq_tail c)) st h h2"
    by (rule exchange [OF s(4), of "mk (m_io_sq_tail c)"])
  let ?c' = "c\<lparr>m_io_sq_tail := (m_io_sq_tail c + 1) mod 64,
           m_io_cq_head := (m_io_cq_head c + 1) mod 64,
           m_io_cq_phase := next_phase ((m_io_cq_head c + 1) mod 64) (m_io_cq_phase c)\<rparr>"
  have "io_command hw env mk c h = Some (st, ?c', h2)"
    using e(1,2) s(3) by (simp add: io_command_def ring_sq_doorbell_def ring_cq_doorbell_def
        d sq_base_def cq_base_def Let_def)
  moreover have "io_sync ?c' h2"
    using s(1-3) e(3,4) by (auto simp: io_sync_def)
  moreover have "admin_sync c h \<longrightarrow> admin_sync ?c' h2"
    using e(5) by (auto simp: admin_sync_def)
  ultimately show ?thesis using e(6) by blast
qed

end

end
