(* ===== verification/GaossdNvme.thy ===== *)
theory GaossdNvme
  imports NvmeSpec
begin

text \<open>
  The constructor of the storage driver and the handlers it registers for the NVMe controller
  (\<^verbatim>\<open>src/gaossd/gaossd.cpp\<close>). The handlers run on the controller object and the hardware, the
  pair \<open>'h world\<close>. Whether PCIe is active and where it found the controller's registers
  are arguments of the constructor.
\<close>

type_synonym 'h world = "Controller \<times> 'h"

text \<open>\<^verbatim>\<open>ctrl.identify() && ctrl.identify_namespace()\<close>: the second only after the first.\<close>

definition identify_both :: "'h hw \<Rightarrow> kernel_env \<Rightarrow> 'h world \<Rightarrow> (bool \<times> 'h world) option" where
  "identify_both hw env w = (case w of (c, h) \<Rightarrow> do {
     (ok, c1, h1) \<leftarrow> identify hw env c h;
     if \<not> ok then Some (False, c1, h1)
     else do { (ok2, c2, h2) \<leftarrow> identify_namespace hw env c1 h1; Some (ok2, c2, h2) } })"

definition nvme_submit_thunk ::
    "'h hw \<Rightarrow> kernel_env \<Rightarrow> request \<Rightarrow> 'h world \<Rightarrow> (errorCode \<times> 'h world) option" where
  "nvme_submit_thunk hw env req w = (case w of (c, h) \<Rightarrow>
     (case OpCode req of
        Op_Read \<Rightarrow> map_option (\<lambda>(e, c', h'). (e, c', h'))
          (nvme_read hw env (PhysAddr req) (lba req) (req_count req) c h)
      | Op_Write \<Rightarrow> map_option (\<lambda>(e, c', h'). (e, c', h'))
          (nvme_write hw env (PhysAddr req) (lba req) (req_count req) c h)
      | Op_Identify \<Rightarrow> map_option (\<lambda>(ok, w'). (if ok then Success else Generic_Error, w'))
          (identify_both hw env (c, h))
      | Op_Format \<Rightarrow> map_option (\<lambda>(ok, c', h'). (if ok then Success else Generic_Error, c', h'))
          (format_namespace hw env c h)
      | _ \<Rightarrow> Some (InvalidParameters, c, h)))"

definition nvme_process_thunk :: "'h world \<Rightarrow> (errorCode \<times> 'h world) option" where
  "nvme_process_thunk w = Some (Success, w)"

section \<open>The device name\<close>

definition is_blank :: "u8 \<Rightarrow> bool" where
  "is_blank b \<longleftrightarrow> b = of_char CHR '' '' \<or> b = 9 \<or> b = 13 \<or> b = 10"

text \<open>The loop from the last copied character down: blanks become terminators until another
  character is met.\<close>

fun trim_loop :: "nat \<Rightarrow> bytes \<Rightarrow> bytes" where
  "trim_loop 0 nm = nm"
| "trim_loop (Suc i) nm = (if is_blank (nm ! i) then trim_loop i (nm[i := 0]) else nm)"

definition device_name :: "bytes \<Rightarrow> bytes" where
  "device_name mn =
     (let copy_len = (if 64 \<le> length mn then 63 else length mn);
          nm = take copy_len mn @ drop copy_len (replicate 64 0)
      in trim_loop copy_len (nm[copy_len := 0]))"

section \<open>The constructor\<close>

text \<open>\<^verbatim>\<open>info.mn\<close>: 40 bytes at offset 24 of the identify data.\<close>

definition model_number :: "'h hw \<Rightarrow> kernel_env \<Rightarrow> 'h \<Rightarrow> bytes" where
  "model_number hw env h = take 40 (hw_get_bytes hw (at_identify env + 24) 40 h)"

definition empty_gaossd :: "'w gaossd" where
  "empty_gaossd = \<lparr>storageDevices = [], queue = []\<rparr>"

definition nvme_storage :: "'h hw \<Rightarrow> kernel_env \<Rightarrow> bytes \<Rightarrow> 'h world PhysicalStorage" where
  "nvme_storage hw env mn = default_PhysicalStorage\<lparr>submit_fn := Some (nvme_submit_thunk hw env),
     process_fn := Some nvme_process_thunk, dev_name := device_name mn\<rparr>"

definition gaossd_ctor ::
    "'h hw \<Rightarrow> kernel_env \<Rightarrow> u64 option \<Rightarrow> bool \<Rightarrow> u64 \<Rightarrow> 'h world \<Rightarrow>
     ('h world gaossd \<times> 'h world) option" where
  "gaossd_ctor hw env hhdm_response pcie_active nvme_bar0 w =
    (let hhdm_offset = (case hhdm_response of None \<Rightarrow> 0 | Some off \<Rightarrow> off) in
     if pcie_active \<and> nvme_bar0 \<noteq> 0 then (case w of (c, h) \<Rightarrow> do {
       (ok, c1, h1) \<leftarrow> init hw env nvme_bar0 hhdm_offset c h;
       Some (if ok then snd (snd (register_device empty_gaossd
                               (nvme_storage hw env (model_number hw env h1))))
             else empty_gaossd, c1, h1) })
     else Some (empty_gaossd, w))"

lemma nvme_storage_simps [simp]:
  "submit_fn (nvme_storage hw env mn) = Some (nvme_submit_thunk hw env)"
  "process_fn (nvme_storage hw env mn) = Some nvme_process_thunk"
  by (simp_all add: nvme_storage_def)

text \<open>The name the driver shows: the model number without the blanks at its end, in an array that
  always holds a terminator.\<close>

lemma trim_loop_eq:
  "length nm = 64 \<Longrightarrow> i \<le> 63 \<Longrightarrow>
     trim_loop i nm = (let s = takeWhile is_blank (rev (take i nm)); k = i - length s
                       in take k nm @ replicate (length s) 0 @ drop i nm)"
proof (induction i nm rule: trim_loop.induct)
  case (2 i nm)
  have t: "rev (take (Suc i) nm) = nm ! i # rev (take i nm)"
    using 2(2,3) by (simp add: take_Suc_conv_app_nth)
  show ?case
  proof (cases "is_blank (nm ! i)")
    case True
    have "trim_loop i (nm[i := 0]) =
        (let s = takeWhile is_blank (rev (take i nm)); k = i - length s
         in take k nm @ replicate (length s) 0 @ drop i (nm[i := 0]))"
      using 2 True by (simp add: Let_def)
    moreover have "drop i (nm[i := 0]) = 0 # drop (Suc i) nm"
      using 2(2,3) by (simp add: Cons_nth_drop_Suc [symmetric])
    ultimately show ?thesis
      using True by (simp add: t Let_def replicate_append_same [symmetric])
  next
    case False
    then show ?thesis using 2(2,3) by (simp add: t Let_def id_take_nth_drop [symmetric])
  qed
qed simp

lemma device_name_layout:
  assumes "length mn = 40"
  shows "device_name mn = rev (dropWhile is_blank (rev mn)) @ 0 # replicate (63 - length (dropWhile is_blank (rev mn))) 0"
    and "length (dropWhile is_blank (rev mn)) \<le> 40"
proof -
  let ?s = "takeWhile is_blank (rev mn)" and ?t = "rev (dropWhile is_blank (rev mn))"
  let ?nm = "mn @ replicate 24 (0 :: u8)"
  have "(replicate 24 (0 :: u8))[0 := 0] = replicate 24 0" by (simp add: numeral_eq_Suc)
  then have nm: "device_name mn = trim_loop 40 ?nm"
    using assms by (simp add: device_name_def Let_def list_update_append)
  have len: "length ?t + length ?s = 40"
    using assms takeWhile_dropWhile_id [of is_blank "rev mn"]
    by (metis add.commute length_append length_rev)
  have "mn = ?t @ rev ?s"
    by (metis rev_append rev_rev_ident takeWhile_dropWhile_id)
  then have take: "take (40 - length ?s) mn = ?t"
    using len by (metis add_diff_cancel_right' append_eq_conv_conj)
  have eq: "device_name mn = ?t @ replicate (length ?s) 0 @ replicate 24 0"
    using trim_loop_eq [of ?nm 40] assms take by (simp add: nm Let_def)
  have "63 - length ?t = length ?s + 23" using len by linarith
  then show "device_name mn = ?t @ 0 # replicate (63 - length (dropWhile is_blank (rev mn))) 0"
    unfolding eq by (simp add: replicate_add [symmetric] del: replicate_Suc flip: replicate_Suc)
  show "length (dropWhile is_blank (rev mn)) \<le> 40" using len by simp
qed

lemma device_name_text:
  assumes "length mn = 40" and "0 \<notin> set mn"
  shows "cstr (device_name mn) = rev (dropWhile is_blank (rev mn))"
proof -
  have "0 \<notin> set (rev (dropWhile is_blank (rev mn)))" using assms(2) by (metis set_dropWhileD set_rev)
  then show ?thesis unfolding device_name_layout(1) [OF assms(1)] by (rule cstr_terminated)
qed

text \<open>The device name is the model number without its trailing blanks: for a model number of
  40 characters the constructor fills the 64-byte name with the text up to its last character that
  is not a blank, a terminator, and nothing else.\<close>

theorem device_name_trimmed:
  assumes "length mn = 40" and "0 \<notin> set mn"
  shows "length (device_name mn) = 64 \<and>
    cstr (device_name mn) = rev (dropWhile is_blank (rev mn)) \<and>
    device_name mn = cstr (device_name mn) @ replicate (64 - length (cstr (device_name mn))) 0"
  using device_name_layout [OF assms(1)] device_name_text [OF assms]
  by (simp add: Suc_diff_le flip: replicate_Suc)

theorem device_name_trimmed_witness:
  "cstr (device_name (replicate 4 81 @ replicate 36 32)) = replicate 4 81"
proof -
  let ?mn = "replicate 4 81 @ replicate 36 32 :: bytes"
  have "is_blank 32" "\<not> is_blank 81" by (simp_all add: is_blank_def)
  then have "dropWhile is_blank (rev ?mn) = replicate 4 81"
    using dropWhile_append2 [of "replicate 36 32" is_blank "replicate 4 81"]
    by (simp add: dropWhile_eq_self_iff)
  then show ?thesis using device_name_trimmed [of ?mn] by simp
qed

section \<open>The handlers return\<close>

text \<open>With both queue pairs in step the handlers return for every request, and leave the pairs in step.\<close>

context nvme_device
begin

definition in_step :: "'h world \<Rightarrow> bool" where
  "in_step w \<longleftrightarrow> (case w of (c, h) \<Rightarrow> admin_sync c h \<and> io_sync c h)"

lemma admin_in_step:
  assumes "in_step (c, h)"
  shows "\<exists>st c' h'. admin_command hw env mk c h = Some (st, c', h') \<and> in_step (c', h')"
  using admin_command_sync [of c h mk] assms by (auto simp: in_step_def)

lemma io_in_step:
  assumes "in_step (c, h)"
  shows "\<exists>st c' h'. io_command hw env mk c h = Some (st, c', h') \<and> in_step (c', h')"
  using io_command_sync [of c h mk] assms by (auto simp: in_step_def)

lemma then_status:
  assumes "\<exists>st c' h'. m = Some (st, c', h') \<and> P (c', h')"
  shows "\<exists>r c' h'. (m \<bind> (\<lambda>(st, c', h'). Some (f st, c', h'))) = Some (r, c', h') \<and> P (c', h')"
  using assms by auto

lemma identify_in_step:
  assumes "in_step (c, h)"
  shows "\<exists>ok c' h'. identify hw env c h = Some (ok, c', h') \<and> in_step (c', h')"
    and "\<exists>ok c' h'. identify_namespace hw env c h = Some (ok, c', h') \<and> in_step (c', h')"
    and "\<exists>ok c' h'. format_namespace hw env c h = Some (ok, c', h') \<and> in_step (c', h')"
  unfolding identify_def identify_namespace_def format_namespace_def by (rule then_status, rule admin_in_step [OF assms])+

lemma submit_in_step:
  assumes "in_step w"
  shows "\<exists>e w'. nvme_submit_thunk hw env req w = Some (e, w') \<and> in_step w'"
proof -
  obtain c h where w: "w = (c, h)" by (cases w)
  have s: "in_step (c, h)" using assms w by simp
  have rw: "\<exists>e c' h'. nvme_read hw env a b n c h = Some (e, c', h') \<and> in_step (c', h')"
    "\<exists>e c' h'. nvme_write hw env a b n c h = Some (e, c', h') \<and> in_step (c', h')" for a b n
    unfolding nvme_read_def nvme_write_def by (rule then_status, rule io_in_step [OF s])+
  obtain ok c1 h1 where i: "identify hw env c h = Some (ok, c1, h1)" "in_step (c1, h1)"
    using identify_in_step(1) [OF s] by blast
  have both: "\<exists>ok w'. identify_both hw env (c, h) = Some (ok, w') \<and> in_step w'"
    using i identify_in_step(2) [OF i(2)] by (cases ok) (auto simp: identify_both_def)
  have fmt: "\<exists>ok c' h'. format_namespace hw env c h = Some (ok, c', h') \<and> in_step (c', h')"
    by (rule identify_in_step(3) [OF s])
  show ?thesis
  proof (cases "OpCode req")
    case Op_Read
    then show ?thesis using rw(1) [of "PhysAddr req" "lba req" "req_count req"] by (auto simp: nvme_submit_thunk_def w)
  next
    case Op_Write
    then show ?thesis using rw(2) [of "PhysAddr req" "lba req" "req_count req"] by (auto simp: nvme_submit_thunk_def w)
  next
    case Op_Identify
    obtain ok w' where "identify_both hw env (c, h) = Some (ok, w')" "in_step w'" using both by blast
    then show ?thesis using Op_Identify by (simp add: nvme_submit_thunk_def w split: prod.split)
  next
    case Op_Format
    obtain ok c' h' where "format_namespace hw env c h = Some (ok, c', h')" "in_step (c', h')" using fmt by blast
    then show ?thesis using Op_Format by (simp add: nvme_submit_thunk_def w)
  qed (use s in \<open>auto simp: nvme_submit_thunk_def w\<close>)
qed

lemma nvme_handlers_keep:
  assumes "storageDevices g = [nvme_storage hw env mn]"
  shows "gaossd_inv g" "handlers_keep g in_step"
  using submit_in_step by (auto simp: gaossd_inv_def handlers_keep_def assms nvme_process_thunk_def)

end

end
