(* ===== verification/AbtrfsIO.thy ===== *)
theory AbtrfsIO
  imports AbtrfsProps GaossdNvme
begin

unbundle bit_operations_syntax

text \<open>
  The block operations of AbtrFS (\<^verbatim>\<open>read_block\<close> and \<^verbatim>\<open>write_block\<close> in
  \<^verbatim>\<open>src/abtrfs/abtrfs.cpp\<close>) over the storage driver and the NVMe controller, and the proof
  of what they transfer, with a controller that keeps the queue protocol and moves data through
  data pointers as the NVMe specification has it: exactly the part of a block that the caller's buffer
  has room for in its page. Only if every buffer starts a page are the two a block device, as
  \<open>AbtrfsProps\<close> needs it.
\<close>

section \<open>The two operations\<close>

text \<open>The state a block operation works on: the controller with its hardware, the storage
  driver attached to the file system, and the buffers its callers pass: where the compiler and the heap
  have put the header, the block or the member each transfer is from or to, in the order of the
  transfers. \<open>rp\<close> is the address of the request on the stack.\<close>

record 'h kworld =
  kw_nvme :: "'h world"
  kw_ssd :: "'h world gaossd option"
  kw_buffers :: "nat \<Rightarrow> u64"
  kw_turn :: nat

definition next_buffer :: "'h kworld \<Rightarrow> u64" where "next_buffer kw = kw_buffers kw (kw_turn kw)"

definition take_turn :: "'h kworld \<Rightarrow> 'h kworld" where "take_turn kw = kw\<lparr>kw_turn := Suc (kw_turn kw)\<rparr>"

lemma take_turn_simps [simp]:
  "kw_nvme (take_turn kw) = kw_nvme kw" "kw_ssd (take_turn kw) = kw_ssd kw"
  "kw_buffers (take_turn kw) = kw_buffers kw" "kw_turn (take_turn kw) = Suc (kw_turn kw)"
  by (simp_all add: take_turn_def)

definition block_request :: "kernel_env \<Rightarrow> Controller \<Rightarrow> opcode \<Rightarrow> u64 \<Rightarrow> u64 \<Rightarrow> u64 \<Rightarrow> request" where
  "block_request env c op handle block_address buf =
     default_request\<lparr>OpCode := op, device_handle := handle, lba := block_address * 8,
       req_count := 8, PhysAddr := virt_to_phys env c buf\<rparr>"

definition kernel_read_block :: "'h hw \<Rightarrow> kernel_env \<Rightarrow> ptr \<Rightarrow> 'h kworld block_read" where
  "kernel_read_block hw env rp handle block_address kw0 =
    (let buf = next_buffer kw0; kw = take_turn kw0 in
     if handle = InvalidHandle then Some (None, kw)
     else do {
       let req = block_request env (fst (kw_nvme kw)) Op_Read handle block_address buf;
       ssd \<leftarrow> kw_ssd kw;
       (e1, ssd1) \<leftarrow> submit_request ssd [rp \<mapsto> req] rp;
       if e1 \<noteq> Success then Some (None, kw\<lparr>kw_ssd := Some ssd1\<rparr>)
       else do {
         (e2, ssd2, rs, w2) \<leftarrow> process_queue ssd1 [rp \<mapsto> req] (kw_nvme kw);
         let kw2 = kw\<lparr>kw_nvme := w2, kw_ssd := Some ssd2\<rparr>;
         if e2 \<noteq> Success then Some (None, kw2)
         else do {
           req2 \<leftarrow> rs rp;
           Some (if completed req2 \<and> status req2 = Success
                 then Some (hw_get_bytes hw buf 4096 (snd w2)) else None, kw2) } } })"

text \<open>\<^verbatim>\<open>write_block\<close> makes a driver of its own for every block: \<^verbatim>\<open>auto ssd = gaossd();\<close>\<close>

definition kernel_write_block ::
    "'h hw \<Rightarrow> kernel_env \<Rightarrow> u64 option \<Rightarrow> bool \<Rightarrow> u64 \<Rightarrow> ptr \<Rightarrow> 'h kworld block_write" where
  "kernel_write_block hw env hhdm_response pcie_active bar0 rp handle block_address bs kw0 =
    (case kw_nvme kw0 of (c, h) \<Rightarrow>
     let buf = next_buffer kw0; kw = take_turn kw0; w0 = (c, hw_put_bytes hw buf bs h) in
     if handle = InvalidHandle then Some (False, kw\<lparr>kw_nvme := w0\<rparr>)
     else do {
       let req = block_request env c Op_Write handle block_address buf;
       (ssd, w1) \<leftarrow> gaossd_ctor hw env hhdm_response pcie_active bar0 w0;
       (e1, ssd1) \<leftarrow> submit_request ssd [rp \<mapsto> req] rp;
       if e1 \<noteq> Success then Some (False, kw\<lparr>kw_nvme := w1\<rparr>)
       else do {
         (e2, _, rs, w2) \<leftarrow> process_queue ssd1 [rp \<mapsto> req] w1;
         if e2 \<noteq> Success then Some (False, kw\<lparr>kw_nvme := w2\<rparr>)
         else do {
           req2 \<leftarrow> rs rp;
           Some (completed req2 \<and> status req2 = Success, kw\<lparr>kw_nvme := w2\<rparr>) } } })"

section \<open>What a read or write command says\<close>

text \<open>The fields of a read or write command as the controller decodes them.\<close>

definition sqe_opcode :: "SubmissionQueueEntry \<Rightarrow> nat" where
  "sqe_opcode cmd = unat (cdw0 cmd AND 0xFF)"

definition sqe_cid :: "SubmissionQueueEntry \<Rightarrow> nat" where
  "sqe_cid cmd = unat (drop_bit 16 (cdw0 cmd))"

definition sqe_slba :: "SubmissionQueueEntry \<Rightarrow> nat" where
  "sqe_slba cmd = unat (cdw10 cmd) + 2 ^ 32 * unat (cdw11 cmd)"

definition sqe_nlb :: "SubmissionQueueEntry \<Rightarrow> nat" where
  "sqe_nlb cmd = unat (cdw12 cmd AND 0xFFFF) + 1"

lemma cmd_head_fields:
  assumes "unat opc < 256"
  shows "unat (cmd_head opc cid AND 0xFF) = unat opc" "unat (drop_bit 16 (cmd_head opc cid)) = unat cid"
proof -
  have opc: "opc = take_bit 8 opc"
    using assms by (simp add: word_unat_eq_iff unsigned_take_bit_eq take_bit_nat_eq_self)
  have "bit opc k \<longrightarrow> k < 8" for k by (subst opc) (simp add: bit_take_bit_iff)
  note b = this
  have "(0xFF :: u32) = mask 8" by (simp add: mask_eq_exp_minus_1)
  then have m: "cmd_head opc cid AND 0xFF = take_bit 8 (cmd_head opc cid)"
    by (simp only: take_bit_eq_mask)
  have "take_bit 8 (cmd_head opc cid) = opc"
    using b by (intro bit_word_eqI) (auto simp: cmd_head_def bit_simps)
  then have "cmd_head opc cid AND 0xFF = opc" using m by simp
  then show "unat (cmd_head opc cid AND 0xFF) = unat opc" by simp
  have "drop_bit 16 (cmd_head opc cid) = (ucast cid :: u32)"
    using b [of "16 + _"] by (intro bit_word_eqI) (auto simp: cmd_head_def bit_simps dest: bit_imp_le_length)
  then show "unat (drop_bit 16 (cmd_head opc cid)) = unat cid"
    using unat_less [of cid] by (simp add: unsigned_ucast_eq take_bit_nat_eq_self)
qed

lemma low_word: "unat (ucast (x AND 0xFFFFFFFF :: u64) :: u32) = unat x mod 2 ^ 32"
proof -
  have "(0xFFFFFFFF :: u64) = mask 32" by (simp add: mask_eq_exp_minus_1)
  then have "x AND 0xFFFFFFFF = take_bit 32 x" by (simp add: take_bit_eq_mask)
  then show ?thesis
    by (simp add: unsigned_ucast_eq unsigned_take_bit_eq take_bit_eq_mod unat_mod)
qed

lemma high_word: "unat (ucast (drop_bit 32 x AND 0xFFFFFFFF :: u64) :: u32) = unat x div 2 ^ 32"
proof -
  have "unat x div 4294967296 < 4294967296" using unat64_less [of x] by simp
  then show ?thesis
    unfolding low_word by (simp add: drop_bit_eq_div unat_div)
qed

lemma nlb_word:
  assumes "0 < unat count" and "unat count \<le> 65536"
  shows "unat ((count - 1 :: u32) AND 0xFFFF) = unat count - 1"
proof -
  have "(0xFFFF :: u32) = mask 16" by (simp add: mask_eq_exp_minus_1)
  then have "(count - 1) AND 0xFFFF = take_bit 16 (count - 1)" by (simp add: take_bit_eq_mask)
  moreover have "unat (count - 1) = unat count - 1"
    using assms by (subst unat_sub) (simp_all add: word_le_nat_alt)
  ultimately show ?thesis
    using assms by (simp add: unsigned_take_bit_eq take_bit_eq_mod unat_mod)
qed

lemma rw_entry_slba: "sqe_slba (rw_entry opc phys first count cid) = unat first"
proof -
  have "cdw10 (rw_entry opc phys first count cid) = ucast (first AND 0xFFFFFFFF)"
    "cdw11 (rw_entry opc phys first count cid) = ucast (drop_bit 32 first AND 0xFFFFFFFF)"
    by (simp_all add: rw_entry_def zero_sqe_def)
  then have "sqe_slba (rw_entry opc phys first count cid)
      = unat first mod 2 ^ 32 + 2 ^ 32 * (unat first div 2 ^ 32)"
    by (simp only: sqe_slba_def low_word [of first] high_word [of first])
  then show ?thesis by simp
qed

text \<open>The read and write commands say what was asked for. For a transfer of 1 to 65536
  blocks the entry holds the opcode and the command identifier, the 64-bit start address split over
  two words, the count minus one, namespace 1 and the data pointer; the second data pointer is
  always 0.\<close>

theorem rw_entry_encodes:
  assumes "unat opc < 256" and "0 < unat count" and "unat count \<le> 65536"
  shows "sqe_opcode (rw_entry opc phys first count cid) = unat opc \<and>
    sqe_cid (rw_entry opc phys first count cid) = unat cid \<and>
    sqe_slba (rw_entry opc phys first count cid) = unat first \<and>
    sqe_nlb (rw_entry opc phys first count cid) = unat count \<and>
    nsid (rw_entry opc phys first count cid) = 1 \<and>
    dptr0 (rw_entry opc phys first count cid) = phys \<and>
    dptr1 (rw_entry opc phys first count cid) = 0"
  using assms cmd_head_fields [OF assms(1), of cid] rw_entry_slba [of opc phys first count cid]
  by (simp add: rw_entry_def zero_sqe_def sqe_opcode_def sqe_cid_def sqe_nlb_def nlb_word)

theorem rw_entry_encodes_witness:
  "sqe_slba (rw_entry 2 0x5000 0x123456789AB 8 3) = 0x123456789AB \<and>
   sqe_nlb (rw_entry 2 0x5000 0x123456789AB 8 3) = 8"
  using rw_entry_encodes [of 2 8 "0x5000" "0x123456789AB" 3] by simp

section \<open>Data pointers\<close>

text \<open>Physical memory, and what a transfer of one block does with it. The first data pointer names where
  the data starts, in units of four bytes: a controller may refuse other addresses and otherwise
  ignores the low two bits. From there the data runs to the end of that page, and on at the second
  data pointer.\<close>

definition put_mem :: "(u64 \<Rightarrow> u8) \<Rightarrow> u64 \<Rightarrow> bytes \<Rightarrow> u64 \<Rightarrow> u8" where
  "put_mem m a bs x = (if unat (x - a) < length bs then bs ! unat (x - a) else m x)"

definition get_mem :: "(u64 \<Rightarrow> u8) \<Rightarrow> u64 \<Rightarrow> nat \<Rightarrow> bytes" where
  "get_mem m a n = map (\<lambda>i. m (a + of_nat i)) [0..<n]"

definition prp_start :: "SubmissionQueueEntry \<Rightarrow> nat" where
  "prp_start cmd = 4 * (unat (dptr0 cmd) div 4)"

definition prp_room :: "SubmissionQueueEntry \<Rightarrow> nat" where
  "prp_room cmd = 4096 - prp_start cmd mod 4096"

definition prp_put :: "SubmissionQueueEntry \<Rightarrow> bytes \<Rightarrow> (u64 \<Rightarrow> u8) \<Rightarrow> u64 \<Rightarrow> u8" where
  "prp_put cmd bs m = put_mem (put_mem m (of_nat (prp_start cmd)) (take (prp_room cmd) bs))
     (dptr1 cmd) (drop (prp_room cmd) bs)"

definition prp_get :: "SubmissionQueueEntry \<Rightarrow> (u64 \<Rightarrow> u8) \<Rightarrow> bytes" where
  "prp_get cmd m = get_mem m (of_nat (prp_start cmd)) (prp_room cmd) @
     get_mem m (dptr1 cmd) (4096 - prp_room cmd)"

lemma length_get_mem [simp]: "length (get_mem m a k) = k"
  by (simp add: get_mem_def)

lemma get_put_mem: "length bs = k \<Longrightarrow> k < 2 ^ 64 \<Longrightarrow> get_mem (put_mem m a bs) a k = bs"
  by (rule nth_equalityI) (simp_all add: get_mem_def put_mem_def unat_of_nat)

text \<open>A buffer at physical address \<open>p\<close>, outside the first page: how many bytes below it the transfer
  starts, and how many of its own bytes are in the page it starts in.\<close>

definition below :: "u64 \<Rightarrow> nat" where "below p = unat p mod 4"
definition room :: "u64 \<Rightarrow> nat" where "room p = 4096 - unat p mod 4096"

definition in_memory :: "u64 \<Rightarrow> bool" where
  "in_memory p \<longleftrightarrow> 4096 \<le> unat p \<and> unat p + 4096 \<le> 2 ^ 64"

lemma below_in_page: "below p = unat p mod 4096 mod 4"
  using mod_mod_cancel [of 4 4096 "unat p"] by (simp add: below_def)

lemma room_bounds: "1 \<le> room p" "room p \<le> 4096" "below p < 4" "below p + room p \<le> 4096"
proof -
  have "below p \<le> unat p mod 4096" unfolding below_in_page by (rule mod_less_eq_dividend)
  moreover have "unat p mod 4096 < 4096" by simp
  ultimately show "below p + room p \<le> 4096" "1 \<le> room p" unfolding room_def by linarith+
qed (simp_all add: room_def below_def)

lemma prp_of:
  assumes "dptr0 cmd = p"
  shows "prp_start cmd = unat p - below p" "prp_room cmd = below p + room p"
proof -
  show s: "prp_start cmd = unat p - below p"
    using assms by (simp add: prp_start_def below_def minus_mod_eq_mult_div [symmetric])
  note b = below_in_page [of p]
  define q r where "q = unat p div 4096" and "r = unat p mod 4096 - below p"
  have e: "unat p - below p = 4096 * q + r"
    unfolding q_def r_def b using mult_div_mod_eq [of 4096 "unat p"] mod_less_eq_dividend [of "unat p mod 4096" 4] by linarith
  have "r < 4096" unfolding r_def using mod_less_divisor [of 4096 "unat p"] by linarith
  then have "(unat p - below p) mod 4096 = unat p mod 4096 - below p"
    unfolding e r_def [symmetric] by simp
  then show "prp_room cmd = below p + room p"
    unfolding prp_room_def s room_def
    using mod_less_eq_dividend [of "unat p mod 4096" 4] mod_less_divisor [of 4096 "unat p"] b by linarith
qed

lemma put_mem_at:
  assumes "unat a + k < 2 ^ 64" and "unat b + length bs \<le> 2 ^ 64"
  shows "put_mem m b bs (a + of_nat k) =
    (if unat b \<le> unat a + k \<and> unat a + k < unat b + length bs then bs ! (unat a + k - unat b) else m (a + of_nat k))"
proof -
  have u: "unat (a + of_nat k) = unat a + k" using assms(1) by (simp add: unat_word_ariths unat_of_nat)
  show ?thesis
  proof (cases "unat b \<le> unat a + k")
    case True
    then have "unat (a + of_nat k - b) = unat a + k - unat b"
      using u by (subst unat_sub) (simp_all add: word_le_nat_alt)
    then show ?thesis using True unfolding put_mem_def by (simp add: less_diff_conv2)
  next
    case False
    have "unat (a + of_nat k - b) = unat a + k + 2 ^ 64 - unat b"
      using u False unat64_less [of b] by (simp add: unat_sub_if_size word_size)
    moreover have "length bs \<le> unat a + k + 2 ^ 64 - unat b" using assms(2) by linarith
    ultimately have "\<not> unat (a + of_nat k - b) < length bs" by linarith
    then show ?thesis using False unfolding put_mem_def by simp
  qed
qed

text \<open>What the caller finds in its buffer after a read, and what reaches the disk in a write.\<close>

lemma prp_read:
  assumes "in_memory p" and "dptr0 cmd = p" and "dptr1 cmd = 0" and "length bs = 4096"
  shows "get_mem (prp_put cmd bs m) p 4096 =
    take (room p) (drop (below p) bs) @ drop (room p) (get_mem m p 4096)"
    and "get_mem (prp_put cmd bs m) 0 (4096 - (below p + room p)) = drop (below p + room p) bs"
proof -
  have b: "below p + room p \<le> 4096" "below p < 4" "room p \<le> 4096" "4096 \<le> unat p" "unat p + 4096 \<le> 2 ^ 64"
    using room_bounds [of p] assms(1) by (simp_all add: in_memory_def)
  note s = prp_of [OF assms(2)]
  let ?st = "of_nat (unat p - below p) :: u64"
  have st: "unat ?st = unat p - below p" using unat64_less [of p] by (simp add: unat_of_nat)
  have put: "prp_put cmd bs m = put_mem (put_mem m ?st (take (below p + room p) bs)) 0 (drop (below p + room p) bs)"
    by (simp add: prp_put_def s assms(3))
  show "get_mem (prp_put cmd bs m) p 4096 =
    take (room p) (drop (below p) bs) @ drop (room p) (get_mem m p 4096)"
  proof (rule nth_equalityI)
    fix i assume "i < length (get_mem (prp_put cmd bs m) p 4096)"
    then have i: "i < 4096" by simp
    have "prp_put cmd bs m (p + of_nat i) = put_mem m ?st (take (below p + room p) bs) (p + of_nat i)"
      unfolding put by (subst put_mem_at) (use i b assms(4) in auto)
    also have "\<dots> = (if i < room p then bs ! (below p + i) else m (p + of_nat i))"
      by (subst put_mem_at) (use i b st assms(4) in \<open>auto simp: add.commute\<close>)
    finally show "get_mem (prp_put cmd bs m) p 4096 ! i =
        (take (room p) (drop (below p) bs) @ drop (room p) (get_mem m p 4096)) ! i"
      using i b assms(4) by (simp add: get_mem_def nth_append)
  qed (use b assms(4) in simp)
  show "get_mem (prp_put cmd bs m) 0 (4096 - (below p + room p)) = drop (below p + room p) bs"
    unfolding put by (rule get_put_mem) (use assms(4) in simp_all)
qed

lemma prp_write:
  assumes "in_memory p" and "dptr0 cmd = p" and "dptr1 cmd = 0" and "length bs = 4096"
  shows "prp_get cmd (put_mem m p bs) = get_mem m (of_nat (unat p - below p)) (below p) @ take (room p) bs @
    get_mem m 0 (4096 - (below p + room p))"
proof -
  have b: "below p + room p \<le> 4096" "below p < 4" "room p \<le> 4096" "4096 \<le> unat p" "unat p + 4096 \<le> 2 ^ 64"
    using room_bounds [of p] assms(1) by (simp_all add: in_memory_def)
  let ?st = "of_nat (unat p - below p) :: u64"
  have st: "unat ?st = unat p - below p" using unat64_less [of p] by (simp add: unat_of_nat)
  have "get_mem (put_mem m p bs) ?st (below p + room p) = get_mem m ?st (below p) @ take (room p) bs"
  proof (rule nth_equalityI)
    fix i assume "i < length (get_mem (put_mem m p bs) ?st (below p + room p))"
    then have i: "i < below p + room p" by simp
    have "put_mem m p bs (?st + of_nat i) = (if below p \<le> i then bs ! (i - below p) else m (?st + of_nat i))"
      by (subst put_mem_at) (use i b st assms(4) in auto)
    then show "get_mem (put_mem m p bs) ?st (below p + room p) ! i = (get_mem m ?st (below p) @ take (room p) bs) ! i"
      using i b assms(4) by (simp add: get_mem_def nth_append)
  qed (use b assms(4) in simp)
  moreover have "get_mem (put_mem m p bs) 0 (4096 - (below p + room p)) = get_mem m 0 (4096 - (below p + room p))"
  proof (rule nth_equalityI)
    fix i assume "i < length (get_mem (put_mem m p bs) 0 (4096 - (below p + room p)))"
    then have i: "i < 4096 - (below p + room p)" by simp
    have "put_mem m p bs (0 + of_nat i) = m (0 + of_nat i)"
      by (subst put_mem_at) (use i b assms(4) in auto)
    then show "get_mem (put_mem m p bs) 0 (4096 - (below p + room p)) ! i = get_mem m 0 (4096 - (below p + room p)) ! i"
      using i by (simp add: get_mem_def)
  qed simp
  ultimately show ?thesis by (simp add: prp_get_def prp_of [OF assms(2)] assms(3))
qed

lemma low_bits: "p mod 4 = 0 \<longleftrightarrow> below p = 0"
  by (simp add: below_def word_unat_eq_iff unat_mod)

lemma page_start:
  assumes "unat p mod 4096 = 0"
  shows "below p = 0" "room p = 4096"
proof -
  have "unat p mod 4 = unat p mod 4096 mod 4" by (simp add: mod_mod_cancel)
  then show "below p = 0" "room p = 4096" using assms by (simp_all add: below_def room_def)
qed

section \<open>The controller as a disk\<close>

text \<open>
  What the data transfers do: an 8-sector read on the I/O pair moves the block to where the data
  pointers of the command say, an 8-sector write stores what is there; a command that ends with an error
  status guarantees nothing about what it was to change. \<open>sound\<close> are the states in which no command
  with a data pointer that is a multiple of four fails. \<open>mem\<close> is physical memory apart from the rings of
  the queues. \<open>kbuf\<close> are the addresses the kernel uses for
  buffers, \<open>phys\<close> their physical addresses: the translation of Limine's addresses is right for them.
  Nothing is said of where in a page they are.
\<close>

definition moves_block :: "nat \<Rightarrow> SubmissionQueueEntry \<Rightarrow> u64 \<Rightarrow> nat \<Rightarrow> bool" where
  "moves_block opc cmd p b \<longleftrightarrow> sqe_opcode cmd = opc \<and> nsid cmd = 1 \<and> sqe_slba cmd = 8 * b \<and>
     sqe_nlb cmd = 8 \<and> dptr0 cmd = p"

locale nvme_disk = nvme_device hw env regs stride idle executed
  for hw :: "'h hw" and env :: kernel_env and regs :: u64 and stride :: nat
    and idle :: "nat \<Rightarrow> nat \<Rightarrow> nat \<Rightarrow> bool \<Rightarrow> 'h \<Rightarrow> bool"
    and executed :: "nat \<Rightarrow> SubmissionQueueEntry \<Rightarrow> u16 \<Rightarrow> 'h \<Rightarrow> 'h \<Rightarrow> bool" +
  fixes n :: nat and disk :: "'h \<Rightarrow> bytes list" and mem :: "'h \<Rightarrow> u64 \<Rightarrow> u8"
    and sound :: "'h \<Rightarrow> bool" and kbuf :: "u64 \<Rightarrow> bool" and phys :: "u64 \<Rightarrow> u64"
    and hhdm bar0 :: u64 and rp :: ptr and hhdm_response :: "u64 option"
  assumes blocks_bound: "n < 4503599627370496"
    and disk_wf: "idle q t e ph h \<Longrightarrow> wf_disk n (disk h)"
    and translated: "m_hhdm_offset c = hhdm \<Longrightarrow> kbuf a \<Longrightarrow> io_address env c (virt_to_phys env c a) = phys a"
    and placed: "kbuf a \<Longrightarrow> in_memory (phys a)"
    and peek: "kbuf a \<Longrightarrow> hw_get_bytes hw a 4096 h = get_mem (mem h) (phys a) 4096"
    and poke: "kbuf a \<Longrightarrow> length bs = 4096 \<Longrightarrow> mem (hw_put_bytes hw a bs h) = put_mem (mem h) (phys a) bs"
      "kbuf a \<or> a = at_attach env \<Longrightarrow> disk (hw_put_bytes hw a bs h) = disk h"
      "kbuf a \<Longrightarrow> sound (hw_put_bytes hw a bs h) = sound h"
      "kbuf a \<or> a = at_attach env \<Longrightarrow> idle q t e ph h \<Longrightarrow> idle q t e ph (hw_put_bytes hw a bs h)"
    and read_exec: "executed 1 cmd st h h' \<Longrightarrow> moves_block 2 cmd p b \<Longrightarrow> b < n \<Longrightarrow>
      disk h' = disk h \<and> (check_status st \<longrightarrow> mem h' = prp_put cmd (disk h ! b) (mem h)) \<and>
      (sound h \<longrightarrow> sound h' \<and> (p mod 4 = 0 \<longrightarrow> check_status st))"
    and write_exec: "executed 1 cmd st h h' \<Longrightarrow> moves_block 1 cmd p b \<Longrightarrow> b < n \<Longrightarrow>
      \<exists>x. disk h' = (disk h)[b := x] \<and> (check_status st \<longrightarrow> x = prp_get cmd (mem h)) \<and> mem h' = mem h \<and>
      (sound h \<longrightarrow> sound h' \<and> (p mod 4 = 0 \<longrightarrow> check_status st))"
    and boot: "bar0 \<noteq> 0" "rp \<noteq> 0"
begin

definition ready :: "'h kworld \<Rightarrow> bool" where
  "ready kw \<longleftrightarrow> (case kw_nvme kw of (c, h) \<Rightarrow>
     io_sync c h \<and> m_initialized c \<and> m_hhdm_offset c = hhdm) \<and>
     (\<exists>ssd mn ds. kw_ssd kw = Some ssd \<and> queue ssd = [] \<and>
        storageDevices ssd = nvme_storage hw env mn # ds) \<and> (\<forall>i. kbuf (kw_buffers kw i))"

definition kdisk :: "'h kworld \<Rightarrow> bytes list" where "kdisk kw = disk (snd (kw_nvme kw))"

definition kmem :: "'h kworld \<Rightarrow> u64 \<Rightarrow> u8" where "kmem kw = mem (snd (kw_nvme kw))"

definition ksound :: "'h kworld \<Rightarrow> bool" where "ksound kw \<longleftrightarrow> sound (snd (kw_nvme kw))"

text \<open>A request that is submitted and processed is one command of the driver.\<close>

lemma one_request:
  assumes "queue ssd = []" and "storageDevices ssd = nvme_storage hw env mn # ds"
    and "device_handle req = 0" and "completed req = False"
  shows "submit_request ssd [rp \<mapsto> req] rp = Some (Success, ssd\<lparr>queue := [rp]\<rparr>)"
    and "nvme_submit_thunk hw env req w = Some (e, w') \<Longrightarrow>
      process_queue (ssd\<lparr>queue := [rp]\<rparr>) [rp \<mapsto> req] w
        = Some (Success, ssd, [rp \<mapsto> req\<lparr>status := e, completed := True\<rparr>], w')"
proof -
  show "submit_request ssd [rp \<mapsto> req] rp = Some (Success, ssd\<lparr>queue := [rp]\<rparr>)"
    using assms by (simp add: submit_request_def)
  assume t: "nvme_submit_thunk hw env req w = Some (e, w')"
  have "process_request (storageDevices ssd) req w = Some (req\<lparr>status := e, completed := True\<rparr>, w')"
    using t assms by (simp add: process_request_def nvme_process_thunk_def)
  moreover have "ssd\<lparr>queue := []\<rparr> = ssd" using assms(1) by (cases ssd) simp
  ultimately show "process_queue (ssd\<lparr>queue := [rp]\<rparr>) [rp \<mapsto> req] w
      = Some (Success, ssd, [rp \<mapsto> req\<lparr>status := e, completed := True\<rparr>], w')"
    using boot(2) by (simp add: process_queue_def)
qed

lemma block_entry:
  assumes "unat b < n" and "m_hhdm_offset c = hhdm" and "kbuf buf" and "opc = 1 \<or> opc = 2"
  shows "moves_block (unat opc) (rw_entry opc (io_address env c (virt_to_phys env c buf)) (b * 8) 8 cid)
    (phys buf) (unat b)"
    and "dptr1 (rw_entry opc (io_address env c (virt_to_phys env c buf)) (b * 8) 8 cid) = 0"
    and "dptr0 (rw_entry opc (io_address env c (virt_to_phys env c buf)) (b * 8) 8 cid) = phys buf"
proof -
  have "unat (b * 8) = 8 * unat b"
    using assms(1) blocks_bound by (subst unat_times64) simp_all
  then show "moves_block (unat opc) (rw_entry opc (io_address env c (virt_to_phys env c buf)) (b * 8) 8 cid)
      (phys buf) (unat b)"
    using translated [OF assms(2,3)] assms(4) cmd_head_fields [of opc cid]
      rw_entry_slba [of opc "phys buf" "b * 8" 8 cid] nlb_word [of 8]
    by (auto simp: moves_block_def rw_entry_def zero_sqe_def sqe_opcode_def sqe_nlb_def)
qed (simp_all add: rw_entry_def zero_sqe_def translated [OF assms(2,3)])

lemma read_thunk:
  assumes "io_sync c h" and "m_hhdm_offset c = hhdm" and "unat b < n" and "kbuf buf"
  obtains st c' h' cmd where
    "nvme_submit_thunk hw env (block_request env c Op_Read 0 b buf) (c, h)
       = Some (if check_status st then Success else Generic_Error, c', h')"
    "io_sync c' h'" "m_hhdm_offset c' = hhdm" "m_initialized c' = m_initialized c"
    "disk h' = disk h" "check_status st \<longrightarrow> mem h' = prp_put cmd (disk h ! unat b) (mem h)"
    "dptr0 cmd = phys buf" "dptr1 cmd = 0"
    "sound h \<longrightarrow> sound h' \<and> (below (phys buf) = 0 \<longrightarrow> check_status st)"
proof -
  let ?mk = "rw_entry 2 (io_address env c (virt_to_phys env c buf)) (b * 8) 8"
  obtain st c' h' where r: "io_command hw env ?mk c h = Some (st, c', h')" "io_sync c' h'"
      "executed 1 (?mk (m_io_sq_tail c)) st h h'"
      "c' = c\<lparr>m_io_sq_tail := (m_io_sq_tail c + 1) mod 64,
         m_io_cq_head := (m_io_cq_head c + 1) mod 64,
         m_io_cq_phase := next_phase ((m_io_cq_head c + 1) mod 64) (m_io_cq_phase c)\<rparr>"
    using io_command_sync [OF assms(1), of ?mk] by blast
  note e = block_entry [OF assms(3,2,4), of 2 "m_io_sq_tail c"]
  have "moves_block 2 (?mk (m_io_sq_tail c)) (phys buf) (unat b)" using e(1) by simp
  note d = read_exec [OF r(3) this assms(3)]
  have "nvme_submit_thunk hw env (block_request env c Op_Read 0 b buf) (c, h)
       = Some (if check_status st then Success else Generic_Error, c', h')"
    using r(1) by (simp add: nvme_submit_thunk_def block_request_def nvme_read_def
        default_request_def)
  then show ?thesis
    using that [of st c' h' "?mk (m_io_sq_tail c)"] r(2,4) d e assms(2) low_bits by simp
qed

lemma write_thunk:
  assumes "io_sync c h" and "m_hhdm_offset c = hhdm" and "unat b < n" and "kbuf buf"
  obtains st c' h' x cmd where
    "nvme_submit_thunk hw env (block_request env c Op_Write 0 b buf) (c, h)
       = Some (if check_status st then Success else Generic_Error, c', h')"
    "io_sync c' h'" "m_hhdm_offset c' = hhdm" "m_initialized c' = m_initialized c"
    "disk h' = (disk h)[unat b := x]" "check_status st \<longrightarrow> x = prp_get cmd (mem h)" "mem h' = mem h"
    "dptr0 cmd = phys buf" "dptr1 cmd = 0"
    "sound h \<longrightarrow> sound h' \<and> (below (phys buf) = 0 \<longrightarrow> check_status st)"
proof -
  let ?mk = "rw_entry 1 (io_address env c (virt_to_phys env c buf)) (b * 8) 8"
  obtain st c' h' where r: "io_command hw env ?mk c h = Some (st, c', h')" "io_sync c' h'"
      "executed 1 (?mk (m_io_sq_tail c)) st h h'"
      "c' = c\<lparr>m_io_sq_tail := (m_io_sq_tail c + 1) mod 64,
         m_io_cq_head := (m_io_cq_head c + 1) mod 64,
         m_io_cq_phase := next_phase ((m_io_cq_head c + 1) mod 64) (m_io_cq_phase c)\<rparr>"
    using io_command_sync [OF assms(1), of ?mk] by blast
  note e = block_entry [OF assms(3,2,4), of 1 "m_io_sq_tail c"]
  have "moves_block 1 (?mk (m_io_sq_tail c)) (phys buf) (unat b)" using e(1) by simp
  from write_exec [OF r(3) this assms(3)]
  obtain x where d: "disk h' = (disk h)[unat b := x]" "check_status st \<longrightarrow> x = prp_get (?mk (m_io_sq_tail c)) (mem h)"
      "mem h' = mem h" "sound h \<longrightarrow> sound h' \<and> (phys buf mod 4 = 0 \<longrightarrow> check_status st)"
    by blast
  have "nvme_submit_thunk hw env (block_request env c Op_Write 0 b buf) (c, h)
       = Some (if check_status st then Success else Generic_Error, c', h')"
    using r(1) by (simp add: nvme_submit_thunk_def block_request_def nvme_write_def
        default_request_def)
  then show ?thesis
    using that [of st c' h' x "?mk (m_io_sq_tail c)"] r(2,4) d e assms(2) low_bits by simp
qed

lemma InvalidHandle_neq: "InvalidHandle \<noteq> 0"
  by (simp add: InvalidHandle_def)

lemma block_request_simps:
  "device_handle (block_request env c op h b buf) = h"
  "completed (block_request env c op h b buf) = False"
  by (simp_all add: block_request_def default_request_def)

text \<open>A read: the part of the block the buffer has room for, or nothing. A write: that part reaches the
  disk, in between what lies below the buffer and what lies at physical address 0.\<close>

definition read_into :: "u64 \<Rightarrow> bytes \<Rightarrow> bytes \<Rightarrow> bytes" where
  "read_into p block old = take (room p) (drop (below p) block) @ drop (room p) old"

definition written_from :: "u64 \<Rightarrow> bytes \<Rightarrow> (u64 \<Rightarrow> u8) \<Rightarrow> bytes" where
  "written_from p bs m = get_mem m (of_nat (unat p - below p)) (below p) @ take (room p) bs @
     get_mem m 0 (4096 - (below p + room p))"

lemma kernel_read:
  assumes "ready kw" and b: "unat b < n" and p: "p = phys (next_buffer kw)"
  shows "\<exists>r kw'. kernel_read_block hw env rp 0 b kw = Some (r, kw') \<and> ready kw' \<and>
    kw_buffers kw' = kw_buffers kw \<and> kw_turn kw' = Suc (kw_turn kw) \<and> kdisk kw' = kdisk kw \<and>
    (r = None \<or> r = Some (read_into p (kdisk kw ! unat b) (get_mem (kmem kw) p 4096)) \<and>
       get_mem (kmem kw') 0 (4096 - (below p + room p)) = drop (below p + room p) (kdisk kw ! unat b)) \<and>
    (ksound kw \<longrightarrow> ksound kw' \<and> (below p = 0 \<longrightarrow> r \<noteq> None))"
proof -
  let ?buf = "next_buffer kw"
  obtain c h ssd mn ds where k: "kw_nvme kw = (c, h)" "io_sync c h" "m_initialized c"
      "m_hhdm_offset c = hhdm" "kw_ssd kw = Some ssd" "queue ssd = []"
      "storageDevices ssd = nvme_storage hw env mn # ds" "\<forall>i. kbuf (kw_buffers kw i)"
    using assms(1) by (auto simp: ready_def split: prod.splits)
  have kb: "kbuf ?buf" using k(8) by (simp add: next_buffer_def)
  obtain st c' h' cmd where t: "nvme_submit_thunk hw env (block_request env c Op_Read 0 b ?buf) (c, h)
       = Some (if check_status st then Success else Generic_Error, c', h')"
    "io_sync c' h'" "m_hhdm_offset c' = hhdm" "m_initialized c' = m_initialized c"
    "disk h' = disk h" "check_status st \<longrightarrow> mem h' = prp_put cmd (disk h ! unat b) (mem h)"
    "dptr0 cmd = phys ?buf" "dptr1 cmd = 0"
    "sound h \<longrightarrow> sound h' \<and> (below (phys ?buf) = 0 \<longrightarrow> check_status st)"
    by (rule read_thunk [OF k(2,4) b kb])
  let ?kw = "(take_turn kw)\<lparr>kw_nvme := (c', h'), kw_ssd := Some ssd\<rparr>"
  have run: "kernel_read_block hw env rp 0 b kw
      = Some (if check_status st then Some (get_mem (mem h') p 4096) else None, ?kw)"
    using one_request(1) [OF k(6,7) block_request_simps]
      one_request(2) [OF k(6,7) block_request_simps t(1)] k(1,5) InvalidHandle_neq peek [OF kb]
    by (simp add: kernel_read_block_def Let_def p)
  have "wf_disk n (disk h)" using k(2) disk_wf by (auto simp: io_sync_def)
  then have "length (disk h ! unat b) = 4096" using b by (simp add: wf_disk_def)
  note moved = prp_read [OF placed [OF kb] t(7,8) this, of "mem h", folded p]
  have rd: "ready ?kw" using k t by (auto simp: ready_def)
  show ?thesis
  proof (intro exI conjI)
    show "kernel_read_block hw env rp 0 b kw
      = Some (if check_status st then Some (get_mem (mem h') p 4096) else None, ?kw)" by (rule run)
    show "ready ?kw" by (rule rd)
    show "(if check_status st then Some (get_mem (mem h') p 4096) else None) = None \<or>
        (if check_status st then Some (get_mem (mem h') p 4096) else None) =
          Some (read_into p (kdisk kw ! unat b) (get_mem (kmem kw) p 4096)) \<and>
        get_mem (kmem ?kw) 0 (4096 - (below p + room p)) = drop (below p + room p) (kdisk kw ! unat b)"
    proof (cases "check_status st")
      case True
      then have "mem h' = prp_put cmd (disk h ! unat b) (mem h)" using t(6) by simp
      then show ?thesis using True moved k(1) by (simp add: kdisk_def kmem_def read_into_def)
    qed simp
    show "ksound kw \<longrightarrow> ksound ?kw \<and> (below p = 0 \<longrightarrow>
        (if check_status st then Some (get_mem (mem h') p 4096) else None) \<noteq> None)"
      using t(9) k(1) p by (simp add: ksound_def)
  qed (use k(1) t(5) in \<open>simp_all add: kdisk_def\<close>)
qed

lemma kernel_write:
  assumes "ready kw" and b: "unat b < n" and bs: "length bs = 4096" and p: "p = phys (next_buffer kw)"
  shows "\<exists>ok kw' x. kernel_write_block hw env hhdm_response True bar0 rp 0 b bs kw = Some (ok, kw') \<and>
    ready kw' \<and> kw_buffers kw' = kw_buffers kw \<and> kw_turn kw' = Suc (kw_turn kw) \<and> kdisk kw' = (kdisk kw)[unat b := x] \<and>
    (ok \<longrightarrow> x = written_from p bs (kmem kw)) \<and>
    (ksound kw \<longrightarrow> ksound kw' \<and> (below p = 0 \<longrightarrow> ok))"
proof -
  let ?buf = "next_buffer kw"
  obtain c h ssd mn ds where k: "kw_nvme kw = (c, h)" "io_sync c h" "m_initialized c"
      "m_hhdm_offset c = hhdm" "kw_ssd kw = Some ssd" "queue ssd = []"
      "storageDevices ssd = nvme_storage hw env mn # ds" "\<forall>i. kbuf (kw_buffers kw i)"
    using assms(1) by (auto simp: ready_def split: prod.splits)
  have kb: "kbuf ?buf" using k(8) by (simp add: next_buffer_def)
  let ?h0 = "hw_put_bytes hw ?buf bs h"
  define g where "g = snd (snd (register_device empty_gaossd
      (nvme_storage hw env (model_number hw env ?h0))))"
  have g: "queue g = []" "storageDevices g = nvme_storage hw env (model_number hw env ?h0) # []"
    by (simp_all add: g_def register_device_def empty_gaossd_def)
  have ctor: "gaossd_ctor hw env hhdm_response True bar0 (c, ?h0) = Some (g, c, ?h0)"
    using k(3) boot(1) by (simp add: gaossd_ctor_def Let_def init_def g_def)
  have sync: "io_sync c ?h0" using k(2) poke(4) kb by (auto simp: io_sync_def)
  obtain st c' h' x cmd where t: "nvme_submit_thunk hw env (block_request env c Op_Write 0 b ?buf) (c, ?h0)
       = Some (if check_status st then Success else Generic_Error, c', h')"
    "io_sync c' h'" "m_hhdm_offset c' = hhdm" "m_initialized c' = m_initialized c"
    "disk h' = (disk ?h0)[unat b := x]" "check_status st \<longrightarrow> x = prp_get cmd (mem ?h0)" "mem h' = mem ?h0"
    "dptr0 cmd = phys ?buf" "dptr1 cmd = 0"
    "sound ?h0 \<longrightarrow> sound h' \<and> (below (phys ?buf) = 0 \<longrightarrow> check_status st)"
    by (rule write_thunk [OF sync k(4) b kb])
  let ?kw = "(take_turn kw)\<lparr>kw_nvme := (c', h')\<rparr>"
  have run: "kernel_write_block hw env hhdm_response True bar0 rp 0 b bs kw = Some (check_status st, ?kw)"
    using one_request(1) [OF g block_request_simps]
      one_request(2) [OF g block_request_simps t(1)] k(1) ctor InvalidHandle_neq
    by (simp add: kernel_write_block_def Let_def)
  have x: "prp_get cmd (mem ?h0) = written_from p bs (mem h)"
    unfolding poke(1) [OF kb bs] p written_from_def by (rule prp_write [OF placed [OF kb] t(8,9) bs])
  have "ready ?kw" using k t by (auto simp: ready_def)
  moreover have "kdisk ?kw = (kdisk kw)[unat b := x]"
    using k(1) t(5) poke(2) kb by (simp add: kdisk_def)
  ultimately show ?thesis
    using run k(1) t(6,10) x p poke(3) [OF kb] by (intro exI [of _ "check_status st"] exI [of _ ?kw] exI [of _ x])
      (simp add: kmem_def ksound_def)
qed

text \<open>If every buffer starts a page, nothing is lost.\<close>

definition paged :: "'h kworld \<Rightarrow> bool" where
  "paged kw \<longleftrightarrow> ready kw \<and> (\<forall>i. unat (phys (kw_buffers kw i)) mod 4096 = 0)"

lemma paged_transfers:
  assumes "unat p mod 4096 = 0" and "length bs = 4096"
  shows "length old = 4096 \<Longrightarrow> read_into p bs old = bs" "written_from p bs m = bs"
  using assms page_start [OF assms(1)] by (simp_all add: read_into_def written_from_def get_mem_def)

end

text \<open>Then the two operations are a block device, for device handle 0. (The kernel's own buffers do not
  all start a page: see \<open>block_transfer_stops_at_page\<close> and \<open>mount_needs_dword_buffer\<close>.)\<close>

sublocale nvme_disk \<subseteq> kernel: block_device
    "kernel_read_block hw env rp" "kernel_write_block hw env hhdm_response True bar0 rp" 0 n
    kdisk paged ksound
proof unfold_locales
  fix kw :: "'h kworld" and b :: u64 and bs :: bytes
  show "n < 4503599627370496" by (rule blocks_bound)
  assume r: "paged kw"
  then have rd: "ready kw" and pg: "unat (phys (next_buffer kw)) mod 4096 = 0"
    by (simp_all add: paged_def next_buffer_def)
  show wf: "wf_disk n (kdisk kw)"
    using rd disk_wf by (auto simp: ready_def io_sync_def kdisk_def split: prod.splits)
  assume b: "unat b < n"
  have len: "length (kdisk kw ! unat b) = 4096" using wf b by (simp add: wf_disk_def)
  show "\<exists>r w'. kernel_read_block hw env rp 0 b kw = Some (r, w') \<and> paged w' \<and>
      kdisk w' = kdisk kw \<and> (r = None \<or> r = Some (kdisk kw ! unat b)) \<and>
      (ksound kw \<longrightarrow> r \<noteq> None \<and> ksound w')"
    using kernel_read [OF rd b refl] r page_start(1) [OF pg] paged_transfers(1) [OF pg len]
    by (auto simp: paged_def)
  assume bs: "length bs = 4096"
  show "\<exists>ok w' x. kernel_write_block hw env hhdm_response True bar0 rp 0 b bs kw = Some (ok, w') \<and>
      paged w' \<and> kdisk w' = (kdisk kw)[unat b := x] \<and> (ok \<longrightarrow> x = bs) \<and>
      (ksound kw \<longrightarrow> ok \<and> ksound w')"
  proof -
    obtain ok kw' x where w: "kernel_write_block hw env hhdm_response True bar0 rp 0 b bs kw = Some (ok, kw')" "ready kw'"
      "kw_buffers kw' = kw_buffers kw" "kdisk kw' = (kdisk kw)[unat b := x]" "ok \<longrightarrow> x = bs" "ksound kw \<longrightarrow> ksound kw' \<and> ok"
      using kernel_write [OF rd b bs refl] page_start(1) [OF pg] paged_transfers(2) [OF pg bs] by auto
    then have "paged kw'" using r by (simp add: paged_def)
    then show ?thesis using w by blast
  qed
qed

end
