(* ===== verification/NvmeBoot.thy ===== *)
theory NvmeBoot
  imports AbtrfsIO
begin

unbundle bit_operations_syntax

text \<open>
  Bringing the controller up: the register fields of \<^verbatim>\<open>enable\<close>, the waits on the status
  register, and \<^verbatim>\<open>init\<close> as a whole. The locale \<open>nvme_boot\<close> adds to the disk the laws of the
  controller's registers and of the admin commands; in it \<^verbatim>\<open>init\<close> is shown to leave driver and
  device in step, and to have erased the disk.
\<close>

section \<open>The configuration register\<close>

definition cc_ok :: "u32 \<Rightarrow> bool" where
  "cc_ok v \<longleftrightarrow> bit v 0 \<and> drop_bit 4 v AND 0x7 = 0 \<and> drop_bit 16 v AND 0xF = 6 \<and>
     drop_bit 20 v AND 0xF = 4"

lemma bit_enable_bits:
  "bit (enable_bits cc) i \<longleftrightarrow> i < 32 \<and>
     (i = 0 \<or> i = 17 \<or> i = 18 \<or> i = 22 \<or>
      bit cc i \<and> \<not> (4 \<le> i \<and> i < 7) \<and> \<not> (16 \<le> i \<and> i < 24))"
proof -
  have n: "bit (7 :: u32) j \<longleftrightarrow> j < 3" "bit (15 :: u32) j \<longleftrightarrow> j < 4" for j
    using bit_mask_iff [of 3 j, where 'a = "32 word"] bit_mask_iff [of 4 j, where 'a = "32 word"]
    by (auto simp: mask_eq_exp_minus_1)
  show ?thesis
    by (simp only: enable_bits_def bit_or_iff bit_and_iff bit_not_iff bit_push_bit_iff n bit6 bit4
        bit_1_iff bit_0_eq bot_apply possible_bit_word) auto
qed

lemma field_eqI:
  assumes "\<And>i. i < k \<Longrightarrow> bit v (j + i) = bit x i" and "take_bit k x = x" and "j + k \<le> 32"
  shows "drop_bit j (v :: u32) AND mask k = x"
proof (rule bit_word_eqI)
  fix i assume "i < LENGTH(32)"
  have "bit x i \<longleftrightarrow> i < k \<and> bit x i"
    using assms(2) by (metis bit_take_bit_iff)
  then show "bit (drop_bit j v AND mask k) i = bit x i"
    using assms(1) [of i] assms(3) by (auto simp: bit_simps)
qed

lemma enable_bits_cc_ok: "cc_ok (enable_bits cc)"
proof -
  have m: "(7 :: u32) = mask 3" "(0xF :: u32) = mask 4" by (simp_all add: mask_eq_exp_minus_1)
  have "drop_bit 4 (enable_bits cc) AND mask 3 = 0"
    by (rule field_eqI) (auto simp: bit_enable_bits)
  moreover have "drop_bit 16 (enable_bits cc) AND mask 4 = 6"
    by (rule field_eqI) (simp only: bit_enable_bits bit6, force, simp_all add: take_bit_eq_mask [symmetric] take_bit_eq_mod)
  moreover have "drop_bit 20 (enable_bits cc) AND mask 4 = 4"
    by (rule field_eqI) (simp only: bit_enable_bits bit4, force, simp_all)
  moreover have "bit (enable_bits cc) 0" by (simp add: bit_enable_bits)
  ultimately show ?thesis unfolding cc_ok_def m by blast
qed

text \<open>\<^verbatim>\<open>enable\<close> programs the configuration register as the queues need it: whatever it
  held, the value written has the enable bit, the NVM command set, 64-byte submission and 16-byte
  completion entries, and every other field as it was.\<close>

theorem enable_bits_fields:
  "cc_ok (enable_bits cc) \<and>
   enable_bits cc AND NOT 0xFF0071 = cc AND NOT 0xFF0071"
proof
  show "cc_ok (enable_bits cc)" by (rule enable_bits_cc_ok)
  have f: "(0xFF0071 :: u32) = push_bit 16 (mask 8) OR push_bit 4 (mask 3) OR mask 1"
    by (simp add: mask_eq_exp_minus_1 push_bit_eq_mult)
  show "enable_bits cc AND NOT 0xFF0071 = cc AND NOT 0xFF0071"
    unfolding f
    by (rule bit_word_eqI) (simp only: bit_and_iff bit_not_iff bit_or_iff bit_push_bit_iff
        bit_mask_iff bit_enable_bits possible_bit_word, auto)
qed

section \<open>Waiting for the status register\<close>

inductive becomes_ready :: "'h hw \<Rightarrow> u64 \<Rightarrow> 'h \<Rightarrow> bool \<Rightarrow> 'h \<Rightarrow> bool" for hw :: "'h hw" and a :: u64
where
  yes: "hw_read32 hw a h = (v, h1) \<Longrightarrow> v AND 1 \<noteq> 0 \<Longrightarrow> becomes_ready hw a h True h1"
| fatal: "hw_read32 hw a h = (v, h1) \<Longrightarrow> v AND 1 = 0 \<Longrightarrow> hw_read32 hw a h1 = (v2, h2) \<Longrightarrow>
    v2 AND 2 \<noteq> 0 \<Longrightarrow> becomes_ready hw a h False h2"
| again: "hw_read32 hw a h = (v, h1) \<Longrightarrow> v AND 1 = 0 \<Longrightarrow> hw_read32 hw a h1 = (v2, h2) \<Longrightarrow>
    v2 AND 2 = 0 \<Longrightarrow> becomes_ready hw a h2 ok h' \<Longrightarrow> becomes_ready hw a h ok h'"

inductive stops :: "'h hw \<Rightarrow> u64 \<Rightarrow> 'h \<Rightarrow> 'h \<Rightarrow> bool" for hw :: "'h hw" and a :: u64
where
  stopped: "hw_read32 hw a h = (v, h1) \<Longrightarrow> v AND 1 = 0 \<Longrightarrow> stops hw a h h1"
| running: "hw_read32 hw a h = (v, h1) \<Longrightarrow> v AND 1 \<noteq> 0 \<Longrightarrow> stops hw a h1 h' \<Longrightarrow> stops hw a h h'"

lemma wait_ready_becomes:
  "becomes_ready hw a h ok h' \<Longrightarrow> wait_ready hw a h = Some (ok, h')"
proof (induction rule: becomes_ready.induct)
qed (subst wait_ready.simps; simp)+

lemma wait_clear_stops: "stops hw a h h' \<Longrightarrow> wait_clear hw a 1 h = Some h'"
proof (induction rule: stops.induct)
qed (subst wait_clear.simps; simp)+

section \<open>The laws of bring-up\<close>

text \<open>A controller object before \<^verbatim>\<open>init\<close>: the rings at their start.\<close>

definition fresh :: "Controller \<Rightarrow> bool" where
  "fresh c \<longleftrightarrow> \<not> m_initialized c \<and> m_sq_tail c = 0 \<and> m_cq_head c = 0 \<and> m_cq_phase c = 1 \<and>
     m_io_sq_tail c = 0 \<and> m_io_cq_head c = 0 \<and> m_io_cq_phase c = 1"

text \<open>\<open>present\<close>: a controller answers at \<open>regs\<close>. \<open>enabled\<close>: CC.EN is set. \<open>programmed\<close>: the admin
  queue registers hold two queues of 64 entries at the driver's rings. \<open>cq_made\<close>: the I/O
  completion queue exists. \<open>clean\<close>: no I/O queue exists; \<open>half\<close>: only the completion queue does.
  A \<open>sound\<close> controller does what it is asked. \<open>blank\<close> is what a formatted namespace holds.\<close>

locale nvme_boot = nvme_disk hw env regs stride idle executed n disk mem sound kbuf phys hhdm bar0 rp
    hhdm_response
  for hw :: "'h hw" and env :: kernel_env and regs :: u64 and stride :: nat
    and idle :: "nat \<Rightarrow> nat \<Rightarrow> nat \<Rightarrow> bool \<Rightarrow> 'h \<Rightarrow> bool"
    and executed :: "nat \<Rightarrow> SubmissionQueueEntry \<Rightarrow> u16 \<Rightarrow> 'h \<Rightarrow> 'h \<Rightarrow> bool"
    and n :: nat and disk :: "'h \<Rightarrow> bytes list" and mem :: "'h \<Rightarrow> u64 \<Rightarrow> u8"
    and sound :: "'h \<Rightarrow> bool" and kbuf :: "u64 \<Rightarrow> bool" and phys :: "u64 \<Rightarrow> u64"
    and hhdm bar0 :: u64 and rp :: ptr and hhdm_response :: "u64 option" +
  fixes present enabled programmed cq_made clean half :: "'h \<Rightarrow> bool" and blank :: "bytes list"
  assumes at_regs: "bar0 + hhdm = regs"
    and response: "(case hhdm_response of None \<Rightarrow> 0 | Some off \<Rightarrow> off) = hhdm"
    and phys_law: "m_hhdm_offset c = hhdm \<Longrightarrow>
      a \<in> {at_admin_sq env, at_admin_cq env, at_io_sq env, at_io_cq env} \<Longrightarrow>
      virt_to_phys env c a = phys a"
    and cap_law: "present h \<Longrightarrow> \<exists>cap h1. hw_read64 hw (regs + reg_cap) h = (cap, h1) \<and>
      present h1 \<and> sound h1 = sound h \<and> enabled h1 = enabled h \<and> unat (drop_bit 32 cap AND 0xF) = stride"
    and cc_law: "present h \<Longrightarrow> \<exists>cc h1. hw_read32 hw (regs + reg_cc) h = (cc, h1) \<and> present h1 \<and>
      sound h1 = sound h \<and> enabled h1 = enabled h \<and> programmed h1 = programmed h \<and> bit cc 0 = enabled h"
    and disable_law: "present h \<Longrightarrow> \<not> bit v 0 \<Longrightarrow> \<exists>h1. stops hw (regs + reg_csts)
      (hw_write32 hw (regs + reg_cc) v h) h1 \<and> present h1 \<and> sound h1 = sound h \<and> \<not> enabled h1"
    and program_law: "present h \<Longrightarrow> \<not> enabled h \<Longrightarrow>
      let h' = hw_write64 hw (regs + reg_acq) (phys (at_admin_cq env))
                (hw_write64 hw (regs + reg_asq) (phys (at_admin_sq env))
                  (hw_write32 hw (regs + reg_aqa) (push_bit 16 63 OR 63) h))
      in present h' \<and> sound h' = sound h \<and> \<not> enabled h' \<and> programmed h'"
    and enable_law: "present h \<Longrightarrow> \<not> enabled h \<Longrightarrow> programmed h \<Longrightarrow> cc_ok v \<Longrightarrow>
      \<exists>ok h1. becomes_ready hw (regs + reg_csts) (hw_write32 hw (regs + reg_cc) v h) ok h1 \<and>
        (ok \<longrightarrow> idle 0 0 0 True h1) \<and> (sound h \<longrightarrow> ok \<and> sound h1 \<and> clean h1)"
    and poke_sound: "sound (hw_put_bytes hw (at_attach env) bs h) = sound h"
      "clean (hw_put_bytes hw (at_attach env) bs h) = clean h"
    and setup_law: "executed 0 cmd st h h' \<Longrightarrow> sound h \<Longrightarrow> clean h \<Longrightarrow>
      sqe_opcode cmd \<in> {0x06, 0x15} \<or> sqe_opcode cmd = 0x80 \<and> nsid cmd = 1 \<Longrightarrow>
      sound h' \<and> clean h' \<and> (check_status st \<or>
        sqe_opcode cmd = 0x15 \<and> status_sct st = 1 \<and> status_sc st = 0x18)"
    and queues_law: "executed 0 cmd st h h' \<Longrightarrow> sound h \<Longrightarrow>
      clean h \<and> sqe_opcode cmd = 0x05 \<or> half h \<and> sqe_opcode cmd = 0x01 \<Longrightarrow>
      check_status st \<and> sound h' \<and> (clean h \<longrightarrow> half h')"
    and format_law: "executed 0 cmd st h h' \<Longrightarrow> sqe_opcode cmd = 0x80 \<Longrightarrow> nsid cmd = 1 \<Longrightarrow>
      check_status st \<Longrightarrow> disk h' = blank"
    and admin_law: "executed 0 cmd st h h' \<Longrightarrow> sqe_opcode cmd \<in> {0x01, 0x05, 0x06, 0x15} \<Longrightarrow>
      disk h' = disk h"
    and cq_law: "executed 0 cmd st h h' \<Longrightarrow> sqe_opcode cmd = 0x05 \<Longrightarrow>
      dptr0 cmd = phys (at_io_cq env) \<Longrightarrow> cdw10 cmd = push_bit 16 63 OR 1 \<Longrightarrow> cdw11 cmd = 1 \<Longrightarrow>
      check_status st \<Longrightarrow> cq_made h'"
    and sq_law: "executed 0 cmd st h h' \<Longrightarrow> sqe_opcode cmd = 0x01 \<Longrightarrow> cq_made h \<Longrightarrow>
      dptr0 cmd = phys (at_io_sq env) \<Longrightarrow> cdw10 cmd = push_bit 16 63 OR 1 \<Longrightarrow>
      cdw11 cmd = push_bit 16 1 OR 1 \<Longrightarrow> check_status st \<Longrightarrow> idle 1 0 0 True h'"
begin

definition same_io :: "Controller \<Rightarrow> Controller \<Rightarrow> bool" where
  "same_io c c' \<longleftrightarrow> m_io_sq_tail c' = m_io_sq_tail c \<and> m_io_cq_head c' = m_io_cq_head c \<and>
     m_io_cq_phase c' = m_io_cq_phase c \<and> m_hhdm_offset c' = m_hhdm_offset c \<and>
     m_initialized c' = m_initialized c \<and> m_regs c' = m_regs c \<and> m_db_stride c' = m_db_stride c"

lemma admin_step:
  assumes "admin_sync c h"
  obtains st c' h' where "admin_command hw env mk c h = Some (st, c', h')" "admin_sync c' h'"
    "executed 0 (mk (m_sq_tail c)) st h h'" "same_io c c'"
  using admin_command_sync [OF assms, of mk] by (auto simp: same_io_def)

lemma same_io_trans: "same_io c c1 \<Longrightarrow> same_io c1 c2 \<Longrightarrow> same_io c c2"
  by (simp add: same_io_def)

lemma same_io_refl: "same_io c c" by (simp add: same_io_def)

lemma head_opcodes:
  "sqe_opcode (zero_sqe\<lparr>cdw0 := cmd_head opc cid, nsid := ns, dptr0 := a, cdw10 := x\<rparr>) = unat opc"
  "sqe_opcode (zero_sqe\<lparr>cdw0 := cmd_head opc cid, nsid := ns, cdw10 := x\<rparr>) = unat opc"
  "sqe_opcode (zero_sqe\<lparr>cdw0 := cmd_head opc cid, dptr0 := a, cdw10 := x, cdw11 := y\<rparr>) = unat opc"
  if "unat opc < 256"
  using cmd_head_fields [OF that] by (simp_all add: sqe_opcode_def)

text \<open>The commands of \<^verbatim>\<open>init\<close>, one by one: each returns with driver and device in step, and
  says what it did to the disk.\<close>

lemma identify_step:
  assumes "admin_sync c h"
  obtains ok c' h' where "identify hw env c h = Some (ok, c', h')" "admin_sync c' h'" "same_io c c'"
    "disk h' = disk h" "sound h \<and> clean h \<longrightarrow> ok \<and> sound h' \<and> clean h'"
proof -
  obtain st c' h' where r: "admin_command hw env (\<lambda>cid. zero_sqe\<lparr>cdw0 := cmd_head 0x06 cid,
       nsid := 0xFFFFFFFF, dptr0 := virt_to_phys env c (at_identify env), cdw10 := 1\<rparr>) c h
       = Some (st, c', h')" "admin_sync c' h'"
    "executed 0 (zero_sqe\<lparr>cdw0 := cmd_head 0x06 (m_sq_tail c),
       nsid := 0xFFFFFFFF, dptr0 := virt_to_phys env c (at_identify env), cdw10 := 1\<rparr>) st h h'"
    "same_io c c'"
    using admin_step [OF assms, of "\<lambda>cid. zero_sqe\<lparr>cdw0 := cmd_head 0x06 cid,
       nsid := 0xFFFFFFFF, dptr0 := virt_to_phys env c (at_identify env), cdw10 := 1\<rparr>"] by blast
  show ?thesis
    using that [of "check_status st" c' h'] r admin_law [OF r(3)] setup_law [OF r(3)]
    by (simp add: identify_def head_opcodes)
qed

lemma identify_namespace_step:
  assumes "admin_sync c h"
  obtains ok c' h' where "identify_namespace hw env c h = Some (ok, c', h')" "admin_sync c' h'"
    "same_io c c'" "disk h' = disk h" "sound h \<and> clean h \<longrightarrow> ok \<and> sound h' \<and> clean h'"
proof -
  obtain st c' h' where r: "admin_command hw env (\<lambda>cid. zero_sqe\<lparr>cdw0 := cmd_head 0x06 cid,
       nsid := 1, dptr0 := virt_to_phys env c (at_namespace env), cdw10 := 0\<rparr>) c h
       = Some (st, c', h')" "admin_sync c' h'"
    "executed 0 (zero_sqe\<lparr>cdw0 := cmd_head 0x06 (m_sq_tail c),
       nsid := 1, dptr0 := virt_to_phys env c (at_namespace env), cdw10 := 0\<rparr>) st h h'"
    "same_io c c'"
    using admin_step [OF assms, of "\<lambda>cid. zero_sqe\<lparr>cdw0 := cmd_head 0x06 cid,
       nsid := 1, dptr0 := virt_to_phys env c (at_namespace env), cdw10 := 0\<rparr>"] by blast
  show ?thesis
    using that [of "check_status st" c' h'] r admin_law [OF r(3)] setup_law [OF r(3)]
    by (simp add: identify_namespace_def head_opcodes)
qed

lemma format_step:
  assumes "admin_sync c h"
  obtains ok c' h' where "format_namespace hw env c h = Some (ok, c', h')" "admin_sync c' h'"
    "same_io c c'" "ok \<longrightarrow> disk h' = blank"
    "sound h \<and> clean h \<longrightarrow> ok \<and> sound h' \<and> clean h'"
proof -
  obtain st c' h' where r: "admin_command hw env
       (\<lambda>cid. zero_sqe\<lparr>cdw0 := cmd_head 0x80 cid, nsid := 1, cdw10 := 0\<rparr>) c h
       = Some (st, c', h')" "admin_sync c' h'"
    "executed 0 (zero_sqe\<lparr>cdw0 := cmd_head 0x80 (m_sq_tail c), nsid := 1, cdw10 := 0\<rparr>) st h h'"
    "same_io c c'"
    using admin_step [OF assms, of "\<lambda>cid. zero_sqe\<lparr>cdw0 := cmd_head 0x80 cid, nsid := 1, cdw10 := 0\<rparr>"]
    by blast
  show ?thesis
    using that [of "check_status st" c' h'] r format_law [OF r(3)] setup_law [OF r(3)]
    by (simp add: format_namespace_def head_opcodes)
qed

lemma attach_step:
  assumes "admin_sync c h"
  obtains ok c' h' where "namespace_attach hw env c h = Some (ok, c', h')" "admin_sync c' h'"
    "same_io c c'"
    "disk h' = disk h"
    "sound h \<and> clean h \<longrightarrow> ok \<and> sound h' \<and> clean h'"
proof -
  let ?h = "hw_put_bytes hw (at_attach env) attach_list h"
  have "admin_sync c ?h" using assms poke(4) by (auto simp: admin_sync_def)
  then obtain st c' h' where r: "admin_command hw env (\<lambda>cid. zero_sqe\<lparr>cdw0 := cmd_head 0x15 cid,
       nsid := 1, dptr0 := virt_to_phys env c (at_attach env), cdw10 := 0\<rparr>) c ?h
       = Some (st, c', h')" "admin_sync c' h'"
    "executed 0 (zero_sqe\<lparr>cdw0 := cmd_head 0x15 (m_sq_tail c),
       nsid := 1, dptr0 := virt_to_phys env c (at_attach env), cdw10 := 0\<rparr>) st ?h h'"
    "same_io c c'"
    using admin_step [of c ?h "\<lambda>cid. zero_sqe\<lparr>cdw0 := cmd_head 0x15 cid,
       nsid := 1, dptr0 := virt_to_phys env c (at_attach env), cdw10 := 0\<rparr>"] by blast
  have snd: "sound h \<and> clean h \<longrightarrow> sound h' \<and> clean h' \<and>
      (check_status st \<or> status_sct st = 1 \<and> status_sc st = 0x18)"
    using setup_law [OF r(3)] poke_sound by (simp add: head_opcodes)
  have d: "disk h' = disk h" using admin_law [OF r(3)] poke(2) by (simp add: head_opcodes)
  have run: "namespace_attach hw env c h = Some (if \<not> check_status st then
      status_sct st = 1 \<and> status_sc st = 0x18 else True, c', h')"
    using r(1) by (simp add: namespace_attach_def)
  show ?thesis by (rule that [OF run r(2,4) d]) (use snd in \<open>simp, blast\<close>)
qed

lemma queues_step:
  assumes "admin_sync c h" and off: "m_hhdm_offset c = hhdm"
  obtains ok c' h' where "create_io_queues hw env c h = Some (ok, c', h')" "admin_sync c' h'"
    "same_io c c'" "disk h' = disk h" "ok \<longrightarrow> idle 1 0 0 True h'"
    "sound h \<and> clean h \<longrightarrow> ok \<and> sound h'"
proof -
  let ?cq = "\<lambda>cid. zero_sqe\<lparr>cdw0 := cmd_head 0x05 cid,
       dptr0 := virt_to_phys env c (at_io_cq env), cdw10 := push_bit 16 63 OR 1, cdw11 := 1\<rparr>"
  obtain st1 c1 h1 where r: "admin_command hw env ?cq c h = Some (st1, c1, h1)" "admin_sync c1 h1"
    "executed 0 (?cq (m_sq_tail c)) st1 h h1" "same_io c c1"
    using admin_step [OF assms(1), of ?cq] by blast
  have d1: "disk h1 = disk h" using admin_law [OF r(3)] by (simp add: head_opcodes)
  let ?sq = "\<lambda>cid. zero_sqe\<lparr>cdw0 := cmd_head 0x01 cid,
       dptr0 := virt_to_phys env c1 (at_io_sq env), cdw10 := push_bit 16 63 OR 1,
       cdw11 := push_bit 16 1 OR 1\<rparr>"
  show ?thesis
  proof (cases "check_status st1")
    case False
    then show ?thesis
      using that [of False c1 h1] r d1 queues_law [OF r(3)] by (auto simp: create_io_queues_def head_opcodes)
  next
    case True
    have made: "cq_made h1"
      by (rule cq_law [OF r(3)])
        (simp_all add: True off phys_law head_opcodes)
    obtain st2 c2 h2 where q: "admin_command hw env ?sq c1 h1 = Some (st2, c2, h2)" "admin_sync c2 h2"
      "executed 0 (?sq (m_sq_tail c1)) st2 h1 h2" "same_io c1 c2"
      using admin_step [OF r(2), of ?sq] by blast
    have off1: "m_hhdm_offset c1 = hhdm" using r(4) off by (simp add: same_io_def)
    have i: "idle 1 0 0 True h2" if "check_status st2"
      by (rule sq_law [OF q(3)])
        (simp_all add: that made off1 phys_law head_opcodes)
    have d2: "disk h2 = disk h" using admin_law [OF q(3)] d1 by (simp add: head_opcodes)
    show ?thesis
      using that [of "check_status st2" c2 h2] r q d2 i True same_io_trans [OF r(4) q(4)]
        queues_law [OF r(3)] queues_law [OF q(3)]
      by (simp add: create_io_queues_def head_opcodes)
  qed
qed

text \<open>The commands of \<^verbatim>\<open>init\<close> together.\<close>

lemma init_commands_sync:
  assumes s: "admin_sync c h" and off: "m_hhdm_offset c = hhdm"
    and io: "m_io_sq_tail c = 0" "m_io_cq_head c = 0" "m_io_cq_phase c = 1"
  obtains ok c' h' where "init_commands hw env c h = Some (ok, c', h')" "admin_sync c' h'"
    "ok \<longrightarrow> m_initialized c' \<and> io_sync c' h' \<and> m_hhdm_offset c' = hhdm \<and> disk h' = blank"
    "sound h \<and> clean h \<longrightarrow> ok \<and> sound h'"
proof -
  obtain ok1 c1 h1 where a: "identify hw env c h = Some (ok1, c1, h1)" "admin_sync c1 h1"
    "same_io c c1" "sound h \<and> clean h \<longrightarrow> ok1 \<and> sound h1 \<and> clean h1" by (rule identify_step [OF s])
  obtain ok2 c2 h2 where b: "identify_namespace hw env c1 h1 = Some (ok2, c2, h2)"
    "admin_sync c2 h2" "same_io c1 c2"
    "sound h1 \<and> clean h1 \<longrightarrow> ok2 \<and> sound h2 \<and> clean h2" by (rule identify_namespace_step [OF a(2)])
  obtain ok3 c3 h3 where f: "format_namespace hw env c2 h2 = Some (ok3, c3, h3)"
    "admin_sync c3 h3" "same_io c2 c3" "ok3 \<longrightarrow> disk h3 = blank"
    "sound h2 \<and> clean h2 \<longrightarrow> ok3 \<and> sound h3 \<and> clean h3" by (rule format_step [OF b(2)])
  obtain ok4 c4 h4 where n: "namespace_attach hw env c3 h3 = Some (ok4, c4, h4)"
    "admin_sync c4 h4" "same_io c3 c4" "disk h4 = disk h3"
    "sound h3 \<and> clean h3 \<longrightarrow> ok4 \<and> sound h4 \<and> clean h4" by (rule attach_step [OF f(2)])
  have same: "same_io c c4"
    using a(3) b(3) f(3) n(3) by (metis same_io_trans)
  then have "m_hhdm_offset c4 = hhdm" using off by (simp add: same_io_def)
  then obtain ok5 c5 h5 where q: "create_io_queues hw env c4 h4 = Some (ok5, c5, h5)"
    "admin_sync c5 h5" "same_io c4 c5" "disk h5 = disk h4" "ok5 \<longrightarrow> idle 1 0 0 True h5"
    "sound h4 \<and> clean h4 \<longrightarrow> ok5 \<and> sound h5"
    by (rule queues_step [OF n(2)])
  have "same_io c c5" using same q(3) by (rule same_io_trans)
  then have io5: "m_io_sq_tail c5 = 0" "m_io_cq_head c5 = 0" "m_io_cq_phase c5 = 1"
    "m_hhdm_offset c5 = hhdm" using io off by (simp_all add: same_io_def)
  have fin: "io_sync (c5\<lparr>m_initialized := True\<rparr>) h5" if ok5
    using q(2) q(5) that io5
    by (auto simp: io_sync_def admin_sync_def phase_bit_def intro!: exI [of _ True])
  have adm: "admin_sync (c5\<lparr>m_initialized := True\<rparr>) h5"
    using q(2) by (simp add: admin_sync_def)
  let ?ok = "ok1 \<and> ok2 \<and> ok3 \<and> ok4 \<and> ok5"
  have snd: "sound h \<and> clean h \<longrightarrow> ?ok \<and> sound h5"
    using a(4) b(4) f(5) n(5) q(6) by blast
  have run: "init_commands hw env c h = Some (?ok,
      if \<not> ok1 then (c1, h1) else if \<not> ok2 then (c2, h2) else if \<not> ok3 then (c3, h3)
      else if \<not> ok4 then (c4, h4) else if \<not> ok5 then (c5, h5)
      else (c5\<lparr>m_initialized := True\<rparr>, h5))"
    using a(1) b(1) f(1) n(1) q(1) by (simp add: init_commands_def)
  show ?thesis
  proof (cases ?ok)
    case True
    then show ?thesis
      using that [of True "c5\<lparr>m_initialized := True\<rparr>" h5] run adm fin f(4) n(4) q(4) io5(4) snd by simp
  next
    case False
    obtain c' h' where "init_commands hw env c h = Some (False, c', h')" "admin_sync c' h'"
    proof (cases "ok1 \<and> ok2 \<and> ok3 \<and> ok4")
      case True
      then show ?thesis using that [of c5 h5] run False q(2) by simp
    next
      case f4: False
      show ?thesis
        using that [of c1 h1] that [of c2 h2] that [of c3 h3] that [of c4 h4]
          run f4 a(2) b(2) f(2) n(2) by (cases ok1; cases ok2; cases ok3; simp)
    qed
    then show ?thesis using that snd False by blast
  qed
qed

text \<open>Up to the first command: the controller is stopped, programmed and started.\<close>

lemma init_starts:
  assumes f: "fresh c" and p: "present h"
  obtains ok c1 h6 where "init hw env bar0 hhdm c h =
      (if \<not> ok then Some (False, c1, h6) else init_commands hw env c1 h6)"
    "ok \<longrightarrow> admin_sync c1 h6" "m_hhdm_offset c1 = hhdm"
    "m_io_sq_tail c1 = 0" "m_io_cq_head c1 = 0" "m_io_cq_phase c1 = 1"
    "sound h \<longrightarrow> ok \<and> sound h6 \<and> clean h6"
proof -
  obtain cap h0 where cap: "hw_read64 hw (regs + reg_cap) h = (cap, h0)" "present h0"
    "sound h0 = sound h" "unat (drop_bit 32 cap AND 0xF) = stride" using cap_law [OF p] by blast
  obtain cc h1 where cc: "hw_read32 hw (regs + reg_cc) h0 = (cc, h1)" "present h1"
    "enabled h1 = enabled h0" "bit cc 0 = enabled h0"
    "sound h1 = sound h0" using cc_law [OF cap(2)] by blast
  let ?c1 = "c\<lparr>m_hhdm_offset := hhdm, m_regs := regs, m_max_queue_entries := ucast (cap AND 0xFFFF) + 1,
                   m_db_stride := ucast (drop_bit 32 cap AND 0xF)\<rparr>"
  have off: "\<not> bit (x AND NOT 1) 0" for x :: u32 by (simp add: bit_simps)
  have "\<exists>h2. (if cc AND 1 \<noteq> 0 then disable hw ?c1 h1 else Some h1) = Some h2 \<and> present h2 \<and>
      \<not> enabled h2 \<and> sound h2 = sound h1"
  proof (cases "bit cc 0")
    case True
    obtain cc2 h1' where r: "hw_read32 hw (regs + reg_cc) h1 = (cc2, h1')" "present h1'"
      "sound h1' = sound h1" using cc_law [OF cc(2)] by blast
    obtain h2 where "stops hw (regs + reg_csts) (hw_write32 hw (regs + reg_cc) (cc2 AND NOT 1) h1') h2"
      "present h2" "\<not> enabled h2" "sound h2 = sound h1'" using disable_law [OF r(2) off] by blast
    then show ?thesis
      using r True by (auto simp: disable_def wait_clear_stops and_one_eq bit_0 mod_2_eq_odd)
  next
    case False
    then show ?thesis using cc by (auto simp: and_one_eq bit_0 mod_2_eq_odd)
  qed
  then obtain h2 where h2: "(if cc AND 1 \<noteq> 0 then disable hw ?c1 h1 else Some h1) = Some h2"
    "present h2" "\<not> enabled h2" "sound h2 = sound h1" by blast
  define h5 where "h5 = hw_write64 hw (regs + reg_acq) (phys (at_admin_cq env))
                (hw_write64 hw (regs + reg_asq) (phys (at_admin_sq env))
                  (hw_write32 hw (regs + reg_aqa) (push_bit 16 63 OR 63) h2))"
  have h5: "present h5" "\<not> enabled h5" "programmed h5"
    "sound h5 = sound h2" using program_law [OF h2(2,3)] by (simp_all add: h5_def Let_def)
  obtain cc5 h5' where c5: "hw_read32 hw (regs + reg_cc) h5 = (cc5, h5')" "present h5'"
    "\<not> enabled h5'" "programmed h5'" "sound h5' = sound h5" using cc_law [OF h5(1)] h5 by metis
  have "cc_ok (enable_bits cc5)" using enable_bits_cc_ok .
  then obtain ok h6 where e: "becomes_ready hw (regs + reg_csts)
      (hw_write32 hw (regs + reg_cc) (enable_bits cc5) h5') ok h6" "ok \<longrightarrow> idle 0 0 0 True h6"
    "sound h5' \<longrightarrow> ok \<and> sound h6 \<and> clean h6" using enable_law [OF c5(2-4)] by blast
  have en: "enable hw ?c1 h5 = Some (ok, h6)"
    using c5(1) wait_ready_becomes [OF e(1)] by (simp add: enable_def)
  have v: "virt_to_phys env ?c1 (at_admin_sq env) = phys (at_admin_sq env)"
    "virt_to_phys env ?c1 (at_admin_cq env) = phys (at_admin_cq env)"
    by (simp_all add: phys_law)
  have run: "init hw env bar0 hhdm c h =
      (if \<not> ok then Some (False, ?c1, h6) else init_commands hw env ?c1 h6)"
    using f boot(1) at_regs cap(1) cc(1) h2(1) en [unfolded h5_def]
    by (simp add: init_def fresh_def Let_def v)
  have snd: "sound h \<longrightarrow> ok \<and> sound h6 \<and> clean h6"
    using cap(3) cc(5) h2(4) h5(4) c5(5) e(3) by blast
  have adm: "ok \<longrightarrow> admin_sync ?c1 h6"
  proof
    assume ok
    have "ucast (drop_bit 32 cap AND 0xF) = (of_nat stride :: u32)"
      using cap(4) by (metis of_nat_unat)
    then show "admin_sync ?c1 h6"
      using f e(2) \<open>ok\<close> by (auto simp: admin_sync_def fresh_def phase_bit_def intro!: exI [of _ True])
  qed
  show ?thesis
    by (rule that [OF run adm]) (use f snd in \<open>simp_all add: fresh_def\<close>)
qed

text \<open>\<^verbatim>\<open>init\<close> as a whole, from a controller in any state.\<close>

lemma init_boots:
  assumes f: "fresh c" and p: "present h"
  obtains ok c' h' where "init hw env bar0 hhdm c h = Some (ok, c', h')"
    "ok \<longrightarrow> m_initialized c' \<and> admin_sync c' h' \<and> io_sync c' h' \<and> m_hhdm_offset c' = hhdm \<and>
       disk h' = blank"
    "sound h \<longrightarrow> ok \<and> sound h'"
proof -
  obtain ok c1 h6 where r: "init hw env bar0 hhdm c h =
      (if \<not> ok then Some (False, c1, h6) else init_commands hw env c1 h6)"
    "ok \<longrightarrow> admin_sync c1 h6" "m_hhdm_offset c1 = hhdm"
    "m_io_sq_tail c1 = 0" "m_io_cq_head c1 = 0" "m_io_cq_phase c1 = 1"
    "sound h \<longrightarrow> ok \<and> sound h6 \<and> clean h6" by (rule init_starts [OF f p])
  show ?thesis
  proof (cases ok)
    case False
    then show ?thesis using that [of False c1 h6] r by simp
  next
    case True
    then have a: "admin_sync c1 h6" using r(2) by simp
    obtain ok' c' h' where "init_commands hw env c1 h6 = Some (ok', c', h')" "admin_sync c' h'"
      "ok' \<longrightarrow> m_initialized c' \<and> io_sync c' h' \<and> m_hhdm_offset c' = hhdm \<and> disk h' = blank"
      "sound h6 \<and> clean h6 \<longrightarrow> ok' \<and> sound h'"
      by (rule init_commands_sync [OF a r(3-6)])
    then show ?thesis using that [of ok' c' h'] r True by simp
  qed
qed

end

end
