(* ===== verification/NvmeRef.thy ===== *)
theory NvmeRef
  imports NvmeBoot
begin

unbundle bit_operations_syntax

text \<open>
  A concrete NVMe controller that keeps the laws of \<open>nvme_boot\<close>: registers, queue memory,
  completion entries with phase bits posted one poll late, and a namespace of 204800 blocks some
  of which may be bad. The kernel runs at Limine's addresses: statics are translated by the
  executable address, the registers are reached through the direct map. With it the whole path
  from \<^verbatim>\<open>write_file\<close> down to the doorbells is run end to end.
\<close>

section \<open>The controller\<close>

record dev =
  d_disk :: "bytes list"
  d_mem :: "u64 \<Rightarrow> u8"
  d_bad :: "nat list"
  d_iocq :: "u64 option"
  d_iosq :: "u64 option"

record refhw =
  r_dev :: dev
  r_cc :: u32
  r_rdy :: bool
  r_aqa :: u32
  r_asq :: u64
  r_acq :: u64
  r_sqe :: "u64 \<Rightarrow> SubmissionQueueEntry"
  r_cqe :: "u64 \<Rightarrow> CompletionQueueEntry"
  r_pos :: "nat \<Rightarrow> nat \<times> nat \<times> bool"
  r_pend :: "(nat \<times> SubmissionQueueEntry) option"

text \<open>A namespace after Format NVM.\<close>

definition ref_blank :: "bytes list" where
  "ref_blank = replicate 204800 (replicate 4096 0)"

definition identify_data :: bytes where
  "identify_data = replicate 24 0 @ map of_char ''QEMU NVMe Ctrl'' @ replicate 4058 32"

definition ref_admin :: "SubmissionQueueEntry \<Rightarrow> dev \<Rightarrow> u16 \<times> dev" where
  "ref_admin cmd d =
    (let opc = sqe_opcode cmd in
     if opc = 0x06 then (0, d\<lparr>d_mem := put_mem (d_mem d) (dptr0 cmd) identify_data\<rparr>)
     else if opc = 0x80 then
       (if nsid cmd = 1 then (0, d\<lparr>d_disk := ref_blank\<rparr>) else (0x16, d))
     else if opc = 0x15 then (0x230, d)
     else if opc = 0x05 then
       (if d_iocq d = None then (0, d\<lparr>d_iocq := Some (dptr0 cmd)\<rparr>) else (0x202, d))
     else if opc = 0x01 then
       (if d_iocq d \<noteq> None \<and> d_iosq d = None then (0, d\<lparr>d_iosq := Some (dptr0 cmd)\<rparr>)
        else (0x202, d))
     else (2, d))"

definition ref_io :: "SubmissionQueueEntry \<Rightarrow> dev \<Rightarrow> u16 \<times> dev" where
  "ref_io cmd d =
    (let b = sqe_slba cmd div 8 in
     if nsid cmd \<noteq> 1 then (0x16, d)
     else if sqe_slba cmd mod 8 \<noteq> 0 \<or> sqe_nlb cmd \<noteq> 8 then (4, d)
     else if length (d_disk d) \<le> b then (0x100, d)
     else if b \<in> set (d_bad d) then (0x502, d)
     else if sqe_opcode cmd = 2 then
       (0, d\<lparr>d_mem := prp_put cmd (d_disk d ! b) (d_mem d)\<rparr>)
     else if sqe_opcode cmd = 1 then
       (0, d\<lparr>d_disk := (d_disk d)[b := prp_get cmd (d_mem d)]\<rparr>)
     else (2, d))"

definition ref_exec :: "nat \<Rightarrow> SubmissionQueueEntry \<Rightarrow> dev \<Rightarrow> u16 \<times> dev" where
  "ref_exec q cmd d = (if q = 0 then ref_admin cmd d else ref_io cmd d)"

section \<open>The machine around it\<close>

definition ref_env :: kernel_env where
  "ref_env = \<lparr>exec_addr = Some (0xFFFFFFFF80000000, 0x200000),
     at_admin_sq = 0xFFFFFFFF80100000, at_admin_cq = 0xFFFFFFFF80101000,
     at_io_sq = 0xFFFFFFFF80102000, at_io_cq = 0xFFFFFFFF80103000,
     at_identify = 0xFFFFFFFF80104000, at_namespace = 0xFFFFFFFF80105000,
     at_attach = 0xFFFFFFFF80106000\<rparr>"

definition ref_hhdm :: u64 where "ref_hhdm = 0xFFFF800000000000"
definition ref_bar0 :: u64 where "ref_bar0 = 0x1FEB00000"
definition ref_regs :: u64 where "ref_regs = 0xFFFF8001FEB00000"
definition ref_buf :: u64 where "ref_buf = 0xFFFFFFFF80107000"
definition ref_page :: u64 where "ref_page = 0x307000"

definition ref_phys :: "u64 \<Rightarrow> u64" where
  "ref_phys a = a - 0xFFFFFFFF80000000 + 0x200000"

definition ref_step :: "refhw \<Rightarrow> refhw" where
  "ref_step h = (case r_pend h of None \<Rightarrow> h | Some (q, cmd) \<Rightarrow>
     (case ref_exec q cmd (r_dev h) of (s, d) \<Rightarrow> case r_pos h q of (t, c, ph) \<Rightarrow>
        let cqb = (if q = 0 then r_acq h else case d_iocq d of None \<Rightarrow> 0 | Some b \<Rightarrow> b) in
        h\<lparr>r_dev := d, r_pend := None,
          r_cqe := (r_cqe h)(cqb + 16 * of_nat c := \<lparr>cq_dw0 = 0, cq_reserved = 0,
            cq_sq_head = of_nat t, cq_sq_id = of_nat q, command_id = of_nat (sqe_cid cmd),
            cq_status = s OR of_bool ph\<rparr>),
          r_pos := (r_pos h)(q := (t, (c + 1) mod 64, if c = 63 then \<not> ph else ph))\<rparr>))"

definition ref_tail :: "nat \<Rightarrow> u64 \<Rightarrow> u32 \<Rightarrow> refhw \<Rightarrow> refhw" where
  "ref_tail q sqb v h = (case r_pos h q of (t, c, ph) \<Rightarrow>
     h\<lparr>r_pend := Some (q, r_sqe h (sqb + 64 * of_nat t)),
       r_pos := (r_pos h)(q := (unat v mod 64, c, ph))\<rparr>)"

definition ref_set_cc :: "u32 \<Rightarrow> refhw \<Rightarrow> refhw" where
  "ref_set_cc v h =
     (if bit v 0 \<and> \<not> bit (r_cc h) 0
      then h\<lparr>r_cc := v, r_pos := (\<lambda>_. (0, 0, True)), r_pend := None,
             r_dev := (r_dev h)\<lparr>d_iocq := None, d_iosq := None\<rparr>\<rparr>
      else h\<lparr>r_cc := v\<rparr>)"

definition ref_write32 :: "u64 \<Rightarrow> u32 \<Rightarrow> refhw \<Rightarrow> refhw" where
  "ref_write32 a v h =
    (if a = ref_regs + reg_cc then ref_set_cc v h
     else if a = ref_regs + reg_aqa then h\<lparr>r_aqa := v\<rparr>
     else if a = ref_regs + 0x1000 \<and> bit (r_cc h) 0 then ref_tail 0 (r_asq h) v h
     else if a = ref_regs + 0x1008 then
       (case d_iosq (r_dev h) of None \<Rightarrow> h | Some b \<Rightarrow> ref_tail 1 b v h)
     else h)"

definition ref_write64 :: "u64 \<Rightarrow> u64 \<Rightarrow> refhw \<Rightarrow> refhw" where
  "ref_write64 a v h =
    (if a = ref_regs + reg_asq then h\<lparr>r_asq := v\<rparr>
     else if a = ref_regs + reg_acq then h\<lparr>r_acq := v\<rparr> else h)"

definition ref_read32 :: "u64 \<Rightarrow> refhw \<Rightarrow> u32 \<times> refhw" where
  "ref_read32 a h =
    (if a = ref_regs + reg_cc then (r_cc h, h)
     else if a = ref_regs + reg_csts then
       (if bit (r_cc h) 0 \<and> \<not> (cc_ok (r_cc h) \<and> r_aqa h = 0x3F003F) then (2, h)
        else (of_bool (r_rdy h), h\<lparr>r_rdy := bit (r_cc h) 0\<rparr>))
     else (0, h))"

definition ref_hw :: "refhw hw" where
  "ref_hw = \<lparr>hw_read32 = ref_read32, hw_read64 = (\<lambda>a h. (0x20140103FF, h)),
     hw_write32 = ref_write32, hw_write64 = ref_write64,
     hw_put_sqe = (\<lambda>a s h. h\<lparr>r_sqe := (r_sqe h)(ref_phys a := s)\<rparr>),
     hw_get_cqe = (\<lambda>a h. (r_cqe h (ref_phys a), ref_step h)),
     hw_put_bytes = (\<lambda>a bs h. h\<lparr>r_dev := (r_dev h)
       \<lparr>d_mem := put_mem (d_mem (r_dev h)) (ref_phys a) bs\<rparr>\<rparr>),
     hw_get_bytes = (\<lambda>a n h. get_mem (d_mem (r_dev h)) (ref_phys a) n)\<rparr>"

section \<open>Its queues\<close>

definition ref_cqb :: "nat \<Rightarrow> u64" where "ref_cqb q = ref_phys (cq_base ref_env q)"
definition ref_sqb :: "nat \<Rightarrow> u64" where "ref_sqb q = ref_phys (sq_base ref_env q)"

text \<open>The phase bits of a completion ring: entries before the head are from this lap.\<close>

definition ring_ph :: "nat \<Rightarrow> nat \<Rightarrow> bool \<Rightarrow> refhw \<Rightarrow> bool" where
  "ring_ph q c ph h \<longleftrightarrow> (\<forall>i < 64.
     bit (cq_status (r_cqe h (ref_cqb q + 16 * of_nat i))) 0 = (if i < c then ph else \<not> ph))"

definition fresh1 :: "refhw \<Rightarrow> bool" where
  "fresh1 h \<longleftrightarrow> r_pos h 1 = (0, 0, True) \<and> ring_ph 1 0 True h"

definition ref_created :: "nat \<Rightarrow> refhw \<Rightarrow> bool" where
  "ref_created q h \<longleftrightarrow> bit (r_cc h) 0 \<and> r_asq h = ref_sqb 0 \<and> r_acq h = ref_cqb 0 \<and>
     (q = 1 \<longrightarrow> d_iocq (r_dev h) = Some (ref_cqb 1) \<and> d_iosq (r_dev h) = Some (ref_sqb 1))"

definition ref_steady :: "refhw \<Rightarrow> bool" where
  "ref_steady h \<longleftrightarrow> ref_created 0 h \<and> r_pend h = None \<and> wf_disk 204800 (d_disk (r_dev h)) \<and>
     (d_iosq (r_dev h) = None \<longrightarrow> fresh1 h)"

definition ref_idle :: "nat \<Rightarrow> nat \<Rightarrow> nat \<Rightarrow> bool \<Rightarrow> refhw \<Rightarrow> bool" where
  "ref_idle q t c ph h \<longleftrightarrow> q < 2 \<and> t < 64 \<and> c < 64 \<and> r_pos h q = (t, c, ph) \<and> ring_ph q c ph h \<and>
     ref_created q h \<and> ref_steady h"

definition ref_executed :: "nat \<Rightarrow> SubmissionQueueEntry \<Rightarrow> u16 \<Rightarrow> refhw \<Rightarrow> refhw \<Rightarrow> bool" where
  "ref_executed q cmd st h h' \<longleftrightarrow> q < 2 \<and> ref_steady h \<and> ref_exec q cmd (r_dev h) = (st AND NOT 1, r_dev h') \<and>
     ref_steady h' \<and> (d_iosq (r_dev h) = None \<longrightarrow> q = 0 \<and> fresh1 h')"

definition ref_present :: "refhw \<Rightarrow> bool" where
  "ref_present h \<longleftrightarrow> ring_ph 0 0 True h \<and> ring_ph 1 0 True h \<and> wf_disk 204800 (d_disk (r_dev h))"

lemma ref_bases:
  "ref_cqb 0 = 0x301000" "ref_cqb 1 = 0x303000" "ref_sqb 0 = 0x300000" "ref_sqb 1 = 0x302000"
  by (simp_all add: ref_cqb_def ref_sqb_def ref_phys_def cq_base_def sq_base_def ref_env_def)

lemma unat_slot:
  assumes "i < 64" and "q < 2"
  shows "unat (ref_cqb q + 16 * of_nat i) = (if q = 0 then 0x301000 else 0x303000) + 16 * i"
proof -
  have e: "(0x301000 + 16 * of_nat i :: u64) = of_nat (0x301000 + 16 * i)"
    "(0x303000 + 16 * of_nat i :: u64) = of_nat (0x303000 + 16 * i)" by simp_all
  have u: "unat (of_nat k :: u64) = k" if "k < 2 ^ 64" for k
    using that by (simp add: unat_of_nat)
  have "unat (of_nat (0x301000 + 16 * i) :: u64) = 0x301000 + 16 * i"
    "unat (of_nat (0x303000 + 16 * i) :: u64) = 0x303000 + 16 * i"
    using assms(1) by (intro u; simp)+
  moreover have "q = 0 \<or> q = 1" using assms(2) by auto
  ultimately show ?thesis
    by (elim disjE) (simp_all only: ref_bases e if_True if_False one_neq_zero simp_thms)
qed

lemma slot_eq:
  assumes "i < 64" and "j < 64" and "q < 2" and "q' < 2"
  shows "ref_cqb q + 16 * of_nat i = ref_cqb q' + 16 * of_nat j \<longleftrightarrow> q = q' \<and> i = j"
proof
  assume "ref_cqb q + 16 * of_nat i = ref_cqb q' + 16 * of_nat j"
  then have "unat (ref_cqb q + 16 * of_nat i) = unat (ref_cqb q' + 16 * of_nat j)" by simp
  then show "q = q' \<and> i = j"
    using assms unfolding unat_slot [OF assms(1,3)] unat_slot [OF assms(2,4)]
    by (auto split: if_splits)
qed auto

lemma ref_phys_slot:
  "ref_phys (cq_base ref_env q + a) = ref_cqb q + a" "ref_phys (sq_base ref_env q + a) = ref_sqb q + a"
  by (simp_all add: ref_cqb_def ref_sqb_def ref_phys_def)

lemma wf_blank: "wf_disk 204800 ref_blank"
  unfolding wf_disk_def ref_blank_def by simp

lemma length_prp_get: "length (prp_get cmd m) = 4096"
  by (simp add: prp_get_def prp_room_def)

lemma wf_disk_update: "wf_disk n d \<Longrightarrow> wf_disk n (d[b := prp_get cmd m])"
  by (auto simp: wf_disk_def length_prp_get dest!: subsetD [OF set_update_subset_insert])

text \<open>What a command may change.\<close>

lemma ref_exec_facts:
  assumes "ref_exec q cmd d = (s, d')"
  shows "\<not> bit s 0" and "wf_disk 204800 (d_disk d) \<Longrightarrow> wf_disk 204800 (d_disk d')"
    and "d_bad d' = d_bad d"
    and "d_iosq d \<noteq> None \<Longrightarrow> d_iosq d' = d_iosq d" and "d_iocq d \<noteq> None \<Longrightarrow> d_iocq d' = d_iocq d"
    and "q \<noteq> 0 \<Longrightarrow> d_iosq d' = d_iosq d" and "q \<noteq> 0 \<Longrightarrow> d_iocq d' = d_iocq d"
proof -
  show "\<not> bit s 0"
    using assms by (auto simp: ref_exec_def ref_admin_def ref_io_def Let_def split: if_splits)
  show "wf_disk 204800 (d_disk d')" if "wf_disk 204800 (d_disk d)"
    using assms that wf_blank wf_disk_update [OF that]
    by (auto simp: ref_exec_def ref_admin_def ref_io_def Let_def split: if_splits)
  show "d_bad d' = d_bad d"
    using assms by (auto simp: ref_exec_def ref_admin_def ref_io_def Let_def split: if_splits)
  show "d_iosq d \<noteq> None \<Longrightarrow> d_iosq d' = d_iosq d" "d_iocq d \<noteq> None \<Longrightarrow> d_iocq d' = d_iocq d"
    using assms by (auto simp: ref_exec_def ref_admin_def ref_io_def Let_def split: if_splits)
  show "q \<noteq> 0 \<Longrightarrow> d_iosq d' = d_iosq d" "q \<noteq> 0 \<Longrightarrow> d_iocq d' = d_iocq d"
    using assms by (auto simp: ref_exec_def ref_io_def Let_def split: if_splits)
qed

text \<open>Posting a completion entry, and what it does to the phase bits of the rings.\<close>

lemma ring_ph_post:
  assumes "ring_ph q c ph h" and "c < 64" and "q < 2"
    and "r_cqe h' = (r_cqe h)(ref_cqb q + 16 * of_nat c := e)" and "bit (cq_status e) 0 = ph"
  shows "ring_ph q ((c + 1) mod 64) (if c = 63 then \<not> ph else ph) h'"
  using assms slot_eq [of _ c q q]
  by (cases "c = 63") (auto simp: ring_ph_def less_Suc_eq)

lemma ring_ph_other:
  assumes "ring_ph q' c' ph' h" and "q' \<noteq> q" and "c < 64" and "q < 2" and "q' < 2"
    and "r_cqe h' = (r_cqe h)(ref_cqb q + 16 * of_nat c := e)"
  shows "ring_ph q' c' ph' h'"
  using assms slot_eq [of _ c q' q] by (auto simp: ring_ph_def)

lemma ring_ph_cong: "r_cqe h' = r_cqe h \<Longrightarrow> ring_ph q c ph h' = ring_ph q c ph h"
  by (simp add: ring_ph_def)

section \<open>The queue protocol\<close>

lemma ref_hw_simps [simp]:
  "hw_read32 ref_hw = ref_read32" "hw_read64 ref_hw a h = (0x20140103FF, h)"
  "hw_write32 ref_hw = ref_write32" "hw_write64 ref_hw = ref_write64"
  "hw_put_sqe ref_hw a sqe h = h\<lparr>r_sqe := (r_sqe h)(ref_phys a := sqe)\<rparr>"
  "hw_get_cqe ref_hw a h = (r_cqe h (ref_phys a), ref_step h)"
  "hw_put_bytes ref_hw a bs h = h\<lparr>r_dev := (r_dev h)
     \<lparr>d_mem := put_mem (d_mem (r_dev h)) (ref_phys a) bs\<rparr>\<rparr>"
  "hw_get_bytes ref_hw a k h = get_mem (d_mem (r_dev h)) (ref_phys a) k"
  by (simp_all add: ref_hw_def)

lemma ref_doorbells:
  "doorbell_at ref_regs 0 0 = ref_regs + 0x1000" "doorbell_at ref_regs 0 1 = ref_regs + 0x1004"
  "doorbell_at ref_regs 0 2 = ref_regs + 0x1008" "doorbell_at ref_regs 0 3 = ref_regs + 0x100C"
  by (simp_all add: doorbell_at_def)

lemma ref_announce:
  assumes "ref_idle q t c ph h"
  shows "ref_write32 (doorbell_at ref_regs 0 (2 * q)) (of_nat ((t + 1) mod 64))
      (hw_put_sqe ref_hw (sq_base ref_env q + 64 * of_nat t) cmd h)
    = h\<lparr>r_sqe := (r_sqe h)(ref_sqb q + 64 * of_nat t := cmd), r_pend := Some (q, cmd),
        r_pos := (r_pos h)(q := ((t + 1) mod 64, c, ph))\<rparr>"
proof -
  have u: "unat (of_nat ((t + 1) mod 64) :: u32) = (t + 1) mod 64"
    by (simp add: unat_of_nat)
  have "q = 0 \<or> q = 1" using assms by (auto simp: ref_idle_def)
  then show ?thesis
    using assms u ref_doorbells
    by (elim disjE) (auto simp: ref_idle_def ref_created_def ref_steady_def ref_write32_def
        ref_tail_def ref_phys_slot reg_cc_def reg_aqa_def)
qed

lemma ref_head_doorbell:
  assumes "q < 2"
  shows "ref_write32 (doorbell_at ref_regs 0 (2 * q + 1)) v h = h"
proof -
  have "doorbell_at ref_regs 0 (2 * q + 1) = ref_regs + (if q = 0 then 0x1004 else 0x100C)"
  proof -
    have "q = 0 \<or> q = 1" using assms by auto
    then show ?thesis by (elim disjE) (simp_all add: doorbell_at_def)
  qed
  then show ?thesis by (simp add: ref_write32_def reg_cc_def reg_aqa_def)
qed

lemma status_bits:
  fixes s :: u16
  assumes "\<not> bit s 0"
  shows "bit (s OR of_bool ph) 0 = ph" "(s OR of_bool ph) AND NOT 1 = s"
proof -
  have z: "bit s i \<Longrightarrow> i \<noteq> 0 \<and> i < 16" for i
    using assms bit_imp_le_length [of s i] by (cases i) auto
  show "bit (s OR of_bool ph) 0 = ph" using assms by (cases ph) (simp_all add: bit_or_iff)
  show "(s OR of_bool ph) AND NOT 1 = s"
    by (rule bit_word_eqI) (use z in \<open>cases ph; auto simp: bit_or_iff bit_and_iff bit_not_iff bit_1_iff\<close>)
qed

lemma ref_post:
  assumes i: "ref_idle q t c ph h" and x: "ref_exec q cmd (r_dev h) = (s, d)"
    and k: "k = h\<lparr>r_sqe := m, r_pend := Some (q, cmd), r_pos := (r_pos h)(q := (t', c, ph))\<rparr>"
  obtains e where "ref_step k = k\<lparr>r_dev := d, r_pend := None,
      r_cqe := (r_cqe h)(ref_cqb q + 16 * of_nat c := e),
      r_pos := (r_pos h)(q := (t', (c + 1) mod 64, if c = 63 then \<not> ph else ph))\<rparr>"
    "cq_status e = s OR of_bool ph"
proof -
  have "q = 0 \<or> q = 1" using i by (auto simp: ref_idle_def)
  moreover have "q = 1 \<Longrightarrow> d_iocq d = Some (ref_cqb 1)"
    using i ref_exec_facts(7) [OF x] by (auto simp: ref_idle_def ref_created_def)
  moreover have "r_acq h = ref_cqb 0" using i by (simp add: ref_idle_def ref_created_def)
  ultimately show ?thesis
    using x by (elim disjE) (rule that, simp add: ref_step_def k Let_def, simp)+
qed

lemma ref_queue_law:
  assumes i: "ref_idle q t c ph h"
  shows "\<exists>st h1. polled ref_hw (cq_base ref_env q + 16 * of_nat c) ph
          (hw_write32 ref_hw (doorbell_at ref_regs 0 (2 * q)) (of_nat ((t + 1) mod 64))
            (hw_put_sqe ref_hw (sq_base ref_env q + 64 * of_nat t) cmd h)) st h1 \<and>
        (let h2 = hw_write32 ref_hw (doorbell_at ref_regs 0 (2 * q + 1)) (of_nat ((c + 1) mod 64)) h1
         in ref_idle q ((t + 1) mod 64) ((c + 1) mod 64) (if c = 63 then \<not> ph else ph) h2 \<and>
            (\<forall>q' t' c' ph'. q' \<noteq> q \<and> ref_idle q' t' c' ph' h \<longrightarrow> ref_idle q' t' c' ph' h2) \<and>
            ref_executed q cmd st h h2)"
proof -
  note q = i [unfolded ref_idle_def]
  obtain s d where x: "ref_exec q cmd (r_dev h) = (s, d)" by (cases "ref_exec q cmd (r_dev h)")
  note f = ref_exec_facts [OF x]
  define k where "k = h\<lparr>r_sqe := (r_sqe h)(ref_sqb q + 64 * of_nat t := cmd), r_pend := Some (q, cmd),
        r_pos := (r_pos h)(q := ((t + 1) mod 64, c, ph))\<rparr>"
  obtain e where e: "ref_step k = k\<lparr>r_dev := d, r_pend := None,
      r_cqe := (r_cqe h)(ref_cqb q + 16 * of_nat c := e),
      r_pos := (r_pos h)(q := ((t + 1) mod 64, (c + 1) mod 64, if c = 63 then \<not> ph else ph))\<rparr>"
    "cq_status e = s OR of_bool ph"
    by (rule ref_post [OF i x k_def])
  define k' where "k' = ref_step k"
  note sb = status_bits [OF f(1), of ph]
  have old: "bit (cq_status (r_cqe k (ref_cqb q + 16 * of_nat c))) 0 \<noteq> ph"
    using q by (auto simp: ring_ph_def k_def)
  have new: "r_cqe k' (ref_cqb q + 16 * of_nat c) = e" "ref_step k' = k'"
    unfolding k'_def e(1) by (simp_all add: ref_step_def)
  have "polled ref_hw (cq_base ref_env q + 16 * of_nat c) ph k' (cq_status e) k'"
    using new sb(1) e(2) ref_phys_slot(1) [of q "16 * of_nat c"]
    by (intro polled.ready [where cqe = e and cqe' = e]) simp_all
  then have p: "polled ref_hw (cq_base ref_env q + 16 * of_nat c) ph k (cq_status e) k'"
    using old ref_phys_slot(1) [of q "16 * of_nat c"]
    by (intro polled.wait [of ref_hw _ k _ k']) (simp_all add: k'_def)
  have b: "r_dev k' = d" "r_pend k' = None" "r_cc k' = r_cc h" "r_asq k' = r_asq h"
    "r_acq k' = r_acq h" "r_cqe k' = (r_cqe h)(ref_cqb q + 16 * of_nat c := e)"
    "r_pos k' = (r_pos h)(q := ((t + 1) mod 64, (c + 1) mod 64, if c = 63 then \<not> ph else ph))"
    unfolding k'_def e(1) by (simp_all add: k_def)
  have created: "ref_created q' k'" if "ref_created q' h" for q'
    using that f(4,5) b(1-5) by (auto simp: ref_created_def)
  have fresh: "q = 0 \<and> fresh1 k'" if "d_iosq (r_dev h) = None"
  proof -
    have q0: "q = 0" using that q by (auto simp: ref_created_def less_2_cases_iff)
    have "fresh1 h" using that q by (simp add: ref_steady_def)
    then show ?thesis
      using ring_ph_other [of 1 0 True h q c k' e] q0 q b(6,7) by (simp add: fresh1_def)
  qed
  have "d_iosq d = None \<Longrightarrow> d_iosq (r_dev h) = None" using f(4) by (metis option.distinct(1))
  then have steady: "ref_steady k'"
    using q f(2) b(1,2) created [of 0] fresh by (simp add: ref_steady_def)
  have "ref_idle q ((t + 1) mod 64) ((c + 1) mod 64) (if c = 63 then \<not> ph else ph) k'"
    using q ring_ph_post [OF _ _ _ b(6), of ph] sb(1) e(2) created [of q] steady b(7)
    by (simp add: ref_idle_def)
  moreover have "ref_idle q' t' c' ph' k'" if "q' \<noteq> q" "ref_idle q' t' c' ph' h" for q' t' c' ph'
    using that q ring_ph_other [OF _ that(1) _ _ _ b(6)] created [of q'] steady b(7)
    by (simp add: ref_idle_def)
  moreover have "ref_executed q cmd (cq_status e) h k'"
    using q x b(1) sb(2) e(2) steady fresh by (simp add: ref_executed_def)
  moreover have "ref_write32 (doorbell_at ref_regs 0 (2 * q + 1)) v k' = k'" for v
    using ref_head_doorbell q by blast
  moreover have "hw_write32 ref_hw (doorbell_at ref_regs 0 (2 * q)) (of_nat ((t + 1) mod 64))
      (hw_put_sqe ref_hw (sq_base ref_env q + 64 * of_nat t) cmd h) = k"
    unfolding k_def using ref_announce [OF i] by simp
  ultimately show ?thesis using p by (intro exI [of _ "cq_status e"] exI [of _ k']) simp
qed

interpretation refq: nvme_device ref_hw ref_env ref_regs 0 ref_idle ref_executed
proof unfold_locales
  show "(0 :: nat) < 16" by simp
  show "ref_idle q t c ph h \<Longrightarrow> q < 2 \<and> t < 64 \<and> c < 64" for q t c ph h
    by (simp add: ref_idle_def)
qed (rule ref_queue_law)

section \<open>The laws of the disk and of bring-up\<close>

lemma ref_status: "check_status st \<longleftrightarrow> st AND NOT 1 = (0 :: u16)"
proof -
  have m: "(0x7FFF :: u16) = mask 15" by (simp add: mask_eq_exp_minus_1)
  have "check_status st \<longleftrightarrow> (\<forall>i < 15. \<not> bit st (Suc i))"
    unfolding check_status_def m
  proof
    assume a: "drop_bit 1 st AND mask 15 = 0"
    have "\<not> bit st (Suc i)" if "i < 15" for i
    proof -
      have "\<not> bit (drop_bit 1 st AND mask 15) i" using a by simp
      then show ?thesis using that by (simp add: bit_and_iff bit_drop_bit_eq bit_mask_iff)
    qed
    then show "\<forall>i < 15. \<not> bit st (Suc i)" by blast
  next
    assume "\<forall>i < 15. \<not> bit st (Suc i)"
    then show "drop_bit 1 st AND mask 15 = 0"
      by (intro bit_word_eqI) (auto simp: bit_and_iff bit_drop_bit_eq bit_mask_iff)
  qed
  also have "\<dots> \<longleftrightarrow> st AND NOT 1 = 0"
  proof
    assume a: "\<forall>i < 15. \<not> bit st (Suc i)"
    have "\<not> bit (st AND NOT 1) i" for i
      using a bit_imp_le_length [of st i] by (cases i) (auto simp: bit_and_iff bit_not_iff bit_1_iff)
    then show "st AND NOT 1 = 0" by (simp add: bit_eq_iff)
  next
    assume a: "st AND NOT 1 = 0"
    have "\<not> bit (st AND NOT 1) (Suc i)" for i using a by simp
    then show "\<forall>i < 15. \<not> bit st (Suc i)" by (auto simp: bit_and_iff bit_not_iff bit_1_iff)
  qed
  finally show ?thesis .
qed
lemma ref_at:
  "ref_phys (at_admin_sq ref_env) = ref_sqb 0" "ref_phys (at_admin_cq ref_env) = ref_cqb 0"
  "ref_phys (at_io_sq ref_env) = ref_sqb 1" "ref_phys (at_io_cq ref_env) = ref_cqb 1"
  "ref_phys ref_buf = ref_page"
  by (simp_all add: ref_sqb_def ref_cqb_def sq_base_def cq_base_def ref_phys_def ref_buf_def
      ref_page_def)

definition ref_programmed :: "refhw \<Rightarrow> bool" where
  "ref_programmed h \<longleftrightarrow> r_aqa h = 0x3F003F \<and> r_asq h = ref_sqb 0 \<and> r_acq h = ref_cqb 0"

definition ref_cq_made :: "refhw \<Rightarrow> bool" where
  "ref_cq_made h \<longleftrightarrow> d_iocq (r_dev h) = Some (ref_cqb 1)"

definition ref_clean :: "refhw \<Rightarrow> bool" where
  "ref_clean h \<longleftrightarrow> d_iocq (r_dev h) = None \<and> d_iosq (r_dev h) = None"

definition ref_half :: "refhw \<Rightarrow> bool" where
  "ref_half h \<longleftrightarrow> d_iocq (r_dev h) \<noteq> None \<and> d_iosq (r_dev h) = None"

lemma ref_idle_cong:
  assumes "ref_idle q t c ph h" and "r_cqe h' = r_cqe h" and "r_pos h' = r_pos h"
    and "r_pend h' = r_pend h" and "r_cc h' = r_cc h" and "r_asq h' = r_asq h"
    and "r_acq h' = r_acq h" and "r_dev h' = (r_dev h)\<lparr>d_mem := m\<rparr>"
  shows "ref_idle q t c ph h'"
  using assms by (simp add: ref_idle_def ring_ph_def ref_created_def ref_steady_def fresh1_def)

lemma ref_block_read:
  assumes e: "ref_executed 1 cmd st h h'" and m: "moves_block 2 cmd p b" and b: "b < 204800"
  shows "d_disk (r_dev h') = d_disk (r_dev h) \<and>
    (check_status st \<longrightarrow> d_mem (r_dev h') = prp_put cmd (d_disk (r_dev h) ! b) (d_mem (r_dev h))) \<and>
    (d_bad (r_dev h) = [] \<longrightarrow> d_bad (r_dev h') = [] \<and> (p mod 4 = 0 \<longrightarrow> check_status st))"
proof -
  have w: "wf_disk 204800 (d_disk (r_dev h))" using e by (simp add: ref_executed_def ref_steady_def)
  have x: "ref_io cmd (r_dev h) = (st AND NOT 1, r_dev h')"
    using e by (simp add: ref_executed_def ref_exec_def)
  have "ref_io cmd (r_dev h) = (if b \<in> set (d_bad (r_dev h)) then (0x502, r_dev h)
      else (0, (r_dev h)\<lparr>d_mem := prp_put cmd (d_disk (r_dev h) ! b) (d_mem (r_dev h))\<rparr>))"
    using m w b by (simp add: ref_io_def moves_block_def Let_def wf_disk_def)
  then show ?thesis
    using x ref_status [of st] by (auto split: if_splits simp: prod_eq_iff)
qed

lemma ref_block_write:
  assumes e: "ref_executed 1 cmd st h h'" and m: "moves_block 1 cmd p b" and b: "b < 204800"
  shows "\<exists>x. d_disk (r_dev h') = (d_disk (r_dev h))[b := x] \<and>
    (check_status st \<longrightarrow> x = prp_get cmd (d_mem (r_dev h))) \<and> d_mem (r_dev h') = d_mem (r_dev h) \<and>
    (d_bad (r_dev h) = [] \<longrightarrow> d_bad (r_dev h') = [] \<and> (p mod 4 = 0 \<longrightarrow> check_status st))"
proof -
  have w: "wf_disk 204800 (d_disk (r_dev h))" using e by (simp add: ref_executed_def ref_steady_def)
  have x: "ref_io cmd (r_dev h) = (st AND NOT 1, r_dev h')"
    using e by (simp add: ref_executed_def ref_exec_def)
  have r: "ref_io cmd (r_dev h) = (if b \<in> set (d_bad (r_dev h)) then (0x502, r_dev h)
      else (0, (r_dev h)\<lparr>d_disk := (d_disk (r_dev h))[b := prp_get cmd (d_mem (r_dev h))]\<rparr>))"
    using m w b by (simp add: ref_io_def moves_block_def Let_def wf_disk_def)
  show ?thesis
  proof (cases "b \<in> set (d_bad (r_dev h))")
    case True
    then have "st AND NOT 1 = 0x502" "r_dev h' = r_dev h" using x r by simp_all
    then show ?thesis
      using True ref_status [of st] by (intro exI [of _ "d_disk (r_dev h) ! b"]) auto
  next
    case False
    then have "0 = st AND NOT 1"
      "(r_dev h)\<lparr>d_disk := (d_disk (r_dev h))[b := prp_get cmd (d_mem (r_dev h))]\<rparr> = r_dev h'"
      using x r by simp_all
    then show ?thesis
      using ref_status [of st]
      by (intro exI [of _ "prp_get cmd (d_mem (r_dev h))"]) (auto dest: sym)
  qed
qed

text \<open>Buffers are in the kernel's image, anywhere.\<close>

definition ref_kbuf :: "u64 \<Rightarrow> bool" where "ref_kbuf a \<longleftrightarrow> 0xFFFFFFFF80000000 \<le> a"

lemma ref_kbuf_phys:
  assumes "ref_kbuf a"
  shows "unat (ref_phys a) = unat a - 0xFFFFFFFF80000000 + 0x200000" "in_memory (ref_phys a)"
    "virt_to_phys ref_env c a = ref_phys a" "m_hhdm_offset c = ref_hhdm \<Longrightarrow> io_address ref_env c (virt_to_phys ref_env c a) = ref_phys a"
proof -
  have le: "(0xFFFFFFFF80000000 :: u64) \<le> a" using assms by (simp add: ref_kbuf_def)
  have "unat (a - 0xFFFFFFFF80000000) = unat a - 0xFFFFFFFF80000000"
    using le by (subst unat_sub) simp_all
  then show u: "unat (ref_phys a) = unat a - 0xFFFFFFFF80000000 + 0x200000"
    unfolding ref_phys_def using unat64_less [of a] by (subst unat_word_ariths(1)) simp
  show "in_memory (ref_phys a)" using u unat64_less [of a] by (simp add: in_memory_def)
  show v: "virt_to_phys ref_env c a = ref_phys a"
    using le by (simp add: virt_to_phys_def ref_env_def ref_phys_def)
  have "\<not> ref_hhdm < ref_phys a" using u unat64_less [of a] by (simp add: word_less_nat_alt ref_hhdm_def)
  then show "m_hhdm_offset c = ref_hhdm \<Longrightarrow> io_address ref_env c (virt_to_phys ref_env c a) = ref_phys a"
    by (simp add: io_address_def v)
qed

interpretation refdisk: nvme_disk ref_hw ref_env ref_regs 0 ref_idle ref_executed 204800
  "\<lambda>h. d_disk (r_dev h)" "\<lambda>h. d_mem (r_dev h)" "\<lambda>h. d_bad (r_dev h) = []"
  ref_kbuf ref_phys ref_hhdm ref_bar0 1 "Some ref_hhdm"
proof unfold_locales
  show "(204800 :: nat) < 4503599627370496" by simp
  show "ref_idle q t e ph h \<Longrightarrow> wf_disk 204800 (d_disk (r_dev h))" for q t e ph h
    by (simp add: ref_idle_def ref_steady_def)
  show "m_hhdm_offset c = ref_hhdm \<Longrightarrow> ref_kbuf a \<Longrightarrow> io_address ref_env c (virt_to_phys ref_env c a) = ref_phys a"
    for c a by (rule ref_kbuf_phys(4))
  show "ref_kbuf a \<Longrightarrow> in_memory (ref_phys a)" for a by (rule ref_kbuf_phys)
  show "hw_get_bytes ref_hw a 4096 h = get_mem (d_mem (r_dev h)) (ref_phys a) 4096" for a h by simp
  show "d_mem (r_dev (hw_put_bytes ref_hw a bs h)) = put_mem (d_mem (r_dev h)) (ref_phys a) bs" for a bs h
    by simp
  show "ref_idle q t e ph h \<Longrightarrow> ref_idle q t e ph (hw_put_bytes ref_hw a bs h)" for q t e ph h a bs
    by (rule ref_idle_cong) simp_all
  show "ref_bar0 \<noteq> 0" by (simp add: ref_bar0_def)
qed (simp_all add: ref_block_read ref_block_write)

text \<open>The registers.\<close>

lemma ref_reads:
  "ref_read32 (ref_regs + reg_cc) h = (r_cc h, h)"
  "ref_read32 (ref_regs + reg_csts) h =
     (if bit (r_cc h) 0 \<and> \<not> (cc_ok (r_cc h) \<and> r_aqa h = 0x3F003F) then (2, h)
      else (of_bool (r_rdy h), h\<lparr>r_rdy := bit (r_cc h) 0\<rparr>))"
  "ref_write32 (ref_regs + reg_cc) v h = ref_set_cc v h"
  "ref_write32 (ref_regs + reg_aqa) v h = h\<lparr>r_aqa := v\<rparr>"
  by (simp_all add: ref_read32_def ref_write32_def reg_cc_def reg_csts_def reg_aqa_def)

lemma ref_present_cong:
  "r_cqe h' = r_cqe h \<Longrightarrow> d_disk (r_dev h') = d_disk (r_dev h) \<Longrightarrow> ref_present h' = ref_present h"
  by (simp add: ref_present_def ring_ph_def)

lemma ref_disable:
  assumes "ref_present h" and "\<not> bit v 0"
  shows "\<exists>h1. stops ref_hw (ref_regs + reg_csts)
      (hw_write32 ref_hw (ref_regs + reg_cc) v h) h1 \<and> ref_present h1 \<and>
      (d_bad (r_dev h1) = []) = (d_bad (r_dev h) = []) \<and> \<not> bit (r_cc h1) 0"
proof -
  let ?h = "h\<lparr>r_cc := v\<rparr>" and ?h1 = "h\<lparr>r_cc := v, r_rdy := False\<rparr>"
  have w: "hw_write32 ref_hw (ref_regs + reg_cc) v h = ?h"
    using assms(2) by (simp add: ref_reads ref_set_cc_def)
  have read: "hw_read32 ref_hw (ref_regs + reg_csts) k = (of_bool (r_rdy k), ?h1)"
    if "k = ?h \<or> k = ?h1" for k using that assms(2) by (auto simp: ref_reads)
  have two: "stops ref_hw (ref_regs + reg_csts) ?h1 ?h1"
    using read by (intro stops.stopped [where v = 0]) auto
  have "stops ref_hw (ref_regs + reg_csts) ?h ?h1"
  proof (cases "r_rdy h")
    case True
    then show ?thesis using read two by (intro stops.running [of ref_hw _ ?h 1 ?h1]) simp_all
  next
    case False
    then show ?thesis using read [of ?h] by (intro stops.stopped [where v = 0]) simp_all
  qed
  moreover have "ref_present ?h1" using assms(1) by (subst ref_present_cong [of _ h]) simp_all
  ultimately show ?thesis using w assms(2) by auto
qed

lemma ref_enable:
  assumes p: "ref_present h" and off: "\<not> bit (r_cc h) 0" and pr: "ref_programmed h" and v: "cc_ok v"
  shows "\<exists>ok h1. becomes_ready ref_hw (ref_regs + reg_csts)
      (hw_write32 ref_hw (ref_regs + reg_cc) v h) ok h1 \<and> (ok \<longrightarrow> ref_idle 0 0 0 True h1) \<and>
      (d_bad (r_dev h) = [] \<longrightarrow> ok \<and> d_bad (r_dev h1) = [] \<and> ref_clean h1)"
proof -
  have en: "bit v 0" using v by (simp add: cc_ok_def)
  define k where "k = hw_write32 ref_hw (ref_regs + reg_cc) v h"
  have k: "k = h\<lparr>r_cc := v, r_pos := (\<lambda>_. (0, 0, True)), r_pend := None,
      r_dev := (r_dev h)\<lparr>d_iocq := None, d_iosq := None\<rparr>\<rparr>"
    using off en by (simp add: k_def ref_reads ref_set_cc_def)
  have read: "hw_read32 ref_hw (ref_regs + reg_csts) (k\<lparr>r_rdy := b\<rparr>)
      = (of_bool b, k\<lparr>r_rdy := True\<rparr>)" for b
    using v en pr by (simp add: k ref_reads ref_programmed_def)
  have rest: "becomes_ready ref_hw (ref_regs + reg_csts) (k\<lparr>r_rdy := True\<rparr>) True (k\<lparr>r_rdy := True\<rparr>)"
    using read [of True] by (intro becomes_ready.yes [where v = 1]) simp_all
  have first: "hw_read32 ref_hw (ref_regs + reg_csts) k = (of_bool (r_rdy k), k\<lparr>r_rdy := True\<rparr>)"
    using v en pr by (simp add: k ref_reads ref_programmed_def)
  have "becomes_ready ref_hw (ref_regs + reg_csts) k True (k\<lparr>r_rdy := True\<rparr>)"
  proof (cases "r_rdy k")
    case True
    then show ?thesis using first by (intro becomes_ready.yes [where v = 1]) simp_all
  next
    case False
    then show ?thesis
      using first read [of True] rest
      by (intro becomes_ready.again [of ref_hw _ k 0 "k\<lparr>r_rdy := True\<rparr>" 1 "k\<lparr>r_rdy := True\<rparr>"]) simp_all
  qed
  moreover have "ref_idle 0 0 0 True (k\<lparr>r_rdy := True\<rparr>)"
    using p pr en by (simp add: k ref_idle_def ref_created_def ref_steady_def fresh1_def
        ref_present_def ref_programmed_def ring_ph_def)
  moreover have "d_bad (r_dev k) = d_bad (r_dev h)" "ref_clean (k\<lparr>r_rdy := True\<rparr>)"
    by (simp_all add: k ref_clean_def)
  ultimately show ?thesis
    unfolding k_def [symmetric] by (intro exI [of _ True] exI [of _ "k\<lparr>r_rdy := True\<rparr>"]) simp
qed

lemma ref_cap: "unat (drop_bit 32 (0x20140103FF :: u64) AND 0xF) = 0"
  by (simp add: drop_bit_eq_div)

lemma ref_sq_created:
  assumes e: "ref_executed 0 cmd st h h'" and o: "sqe_opcode cmd = 0x01" and m: "ref_cq_made h"
    and d: "dptr0 cmd = ref_phys (at_io_sq ref_env)" and ok: "check_status st"
  shows "ref_idle 1 0 0 True h'"
proof -
  have z: "st AND NOT 1 = 0" using ok by (simp add: ref_status)
  then have x: "ref_admin cmd (r_dev h) = (0, r_dev h')"
    using e by (simp add: ref_executed_def ref_exec_def)
  then have none: "d_iosq (r_dev h) = None" and
      dev: "r_dev h' = (r_dev h)\<lparr>d_iosq := Some (ref_sqb 1)\<rparr>"
    using o d by (auto simp: ref_admin_def ref_at split: if_splits)
  then show ?thesis
    using e m by (simp add: ref_executed_def ref_idle_def ref_created_def ref_steady_def fresh1_def
        ref_cq_made_def)
qed

lemma attached_status:
  assumes "st AND NOT 1 = (0x230 :: u16)"
  shows "status_sct st = 1 \<and> status_sc st = 0x18"
proof -
  have b: "bit st i \<longleftrightarrow> bit (0x230 :: u16) i" if "i \<noteq> 0" for i
    unfolding assms [symmetric] using that
    by (auto simp: bit_and_iff bit_not_iff bit_1_iff dest: bit_imp_le_length)
  have "drop_bit 1 st = drop_bit 1 0x230" "drop_bit 9 st = drop_bit 9 0x230"
    by (rule bit_word_eqI, simp only: bit_drop_bit_eq o_apply, rule b, simp)+
  then show ?thesis by (simp add: status_sct_def status_sc_def drop_bit_eq_div)
qed

lemma ref_setup:
  assumes e: "ref_executed 0 cmd st h h'" and g: "d_bad (r_dev h) = []" "ref_clean h"
    and o: "sqe_opcode cmd \<in> {0x06, 0x15} \<or> sqe_opcode cmd = 0x80 \<and> nsid cmd = 1"
  shows "d_bad (r_dev h') = [] \<and> ref_clean h' \<and> (check_status st \<or>
        sqe_opcode cmd = 0x15 \<and> status_sct st = 1 \<and> status_sc st = 0x18)"
proof (cases "sqe_opcode cmd = 0x15")
  case True
  then have "st AND NOT 1 = 0x230" "r_dev h' = r_dev h"
    using e by (auto simp: ref_executed_def ref_exec_def ref_admin_def dest: sym)
  then show ?thesis using g True attached_status by (simp add: ref_clean_def)
next
  case False
  then show ?thesis
    using e g o by (auto simp: ref_executed_def ref_exec_def ref_admin_def ref_clean_def ref_status
        dest: sym)
qed

interpretation refboot: nvme_boot ref_hw ref_env ref_regs 0 ref_idle ref_executed 204800
  "\<lambda>h. d_disk (r_dev h)" "\<lambda>h. d_mem (r_dev h)" "\<lambda>h. d_bad (r_dev h) = []"
  ref_kbuf ref_phys ref_hhdm ref_bar0 1 "Some ref_hhdm"
  ref_present "\<lambda>h. bit (r_cc h) 0" ref_programmed ref_cq_made ref_clean ref_half ref_blank
proof unfold_locales
  show "ref_bar0 + ref_hhdm = ref_regs" by (simp add: ref_bar0_def ref_hhdm_def ref_regs_def)
  show "(case Some ref_hhdm of None \<Rightarrow> 0 | Some off \<Rightarrow> off) = ref_hhdm" by simp
  show "m_hhdm_offset c = ref_hhdm \<Longrightarrow>
      a \<in> {at_admin_sq ref_env, at_admin_cq ref_env, at_io_sq ref_env, at_io_cq ref_env} \<Longrightarrow>
      virt_to_phys ref_env c a = ref_phys a" for c a
    by (auto simp: virt_to_phys_def ref_env_def ref_phys_def)
  show "ref_present h \<Longrightarrow> \<not> bit v 0 \<Longrightarrow> \<exists>h1. stops ref_hw (ref_regs + reg_csts)
      (hw_write32 ref_hw (ref_regs + reg_cc) v h) h1 \<and> ref_present h1 \<and>
      (d_bad (r_dev h1) = []) = (d_bad (r_dev h) = []) \<and> \<not> bit (r_cc h1) 0" for h v
    by (rule ref_disable)
  show "ref_present h \<Longrightarrow> \<not> bit (r_cc h) 0 \<Longrightarrow> ref_programmed h \<Longrightarrow> cc_ok v \<Longrightarrow>
      \<exists>ok h1. becomes_ready ref_hw (ref_regs + reg_csts) (hw_write32 ref_hw (ref_regs + reg_cc) v h) ok h1 \<and>
        (ok \<longrightarrow> ref_idle 0 0 0 True h1) \<and>
        (d_bad (r_dev h) = [] \<longrightarrow> ok \<and> d_bad (r_dev h1) = [] \<and> ref_clean h1)" for h v
    by (rule ref_enable)
  show "ref_present h \<Longrightarrow> \<exists>cap h1. hw_read64 ref_hw (ref_regs + reg_cap) h = (cap, h1) \<and>
      ref_present h1 \<and> (d_bad (r_dev h1) = []) = (d_bad (r_dev h) = []) \<and>
      bit (r_cc h1) 0 = bit (r_cc h) 0 \<and> unat (drop_bit 32 cap AND 0xF) = 0" for h
    using ref_cap by simp
  show "ref_present h \<Longrightarrow> \<exists>cc h1. hw_read32 ref_hw (ref_regs + reg_cc) h = (cc, h1) \<and>
      ref_present h1 \<and> (d_bad (r_dev h1) = []) = (d_bad (r_dev h) = []) \<and>
      bit (r_cc h1) 0 = bit (r_cc h) 0 \<and> ref_programmed h1 = ref_programmed h \<and>
      bit cc 0 = bit (r_cc h) 0" for h
    by (simp add: ref_reads)
  show "ref_present h \<Longrightarrow> \<not> bit (r_cc h) 0 \<Longrightarrow>
      let h' = hw_write64 ref_hw (ref_regs + reg_acq) (ref_phys (at_admin_cq ref_env))
                (hw_write64 ref_hw (ref_regs + reg_asq) (ref_phys (at_admin_sq ref_env))
                  (hw_write32 ref_hw (ref_regs + reg_aqa) (push_bit 16 63 OR 63) h))
      in ref_present h' \<and> (d_bad (r_dev h') = []) = (d_bad (r_dev h) = []) \<and> \<not> bit (r_cc h') 0 \<and> ref_programmed h'" for h
    by (simp add: Let_def ref_reads ref_write64_def reg_asq_def reg_acq_def ref_at
        ref_programmed_def ref_present_def ring_ph_def)
  show "ref_executed 0 cmd st h h' \<Longrightarrow> sqe_opcode cmd = 0x80 \<Longrightarrow> nsid cmd = 1 \<Longrightarrow> check_status st \<Longrightarrow>
      d_disk (r_dev h') = ref_blank" for cmd st h h'
    by (auto simp: ref_executed_def ref_exec_def ref_admin_def dest: sym)
  show "ref_executed 0 cmd st h h' \<Longrightarrow> sqe_opcode cmd \<in> {0x01, 0x05, 0x06, 0x15} \<Longrightarrow>
      d_disk (r_dev h') = d_disk (r_dev h)" for cmd st h h'
    by (auto simp: ref_executed_def ref_exec_def ref_admin_def dest: sym split: if_splits)
  show "ref_executed 0 cmd st h h' \<Longrightarrow> sqe_opcode cmd = 0x05 \<Longrightarrow>
      dptr0 cmd = ref_phys (at_io_cq ref_env) \<Longrightarrow> cdw10 cmd = push_bit 16 63 OR 1 \<Longrightarrow> cdw11 cmd = 1 \<Longrightarrow>
      check_status st \<Longrightarrow> ref_cq_made h'" for cmd st h h'
    by (auto simp: ref_executed_def ref_exec_def ref_admin_def ref_cq_made_def ref_at ref_status
        dest: sym split: if_splits)
  show "ref_executed 0 cmd st h h' \<Longrightarrow> sqe_opcode cmd = 0x01 \<Longrightarrow> ref_cq_made h \<Longrightarrow>
      dptr0 cmd = ref_phys (at_io_sq ref_env) \<Longrightarrow> cdw10 cmd = push_bit 16 63 OR 1 \<Longrightarrow>
      cdw11 cmd = push_bit 16 1 OR 1 \<Longrightarrow> check_status st \<Longrightarrow> ref_idle 1 0 0 True h'" for cmd st h h'
    by (rule ref_sq_created)
  show "(d_bad (r_dev (hw_put_bytes ref_hw (at_attach ref_env) bs h)) = []) = (d_bad (r_dev h) = [])"
    "ref_clean (hw_put_bytes ref_hw (at_attach ref_env) bs h) = ref_clean h" for bs h
    by (simp_all add: ref_clean_def)
  show "ref_executed 0 cmd st h h' \<Longrightarrow> d_bad (r_dev h) = [] \<Longrightarrow> ref_clean h \<Longrightarrow>
      sqe_opcode cmd \<in> {0x06, 0x15} \<or> sqe_opcode cmd = 0x80 \<and> nsid cmd = 1 \<Longrightarrow>
      d_bad (r_dev h') = [] \<and> ref_clean h' \<and> (check_status st \<or>
        sqe_opcode cmd = 0x15 \<and> status_sct st = 1 \<and> status_sc st = 0x18)" for cmd st h h'
    by (rule ref_setup)
  show "ref_executed 0 cmd st h h' \<Longrightarrow> d_bad (r_dev h) = [] \<Longrightarrow>
      ref_clean h \<and> sqe_opcode cmd = 0x05 \<or> ref_half h \<and> sqe_opcode cmd = 0x01 \<Longrightarrow>
      check_status st \<and> d_bad (r_dev h') = [] \<and> (ref_clean h \<longrightarrow> ref_half h')" for cmd st h h'
    by (auto simp: ref_executed_def ref_exec_def ref_admin_def ref_clean_def ref_half_def ref_status
        dest: sym)
qed

end
