(* ===== verification/KernelPath.thy ===== *)
theory KernelPath
  imports NvmeRef
begin

unbundle bit_operations_syntax

text \<open>
  The path from the file system to the controller as a whole: what bring-up leaves behind, how
  long driver and device stay in step, and which bytes of a block a transfer moves.
\<close>

section \<open>Bring-up\<close>

context nvme_boot
begin

text \<open>The storage driver after its constructor: the disk is there, erased, and ready.\<close>

lemma ctor_boots:
  assumes f: "fresh c" and p: "present h" and s: "sound h"
  obtains ssd c' h' where "gaossd_ctor hw env hhdm_response True bar0 (c, h) = Some (ssd, c', h')"
    "admin_sync c' h'" "(\<And>i. kbuf (B i)) \<Longrightarrow> ready \<lparr>kw_nvme = (c', h'), kw_ssd = Some ssd, kw_buffers = B, kw_turn = t\<rparr>"
    "disk h' = blank" "sound h'" "m_initialized c'"
proof -
  obtain ok c' h' where i: "init hw env bar0 hhdm c h = Some (ok, c', h')"
    "ok \<longrightarrow> m_initialized c' \<and> admin_sync c' h' \<and> io_sync c' h' \<and> m_hhdm_offset c' = hhdm \<and>
       disk h' = blank" "sound h \<longrightarrow> ok \<and> sound h'"
    by (rule init_boots [OF f p])
  define ssd where
    "ssd = snd (snd (register_device empty_gaossd (nvme_storage hw env (model_number hw env h'))))"
  have q: "queue ssd = []" "storageDevices ssd = nvme_storage hw env (model_number hw env h') # []"
    by (simp_all add: ssd_def register_device_def empty_gaossd_def)
  have "gaossd_ctor hw env hhdm_response True bar0 (c, h) = Some (ssd, c', h')"
    using i s boot(1) response by (simp add: gaossd_ctor_def Let_def ssd_def)
  moreover have "ready \<lparr>kw_nvme = (c', h'), kw_ssd = Some ssd, kw_buffers = B, kw_turn = t\<rparr>"
    if "\<And>i. kbuf (B i)" using i s q that by (auto simp: ready_def)
  ultimately show ?thesis using that i s by blast
qed

end

section \<open>The reference machine, switched on\<close>

definition ref_power_on :: refhw where
  "ref_power_on = \<lparr>r_dev = \<lparr>d_disk = replicate 204800 (replicate 4096 0xE5), d_mem = (\<lambda>_. 0),
       d_bad = [], d_iocq = None, d_iosq = None\<rparr>,
     r_cc = 0, r_rdy = False, r_aqa = 0, r_asq = 0, r_acq = 0, r_sqe = (\<lambda>_. zero_sqe),
     r_cqe = (\<lambda>_. \<lparr>cq_dw0 = 0, cq_reserved = 0, cq_sq_head = 0, cq_sq_id = 0, command_id = 0,
       cq_status = 0\<rparr>),
     r_pos = (\<lambda>_. (0, 0, True)), r_pend = None\<rparr>"

lemma ref_power_on_facts: "ref_present ref_power_on" "d_bad (r_dev ref_power_on) = []"
    "fresh Controller_init"
  by (simp_all add: ref_present_def ref_power_on_def ring_ph_def wf_disk_def fresh_def
      Controller_init_def)

text \<open>C13: bring-up always ends, and costs the disk its contents. From any state of the
  controller's registers, \<^verbatim>\<open>init\<close> returns; when it reports success both queue pairs are in step
  with the device and the namespace has been formatted; on a controller that does what it is
  asked it succeeds.\<close>

theorem init_boots_and_erases:
  assumes laws: "nvme_boot hw env regs stride idle executed n disk mem sound kbuf phys hhdm bar0 rp
      hhdm_response present enabled programmed cq_made clean half blank"
    and "fresh c" and "present h"
  shows "\<exists>ok c' h'. init hw env bar0 hhdm c h = Some (ok, c', h') \<and>
    (ok \<longrightarrow> m_initialized c' \<and> disk h' = blank \<and>
      (\<exists>ph. m_cq_phase c' = phase_bit ph \<and> idle 0 (unat (m_sq_tail c')) (unat (m_cq_head c')) ph h') \<and>
      (\<exists>ph. m_io_cq_phase c' = phase_bit ph \<and>
        idle 1 (unat (m_io_sq_tail c')) (unat (m_io_cq_head c')) ph h')) \<and>
    (sound h \<longrightarrow> ok \<and> sound h')"
proof -
  have dev: "nvme_device hw env regs stride idle executed"
    using laws by (simp add: nvme_boot_def nvme_disk_def)
  show ?thesis
    using nvme_boot.init_boots [OF laws assms(2,3)]
    by (metis nvme_device.admin_sync_def [OF dev] nvme_device.io_sync_def [OF dev])
qed

theorem init_boots_and_erases_witness:
  "\<exists>c' h'. init ref_hw ref_env ref_bar0 ref_hhdm Controller_init ref_power_on = Some (True, c', h') \<and>
     d_disk (r_dev ref_power_on) \<noteq> ref_blank \<and> d_disk (r_dev h') = ref_blank"
proof -
  have "replicate 204800 (replicate 4096 (0xE5 :: u8)) \<noteq> ref_blank"
    unfolding ref_blank_def by (simp add: replicate_eq_replicate)
  then have "d_disk (r_dev ref_power_on) \<noteq> ref_blank" by (simp add: ref_power_on_def)
  then show ?thesis
    using init_boots_and_erases [OF refboot.nvme_boot_axioms ref_power_on_facts(3,1)]
      ref_power_on_facts(2) by metis
qed

section \<open>Long runs\<close>

text \<open>A client that makes reads and writes one after the other: direction, address, first
  sector, number of sectors.\<close>

fun io_batch :: "'h hw \<Rightarrow> kernel_env \<Rightarrow> (bool \<times> u64 \<times> u64 \<times> u32) list \<Rightarrow> Controller \<Rightarrow> 'h \<Rightarrow>
    (errorCode list \<times> Controller \<times> 'h) option" where
  "io_batch hw env [] c h = Some ([], c, h)"
| "io_batch hw env ((w, a, first, count) # ops) c h = do {
     (e, c1, h1) \<leftarrow> (if w then nvme_write hw env a first count c h
                        else nvme_read hw env a first count c h);
     (es, c2, h2) \<leftarrow> io_batch hw env ops c1 h1;
     Some (e # es, c2, h2) }"

text \<open>How far \<open>k\<close> commands move a ring of 64.\<close>

lemma ring_steps:
  assumes "unat (t :: u16) < 64"
  shows "unat ((t + 1) mod 64) < 64"
    and "(unat ((t + 1) mod 64) + k) mod 64 = (unat t + Suc k) mod 64"
    and "(ph \<noteq> odd ((unat t + Suc k) div 64)) =
      ((if (t + 1) mod 64 = 0 then \<not> ph else ph) \<noteq> odd ((unat ((t + 1) mod 64) + k) div 64))"
proof -
  note n = unat_ring_next [OF assms]
  show "unat ((t + 1) mod 64) < 64" by (rule n)
  show "(unat ((t + 1) mod 64) + k) mod 64 = (unat t + Suc k) mod 64"
    unfolding n(1) by (simp add: mod_add_left_eq)
  show "(ph \<noteq> odd ((unat t + Suc k) div 64)) =
      ((if (t + 1) mod 64 = 0 then \<not> ph else ph) \<noteq> odd ((unat ((t + 1) mod 64) + k) div 64))"
  proof (cases "unat t = 63")
    case True
    then have "(unat t + Suc k) div 64 = Suc (k div 64)" by simp
    then show ?thesis using True ring_next_zero [OF assms] n(1) by simp
  next
    case False
    then show ?thesis using assms ring_next_zero [OF assms] n(1) by simp
  qed
qed

lemma io_batch_in_step:
  assumes dev: "nvme_device hw env regs stride idle executed"
    and "m_regs c = regs" and "m_db_stride c = of_nat stride"
    and "m_io_cq_phase c = phase_bit ph"
    and "idle 1 (unat (m_io_sq_tail c)) (unat (m_io_cq_head c)) ph h"
  shows "\<exists>es c' h'. io_batch hw env ops c h = Some (es, c', h') \<and> length es = length ops \<and>
    unat (m_io_sq_tail c') = (unat (m_io_sq_tail c) + length ops) mod 64 \<and>
    unat (m_io_cq_head c') = (unat (m_io_cq_head c) + length ops) mod 64 \<and>
    m_io_cq_phase c' = phase_bit (ph \<noteq> odd ((unat (m_io_cq_head c) + length ops) div 64)) \<and>
    idle 1 (unat (m_io_sq_tail c')) (unat (m_io_cq_head c'))
      (ph \<noteq> odd ((unat (m_io_cq_head c) + length ops) div 64)) h'"
  using assms(2-5)
proof (induction ops arbitrary: c h ph)
  case Nil
  have "unat (m_io_sq_tail c) < 64" "unat (m_io_cq_head c) < 64"
    using nvme_device.idle_range [OF dev Nil(4)] by auto
  then show ?case using Nil by simp
next
  case (Cons x ops)
  obtain w a first count where x: "x = (w, a, first, count)" by (cases x) auto
  let ?mk = "rw_entry (if w then 0x01 else 0x02) (io_address env c a) first count"
  have r: "unat (m_io_sq_tail c) < 64" "unat (m_io_cq_head c) < 64"
    using nvme_device.idle_range [OF dev Cons.prems(4)] by auto
  have "nvme_device.io_sync regs stride idle c h"
    using Cons.prems by (auto simp: nvme_device.io_sync_def [OF dev])
  from nvme_device.io_command_sync [OF dev this, of ?mk]
  obtain st c1 h1 where s: "io_command hw env ?mk c h = Some (st, c1, h1)"
    "nvme_device.io_sync regs stride idle c1 h1"
    "c1 = c\<lparr>m_io_sq_tail := (m_io_sq_tail c + 1) mod 64, m_io_cq_head := (m_io_cq_head c + 1) mod 64,
           m_io_cq_phase := next_phase ((m_io_cq_head c + 1) mod 64) (m_io_cq_phase c)\<rparr>"
    by blast
  let ?ph = "if (m_io_cq_head c + 1) mod 64 = 0 then \<not> ph else ph"
  have ph: "m_io_cq_phase c1 = phase_bit ?ph"
    using s(3) Cons.prems(3) by (simp add: next_phase_bit)
  have inj: "phase_bit p = phase_bit p' \<Longrightarrow> p = p'" for p p'
    by (auto simp: phase_bit_def split: if_splits)
  obtain ph1 where "m_io_cq_phase c1 = phase_bit ph1"
    "idle 1 (unat (m_io_sq_tail c1)) (unat (m_io_cq_head c1)) ph1 h1"
    using s(2) by (auto simp: nvme_device.io_sync_def [OF dev])
  moreover from this(1) have "ph1 = ?ph" using ph by (intro inj) (simp only:)
  ultimately have idle: "idle 1 (unat (m_io_sq_tail c1)) (unat (m_io_cq_head c1)) ?ph h1" by simp
  have one: "(if w then nvme_write hw env a first count c h else nvme_read hw env a first count c h)
      = Some (if check_status st then Success else Generic_Error, c1, h1)"
    using s(1) by (cases w) (simp_all add: nvme_write_def nvme_read_def)
  have regs: "m_regs c1 = regs" "m_db_stride c1 = of_nat stride" using s(3) Cons.prems by simp_all
  obtain es c2 h2 where rest: "io_batch hw env ops c1 h1 = Some (es, c2, h2)" "length es = length ops"
    "unat (m_io_sq_tail c2) = (unat (m_io_sq_tail c1) + length ops) mod 64"
    "unat (m_io_cq_head c2) = (unat (m_io_cq_head c1) + length ops) mod 64"
    "m_io_cq_phase c2 = phase_bit (?ph \<noteq> odd ((unat (m_io_cq_head c1) + length ops) div 64))"
    "idle 1 (unat (m_io_sq_tail c2)) (unat (m_io_cq_head c2))
      (?ph \<noteq> odd ((unat (m_io_cq_head c1) + length ops) div 64)) h2"
    using Cons.IH [OF regs ph idle] by blast
  have t: "m_io_sq_tail c1 = (m_io_sq_tail c + 1) mod 64" "m_io_cq_head c1 = (m_io_cq_head c + 1) mod 64"
    using s(3) by simp_all
  note rest' = rest [unfolded t, folded ring_steps(3) [OF r(2)], unfolded ring_steps(2) [OF r(1)]
      ring_steps(2) [OF r(2)]]
  show ?case using one rest' by (simp add: x)
qed

text \<open>C9: driver and device never lose step. Any number of reads and writes, of any addresses and
  sizes and whatever status the device answers with, all return; after \<open>k\<close> of them the
  tail and the head have moved \<open>k\<close> places round the ring, the expected phase has flipped
  once per lap, and the device is idle exactly there.\<close>

theorem io_stays_in_step:
  assumes "nvme_device hw env regs stride idle executed"
    and "m_regs c = regs" and "m_db_stride c = of_nat stride"
    and "m_io_cq_phase c = phase_bit ph"
    and "idle 1 (unat (m_io_sq_tail c)) (unat (m_io_cq_head c)) ph h"
  shows "\<exists>es c' h'. io_batch hw env ops c h = Some (es, c', h') \<and> length es = length ops \<and>
    unat (m_io_sq_tail c') = (unat (m_io_sq_tail c) + length ops) mod 64 \<and>
    unat (m_io_cq_head c') = (unat (m_io_cq_head c) + length ops) mod 64 \<and>
    m_io_cq_phase c' = phase_bit (ph \<noteq> odd ((unat (m_io_cq_head c) + length ops) div 64)) \<and>
    idle 1 (unat (m_io_sq_tail c')) (unat (m_io_cq_head c'))
      (ph \<noteq> odd ((unat (m_io_cq_head c) + length ops) div 64)) h'"
  by (rule io_batch_in_step [OF assms])

text \<open>The reference machine after bring-up.\<close>

lemma ref_booted:
  obtains c :: Controller and h ph where "m_regs c = ref_regs" "m_db_stride c = of_nat 0" "m_io_cq_phase c = phase_bit ph"
    "ref_idle 1 (unat (m_io_sq_tail c)) (unat (m_io_cq_head c)) ph h"
proof -
  obtain ok and c :: Controller and h where "ok \<longrightarrow> m_initialized c \<and> refq.admin_sync c h \<and> refq.io_sync c h \<and>
      m_hhdm_offset c = ref_hhdm \<and> d_disk (r_dev h) = ref_blank"
    "d_bad (r_dev ref_power_on) = [] \<longrightarrow> ok \<and> d_bad (r_dev h) = []"
    by (rule refboot.init_boots [OF ref_power_on_facts(3,1)])
  then have "refq.io_sync c h" using ref_power_on_facts(2) by blast
  then show ?thesis using that by (auto simp: refq.io_sync_def)
qed

theorem io_stays_in_step_witness:
  "\<exists>es c c' h h'. io_batch ref_hw ref_env (replicate 100 (True, 0x307000, 8, 8)) c h = Some (es, c', h') \<and>
     length es = 100 \<and> unat (m_io_sq_tail c') = (unat (m_io_sq_tail c) + 100) mod 64"
proof -
  obtain c :: Controller and h ph where b: "m_regs c = ref_regs" "m_db_stride c = of_nat 0"
    "m_io_cq_phase c = phase_bit ph" "ref_idle 1 (unat (m_io_sq_tail c)) (unat (m_io_cq_head c)) ph h"
    by (rule ref_booted)
  show ?thesis
    using io_stays_in_step [OF refq.nvme_device_axioms b, of "replicate 100 (True, 0x307000, 8, 8)"]
    by (metis length_replicate)
qed

text \<open>The driver's queue on that machine: a read and a write for the NVMe device, a flush it does not know, and a request
  for a device that is not there are all completed.\<close>

definition four_requests :: store where
  "four_requests = [1 \<mapsto> default_request\<lparr>OpCode := Op_Read, device_handle := 0, lba := 8, req_count := 8\<rparr>,
     2 \<mapsto> default_request\<lparr>OpCode := Op_Write, device_handle := 0, lba := 8, req_count := 8\<rparr>,
     3 \<mapsto> default_request\<lparr>OpCode := Op_Flush, device_handle := 0\<rparr>, 4 \<mapsto> default_request\<lparr>device_handle := 7\<rparr>]"

definition ref_driver :: "refhw world gaossd" where
  "ref_driver = \<lparr>storageDevices = [nvme_storage ref_hw ref_env []], queue = [1, 2, 3, 4]\<rparr>"

lemma process_queue_completes_all_witness:
  "\<exists>w g' rs' w'. process_queue ref_driver four_requests w = Some (Success, g', rs', w') \<and>
     queue g' = [] \<and> (\<forall>p\<in>{1, 2, 3, 4}. \<exists>req. rs' p = Some req \<and> completed req) \<and> refq.in_step w'"
proof -
  obtain ok and c :: Controller and h where "ok \<longrightarrow> m_initialized c \<and> refq.admin_sync c h \<and> refq.io_sync c h \<and>
      m_hhdm_offset c = ref_hhdm \<and> d_disk (r_dev h) = ref_blank"
    "d_bad (r_dev ref_power_on) = [] \<longrightarrow> ok \<and> d_bad (r_dev h) = []"
    by (rule refboot.init_boots [OF ref_power_on_facts(3,1)])
  then have w: "refq.in_step (c, h)" using ref_power_on_facts(2) by (simp add: refq.in_step_def)
  have d: "storageDevices ref_driver = [nvme_storage ref_hw ref_env []]" by (simp add: ref_driver_def)
  have q: "queue ref_driver = [1, 2, 3, 4]" by (simp add: ref_driver_def)
  have "queue_alive ref_driver four_requests" by (simp add: queue_alive_def q four_requests_def)
  from process_queue_completes_all [OF refq.nvme_handlers_keep [OF d] w this]
  obtain g' rs' w' where r: "process_queue ref_driver four_requests (c, h) = Some (Success, g', rs', w')" "queue g' = []"
    "refq.in_step w'" "\<forall>p. (if p \<in> set (queue ref_driver) \<and> p \<noteq> 0 then \<exists>req. rs' p = Some req \<and> completed req
          else p \<in> set (queue ref_driver) \<or> rs' p = four_requests p)"
    by metis
  have "\<exists>req. rs' p = Some req \<and> completed req" if "p \<in> {1, 2, 3, 4}" for p
    using r(4) [rule_format, of p] that by (auto simp: q)
  then show ?thesis using r(1-3) by (intro exI) auto
qed

section \<open>Which bytes a transfer moves\<close>

text \<open>A block survives a transfer, whatever is in it and in memory, exactly if the buffer starts a page.\<close>

lemma whole_block:
  "(\<forall>block old. length block = 4096 \<and> length old = 4096 \<longrightarrow>
      take (room p) (drop (below p) block) @ drop (room p) old = (block :: bytes)) \<longleftrightarrow> unat p mod 4096 = 0"
proof
  assume all: "\<forall>block old. length block = 4096 \<and> length old = 4096 \<longrightarrow>
      take (room p) (drop (below p) block) @ drop (room p) old = (block :: bytes)"
  have "\<not> room p < 4096"
  proof
    assume r: "room p < 4096"
    have "(take (room p) (drop (below p) (replicate 4096 1)) @ drop (room p) (replicate 4096 0)) ! 4095 = (0 :: u8)"
      using r room_bounds [of p] by (simp add: nth_append)
    moreover have "take (room p) (drop (below p) (replicate 4096 1)) @ drop (room p) (replicate 4096 0) = (replicate 4096 1 :: bytes)"
      by (rule all [rule_format]) simp
    ultimately show False by simp
  qed
  then show "unat p mod 4096 = 0" using room_bounds(2) [of p] by (simp add: room_def)
next
  assume "unat p mod 4096 = 0"
  from page_start [OF this] show "\<forall>block old. length block = 4096 \<and> length old = 4096 \<longrightarrow>
      take (room p) (drop (below p) block) @ drop (room p) old = (block :: bytes)" by simp
qed

text \<open>C15: what a block operation moves. Wherever the caller's buffer lies, at physical address \<open>p\<close>, the
  driver names its first byte only and leaves the second data pointer 0. A write puts on the disk, when it
  succeeds, the bytes of the buffer that lie in its page, the \<open>room p\<close> first ones, between the \<open>p mod 4\<close> bytes below
  the buffer and what is at physical address 0; a read leaves that part of the block in the buffer and
  writes the rest over physical address 0. Whole blocks get through exactly if the buffer starts a page.\<close>

theorem block_transfer_stops_at_page:
  assumes disk: "nvme_disk hw env regs stride idle executed n disk mem sound kbuf phys hhdm bar0 rp"
    and ready: "nvme_disk.ready hw env regs stride idle kbuf hhdm kw"
    and "unat b < n" and "length bs = 4096" and p: "p = phys (next_buffer kw)" and h: "h = snd (kw_nvme kw)"
  shows "\<exists>ok kw1 r kw2.
    kernel_write_block hw env hhdm_response True bar0 rp 0 b bs kw = Some (ok, kw1) \<and>
    (ok \<longrightarrow> disk (snd (kw_nvme kw1)) = (disk h)[unat b :=
       get_mem (mem h) (of_nat (unat p - below p)) (below p) @ take (room p) bs @ get_mem (mem h) 0 (4096 - (below p + room p))]) \<and>
    kernel_read_block hw env rp 0 b kw = Some (r, kw2) \<and> disk (snd (kw_nvme kw2)) = disk h \<and>
    (r = None \<or> r = Some (take (room p) (drop (below p) (disk h ! unat b)) @ drop (room p) (get_mem (mem h) p 4096)) \<and>
       get_mem (mem (snd (kw_nvme kw2))) 0 (4096 - (below p + room p)) = drop (below p + room p) (disk h ! unat b)) \<and>
    ((\<forall>block old. length block = 4096 \<and> length old = 4096 \<longrightarrow>
        take (room p) (drop (below p) block) @ drop (room p) old = (block :: bytes)) \<longleftrightarrow> unat p mod 4096 = 0)"
proof -
  note defs = nvme_disk.kdisk_def [OF disk] nvme_disk.kmem_def [OF disk] nvme_disk.read_into_def [OF disk]
    nvme_disk.written_from_def [OF disk]
  obtain ok kw1 x where w: "kernel_write_block hw env hhdm_response True bar0 rp 0 b bs kw = Some (ok, kw1)"
    "disk (snd (kw_nvme kw1)) = (disk h)[unat b := x]"
    "ok \<longrightarrow> x = get_mem (mem h) (of_nat (unat p - below p)) (below p) @ take (room p) bs @ get_mem (mem h) 0 (4096 - (below p + room p))"
    using nvme_disk.kernel_write [OF disk ready assms(3,4) p] unfolding defs h by blast
  obtain r kw2 where r: "kernel_read_block hw env rp 0 b kw = Some (r, kw2)" "disk (snd (kw_nvme kw2)) = disk h"
    "r = None \<or> r = Some (take (room p) (drop (below p) (disk h ! unat b)) @ drop (room p) (get_mem (mem h) p 4096)) \<and>
       get_mem (mem (snd (kw_nvme kw2))) 0 (4096 - (below p + room p)) = drop (below p + room p) (disk h ! unat b)"
    using nvme_disk.kernel_read [OF disk ready assms(3) p] unfolding defs h by blast
  show ?thesis using w r whole_block [of p] by (intro exI conjI) blast+
qed

text \<open>The reference machine once it is up: its first buffer starts a page, the others lie one byte
  behind the start of another page.\<close>

definition ref_buffers :: "nat \<Rightarrow> u64" where
  "ref_buffers i = (if i = 0 then 0xFFFFFFFF80107000 else 0xFFFFFFFF80108001)"

lemma ref_buffers_facts:
  "ref_kbuf (ref_buffers i)" "ref_phys (ref_buffers 0) = 0x307000" "ref_phys (ref_buffers (Suc i)) = 0x308001"
  by (simp_all add: ref_buffers_def ref_kbuf_def ref_phys_def)

lemma ref_up:
  obtains kw where "refdisk.ready kw" "kw_buffers kw = ref_buffers" "kw_turn kw = 0" "refdisk.ksound kw"
proof -
  have all: "ref_kbuf (ref_buffers i)" for i by (rule ref_buffers_facts(1))
  show ?thesis
  proof (rule refboot.ctor_boots [OF ref_power_on_facts(3,1,2), of ref_buffers 0])
    fix ssd c' h'
    assume "(\<And>i. ref_kbuf (ref_buffers i)) \<Longrightarrow>
        refdisk.ready \<lparr>kw_nvme = (c', h'), kw_ssd = Some ssd, kw_buffers = ref_buffers, kw_turn = 0\<rparr>" "d_bad (r_dev h') = []"
    then show thesis
      using all by (intro that [of "\<lparr>kw_nvme = (c', h'), kw_ssd = Some ssd, kw_buffers = ref_buffers, kw_turn = 0\<rparr>"])
        (simp_all add: refdisk.ksound_def)
  qed
qed

theorem block_transfer_stops_at_page_witness:
  "\<exists>kw ok kw1. kernel_write_block ref_hw ref_env (Some ref_hhdm) True ref_bar0 1 0 7 (replicate 4096 5) kw = Some (ok, kw1) \<and>
     (ok \<longrightarrow> d_disk (r_dev (snd (kw_nvme kw1))) = (d_disk (r_dev (snd (kw_nvme kw))))[7 := replicate 4096 5])"
proof -
  obtain kw where k: "refdisk.ready kw" "kw_buffers kw = ref_buffers" "kw_turn kw = 0" by (rule ref_up)
  have p: "0x307000 = ref_phys (next_buffer kw)" using k(2,3) ref_buffers_facts(2) by (simp add: next_buffer_def)
  have z: "below 0x307000 = 0" "room 0x307000 = 4096" by (simp_all add: below_def room_def)
  have "unat (7 :: u64) < 204800" "length (replicate 4096 (5 :: u8)) = 4096" by simp_all
  from block_transfer_stops_at_page [OF refdisk.nvme_disk_axioms k(1) this p refl]
  obtain ok kw1 where "kernel_write_block ref_hw ref_env (Some ref_hhdm) True ref_bar0 1 0 7 (replicate 4096 5) kw = Some (ok, kw1)"
    "ok \<longrightarrow> d_disk (r_dev (snd (kw_nvme kw1))) = (d_disk (r_dev (snd (kw_nvme kw))))[unat (7 :: u64) :=
       get_mem (d_mem (r_dev (snd (kw_nvme kw)))) (of_nat (unat (0x307000 :: u64) - 0)) 0 @ take 4096 (replicate 4096 5) @
       get_mem (d_mem (r_dev (snd (kw_nvme kw)))) 0 (4096 - (0 + 4096))]"
    unfolding z by blast
  then show ?thesis by (intro exI [of _ kw] exI [of _ ok] exI [of _ kw1]) (simp add: get_mem_def)
qed

section \<open>Mounting\<close>

lemma magic_first_byte:
  assumes "ph_magic (decode_partition bs) = ABTRFS_FS_MAGIC" and "8 \<le> length bs"
  shows "bs ! 0 = 0xF4"
proof -
  obtain b cs where bs: "bs = b # cs" using assms(2) by (cases bs) auto
  have t: "take 8 bs = b # take 7 cs" by (simp add: bs numeral_eq_Suc)
  have "le_nat (take 8 bs) < 2 ^ 64" using le_nat_bound [of "take 8 bs"] assms(2) by simp
  moreover have "get64 (take 8 bs) = ABTRFS_FS_MAGIC"
    using assms(1) by (simp add: decode_partition_def partition_layout_def Let_def)
  ultimately have "le_nat (take 8 bs) = 0xABF4"
    by (simp add: get64_def ABTRFS_FS_MAGIC_def word_unat_eq_iff unat_of_nat)
  then have "unat b mod 256 = 0xABF4 mod 256" unfolding t by (metis le_nat.simps(2) mod_mult_self2)
  then have "unat b = 0xF4" using unat_less [of b] by simp
  then show ?thesis by (simp add: bs word_unat_eq_iff)
qed

lemma magic_bytes:
  assumes "ph_magic ph = ABTRFS_FS_MAGIC" and "0 < d" and "d < 4"
  shows "encode_partition ph ! d \<noteq> 0xF4"
proof -
  have eight: "(8 :: nat) = Suc (Suc (Suc (Suc (Suc (Suc (Suc (Suc 0)))))))" by simp
  have le: "le_bytes 8 0xABF4 = [0xF4, 0xAB, 0, 0, 0, 0, 0, 0]" unfolding eight by simp
  have "encode_partition ph = [0xF4, 0xAB, 0, 0, 0, 0, 0, 0] @ concat (tl (partition_fields ph))"
    using assms(1) by (simp add: encode_partition_def partition_fields_def put64_def ABTRFS_FS_MAGIC_def le)
  moreover have "d = 1 \<or> d = 2 \<or> d = 3" using assms(2,3) by linarith
  ultimately show ?thesis by auto
qed

text \<open>C16: mounting needs a buffer whose physical address is a multiple of four. \<^verbatim>\<open>mount\<close> reads the partition header
  straight into the member \<^verbatim>\<open>_partition_header\<close>, which lies one byte behind the start of the object. On a
  controller that ignores the low two bits of a data pointer, or refuses it, a volume that is there and intact
  is not mounted.\<close>

theorem mount_needs_dword_buffer:
  assumes disk: "nvme_disk hw env regs stride idle executed n disk mem sound kbuf phys hhdm bar0 rp"
    and ready: "nvme_disk.ready hw env regs stride idle kbuf hhdm kw"
    and "0 < n" and "disk (snd (kw_nvme kw)) ! 0 = encode_partition ph" and "ph_magic ph = ABTRFS_FS_MAGIC"
    and "unat (phys (next_buffer kw)) mod 4 \<noteq> 0"
  shows "\<exists>fs' kw'. mount (kernel_read_block hw env rp) base_addr hh 0 fs kw = Some (False, fs', kw') \<and> \<not> is_mounted fs'"
proof -
  let ?p = "phys (next_buffer kw)" and ?h = "snd (kw_nvme kw)"
  have b: "unat (0 :: u64) < n" using assms(3) by simp
  obtain r kw' where r: "kernel_read_block hw env rp 0 0 kw = Some (r, kw')"
    "r = None \<or> r = Some (take (room ?p) (drop (below ?p) (disk ?h ! 0)) @ drop (room ?p) (get_mem (mem ?h) ?p 4096))"
    using nvme_disk.kernel_read [OF disk ready b refl]
    unfolding nvme_disk.kdisk_def [OF disk] nvme_disk.kmem_def [OF disk] nvme_disk.read_into_def [OF disk] unat_0 by blast
  have "wf_disk n (disk ?h)"
    using nvme_disk.disk_wf [OF disk] ready
    by (auto simp: nvme_disk.ready_def [OF disk] nvme_device.io_sync_def [OF nvme_disk.axioms(1) [OF disk]] split: prod.splits)
  then have len: "length (encode_partition ph) = 4096" using assms(3,4) by (metis wf_disk_def nth_mem)
  note rb = room_bounds [of ?p]
  have d: "0 < below ?p" using assms(6) by (simp add: below_def)
  define bs where "bs = take (room ?p) (drop (below ?p) (encode_partition ph)) @ drop (room ?p) (get_mem (mem ?h) ?p 4096)"
  have "bs ! 0 = encode_partition ph ! below ?p" using rb len by (simp add: bs_def nth_append)
  then have "bs ! 0 \<noteq> 0xF4" using magic_bytes [OF assms(5) d rb(3)] by simp
  moreover have "length bs = 4096" using rb len by (simp add: bs_def)
  ultimately have "ph_magic (decode_partition bs) \<noteq> ABTRFS_FS_MAGIC" using magic_first_byte [of bs] by auto
  then show ?thesis
    using r(1) r(2) [unfolded assms(4), folded bs_def] by (auto simp: mount_def Let_def)
qed

theorem mount_needs_dword_buffer_witness:
  "\<exists>kw fs' kw'. d_disk (r_dev (snd (kw_nvme kw))) ! 0 = encode_partition format_header \<and>
     mount (kernel_read_block ref_hw ref_env 1) 0 ref_hhdm 0 AbtrFS_init kw = Some (False, fs', kw') \<and> \<not> is_mounted fs'"
proof -
  obtain kw where k: "refdisk.ready kw" "kw_buffers kw = ref_buffers" "kw_turn kw = 0" "refdisk.ksound kw" by (rule ref_up)
  have p: "0x307000 = ref_phys (next_buffer kw)" using k(2,3) ref_buffers_facts(2) by (simp add: next_buffer_def)
  have n: "unat (0 :: u64) < 204800" and n0: "0 < (204800 :: nat)" by simp_all
  have wf: "wf_partition format_header"
    using wf_default_headers(2) by (simp add: format_header_def wf_partition_def Let_def)
  note len = length_encode_partition [OF wf]
  have pg: "unat (0x307000 :: u64) mod 4096 = 0" by simp
  obtain kw1 where w: "refdisk.ready kw1" "kw_buffers kw1 = ref_buffers" "kw_turn kw1 = 1"
    "refdisk.kdisk kw1 = (refdisk.kdisk kw)[0 := encode_partition format_header]"
    using refdisk.kernel_write [OF k(1) n len p] k page_start(1) [OF pg] refdisk.paged_transfers(2) [OF pg len]
    by auto
  have "wf_disk 204800 (refdisk.kdisk kw)"
    using k(1) refdisk.disk_wf by (auto simp: refdisk.ready_def refdisk.kdisk_def refq.io_sync_def split: prod.splits)
  then have d: "d_disk (r_dev (snd (kw_nvme kw1))) ! 0 = encode_partition format_header"
    using w(4) by (simp add: refdisk.kdisk_def wf_disk_def)
  have odd: "unat (ref_phys (next_buffer kw1)) mod 4 \<noteq> 0"
    using w(2,3) ref_buffers_facts(3) [of 0] by (simp add: next_buffer_def)
  have m: "ph_magic format_header = ABTRFS_FS_MAGIC" by (simp add: format_header_def Let_def)
  show ?thesis
    using mount_needs_dword_buffer [OF refdisk.nvme_disk_axioms w(1) n0 d m odd, of 0 ref_hhdm AbtrFS_init] d by blast
qed

section \<open>Handles\<close>

text \<open>\<^verbatim>\<open>write_block\<close> only knows handle 0. It asks a storage driver of its own, which has
  at most the NVMe disk: on a running controller a write to any other handle is refused, whatever
  devices the attached driver has, and nothing but the buffer is touched.\<close>

theorem write_block_refuses_other_handles:
  assumes "kw_nvme kw = (c, h)" and "m_initialized c" and "bar0 \<noteq> 0" and "handle \<noteq> 0"
  shows "kernel_write_block hw env hhdm_response True bar0 rp handle b bs kw
    = Some (False, (take_turn kw)\<lparr>kw_nvme := (c, hw_put_bytes hw (next_buffer kw) bs h)\<rparr>)"
proof (cases "handle = InvalidHandle")
  case True
  then show ?thesis using assms(1) by (simp add: kernel_write_block_def)
next
  case False
  let ?w0 = "(c, hw_put_bytes hw (next_buffer kw) bs h)"
  define g where "g = snd (snd (register_device empty_gaossd
      (nvme_storage hw env (model_number hw env (snd ?w0)))))"
  have "length (storageDevices g) = 1"
    by (simp add: g_def register_device_def empty_gaossd_def)
  moreover have "1 \<le> unat handle" using assms(4) by (simp add: Suc_le_eq unat_gt_0)
  moreover have "gaossd_ctor hw env hhdm_response True bar0 ?w0 = Some (g, ?w0)"
    using assms(2,3) by (simp add: gaossd_ctor_def init_def g_def Let_def)
  ultimately show ?thesis
    using False assms(1)
    by (simp add: kernel_write_block_def submit_request_def block_request_def default_request_def Let_def)
qed

end
