(* ===== verification/NvmeReset.thy ===== *)
theory NvmeReset
  imports KernelPath
begin

unbundle bit_operations_syntax

text \<open>
  The life of a controller after bring-up: a second \<^verbatim>\<open>init\<close>, and \<^verbatim>\<open>reset\<close>, which clears and
  sets the enable bit. A controller reset deletes the I/O queues of the device; the driver's rings,
  and its belief that it is initialised, survive it.
\<close>

section \<open>Polling for nothing\<close>

lemma poll_cq_never:
  assumes step: "\<And>h e h1. I h \<Longrightarrow> hw_get_cqe hw a h = (e, h1) \<Longrightarrow> bit (cq_status e) 0 \<noteq> ph \<and> I h1"
    and start: "I h"
  shows "poll_cq hw a (phase_bit ph) h = None"
proof (rule ccontr)
  assume "poll_cq hw a (phase_bit ph) h \<noteq> None"
  then obtain y where y: "poll_cq hw a (phase_bit ph) h = Some y" by auto
  have "hw = hw \<and> a = a \<and> phase_bit ph = phase_bit ph \<longrightarrow> \<not> I h"
  proof (rule poll_cq.raw_induct [OF _ y, where P = "\<lambda>hw' a' b k y. hw' = hw \<and> a' = a \<and> b = phase_bit ph \<longrightarrow> \<not> I k"],
      intro impI notI, elim conjE)
    fix f and hw' :: "'a hw" and a' b k y
    assume IH: "\<And>hw' a' b k y. f hw' a' b k = Some y \<Longrightarrow> hw' = hw \<and> a' = a \<and> b = phase_bit ph \<longrightarrow> \<not> I k"
      and y: "(case hw_get_cqe hw' a' k of (e, h1) \<Rightarrow>
         if ucast (cq_status e AND 1) = b then (case hw_get_cqe hw' a' h1 of (e', h2) \<Rightarrow> Some (cq_status e', h2))
         else f hw' a' b h1) = Some y"
      and eq: "hw' = hw" "a' = a" "b = phase_bit ph" and k: "I k"
    obtain e h1 where e: "hw_get_cqe hw a k = (e, h1)" by (cases "hw_get_cqe hw a k")
    from step [OF k e] have n: "bit (cq_status e) 0 \<noteq> ph" "I h1" by simp_all
    then have "f hw a (phase_bit ph) h1 = Some y"
      using y unfolding eq e prod.case phase_match by simp
    from IH [OF this] n(2) show False by simp
  qed
  then show False using start by simp
qed

section \<open>The laws of a controller reset\<close>

text \<open>\<open>halted c ph\<close>: the controller is disabled. \<open>lost c ph\<close>: it runs again, without I/O queues. In both
  the completion slot \<open>c\<close> the driver will look at still holds an entry with the old phase.\<close>

locale nvme_reset = nvme_device hw env regs stride idle executed
  for hw :: "'h hw" and env :: kernel_env and regs :: u64 and stride :: nat
    and idle :: "nat \<Rightarrow> nat \<Rightarrow> nat \<Rightarrow> bool \<Rightarrow> 'h \<Rightarrow> bool"
    and executed :: "nat \<Rightarrow> SubmissionQueueEntry \<Rightarrow> u16 \<Rightarrow> 'h \<Rightarrow> 'h \<Rightarrow> bool" +
  fixes halted lost :: "nat \<Rightarrow> bool \<Rightarrow> 'h \<Rightarrow> bool"
  assumes halt_law: "idle 1 t c ph h \<Longrightarrow> \<exists>cc h1 h2. hw_read32 hw (regs + reg_cc) h = (cc, h1) \<and>
      stops hw (regs + reg_csts) (hw_write32 hw (regs + reg_cc) (cc AND NOT 1) h1) h2 \<and> halted c ph h2"
    and restart_law: "halted c ph h \<Longrightarrow> \<exists>cc h1. hw_read32 hw (regs + reg_cc) h = (cc, h1) \<and>
      (\<forall>v. cc_ok v \<longrightarrow> (\<exists>ok h2. becomes_ready hw (regs + reg_csts) (hw_write32 hw (regs + reg_cc) v h1) ok h2 \<and>
        lost c ph h2))"
    and lost_put: "lost c ph h \<Longrightarrow> lost c ph (hw_put_sqe hw (sq_base env 1 + 64 * of_nat t) cmd h)"
    and lost_bell: "lost c ph h \<Longrightarrow> lost c ph (hw_write32 hw (doorbell_at regs stride 2) v h)"
    and lost_get: "lost c ph h \<Longrightarrow> hw_get_cqe hw (cq_base env 1 + 16 * of_nat c) h = (e, h1) \<Longrightarrow>
      bit (cq_status e) 0 \<noteq> ph \<and> lost c ph h1"
begin

lemma reset_returns:
  assumes "m_regs c = regs" and "idle 1 t k ph h"
  shows "\<exists>ok h'. reset_controller hw c h = Some (ok, h') \<and> lost k ph h'"
proof -
  obtain cc h1 h2 where stop: "hw_read32 hw (regs + reg_cc) h = (cc, h1)"
    "stops hw (regs + reg_csts) (hw_write32 hw (regs + reg_cc) (cc AND NOT 1) h1) h2" "halted k ph h2"
    using halt_law [OF assms(2)] by blast
  obtain cc' h3 where start: "hw_read32 hw (regs + reg_cc) h2 = (cc', h3)"
    "\<forall>v. cc_ok v \<longrightarrow> (\<exists>ok h4. becomes_ready hw (regs + reg_csts) (hw_write32 hw (regs + reg_cc) v h3) ok h4 \<and>
      lost k ph h4)"
    using restart_law [OF stop(3)] by blast
  obtain ok h4 where ready: "becomes_ready hw (regs + reg_csts) (hw_write32 hw (regs + reg_cc) (enable_bits cc') h3) ok h4"
    "lost k ph h4"
    using start(2) enable_bits_cc_ok by blast
  have "disable hw c h = Some h2"
    using stop(1) wait_clear_stops [OF stop(2)] assms(1) by (simp add: disable_def)
  moreover have "enable hw c h2 = Some (ok, h4)"
    using start(1) wait_ready_becomes [OF ready(1)] assms(1) by (simp add: enable_def)
  ultimately show ?thesis using ready(2) by (simp add: reset_controller_def)
qed

lemma lost_poll_hangs:
  assumes "lost k ph h"
  shows "poll_cq hw (cq_base env 1 + 16 * of_nat k) (phase_bit ph) h = None"
  using lost_get assms by (intro poll_cq_never [where I = "lost k ph"]) blast

lemma lost_command_hangs:
  assumes c: "m_regs c = regs" "m_db_stride c = of_nat stride" "m_io_cq_phase c = phase_bit ph"
    and l: "lost (unat (m_io_cq_head c)) ph h"
  shows "io_command hw env mk c h = None"
proof -
  let ?h1 = "hw_put_sqe hw (sq_base env 1 + 64 * ucast (m_io_sq_tail c)) (mk (m_io_sq_tail c)) h"
  have "lost (unat (m_io_cq_head c)) ph ?h1"
    using lost_put [OF l, of "unat (m_io_sq_tail c)"] by simp
  then have "lost (unat (m_io_cq_head c)) ph (hw_write32 hw (doorbell_at regs stride 2) v ?h1)" for v
    by (rule lost_bell)
  from lost_poll_hangs [OF this] show ?thesis
    using c doorbells(1) [of "c\<lparr>m_io_sq_tail := x\<rparr>" 1 for x]
    by (simp add: io_command_def Let_def ring_sq_doorbell_def sq_base_def cq_base_def)
qed

end

section \<open>The reference controller\<close>

definition ref_halted :: "nat \<Rightarrow> bool \<Rightarrow> refhw \<Rightarrow> bool" where
  "ref_halted c ph h \<longleftrightarrow> \<not> bit (r_cc h) 0 \<and> r_pend h = None \<and>
     bit (cq_status (r_cqe h (ref_cqb 1 + 16 * of_nat c))) 0 \<noteq> ph"

definition ref_lost :: "nat \<Rightarrow> bool \<Rightarrow> refhw \<Rightarrow> bool" where
  "ref_lost c ph h \<longleftrightarrow> d_iosq (r_dev h) = None \<and> r_pend h = None \<and>
     bit (cq_status (r_cqe h (ref_cqb 1 + 16 * of_nat c))) 0 \<noteq> ph"

lemma ref_halt_law:
  assumes i: "ref_idle 1 t c ph h"
  shows "\<exists>cc h1 h2. hw_read32 ref_hw (ref_regs + reg_cc) h = (cc, h1) \<and>
      stops ref_hw (ref_regs + reg_csts) (hw_write32 ref_hw (ref_regs + reg_cc) (cc AND NOT 1) h1) h2 \<and>
      ref_halted c ph h2"
proof -
  let ?v = "r_cc h AND NOT 1"
  let ?h = "h\<lparr>r_cc := ?v\<rparr>" and ?h1 = "h\<lparr>r_cc := ?v, r_rdy := False\<rparr>"
  have off: "\<not> bit ?v 0" by (simp add: bit_and_iff bit_not_iff)
  have r: "hw_read32 ref_hw (ref_regs + reg_cc) h = (r_cc h, h)"
    "hw_write32 ref_hw (ref_regs + reg_cc) ?v h = ?h"
    using off by (simp_all add: ref_reads ref_set_cc_def)
  have read: "hw_read32 ref_hw (ref_regs + reg_csts) k = (of_bool (r_rdy k), ?h1)"
    if "k = ?h \<or> k = ?h1" for k using that off by (auto simp: ref_reads)
  have two: "stops ref_hw (ref_regs + reg_csts) ?h1 ?h1"
    using read by (intro stops.stopped [where v = 0]) auto
  have "stops ref_hw (ref_regs + reg_csts) ?h ?h1"
  proof (cases "r_rdy h")
    case True
    then show ?thesis using read two by (intro stops.running [of ref_hw _ ?h 1 ?h1]) simp_all
  next
    case False
    then show ?thesis using read [of ?h] by (intro stops.stopped [where v = 0]) simp_all
  qed
  moreover have "ref_halted c ph ?h1"
    using i off by (auto simp: ref_halted_def ref_idle_def ref_steady_def ring_ph_def)
  ultimately show ?thesis using r by metis
qed

lemma ref_restart_law:
  assumes "ref_halted c ph h"
  shows "\<exists>cc h1. hw_read32 ref_hw (ref_regs + reg_cc) h = (cc, h1) \<and>
      (\<forall>v. cc_ok v \<longrightarrow> (\<exists>ok h2. becomes_ready ref_hw (ref_regs + reg_csts)
         (hw_write32 ref_hw (ref_regs + reg_cc) v h1) ok h2 \<and> ref_lost c ph h2))"
proof -
  have "\<exists>ok h2. becomes_ready ref_hw (ref_regs + reg_csts) (hw_write32 ref_hw (ref_regs + reg_cc) v h) ok h2 \<and>
      ref_lost c ph h2" if v: "cc_ok v" for v
  proof -
    have en: "bit v 0" using v by (simp add: cc_ok_def)
    define k where "k = hw_write32 ref_hw (ref_regs + reg_cc) v h"
    have k: "k = h\<lparr>r_cc := v, r_pos := (\<lambda>_. (0, 0, True)), r_pend := None,
        r_dev := (r_dev h)\<lparr>d_iocq := None, d_iosq := None\<rparr>\<rparr>"
      using assms en by (simp add: k_def ref_halted_def ref_reads ref_set_cc_def)
    have lost: "ref_lost c ph (k\<lparr>r_rdy := b\<rparr>)" "ref_lost c ph k" for b
      using assms by (simp_all add: k ref_halted_def ref_lost_def)
    have read: "hw_read32 ref_hw (ref_regs + reg_csts) m =
        (if r_aqa h = 0x3F003F then (of_bool (r_rdy m), m\<lparr>r_rdy := True\<rparr>) else (2, m))"
      if "m = k \<or> m = k\<lparr>r_rdy := True\<rparr>" for m using that v en by (auto simp: k ref_reads)
    show ?thesis
    proof (cases "r_aqa h = 0x3F003F")
      case aqa: True
      then have rest: "becomes_ready ref_hw (ref_regs + reg_csts) (k\<lparr>r_rdy := True\<rparr>) True (k\<lparr>r_rdy := True\<rparr>)"
        using read by (intro becomes_ready.yes [where v = 1]) simp_all
      have "becomes_ready ref_hw (ref_regs + reg_csts) k True (k\<lparr>r_rdy := True\<rparr>)"
      proof (cases "r_rdy k")
        case True
        then show ?thesis using read aqa by (intro becomes_ready.yes [where v = 1]) simp_all
      next
        case False
        then show ?thesis using read aqa rest
          by (intro becomes_ready.again [of ref_hw _ k 0 "k\<lparr>r_rdy := True\<rparr>" 1 "k\<lparr>r_rdy := True\<rparr>"]) simp_all
      qed
      then show ?thesis using lost unfolding k_def [symmetric] by blast
    next
      case False
      then have "becomes_ready ref_hw (ref_regs + reg_csts) k False k"
        using read [of k] by (intro becomes_ready.fatal [of ref_hw _ k 2 k 2 k]) simp_all
      then show ?thesis using lost unfolding k_def [symmetric] by blast
    qed
  qed
  moreover have "hw_read32 ref_hw (ref_regs + reg_cc) h = (r_cc h, h)" by (simp add: ref_reads)
  ultimately show ?thesis by blast
qed

interpretation refreset: nvme_reset ref_hw ref_env ref_regs 0 ref_idle ref_executed ref_halted ref_lost
proof unfold_locales
  show "ref_idle 1 t c ph h \<Longrightarrow> \<exists>cc h1 h2. hw_read32 ref_hw (ref_regs + reg_cc) h = (cc, h1) \<and>
      stops ref_hw (ref_regs + reg_csts) (hw_write32 ref_hw (ref_regs + reg_cc) (cc AND NOT 1) h1) h2 \<and>
      ref_halted c ph h2" for t c ph h
    by (rule ref_halt_law)
  show "ref_halted c ph h \<Longrightarrow> \<exists>cc h1. hw_read32 ref_hw (ref_regs + reg_cc) h = (cc, h1) \<and>
      (\<forall>v. cc_ok v \<longrightarrow> (\<exists>ok h2. becomes_ready ref_hw (ref_regs + reg_csts)
         (hw_write32 ref_hw (ref_regs + reg_cc) v h1) ok h2 \<and> ref_lost c ph h2))" for c ph h
    by (rule ref_restart_law)
  show "ref_lost c ph (hw_put_sqe ref_hw (sq_base ref_env 1 + 64 * of_nat t) cmd h)" if "ref_lost c ph h" for c ph h t cmd
    using that by (simp add: ref_lost_def ref_hw_def)
  show "ref_lost c ph (hw_write32 ref_hw (doorbell_at ref_regs 0 2) v h)" if "ref_lost c ph h" for c ph h v
    using that by (simp add: ref_lost_def ref_hw_def ref_write32_def doorbell_at_def ref_regs_def reg_cc_def reg_aqa_def)
  show "bit (cq_status e) 0 \<noteq> ph \<and> ref_lost c ph h1"
    if "ref_lost c ph h" "hw_get_cqe ref_hw (cq_base ref_env 1 + 16 * of_nat c) h = (e, h1)" for c ph h e h1
    using that ref_phys_slot(1) [of 1 "16 * of_nat c"] by (auto simp: ref_lost_def ref_hw_def ref_step_def)
qed

section \<open>After a reset\<close>

text \<open>C14: a reset loses the I/O queues for good. On a device whose I/O queue pair is in step with the
  driver, \<^verbatim>\<open>reset\<close> returns; but it creates no queues and moves no ring of the driver back, so from then
  on every \<^verbatim>\<open>read\<close> and \<^verbatim>\<open>write\<close>, of whatever sectors, waits for a completion for ever, and a
  second \<^verbatim>\<open>init\<close> repairs nothing: it reports success at once without touching the device.\<close>

theorem reset_then_io_hangs:
  assumes laws: "nvme_reset hw env regs stride idle executed halted lost"
    and c: "m_initialized c" "m_regs c = regs" "m_db_stride c = of_nat stride" "m_io_cq_phase c = phase_bit ph"
    and step: "idle 1 (unat (m_io_sq_tail c)) (unat (m_io_cq_head c)) ph h"
  shows "\<exists>ok h'. reset_controller hw c h = Some (ok, h') \<and> init hw env bar0 hhdm c h' = Some (True, c, h') \<and>
    (\<forall>a first count. nvme_read hw env a first count c h' = None \<and> nvme_write hw env a first count c h' = None)"
proof -
  obtain ok h' where r: "reset_controller hw c h = Some (ok, h')" "lost (unat (m_io_cq_head c)) ph h'"
    using nvme_reset.reset_returns [OF laws c(2) step] by blast
  have "init hw env bar0 hhdm c h' = Some (True, c, h')" using c(1) by (simp add: init_def)
  then show ?thesis
    using r(1) nvme_reset.lost_command_hangs [OF laws c(2-4) r(2)]
    by (auto simp: nvme_read_def nvme_write_def)
qed

theorem reset_then_io_hangs_witness:
  "\<exists>c h ok h'. reset_controller ref_hw c h = Some (ok, h') \<and> nvme_read ref_hw ref_env 0x307000 8 8 c h' = None"
proof -
  obtain ok and c :: Controller and h where "ok \<longrightarrow> m_initialized c \<and> refq.admin_sync c h \<and> refq.io_sync c h \<and>
      m_hhdm_offset c = ref_hhdm \<and> d_disk (r_dev h) = ref_blank"
    "d_bad (r_dev ref_power_on) = [] \<longrightarrow> ok \<and> d_bad (r_dev h) = []"
    by (rule refboot.init_boots [OF ref_power_on_facts(3,1)])
  then have "m_initialized c" "refq.io_sync c h" using ref_power_on_facts(2) by blast+
  then obtain ph where b: "m_initialized c" "m_regs c = ref_regs" "m_db_stride c = of_nat 0"
    "m_io_cq_phase c = phase_bit ph" "ref_idle 1 (unat (m_io_sq_tail c)) (unat (m_io_cq_head c)) ph h"
    by (auto simp: refq.io_sync_def)
  from reset_then_io_hangs [OF refreset.nvme_reset_axioms b] show ?thesis by blast
qed

end
