(* ===== verification/OldNvme.thy ===== *)
theory OldNvme
  imports KernelPath
begin

unbundle bit_operations_syntax

text \<open>
  The earlier NVMe driver (\<^verbatim>\<open>src/drivers/nvme/nvme.cpp\<close>, \<^verbatim>\<open>nvme_command.hpp\<close>,
  \<^verbatim>\<open>nvme_completion.hpp\<close>) over the same device interface as the present one. The header that
  declares its class is not in the repository: the positions in the rings are numbers here (they stay below
  64, so every unsigned type holds them), and the members the constructor does not set keep whatever they
  have. The rings are at fixed addresses, used both as pointers and as device addresses.
\<close>

section \<open>Commands and the driver object\<close>

record NvmeCommand =
  nc_opcode :: u8
  nc_flags :: u8
  nc_cid :: u16
  nc_nsid :: u32
  nc_rsvd2 :: u64
  nc_mptr :: u64
  nc_prp1 :: u64
  nc_prp2 :: u64
  nc_cdw10 :: u32
  nc_cdw11 :: u32
  nc_cdw12 :: u32
  nc_cdw13 :: u32
  nc_cdw14 :: u32
  nc_cdw15 :: u32

record NvmeCompletion =
  nq_dw0 :: u32
  nq_rsvd :: u32
  nq_sqhd :: u16
  nq_sqid :: u16
  nq_cid :: u16
  nq_status :: u16

record NvmeDriver =
  mmio_base :: u64
  admin_sq_tail :: nat
  admin_cq_head :: nat
  admin_cq_phase :: bool
  io_sq_tail :: nat
  io_cq_head :: nat
  io_cq_phase :: bool

definition NvmeDriver_ctor :: "u64 \<Rightarrow> NvmeDriver \<Rightarrow> NvmeDriver" where
  "NvmeDriver_ctor bar0_mmio_address d =
     d\<lparr>mmio_base := bar0_mmio_address, admin_sq_tail := 0, admin_cq_head := 0, admin_cq_phase := True\<rparr>"

text \<open>\<^verbatim>\<open>NvmeCommand cmd = {}\<close>.\<close>

definition zero_command :: NvmeCommand where
  "zero_command = \<lparr>nc_opcode = 0, nc_flags = 0, nc_cid = 0, nc_nsid = 0, nc_rsvd2 = 0, nc_mptr = 0,
     nc_prp1 = 0, nc_prp2 = 0, nc_cdw10 = 0, nc_cdw11 = 0, nc_cdw12 = 0, nc_cdw13 = 0, nc_cdw14 = 0,
     nc_cdw15 = 0\<rparr>"

text \<open>The packed structures as the device sees them: 64 bytes of a command are an entry of the submission
  ring, 16 bytes of an entry of the completion ring are a completion.\<close>

definition sqe_of :: "NvmeCommand \<Rightarrow> SubmissionQueueEntry" where
  "sqe_of m = \<lparr>cdw0 = ucast (nc_opcode m) OR push_bit 8 (ucast (nc_flags m)) OR push_bit 16 (ucast (nc_cid m)),
     nsid = nc_nsid m, sq_reserved0 = nc_rsvd2 m, mptr = nc_mptr m, dptr0 = nc_prp1 m, dptr1 = nc_prp2 m,
     cdw10 = nc_cdw10 m, cdw11 = nc_cdw11 m, cdw12 = nc_cdw12 m, cdw13 = nc_cdw13 m, cdw14 = nc_cdw14 m,
     cdw15 = nc_cdw15 m\<rparr>"

definition completion_of :: "CompletionQueueEntry \<Rightarrow> NvmeCompletion" where
  "completion_of e = \<lparr>nq_dw0 = cq_dw0 e, nq_rsvd = cq_reserved e, nq_sqhd = cq_sq_head e,
     nq_sqid = cq_sq_id e, nq_cid = command_id e, nq_status = cq_status e\<rparr>"

text \<open>Byte for byte: the fields in order, little-endian, without padding.\<close>

definition entry_bytes :: "SubmissionQueueEntry \<Rightarrow> bytes" where
  "entry_bytes e = concat [put32 (cdw0 e), put32 (nsid e), put64 (sq_reserved0 e), put64 (mptr e),
     put64 (dptr0 e), put64 (dptr1 e), put32 (cdw10 e), put32 (cdw11 e), put32 (cdw12 e), put32 (cdw13 e),
     put32 (cdw14 e), put32 (cdw15 e)]"

definition command_bytes :: "NvmeCommand \<Rightarrow> bytes" where
  "command_bytes m = concat [[nc_opcode m], [nc_flags m], put16 (nc_cid m), put32 (nc_nsid m),
     put64 (nc_rsvd2 m), put64 (nc_mptr m), put64 (nc_prp1 m), put64 (nc_prp2 m), put32 (nc_cdw10 m),
     put32 (nc_cdw11 m), put32 (nc_cdw12 m), put32 (nc_cdw13 m), put32 (nc_cdw14 m), put32 (nc_cdw15 m)]"

lemma sqe_bytes: "entry_bytes (sqe_of m) = command_bytes m"
  by (simp add: entry_bytes_def command_bytes_def sqe_of_def put32_head)

section \<open>Registers and doorbells\<close>

definition NVMe_REG_CC :: u32 where "NVMe_REG_CC = 0x14"
definition NVMe_REG_CSTS :: u32 where "NVMe_REG_CSTS = 0x1C"
definition NVMe_REG_AQA :: u32 where "NVMe_REG_AQA = 0x24"
definition NVMe_REG_ASQ :: u32 where "NVMe_REG_ASQ = 0x28"
definition NVMe_REG_ACQ :: u32 where "NVMe_REG_ACQ = 0x30"

definition get_register :: "NvmeDriver \<Rightarrow> u32 \<Rightarrow> u64" where
  "get_register d off = mmio_base d + ucast off"

definition ring_admin_doorbell :: "'h hw \<Rightarrow> NvmeDriver \<Rightarrow> u16 \<Rightarrow> 'h \<Rightarrow> 'h" where
  "ring_admin_doorbell hw d tail h = hw_write32 hw (mmio_base d + 0x1000 + 4 * 0) (ucast tail) h"

definition ring_io_sq_doorbell :: "'h hw \<Rightarrow> NvmeDriver \<Rightarrow> u16 \<Rightarrow> 'h \<Rightarrow> 'h" where
  "ring_io_sq_doorbell hw d tail h = hw_write32 hw (mmio_base d + 0x1000 + 4 * 2) (ucast tail) h"

definition ring_io_cq_doorbell :: "'h hw \<Rightarrow> NvmeDriver \<Rightarrow> u16 \<Rightarrow> 'h \<Rightarrow> 'h" where
  "ring_io_cq_doorbell hw d head h = hw_write32 hw (mmio_base d + 0x1000 + 4 * 3) (ucast head) h"

section \<open>Commands\<close>

text \<open>The loop around the phase test; it ends with the read that saw the expected phase.\<close>

partial_function (option) cqe_wait :: "'h hw \<Rightarrow> u64 \<Rightarrow> bool \<Rightarrow> 'h \<Rightarrow> 'h option" where
  "cqe_wait hw a phase h =
    (case hw_get_cqe hw a h of (e, h1) \<Rightarrow>
       if (nq_status (completion_of e) AND 0x1 \<noteq> 0) = phase then Some h1 else cqe_wait hw a phase h1)"

text \<open>The status is read from the entry once more, after the doorbell.\<close>

definition status_code_zero :: "'h hw \<Rightarrow> u64 \<Rightarrow> 'h \<Rightarrow> bool \<times> 'h" where
  "status_code_zero hw a h =
     (case hw_get_cqe hw a h of (e, h1) \<Rightarrow>
        (drop_bit 1 (nq_status (completion_of e)) AND 0xFF = 0, h1))"

definition send_admin_command :: "'h hw \<Rightarrow> NvmeCommand \<Rightarrow> NvmeDriver \<Rightarrow> 'h \<Rightarrow> (bool \<times> NvmeDriver \<times> 'h) option"
  where
  "send_admin_command hw cmd d h = do {
     let h1 = hw_put_sqe hw (0x100000 + 64 * of_nat (admin_sq_tail d)) (sqe_of cmd) h;
     let d1 = d\<lparr>admin_sq_tail := (admin_sq_tail d + 1) mod 64\<rparr>;
     let h2 = ring_admin_doorbell hw d1 (of_nat (admin_sq_tail d1)) h1;
     let cqe = 0x101000 + 16 * of_nat (admin_cq_head d1);
     h3 \<leftarrow> cqe_wait hw cqe (admin_cq_phase d1) h2;
     let d2 = d1\<lparr>admin_cq_head := admin_cq_head d1 + 1\<rparr>;
     let d3 = (if 64 \<le> admin_cq_head d2
               then d2\<lparr>admin_cq_head := 0, admin_cq_phase := \<not> admin_cq_phase d2\<rparr> else d2);
     let h4 = hw_write32 hw (mmio_base d3 + 0x1000 + 4 * 1) (of_nat (admin_cq_head d3)) h3;
     let (ok, h5) = status_code_zero hw cqe h4;
     Some (ok, d3, h5) }"

definition send_io_command :: "'h hw \<Rightarrow> NvmeCommand \<Rightarrow> NvmeDriver \<Rightarrow> 'h \<Rightarrow> (bool \<times> NvmeDriver \<times> 'h) option"
  where
  "send_io_command hw cmd d h = do {
     let h1 = hw_put_sqe hw (0x104000 + 64 * of_nat (io_sq_tail d)) (sqe_of cmd) h;
     let d1 = d\<lparr>io_sq_tail := (io_sq_tail d + 1) mod 64\<rparr>;
     let h2 = ring_io_sq_doorbell hw d1 (of_nat (io_sq_tail d1)) h1;
     let cqe = 0x103000 + 16 * of_nat (io_cq_head d1);
     h3 \<leftarrow> cqe_wait hw cqe (io_cq_phase d1) h2;
     let d2 = d1\<lparr>io_cq_head := io_cq_head d1 + 1\<rparr>;
     let d3 = (if 64 \<le> io_cq_head d2
               then d2\<lparr>io_cq_head := 0, io_cq_phase := \<not> io_cq_phase d2\<rparr> else d2);
     let h4 = ring_io_cq_doorbell hw d3 (of_nat (io_cq_head d3)) h3;
     let (ok, h5) = status_code_zero hw cqe h4;
     Some (ok, d3, h5) }"

definition read_blocks :: "'h hw \<Rightarrow> u64 \<Rightarrow> u32 \<Rightarrow> u64 \<Rightarrow> NvmeDriver \<Rightarrow> 'h \<Rightarrow> (bool \<times> NvmeDriver \<times> 'h) option"
  where
  "read_blocks hw first_lba count buffer d h =
     send_io_command hw (zero_command\<lparr>nc_opcode := 0x02, nc_cid := 4, nc_nsid := 1, nc_prp1 := buffer,
       nc_cdw10 := ucast (first_lba AND 0xFFFFFFFF), nc_cdw11 := ucast (drop_bit 32 first_lba),
       nc_cdw12 := (count - 1) AND 0xFFFF\<rparr>) d h"

definition write_blocks :: "'h hw \<Rightarrow> u64 \<Rightarrow> u32 \<Rightarrow> u64 \<Rightarrow> NvmeDriver \<Rightarrow> 'h \<Rightarrow> (bool \<times> NvmeDriver \<times> 'h) option"
  where
  "write_blocks hw first_lba count buffer d h =
     send_io_command hw (zero_command\<lparr>nc_opcode := 0x01, nc_cid := 5, nc_nsid := 1, nc_prp1 := buffer,
       nc_cdw10 := ucast (first_lba AND 0xFFFFFFFF), nc_cdw11 := ucast (drop_bit 32 first_lba),
       nc_cdw12 := (count - 1) AND 0xFFFF\<rparr>) d h"

section \<open>Initialisation\<close>

definition initialize_cc :: "u32 \<Rightarrow> u32" where
  "initialize_cc cc_val =
     ((((cc_val AND NOT (push_bit 16 0x3F)) AND NOT (push_bit 4 0x7))
       OR push_bit 16 6) OR push_bit 4 4) OR push_bit 0 1"

definition initialize_registers :: "'h hw \<Rightarrow> NvmeDriver \<Rightarrow> 'h \<Rightarrow> 'h option" where
  "initialize_registers hw d h = do {
     let (cc, h1) = hw_read32 hw (get_register d NVMe_REG_CC) h;
     let h2 = hw_write32 hw (get_register d NVMe_REG_CC) (cc AND NOT (push_bit 0 1)) h1;
     h3 \<leftarrow> wait_clear hw (get_register d NVMe_REG_CSTS) (push_bit 0 1) h2;
     let h4 = hw_write32 hw (get_register d NVMe_REG_AQA) (push_bit 16 (64 - 1) OR (64 - 1)) h3;
     let h5 = hw_write32 hw (get_register d NVMe_REG_ASQ) 0x100000 h4;
     let h6 = hw_write32 hw (get_register d NVMe_REG_ACQ) 0x101000 h5;
     let (cc_val, h7) = hw_read32 hw (get_register d NVMe_REG_CC) h6;
     let h8 = hw_write32 hw (get_register d NVMe_REG_CC) (initialize_cc cc_val) h7;
     wait_set hw (get_register d NVMe_REG_CSTS) (push_bit 0 1) h8 }"

definition NvmeDriver_initialize :: "'h hw \<Rightarrow> NvmeDriver \<Rightarrow> 'h \<Rightarrow> (bool \<times> NvmeDriver \<times> 'h) option" where
  "NvmeDriver_initialize hw d h = do {
     h1 \<leftarrow> initialize_registers hw d h;
     (ok, d2, h2) \<leftarrow> send_admin_command hw (zero_command\<lparr>nc_opcode := 0x06, nc_cid := 1, nc_cdw10 := 1,
       nc_prp1 := 0x102000\<rparr>) d h1;
     if \<not> ok then Some (False, d2, h2) else do {
     (ok, d3, h3) \<leftarrow> send_admin_command hw (zero_command\<lparr>nc_opcode := 0x05, nc_cid := 2, nc_prp1 := 0x103000,
       nc_cdw10 := push_bit 16 (64 - 1) OR 1, nc_cdw11 := 1\<rparr>) d2 h2;
     if \<not> ok then Some (False, d3, h3) else do {
     (ok, d4, h4) \<leftarrow> send_admin_command hw (zero_command\<lparr>nc_opcode := 0x01, nc_cid := 3, nc_prp1 := 0x104000,
       nc_cdw10 := push_bit 16 (64 - 1) OR 1, nc_cdw11 := push_bit 16 1 OR 1\<rparr>) d3 h3;
     if \<not> ok then Some (False, d4, h4) else Some (True, d4, h4) } } }"

section \<open>The same protocol as the present driver\<close>

text \<open>The rings of this driver as the environment of the present one, and a driver object as one of its
  controller objects, with doorbells four bytes apart.\<close>

definition old_env :: kernel_env where
  "old_env = \<lparr>exec_addr = None, at_admin_sq = 0x100000, at_admin_cq = 0x101000, at_io_sq = 0x104000,
     at_io_cq = 0x103000, at_identify = 0x102000, at_namespace = 0, at_attach = 0\<rparr>"

definition as_controller :: "NvmeDriver \<Rightarrow> Controller" where
  "as_controller d = \<lparr>m_regs = mmio_base d, m_hhdm_offset = 0, m_db_stride = 0, m_max_queue_entries = 0,
     m_sq_tail = of_nat (admin_sq_tail d), m_cq_head = of_nat (admin_cq_head d),
     m_cq_phase = phase_bit (admin_cq_phase d), m_io_sq_tail = of_nat (io_sq_tail d),
     m_io_cq_head = of_nat (io_cq_head d), m_io_cq_phase = phase_bit (io_cq_phase d), m_initialized = False\<rparr>"

definition admin_in_ring :: "NvmeDriver \<Rightarrow> bool" where
  "admin_in_ring d \<longleftrightarrow> admin_sq_tail d < 64 \<and> admin_cq_head d < 64"

definition io_in_ring :: "NvmeDriver \<Rightarrow> bool" where
  "io_in_ring d \<longleftrightarrow> io_sq_tail d < 64 \<and> io_cq_head d < 64"

lemma phase_seen: "(nq_status (completion_of e) AND 0x1 \<noteq> 0) = bit (cq_status e) 0"
  by (simp add: completion_of_def and_one_eq bit_0 odd_iff_mod_2_eq_one)

lemma cqe_wait_step:
  "hw_get_cqe hw a h = (e, h1) \<Longrightarrow> cqe_wait hw a ph h =
     (if bit (cq_status e) 0 = ph then Some h1 else cqe_wait hw a ph h1)"
  by (subst cqe_wait.simps) (simp only: phase_seen prod.case)

text \<open>The read of the status that gives the result, after the one that saw the phase.\<close>

definition second_status :: "'h hw \<Rightarrow> u64 \<Rightarrow> 'h \<Rightarrow> u16 \<times> 'h" where
  "second_status hw a h1 = (case hw_get_cqe hw a h1 of (e, h2) \<Rightarrow> (cq_status e, h2))"

lemma poll_cq_step:
  "hw_get_cqe hw a h = (e, h1) \<Longrightarrow> poll_cq hw a (phase_bit ph) h =
     (if bit (cq_status e) 0 = ph then Some (second_status hw a h1) else poll_cq hw a (phase_bit ph) h1)"
  by (subst poll_cq.simps) (simp add: phase_match second_status_def split: prod.split)

lemma poll_then_wait:
  assumes "poll_cq hw a b h = Some y"
  shows "\<forall>ph. b = phase_bit ph \<longrightarrow> (\<exists>h1. cqe_wait hw a ph h = Some h1 \<and> y = second_status hw a h1)"
proof (rule poll_cq.raw_induct [OF _ assms], intro allI impI)
  fix f and hw :: "'a hw" and a b h y ph
  assume IH: "\<And>hw a b h y. f hw a b h = Some y \<Longrightarrow>
      \<forall>ph. b = phase_bit ph \<longrightarrow> (\<exists>h1. cqe_wait hw a ph h = Some h1 \<and> y = second_status hw a h1)"
    and y: "(case hw_get_cqe hw a h of (e, h1) \<Rightarrow>
       if ucast (cq_status e AND 1) = b then (case hw_get_cqe hw a h1 of (e', h2) \<Rightarrow> Some (cq_status e', h2))
       else f hw a b h1) = Some y"
    and b: "b = phase_bit ph"
  obtain e h1 where e: "hw_get_cqe hw a h = (e, h1)" by (cases "hw_get_cqe hw a h")
  show "\<exists>h1. cqe_wait hw a ph h = Some h1 \<and> y = second_status hw a h1"
    using y IH [of hw a b h1 y] unfolding e b prod.case phase_match cqe_wait_step [OF e]
    by (auto simp: second_status_def split: if_splits prod.splits)
qed

lemma wait_then_poll:
  assumes "cqe_wait hw a ph h = Some h'"
  shows "poll_cq hw a (phase_bit ph) h = Some (second_status hw a h')"
proof (rule cqe_wait.raw_induct [OF _ assms])
  fix f and hw :: "'a hw" and a ph h h'
  assume IH: "\<And>hw a ph h h'. f hw a ph h = Some h' \<Longrightarrow> poll_cq hw a (phase_bit ph) h = Some (second_status hw a h')"
    and y: "(case hw_get_cqe hw a h of (e, h1) \<Rightarrow>
       if (nq_status (completion_of e) AND 0x1 \<noteq> 0) = ph then Some h1 else f hw a ph h1) = Some h'"
  obtain e h1 where e: "hw_get_cqe hw a h = (e, h1)" by (cases "hw_get_cqe hw a h")
  show "poll_cq hw a (phase_bit ph) h = Some (second_status hw a h')"
    using y IH [of hw a ph h1 h'] unfolding e prod.case phase_seen poll_cq_step [OF e]
    by (auto split: if_splits)
qed

lemma cqe_wait_poll: "poll_cq hw a (phase_bit ph) h = map_option (second_status hw a) (cqe_wait hw a ph h)"
  using poll_then_wait [of hw a "phase_bit ph" h] wait_then_poll [of hw a ph h]
  by (cases "poll_cq hw a (phase_bit ph) h"; cases "cqe_wait hw a ph h") fastforce+

text \<open>Positions in the rings, as the words the present driver keeps.\<close>

lemma ring_words:
  assumes "t < 64"
  shows "(of_nat ((t + 1) mod 64) :: u16) = (of_nat t + 1) mod 64"
    and "(ucast (of_nat t :: u16) :: u64) = of_nat t"
    and "(ucast (of_nat ((t + 1) mod 64) :: u16) :: u32) = of_nat ((t + 1) mod 64)"
proof -
  have u: "unat (of_nat k :: u16) = k" if "k \<le> 64" for k
    using that by (simp add: unat_of_nat)
  have "unat ((of_nat t + 1 :: u16) mod 64) = (t + 1) mod 64"
    using unat_ring_next(1) [of "of_nat t"] u [of t] assms by simp
  then show "(of_nat ((t + 1) mod 64) :: u16) = (of_nat t + 1) mod 64"
    using u [of "(t + 1) mod 64"] by (simp add: word_unat_eq_iff)
  show "(ucast (of_nat t :: u16) :: u64) = of_nat t"
    using assms by (simp add: unsigned_of_nat take_bit_nat_eq_self)
  show "(ucast (of_nat ((t + 1) mod 64) :: u16) :: u32) = of_nat ((t + 1) mod 64)"
    using order.strict_trans [OF mod_less_divisor [of 64 "t + 1"], of "2 ^ 16"]
    by (simp add: unsigned_of_nat take_bit_nat_eq_self)
qed

lemma head_moves:
  assumes "k < 64"
  shows "(if 64 \<le> k + 1 then 0 else k + 1) = (k + 1) mod 64"
    and "next_phase ((of_nat k + 1) mod 64) (phase_bit ph) = phase_bit (if 64 \<le> k + 1 then \<not> ph else ph)"
proof -
  show "(if 64 \<le> k + 1 then 0 else k + 1) = (k + 1) mod 64" using assms by (cases "k = 63") auto
  have "unat (of_nat k :: u16) = k" using assms by (simp add: unat_of_nat)
  then show "next_phase ((of_nat k + 1) mod 64) (phase_bit ph) = phase_bit (if 64 \<le> k + 1 then \<not> ph else ph)"
    using ring_next_zero [of "of_nat k"] assms by (auto simp: next_phase_bit)
qed

lemma old_doorbells:
  assumes "m_db_stride c = 0"
  shows "sq_doorbell c 0 = m_regs c + 0x1000" "cq_doorbell c 0 = m_regs c + 0x1004"
    "sq_doorbell c 1 = m_regs c + 0x1008" "cq_doorbell c 1 = m_regs c + 0x100C"
  using assms by (simp_all add: sq_doorbell_def cq_doorbell_def)

text \<open>A driver object after one exchange.\<close>

definition admin_advance :: "NvmeDriver \<Rightarrow> NvmeDriver" where
  "admin_advance d = d\<lparr>admin_sq_tail := (admin_sq_tail d + 1) mod 64, admin_cq_head := (admin_cq_head d + 1) mod 64,
     admin_cq_phase := (if 64 \<le> admin_cq_head d + 1 then \<not> admin_cq_phase d else admin_cq_phase d)\<rparr>"

definition io_advance :: "NvmeDriver \<Rightarrow> NvmeDriver" where
  "io_advance d = d\<lparr>io_sq_tail := (io_sq_tail d + 1) mod 64, io_cq_head := (io_cq_head d + 1) mod 64,
     io_cq_phase := (if 64 \<le> io_cq_head d + 1 then \<not> io_cq_phase d else io_cq_phase d)\<rparr>"

lemma advance_in_rings:
  "admin_in_ring d \<Longrightarrow> admin_in_ring (admin_advance d)" "io_in_ring (admin_advance d) = io_in_ring d"
  "io_in_ring d \<Longrightarrow> io_in_ring (io_advance d)" "admin_in_ring (io_advance d) = admin_in_ring d"
  by (simp_all add: admin_in_ring_def io_in_ring_def admin_advance_def io_advance_def)

text \<open>The tail word of a ring position and the doorbell written for it.\<close>

definition next_word :: "nat \<Rightarrow> u16" where "next_word t = (of_nat t + 1) mod 64"

lemma admin_command_old:
  assumes "admin_in_ring d"
  shows "admin_command hw old_env (\<lambda>_. s) (as_controller d) h =
    map_option (\<lambda>(st, h1). (st, as_controller (admin_advance d),
        hw_write32 hw (mmio_base d + 0x1004) (ucast (next_word (admin_cq_head d))) h1))
     (poll_cq hw (0x101000 + 16 * of_nat (admin_cq_head d)) (phase_bit (admin_cq_phase d))
       (hw_write32 hw (mmio_base d + 0x1000) (ucast (next_word (admin_sq_tail d)))
         (hw_put_sqe hw (0x100000 + 64 * of_nat (admin_sq_tail d)) s h)))"
proof -
  have r: "admin_sq_tail d < 64" "admin_cq_head d < 64" using assms by (simp_all add: admin_in_ring_def)
  have c: "(as_controller d)\<lparr>m_sq_tail := next_word (admin_sq_tail d),
      m_cq_head := next_word (admin_cq_head d),
      m_cq_phase := next_phase (next_word (admin_cq_head d)) (phase_bit (admin_cq_phase d))\<rparr>
    = as_controller (admin_advance d)"
    by (simp only: next_word_def head_moves(2) [OF r(2)]) (simp add: as_controller_def admin_advance_def ring_words(1) [OF r(1), simplified] ring_words(1) [OF r(2), simplified])
  have f: "m_sq_tail (as_controller d) = of_nat (admin_sq_tail d)" "m_cq_head (as_controller d) = of_nat (admin_cq_head d)"
    "m_cq_phase (as_controller d) = phase_bit (admin_cq_phase d)" "m_db_stride (as_controller d) = 0"
    "m_regs (as_controller d) = mmio_base d"
    by (simp_all add: as_controller_def)
  show ?thesis
    unfolding admin_command_def Let_def ring_sq_doorbell_def ring_cq_doorbell_def f ring_words(2) [OF r(1)]
      ring_words(2) [OF r(2)] next_word_def [symmetric] c [symmetric]
    by (cases "poll_cq hw (0x101000 + 16 * of_nat (admin_cq_head d)) (phase_bit (admin_cq_phase d))
       (hw_write32 hw (mmio_base d + 0x1000) (ucast (next_word (admin_sq_tail d)))
         (hw_put_sqe hw (0x100000 + 64 * of_nat (admin_sq_tail d)) s h))")
      (simp_all add: f old_doorbells old_env_def ring_words(2) r case_prod_unfold next_word_def)
qed

lemma send_admin_unfold:
  assumes "admin_in_ring d"
  shows "send_admin_command hw cmd d h =
    map_option (\<lambda>h1. case status_code_zero hw (0x101000 + 16 * of_nat (admin_cq_head d))
          (hw_write32 hw (mmio_base d + 0x1004) (ucast (next_word (admin_cq_head d))) h1) of
        (ok, h2) \<Rightarrow> (ok, admin_advance d, h2))
     (cqe_wait hw (0x101000 + 16 * of_nat (admin_cq_head d)) (admin_cq_phase d)
       (hw_write32 hw (mmio_base d + 0x1000) (ucast (next_word (admin_sq_tail d)))
         (hw_put_sqe hw (0x100000 + 64 * of_nat (admin_sq_tail d)) (sqe_of cmd) h)))"
proof -
  have r: "admin_sq_tail d < 64" "admin_cq_head d < 64" using assms by (simp_all add: admin_in_ring_def)
  have t: "ucast (of_nat (Suc (admin_sq_tail d) mod 64) :: u16) = (ucast (next_word (admin_sq_tail d)) :: u32)"
    using ring_words(1) [OF r(1)] by (simp add: next_word_def)
  have k: "(of_nat (Suc (admin_cq_head d) mod 64) :: u32) = ucast (next_word (admin_cq_head d))"
    using ring_words(1,3) [OF r(2)] by (simp add: next_word_def)
  have m: "Suc (admin_cq_head d) mod 64 = (if 64 \<le> Suc (admin_cq_head d) then 0 else Suc (admin_cq_head d))"
    using r(2) by (cases "admin_cq_head d = 63") auto
  have base: "x + mmio_base d = mmio_base d + x" for x by simp
  show ?thesis
    unfolding send_admin_command_def Let_def ring_admin_doorbell_def
    by (cases "cqe_wait hw (0x101000 + 16 * of_nat (admin_cq_head d)) (admin_cq_phase d)
       (hw_write32 hw (mmio_base d + 0x1000) (ucast (next_word (admin_sq_tail d)))
         (hw_put_sqe hw (0x100000 + 64 * of_nat (admin_sq_tail d)) (sqe_of cmd) h))")
      (auto simp: admin_advance_def t k [symmetric] m base split: prod.split)
qed

lemma io_command_old:
  assumes "io_in_ring d"
  shows "io_command hw old_env (\<lambda>_. s) (as_controller d) h =
    map_option (\<lambda>(st, h1). (st, as_controller (io_advance d),
        hw_write32 hw (mmio_base d + 0x100C) (ucast (next_word (io_cq_head d))) h1))
     (poll_cq hw (0x103000 + 16 * of_nat (io_cq_head d)) (phase_bit (io_cq_phase d))
       (hw_write32 hw (mmio_base d + 0x1008) (ucast (next_word (io_sq_tail d)))
         (hw_put_sqe hw (0x104000 + 64 * of_nat (io_sq_tail d)) s h)))"
proof -
  have r: "io_sq_tail d < 64" "io_cq_head d < 64" using assms by (simp_all add: io_in_ring_def)
  have c: "(as_controller d)\<lparr>m_io_sq_tail := next_word (io_sq_tail d),
      m_io_cq_head := next_word (io_cq_head d),
      m_io_cq_phase := next_phase (next_word (io_cq_head d)) (phase_bit (io_cq_phase d))\<rparr>
    = as_controller (io_advance d)"
    by (simp only: next_word_def head_moves(2) [OF r(2)]) (simp add: as_controller_def io_advance_def ring_words(1) [OF r(1), simplified] ring_words(1) [OF r(2), simplified])
  have f: "m_io_sq_tail (as_controller d) = of_nat (io_sq_tail d)" "m_io_cq_head (as_controller d) = of_nat (io_cq_head d)"
    "m_io_cq_phase (as_controller d) = phase_bit (io_cq_phase d)" "m_db_stride (as_controller d) = 0"
    "m_regs (as_controller d) = mmio_base d"
    by (simp_all add: as_controller_def)
  show ?thesis
    unfolding io_command_def Let_def ring_sq_doorbell_def ring_cq_doorbell_def f ring_words(2) [OF r(1)]
      ring_words(2) [OF r(2)] next_word_def [symmetric] c [symmetric]
    by (cases "poll_cq hw (0x103000 + 16 * of_nat (io_cq_head d)) (phase_bit (io_cq_phase d))
       (hw_write32 hw (mmio_base d + 0x1008) (ucast (next_word (io_sq_tail d)))
         (hw_put_sqe hw (0x104000 + 64 * of_nat (io_sq_tail d)) s h))")
      (simp_all add: f old_doorbells old_env_def ring_words(2) r case_prod_unfold next_word_def)
qed

lemma send_io_unfold:
  assumes "io_in_ring d"
  shows "send_io_command hw cmd d h =
    map_option (\<lambda>h1. case status_code_zero hw (0x103000 + 16 * of_nat (io_cq_head d))
          (hw_write32 hw (mmio_base d + 0x100C) (ucast (next_word (io_cq_head d))) h1) of
        (ok, h2) \<Rightarrow> (ok, io_advance d, h2))
     (cqe_wait hw (0x103000 + 16 * of_nat (io_cq_head d)) (io_cq_phase d)
       (hw_write32 hw (mmio_base d + 0x1008) (ucast (next_word (io_sq_tail d)))
         (hw_put_sqe hw (0x104000 + 64 * of_nat (io_sq_tail d)) (sqe_of cmd) h)))"
proof -
  have r: "io_sq_tail d < 64" "io_cq_head d < 64" using assms by (simp_all add: io_in_ring_def)
  have t: "ucast (of_nat (Suc (io_sq_tail d) mod 64) :: u16) = (ucast (next_word (io_sq_tail d)) :: u32)"
    using ring_words(1) [OF r(1)] by (simp add: next_word_def)
  have k: "ucast (of_nat (Suc (io_cq_head d) mod 64) :: u16) = (ucast (next_word (io_cq_head d)) :: u32)"
    using ring_words(1) [OF r(2)] by (simp add: next_word_def)
  have m: "Suc (io_cq_head d) mod 64 = (if 64 \<le> Suc (io_cq_head d) then 0 else Suc (io_cq_head d))"
    using r(2) by (cases "io_cq_head d = 63") auto
  have base: "x + mmio_base d = mmio_base d + x" for x by simp
  show ?thesis
    unfolding send_io_command_def Let_def ring_io_sq_doorbell_def ring_io_cq_doorbell_def
    by (cases "cqe_wait hw (0x103000 + 16 * of_nat (io_cq_head d)) (io_cq_phase d)
       (hw_write32 hw (mmio_base d + 0x1008) (ucast (next_word (io_sq_tail d)))
         (hw_put_sqe hw (0x104000 + 64 * of_nat (io_sq_tail d)) (sqe_of cmd) h))")
      (auto simp: io_advance_def t k [symmetric] m base split: prod.split)
qed

text \<open>What one exchange shares with the present driver, and where they part. Both come to the same state \<open>h1\<close> of the
  device, in which the expected phase has been seen. The present driver then reads the status and rings the doorbell;
  the earlier one rings first, which gives the slot back to the device, and reads the status code then.\<close>

definition same_exchange :: "'h hw \<Rightarrow> u64 \<Rightarrow> u64 \<Rightarrow> u32 \<Rightarrow> bool \<times> NvmeDriver \<times> 'h \<Rightarrow> u16 \<times> Controller \<times> 'h \<Rightarrow> bool" where
  "same_exchange hw cqe bell val x y \<longleftrightarrow> (case (x, y) of ((ok, d', h'), (st, c', k')) \<Rightarrow>
     admin_in_ring d' \<and> io_in_ring d' \<and> as_controller d' = c' \<and>
     (\<exists>h1 h2. second_status hw cqe h1 = (st, h2) \<and> k' = hw_write32 hw bell val h2 \<and>
        (ok, h') = status_code_zero hw cqe (hw_write32 hw bell val h1)))"

text \<open>On a device whose entries are plain memory, and that does not reuse the slot at once, the two agree but for the
  part of the status they look at.\<close>

lemma same_exchange_quiet:
  assumes "same_exchange hw cqe bell val (ok, d', h') (st, c', k')" and "\<And>h. snd (hw_get_cqe hw cqe h) = h"
    and "\<And>h. fst (hw_get_cqe hw cqe (hw_write32 hw bell val h)) = fst (hw_get_cqe hw cqe h)"
  shows "h' = k' \<and> ok = (status_sc st = 0)"
proof -
  obtain h1 h2 where e: "second_status hw cqe h1 = (st, h2)" "k' = hw_write32 hw bell val h2"
    "(ok, h') = status_code_zero hw cqe (hw_write32 hw bell val h1)"
    using assms(1) by (auto simp: same_exchange_def)
  have g: "hw_get_cqe hw cqe h = (fst (hw_get_cqe hw cqe h), h)" for h using assms(2) [of h] by (metis prod.collapse)
  have "st = cq_status (fst (hw_get_cqe hw cqe h1))" "h2 = h1"
    using e(1) g [of h1] by (auto simp: second_status_def case_prod_unfold assms(2))
  moreover have "h' = hw_write32 hw bell val h1" "ok = (status_sc (cq_status (fst (hw_get_cqe hw cqe h1))) = 0)"
    using e(3) by (simp_all add: status_code_zero_def case_prod_unfold assms(2,3) completion_of_def status_sc_def)
  ultimately show ?thesis using e(2) by simp
qed

section \<open>What it takes for success\<close>

text \<open>The status type is not looked at: a command that failed with a command specific, media or vendor
  status whose code is 0 counts as done. Completion Queue Invalid, the answer to a submission queue for a
  completion queue that does not exist, is one of them.\<close>

lemma status_type_ignored:
  "fst (status_code_zero hw a h) = (status_sc (cq_status (fst (hw_get_cqe hw a h))) = 0)"
  "check_status st \<Longrightarrow> status_sc st = 0"
  "status_sct 0x200 = 1 \<and> status_sc 0x200 = 0 \<and> \<not> check_status 0x200"
proof -
  show "fst (status_code_zero hw a h) = (status_sc (cq_status (fst (hw_get_cqe hw a h))) = 0)"
    by (simp add: status_code_zero_def completion_of_def status_sc_def case_prod_unfold)
  show "status_sc st = 0" if "check_status st"
  proof -
    have "status_sc st = (drop_bit 1 st AND 0x7FFF) AND 0xFF" by (simp add: status_sc_def and.assoc)
    then show ?thesis using that by (simp add: check_status_def)
  qed
  show "status_sct 0x200 = 1 \<and> status_sc 0x200 = 0 \<and> \<not> check_status 0x200"
    by (simp add: status_sct_def status_sc_def check_status_def)
qed

text \<open>The configuration \<^verbatim>\<open>initialize\<close> writes: the completion entry size goes to the command set
  field, whatever the register held, so the controller is never enabled the way its queues need it.\<close>

lemma initialize_cc_fields:
  "bit (initialize_cc v) 0" "drop_bit 4 (initialize_cc v) AND 0x7 = 4" "drop_bit 16 (initialize_cc v) AND 0xF = 6"
  "drop_bit 20 (initialize_cc v) AND 0x3 = 0"
proof -
  have n: "bit (7 :: u32) j \<longleftrightarrow> j < 3" "bit (0x3F :: u32) j \<longleftrightarrow> j < 6" for j
    using bit_mask_iff [of 3 j, where 'a = "32 word"] bit_mask_iff [of 6 j, where 'a = "32 word"]
    by (auto simp: mask_eq_exp_minus_1)
  have b: "bit (initialize_cc v) i \<longleftrightarrow> i < 32 \<and> (i = 0 \<or> i = 6 \<or> i = 17 \<or> i = 18 \<or>
      bit v i \<and> \<not> (4 \<le> i \<and> i < 7) \<and> \<not> (16 \<le> i \<and> i < 22))" for i
    by (simp only: initialize_cc_def bit_or_iff bit_and_iff bit_not_iff bit_push_bit_iff n bit6 bit4
        bit_1_iff bit_0_eq bot_apply possible_bit_word) auto
  have m: "(7 :: u32) = mask 3" "(0xF :: u32) = mask 4" "(3 :: u32) = mask 2" by (simp_all add: mask_eq_exp_minus_1)
  show "bit (initialize_cc v) 0" by (simp add: b)
  show "drop_bit 4 (initialize_cc v) AND 0x7 = 4" unfolding m(1)
    by (rule field_eqI) (simp only: b bit4, force, simp_all)
  show "drop_bit 16 (initialize_cc v) AND 0xF = 6" unfolding m(2)
    by (rule field_eqI) (simp only: b bit6, force, simp_all add: take_bit_eq_mask [symmetric] take_bit_eq_mod)
  show "drop_bit 20 (initialize_cc v) AND 0x3 = 0" unfolding m(3)
    by (rule field_eqI) (auto simp: b)
qed

lemma initialize_misconfigures: "\<not> cc_ok (initialize_cc v)"
  using initialize_cc_fields(2) [of v] by (simp add: cc_ok_def)

text \<open>When \<^verbatim>\<open>initialize\<close> succeeds, the three commands have used the first three slots of the admin rings.\<close>

lemma send_admin_result:
  assumes "send_admin_command hw cmd d h = Some (ok, d', h')" and "admin_in_ring d"
  shows "d' = admin_advance d"
  using assms by (auto simp: send_admin_unfold case_prod_unfold)

lemma initialize_positions:
  assumes "NvmeDriver_initialize hw d h = Some (True, d', h')" and "admin_in_ring d"
  shows "d' = admin_advance (admin_advance (admin_advance d))"
proof -
  have r: "admin_in_ring (admin_advance d)" "admin_in_ring (admin_advance (admin_advance d))"
    using advance_in_rings(1) assms(2) by simp_all
  show ?thesis
    using assms(1) unfolding NvmeDriver_initialize_def
    by (auto simp: bind_eq_Some_conv split: if_split_asm
        dest!: send_admin_result [OF _ assms(2)] send_admin_result [OF _ r(1)] send_admin_result [OF _ r(2)])
qed

lemma initialize_fresh:
  assumes "NvmeDriver_initialize hw (NvmeDriver_ctor bar0 d0) h = Some (True, d', h')"
  shows "d' = (NvmeDriver_ctor bar0 d0)\<lparr>admin_sq_tail := 3, admin_cq_head := 3\<rparr>"
proof -
  have "admin_in_ring (NvmeDriver_ctor bar0 d0)" by (simp add: admin_in_ring_def NvmeDriver_ctor_def)
  from initialize_positions [OF assms this] show ?thesis by (simp add: admin_advance_def NvmeDriver_ctor_def)
qed

section \<open>Against the present driver\<close>

text \<open>The earlier driver speaks the protocol of the present one. For any device, any command and any
  driver object whose positions are in their rings, an exchange on either queue pair ends exactly when the
  present driver's exchange with rings at the same addresses ends; both see the phase in the same state of the device and
  move tail, head and phase alike. Then the present driver reads the status and rings the completion doorbell, while the
  earlier one rings before it reads, and takes its result from the status code alone.\<close>

theorem old_driver_as_current:
  assumes "admin_in_ring d" and "io_in_ring d"
  shows "rel_option (same_exchange hw (0x101000 + 16 * of_nat (admin_cq_head d)) (mmio_base d + 0x1004)
        (ucast (next_word (admin_cq_head d))))
      (send_admin_command hw cmd d h) (admin_command hw old_env (\<lambda>_. sqe_of cmd) (as_controller d) h) \<and>
    rel_option (same_exchange hw (0x103000 + 16 * of_nat (io_cq_head d)) (mmio_base d + 0x100C)
        (ucast (next_word (io_cq_head d))))
      (send_io_command hw cmd d h) (io_command hw old_env (\<lambda>_. sqe_of cmd) (as_controller d) h)"
  using advance_in_rings [of d] assms
  by (auto simp: admin_command_old send_admin_unfold io_command_old send_io_unfold cqe_wait_poll
      option.rel_map same_exchange_def split: prod.split intro!: option.rel_refl_strong) metis+

theorem old_driver_as_current_witness:
  "\<exists>d. admin_cq_head d = 0 \<and> rel_option (same_exchange ref_hw 0x101000 0x1004 1)
      (send_admin_command ref_hw zero_command d ref_power_on)
      (admin_command ref_hw old_env (\<lambda>_. sqe_of zero_command) (as_controller d) ref_power_on)"
proof -
  let ?d = "NvmeDriver_ctor 0 \<lparr>mmio_base = 0, admin_sq_tail = 0, admin_cq_head = 0, admin_cq_phase = True,
      io_sq_tail = 0, io_cq_head = 0, io_cq_phase = True\<rparr>"
  have "admin_in_ring ?d" "io_in_ring ?d"
    by (simp_all add: NvmeDriver_ctor_def admin_in_ring_def io_in_ring_def)
  from old_driver_as_current [OF this, of ref_hw zero_command ref_power_on]
  have "rel_option (same_exchange ref_hw 0x101000 0x1004 1) (send_admin_command ref_hw zero_command ?d ref_power_on)
      (admin_command ref_hw old_env (\<lambda>_. sqe_of zero_command) (as_controller ?d) ref_power_on)"
    by (simp add: NvmeDriver_ctor_def next_word_def)
  then show ?thesis by (intro exI [of _ ?d]) (simp add: NvmeDriver_ctor_def)
qed

end
