(* ===== verification/Acpi.thy ===== *)
theory Acpi
  imports Prelude
begin

text \<open>
  ACPI tables and the memory mapped configuration space: \<^verbatim>\<open>include/AlopexOS/ACPI/acpi.hpp\<close>,
  \<^verbatim>\<open>src/ACPI/acpi.cpp\<close>, \<^verbatim>\<open>src/ACPI/mcfg.cpp\<close> and \<^verbatim>\<open>src/ACPI/ecam.cpp\<close>. Tables are
  read from memory, a function from addresses to bytes; the structures are packed, so a field is
  a little-endian number at its offset. The accesses to configuration space are loads and stores
  of a machine whose state is a parameter.
\<close>

unbundle bit_operations_syntax

section \<open>Tables in memory\<close>

type_synonym memory = "u64 \<Rightarrow> u8"

definition mem_bytes :: "memory \<Rightarrow> u64 \<Rightarrow> nat \<Rightarrow> bytes" where
  "mem_bytes m a n = map (\<lambda>i. m (a + of_nat i)) [0..<n]"

definition mem8 :: "memory \<Rightarrow> u64 \<Rightarrow> u8" where "mem8 m a = m a"
definition mem16 :: "memory \<Rightarrow> u64 \<Rightarrow> u16" where "mem16 m a = get16 (mem_bytes m a 2)"
definition mem32 :: "memory \<Rightarrow> u64 \<Rightarrow> u32" where "mem32 m a = get32 (mem_bytes m a 4)"
definition mem64 :: "memory \<Rightarrow> u64 \<Rightarrow> u64" where "mem64 m a = get64 (mem_bytes m a 8)"

definition sizeof_SDTHeader :: u64 where "sizeof_SDTHeader = 36"
definition sizeof_MCFGHeader :: u64 where "sizeof_MCFGHeader = 44"
definition sizeof_MCFGAllocationEntry :: u64 where "sizeof_MCFGAllocationEntry = 16"

record MCFGAllocationEntry =
  me_base_address :: u64
  me_segment_group :: u16
  me_start_bus :: u8
  me_end_bus :: u8
  me_reserved :: u32

definition read_entry :: "memory \<Rightarrow> u64 \<Rightarrow> MCFGAllocationEntry" where
  "read_entry m p = \<lparr>me_base_address = mem64 m p, me_segment_group = mem16 m (p + 8),
     me_start_bus = mem8 m (p + 10), me_end_bus = mem8 m (p + 11), me_reserved = mem32 m (p + 12)\<rparr>"

record ECAMRegion =
  er_base_address :: u64
  er_segment_group :: u16
  er_start_bus :: u8
  er_end_bus :: u8

definition MaxECAMRegions :: nat where "MaxECAMRegions = 16"

record ECAMMap =
  regions :: "ECAMRegion list"
  region_count :: nat

definition empty_region :: ECAMRegion where
  "empty_region = \<lparr>er_base_address = 0, er_segment_group = 0, er_start_bus = 0, er_end_bus = 0\<rparr>"

definition empty_ECAMMap :: ECAMMap where
  "empty_ECAMMap = \<lparr>regions = replicate MaxECAMRegions empty_region, region_count = 0\<rparr>"

definition region_of :: "MCFGAllocationEntry \<Rightarrow> ECAMRegion" where
  "region_of e = \<lparr>er_base_address = me_base_address e, er_segment_group = me_segment_group e,
     er_start_bus = me_start_bus e, er_end_bus = me_end_bus e\<rparr>"

section \<open>Finding and parsing the MCFG table\<close>

definition is_mcfg_signature :: "memory \<Rightarrow> u64 \<Rightarrow> bool" where
  "is_mcfg_signature m sig \<longleftrightarrow> m sig = of_char CHR ''M'' \<and> m (sig + 1) = of_char CHR ''C'' \<and>
     m (sig + 2) = of_char CHR ''F'' \<and> m (sig + 3) = of_char CHR ''G''"

text \<open>\<^verbatim>\<open>while (ptr + sizeof(entry) <= end && out_map.count < MaxECAMRegions)\<close>.\<close>

function parse_loop :: "memory \<Rightarrow> u64 \<Rightarrow> u64 \<Rightarrow> ECAMMap \<Rightarrow> ECAMMap" where
  "parse_loop m ptr end_ptr out =
    (if ptr + sizeof_MCFGAllocationEntry \<le> end_ptr \<and> region_count out < MaxECAMRegions
     then parse_loop m (ptr + sizeof_MCFGAllocationEntry) end_ptr
       (out\<lparr>regions := (regions out)[region_count out := region_of (read_entry m ptr)],
            region_count := region_count out + 1\<rparr>)
     else out)"
  by pat_completeness auto

termination
  by (relation "measure (\<lambda>(m, ptr, e, out). MaxECAMRegions - region_count out)") auto

declare parse_loop.simps [simp del]

definition parse_mcfg :: "memory \<Rightarrow> u64 \<Rightarrow> ECAMMap \<Rightarrow> bool \<times> ECAMMap" where
  "parse_mcfg m mcfg out_map =
    (if mcfg = 0 then (False, out_map)
     else (let end_ptr = mcfg + ucast (mem32 m (mcfg + 4));
               out = parse_loop m (mcfg + sizeof_MCFGHeader) end_ptr (out_map\<lparr>region_count := 0\<rparr>)
           in (0 < region_count out, out)))"

text \<open>\<^verbatim>\<open>locate_acpi_table_mcfg\<close>: the entries of the RSDT are 32-bit pointers after its header.
  The number of entries is computed in 64 bits and cut to 32.\<close>

definition rsdt_entries :: "memory \<Rightarrow> u64 \<Rightarrow> u32" where
  "rsdt_entries m rsdt = ucast ((ucast (mem32 m (rsdt + 4)) - sizeof_SDTHeader) div 4 :: u64)"

function locate_loop :: "memory \<Rightarrow> u64 \<Rightarrow> u32 \<Rightarrow> u32 \<Rightarrow> u64" where
  "locate_loop m table i entries =
    (if i < entries then
       (let header = ucast (mem32 m (table + 4 * ucast i)) in
        if header \<noteq> 0 \<and> is_mcfg_signature m header then header
        else locate_loop m table (i + 1) entries)
     else 0)"
  by pat_completeness auto

termination
proof (relation "measure (\<lambda>(m, table, i, entries). unat entries - unat i)")
  fix m :: memory and table :: u64 and i entries :: u32 and x :: u64
  assume a: "i < entries"
  then show "((m, table, i + 1, entries), m, table, i, entries)
      \<in> measure (\<lambda>(m, table, i, entries). unat entries - unat i)"
    using a unat_inc [OF a] by (simp add: word_less_nat_alt)
qed simp

declare locate_loop.simps [simp del]

definition locate_acpi_table_mcfg :: "memory \<Rightarrow> u64 \<Rightarrow> u64" where
  "locate_acpi_table_mcfg m rsdt =
    (if rsdt = 0 then 0 else locate_loop m (rsdt + sizeof_SDTHeader) 0 (rsdt_entries m rsdt))"

section \<open>Configuration space in memory\<close>

definition ECAM_init :: "ECAMMap \<Rightarrow> ECAMMap \<Rightarrow> bool \<times> ECAMMap" where
  "ECAM_init mp g = (if region_count mp = 0 then (False, g) else (True, mp))"

definition region_covers :: "u16 \<Rightarrow> u8 \<Rightarrow> ECAMRegion \<Rightarrow> bool" where
  "region_covers segment bus r \<longleftrightarrow>
     er_segment_group r = segment \<and> er_start_bus r \<le> bus \<and> bus \<le> er_end_bus r"

definition ecam_offset :: "u8 \<Rightarrow> u8 \<Rightarrow> u8 \<Rightarrow> u8 \<Rightarrow> u16 \<Rightarrow> u64" where
  "ecam_offset start bus slot func offset =
     (push_bit 20 (ucast (bus - start)) OR push_bit 15 (ucast slot) OR push_bit 12 (ucast func))
       + ucast offset"

fun ecam_search :: "ECAMRegion list \<Rightarrow> u16 \<Rightarrow> u8 \<Rightarrow> u8 \<Rightarrow> u8 \<Rightarrow> u16 \<Rightarrow> u64" where
  "ecam_search [] segment bus slot func offset = 0"
| "ecam_search (r # rs) segment bus slot func offset =
     (if region_covers segment bus r
      then er_base_address r + ecam_offset (er_start_bus r) bus slot func offset
      else ecam_search rs segment bus slot func offset)"

definition get_device_address :: "ECAMMap \<Rightarrow> u16 \<Rightarrow> u8 \<Rightarrow> u8 \<Rightarrow> u8 \<Rightarrow> u16 \<Rightarrow> u64" where
  "get_device_address g segment bus slot func offset =
     (if 4096 \<le> offset then 0
      else ecam_search (take (region_count g) (regions g)) segment bus slot func offset)"

text \<open>The loads and stores of the machine: memory mapped and port accesses.\<close>

record 'p machine =
  mmio_read8 :: "u64 \<Rightarrow> 'p \<Rightarrow> u8 \<times> 'p"
  mmio_read16 :: "u64 \<Rightarrow> 'p \<Rightarrow> u16 \<times> 'p"
  mmio_read32 :: "u64 \<Rightarrow> 'p \<Rightarrow> u32 \<times> 'p"
  mmio_write8 :: "u64 \<Rightarrow> u8 \<Rightarrow> 'p \<Rightarrow> 'p"
  mmio_write16 :: "u64 \<Rightarrow> u16 \<Rightarrow> 'p \<Rightarrow> 'p"
  mmio_write32 :: "u64 \<Rightarrow> u32 \<Rightarrow> 'p \<Rightarrow> 'p"
  port_in32 :: "u16 \<Rightarrow> 'p \<Rightarrow> u32 \<times> 'p"
  port_out32 :: "u16 \<Rightarrow> u32 \<Rightarrow> 'p \<Rightarrow> 'p"

definition ECAM_read32 :: "'p machine \<Rightarrow> ECAMMap \<Rightarrow> u16 \<Rightarrow> u8 \<Rightarrow> u8 \<Rightarrow> u8 \<Rightarrow> u16 \<Rightarrow> 'p \<Rightarrow> u32 \<times> 'p"
  where
  "ECAM_read32 mc g segment bus slot func offset s =
    (let a = get_device_address g segment bus slot func offset in
     if a = 0 then (0xFFFFFFFF, s) else mmio_read32 mc a s)"

definition ECAM_write32 :: "'p machine \<Rightarrow> ECAMMap \<Rightarrow> u16 \<Rightarrow> u8 \<Rightarrow> u8 \<Rightarrow> u8 \<Rightarrow> u16 \<Rightarrow> u32 \<Rightarrow> 'p \<Rightarrow> 'p"
  where
  "ECAM_write32 mc g segment bus slot func offset v s =
    (let a = get_device_address g segment bus slot func offset in
     if a = 0 then s else mmio_write32 mc a v s)"

definition ECAM_read16 :: "'p machine \<Rightarrow> ECAMMap \<Rightarrow> u16 \<Rightarrow> u8 \<Rightarrow> u8 \<Rightarrow> u8 \<Rightarrow> u16 \<Rightarrow> 'p \<Rightarrow> u16 \<times> 'p"
  where
  "ECAM_read16 mc g segment bus slot func offset s =
    (let a = get_device_address g segment bus slot func offset in
     if a = 0 then (0xFFFF, s) else mmio_read16 mc a s)"

definition ECAM_write16 :: "'p machine \<Rightarrow> ECAMMap \<Rightarrow> u16 \<Rightarrow> u8 \<Rightarrow> u8 \<Rightarrow> u8 \<Rightarrow> u16 \<Rightarrow> u16 \<Rightarrow> 'p \<Rightarrow> 'p"
  where
  "ECAM_write16 mc g segment bus slot func offset v s =
    (let a = get_device_address g segment bus slot func offset in
     if a = 0 then s else mmio_write16 mc a v s)"

definition ECAM_read8 :: "'p machine \<Rightarrow> ECAMMap \<Rightarrow> u16 \<Rightarrow> u8 \<Rightarrow> u8 \<Rightarrow> u8 \<Rightarrow> u16 \<Rightarrow> 'p \<Rightarrow> u8 \<times> 'p"
  where
  "ECAM_read8 mc g segment bus slot func offset s =
    (let a = get_device_address g segment bus slot func offset in
     if a = 0 then (0xFF, s) else mmio_read8 mc a s)"

definition ECAM_write8 :: "'p machine \<Rightarrow> ECAMMap \<Rightarrow> u16 \<Rightarrow> u8 \<Rightarrow> u8 \<Rightarrow> u8 \<Rightarrow> u16 \<Rightarrow> u8 \<Rightarrow> 'p \<Rightarrow> 'p"
  where
  "ECAM_write8 mc g segment bus slot func offset v s =
    (let a = get_device_address g segment bus slot func offset in
     if a = 0 then s else mmio_write8 mc a v s)"

section \<open>The table is read as it was written\<close>

definition entry_bytes :: "MCFGAllocationEntry \<Rightarrow> bytes" where
  "entry_bytes e = put64 (me_base_address e) @ put16 (me_segment_group e) @ [me_start_bus e] @
     [me_end_bus e] @ put32 (me_reserved e)"

lemma length_entry_bytes [simp]: "length (entry_bytes e) = 16"
  by (simp add: entry_bytes_def)

lemma mem_bytes_append:
  "mem_bytes m a (i + j) = mem_bytes m a i @ mem_bytes m (a + of_nat i) j"
proof (rule nth_equalityI)
  fix k assume k: "k < length (mem_bytes m a (i + j))"
  show "mem_bytes m a (i + j) ! k = (mem_bytes m a i @ mem_bytes m (a + of_nat i) j) ! k"
  proof (cases "k < i")
    case False
    then have "a + of_nat k = a + of_nat i + of_nat (k - i)" by (simp add: of_nat_diff)
    then show ?thesis using k False by (simp add: mem_bytes_def nth_append)
  qed (use k in \<open>simp add: mem_bytes_def nth_append\<close>)
qed (simp add: mem_bytes_def)

lemma length_mem_bytes [simp]: "length (mem_bytes m a n) = n"
  by (simp add: mem_bytes_def)

lemma mem_bytes_1: "mem_bytes m a 1 = [m a]"
  by (simp add: mem_bytes_def)

lemma ucast_of_nat32: "n < 2 ^ 32 \<Longrightarrow> (ucast (of_nat n :: u32) :: u64) = of_nat n"
  by (simp add: word_unat_eq_iff unsigned_ucast_eq unat_of_nat take_bit_nat_eq_self)

lemma read_entry_bytes:
  assumes "mem_bytes m p 16 = entry_bytes e"
  shows "read_entry m p = e"
proof -
  have "mem_bytes m p 16 = mem_bytes m p 8 @ mem_bytes m (p + 8) 2 @ [m (p + 10)] @ [m (p + 11)] @
      mem_bytes m (p + 12) 4"
  proof -
    have n: "(16 :: nat) = 8 + (2 + (1 + (1 + 4)))" by simp
    have e: "p + of_nat 8 = p + 8" "p + 8 + of_nat 2 = p + 10" "p + 10 + of_nat 1 = p + 11"
      "p + 11 + of_nat 1 = p + 12" by simp_all
    show ?thesis unfolding n mem_bytes_append e mem_bytes_1 ..
  qed
  then have "mem_bytes m p 8 = put64 (me_base_address e) \<and> mem_bytes m (p + 8) 2 = put16 (me_segment_group e) \<and>
    m (p + 10) = me_start_bus e \<and> m (p + 11) = me_end_bus e \<and> mem_bytes m (p + 12) 4 = put32 (me_reserved e)"
    using assms unfolding entry_bytes_def
    by (simp only: append_eq_append_conv length_mem_bytes length_put append_Cons append_Nil list.inject
        simp_thms)
  then show ?thesis
    by (simp add: read_entry_def mem8_def mem16_def mem32_def mem64_def)
qed

lemma parse_loop_table:
  assumes "mem_bytes m p (16 * length xs) = concat (map entry_bytes xs)"
    and "unat p + 16 * length xs + 16 < 2 ^ 64" and "length (regions out) = MaxECAMRegions"
    and "region_count out \<le> MaxECAMRegions"
  shows "let out' = parse_loop m p (p + of_nat (16 * length xs)) out;
             new = take (MaxECAMRegions - region_count out) xs
         in region_count out' = region_count out + length new \<and>
            length (regions out') = MaxECAMRegions \<and>
            take (region_count out') (regions out')
              = take (region_count out) (regions out) @ map region_of new"
  using assms
proof (induction xs arbitrary: p out)
  case Nil
  have "unat (p + 16) = unat p + 16" using Nil by (intro unat_plus64 [THEN trans]) simp_all
  then have "\<not> p + 16 \<le> p" by (simp add: word_le_nat_alt)
  then show ?case
    using Nil by (subst parse_loop.simps) (simp add: sizeof_MCFGAllocationEntry_def Let_def)
next
  case (Cons x xs)
  have u: "unat (p + 16) = unat p + 16" using Cons by (intro unat_plus64 [THEN trans]) simp_all
  have e: "p + of_nat (16 * length (x # xs)) = (p + 16) + of_nat (16 * length xs)"
    by (simp add: algebra_simps)
  have "unat ((p + 16) + of_nat (16 * length xs)) = unat (p + 16) + 16 * length xs"
    using Cons.prems(2) u by (intro unat_plus_nat64) simp
  then have le: "p + 16 \<le> (p + 16) + of_nat (16 * length xs)" by (simp add: word_le_nat_alt)
  have "mem_bytes m p (16 + 16 * length xs) = entry_bytes x @ concat (map entry_bytes xs)"
    using Cons.prems(1) by simp
  then have b: "mem_bytes m p 16 = entry_bytes x"
      "mem_bytes m (p + 16) (16 * length xs) = concat (map entry_bytes xs)"
    by (simp_all add: mem_bytes_append)
  show ?case
  proof (cases "region_count out = MaxECAMRegions")
    case True
    then show ?thesis using Cons.prems by (subst parse_loop.simps) (simp add: Let_def)
  next
    case False
    define o1 where "o1 = out\<lparr>regions := (regions out)[region_count out := region_of x],
        region_count := region_count out + 1\<rparr>"
    define out' where "out' = parse_loop m (p + 16) ((p + 16) + of_nat (16 * length xs)) o1"
    have lt: "region_count out < MaxECAMRegions" using False Cons.prems by simp
    have step: "parse_loop m p (p + of_nat (16 * length (x # xs))) out = out'"
      unfolding e out'_def o1_def using lt le read_entry_bytes [OF b(1)]
      by (subst parse_loop.simps) (simp add: sizeof_MCFGAllocationEntry_def)
    have o1: "region_count o1 = Suc (region_count out)" "length (regions o1) = MaxECAMRegions"
        "take (region_count o1) (regions o1) = take (region_count out) (regions out) @ [region_of x]"
      using lt Cons.prems by (simp_all add: o1_def take_Suc_conv_app_nth)
    have new: "take (MaxECAMRegions - region_count out) (x # xs)
        = x # take (MaxECAMRegions - region_count o1) xs"
      using lt by (simp add: o1 take_Cons' Suc_diff_Suc [symmetric])
    have "unat (p + 16) + 16 * length xs + 16 < 2 ^ 64" "region_count o1 \<le> MaxECAMRegions"
      using Cons.prems(2) u lt o1(1) by simp_all
    note IH = Cons.IH [OF b(2) this(1) o1(2) this(2), folded out'_def, unfolded Let_def]
    have i: "region_count out' = region_count o1 + length (take (MaxECAMRegions - region_count o1) xs)"
      "length (regions out') = MaxECAMRegions"
      "take (region_count out') (regions out') = take (region_count o1) (regions o1) @
        map region_of (take (MaxECAMRegions - region_count o1) xs)"
      using IH by blast+
    show ?thesis
      unfolding step new Let_def
    proof (intro conjI)
      show "region_count out' = region_count out +
          length (x # take (MaxECAMRegions - region_count o1) xs)"
        using i(1) o1(1) by simp
      show "take (region_count out') (regions out') = take (region_count out) (regions out) @
          map region_of (x # take (MaxECAMRegions - region_count o1) xs)"
        unfolding i(3) o1(3) by simp
    qed (rule i(2))
  qed
qed

text \<open>C32: \<^verbatim>\<open>parse_mcfg\<close> reads an MCFG table back as it was written. For a table with any
  number of entries in memory the result holds the regions of the first 16 in order, the count of
  the regions, and success exactly when there is one.\<close>

theorem parse_mcfg_reads_table:
  assumes "mcfg \<noteq> 0" and "mem32 m (mcfg + 4) = of_nat (44 + 16 * length es)"
    and "mem_bytes m (mcfg + 44) (16 * length es) = concat (map entry_bytes es)"
    and "unat mcfg + 44 + 16 * length es + 16 < 2 ^ 64" and "44 + 16 * length es < 2 ^ 32"
    and "length (regions mp) = MaxECAMRegions"
  shows "\<exists>mp'. parse_mcfg m mcfg mp = (es \<noteq> [], mp') \<and>
    region_count mp' = min MaxECAMRegions (length es) \<and>
    take (region_count mp') (regions mp') = map region_of (take MaxECAMRegions es)"
proof -
  have "(ucast (of_nat (44 + 16 * length es) :: u32) :: u64) = of_nat (44 + 16 * length es)"
    by (rule ucast_of_nat32 [OF assms(5)])
  then have e: "mcfg + ucast (mem32 m (mcfg + 4)) = (mcfg + 44) + of_nat (16 * length es)"
    using assms(2) by (simp add: algebra_simps)
  have "unat (mcfg + 44) = unat mcfg + 44" using assms(4) by (intro unat_plus64 [THEN trans]) simp_all
  then show ?thesis
    using parse_loop_table [OF assms(3), of "mp\<lparr>region_count := 0\<rparr>"] assms(1,4,6)
    by (simp add: parse_mcfg_def e sizeof_MCFGHeader_def Let_def)
      (auto simp: MaxECAMRegions_def)
qed

text \<open>A table with one entry: bus 0 to 255 of segment 0 at \<open>0xB0000000\<close>, as QEMU has it.\<close>

definition qemu_entry :: MCFGAllocationEntry where
  "qemu_entry = \<lparr>me_base_address = 0xB0000000, me_segment_group = 0, me_start_bus = 0,
     me_end_bus = 255, me_reserved = 0\<rparr>"

definition qemu_table :: bytes where
  "qemu_table = replicate 4 0 @ put32 60 @ replicate 36 0 @ entry_bytes qemu_entry"

definition table_memory :: "u64 \<Rightarrow> bytes \<Rightarrow> memory" where
  "table_memory a bs x = (if unat (x - a) < length bs then bs ! unat (x - a) else 0)"

lemma mem_bytes_table:
  assumes "i + k \<le> length bs" and "length bs < 2 ^ 64"
  shows "mem_bytes (table_memory a bs) (a + of_nat i) k = take k (drop i bs)"
proof (rule nth_equalityI)
  fix j assume "j < length (mem_bytes (table_memory a bs) (a + of_nat i) k)"
  then have j: "j < k" by simp
  have "a + of_nat i + of_nat j - a = (of_nat (i + j) :: u64)" by simp
  moreover have "unat (of_nat (i + j) :: u64) = i + j" using j assms by (intro unat_of_nat64) simp
  ultimately show "mem_bytes (table_memory a bs) (a + of_nat i) k ! j = take k (drop i bs) ! j"
    using j assms by (simp only: mem_bytes_def table_memory_def) simp
qed (use assms in simp)

theorem parse_mcfg_reads_table_witness:
  "\<exists>mp'. parse_mcfg (table_memory 0xE000 qemu_table) 0xE000 empty_ECAMMap = (True, mp') \<and>
     region_count mp' = 1 \<and> take 1 (regions mp') = [region_of qemu_entry]"
proof -
  let ?m = "table_memory 0xE000 qemu_table"
  have len: "length qemu_table = 60" by (simp add: qemu_table_def)
  have cut: "take 4 (drop 4 qemu_table) = put32 60"
    unfolding qemu_table_def by (subst drop_append, subst take_append) simp
  have cut2: "take 16 (drop 44 qemu_table) = entry_bytes qemu_entry"
    unfolding qemu_table_def append_assoc [symmetric] by (subst drop_append) simp
  have l: "4 + 4 \<le> length qemu_table" "44 + 16 \<le> length qemu_table" "length qemu_table < 2 ^ 64"
    using len by simp_all
  have "mem_bytes ?m (0xE000 + of_nat 4) 4 = put32 60"
    "mem_bytes ?m (0xE000 + of_nat 44) 16 = entry_bytes qemu_entry"
    using mem_bytes_table [OF l(1,3)] cut mem_bytes_table [OF l(2,3)] cut2 by metis+
  then have t: "mem32 ?m (0xE000 + 4) = of_nat (44 + 16 * length [qemu_entry])"
    "mem_bytes ?m (0xE000 + 44) (16 * length [qemu_entry]) = concat (map entry_bytes [qemu_entry])"
    by (simp_all add: mem32_def)
  have "(0xE000 :: u64) \<noteq> 0" "unat (0xE000 :: u64) + 44 + 16 * length [qemu_entry] + 16 < 2 ^ 64"
    "44 + 16 * length [qemu_entry] < 2 ^ 32" "length (regions empty_ECAMMap) = MaxECAMRegions"
    by (simp_all add: empty_ECAMMap_def)
  from parse_mcfg_reads_table [OF this(1) t this(2-4)]
  obtain mp' where r: "parse_mcfg ?m 0xE000 empty_ECAMMap = ([qemu_entry] \<noteq> [], mp')"
    "region_count mp' = min MaxECAMRegions (length [qemu_entry])"
    "take (region_count mp') (regions mp') = map region_of (take MaxECAMRegions [qemu_entry])"
    by (elim exE conjE)
  then have "region_count mp' = 1" "take 1 (regions mp') = [region_of qemu_entry]"
    by (simp_all add: MaxECAMRegions_def)
  then show ?thesis using r(1) by (intro exI [of _ mp'] conjI) simp_all
qed

section \<open>Addresses of the configuration space\<close>

definition ecam_nat :: "u8 \<Rightarrow> u8 \<Rightarrow> u8 \<Rightarrow> u8 \<Rightarrow> u16 \<Rightarrow> nat" where
  "ecam_nat start bus slot func offset =
     ((unat (bus - start) * 32 + unat slot) * 8 + unat func) * 4096 + unat offset"

lemma bit_small: "unat (w :: 'a::len word) < 2 ^ n \<Longrightarrow> bit w i \<Longrightarrow> i < n"
proof -
  assume "unat w < 2 ^ n" and b: "bit w i"
  then have "take_bit n w = w"
    by (simp add: word_unat_eq_iff unsigned_take_bit_eq take_bit_nat_eq_self)
  then have "bit (take_bit n w) i" using b by simp
  then show "i < n" by (simp add: bit_take_bit_iff)
qed

lemma or_shifted:
  assumes "unat (b :: 'a::len word) < 2 ^ n"
  shows "push_bit n a OR b = push_bit n a + b"
proof (rule disjunctive_add [symmetric])
  fix i show "\<not> bit (push_bit n a) i \<or> \<not> bit b i"
    using bit_small [OF assms, of i] by (auto simp: bit_push_bit_iff)
qed

lemma unat_ucast8: "unat (ucast (x :: u8) :: u64) = unat x"
  using unat_less [of x] by (simp add: unsigned_ucast_eq take_bit_nat_eq_self)

lemma unat_ucast16: "unat (ucast (x :: u16) :: u64) = unat x"
  using unat_less [of x] by (simp add: unsigned_ucast_eq take_bit_nat_eq_self)

lemma ecam_offset_nat:
  assumes "unat slot < 32" and "unat func < 8" and "unat offset < 4096"
  shows "ecam_offset start bus slot func offset = of_nat (ecam_nat start bus slot func offset)"
    and "ecam_nat start bus slot func offset < 268435456"
proof -
  let ?b = "ucast (bus - start) :: u64" and ?s = "ucast slot :: u64" and ?f = "ucast func :: u64"
  have f: "unat (push_bit 12 ?f) = unat func * 4096"
    using assms(2) by (simp add: push_bit_eq_mult unat_word_ariths unat_ucast8)
  have s: "unat (push_bit 15 ?s) = unat slot * 32768"
    using assms(1) by (simp add: push_bit_eq_mult unat_word_ariths unat_ucast8)
  have sf: "push_bit 15 ?s OR push_bit 12 ?f = push_bit 15 ?s + push_bit 12 ?f"
    using assms(2) f by (intro or_shifted) simp
  have "unat (push_bit 15 ?s + push_bit 12 ?f) = unat slot * 32768 + unat func * 4096"
    using assms s f by (subst unat_plus64) simp_all
  then have "push_bit 20 ?b OR (push_bit 15 ?s + push_bit 12 ?f)
      = push_bit 20 ?b + (push_bit 15 ?s + push_bit 12 ?f)"
    using assms by (intro or_shifted) simp
  then have "ecam_offset start bus slot func offset
      = push_bit 20 ?b + (push_bit 15 ?s + push_bit 12 ?f) + ucast offset"
    by (simp add: ecam_offset_def or.assoc sf)
  also have "\<dots> = of_nat (ecam_nat start bus slot func offset)"
    by (simp add: ecam_nat_def push_bit_eq_mult algebra_simps)
  finally show "ecam_offset start bus slot func offset = of_nat (ecam_nat start bus slot func offset)" .
  have "unat (bus - start) < 256" using unat_less [of "bus - start"] by simp
  then show "ecam_nat start bus slot func offset < 268435456"
    using assms by (simp add: ecam_nat_def)
qed

lemma of_nat_eq64: "m < 2 ^ 64 \<Longrightarrow> n < 2 ^ 64 \<Longrightarrow> of_nat m = (of_nat n :: u64) \<longleftrightarrow> m = n"
  by (metis unat_of_nat64)

lemma ecam_search_find:
  "ecam_search rs segment bus slot func offset =
     (case find (region_covers segment bus) rs of None \<Rightarrow> 0
      | Some r \<Rightarrow> er_base_address r + ecam_offset (er_start_bus r) bus slot func offset)"
  by (induction rs) auto

text \<open>The first region of the table for a bus of a segment: it begins at that bus or before it and ends there or later.\<close>

definition region_with :: "ECAMMap \<Rightarrow> u16 \<Rightarrow> u8 \<Rightarrow> ECAMRegion option" where
  "region_with g segment bus = find (\<lambda>r. er_segment_group r = segment \<and>
     unat (er_start_bus r) \<le> unat bus \<and> unat bus \<le> unat (er_end_bus r)) (take (region_count g) (regions g))"

lemma region_with_covers: "region_with g segment bus = find (region_covers segment bus) (take (region_count g) (regions g))"
  unfolding region_with_def region_covers_def by (simp add: word_le_nat_alt)

lemma region_with_Some:
  "region_with g segment bus = Some r \<Longrightarrow> unat (er_start_bus r) \<le> unat bus \<and> unat bus \<le> unat (er_end_bus r)"
  by (auto simp: region_with_def find_Some_iff)

text \<open>C31: every function of every device has its own 4096 bytes of configuration space, and none outside the buses the
  table lists. For a bus no region has, the address is 0. For the others it is in the first region with that bus,
  below the end of the region's last bus, at the offset the PCI Express specification gives; and two places of
  one region have the same address only if bus, slot, function and offset are the same.\<close>

theorem ecam_addresses_distinct:
  assumes "unat slot < 32" and "unat func < 8" and "unat offset < 4096"
  shows "case region_with g segment bus of
      None \<Rightarrow> get_device_address g segment bus slot func offset = 0
    | Some r \<Rightarrow> get_device_address g segment bus slot func offset
          = er_base_address r + of_nat (ecam_nat (er_start_bus r) bus slot func offset) \<and>
        ecam_nat (er_start_bus r) bus slot func offset < (unat (er_end_bus r) - unat (er_start_bus r) + 1) * 2 ^ 20 \<and>
        (\<forall>bus' slot' func' offset'. region_with g segment bus' = Some r \<and>
          unat slot' < 32 \<and> unat func' < 8 \<and> unat offset' < 4096 \<longrightarrow>
          (get_device_address g segment bus slot func offset = get_device_address g segment bus' slot' func' offset'
            \<longleftrightarrow> bus = bus' \<and> slot = slot' \<and> func = func' \<and> offset = offset'))"
proof (cases "region_with g segment bus")
  case None
  then show ?thesis using assms(3)
    by (simp add: get_device_address_def ecam_search_find region_with_covers)
next
  case (Some r)
  have addr: "get_device_address g segment bus slot func offset
      = er_base_address r + of_nat (ecam_nat (er_start_bus r) bus slot func offset)"
    if "region_with g segment bus = Some r" "unat slot < 32" "unat func < 8" "unat offset < 4096" for bus slot func offset
    using that ecam_offset_nat(1) [OF that(2-4), of "er_start_bus r" bus]
    by (simp add: get_device_address_def ecam_search_find region_with_covers word_le_nat_alt)
  have b: "unat (bus - er_start_bus r) = unat bus - unat (er_start_bus r)"
    using region_with_Some [OF Some] by (simp add: unat_sub word_le_nat_alt)
  define k where "k = unat (er_end_bus r) - unat (er_start_bus r)"
  have "unat (bus - er_start_bus r) \<le> k" unfolding k_def b using region_with_Some [OF Some] by (intro diff_le_mono) simp
  then have "(unat (bus - er_start_bus r) * 32 + unat slot) * 8 + unat func < (k + 1) * 256"
    using assms(1,2) by (simp add: add_mult_distrib)
  then have "ecam_nat (er_start_bus r) bus slot func offset < (unat (er_end_bus r) - unat (er_start_bus r) + 1) * 2 ^ 20"
    using assms(3) by (simp add: ecam_nat_def flip: k_def)
  moreover have "get_device_address g segment bus slot func offset = get_device_address g segment bus' slot' func' offset'
      \<longleftrightarrow> bus = bus' \<and> slot = slot' \<and> func = func' \<and> offset = offset'"
    if o: "region_with g segment bus' = Some r" "unat slot' < 32" "unat func' < 8" "unat offset' < 4096" for bus' slot' func' offset'
  proof -
    note e = ecam_offset_nat(2) [OF assms, of "er_start_bus r" bus] ecam_offset_nat(2) [OF o(2-4), of "er_start_bus r" bus']
    have "of_nat (ecam_nat (er_start_bus r) bus slot func offset)
        = (of_nat (ecam_nat (er_start_bus r) bus' slot' func' offset') :: u64) \<longleftrightarrow>
      ecam_nat (er_start_bus r) bus slot func offset = ecam_nat (er_start_bus r) bus' slot' func' offset'"
      using e by (intro of_nat_eq64) simp_all
    also have "\<dots> \<longleftrightarrow> bus - er_start_bus r = bus' - er_start_bus r \<and> slot = slot' \<and> func = func' \<and> offset = offset'"
      by (simp only: ecam_nat_def radix_eq [OF assms(3) o(4)] radix_eq [OF assms(2) o(3)]
          radix_eq [OF assms(1) o(2)] word_unat_eq_iff [symmetric] conj_assoc)
    finally show ?thesis using addr [OF Some assms] addr [OF o] by simp
  qed
  ultimately show ?thesis using addr [OF Some assms] Some by simp
qed

theorem ecam_addresses_distinct_witness:
  "get_device_address (empty_ECAMMap\<lparr>regions := [(region_of qemu_entry)\<lparr>er_end_bus := 9\<rparr>], region_count := 1\<rparr>) 0 1 2 3 0x10
     = 0xB0000000 + 0x113010 \<and>
   get_device_address (empty_ECAMMap\<lparr>regions := [(region_of qemu_entry)\<lparr>er_end_bus := 9\<rparr>], region_count := 1\<rparr>) 0 10 2 3 0x10 = 0"
proof -
  let ?g = "empty_ECAMMap\<lparr>regions := [(region_of qemu_entry)\<lparr>er_end_bus := 9\<rparr>], region_count := 1\<rparr>"
  have "region_with ?g 0 1 = Some ((region_of qemu_entry)\<lparr>er_end_bus := 9\<rparr>)" "region_with ?g 0 10 = None"
    by (simp_all add: region_with_def region_of_def qemu_entry_def)
  then show ?thesis
    using ecam_addresses_distinct [of 2 3 "0x10" ?g 0 1] ecam_addresses_distinct [of 2 3 "0x10" ?g 0 10]
    by (simp add: ecam_nat_def region_of_def qemu_entry_def)
qed

end
