(* ===== verification/Pcie.thy ===== *)
theory Pcie
  imports Acpi
begin

unbundle bit_operations_syntax

text \<open>
  The PCI Express host (\<^verbatim>\<open>src/PCI/pcie.cpp\<close>): configuration accesses through memory with the
  ports as a fallback, the scan for NVMe controllers and the search for the base address of the
  first. The locale \<open>pci_space\<close> states what the machine's configuration space does; in it the
  scan and the search are compared with their meaning over a table of registers.
\<close>

section \<open>Configuration accesses\<close>

definition config_address :: "u8 \<Rightarrow> u8 \<Rightarrow> u8 \<Rightarrow> u8 \<Rightarrow> u32" where
  "config_address bus slot func offset =
     (push_bit 16 (ucast bus) OR push_bit 11 (ucast slot) OR push_bit 8 (ucast func)
       OR (ucast offset AND 0xFC)) OR 0x80000000"

definition config_read32 :: "'p machine \<Rightarrow> u8 \<Rightarrow> u8 \<Rightarrow> u8 \<Rightarrow> u8 \<Rightarrow> 'p \<Rightarrow> u32 \<times> 'p" where
  "config_read32 mc bus slot func offset s =
     port_in32 mc 0xCFC (port_out32 mc 0xCF8 (config_address bus slot func offset) s)"

definition config_write32 :: "'p machine \<Rightarrow> u8 \<Rightarrow> u8 \<Rightarrow> u8 \<Rightarrow> u8 \<Rightarrow> u32 \<Rightarrow> 'p \<Rightarrow> 'p" where
  "config_write32 mc bus slot func offset v s =
     port_out32 mc 0xCFC v (port_out32 mc 0xCF8 (config_address bus slot func offset) s)"

definition read32 :: "'p machine \<Rightarrow> ECAMMap \<Rightarrow> u8 \<Rightarrow> u8 \<Rightarrow> u8 \<Rightarrow> u16 \<Rightarrow> 'p \<Rightarrow> u32 \<times> 'p" where
  "read32 mc g bus slot func offset s =
     (case ECAM_read32 mc g 0 bus slot func offset s of (val, s1) \<Rightarrow>
        if val \<noteq> 0xFFFFFFFF then (val, s1) else config_read32 mc bus slot func (ucast offset) s1)"

definition write32 :: "'p machine \<Rightarrow> ECAMMap \<Rightarrow> u8 \<Rightarrow> u8 \<Rightarrow> u8 \<Rightarrow> u16 \<Rightarrow> u32 \<Rightarrow> 'p \<Rightarrow> 'p" where
  "write32 mc g bus slot func offset v s =
     (case ECAM_read32 mc g 0 bus slot func 0 s of (ecam_addr, s1) \<Rightarrow>
        if ecam_addr \<noteq> 0xFFFFFFFF then ECAM_write32 mc g 0 bus slot func offset v s1
        else config_write32 mc bus slot func (ucast offset) v s1)"

definition enable_bus_master :: "'p machine \<Rightarrow> ECAMMap \<Rightarrow> u8 \<Rightarrow> u8 \<Rightarrow> u8 \<Rightarrow> 'p \<Rightarrow> 'p" where
  "enable_bus_master mc g bus slot func s =
     (case read32 mc g bus slot func 4 s of (cmd_status, s1) \<Rightarrow>
        write32 mc g bus slot func 4 (cmd_status OR push_bit 2 1) s1)"

section \<open>Fields of the registers\<close>

definition vendor_id :: "u32 \<Rightarrow> u16" where "vendor_id vendor_device = ucast (vendor_device AND 0xFFFF)"
definition class_code :: "u32 \<Rightarrow> u8" where "class_code class_rev = ucast (drop_bit 24 class_rev)"
definition subclass_code :: "u32 \<Rightarrow> u8" where "subclass_code class_rev = ucast (drop_bit 16 class_rev)"

definition header_type :: "u32 \<Rightarrow> u8" where
  "header_type header_type_reg = ucast (drop_bit 16 header_type_reg)"

section \<open>The scan\<close>

definition buses :: "u8 list" where "buses = map of_nat [0..<256]"
definition slots :: "u8 list" where "slots = map of_nat [0..<32]"
definition funcs :: "u8 list" where "funcs = map of_nat [0..<8]"

text \<open>One turn of the innermost loop; the first component is its \<^verbatim>\<open>break\<close>.\<close>

definition scan_function ::
    "'p machine \<Rightarrow> ECAMMap \<Rightarrow> u8 \<Rightarrow> u8 \<Rightarrow> u8 \<Rightarrow> bool \<times> 'p \<Rightarrow> bool \<times> bool \<times> 'p" where
  "scan_function mc g bus slot func st = (case st of (active, s) \<Rightarrow>
     (case read32 mc g bus slot func 0 s of (vendor_device, s1) \<Rightarrow>
        if vendor_id vendor_device = 0xFFFF then (func = 0, active, s1)
        else (case read32 mc g bus slot func 8 s1 of (class_rev, s2) \<Rightarrow>
          (case (if class_code class_rev = 0x01 \<and> subclass_code class_rev = 0x08
                 then (True, enable_bus_master mc g bus slot func s2) else (active, s2)) of
             (active', s3) \<Rightarrow>
               (case read32 mc g bus slot func 0x0C s3 of (header_type_reg, s4) \<Rightarrow>
                  (func = 0 \<and> header_type header_type_reg AND 0x80 = 0, active', s4))))))"

fun func_loop :: "(u8 \<Rightarrow> 'st \<Rightarrow> bool \<times> 'st) \<Rightarrow> u8 list \<Rightarrow> 'st \<Rightarrow> 'st" where
  "func_loop step [] st = st"
| "func_loop step (f # fs) st =
     (case step f st of (stop, st') \<Rightarrow> if stop then st' else func_loop step fs st')"

definition scan_slot :: "'p machine \<Rightarrow> ECAMMap \<Rightarrow> u8 \<Rightarrow> u8 \<Rightarrow> bool \<times> 'p \<Rightarrow> bool \<times> 'p" where
  "scan_slot mc g bus slot st = func_loop (scan_function mc g bus slot) funcs st"

definition scan_and_leach_resources :: "'p machine \<Rightarrow> ECAMMap \<Rightarrow> bool \<times> 'p \<Rightarrow> bool \<times> 'p" where
  "scan_and_leach_resources mc g st =
     fold (\<lambda>bus. fold (\<lambda>slot. scan_slot mc g bus slot) slots) buses st"

text \<open>The host: whether it is active, and the map of memory mapped configuration space.\<close>

definition release_resources :: "'p \<Rightarrow> 'p" where "release_resources s = s"

definition destroy_host :: "bool \<times> 'p \<Rightarrow> bool \<times> 'p" where
  "destroy_host st = (False, release_resources (snd st))"

definition is_active :: "bool \<times> 'p \<Rightarrow> bool" where "is_active st = fst st"

definition initialize ::
    "'p machine \<Rightarrow> memory \<Rightarrow> u64 \<Rightarrow> ECAMMap \<Rightarrow> bool \<times> 'p \<Rightarrow> ECAMMap \<times> bool \<times> 'p" where
  "initialize mc m mcfg g st =
     (if is_active st then (g, st)
      else (let g' = (if mcfg \<noteq> 0
                      then (case parse_mcfg m mcfg empty_ECAMMap of (ok, mp) \<Rightarrow>
                              if ok then snd (ECAM_init mp g) else g)
                      else g);
                st' = scan_and_leach_resources mc g' st
            in (g', if is_active st' then st' else destroy_host st')))"

section \<open>The search for the base address\<close>

definition bar_base :: "u32 \<Rightarrow> u32 \<Rightarrow> u64" where
  "bar_base bar0_hi bar0_lo = push_bit 32 (ucast bar0_hi) OR ucast (bar0_lo AND NOT 0x0F)"

definition is_64bit_bar :: "u32 \<Rightarrow> bool" where "is_64bit_bar bar0_lo \<longleftrightarrow> bar0_lo AND 0x06 = 0x04"

datatype find_step = Next | Stop_slot | Return u64

definition find_function :: "'p machine \<Rightarrow> ECAMMap \<Rightarrow> u8 \<Rightarrow> u8 \<Rightarrow> u8 \<Rightarrow> 'p \<Rightarrow> find_step \<times> 'p" where
  "find_function mc g bus slot func s =
     (case read32 mc g bus slot func 0 s of (vendor_device, s1) \<Rightarrow>
        if vendor_id vendor_device = 0xFFFF then (if func = 0 then Stop_slot else Next, s1)
        else (case read32 mc g bus slot func 8 s1 of (class_rev, s2) \<Rightarrow>
          if class_code class_rev = 0x01 \<and> subclass_code class_rev = 0x08
          then (case read32 mc g bus slot func 0x10 s2 of (bar0_lo, s3) \<Rightarrow>
            (case (if is_64bit_bar bar0_lo then read32 mc g bus slot func 0x14 s3 else (0, s3)) of
               (bar0_hi, s4) \<Rightarrow> (Return (bar_base bar0_hi bar0_lo), s4)))
          else (case read32 mc g bus slot func 0x0C s2 of (header_type_reg, s3) \<Rightarrow>
            (if func = 0 \<and> header_type header_type_reg AND 0x80 = 0 then Stop_slot else Next, s3))))"

fun find_funcs :: "'p machine \<Rightarrow> ECAMMap \<Rightarrow> u8 \<Rightarrow> u8 \<Rightarrow> u8 list \<Rightarrow> 'p \<Rightarrow> u64 option \<times> 'p" where
  "find_funcs mc g bus slot [] s = (None, s)"
| "find_funcs mc g bus slot (f # fs) s =
     (case find_function mc g bus slot f s of
        (Return a, s') \<Rightarrow> (Some a, s')
      | (Stop_slot, s') \<Rightarrow> (None, s')
      | (Next, s') \<Rightarrow> find_funcs mc g bus slot fs s')"

fun find_slots :: "'p machine \<Rightarrow> ECAMMap \<Rightarrow> u8 \<Rightarrow> u8 list \<Rightarrow> 'p \<Rightarrow> u64 option \<times> 'p" where
  "find_slots mc g bus [] s = (None, s)"
| "find_slots mc g bus (sl # sls) s =
     (case find_funcs mc g bus sl funcs s of
        (Some a, s') \<Rightarrow> (Some a, s')
      | (None, s') \<Rightarrow> find_slots mc g bus sls s')"

fun find_buses :: "'p machine \<Rightarrow> ECAMMap \<Rightarrow> u8 list \<Rightarrow> 'p \<Rightarrow> u64 option \<times> 'p" where
  "find_buses mc g [] s = (None, s)"
| "find_buses mc g (b # bs) s =
     (case find_slots mc g b slots s of
        (Some a, s') \<Rightarrow> (Some a, s')
      | (None, s') \<Rightarrow> find_buses mc g bs s')"

definition find_nvme_bar0 :: "'p machine \<Rightarrow> ECAMMap \<Rightarrow> bool \<times> 'p \<Rightarrow> u64 \<times> 'p" where
  "find_nvme_bar0 mc g st =
     (if \<not> is_active st then (0, snd st)
      else (case find_buses mc g buses (snd st) of
              (Some a, s) \<Rightarrow> (a, s) | (None, s) \<Rightarrow> (0, s)))"

lemma distinct_small: "n \<le> 256 \<Longrightarrow> distinct (map of_nat [0..<n] :: u8 list)"
  by (auto simp: distinct_map inj_on_def word_unat_eq_iff unat_of_nat)

lemma distinct_buses: "distinct buses" and distinct_slots: "distinct slots"
  by (simp_all add: buses_def slots_def distinct_small del: upt_rec_numeral)

section \<open>What they mean over a table of registers\<close>

type_synonym config_table = "u8 \<Rightarrow> u8 \<Rightarrow> u8 \<Rightarrow> u16 \<Rightarrow> u32"

text \<open>Presence, class and base address in terms of the values of the registers: a vendor id of 65535 is
  nobody, class 1 with subclass 8 is an NVMe controller, bit 23 of the header register announces
  further functions, and bits 2 and 1 of BAR 0 are 10 if it has a second half.\<close>

definition present_fn :: "config_table \<Rightarrow> u8 \<Rightarrow> u8 \<Rightarrow> u8 \<Rightarrow> bool" where
  "present_fn C b sl f \<longleftrightarrow> unat (C b sl f 0) mod 65536 \<noteq> 65535"

definition multi_fn :: "config_table \<Rightarrow> u8 \<Rightarrow> u8 \<Rightarrow> bool" where
  "multi_fn C b sl \<longleftrightarrow> bit (C b sl 0 0x0C) 23"

text \<open>A function is visible if it is there and function 0 of its device allows others.\<close>

definition visible :: "config_table \<Rightarrow> u8 \<Rightarrow> u8 \<Rightarrow> u8 \<Rightarrow> bool" where
  "visible C b sl f \<longleftrightarrow> present_fn C b sl f \<and> (f = 0 \<or> present_fn C b sl 0 \<and> multi_fn C b sl)"

definition nvme_fn :: "config_table \<Rightarrow> u8 \<Rightarrow> u8 \<Rightarrow> u8 \<Rightarrow> bool" where
  "nvme_fn C b sl f \<longleftrightarrow> unat (C b sl f 8) div 65536 = 0x108"

definition bar0_of :: "config_table \<Rightarrow> u8 \<times> u8 \<times> u8 \<Rightarrow> u64" where
  "bar0_of C p = (case p of (b, sl, f) \<Rightarrow>
     let lo = C b sl f 0x10; hi = (if bit lo 2 \<and> \<not> bit lo 1 then unat (C b sl f 0x14) else 0)
     in of_nat (2 ^ 32 * hi + 16 * (unat lo div 16)))"

lemma is_64bit_bar_bits: "is_64bit_bar lo \<longleftrightarrow> bit lo 2 \<and> \<not> bit lo 1"
proof
  assume "is_64bit_bar lo"
  then have *: "lo AND 6 = 4" by (simp add: is_64bit_bar_def)
  have "bit (lo AND 6) 2 \<and> \<not> bit (lo AND 6) 1" unfolding * by simp
  then show "bit lo 2 \<and> \<not> bit lo 1" by (simp add: bit_simps)
next
  assume "bit lo 2 \<and> \<not> bit lo 1"
  then have "lo AND 6 = 4" by (intro bit_word_eqI) (simp only: bit_and_iff bit6 bit4, auto)
  then show "is_64bit_bar lo" by (simp add: is_64bit_bar_def)
qed

lemma unat_ucast32: "unat (ucast (x :: u32) :: u64) = unat x"
  using unsigned_less [where 'a = nat, of x] by (simp add: unsigned_ucast_eq take_bit_nat_eq_self)

lemma bar_base_nat: "bar_base hi lo = of_nat (2 ^ 32 * unat hi + 16 * (unat lo div 16))"
proof -
  have m: "(15 :: u32) = mask 4" by (simp add: mask_eq_exp_minus_1)
  have lo: "unat (lo AND NOT 15) = 16 * (unat lo div 16)"
  proof -
    have "lo AND NOT 15 = push_bit 4 (drop_bit 4 lo)"
      unfolding m by (rule bit_word_eqI) (auto simp: bit_simps)
    moreover have "16 * (unat lo div 16) < 2 ^ 32" using unsigned_less [where 'a = nat, of lo] by simp
    ultimately show ?thesis
      by (simp add: push_bit_eq_mult unat_word_ariths unat_div_distrib drop_bit_eq_div)
  qed
  have "bar_base hi lo = push_bit 32 (ucast hi) + ucast (lo AND NOT 15)"
    unfolding bar_base_def by (rule disjunctive_add [symmetric]) (auto simp: bit_simps)
  also have "\<dots> = of_nat (2 ^ 32 * unat (ucast hi :: u64) + unat (ucast (lo AND NOT 15) :: u64))"
    by (simp add: push_bit_eq_mult)
  finally show ?thesis by (simp only: unat_ucast32 lo)
qed

lemma vendor_id_nat: "unat (vendor_id v) = unat v mod 65536"
proof -
  have m: "(65535 :: u32) = mask 16" by (simp add: mask_eq_exp_minus_1)
  show ?thesis unfolding vendor_id_def m take_bit_eq_mask [symmetric]
    by (simp add: unsigned_ucast_eq unsigned_take_bit_eq take_bit_eq_mod unat_mod_distrib)
qed

lemma class_nat: "unat (class_code v) = unat v div 2 ^ 24" "unat (subclass_code v) = unat v div 2 ^ 16 mod 2 ^ 8"
  using unsigned_less [where 'a = nat, of v]
  by (simp_all add: class_code_def subclass_code_def unsigned_ucast_eq unsigned_drop_bit_eq drop_bit_eq_div take_bit_eq_mod unat_div_distrib)

lemma nvme_nat: "class_code v = 1 \<and> subclass_code v = 8 \<longleftrightarrow> unat v div 65536 = 264"
proof -
  have split: "n div 256 = 1 \<and> n mod 256 = 8 \<longleftrightarrow> n = 264" for n :: nat
  proof
    assume "n div 256 = 1 \<and> n mod 256 = 8"
    then have "n div 256 * 256 + n mod 256 = 264" by simp
    then show "n = 264" by (simp only: div_mult_mod_eq)
  qed simp
  have "unat v div 2 ^ 24 = unat v div 65536 div 256" by (simp add: div_mult2_eq [symmetric])
  then show ?thesis
    using split [of "unat v div 65536"] by (simp add: word_unat_eq_iff class_nat)
qed

lemma multi_bit: "header_type v AND 0x80 \<noteq> 0 \<longleftrightarrow> bit v 23"
  by (auto simp: header_type_def and_exp_eq_0_iff_not_bit [of _ 7, simplified] bit_simps)

text \<open>The same in terms of what the code computes.\<close>

lemma present_fn_regs: "present_fn C b sl f \<longleftrightarrow> vendor_id (C b sl f 0) \<noteq> 0xFFFF"
  by (simp add: present_fn_def word_unat_eq_iff vendor_id_nat)

lemma multi_fn_regs: "multi_fn C b sl \<longleftrightarrow> header_type (C b sl 0 0x0C) AND 0x80 \<noteq> 0"
  by (simp only: multi_fn_def multi_bit)

lemma nvme_fn_regs: "nvme_fn C b sl f \<longleftrightarrow> class_code (C b sl f 8) = 0x01 \<and> subclass_code (C b sl f 8) = 0x08"
  by (simp only: nvme_fn_def nvme_nat)

lemma bar0_of_regs: "bar0_of C p = (case p of (b, sl, f) \<Rightarrow>
    bar_base (if is_64bit_bar (C b sl f 0x10) then C b sl f 0x14 else 0) (C b sl f 0x10))"
  by (simp add: bar0_of_def is_64bit_bar_bits bar_base_nat Let_def split: prod.splits)

definition all_places :: "(u8 \<times> u8 \<times> u8) list" where
  "all_places = concat (map (\<lambda>b. concat (map (\<lambda>sl. map (\<lambda>f. (b, sl, f)) funcs) slots)) buses)"

text \<open>What a function makes of a value written to its command and status register, from the register's
  old value and the one written: the device decides. Bits of it may be fixed, and bits of the status half
  are cleared by writing ones to them.\<close>

type_synonym device_latch = "u8 \<Rightarrow> u8 \<Rightarrow> u8 \<Rightarrow> u32 \<Rightarrow> u32 \<Rightarrow> u32"

text \<open>The functions of a set have been written the register's own value with the bus master bit set, once
  each.\<close>

definition mark :: "device_latch \<Rightarrow> config_table \<Rightarrow> (u8 \<times> u8 \<times> u8) set \<Rightarrow> config_table" where
  "mark L C P = (\<lambda>b sl f k. if k = 4 \<and> (b, sl, f) \<in> P then L b sl f (C b sl f k) (C b sl f k OR 4) else C b sl f k)"

lemma mark_empty: "mark L C {} = C" by (simp add: mark_def)

lemma mark_mark: "P \<inter> Q = {} \<Longrightarrow> mark L (mark L C P) Q = mark L C (P \<union> Q)"
  by (intro ext) (auto simp: mark_def)

lemma mark_other: "k \<noteq> 4 \<Longrightarrow> mark L C P b sl f k = C b sl f k" by (simp add: mark_def)

lemma mark_simps [simp]:
  "present_fn (mark L C P) b sl f = present_fn C b sl f" "nvme_fn (mark L C P) b sl f = nvme_fn C b sl f"
  "multi_fn (mark L C P) b sl = multi_fn C b sl" "visible (mark L C P) b sl f = visible C b sl f"
  by (simp_all add: present_fn_regs nvme_fn_regs multi_fn_regs visible_def mark_other)

definition nvme_places :: "config_table \<Rightarrow> (u8 \<times> u8 \<times> u8) set" where
  "nvme_places C = {(b, sl, f). visible C b sl f \<and> nvme_fn C b sl f}"

section \<open>The interface to configuration space\<close>

locale pci_space =
  fixes mc :: "'p machine" and g :: ECAMMap and inv :: "'p \<Rightarrow> bool" and cfg :: "'p \<Rightarrow> config_table"
  assumes read_law: "inv s \<Longrightarrow> unat sl < 32 \<Longrightarrow> unat f < 8 \<Longrightarrow> k \<in> {0, 4, 8, 0x0C, 0x10, 0x14} \<Longrightarrow>
      \<exists>s'. read32 mc g b sl f k s = (cfg s b sl f k, s') \<and> inv s' \<and> cfg s' = cfg s"
begin

definition other_funcs :: "u8 list" where "other_funcs = map of_nat [1..<8]"

lemma zero8: "unat (0 :: u8) < 8" by simp

lemma funcs_split: "funcs = 0 # other_funcs" "0 \<notin> set other_funcs"
    "\<forall>f \<in> set other_funcs. unat f < 8" "distinct other_funcs"
  by (simp_all add: funcs_def other_funcs_def upt_rec)

lemma set_places: "set all_places = {(b, sl, f). b \<in> set buses \<and> sl \<in> set slots \<and> f \<in> set funcs}"
  by (auto simp: all_places_def)

lemma slots_range: "sl \<in> set slots \<Longrightarrow> unat sl < 32" "f \<in> set funcs \<Longrightarrow> unat f < 8"
  by (auto simp: slots_def funcs_def unat_of_nat)

text \<open>The search.\<close>

lemma find_function_step:
  assumes "inv s" and rng: "unat (sl :: u8) < 32" "unat (f :: u8) < 8"
  obtains s' where "find_function mc g b sl f s =
      (if present_fn (cfg s) b sl f \<and> nvme_fn (cfg s) b sl f then Return (bar0_of (cfg s) (b, sl, f))
       else if f = 0 \<and> \<not> (present_fn (cfg s) b sl f \<and> multi_fn (cfg s) b sl) then Stop_slot else Next, s')"
    "inv s'" "cfg s' = cfg s"
proof -
  obtain s1 where r1: "read32 mc g b sl f 0 s = (cfg s b sl f 0, s1)" "inv s1" "cfg s1 = cfg s"
    using read_law [of s sl f 0 b] assms by auto
  show ?thesis
  proof (cases "present_fn (cfg s) b sl f")
    case False
    then show ?thesis using that [of s1] r1 by (simp add: find_function_def present_fn_regs)
  next
    case True
    obtain s2 where r2: "read32 mc g b sl f 8 s1 = (cfg s b sl f 8, s2)" "inv s2" "cfg s2 = cfg s"
      using read_law [of s1 sl f 8 b] r1 rng by auto
    obtain s3 where r3: "read32 mc g b sl f 0x10 s2 = (cfg s b sl f 0x10, s3)" "inv s3" "cfg s3 = cfg s"
      using read_law [of s2 sl f "0x10" b] r2 rng by auto
    obtain s4 where r4: "read32 mc g b sl f 0x14 s3 = (cfg s b sl f 0x14, s4)" "inv s4" "cfg s4 = cfg s"
      using read_law [of s3 sl f "0x14" b] r3 rng by auto
    obtain s5 where r5: "read32 mc g b sl f 0x0C s2 = (cfg s b sl f 0x0C, s5)" "inv s5" "cfg s5 = cfg s"
      using read_law [of s2 sl f "0x0C" b] r2 rng by auto
    show ?thesis
    proof (cases "nvme_fn (cfg s) b sl f")
      case nv: True
      then show ?thesis
        using that [of "if is_64bit_bar (cfg s b sl f 0x10) then s4 else s3"] r1(1) r2(1) r3 r4 True
        by (auto simp: find_function_def present_fn_regs nvme_fn_regs bar0_of_regs)
    next
      case False
      then show ?thesis
        using that [of s5] r1(1) r2(1) r5 True
        by (cases "f = 0") (auto simp: find_function_def present_fn_regs nvme_fn_regs multi_fn_regs)
    qed
  qed
qed

text \<open>Searches skip what does not match.\<close>

lemma find_other_functions:
  assumes "inv s" and "0 \<notin> set fs" and "unat (sl :: u8) < 32" and "\<forall>f \<in> set fs. unat (f :: u8) < 8"
  obtains s' where "find_funcs mc g b sl fs s =
      (map_option (\<lambda>f. bar0_of (cfg s) (b, sl, f))
        (find (\<lambda>f. present_fn (cfg s) b sl f \<and> nvme_fn (cfg s) b sl f) fs), s')" "inv s'" "cfg s' = cfg s"
  using assms
proof (induction fs arbitrary: s thesis)
  case Nil
  then show ?case by simp
next
  case (Cons f fs)
  have fr: "unat f < 8" "\<forall>f \<in> set fs. unat f < 8" using Cons.prems(5) by simp_all
  obtain s1 where r: "find_function mc g b sl f s =
      (if present_fn (cfg s) b sl f \<and> nvme_fn (cfg s) b sl f then Return (bar0_of (cfg s) (b, sl, f))
       else if f = 0 \<and> \<not> (present_fn (cfg s) b sl f \<and> multi_fn (cfg s) b sl) then Stop_slot else Next, s1)"
    "inv s1" "cfg s1 = cfg s" by (rule find_function_step [OF Cons.prems(2,4) fr(1)])
  have f: "f \<noteq> 0" "0 \<notin> set fs" using Cons.prems(3) by auto
  obtain s2 where i: "find_funcs mc g b sl fs s1 =
      (map_option (\<lambda>f. bar0_of (cfg s1) (b, sl, f))
        (find (\<lambda>f. present_fn (cfg s1) b sl f \<and> nvme_fn (cfg s1) b sl f) fs), s2)" "inv s2" "cfg s2 = cfg s1"
    by (rule Cons.IH [OF _ r(2) f(2) Cons.prems(4) fr(2)])
  show ?case
  proof (cases "present_fn (cfg s) b sl f \<and> nvme_fn (cfg s) b sl f")
    case True
    then show ?thesis using Cons.prems(1) [of s1] r by simp
  next
    case False
    then have n: "find_function mc g b sl f s = (Next, s1)" using r(1) f(1) by simp
    show ?thesis
      using Cons.prems(1) [of s2] i r(3) False by (auto simp: n)
  qed
qed

lemma find_slot:
  assumes "inv s" and rng: "unat (sl :: u8) < 32"
  obtains s' where "find_funcs mc g b sl funcs s =
      (map_option (\<lambda>f. bar0_of (cfg s) (b, sl, f))
        (find (\<lambda>f. visible (cfg s) b sl f \<and> nvme_fn (cfg s) b sl f) funcs), s')" "inv s'" "cfg s' = cfg s"
proof -
  let ?C = "cfg s"
  obtain s1 where r: "find_function mc g b sl 0 s =
      (if present_fn ?C b sl 0 \<and> nvme_fn ?C b sl 0 then Return (bar0_of ?C (b, sl, 0))
       else if 0 = (0 :: u8) \<and> \<not> (present_fn ?C b sl 0 \<and> multi_fn ?C b sl) then Stop_slot else Next, s1)"
    "inv s1" "cfg s1 = cfg s" by (rule find_function_step [OF assms zero8])
  obtain s2 where i: "find_funcs mc g b sl other_funcs s1 =
      (map_option (\<lambda>f. bar0_of (cfg s1) (b, sl, f))
        (find (\<lambda>f. present_fn (cfg s1) b sl f \<and> nvme_fn (cfg s1) b sl f) other_funcs), s2)"
      "inv s2" "cfg s2 = cfg s1"
    by (rule find_other_functions [OF r(2) funcs_split(2) rng funcs_split(3)])
  let ?rest = "other_funcs"
  have nz: "f \<noteq> 0" if "f \<in> set ?rest" for f using that funcs_split(2) by metis
  show ?thesis
  proof (cases "present_fn ?C b sl 0 \<and> nvme_fn ?C b sl 0")
    case True
    then show ?thesis using that [of s1] r by (simp add: funcs_split(1) visible_def)
  next
    case no: False
    have v0: "\<not> (visible ?C b sl 0 \<and> nvme_fn ?C b sl 0)" using no by (simp add: visible_def)
    show ?thesis
    proof (cases "present_fn ?C b sl 0 \<and> multi_fn ?C b sl")
      case True
      have "find (\<lambda>f. visible ?C b sl f \<and> nvme_fn ?C b sl f) ?rest
          = find (\<lambda>f. present_fn ?C b sl f \<and> nvme_fn ?C b sl f) ?rest"
        using True nz by (intro find_cong) (auto simp: visible_def)
      then have "find_funcs mc g b sl funcs s = (map_option (\<lambda>f. bar0_of ?C (b, sl, f))
          (find (\<lambda>f. visible ?C b sl f \<and> nvme_fn ?C b sl f) funcs), s2)"
        using r(1,3) i(1) no True v0 by (auto simp: funcs_split(1))
      then show ?thesis using that i(2,3) r(3) by simp
    next
      case False
      have "find (\<lambda>f. visible ?C b sl f \<and> nvme_fn ?C b sl f) ?rest = None"
        using False nz by (auto simp: find_None_iff visible_def)
      then have "find_funcs mc g b sl funcs s = (map_option (\<lambda>f. bar0_of ?C (b, sl, f))
          (find (\<lambda>f. visible ?C b sl f \<and> nvme_fn ?C b sl f) funcs), s1)"
        using r(1) no False v0 by (auto simp: funcs_split(1))
      then show ?thesis using that r(2,3) by simp
    qed
  qed
qed

lemma find_app: "find P (xs @ ys) = (case find P xs of None \<Rightarrow> find P ys | Some x \<Rightarrow> Some x)"
  by (induction xs) auto

lemma find_map_Pair:
  "find P (map f xs) = map_option f (find (\<lambda>x. P (f x)) xs)"
  by (induction xs) auto

lemma find_slots_step:
  assumes "inv s" and "\<forall>sl \<in> set sls. unat (sl :: u8) < 32"
  obtains s' where "find_slots mc g b sls s =
      (map_option (bar0_of (cfg s)) (find (\<lambda>p. p \<in> nvme_places (cfg s))
        (concat (map (\<lambda>sl. map (\<lambda>f. (b, sl, f)) funcs) sls))), s')" "inv s'" "cfg s' = cfg s"
  using assms
proof (induction sls arbitrary: s thesis)
  case Nil
  then show ?case by simp
next
  case (Cons sl sls)
  have sl: "unat sl < 32" and sls: "\<forall>sl \<in> set sls. unat sl < 32" using Cons.prems(3) by simp_all
  obtain s1 where r: "find_funcs mc g b sl funcs s =
      (map_option (\<lambda>f. bar0_of (cfg s) (b, sl, f))
        (find (\<lambda>f. visible (cfg s) b sl f \<and> nvme_fn (cfg s) b sl f) funcs), s1)" "inv s1" "cfg s1 = cfg s"
    by (rule find_slot [OF Cons.prems(2) sl])
  obtain s2 where i: "find_slots mc g b sls s1 =
      (map_option (bar0_of (cfg s1)) (find (\<lambda>p. p \<in> nvme_places (cfg s1))
        (concat (map (\<lambda>sl. map (\<lambda>f. (b, sl, f)) funcs) sls))), s2)" "inv s2" "cfg s2 = cfg s1"
    by (rule Cons.IH [OF _ r(2) sls])
  have here: "find (\<lambda>p. p \<in> nvme_places (cfg s)) (map (\<lambda>f. (b, sl, f)) funcs)
      = map_option (\<lambda>f. (b, sl, f)) (find (\<lambda>f. visible (cfg s) b sl f \<and> nvme_fn (cfg s) b sl f) funcs)"
    by (simp add: find_map_Pair nvme_places_def)
  show ?case
  proof (cases "find (\<lambda>f. visible (cfg s) b sl f \<and> nvme_fn (cfg s) b sl f) funcs")
    case None
    then show ?thesis
      using Cons.prems(1) [of s2] r i by (simp add: find_app here)
  next
    case (Some f)
    then show ?thesis
      using Cons.prems(1) [of s1] r by (simp add: find_app here)
  qed
qed

lemma find_buses_step:
  assumes "inv s"
  obtains s' where "find_buses mc g bs s =
      (map_option (bar0_of (cfg s)) (find (\<lambda>p. p \<in> nvme_places (cfg s))
        (concat (map (\<lambda>b. concat (map (\<lambda>sl. map (\<lambda>f. (b, sl, f)) funcs) slots)) bs))), s')"
    "inv s'" "cfg s' = cfg s"
  using assms
proof (induction bs arbitrary: s thesis)
  case Nil
  then show ?case by simp
next
  case (Cons b bs)
  let ?here = "concat (map (\<lambda>sl. map (\<lambda>f. (b, sl, f)) funcs) slots)"
  have rng: "\<forall>sl \<in> set slots. unat sl < 32" using slots_range by blast
  obtain s1 where r: "find_slots mc g b slots s =
      (map_option (bar0_of (cfg s)) (find (\<lambda>p. p \<in> nvme_places (cfg s)) ?here), s1)" "inv s1" "cfg s1 = cfg s"
    by (rule find_slots_step [OF Cons.prems(2) rng])
  obtain s2 where i: "find_buses mc g bs s1 =
      (map_option (bar0_of (cfg s1)) (find (\<lambda>p. p \<in> nvme_places (cfg s1))
        (concat (map (\<lambda>b. concat (map (\<lambda>sl. map (\<lambda>f. (b, sl, f)) funcs) slots)) bs))), s2)"
      "inv s2" "cfg s2 = cfg s1"
    by (rule Cons.IH [OF _ r(2)])
  show ?case
  proof (cases "find (\<lambda>p. p \<in> nvme_places (cfg s)) ?here")
    case None
    then show ?thesis
      using Cons.prems(1) [of s2] r i by (simp add: find_app)
  next
    case (Some p)
    then show ?thesis
      using Cons.prems(1) [of s1] r by (simp add: find_app)
  qed
qed

lemma find_nvme_first:
  assumes "inv s"
  shows "\<exists>s'. find_nvme_bar0 mc g (a, s) =
    (if a then (case find (\<lambda>p. p \<in> nvme_places (cfg s)) all_places of
       None \<Rightarrow> 0 | Some p \<Rightarrow> bar0_of (cfg s) p) else 0, s') \<and> inv s' \<and> cfg s' = cfg s"
proof -
  obtain s' where "find_buses mc g buses s = (map_option (bar0_of (cfg s))
      (find (\<lambda>p. p \<in> nvme_places (cfg s)) all_places), s')" "inv s'" "cfg s' = cfg s"
    by (rule find_buses_step [OF assms, of buses]) (simp add: all_places_def)
  then show ?thesis
    using assms by (cases "find (\<lambda>p. p \<in> nvme_places (cfg s)) all_places")
      (auto simp: find_nvme_bar0_def is_active_def)
qed

end

text \<open>A write to the command and status register of a function that is there changes that register only,
  to what the device makes of it.\<close>

locale pci_latched = pci_space mc g inv cfg
  for mc :: "'p machine" and g :: ECAMMap and inv :: "'p \<Rightarrow> bool" and cfg :: "'p \<Rightarrow> config_table" +
  fixes latch :: device_latch
  assumes write_law: "inv s \<Longrightarrow> unat sl < 32 \<Longrightarrow> unat f < 8 \<Longrightarrow> present_fn (cfg s) b sl f \<Longrightarrow>
      inv (write32 mc g b sl f 4 v s) \<and>
      cfg (write32 mc g b sl f 4 v s) = (\<lambda>b' sl' f' k. if k = 4 \<and> (b', sl', f') = (b, sl, f)
        then latch b sl f (cfg s b sl f 4) v else cfg s b' sl' f' k)"
begin

lemma write_marks:
  assumes "inv s" and "unat sl < 32" and "unat f < 8" and "present_fn (cfg s) b sl f"
  shows "inv (write32 mc g b sl f 4 (cfg s b sl f 4 OR 4) s)"
    and "cfg (write32 mc g b sl f 4 (cfg s b sl f 4 OR 4) s) = mark latch (cfg s) {(b, sl, f)}"
  using write_law [OF assms, of "cfg s b sl f 4 OR 4"] by (auto simp: mark_def fun_eq_iff)

lemma bus_master:
  assumes "inv s" and rng: "unat (sl :: u8) < 32" "unat (f :: u8) < 8" and "present_fn (cfg s) b sl f"
  shows "inv (enable_bus_master mc g b sl f s)"
    and "cfg (enable_bus_master mc g b sl f s) = mark latch (cfg s) {(b, sl, f)}"
proof -
  obtain s' where r: "read32 mc g b sl f 4 s = (cfg s b sl f 4, s')" "inv s'" "cfg s' = cfg s"
    using read_law [of s sl f 4 b] assms by auto
  have "enable_bus_master mc g b sl f s = write32 mc g b sl f 4 (cfg s' b sl f 4 OR 4) s'"
    using r by (simp add: enable_bus_master_def)
  then show "inv (enable_bus_master mc g b sl f s)"
    "cfg (enable_bus_master mc g b sl f s) = mark latch (cfg s) {(b, sl, f)}"
    using write_marks [OF r(2) rng, of b] assms(4) r(3) by simp_all
qed

text \<open>One turn of the loop.\<close>

lemma scan_function_step:
  assumes "inv s" and rng: "unat (sl :: u8) < 32" "unat (f :: u8) < 8"
  obtains s' where "scan_function mc g b sl f (a, s) =
      (f = 0 \<and> \<not> (present_fn (cfg s) b sl f \<and> multi_fn (cfg s) b sl),
       a \<or> present_fn (cfg s) b sl f \<and> nvme_fn (cfg s) b sl f, s')" "inv s'"
    "cfg s' = mark latch (cfg s) (if present_fn (cfg s) b sl f \<and> nvme_fn (cfg s) b sl f then {(b, sl, f)} else {})"
proof -
  obtain s1 where r1: "read32 mc g b sl f 0 s = (cfg s b sl f 0, s1)" "inv s1" "cfg s1 = cfg s"
    using read_law [of s sl f 0 b] assms by auto
  show ?thesis
  proof (cases "present_fn (cfg s) b sl f")
    case False
    then show ?thesis
      using that [of s1] r1 by (simp add: scan_function_def present_fn_regs mark_empty)
  next
    case True
    obtain s2 where r2: "read32 mc g b sl f 8 s1 = (cfg s b sl f 8, s2)" "inv s2" "cfg s2 = cfg s"
      using read_law [of s1 sl f 8 b] r1 rng by auto
    let ?n = "nvme_fn (cfg s) b sl f"
    define s3 where "s3 = (if ?n then enable_bus_master mc g b sl f s2 else s2)"
    have s3: "inv s3" "cfg s3 = mark latch (cfg s) (if ?n then {(b, sl, f)} else {})"
      using r2(2,3) bus_master [OF r2(2) rng, of b] True by (simp_all add: s3_def mark_empty)
    obtain s4 where r4: "read32 mc g b sl f 0x0C s3 = (cfg s3 b sl f 0x0C, s4)" "inv s4" "cfg s4 = cfg s3"
      using read_law [of s3 sl f "0x0C" b] s3(1) rng by auto
    have "scan_function mc g b sl f (a, s) =
        (f = 0 \<and> header_type (cfg s b sl f 0x0C) AND 0x80 = 0, a \<or> ?n, s4)"
      using r1(1) r2(1) r4(1) True s3(2)
      by (auto simp: scan_function_def present_fn_regs nvme_fn_regs s3_def mark_other)
    then show ?thesis
      using that [of s4] r4 s3(2) True by (auto simp: multi_fn_regs)
  qed
qed

text \<open>The functions other than 0 are all looked at.\<close>

lemma scan_other_functions:
  assumes "inv s" and "0 \<notin> set fs" and "unat (sl :: u8) < 32" and "\<forall>f \<in> set fs. unat (f :: u8) < 8"
    and "distinct fs"
  obtains s' where "func_loop (scan_function mc g b sl) fs (a, s) =
      (a \<or> (\<exists>f \<in> set fs. present_fn (cfg s) b sl f \<and> nvme_fn (cfg s) b sl f), s')" "inv s'"
    "cfg s' = mark latch (cfg s) {(b', sl', f). b' = b \<and> sl' = sl \<and> f \<in> set fs \<and>
       present_fn (cfg s) b sl f \<and> nvme_fn (cfg s) b sl f}"
  using assms
proof (induction fs arbitrary: a s thesis)
  case Nil
  then show ?case by (simp add: mark_empty)
next
  case (Cons f fs)
  have fr: "unat f < 8" "\<forall>f \<in> set fs. unat f < 8" using Cons.prems(5) by simp_all
  obtain s1 where r: "scan_function mc g b sl f (a, s) =
      (f = 0 \<and> \<not> (present_fn (cfg s) b sl f \<and> multi_fn (cfg s) b sl),
       a \<or> present_fn (cfg s) b sl f \<and> nvme_fn (cfg s) b sl f, s1)" "inv s1"
    "cfg s1 = mark latch (cfg s) (if present_fn (cfg s) b sl f \<and> nvme_fn (cfg s) b sl f then {(b, sl, f)} else {})"
    by (rule scan_function_step [OF Cons.prems(2,4) fr(1)])
  have "f \<noteq> 0" "0 \<notin> set fs" using Cons.prems(3) by auto
  have new: "f \<notin> set fs" "distinct fs" using Cons.prems(6) by simp_all
  obtain s' where i: "func_loop (scan_function mc g b sl) fs
        (a \<or> present_fn (cfg s) b sl f \<and> nvme_fn (cfg s) b sl f, s1) =
      ((a \<or> present_fn (cfg s) b sl f \<and> nvme_fn (cfg s) b sl f) \<or>
        (\<exists>f \<in> set fs. present_fn (cfg s1) b sl f \<and> nvme_fn (cfg s1) b sl f), s')" "inv s'"
    "cfg s' = mark latch (cfg s1) {(b', sl', f). b' = b \<and> sl' = sl \<and> f \<in> set fs \<and>
       present_fn (cfg s1) b sl f \<and> nvme_fn (cfg s1) b sl f}"
    by (rule Cons.IH [OF _ r(2) \<open>0 \<notin> set fs\<close> Cons.prems(4) fr(2) new(2)])
  show ?case
  proof (rule Cons.prems(1))
    show "func_loop (scan_function mc g b sl) (f # fs) (a, s) =
      (a \<or> (\<exists>f \<in> set (f # fs). present_fn (cfg s) b sl f \<and> nvme_fn (cfg s) b sl f), s')"
      using r(1,3) i(1) \<open>f \<noteq> 0\<close> by auto
    show "cfg s' = mark latch (cfg s) {(b', sl', f'). b' = b \<and> sl' = sl \<and> f' \<in> set (f # fs) \<and>
       present_fn (cfg s) b sl f' \<and> nvme_fn (cfg s) b sl f'}"
      unfolding i(3) r(3) mark_simps
      by (subst mark_mark) (use new(1) in \<open>auto intro!: arg_cong [where f = "mark latch (cfg s)"]\<close>)
  qed (rule i(2))
qed

text \<open>A step that marks what it finds.\<close>

definition marks :: "(bool \<times> 'p \<Rightarrow> bool \<times> 'p) \<Rightarrow> (config_table \<Rightarrow> (u8 \<times> u8 \<times> u8) set) \<Rightarrow> bool" where
  "marks step N \<longleftrightarrow> (\<forall>C P. N (mark latch C P) = N C) \<and>
     (\<forall>a s. inv s \<longrightarrow> (\<exists>s'. step (a, s) = (a \<or> N (cfg s) \<noteq> {}, s') \<and> inv s' \<and>
        cfg s' = mark latch (cfg s) (N (cfg s))))"

lemma marks_fold:
  assumes "\<And>x. x \<in> set xs \<Longrightarrow> marks (step x) (N x)" and "distinct xs"
    and "\<And>x y C. x \<noteq> y \<Longrightarrow> N x C \<inter> N y C = {}"
  shows "marks (fold step xs) (\<lambda>C. \<Union>x \<in> set xs. N x C)"
  using assms
proof (induction xs)
  case Nil
  then show ?case by (simp add: marks_def mark_empty)
next
  case (Cons x xs)
  have x: "marks (step x) (N x)" and xs: "marks (fold step xs) (\<lambda>C. \<Union>x \<in> set xs. N x C)"
    using Cons by simp_all
  have apart: "N x C \<inter> (\<Union>y \<in> set xs. N y C) = {}" for C
  proof -
    have "N x C \<inter> N y C = {}" if "y \<in> set xs" for y
      using Cons.prems(2) that by (intro Cons.prems(3)) auto
    then show ?thesis by blast
  qed
  show ?case
    unfolding marks_def
  proof (intro conjI allI impI)
    show "(\<Union>y \<in> set (x # xs). N y (mark latch C P)) = (\<Union>y \<in> set (x # xs). N y C)" for C P
      using Cons.prems(1) unfolding marks_def by simp
    fix a s assume "inv s"
    then obtain s1 where s1: "step x (a, s) = (a \<or> N x (cfg s) \<noteq> {}, s1)" "inv s1"
        "cfg s1 = mark latch (cfg s) (N x (cfg s))"
      using x unfolding marks_def by blast
    obtain s2 where s2: "fold step xs (a \<or> N x (cfg s) \<noteq> {}, s1) =
        ((a \<or> N x (cfg s) \<noteq> {}) \<or> (\<Union>x \<in> set xs. N x (cfg s1)) \<noteq> {}, s2)" "inv s2"
        "cfg s2 = mark latch (cfg s1) (\<Union>x \<in> set xs. N x (cfg s1))"
      using xs s1(2) unfolding marks_def by blast
    have eq: "(\<Union>x \<in> set xs. N x (cfg s1)) = (\<Union>x \<in> set xs. N x (cfg s))"
      using xs s1(3) unfolding marks_def by metis
    show "\<exists>s'. fold step (x # xs) (a, s) = (a \<or> (\<Union>y \<in> set (x # xs). N y (cfg s)) \<noteq> {}, s') \<and>
        inv s' \<and> cfg s' = mark latch (cfg s) (\<Union>y \<in> set (x # xs). N y (cfg s))"
    proof (intro exI [of _ s2] conjI)
      show "fold step (x # xs) (a, s) = (a \<or> (\<Union>y \<in> set (x # xs). N y (cfg s)) \<noteq> {}, s2)"
        using s1(1) s2(1) eq by auto
      show "cfg s2 = mark latch (cfg s) (\<Union>y \<in> set (x # xs). N y (cfg s))"
        using s1(3) s2(3) eq mark_mark [OF apart] by simp
    qed (rule s2(2))
  qed
qed

text \<open>What a slot contributes.\<close>

definition slot_places :: "u8 \<Rightarrow> u8 \<Rightarrow> config_table \<Rightarrow> (u8 \<times> u8 \<times> u8) set" where
  "slot_places b sl C = {(b', sl', f). b' = b \<and> sl' = sl \<and> f \<in> set funcs \<and> visible C b sl f \<and> nvme_fn C b sl f}"

lemma scan_slot_marks:
  assumes rng: "unat (sl :: u8) < 32"
  shows "marks (scan_slot mc g b sl) (slot_places b sl)"
  unfolding marks_def
proof (intro conjI allI impI)
  show "slot_places b sl (mark latch C P) = slot_places b sl C" for C P
    by (simp add: slot_places_def)
  fix a s assume s: "inv s"
  let ?C = "cfg s" and ?n = "\<lambda>f. present_fn (cfg s) b sl f \<and> nvme_fn (cfg s) b sl f"
  obtain s1 where s1: "scan_function mc g b sl 0 (a, s) =
      (0 = (0 :: u8) \<and> \<not> (present_fn ?C b sl 0 \<and> multi_fn ?C b sl), a \<or> ?n 0, s1)" "inv s1"
    "cfg s1 = mark latch ?C (if ?n 0 then {(b, sl, 0)} else {})"
    by (rule scan_function_step [OF s rng zero8])
  show "\<exists>s'. scan_slot mc g b sl (a, s) = (a \<or> slot_places b sl ?C \<noteq> {}, s') \<and> inv s' \<and>
      cfg s' = mark latch ?C (slot_places b sl ?C)"
  proof (cases "present_fn ?C b sl 0 \<and> multi_fn ?C b sl")
    case False
    then have "slot_places b sl ?C = (if ?n 0 then {(b, sl, 0)} else {})"
      by (auto simp: slot_places_def visible_def funcs_split(1))
    then show ?thesis
      using s1 False by (auto simp: scan_slot_def funcs_split(1))
  next
    case True
    obtain s2 where s2: "func_loop (scan_function mc g b sl) other_funcs (a \<or> ?n 0, s1) =
        ((a \<or> ?n 0) \<or> (\<exists>f \<in> set other_funcs. present_fn (cfg s1) b sl f \<and> nvme_fn (cfg s1) b sl f), s2)"
      "inv s2" "cfg s2 = mark latch (cfg s1) {(b', sl', f). b' = b \<and> sl' = sl \<and> f \<in> set other_funcs \<and>
        present_fn (cfg s1) b sl f \<and> nvme_fn (cfg s1) b sl f}"
      by (rule scan_other_functions [OF s1(2) funcs_split(2) rng funcs_split(3,4)])
    have pl: "slot_places b sl ?C = (if ?n 0 then {(b, sl, 0)} else {}) \<union>
        {(b', sl', f). b' = b \<and> sl' = sl \<and> f \<in> set other_funcs \<and> ?n f}"
      using True unfolding slot_places_def visible_def funcs_split(1) by (auto)
    have run: "scan_slot mc g b sl (a, s) =
        ((a \<or> ?n 0) \<or> (\<exists>f \<in> set other_funcs. ?n f), s2)"
      using s1(1,3) s2(1) True by (simp add: scan_slot_def funcs_split(1))
    define T where "T = {(b', sl', f). b' = b \<and> sl' = sl \<and> f \<in> set other_funcs \<and> ?n f}"
    define E where "E \<longleftrightarrow> (\<exists>f \<in> set other_funcs. ?n f)"
    have "T = Pair b ` Pair sl ` {f \<in> set other_funcs. ?n f}" unfolding T_def by auto
    then have "T = {} \<longleftrightarrow> {f \<in> set other_funcs. ?n f} = {}" by (simp only: image_is_empty)
    also have "\<dots> \<longleftrightarrow> \<not> E" unfolding E_def by blast
    finally have "slot_places b sl ?C = {} \<longleftrightarrow> \<not> ?n 0 \<and> \<not> E"
      unfolding pl T_def [symmetric] by (cases "?n 0") (simp_all only: if_True if_False Un_empty insert_not_empty simp_thms)
    then have found: "(a \<or> ?n 0) \<or> (\<exists>f \<in> set other_funcs. ?n f) \<longleftrightarrow> a \<or> slot_places b sl ?C \<noteq> {}"
      unfolding E_def [symmetric] by blast
    have marked: "cfg s2 = mark latch ?C (slot_places b sl ?C)"
      unfolding pl s2(3) s1(3) mark_simps by (rule mark_mark) (use funcs_split(2) in auto)
    show ?thesis
      by (intro exI [of _ s2] conjI, rule run [unfolded found], rule s2(2), rule marked)
  qed
qed

text \<open>The whole scan.\<close>

lemma scan_marks:
  "marks (scan_and_leach_resources mc g) (\<lambda>C. {p \<in> set all_places. p \<in> nvme_places C})"
proof -
  have sp: "slot_places b sl C \<inter> slot_places b' sl' C = {}" if "(b, sl) \<noteq> (b', sl')" for b sl b' sl' C
    using that by (auto simp: slot_places_def)
  have "marks (fold (\<lambda>sl. scan_slot mc g b sl) slots) (\<lambda>C. \<Union>sl \<in> set slots. slot_places b sl C)" for b
    by (rule marks_fold [OF scan_slot_marks distinct_slots sp]) (simp_all add: slots_range)
  then have "marks (fold (\<lambda>b. fold (\<lambda>sl. scan_slot mc g b sl) slots) buses)
      (\<lambda>C. \<Union>b \<in> set buses. \<Union>sl \<in> set slots. slot_places b sl C)"
    by (rule marks_fold [OF _ distinct_buses]) (use sp in \<open>fastforce simp: disjoint_iff\<close>)
  moreover have "(\<Union>b \<in> set buses. \<Union>sl \<in> set slots. slot_places b sl C)
      = {p \<in> set all_places. p \<in> nvme_places C}" for C
    by (auto simp: set_places slot_places_def nvme_places_def)
  moreover have "scan_and_leach_resources mc g = fold (\<lambda>b. fold (\<lambda>sl. scan_slot mc g b sl) slots) buses"
    by (intro ext) (simp add: scan_and_leach_resources_def)
  ultimately show ?thesis by simp
qed

lemma scan_all:
  assumes "inv s"
  shows "\<exists>s'. scan_and_leach_resources mc g (a, s) =
      (a \<or> {p \<in> set all_places. p \<in> nvme_places (cfg s)} \<noteq> {}, s') \<and> inv s' \<and>
      cfg s' = mark latch (cfg s) {p \<in> set all_places. p \<in> nvme_places (cfg s)}"
  using scan_marks assms unfolding marks_def by blast

end

section \<open>A machine with configuration ports\<close>

text \<open>Its command and status registers behave as the PCI standard has them: the command half is writable,
  the error bits of the status half are cleared by ones, the others are fixed.\<close>

definition pci_latch :: "u32 \<Rightarrow> u32 \<Rightarrow> u32" where
  "pci_latch old v = (v AND 0x0000FFFF) OR (old AND NOT v AND 0xF9000000) OR (old AND 0x06FF0000)"

record port_pci =
  pp_latch :: u32
  pp_regs :: "u32 \<Rightarrow> u32"

definition stored :: "port_pci \<Rightarrow> u32 \<Rightarrow> u32" where
  "stored s v = (if pp_latch s AND 0xFF = 4 then pci_latch (pp_regs s (pp_latch s)) v else v)"

definition port_machine :: "port_pci machine" where
  "port_machine = \<lparr>mmio_read8 = (\<lambda>a s. (0xFF, s)), mmio_read16 = (\<lambda>a s. (0xFFFF, s)),
     mmio_read32 = (\<lambda>a s. (0xFFFFFFFF, s)), mmio_write8 = (\<lambda>a v s. s), mmio_write16 = (\<lambda>a v s. s),
     mmio_write32 = (\<lambda>a v s. s),
     port_in32 = (\<lambda>port s. (if port = 0xCFC then pp_regs s (pp_latch s) else 0xFFFFFFFF, s)),
     port_out32 = (\<lambda>port v s. if port = 0xCF8 then s\<lparr>pp_latch := v\<rparr>
        else if port = 0xCFC then s\<lparr>pp_regs := (pp_regs s)(pp_latch s := stored s v)\<rparr> else s)\<rparr>"

definition port_cfg :: "port_pci \<Rightarrow> config_table" where
  "port_cfg s b sl f k =
     (if unat sl < 32 \<and> unat f < 8 \<and> k \<in> {0, 4, 8, 0x0C, 0x10, 0x14}
      then pp_regs s (config_address b sl f (ucast k)) else 0)"

lemma port_read32:
  "read32 port_machine empty_ECAMMap b sl f k s =
     (pp_regs s (config_address b sl f (ucast k)), s\<lparr>pp_latch := config_address b sl f (ucast k)\<rparr>)"
  by (simp add: read32_def ECAM_read32_def get_device_address_def empty_ECAMMap_def Let_def
      config_read32_def port_machine_def)

lemma command_register: "config_address b sl f 4 AND 0xFF = 4"
proof -
  have m: "(0xFF :: u32) = mask 8" by (simp add: mask_eq_exp_minus_1)
  have z: "push_bit n x AND 0xFF = 0" if "8 \<le> n" for n and x :: u32
    unfolding m by (rule bit_word_eqI) (use that in \<open>auto simp: bit_simps\<close>)
  show ?thesis by (simp add: config_address_def bit.conj_disj_distrib2 z)
qed

lemma port_write32:
  "write32 port_machine empty_ECAMMap b sl f 4 v s =
     s\<lparr>pp_latch := config_address b sl f 4,
       pp_regs := (pp_regs s)(config_address b sl f 4 := pci_latch (pp_regs s (config_address b sl f 4)) v)\<rparr>"
  by (simp add: write32_def ECAM_read32_def get_device_address_def empty_ECAMMap_def Let_def
      config_write32_def port_machine_def stored_def command_register)

text \<open>The address written to the first port is different for every function and register.\<close>

definition config_nat :: "u8 \<Rightarrow> u8 \<Rightarrow> u8 \<Rightarrow> u8 \<Rightarrow> nat" where
  "config_nat b sl f k = ((unat b * 32 + unat sl) * 8 + unat f) * 256 + unat k"

lemma config_address_nat:
  assumes "unat sl < 32" and "unat f < 8" and "k AND 0xFC = k"
  shows "config_address b sl f k = 0x80000000 + of_nat (config_nat b sl f k)"
    and "config_nat b sl f k < 2 ^ 31"
proof -
  have u: "unat (ucast (x :: u8) :: u32) = unat x" for x
    using unat_less [of x] by (simp add: unsigned_ucast_eq take_bit_nat_eq_self)
  have lt: "unat x < 256" for x :: u8 using unat_less [of x] by simp
  let ?b = "ucast b :: u32" and ?s = "ucast sl :: u32" and ?f = "ucast f :: u32" and ?k = "ucast k :: u32"
  have k: "?k AND 0xFC = ?k"
  proof -
    have "ucast (k AND 0xFC) = (ucast k AND ucast (0xFC :: u8) :: u32)" by (rule unsigned_and_eq)
    then show ?thesis using assms(3) by simp
  qed
  have f: "unat (push_bit 8 ?f) = unat f * 256"
    using assms(2) by (simp add: push_bit_eq_mult unat_word_ariths u)
  have s: "unat (push_bit 11 ?s) = unat sl * 2048"
    using assms(1) by (simp add: push_bit_eq_mult unat_word_ariths u)
  have b: "unat (push_bit 16 ?b) = unat b * 65536"
    using lt [of b] by (simp add: push_bit_eq_mult unat_word_ariths u)
  have add: "unat x + unat y < 2 ^ 32 \<Longrightarrow> unat (x + y) = unat x + unat y" for x y :: u32
    by (simp add: unat_word_ariths)
  have fk: "push_bit 8 ?f OR ?k = push_bit 8 ?f + ?k"
    using lt [of k] by (intro or_shifted) (simp add: u)
  have fkn: "unat (push_bit 8 ?f + ?k) = unat f * 256 + unat k"
    using assms(2) lt [of k] f by (subst add) (simp_all add: u)
  have sfk: "push_bit 11 ?s OR (push_bit 8 ?f + ?k) = push_bit 11 ?s + (push_bit 8 ?f + ?k)"
    using fkn assms(2) lt [of k] by (intro or_shifted) simp
  have sfkn: "unat (push_bit 11 ?s + (push_bit 8 ?f + ?k)) = unat sl * 2048 + (unat f * 256 + unat k)"
    using assms lt [of k] fkn s by (subst add) simp_all
  have all: "push_bit 16 ?b OR (push_bit 11 ?s + (push_bit 8 ?f + ?k))
      = push_bit 16 ?b + (push_bit 11 ?s + (push_bit 8 ?f + ?k))"
    using sfkn assms lt [of k] by (intro or_shifted) simp
  have alln: "unat (push_bit 16 ?b + (push_bit 11 ?s + (push_bit 8 ?f + ?k)))
      = unat b * 65536 + (unat sl * 2048 + (unat f * 256 + unat k))"
    using assms lt [of k] lt [of b] sfkn b by (subst add) simp_all
  have "push_bit 31 1 OR (push_bit 16 ?b + (push_bit 11 ?s + (push_bit 8 ?f + ?k)))
      = push_bit 31 1 + (push_bit 16 ?b + (push_bit 11 ?s + (push_bit 8 ?f + ?k)))"
    using alln assms lt [of k] lt [of b] by (intro or_shifted) simp
  then have "config_address b sl f k = 0x80000000 + (push_bit 16 ?b + (push_bit 11 ?s + (push_bit 8 ?f + ?k)))"
    unfolding config_address_def k using fk sfk all
    by (simp add: or.assoc) (simp add: or.commute push_bit_eq_mult)
  moreover have "push_bit 16 ?b + (push_bit 11 ?s + (push_bit 8 ?f + ?k)) = of_nat (config_nat b sl f k)"
    by (simp add: config_nat_def push_bit_eq_mult algebra_simps)
  ultimately show "config_address b sl f k = 0x80000000 + of_nat (config_nat b sl f k)" by simp
  show "config_nat b sl f k < 2 ^ 31"
    using assms lt [of k] lt [of b] by (simp add: config_nat_def)
qed

lemma config_address_eq:
  assumes "unat sl < 32" and "unat f < 8" and "k AND 0xFC = k"
    and "unat sl' < 32" and "unat f' < 8" and "k' AND 0xFC = k'"
  shows "config_address b sl f k = config_address b' sl' f' k' \<longleftrightarrow>
    b = b' \<and> sl = sl' \<and> f = f' \<and> k = k'"
proof -
  note e = config_address_nat [OF assms(1-3), of b] and e' = config_address_nat [OF assms(4-6), of b']
  have lt: "unat x < 256" for x :: u8 using unat_less [of x] by simp
  have "config_address b sl f k = config_address b' sl' f' k' \<longleftrightarrow>
      (of_nat (config_nat b sl f k) :: u32) = of_nat (config_nat b' sl' f' k')"
    unfolding e(1) e'(1) by simp
  also have "\<dots> \<longleftrightarrow> config_nat b sl f k = config_nat b' sl' f' k'"
  proof
    assume "(of_nat (config_nat b sl f k) :: u32) = of_nat (config_nat b' sl' f' k')"
    then have "unat (of_nat (config_nat b sl f k) :: u32) = unat (of_nat (config_nat b' sl' f' k') :: u32)"
      by simp
    then show "config_nat b sl f k = config_nat b' sl' f' k'"
      using e(2) e'(2) by (simp add: unat_of_nat)
  qed simp
  also have "\<dots> \<longleftrightarrow> b = b' \<and> sl = sl' \<and> f = f' \<and> k = k'"
    by (simp only: config_nat_def radix_eq [OF lt lt] radix_eq [OF assms(2,5)]
        radix_eq [OF assms(1,4)] word_unat_eq_iff [symmetric] conj_assoc)
  finally show ?thesis .
qed

lemma reg_offsets:
  assumes "k \<in> {0, 4, 8, 0x0C, 0x10, 0x14 :: u16}" and "k' \<in> {0, 4, 8, 0x0C, 0x10, 0x14 :: u16}"
  shows "(ucast k :: u8) AND 0xFC = ucast k" "ucast k = (ucast k' :: u8) \<longleftrightarrow> k = k'"
  using assms by auto

interpretation ports: pci_latched port_machine empty_ECAMMap "\<lambda>_. True" port_cfg "\<lambda>_ _ _. pci_latch"
proof unfold_locales
  fix s b sl f and k :: u16
  assume r: "unat (sl :: u8) < 32" "unat (f :: u8) < 8" and k: "k \<in> {0, 4, 8, 0x0C, 0x10, 0x14}"
  have "pp_regs (s\<lparr>pp_latch := x\<rparr>) = pp_regs s" for x and s :: port_pci by simp
  then have "port_cfg (s\<lparr>pp_latch := x\<rparr>) = port_cfg s" for x and s :: port_pci
    by (intro ext) (simp only: port_cfg_def)
  then show "\<exists>s'. read32 port_machine empty_ECAMMap b sl f k s = (port_cfg s b sl f k, s') \<and> True \<and>
      port_cfg s' = port_cfg s"
    using r k unfolding port_read32 by (simp add: port_cfg_def)
next
  fix s b sl f v
  assume r: "unat (sl :: u8) < 32" "unat (f :: u8) < 8"
  have four: "(4 :: u16) \<in> {0, 4, 8, 0x0C, 0x10, 0x14}" by simp
  have w: "port_cfg (write32 port_machine empty_ECAMMap b sl f 4 v s) b' sl' f' k' =
      (if k' = 4 \<and> (b', sl', f') = (b, sl, f) then pci_latch (port_cfg s b sl f 4) v else port_cfg s b' sl' f' k')"
    for b' sl' f' k'
  proof (cases "unat sl' < 32 \<and> unat f' < 8 \<and> k' \<in> {0, 4, 8, 0x0C, 0x10, 0x14}")
    case True
    then have "config_address b' sl' f' (ucast k') = config_address b sl f (ucast (4 :: u16)) \<longleftrightarrow>
        b' = b \<and> sl' = sl \<and> f' = f \<and> k' = 4"
      using r config_address_eq [of sl' f' "ucast k'" sl f "ucast (4 :: u16)" b' b]
        reg_offsets [of k' 4] reg_offsets [of 4 4] by auto
    then show ?thesis using True r unfolding port_write32 by (auto simp: port_cfg_def)
  next
    case False
    then show ?thesis using r unfolding port_write32 by (auto simp: port_cfg_def)
  qed
  then show "True \<and> port_cfg (write32 port_machine empty_ECAMMap b sl f 4 v s) =
      (\<lambda>b' sl' f' k. if k = 4 \<and> (b', sl', f') = (b, sl, f) then pci_latch (port_cfg s b sl f 4) v
        else port_cfg s b' sl' f' k)"
    by (intro conjI TrueI ext) (rule w)
qed

lemma find_unique: "p \<in> set xs \<Longrightarrow> P p \<Longrightarrow> (\<And>q. q \<in> set xs \<Longrightarrow> P q \<Longrightarrow> q = p) \<Longrightarrow> find P xs = Some p"
proof (induction xs)
  case Nil
  then show ?case unfolding list.set by (elim emptyE)
next
  case (Cons x xs)
  show ?case
  proof (cases "P x")
    case True
    then have "x = p" by (rule Cons.prems(3) [OF list.set_intros(1)])
    then show ?thesis using True by (simp only: find.simps if_True)
  next
    case False
    then have "p \<in> set xs" using Cons.prems(1,2) unfolding list.set by (elim insertE) simp_all
    then have "find P xs = Some p"
      by (rule Cons.IH [OF _ Cons.prems(2)]) (rule Cons.prems(3) [OF list.set_intros(2)])
    then show ?thesis using False by (simp only: find.simps if_False)
  qed
qed

text \<open>One NVMe controller at bus 0, slot 3, function 0, with a 64-bit BAR at 4 GiB + 0xFEB00000; a master
  abort is recorded in its status.\<close>

definition one_nvme :: port_pci where
  "one_nvme = \<lparr>pp_latch = 0, pp_regs = (\<lambda>a.
     if a = config_address 0 3 0 0 then 0x00101B36
     else if a = config_address 0 3 0 4 then 0x20100002
     else if a = config_address 0 3 0 8 then 0x01080200
     else if a = config_address 0 3 0 0x0C then 0
     else if a = config_address 0 3 0 0x10 then 0xFEB00004
     else if a = config_address 0 3 0 0x14 then 1
     else 0xFFFFFFFF)\<rparr>"

lemma one_nvme_regs:
  "port_cfg one_nvme 0 3 0 0 = 0x00101B36" "port_cfg one_nvme 0 3 0 4 = 0x20100002"
  "port_cfg one_nvme 0 3 0 8 = 0x01080200"
  "port_cfg one_nvme 0 3 0 0x0C = 0" "port_cfg one_nvme 0 3 0 0x10 = 0xFEB00004"
  "port_cfg one_nvme 0 3 0 0x14 = 1"
  by (simp_all add: port_cfg_def one_nvme_def config_address_def)

lemma one_nvme_empty:
  assumes "unat sl < 32" and "unat f < 8" and "(b, sl, f) \<noteq> (0, 3, 0)"
  shows "port_cfg one_nvme b sl f 0 = 0xFFFFFFFF"
proof -
  have k: "(k :: u8) AND 0xFC = k \<Longrightarrow> config_address b sl f 0 = config_address 0 3 0 k \<longleftrightarrow> False" for k
    using config_address_eq [of sl f 0 3 0 k b 0] assms by auto
  show ?thesis
    using assms(1,2) by (simp add: port_cfg_def one_nvme_def k)
qed

lemma one_nvme_there:
  "(0, 3, 0) \<in> set all_places" "(0, 3, 0) \<in> nvme_places (port_cfg one_nvme)"
proof -
  have "(0 :: u8) \<in> set buses" unfolding buses_def set_map by (rule image_eqI [of _ _ 0]) simp_all
  moreover have "(3 :: u8) \<in> set slots" unfolding slots_def set_map by (rule image_eqI [of _ _ 3]) simp_all
  moreover have "(0 :: u8) \<in> set funcs" unfolding funcs_def set_map by (rule image_eqI [of _ _ 0]) simp_all
  ultimately show "(0, 3, 0) \<in> set all_places" by (simp add: ports.set_places)
  show "(0, 3, 0) \<in> nvme_places (port_cfg one_nvme)"
    by (simp add: nvme_places_def visible_def nvme_fn_regs present_fn_regs one_nvme_regs vendor_id_def
        class_code_def subclass_code_def)
qed

lemma one_nvme_only:
  assumes "q \<in> set all_places" and "q \<in> nvme_places (port_cfg one_nvme)"
  shows "q = (0, 3, 0)"
proof (rule ccontr)
  obtain b sl f where q: "q = (b, sl, f)" by (cases q)
  assume "q \<noteq> (0, 3, 0)"
  moreover have "unat sl < 32" "unat f < 8"
    using assms(1) ports.slots_range unfolding q ports.set_places by auto
  ultimately have "port_cfg one_nvme b sl f 0 = 0xFFFFFFFF"
    using one_nvme_empty [of sl f b] q by simp
  then show False
    using assms(2) by (simp add: q nvme_places_def visible_def present_fn_regs vendor_id_def)
qed

lemma one_nvme_set: "{p \<in> set all_places. p \<in> nvme_places (port_cfg one_nvme)} = {(0, 3, 0)}"
  using one_nvme_there one_nvme_only by blast

lemma one_nvme_first:
  "find (\<lambda>p. p \<in> nvme_places (port_cfg one_nvme)) all_places = Some (0, 3, 0)"
  using one_nvme_there one_nvme_only by (intro find_unique)

section \<open>Starting the host\<close>

lemma initialize_idle:
  assumes "fst (initialize mc m mcfg g (False, s)) = g'"
    and "scan_and_leach_resources mc g' (False, s) = (a, s')"
  shows "initialize mc m mcfg g (False, s) = (g', a, s')"
  using assms by (cases a) (simp_all add: initialize_def is_active_def destroy_host_def
      release_resources_def Let_def split: if_splits)

lemma initialize_no_table: "fst (initialize mc m 0 g (False, s)) = g"
  by (simp add: initialize_def is_active_def Let_def)

lemma initialize_marks:
  assumes space: "pci_latched mc (fst (initialize mc m mcfg g (False, s))) good cfg latch" and "good s"
  obtains s' where "initialize mc m mcfg g (False, s) =
      (fst (initialize mc m mcfg g (False, s)), {p \<in> set all_places. p \<in> nvme_places (cfg s)} \<noteq> {}, s')"
    "good s'" "cfg s' = mark latch (cfg s) {p \<in> set all_places. p \<in> nvme_places (cfg s)}"
proof -
  define g' where "g' = fst (initialize mc m mcfg g (False, s))"
  obtain s' where s': "scan_and_leach_resources mc g' (False, s) =
        ({p \<in> set all_places. p \<in> nvme_places (cfg s)} \<noteq> {}, s')" "good s'"
      "cfg s' = mark latch (cfg s) {p \<in> set all_places. p \<in> nvme_places (cfg s)}"
    using pci_latched.scan_all [OF space [folded g'_def] \<open>good s\<close>, of False] unfolding simp_thms by blast
  show ?thesis
    using that s'(2,3) initialize_idle [OF g'_def [symmetric] s'(1)] unfolding g'_def [symmetric] by blast
qed

text \<open>C30: whichever way configuration space is reached, initialising an idle host looks at every
  visible function of every bus and becomes active exactly if one of them is an NVMe controller. To the
  command and status register of each of those controllers it writes, once, what it read there with the bus
  master bit set, and it writes nothing else; what the register then holds is up to the device.\<close>

theorem host_starts_iff_nvme:
  assumes space: "pci_latched mc (fst (initialize mc m mcfg g (False, s))) good cfg latch" and "good s"
  shows "\<exists>s'. initialize mc m mcfg g (False, s) =
      (fst (initialize mc m mcfg g (False, s)), {p \<in> set all_places. p \<in> nvme_places (cfg s)} \<noteq> {}, s')
    \<and> good s' \<and> cfg s' = mark latch (cfg s) {p \<in> set all_places. p \<in> nvme_places (cfg s)}"
  by (rule initialize_marks [OF assms]) blast

theorem host_starts_iff_nvme_witness:
  "\<exists>s'. initialize port_machine (\<lambda>_. 0) 0 empty_ECAMMap (False, one_nvme) = (empty_ECAMMap, True, s')
     \<and> port_cfg s' 0 3 0 4 = 0x00100006 \<and> port_cfg s' 0 3 0 0x10 = 0xFEB00004"
proof -
  have space: "pci_latched port_machine
      (fst (initialize port_machine (\<lambda>_. 0) 0 empty_ECAMMap (False, one_nvme))) (\<lambda>_. True) port_cfg (\<lambda>_ _ _. pci_latch)"
    unfolding initialize_no_table by (rule ports.pci_latched_axioms)
  obtain s' where "initialize port_machine (\<lambda>_. 0) 0 empty_ECAMMap (False, one_nvme)
      = (empty_ECAMMap, True, s')" "port_cfg s' = mark (\<lambda>_ _ _. pci_latch) (port_cfg one_nvme) {(0, 3, 0)}"
    using host_starts_iff_nvme [OF space TrueI] unfolding one_nvme_set initialize_no_table by auto
  then show ?thesis
    by (intro exI [of _ s']) (simp add: mark_def one_nvme_regs pci_latch_def)
qed

text \<open>C12: the address the NVMe driver is given is the one in BAR 0 of the first visible NVMe
  controller in the order of bus, slot and function, both halves of it if the BAR is a 64-bit one, and
  0 if the host is not active or nothing matches.\<close>

theorem find_nvme_bar0_first:
  assumes space: "pci_space mc g good cfg" and "good s"
  shows "fst (find_nvme_bar0 mc g (active, s)) =
    (if active then (case find (\<lambda>p. p \<in> nvme_places (cfg s)) all_places of
       None \<Rightarrow> 0 | Some p \<Rightarrow> bar0_of (cfg s) p) else 0)"
  using pci_space.find_nvme_first [OF space \<open>good s\<close>, of active] by (elim exE conjE) simp

theorem find_nvme_bar0_first_witness:
  "fst (find_nvme_bar0 port_machine empty_ECAMMap (True, one_nvme)) = 0x1FEB00000"
  using find_nvme_bar0_first [OF ports.pci_space_axioms TrueI, of True one_nvme]
  by (simp add: one_nvme_first bar0_of_regs one_nvme_regs is_64bit_bar_def bar_base_def)

end
