(* ===== verification/IBus.thy ===== *)
theory IBus
  imports Pcie DynArr ErrorCodes
begin

unbundle bit_operations_syntax

text \<open>
  The bus manager (\<^verbatim>\<open>include/AlopexOS/AlopexIBus/AlopexIBus.hpp\<close>,
  \<^verbatim>\<open>src/AlopexIBus/AlopexIBus.cpp\<close>): its constructor, which finds the MCFG table and starts the PCI
  Express host, the scan of the PCI bus through the configuration ports, and the lists of devices
  by bus, by deduced type and of storage devices, kept in the kernel's dynamic arrays. In the
  locale \<open>port_space\<close> the scan and the lists are computed from the table of registers.
\<close>

section \<open>Devices\<close>

datatype BusType = PCI | PCIe | NRZI | SERIAL | GPIO

datatype PhysicalDeducedType = Unknown | NVME | AHCI_SATA | USB_HOST | GENERIC_SERIAL_PORT
  | RAW_BLOCK_STORAGE | GPIO_CONTROLLER | GPIO_BITBANG_DEVICE

datatype BusLocation = Loc_pci (loc_bus: u8) (loc_device: u8) (loc_function: u8)
  | Loc_nrzi u8 u8 | Loc_serial u8 | Loc_gpio u8 u8 u8

record BusDeviceInfo =
  bus_type :: BusType
  deduced_type :: PhysicalDeducedType
  bd_vendor_id :: u16
  bd_device_id :: u16
  base_address :: u64
  io_port_base :: u32
  interrupt_line :: u8
  bd_name :: bytes
  location :: BusLocation

text \<open>\<^verbatim>\<open>BusDeviceInfo info{}\<close>; the first member of the union is the one that is cleared.\<close>

definition empty_BusDeviceInfo :: BusDeviceInfo where
  "empty_BusDeviceInfo = \<lparr>bus_type = PCIe, deduced_type = Unknown, bd_vendor_id = 0, bd_device_id = 0,
     base_address = 0, io_port_base = 0, interrupt_line = 0, bd_name = replicate 64 0,
     location = Loc_pci 0 0 0\<rparr>"

definition deduce_pci_type :: "u8 \<Rightarrow> u8 \<Rightarrow> u8 \<Rightarrow> PhysicalDeducedType" where
  "deduce_pci_type class_c subclass_c prog_if =
     (if class_c = 0x01 then
        (if subclass_c = 0x08 \<and> prog_if = 0x02 then NVME
         else if subclass_c = 0x06 \<and> prog_if = 0x01 then AHCI_SATA
         else RAW_BLOCK_STORAGE)
      else if class_c = 0x0C \<and> subclass_c = 0x03 then USB_HOST
      else Unknown)"

section \<open>The bus manager\<close>

text \<open>\<open>pcie_map\<close> and \<open>pcie_active\<close> are the fields of the one PCI Express host that \<^verbatim>\<open>_pcie\<close> points to.\<close>

record AlopexIBus =
  discovered_devices :: "BusDeviceInfo dynarr"
  filtered_results :: "BusDeviceInfo dynarr"
  storage_devices :: "BusDeviceInfo dynarr"
  hhdm_offset :: u64
  ib_mcfg :: u64
  pcie_map :: ECAMMap
  pcie_active :: bool

definition getPCIe :: "AlopexIBus \<Rightarrow> ECAMMap \<times> bool" where
  "getPCIe ib = (pcie_map ib, pcie_active ib)"

definition get_hhdm_offset :: "AlopexIBus \<Rightarrow> u64" where "get_hhdm_offset ib = hhdm_offset ib"

definition ibus_fields :: AlopexIBus where
  "ibus_fields = \<lparr>discovered_devices = dyn_init, filtered_results = dyn_init, storage_devices = dyn_init,
     hhdm_offset = 0, ib_mcfg = 0, pcie_map = empty_ECAMMap, pcie_active = False\<rparr>"

text \<open>The constructor. The two arguments are the boot loader's answers: the offset of the higher half
  map and the address of the RSDP, absent where the response pointer is null.\<close>

definition rsdt_address :: "memory \<Rightarrow> u64 \<Rightarrow> u64" where
  "rsdt_address m rsdp = ucast (mem32 m (rsdp + 16))"

definition AlopexIBus_ctor ::
    "'p machine \<Rightarrow> memory \<Rightarrow> u64 option \<Rightarrow> u64 option \<Rightarrow> 'p \<Rightarrow> AlopexIBus \<times> 'p" where
  "AlopexIBus_ctor mc m hhdm rsdp_response s =
     (let ib = (case hhdm of Some off \<Rightarrow> ibus_fields\<lparr>hhdm_offset := off\<rparr> | None \<Rightarrow> ibus_fields);
          mcfg = (case rsdp_response of
              Some rsdp \<Rightarrow> if rsdp \<noteq> 0 then locate_acpi_table_mcfg m (rsdt_address m rsdp) else ib_mcfg ib
            | None \<Rightarrow> ib_mcfg ib)
      in (case initialize mc m mcfg (pcie_map ib) (pcie_active ib, s) of (g, a, s') \<Rightarrow>
            (ib\<lparr>ib_mcfg := mcfg, pcie_map := g, pcie_active := a\<rparr>, s')))"

section \<open>Scanning\<close>

definition pci_addr :: "u16 \<Rightarrow> u8 \<Rightarrow> u8 \<Rightarrow> u32" where
  "pci_addr bus dev func =
     push_bit 31 1 OR push_bit 16 (ucast bus) OR push_bit 11 (ucast dev) OR push_bit 8 (ucast func)"

definition port_read :: "'p machine \<Rightarrow> u32 \<Rightarrow> 'p \<Rightarrow> u32 \<times> 'p" where
  "port_read mc addr s = port_in32 mc 0xCFC (port_out32 mc 0xCF8 addr s)"

definition device_info :: "u8 \<Rightarrow> u8 \<Rightarrow> u8 \<Rightarrow> u32 \<Rightarrow> u32 \<Rightarrow> u32 \<Rightarrow> BusDeviceInfo" where
  "device_info bus dev func vendor_device class_rev bar0 =
     (let prog_if = ucast (drop_bit 8 class_rev AND 0xFF);
          subclass_c = ucast (drop_bit 16 class_rev AND 0xFF);
          class_c = ucast (drop_bit 24 class_rev AND 0xFF)
      in empty_BusDeviceInfo\<lparr>bus_type := PCIe, bd_vendor_id := ucast (vendor_device AND 0xFFFF),
           bd_device_id := ucast (drop_bit 16 vendor_device AND 0xFFFF),
           base_address := ucast (bar0 AND NOT 0x0F), location := Loc_pci bus dev func,
           deduced_type := deduce_pci_type class_c subclass_c prog_if\<rparr>)"

text \<open>One turn of the innermost loop.\<close>

definition scan_pci_function :: "'p machine \<Rightarrow> u16 \<Rightarrow> u8 \<Rightarrow> u8 \<Rightarrow>
    BusDeviceInfo dynarr \<times> 'p \<Rightarrow> (BusDeviceInfo dynarr \<times> 'p) option" where
  "scan_pci_function mc bus dev func st = (case st of (devs, s) \<Rightarrow>
     (case port_read mc (pci_addr bus dev func) s of (vendor_device, s1) \<Rightarrow>
        if (ucast (vendor_device AND 0xFFFF) :: u16) = 0xFFFF then Some (devs, s1)
        else (case port_read mc (pci_addr bus dev func OR 0x08) s1 of (class_rev, s2) \<Rightarrow>
             (case port_read mc (pci_addr bus dev func OR 0x10) s2 of (bar0, s3) \<Rightarrow>
               map_option (\<lambda>d. (d, s3))
                 (dyn_push_back devs (device_info (ucast bus) dev func vendor_device class_rev bar0))))))"

fun each :: "('a \<Rightarrow> 's \<Rightarrow> 's option) \<Rightarrow> 'a list \<Rightarrow> 's \<Rightarrow> 's option" where
  "each f [] st = Some st"
| "each f (x # xs) st = Option.bind (f x st) (each f xs)"

definition scan_pci_bus :: "'p machine \<Rightarrow> AlopexIBus \<times> 'p \<Rightarrow> (errorCode \<times> AlopexIBus \<times> 'p) option" where
  "scan_pci_bus mc st =
     map_option (\<lambda>(devs, s). (Success, (fst st)\<lparr>discovered_devices := devs\<rparr>, s))
       (each (\<lambda>bus. each (\<lambda>dev. each (scan_pci_function mc bus dev) (map of_nat [0..<8]))
          (map of_nat [0..<32])) (map of_nat [0..<256]) (discovered_devices (fst st), snd st))"

definition scan_gpio_bus :: "AlopexIBus \<times> 'p \<Rightarrow> errorCode \<times> AlopexIBus \<times> 'p" where
  "scan_gpio_bus st = (Success, st)"

definition scan_all_buses :: "'p machine \<Rightarrow> AlopexIBus \<times> 'p \<Rightarrow> (errorCode \<times> AlopexIBus \<times> 'p) option" where
  "scan_all_buses mc st =
     (case st of (ib, s) \<Rightarrow>
        map_option (\<lambda>(e, st'). (Success, snd (scan_gpio_bus st')))
          (scan_pci_bus mc (ib\<lparr>discovered_devices := dyn_clear (discovered_devices ib)\<rparr>, s)))"

section \<open>The lists\<close>

text \<open>The body the three loops share: copy the elements that pass the test.\<close>

definition copy_matching :: "('a \<Rightarrow> bool) \<Rightarrow> 'a dynarr \<Rightarrow> nat \<Rightarrow> 'a dynarr \<Rightarrow> 'a dynarr option" where
  "copy_matching P src i dst = do {
     x \<leftarrow> dyn_index src i;
     if P x then dyn_push_back dst x else Some dst }"

definition is_storage_type :: "PhysicalDeducedType \<Rightarrow> bool" where
  "is_storage_type ty \<longleftrightarrow> ty = NVME \<or> ty = AHCI_SATA \<or> ty = RAW_BLOCK_STORAGE"

definition get_storage_devices :: "AlopexIBus \<Rightarrow> AlopexIBus option" where
  "get_storage_devices ib =
     map_option (\<lambda>d. ib\<lparr>storage_devices := d\<rparr>)
       (each (copy_matching (\<lambda>x. is_storage_type (deduced_type x)) (discovered_devices ib))
          [0..<size_field (discovered_devices ib)] (dyn_clear (storage_devices ib)))"

definition get_devices_by_bus :: "BusType \<Rightarrow> AlopexIBus \<Rightarrow> AlopexIBus option" where
  "get_devices_by_bus bus ib =
     map_option (\<lambda>d. ib\<lparr>filtered_results := d\<rparr>)
       (each (copy_matching (\<lambda>x. bus_type x = bus) (discovered_devices ib))
          [0..<size_field (discovered_devices ib)] (dyn_clear (filtered_results ib)))"

definition get_devices_by_deduced_type :: "PhysicalDeducedType \<Rightarrow> AlopexIBus \<Rightarrow> AlopexIBus option" where
  "get_devices_by_deduced_type ty ib =
     map_option (\<lambda>d. ib\<lparr>filtered_results := d\<rparr>)
       (each (copy_matching (\<lambda>x. deduced_type x = ty) (discovered_devices ib))
          [0..<size_field (discovered_devices ib)] (dyn_clear (filtered_results ib)))"

definition ibus_inv :: "AlopexIBus \<Rightarrow> bool" where
  "ibus_inv ib \<longleftrightarrow> dyn_inv (discovered_devices ib) \<and> dyn_inv (filtered_results ib) \<and> dyn_inv (storage_devices ib)"

section \<open>Loops over arrays\<close>

lemma each_invariant:
  assumes "\<And>x st. x \<in> set xs \<Longrightarrow> I st \<Longrightarrow> \<exists>st'. f x st = Some st' \<and> I st' \<and> A st' = A st @ g x"
    and "I st"
  shows "\<exists>st'. each f xs st = Some st' \<and> I st' \<and> A st' = A st @ concat (map g xs)"
  using assms
proof (induction xs arbitrary: st)
  case Nil
  then show ?case by simp
next
  case (Cons x xs)
  obtain s1 where s1: "f x st = Some s1" "I s1" "A s1 = A st @ g x"
    using Cons.prems(1) [of x st] Cons.prems(2) by auto
  obtain s2 where s2: "each f xs s1 = Some s2" "I s2" "A s2 = A s1 @ concat (map g xs)"
    using Cons.IH [OF Cons.prems(1) s1(2)] by (metis list.set_intros(2))
  show ?case using s1 s2 by (intro exI [of _ s2]) simp
qed

lemma concat_map_if: "concat (map (\<lambda>x. if P x then [g x] else []) xs) = map g (filter P xs)"
  by (induction xs) simp_all

lemma copy_all:
  assumes src: "dyn_inv src" and "dyn_inv dst"
  shows "\<exists>d. each (copy_matching P src) [0..<size_field src] (dyn_clear dst) = Some d \<and> dyn_inv d \<and>
     dyn_abs d = filter P (dyn_abs src)"
proof -
  have step: "\<exists>d'. copy_matching P src i d = Some d' \<and> dyn_inv d' \<and>
      dyn_abs d' = dyn_abs d @ (if P (dyn_abs src ! i) then [dyn_abs src ! i] else [])"
    if ix: "i \<in> set [0..<size_field src]" and inv: "dyn_inv d" for i d
  proof (cases "P (dyn_abs src ! i)")
    case True
    obtain d' where "dyn_push_back d (dyn_abs src ! i) = Some d'" "dyn_inv d'"
        "dyn_abs d' = dyn_abs d @ [dyn_abs src ! i]"
      by (rule dyn_push_back_correct [OF inv, of "dyn_abs src ! i"])
    then show ?thesis
      using ix True src by (simp add: copy_matching_def dyn_index_correct size_field_abs)
  next
    case False
    then show ?thesis
      using ix inv False src by (simp add: copy_matching_def dyn_index_correct size_field_abs)
  qed
  have cat: "concat (map (\<lambda>i. if P (xs ! i) then [xs ! i] else []) [0..<length xs]) = filter P xs" for xs
  proof -
    have "map (\<lambda>i. if P (xs ! i) then [xs ! i] else []) [0..<length xs] = map (\<lambda>x. if P x then [x] else []) xs"
      by (rule nth_equalityI) simp_all
    then show ?thesis by (simp add: concat_map_if [of P "\<lambda>x. x", simplified])
  qed
  show ?thesis
    using each_invariant [of "[0..<size_field src]" dyn_inv "copy_matching P src" dyn_abs
        "\<lambda>i. if P (dyn_abs src ! i) then [dyn_abs src ! i] else []" "dyn_clear dst", OF step]
      dyn_clear_correct [OF assms(2)] cat [of "dyn_abs src"] src by (simp add: size_field_abs)
qed

section \<open>What the bus manager finds\<close>

definition device_of :: "config_table \<Rightarrow> u8 \<times> u8 \<times> u8 \<Rightarrow> BusDeviceInfo" where
  "device_of C p = (case p of (b, sl, f) \<Rightarrow> device_info b sl f (C b sl f 0) (C b sl f 8) (C b sl f 0x10))"

definition present_places :: "config_table \<Rightarrow> (u8 \<times> u8 \<times> u8) list" where
  "present_places C = filter (\<lambda>(b, sl, f). present_fn C b sl f) all_places"

lemma pci_addr_config:
  assumes "n < 256"
  shows "pci_addr (of_nat n) dev func = config_address (of_nat n) dev func 0"
    and "pci_addr (of_nat n) dev func OR 0x08 = config_address (of_nat n) dev func 8"
    and "pci_addr (of_nat n) dev func OR 0x10 = config_address (of_nat n) dev func 0x10"
proof -
  have n: "(ucast (of_nat n :: u16) :: u32) = ucast (of_nat n :: u8)"
    using assms by (simp add: word_unat_eq_iff unsigned_ucast_eq unat_of_nat take_bit_nat_eq_self)
  have k: "(ucast (0 :: u8) :: u32) AND 0xFC = 0" "(ucast (8 :: u8) :: u32) AND 0xFC = 0x08"
    "(ucast (0x10 :: u8) :: u32) AND 0xFC = 0x10" by simp_all
  have p: "(push_bit 31 1 :: u32) = 0x80000000" by simp
  show "pci_addr (of_nat n) dev func = config_address (of_nat n) dev func 0"
    "pci_addr (of_nat n) dev func OR 0x08 = config_address (of_nat n) dev func 8"
    "pci_addr (of_nat n) dev func OR 0x10 = config_address (of_nat n) dev func 0x10"
    unfolding pci_addr_def config_address_def n k p or.assoc or.right_neutral by (simp_all only: or.assoc or.commute or.left_commute)
qed

lemma config_read32_read32: "read32 mc empty_ECAMMap b sl f k s = config_read32 mc b sl f (ucast k) s"
  by (simp add: read32_def ECAM_read32_def get_device_address_def empty_ECAMMap_def Let_def)

locale port_space = pci_space mc empty_ECAMMap inv cfg
  for mc :: "'p machine" and inv :: "'p \<Rightarrow> bool" and cfg :: "'p \<Rightarrow> config_table"
begin

lemma port_read:
  assumes "inv s" and "n < 256" and "unat sl < 32" and "unat f < 8"
  shows "\<exists>s'. port_read mc (pci_addr (of_nat n) sl f) s = (cfg s (of_nat n) sl f 0, s') \<and> inv s' \<and> cfg s' = cfg s"
    and "\<exists>s'. port_read mc (pci_addr (of_nat n) sl f OR 0x08) s = (cfg s (of_nat n) sl f 8, s') \<and> inv s' \<and> cfg s' = cfg s"
    and "\<exists>s'. port_read mc (pci_addr (of_nat n) sl f OR 0x10) s = (cfg s (of_nat n) sl f 0x10, s') \<and> inv s' \<and> cfg s' = cfg s"
proof -
  have r: "\<exists>s'. port_read mc (config_address (of_nat n) sl f (ucast k)) s = (cfg s (of_nat n) sl f k, s') \<and> inv s' \<and> cfg s' = cfg s"
    if "k \<in> {0, 4, 8, 0x0C, 0x10, 0x14}" for k :: u16
    using read_law [OF assms(1,3,4) that, of "of_nat n"]
    unfolding config_read32_read32 config_read32_def port_read_def .
  note a = pci_addr_config [OF assms(2), of sl f]
  show "\<exists>s'. port_read mc (pci_addr (of_nat n) sl f) s = (cfg s (of_nat n) sl f 0, s') \<and> inv s' \<and> cfg s' = cfg s"
    unfolding a(1) using r [of 0] by simp
  show "\<exists>s'. port_read mc (pci_addr (of_nat n) sl f OR 0x08) s = (cfg s (of_nat n) sl f 8, s') \<and> inv s' \<and> cfg s' = cfg s"
    unfolding a(2) using r [of 8] by simp
  show "\<exists>s'. port_read mc (pci_addr (of_nat n) sl f OR 0x10) s = (cfg s (of_nat n) sl f 0x10, s') \<and> inv s' \<and> cfg s' = cfg s"
    unfolding a(3) using r [of "0x10"] by simp
qed

definition scanning :: "config_table \<Rightarrow> BusDeviceInfo dynarr \<times> 'p \<Rightarrow> bool" where
  "scanning C st \<longleftrightarrow> dyn_inv (fst st) \<and> inv (snd st) \<and> cfg (snd st) = C"

definition found :: "BusDeviceInfo dynarr \<times> 'p \<Rightarrow> BusDeviceInfo list" where "found st = dyn_abs (fst st)"

lemma scan_pci_function_step:
  assumes "scanning C st" and n: "n < 256" and sl: "unat sl < 32" and f: "unat f < 8"
  shows "\<exists>st'. scan_pci_function mc (of_nat n) sl f st = Some st' \<and> scanning C st' \<and>
    found st' = found st @ (if present_fn C (of_nat n) sl f then [device_of C (of_nat n, sl, f)] else [])"
proof -
  obtain devs s where st: "st = (devs, s)" "dyn_inv devs" "inv s" "cfg s = C"
    using assms(1) by (cases st) (auto simp: scanning_def)
  obtain s1 where r1: "port_read mc (pci_addr (of_nat n) sl f) s = (C (of_nat n) sl f 0, s1)" "inv s1" "cfg s1 = C"
    using port_read(1) [OF st(3) n sl f] st(4) by auto
  show ?thesis
  proof (cases "present_fn C (of_nat n) sl f")
    case False
    then show ?thesis
      using r1 st by (simp add: scan_pci_function_def present_fn_regs vendor_id_def scanning_def found_def)
  next
    case True
    obtain s2 where r2: "port_read mc (pci_addr (of_nat n) sl f OR 0x08) s1 = (C (of_nat n) sl f 8, s2)" "inv s2" "cfg s2 = C"
      using port_read(2) [OF r1(2) n sl f] r1(3) by auto
    obtain s3 where r3: "port_read mc (pci_addr (of_nat n) sl f OR 0x10) s2 = (C (of_nat n) sl f 0x10, s3)" "inv s3" "cfg s3 = C"
      using port_read(3) [OF r2(2) n sl f] r2(3) by auto
    have n8: "(ucast (of_nat n :: u16) :: u8) = of_nat n"
      using n by (simp add: word_unat_eq_iff unsigned_ucast_eq unat_of_nat take_bit_nat_eq_self)
    obtain d where "dyn_push_back devs (device_of C (of_nat n, sl, f)) = Some d" "dyn_inv d"
        "dyn_abs d = dyn_abs devs @ [device_of C (of_nat n, sl, f)]"
      by (rule dyn_push_back_correct [OF st(2), of "device_of C (of_nat n, sl, f)"])
    then show ?thesis
      using r1 r2 r3 True st by (simp add: scan_pci_function_def present_fn_regs vendor_id_def scanning_def
          found_def device_of_def n8)
  qed
qed

lemma scan_pci_buses:
  assumes "scanning C st"
  shows "\<exists>st'. each (\<lambda>bus. each (\<lambda>dev. each (scan_pci_function mc bus dev) (map of_nat [0..<8]))
          (map of_nat [0..<32])) (map of_nat [0..<256]) st = Some st' \<and> scanning C st' \<and>
    found st' = found st @ map (device_of C) (present_places C)"
proof -
  let ?one = "\<lambda>n sl f. if present_fn C (of_nat n) sl f then [device_of C (of_nat n, sl, f)] else []"
  let ?dev = "\<lambda>n sl. concat (map (?one n sl) funcs)"
  let ?bus = "\<lambda>n. concat (map (?dev n) slots)"
  have dev: "\<exists>st'. each (scan_pci_function mc (of_nat n) sl) funcs st = Some st' \<and> scanning C st' \<and>
      found st' = found st @ ?dev n sl" if "n < 256" "unat sl < 32" "scanning C st" for n sl st
    using that by (intro each_invariant scan_pci_function_step) (auto simp: slots_range)
  have bus: "\<exists>st'. each (\<lambda>sl. each (scan_pci_function mc (of_nat n) sl) funcs) slots st = Some st' \<and>
      scanning C st' \<and> found st' = found st @ ?bus n" if "n < 256" "scanning C st" for n st
    using that by (intro each_invariant dev) (auto simp: slots_range)
  have "\<exists>st'. each (\<lambda>n. each (\<lambda>sl. each (scan_pci_function mc (of_nat n) sl) funcs) slots) [0..<256] st = Some st' \<and>
      scanning C st' \<and> found st' = found st @ concat (map ?bus [0..<256])"
    using assms by (intro each_invariant bus) auto
  moreover have "each (\<lambda>bus. each (\<lambda>dev. each (scan_pci_function mc bus dev) funcs) slots) (map of_nat ns) st =
      each (\<lambda>n. each (\<lambda>sl. each (scan_pci_function mc (of_nat n) sl) funcs) slots) ns st" for ns st
    by (induction ns arbitrary: st) (auto split: bind_split)
  moreover have "concat (map ?bus [0..<256]) = map (device_of C) (present_places C)"
    by (simp add: present_places_def all_places_def buses_def filter_concat map_concat comp_def
        filter_map concat_map_if)
  ultimately show ?thesis unfolding slots_def funcs_def by simp
qed

end

lemma storage_type_class: "is_storage_type (deduced_type (device_of C (b, sl, f))) \<longleftrightarrow> class_code (C b sl f 8) = 1"
proof -
  have "drop_bit 24 w AND 0xFF = (drop_bit 24 w :: u32)" for w
  proof -
    have "unat (drop_bit 24 w) < 2 ^ 8"
      using unat_less [of w] by (simp add: drop_bit_eq_div unat_div_distrib less_mult_imp_div_less)
    then have "take_bit 8 (drop_bit 24 w) = drop_bit 24 w"
      by (simp add: word_unat_eq_iff unsigned_take_bit_eq take_bit_nat_eq_self)
    then show ?thesis by (simp add: take_bit_eq_mask mask_eq_exp_minus_1)
  qed
  then show ?thesis
    by (simp add: device_of_def device_info_def deduce_pci_type_def is_storage_type_def class_code_def Let_def)
qed

lemma get_storage_devices_correct:
  assumes "ibus_inv ib"
  shows "\<exists>ib'. get_storage_devices ib = Some ib' \<and> ibus_inv ib' \<and> dyn_abs (storage_devices ib') =
    filter (\<lambda>x. is_storage_type (deduced_type x)) (dyn_abs (discovered_devices ib))"
  using copy_all [of "discovered_devices ib" "storage_devices ib" "\<lambda>x. is_storage_type (deduced_type x)"] assms
  by (auto simp: get_storage_devices_def ibus_inv_def)

lemma scan_all_buses_correct:
  assumes space: "port_space mc good cfg" and "good s" and ib: "ibus_inv ib"
  obtains ib' s' where "scan_all_buses mc (ib, s) = Some (Success, ib', s')" "ibus_inv ib'" "good s'"
    "cfg s' = cfg s" "dyn_abs (discovered_devices ib') = map (device_of (cfg s)) (present_places (cfg s))"
proof -
  let ?ib0 = "ib\<lparr>discovered_devices := dyn_clear (discovered_devices ib)\<rparr>"
  have "port_space.scanning good cfg (cfg s) (dyn_clear (discovered_devices ib), s)"
    using assms(2) dyn_clear_correct(1) [of "discovered_devices ib"] ib
    by (simp add: port_space.scanning_def [OF space] ibus_inv_def)
  then obtain devs s' where r: "each (\<lambda>bus. each (\<lambda>dev. each (scan_pci_function mc bus dev) (map of_nat [0..<8]))
          (map of_nat [0..<32])) (map of_nat [0..<256]) (dyn_clear (discovered_devices ib), s) = Some (devs, s')"
      "dyn_inv devs" "good s'" "cfg s' = cfg s"
      "dyn_abs devs = map (device_of (cfg s)) (present_places (cfg s))"
    using port_space.scan_pci_buses [OF space, of "cfg s" "(dyn_clear (discovered_devices ib), s)"]
      dyn_clear_correct [of "discovered_devices ib"] ib
    by (auto simp: port_space.scanning_def [OF space] port_space.found_def [OF space] ibus_inv_def)
  show ?thesis
    using that [of "ib\<lparr>discovered_devices := devs\<rparr>" s'] r ib
    by (simp add: scan_all_buses_def scan_pci_bus_def scan_gpio_bus_def ibus_inv_def)
qed

interpretation ibus_ports: port_space port_machine "\<lambda>_. True" port_cfg
  by (rule port_space.intro) (rule ports.pci_space_axioms)

lemma ibus_fields_inv: "ibus_inv ibus_fields"
  by (simp add: ibus_inv_def ibus_fields_def dyn_init_correct)

lemma one_nvme_present: "set (present_places (port_cfg one_nvme)) = {(0, 3, 0)}"
proof -
  have "(b, sl, f) = (0, 3, 0)" if "(b, sl, f) \<in> set all_places" "present_fn (port_cfg one_nvme) b sl f" for b sl f
  proof (rule ccontr)
    assume "(b, sl, f) \<noteq> (0, 3, 0)"
    moreover have "unat sl < 32" "unat f < 8"
      using that(1) ports.slots_range unfolding ports.set_places by auto
    ultimately have "port_cfg one_nvme b sl f 0 = 0xFFFFFFFF" by (intro one_nvme_empty)
    then show False using that(2) by (simp add: present_fn_regs vendor_id_def)
  qed
  moreover have "present_fn (port_cfg one_nvme) 0 3 0"
    by (simp add: present_fn_regs one_nvme_regs vendor_id_def)
  ultimately have "(b, sl, f) \<in> set (present_places (port_cfg one_nvme)) \<longleftrightarrow> (b, sl, f) = (0, 3, 0)" for b sl f
    using one_nvme_there(1) unfolding present_places_def set_filter mem_Collect_eq prod.case by blast
  then show ?thesis by (intro set_eqI) (simp only: split_paired_all singleton_iff)
qed

section \<open>Properties\<close>

text \<open>C23: scanning finds exactly the PCI functions whose vendor id is not all ones, each once, in the
  order of bus, device and function, with the fields their registers give; it never runs outside its
  arrays and it leaves configuration space as it was.\<close>

theorem scan_lists_present_functions:
  assumes "port_space mc good cfg" and "good s" and "ibus_inv ib"
  shows "\<exists>ib' s'. scan_all_buses mc (ib, s) = Some (Success, ib', s') \<and> ibus_inv ib' \<and> good s' \<and>
    cfg s' = cfg s \<and>
    dyn_abs (discovered_devices ib') = map (device_of (cfg s)) (present_places (cfg s))"
  by (rule scan_all_buses_correct [OF assms]) blast

theorem scan_lists_present_functions_witness:
  "\<exists>ib' s'. scan_all_buses port_machine (ibus_fields, one_nvme) = Some (Success, ib', s') \<and>
     set (dyn_abs (discovered_devices ib')) =
       {empty_BusDeviceInfo\<lparr>bus_type := PCIe, deduced_type := NVME, bd_vendor_id := 0x1B36, bd_device_id := 0x10,
          base_address := 0xFEB00000, location := Loc_pci 0 3 0\<rparr>}"
proof -
  have d: "device_of (port_cfg one_nvme) (0, 3, 0) = empty_BusDeviceInfo\<lparr>bus_type := PCIe, deduced_type := NVME,
      bd_vendor_id := 0x1B36, bd_device_id := 0x10, base_address := 0xFEB00000, location := Loc_pci 0 3 0\<rparr>"
    by (simp add: device_of_def device_info_def one_nvme_regs deduce_pci_type_def Let_def)
  show ?thesis
    using scan_lists_present_functions [OF ibus_ports.port_space_axioms TrueI ibus_fields_inv, of one_nvme]
    by (elim exE conjE) (simp add: one_nvme_present d)
qed

text \<open>The storage devices after a scan are exactly the present functions whose class code is 1,
  mass storage, in the order of the scan.\<close>

theorem storage_devices_are_class_1:
  assumes "port_space mc good cfg" and "good s" and "ibus_inv ib"
  shows "map_option (\<lambda>ib'. dyn_abs (storage_devices ib'))
      (Option.bind (scan_all_buses mc (ib, s)) (\<lambda>(e, ib', s'). get_storage_devices ib')) =
    Some (map (device_of (cfg s))
      (filter (\<lambda>(b, sl, f). class_code (cfg s b sl f 8) = 1) (present_places (cfg s))))"
proof -
  obtain ib1 s1 where r: "scan_all_buses mc (ib, s) = Some (Success, ib1, s1)" "ibus_inv ib1"
      "dyn_abs (discovered_devices ib1) = map (device_of (cfg s)) (present_places (cfg s))"
    by (rule scan_all_buses_correct [OF assms])
  obtain ib2 where "get_storage_devices ib1 = Some ib2" "dyn_abs (storage_devices ib2) =
      filter (\<lambda>x. is_storage_type (deduced_type x)) (dyn_abs (discovered_devices ib1))"
    using get_storage_devices_correct [OF r(2)] by blast
  moreover have "(\<lambda>x. is_storage_type (deduced_type x)) \<circ> device_of (cfg s) =
      (\<lambda>(b, sl, f). class_code (cfg s b sl f 8) = 1)"
    by (intro ext) (simp add: storage_type_class split: prod.split)
  ultimately show ?thesis using r by (simp add: filter_map)
qed

theorem storage_devices_are_class_1_witness:
  "map_option (\<lambda>ib'. set (dyn_abs (storage_devices ib')))
      (Option.bind (scan_all_buses port_machine (ibus_fields, one_nvme)) (\<lambda>(e, ib', s'). get_storage_devices ib')) =
    Some {device_of (port_cfg one_nvme) (0, 3, 0)}"
proof -
  have "{p \<in> set (present_places (port_cfg one_nvme)). case p of (b, sl, f) \<Rightarrow> class_code (port_cfg one_nvme b sl f 8) = 1}
      = {(0, 3, 0)}"
    unfolding one_nvme_present by (auto simp: one_nvme_regs class_code_def)
  then show ?thesis
    using arg_cong [OF storage_devices_are_class_1 [OF ibus_ports.port_space_axioms TrueI ibus_fields_inv, of one_nvme],
        of "map_option set"]
    by (simp add: option.map_comp comp_def)
qed

end
