(* ===== verification/PciLayout.thy ===== *)
theory PciLayout
  imports Pcie IBus
begin

unbundle bit_operations_syntax

text \<open>
  The configuration header of a PCI function (\<^verbatim>\<open>include/AlopexOS/PCI/pci.hpp\<close>): the packed structures
  with their bytes, and that the registers and shifts the host and the bus use reach the fields of that
  header. The class \<^verbatim>\<open>Device\<close> of that file only declares its operations.
\<close>

section \<open>The structures\<close>

record CommonHeader =
  ch_vendor_id :: u16
  ch_device_id :: u16
  ch_command :: u16
  ch_status :: u16
  ch_revision_id :: u8
  ch_program_interface :: u8
  ch_subclass :: u8
  ch_class_code :: u8
  ch_cache_line_size :: u8
  ch_latency_timer :: u8
  ch_header_type :: u8
  ch_bist :: u8

record HeaderType0 =
  h0_bar :: "u32 list"
  h0_cardbus_cis_pointer :: u32
  h0_subsystem_vendor_id :: u16
  h0_subsystem_id :: u16
  h0_expansion_rom_base :: u32
  h0_capabilities_pointer :: u8
  h0_reserved :: bytes
  h0_interrupt_line :: u8
  h0_interrupt_pin :: u8
  h0_min_gnt :: u8
  h0_max_lat :: u8

record HeaderType1 =
  h1_bar :: "u32 list"
  h1_primary_bus_number :: u8
  h1_secondary_bus_number :: u8
  h1_subordinate_bus_number :: u8
  h1_secondary_latency_timer :: u8
  h1_io_base :: u8
  h1_io_limit :: u8
  h1_secondary_status :: u16
  h1_memory_base :: u16
  h1_memory_limit :: u16
  h1_prefetchable_memory_base :: u16
  h1_prefetchable_memory_limit :: u16
  h1_prefetchable_base_upper32 :: u32
  h1_prefetchable_limit_upper32 :: u32
  h1_io_base_upper16 :: u16
  h1_io_limit_upper16 :: u16
  h1_capabilities_pointer :: u8
  h1_reserved :: bytes
  h1_expansion_rom_base :: u32
  h1_interrupt_line :: u8
  h1_interrupt_pin :: u8
  h1_bridge_control :: u16

text \<open>The union holds one of the two.\<close>

datatype type_header = Type0 HeaderType0 | Type1 HeaderType1

record DeviceConfig =
  dc_common :: CommonHeader
  dc_header :: type_header

record DeviceAddress =
  da_segment :: u16
  da_bus :: u8
  da_slot :: u8
  da_func :: u8

text \<open>The arrays have their declared lengths.\<close>

fun wf_header :: "type_header \<Rightarrow> bool" where
  "wf_header (Type0 h) \<longleftrightarrow> length (h0_bar h) = 6 \<and> length (h0_reserved h) = 7"
| "wf_header (Type1 h) \<longleftrightarrow> length (h1_bar h) = 2 \<and> length (h1_reserved h) = 3"

section \<open>Their bytes\<close>

definition common_bytes :: "CommonHeader \<Rightarrow> bytes" where
  "common_bytes h = put16 (ch_vendor_id h) @ put16 (ch_device_id h) @ put16 (ch_command h) @ put16 (ch_status h) @
     [ch_revision_id h, ch_program_interface h, ch_subclass h, ch_class_code h, ch_cache_line_size h,
      ch_latency_timer h, ch_header_type h, ch_bist h]"

fun header_bytes :: "type_header \<Rightarrow> bytes" where
  "header_bytes (Type0 h) = concat (map put32 (h0_bar h)) @ put32 (h0_cardbus_cis_pointer h) @
     put16 (h0_subsystem_vendor_id h) @ put16 (h0_subsystem_id h) @ put32 (h0_expansion_rom_base h) @
     [h0_capabilities_pointer h] @ h0_reserved h @
     [h0_interrupt_line h, h0_interrupt_pin h, h0_min_gnt h, h0_max_lat h]"
| "header_bytes (Type1 h) = concat (map put32 (h1_bar h)) @
     [h1_primary_bus_number h, h1_secondary_bus_number h, h1_subordinate_bus_number h,
      h1_secondary_latency_timer h, h1_io_base h, h1_io_limit h] @ put16 (h1_secondary_status h) @
     put16 (h1_memory_base h) @ put16 (h1_memory_limit h) @ put16 (h1_prefetchable_memory_base h) @
     put16 (h1_prefetchable_memory_limit h) @ put32 (h1_prefetchable_base_upper32 h) @
     put32 (h1_prefetchable_limit_upper32 h) @ put16 (h1_io_base_upper16 h) @ put16 (h1_io_limit_upper16 h) @
     [h1_capabilities_pointer h] @ h1_reserved h @ put32 (h1_expansion_rom_base h) @
     [h1_interrupt_line h, h1_interrupt_pin h] @ put16 (h1_bridge_control h)"

definition config_bytes :: "DeviceConfig \<Rightarrow> bytes" where
  "config_bytes d = common_bytes (dc_common d) @ header_bytes (dc_header d)"

text \<open>The register at an offset, as a read through the ports or the memory map gives it.\<close>

definition dword :: "bytes \<Rightarrow> nat \<Rightarrow> u32" where
  "dword bs k = get32 (take 4 (drop k bs))"

fun bars :: "type_header \<Rightarrow> u32 list" where
  "bars (Type0 h) = h0_bar h"
| "bars (Type1 h) = h1_bar h"

section \<open>Reading fields\<close>

lemma length_config [simp]:
  "length (common_bytes h) = 16" "wf_header t \<Longrightarrow> length (header_bytes t) = 48"
proof -
  have "length (concat (map put32 xs)) = 4 * length xs" for xs by (induction xs) auto
  then show "wf_header t \<Longrightarrow> length (header_bytes t) = 48" by (cases t) auto
qed (simp add: common_bytes_def)

lemma ucast_low:
  fixes w :: u32
  shows "(ucast (w AND 0xFFFF) :: u16) = ucast w" "(ucast (w AND 0xFF) :: u8) = ucast w"
proof -
  have "(ucast (w AND mask 16) :: u16) = ucast w" "(ucast (w AND mask 8) :: u8) = ucast w"
    by (rule bit_word_eqI, simp add: bit_simps)+
  then show "(ucast (w AND 0xFFFF) :: u16) = ucast w" "(ucast (w AND 0xFF) :: u8) = ucast w"
    by (simp_all add: mask_eq_exp_minus_1)
qed

lemma common_registers:
  assumes "wf_header t"
  shows "dword (config_bytes \<lparr>dc_common = h, dc_header = t\<rparr>) 0 = get32 (put16 (ch_vendor_id h) @ put16 (ch_device_id h))"
    "dword (config_bytes \<lparr>dc_common = h, dc_header = t\<rparr>) 4 = get32 (put16 (ch_command h) @ put16 (ch_status h))"
    "dword (config_bytes \<lparr>dc_common = h, dc_header = t\<rparr>) 8 =
       get32 [ch_revision_id h, ch_program_interface h, ch_subclass h, ch_class_code h]"
    "dword (config_bytes \<lparr>dc_common = h, dc_header = t\<rparr>) 12 =
       get32 [ch_cache_line_size h, ch_latency_timer h, ch_header_type h, ch_bist h]"
  by (simp_all add: dword_def config_bytes_def common_bytes_def numeral_eq_Suc)

lemma take_concat_put32:
  "i < length xs \<Longrightarrow> take 4 (drop (4 * i) (concat (map put32 xs) @ rest)) = put32 (xs ! i)"
proof (induction xs arbitrary: i)
  case (Cons x xs)
  then show ?case by (cases i) (simp_all add: numeral_eq_Suc)
qed simp

lemma bar_register:
  assumes "i < length (bars t)"
  shows "dword (config_bytes \<lparr>dc_common = h, dc_header = t\<rparr>) (16 + 4 * i) = bars t ! i"
proof -
  obtain rest where r: "header_bytes t = concat (map put32 (bars t)) @ rest" by (cases t) auto
  have "take 4 (drop (16 + 4 * i) (common_bytes h @ header_bytes t)) = take 4 (drop (4 * i) (header_bytes t))"
    by simp
  also have "\<dots> = put32 (bars t ! i)" unfolding r by (rule take_concat_put32 [OF assms])
  finally show ?thesis by (simp add: dword_def config_bytes_def)
qed

text \<open>C38: the drivers read the configuration header where it is. For every function whose configuration space
  holds the packed header, of either type: the header fills 64 bytes; the words the host and the bus take
  from the registers 0, 8 and 12 are its vendor, device, class, subclass and header type fields; register 4,
  in which the host sets the bus master bit, begins with the command field; and register 16 is the first
  base address.\<close>

theorem header_fields_read:
  assumes "wf_header t" and bs_def: "bs = config_bytes \<lparr>dc_common = h, dc_header = t\<rparr>"
  shows "length bs = 64 \<and>
    vendor_id (dword bs 0) = ch_vendor_id h \<and>
    bd_device_id (device_info bus dev func (dword bs 0) (dword bs 8) (dword bs 16)) = ch_device_id h \<and>
    ucast (dword bs 4) = ch_command h \<and>
    class_code (dword bs 8) = ch_class_code h \<and> subclass_code (dword bs 8) = ch_subclass h \<and>
    deduced_type (device_info bus dev func (dword bs 0) (dword bs 8) (dword bs 16)) =
      deduce_pci_type (ch_class_code h) (ch_subclass h) (ch_program_interface h) \<and>
    header_type (dword bs 12) = ch_header_type h \<and> dword bs 16 = bars t ! 0"
proof -
  have b: "0 < length (bars t)" using assms(1) by (cases t) auto
  note r = common_registers [OF assms(1), of h, folded bs_def] bar_register [OF b, of h, folded bs_def, simplified]
  have len: "length bs = 64" using assms(1) by (simp add: bs_def config_bytes_def)
  have v: "vendor_id (dword bs 0) = ch_vendor_id h" "(ucast (dword bs 4) :: u16) = ch_command h"
    unfolding vendor_id_def r ucast_low by (simp_all only: get32_parts)
  have c: "class_code (dword bs 8) = ch_class_code h" "subclass_code (dword bs 8) = ch_subclass h"
    "header_type (dword bs 12) = ch_header_type h"
    unfolding class_code_def subclass_code_def header_type_def r by (simp_all only: get32_parts)
  have d: "bd_device_id (device_info bus dev func (dword bs 0) (dword bs 8) (dword bs 16)) = ch_device_id h"
    unfolding device_info_def Let_def r ucast_low get32_parts by simp
  have t: "deduced_type (device_info bus dev func (dword bs 0) (dword bs 8) (dword bs 16)) =
      deduce_pci_type (ch_class_code h) (ch_subclass h) (ch_program_interface h)"
    unfolding device_info_def Let_def r ucast_low get32_parts by simp
  show ?thesis using len v c d t r(5) by simp
qed

text \<open>An NVMe controller.\<close>

theorem header_fields_read_witness:
  "\<exists>h t bs. wf_header t \<and> bs = config_bytes \<lparr>dc_common = h, dc_header = t\<rparr> \<and> length bs = 64 \<and>
     class_code (dword bs 8) = 1 \<and> subclass_code (dword bs 8) = 8 \<and> dword bs 16 = 0xFEB00004"
proof -
  let ?h = "\<lparr>ch_vendor_id = 0x1B36, ch_device_id = 0x10, ch_command = 7, ch_status = 0x10, ch_revision_id = 2,
      ch_program_interface = 2, ch_subclass = 8, ch_class_code = 1, ch_cache_line_size = 0, ch_latency_timer = 0,
      ch_header_type = 0, ch_bist = 0\<rparr>"
  let ?t = "Type0 \<lparr>h0_bar = [0xFEB00004, 0, 0, 0, 0, 0], h0_cardbus_cis_pointer = 0, h0_subsystem_vendor_id = 0x1AF4,
      h0_subsystem_id = 0x1100, h0_expansion_rom_base = 0, h0_capabilities_pointer = 0x40,
      h0_reserved = replicate 7 0, h0_interrupt_line = 11, h0_interrupt_pin = 1, h0_min_gnt = 0, h0_max_lat = 0\<rparr>"
  have "wf_header ?t" by simp
  from header_fields_read [OF this refl, of ?h] show ?thesis
    by (intro exI [of _ ?h] exI [of _ ?t]) simp
qed

end
