(* ===== verification/BootRequests.thy ===== *)
theory BootRequests
  imports Prelude
begin

text \<open>
  The requests the kernel leaves for the boot loader (\<^verbatim>\<open>src/kernel/limine_requests.cpp\<close>) with the
  identifiers of \<^verbatim>\<open>limine.h\<close>. The boot loader looks for them in the image by their four words and
  stores a response in each; what it answers is an argument of the models that read it.
\<close>

record 'r limine_request =
  req_id :: "u64 list"
  req_revision :: u64
  req_response :: "'r option"

definition LIMINE_COMMON_MAGIC :: "u64 list" where
  "LIMINE_COMMON_MAGIC = [0xc7b1dd30df4c8b88, 0x0a82e883a194f07b]"

definition LIMINE_FRAMEBUFFER_REQUEST_ID :: "u64 list" where
  "LIMINE_FRAMEBUFFER_REQUEST_ID = LIMINE_COMMON_MAGIC @ [0x9d5827dcd881dd75, 0xa3148604f6fab11b]"

definition LIMINE_RSDP_REQUEST_ID :: "u64 list" where
  "LIMINE_RSDP_REQUEST_ID = LIMINE_COMMON_MAGIC @ [0xc5e77b6b397e7b43, 0x27637845accdcf3c]"

definition LIMINE_HHDM_REQUEST_ID :: "u64 list" where
  "LIMINE_HHDM_REQUEST_ID = LIMINE_COMMON_MAGIC @ [0x48dcf1cb8ad2b852, 0x63984e959a98244b]"

definition LIMINE_EXECUTABLE_ADDRESS_REQUEST_ID :: "u64 list" where
  "LIMINE_EXECUTABLE_ADDRESS_REQUEST_ID = LIMINE_COMMON_MAGIC @ [0x71ba76863cc55f63, 0xb2644a48c516a487]"

definition framebuffer_request :: "'r limine_request" where
  "framebuffer_request = \<lparr>req_id = LIMINE_FRAMEBUFFER_REQUEST_ID, req_revision = 0, req_response = None\<rparr>"

definition rsdp_request :: "'r limine_request" where
  "rsdp_request = \<lparr>req_id = LIMINE_RSDP_REQUEST_ID, req_revision = 0, req_response = None\<rparr>"

definition hhdm_request :: "'r limine_request" where
  "hhdm_request = \<lparr>req_id = LIMINE_HHDM_REQUEST_ID, req_revision = 0, req_response = None\<rparr>"

definition exec_addr_request :: "'r limine_request" where
  "exec_addr_request = \<lparr>req_id = LIMINE_EXECUTABLE_ADDRESS_REQUEST_ID, req_revision = 0, req_response = None\<rparr>"

lemmas request_defs = framebuffer_request_def rsdp_request_def hhdm_request_def exec_addr_request_def
  LIMINE_FRAMEBUFFER_REQUEST_ID_def LIMINE_RSDP_REQUEST_ID_def LIMINE_HHDM_REQUEST_ID_def
  LIMINE_EXECUTABLE_ADDRESS_REQUEST_ID_def LIMINE_COMMON_MAGIC_def

text \<open>A boot loader that fills in the response of the request with a given identifier.\<close>

definition answer :: "u64 list \<Rightarrow> 'r \<Rightarrow> 'r limine_request \<Rightarrow> 'r limine_request" where
  "answer i r q = (if req_id q = i then q\<lparr>req_response := Some r\<rparr> else q)"

text \<open>No request is taken for another one: an answer to one of the four leaves the other three open.\<close>

lemma answers_apart:
  "map (\<lambda>q. req_response (answer (req_id framebuffer_request) r q))
     [framebuffer_request, rsdp_request, hhdm_request, exec_addr_request] = [Some r, None, None, None]"
  "map (\<lambda>q. req_response (answer (req_id rsdp_request) r q))
     [framebuffer_request, rsdp_request, hhdm_request, exec_addr_request] = [None, Some r, None, None]"
  "map (\<lambda>q. req_response (answer (req_id hhdm_request) r q))
     [framebuffer_request, rsdp_request, hhdm_request, exec_addr_request] = [None, None, Some r, None]"
  "map (\<lambda>q. req_response (answer (req_id exec_addr_request) r q))
     [framebuffer_request, rsdp_request, hhdm_request, exec_addr_request] = [None, None, None, Some r]"
  by (simp_all add: answer_def request_defs)

end
