(* ===== verification/KHeap.thy ===== *)
theory KHeap
  imports Prelude
begin

unbundle bit_operations_syntax

text \<open>
  The kernel heap (\<^verbatim>\<open>src/kernel/new.cpp\<close>): a first-fit allocator over a static buffer of 16 MiB,
  with a header before every block and a doubly linked list of the free ones. A pointer is an
  offset into the buffer, \<open>None\<close> the null pointer; \<open>hdrs\<close> holds the headers that have been written.
  An operation is \<open>None\<close> where the code would read a header that is not there. The invariant says
  that the blocks tile the buffer and that the list links exactly the free ones; the locale
  \<open>allocator\<close> states what the operators promise.
\<close>

section \<open>Headers and the free list\<close>

record BlockHeader =
  bh_size :: u64
  is_free :: bool
  bh_next :: "nat option"
  bh_prev :: "nat option"

record kheap =
  hdrs :: "nat \<rightharpoonup> BlockHeader"
  free_list_head :: "nat option"
  heap_initialized :: bool

definition heap_size :: nat where "heap_size = 16777216"
definition HEADER_SIZE :: nat where "HEADER_SIZE = 32"
definition ALIGNMENT :: u64 where "ALIGNMENT = 16"

definition static_heap :: kheap where
  "static_heap = \<lparr>hdrs = Map.empty, free_list_head = None, heap_initialized = False\<rparr>"

definition align_up :: "u64 \<Rightarrow> u64" where
  "align_up n = (n + ALIGNMENT - 1) AND NOT (ALIGNMENT - 1)"

definition init_heap :: "kheap \<Rightarrow> kheap" where
  "init_heap h =
     (if heap_initialized h then h
      else h\<lparr>hdrs := (hdrs h)(0 \<mapsto> \<lparr>bh_size = of_nat (heap_size - HEADER_SIZE), is_free = True,
               bh_next = None, bh_prev = None\<rparr>),
             free_list_head := Some 0, heap_initialized := True\<rparr>)"

text \<open>A store to a field of the header at \<open>a\<close>.\<close>

definition upd :: "nat \<Rightarrow> (BlockHeader \<Rightarrow> BlockHeader) \<Rightarrow> kheap \<Rightarrow> kheap option" where
  "upd a f h = map_option (\<lambda>b. h\<lparr>hdrs := (hdrs h)(a \<mapsto> f b)\<rparr>) (hdrs h a)"

definition remove_from_free_list :: "nat \<Rightarrow> kheap \<Rightarrow> kheap option" where
  "remove_from_free_list block h = do {
     b \<leftarrow> hdrs h block;
     h1 \<leftarrow> (case bh_prev b of
              Some p \<Rightarrow> upd p (bh_next_update (\<lambda>_. bh_next b)) h
            | None \<Rightarrow> Some (h\<lparr>free_list_head := bh_next b\<rparr>));
     b1 \<leftarrow> hdrs h1 block;
     h2 \<leftarrow> (case bh_next b1 of
              Some n \<Rightarrow> upd n (bh_prev_update (\<lambda>_. bh_prev b1)) h1
            | None \<Rightarrow> Some h1);
     upd block (\<lambda>b. b\<lparr>bh_next := None, bh_prev := None\<rparr>) h2 }"

definition add_to_free_list :: "nat \<Rightarrow> kheap \<Rightarrow> kheap option" where
  "add_to_free_list block h = do {
     h1 \<leftarrow> upd block (\<lambda>b. b\<lparr>is_free := True, bh_next := free_list_head h, bh_prev := None\<rparr>) h;
     h2 \<leftarrow> (case free_list_head h1 of
              Some f \<Rightarrow> upd f (bh_prev_update (\<lambda>_. Some block)) h1
            | None \<Rightarrow> Some h1);
     Some (h2\<lparr>free_list_head := Some block\<rparr>) }"

text \<open>The walks along the list; a walk that never reaches the end has no value.\<close>

partial_function (option) in_list_from ::
    "(nat \<rightharpoonup> BlockHeader) \<Rightarrow> nat \<Rightarrow> nat option \<Rightarrow> bool option" where
  "in_list_from m target cur =
     (case cur of
        None \<Rightarrow> Some False
      | Some a \<Rightarrow> if a = target then Some True
                  else Option.bind (m a) (\<lambda>b. in_list_from m target (bh_next b)))"

definition is_in_free_list :: "nat \<Rightarrow> kheap \<Rightarrow> bool option" where
  "is_in_free_list target h = in_list_from (hdrs h) target (free_list_head h)"

definition coalesce :: "nat \<Rightarrow> kheap \<Rightarrow> kheap option" where
  "coalesce block h = do {
     b \<leftarrow> hdrs h block;
     let next_addr = block + HEADER_SIZE + unat (bh_size b);
     if next_addr + HEADER_SIZE \<le> heap_size then do {
       nb \<leftarrow> hdrs h next_addr;
       listed \<leftarrow> (if is_free nb then is_in_free_list next_addr h else Some False);
       if listed then do {
         h1 \<leftarrow> remove_from_free_list next_addr h;
         nb1 \<leftarrow> hdrs h1 next_addr;
         upd block (\<lambda>b. b\<lparr>bh_size := bh_size b + (of_nat HEADER_SIZE + bh_size nb1)\<rparr>) h1 }
       else Some h }
     else Some h }"

section \<open>Allocating and freeing\<close>

partial_function (option) first_fit ::
    "(nat \<rightharpoonup> BlockHeader) \<Rightarrow> u64 \<Rightarrow> nat option \<Rightarrow> nat option option" where
  "first_fit m n cur =
     (case cur of
        None \<Rightarrow> Some None
      | Some a \<Rightarrow> Option.bind (m a) (\<lambda>b.
          if is_free b \<and> n \<le> bh_size b then Some (Some a) else first_fit m n (bh_next b)))"

text \<open>\<^verbatim>\<open>new_block\<close>: only its size and its flag are stored before it is linked.\<close>

definition split_block :: "nat \<Rightarrow> u64 \<Rightarrow> u64 \<Rightarrow> kheap \<Rightarrow> kheap option" where
  "split_block current aligned_size remaining h = do {
     let new_block = current + HEADER_SIZE + unat aligned_size;
     let old = (case hdrs h new_block of Some b \<Rightarrow> b
                | None \<Rightarrow> \<lparr>bh_size = 0, is_free = False, bh_next = None, bh_prev = None\<rparr>);
     let h1 = h\<lparr>hdrs := (hdrs h)(new_block \<mapsto>
                 old\<lparr>bh_size := remaining - of_nat HEADER_SIZE, is_free := False\<rparr>)\<rparr>;
     h2 \<leftarrow> upd current (bh_size_update (\<lambda>_. aligned_size)) h1;
     add_to_free_list new_block h2 }"

definition allocate_memory :: "u64 \<Rightarrow> kheap \<Rightarrow> (nat option \<times> kheap) option" where
  "allocate_memory req h0 = do {
     let h = init_heap h0;
     let aligned_size = (if align_up req < 1 then 1 else align_up req);
     found \<leftarrow> first_fit (hdrs h) aligned_size (free_list_head h);
     (case found of
        None \<Rightarrow> Some (None, h)
      | Some current \<Rightarrow> do {
          b \<leftarrow> hdrs h current;
          let remaining = bh_size b - aligned_size;
          h1 \<leftarrow> (if of_nat HEADER_SIZE + ALIGNMENT < remaining
                 then split_block current aligned_size remaining h else Some h);
          h2 \<leftarrow> remove_from_free_list current h1;
          h3 \<leftarrow> upd current (is_free_update (\<lambda>_. False)) h2;
          Some (Some (current + HEADER_SIZE), h3) }) }"

text \<open>\<open>HEADER_SIZE \<le> p\<close>: a smaller offset would be a header outside the buffer.\<close>

definition free_memory :: "nat option \<Rightarrow> kheap \<Rightarrow> kheap option" where
  "free_memory ptr h = (case ptr of
     None \<Rightarrow> Some h
   | Some p \<Rightarrow> if p < HEADER_SIZE then None else do {
       let block = p - HEADER_SIZE;
       b \<leftarrow> hdrs h block;
       if is_free b then Some h
       else do { h1 \<leftarrow> add_to_free_list block h; coalesce block h1 } })"

text \<open>\<^verbatim>\<open>operator new\<close> stops the processor when the heap is exhausted, so it returns only a block.\<close>

definition operator_new :: "u64 \<Rightarrow> kheap \<Rightarrow> (nat \<times> kheap) option" where
  "operator_new req h = (case allocate_memory req h of
     Some (Some p, h') \<Rightarrow> Some (p, h') | _ \<Rightarrow> None)"

definition operator_new_array :: "u64 \<Rightarrow> kheap \<Rightarrow> (nat \<times> kheap) option" where
  "operator_new_array req h = operator_new req h"

definition placement_new :: "u64 \<Rightarrow> nat option \<Rightarrow> nat option" where "placement_new req ptr = ptr"

definition placement_new_array :: "u64 \<Rightarrow> nat option \<Rightarrow> nat option" where
  "placement_new_array req ptr = ptr"

definition operator_delete :: "nat option \<Rightarrow> kheap \<Rightarrow> kheap option" where
  "operator_delete ptr h = free_memory ptr h"

definition operator_delete_array :: "nat option \<Rightarrow> kheap \<Rightarrow> kheap option" where
  "operator_delete_array ptr h = free_memory ptr h"

definition operator_delete_sized :: "nat option \<Rightarrow> u64 \<Rightarrow> kheap \<Rightarrow> kheap option" where
  "operator_delete_sized ptr req h = free_memory ptr h"

definition operator_delete_array_sized :: "nat option \<Rightarrow> u64 \<Rightarrow> kheap \<Rightarrow> kheap option" where
  "operator_delete_array_sized ptr req h = free_memory ptr h"

section \<open>Segments of the list\<close>

definition hd_or :: "'a list \<Rightarrow> 'a option \<Rightarrow> 'a option" where
  "hd_or xs x = (case xs of [] \<Rightarrow> x | y # _ \<Rightarrow> Some y)"

definition last_or :: "'a option \<Rightarrow> 'a list \<Rightarrow> 'a option" where
  "last_or x xs = (if xs = [] then x else Some (last xs))"

lemma hd_or_simps [simp]: "hd_or [] x = x" "hd_or (y # ys) x = Some y" "hd_or (xs @ y # ys) x = hd_or xs (Some y)"
  by (simp_all add: hd_or_def split: list.split)

lemma last_or_simps [simp]: "last_or x [] = x" "last_or x (xs @ [y]) = Some y" "last_or x (y # ys) = last_or (Some y) ys"
  by (simp_all add: last_or_def)

fun dseg :: "(nat \<rightharpoonup> BlockHeader) \<Rightarrow> nat option \<Rightarrow> nat list \<Rightarrow> nat option \<Rightarrow> bool" where
  "dseg m pr [] nx = True"
| "dseg m pr (a # as) nx =
     (\<exists>b. m a = Some b \<and> bh_prev b = pr \<and> bh_next b = hd_or as nx \<and> dseg m (Some a) as nx)"

lemma dseg_append: "dseg m pr (xs @ ys) nx \<longleftrightarrow> dseg m pr xs (hd_or ys nx) \<and> dseg m (last_or pr xs) ys nx"
proof (induction xs arbitrary: pr)
  case (Cons x xs)
  have "hd_or (xs @ ys) nx = hd_or xs (hd_or ys nx)" by (simp add: hd_or_def split: list.split)
  then show ?case using Cons by auto
qed simp

lemma dseg_other: "a \<notin> set as \<Longrightarrow> dseg (m(a \<mapsto> b)) pr as nx = dseg m pr as nx"
  by (induction as arbitrary: pr) auto

lemma dseg_same_links:
  "m a = Some b \<Longrightarrow> bh_next b' = bh_next b \<Longrightarrow> bh_prev b' = bh_prev b \<Longrightarrow>
   dseg (m(a \<mapsto> b')) pr as nx = dseg m pr as nx"
  by (induction as arbitrary: pr) auto

lemma dseg_set_first:
  assumes "dseg m pr (y # ys) nx" and "y \<notin> set ys"
  obtains b where "m y = Some b" "dseg (m(y \<mapsto> b\<lparr>bh_prev := pr'\<rparr>)) pr' (y # ys) nx"
  using assms by (auto simp: dseg_other)

lemma dseg_set_last:
  assumes "dseg m pr (xs @ [y]) nx" and "y \<notin> set xs"
  obtains b where "m y = Some b" "dseg (m(y \<mapsto> b\<lparr>bh_next := nx'\<rparr>)) pr (xs @ [y]) nx'"
  using assms by (auto simp: dseg_append dseg_other)

lemma dseg_mem: "dseg m pr as nx \<Longrightarrow> a \<in> set as \<Longrightarrow> m a \<noteq> None"
  by (induction as arbitrary: pr) auto

lemma in_list_from_dseg: "dseg m pr as None \<Longrightarrow> in_list_from m t (hd_or as None) = Some (t \<in> set as)"
  by (induction as arbitrary: pr) (subst in_list_from.simps, auto)+

lemma first_fit_dseg:
  "dseg m pr as None \<Longrightarrow> first_fit m n (hd_or as None) =
     Some (find (\<lambda>a. is_free (the (m a)) \<and> n \<le> bh_size (the (m a))) as)"
  by (induction as arbitrary: pr) (subst first_fit.simps, auto)+

section \<open>Sizes and flags\<close>

definition shape :: "kheap \<Rightarrow> nat \<rightharpoonup> u64 \<times> bool" where
  "shape h a = map_option (\<lambda>b. (bh_size b, is_free b)) (hdrs h a)"

lemma shape_link:
  assumes "hdrs h a = Some b" and "bh_size b' = bh_size b" and "is_free b' = is_free b"
  shows "shape (h\<lparr>hdrs := (hdrs h)(a \<mapsto> b')\<rparr>) = shape h"
  using assms by (intro ext) (simp add: shape_def)

lemma shape_upd: "shape (h\<lparr>hdrs := (hdrs h)(a \<mapsto> b)\<rparr>) = (shape h)(a \<mapsto> (bh_size b, is_free b))"
  by (intro ext) (simp add: shape_def)

lemma shape_simps [simp]:
  "shape (h\<lparr>free_list_head := x\<rparr>) = shape h" "shape (h\<lparr>heap_initialized := i\<rparr>) = shape h"
  by (simp_all add: shape_def [abs_def])

lemma shape_SomeD: "shape h a = Some (n, f) \<Longrightarrow> \<exists>b. hdrs h a = Some b \<and> bh_size b = n \<and> is_free b = f"
  by (auto simp: shape_def)

section \<open>Unlinking and linking\<close>

lemma unlink_prev:
  assumes "hdrs h a = Some b" and "bh_prev b = last_or None xs"
    and "dseg (hdrs h) None xs (Some a)" and "dseg (hdrs h) (Some a) ys None"
    and "distinct (xs @ a # ys)" and "free_list_head h = hd_or xs (Some a)"
  obtains h1 where "(case bh_prev b of Some p \<Rightarrow> upd p (bh_next_update (\<lambda>_. nx)) h
      | None \<Rightarrow> Some (h\<lparr>free_list_head := nx\<rparr>)) = Some h1"
    "hdrs h1 a = Some b" "dseg (hdrs h1) None xs nx" "dseg (hdrs h1) (Some a) ys None"
    "free_list_head h1 = hd_or xs nx" "shape h1 = shape h" "heap_initialized h1 = heap_initialized h"
proof (cases xs rule: rev_cases)
  case Nil
  then show ?thesis using that [of "h\<lparr>free_list_head := nx\<rparr>"] assms by simp
next
  case (snoc xs' p)
  have p: "p \<notin> set xs'" "p \<noteq> a" "p \<notin> set ys" using assms(5) snoc by auto
  obtain c where c: "hdrs h p = Some c" "dseg ((hdrs h)(p \<mapsto> c\<lparr>bh_next := nx\<rparr>)) None (xs' @ [p]) nx"
    by (rule dseg_set_last [OF assms(3) [unfolded snoc] p(1)])
  have head: "hd_or (xs' @ [p]) (Some a) = hd_or (xs' @ [p]) nx" by (cases xs') simp_all
  show ?thesis
    using that [of "h\<lparr>hdrs := (hdrs h)(p \<mapsto> c\<lparr>bh_next := nx\<rparr>)\<rparr>"] c assms(1,2,4,6) p head
    by (simp add: snoc upd_def dseg_other shape_link [OF c(1)])
qed

lemma unlink_next:
  assumes "hdrs h a = Some b" and "bh_next b = hd_or ys None" and "dseg (hdrs h) None xs (hd_or ys None)"
    and "dseg (hdrs h) (Some a) ys None" and "distinct (xs @ a # ys)"
  obtains h1 where "(case bh_next b of Some n \<Rightarrow> upd n (bh_prev_update (\<lambda>_. pr)) h | None \<Rightarrow> Some h) = Some h1"
    "hdrs h1 a = Some b" "dseg (hdrs h1) None xs (hd_or ys None)" "dseg (hdrs h1) pr ys None"
    "free_list_head h1 = free_list_head h" "shape h1 = shape h" "heap_initialized h1 = heap_initialized h"
proof (cases ys)
  case Nil
  then show ?thesis using that [of h] assms by simp
next
  case (Cons y ys')
  have y: "y \<notin> set ys'" "y \<noteq> a" "y \<notin> set xs" using assms(5) Cons by auto
  obtain c where c: "hdrs h y = Some c" "dseg ((hdrs h)(y \<mapsto> c\<lparr>bh_prev := pr\<rparr>)) pr (y # ys') None"
    by (rule dseg_set_first [OF assms(4) [unfolded Cons] y(1)])
  show ?thesis
    using that [of "h\<lparr>hdrs := (hdrs h)(y \<mapsto> c\<lparr>bh_prev := pr\<rparr>)\<rparr>"] c assms(1,2,3) y
    by (simp add: Cons upd_def dseg_other shape_link [OF c(1)] del: dseg.simps(2))
qed

lemma remove_correct:
  assumes seg: "dseg (hdrs h) None (xs @ a # ys) None" and dist: "distinct (xs @ a # ys)"
    and head: "free_list_head h = hd_or (xs @ a # ys) None"
  obtains h' where "remove_from_free_list a h = Some h'" "dseg (hdrs h') None (xs @ ys) None"
    "free_list_head h' = hd_or (xs @ ys) None" "shape h' = shape h" "heap_initialized h' = heap_initialized h"
proof -
  obtain b where b: "hdrs h a = Some b" "bh_prev b = last_or None xs" "bh_next b = hd_or ys None"
      "dseg (hdrs h) None xs (Some a)" "dseg (hdrs h) (Some a) ys None"
    using seg by (auto simp: dseg_append)
  obtain h1 where h1: "(case bh_prev b of Some p \<Rightarrow> upd p (bh_next_update (\<lambda>_. hd_or ys None)) h
      | None \<Rightarrow> Some (h\<lparr>free_list_head := hd_or ys None\<rparr>)) = Some h1"
      "hdrs h1 a = Some b" "dseg (hdrs h1) None xs (hd_or ys None)" "dseg (hdrs h1) (Some a) ys None"
      "free_list_head h1 = hd_or xs (hd_or ys None)" "shape h1 = shape h" "heap_initialized h1 = heap_initialized h"
    using unlink_prev [OF b(1,2,4,5) dist, of "hd_or ys None"] head by auto
  obtain h2 where h2: "(case bh_next b of Some n \<Rightarrow> upd n (bh_prev_update (\<lambda>_. last_or None xs)) h1 | None \<Rightarrow> Some h1) = Some h2"
    "hdrs h2 a = Some b" "dseg (hdrs h2) None xs (hd_or ys None)" "dseg (hdrs h2) (last_or None xs) ys None"
    "free_list_head h2 = free_list_head h1" "shape h2 = shape h1" "heap_initialized h2 = heap_initialized h1"
    by (rule unlink_next [OF h1(2) b(3) h1(3,4) dist, of "last_or None xs"])
  define h' where "h' = h2\<lparr>hdrs := (hdrs h2)(a \<mapsto> b\<lparr>bh_next := None, bh_prev := None\<rparr>)\<rparr>"
  have "remove_from_free_list a h = Some h'"
    by (simp only: remove_from_free_list_def b(1) Option.bind.simps h1(1,2) [folded b(3)] h2(1,2) [folded b(2)])
      (simp add: upd_def h2(2) h'_def)
  moreover have "dseg (hdrs h') None (xs @ ys) None"
    using h2(3,4) dist by (simp add: h'_def dseg_append dseg_other)
  moreover have "hd_or (xs @ ys) None = hd_or xs (hd_or ys None)" by (simp add: hd_or_def split: list.split)
  ultimately show ?thesis
    using that [of h'] h1(5,6,7) h2(5,6,7) by (simp add: h'_def shape_link [OF h2(2)])
qed

lemma add_correct:
  assumes seg: "dseg (hdrs h) None fl None" and dist: "distinct fl" and head: "free_list_head h = hd_or fl None"
    and new: "a \<notin> set fl" and b: "hdrs h a = Some b"
  obtains h' where "add_to_free_list a h = Some h'" "dseg (hdrs h') None (a # fl) None"
    "free_list_head h' = Some a" "shape h' = (shape h)(a \<mapsto> (bh_size b, True))"
    "heap_initialized h' = heap_initialized h"
proof -
  define b' where "b' = b\<lparr>is_free := True, bh_next := free_list_head h, bh_prev := None\<rparr>"
  define h1 where "h1 = h\<lparr>hdrs := (hdrs h)(a \<mapsto> b')\<rparr>"
  have s1: "dseg (hdrs h1) None fl None" "hdrs h1 a = Some b'" using seg new by (simp_all add: h1_def dseg_other)
  have sh1: "shape h1 = (shape h)(a \<mapsto> (bh_size b, True))" by (simp add: h1_def shape_upd b'_def)
  have u: "upd a (\<lambda>b. b\<lparr>is_free := True, bh_next := free_list_head h, bh_prev := None\<rparr>) h = Some h1"
    using b by (simp add: upd_def h1_def b'_def)
  have f: "free_list_head h1 = hd_or fl None" "heap_initialized h1 = heap_initialized h"
    using head by (simp_all add: h1_def)
  have nx: "bh_next b' = hd_or fl None" "bh_prev b' = None" using head by (simp_all add: b'_def)
  show ?thesis
  proof (cases fl)
    case Nil
    then show ?thesis
      using that [of "h1\<lparr>free_list_head := Some a\<rparr>"] u f s1 sh1 nx by (simp add: add_to_free_list_def)
  next
    case (Cons y ys)
    have y: "y \<notin> set ys" "y \<noteq> a" "a \<notin> set ys" using dist new Cons by auto
    obtain c where c: "hdrs h1 y = Some c" "dseg ((hdrs h1)(y \<mapsto> c\<lparr>bh_prev := Some a\<rparr>)) (Some a) (y # ys) None"
      by (rule dseg_set_first [OF s1(1) [unfolded Cons] y(1)])
    define h2 where "h2 = h1\<lparr>hdrs := (hdrs h1)(y \<mapsto> c\<lparr>bh_prev := Some a\<rparr>)\<rparr>"
    have "add_to_free_list a h = Some (h2\<lparr>free_list_head := Some a\<rparr>)"
      unfolding add_to_free_list_def u by (simp add: f(1) Cons upd_def c(1) h2_def)
    moreover have "dseg (hdrs h2) None (a # fl) None"
      using c(2) s1(2) y nx by (simp add: h2_def Cons del: dseg.simps(2)) simp
    moreover have "shape h2 = shape h1" unfolding h2_def by (rule shape_link [OF c(1)]) simp_all
    ultimately show ?thesis
      using that [of "h2\<lparr>free_list_head := Some a\<rparr>"] sh1 f(2) by (simp add: h2_def del: dseg.simps(2))
  qed
qed

section \<open>The blocks tile the buffer\<close>

fun tseg :: "(nat \<rightharpoonup> u64 \<times> bool) \<Rightarrow> nat \<Rightarrow> nat list \<Rightarrow> nat \<Rightarrow> bool" where
  "tseg sh off [] e \<longleftrightarrow> off = e"
| "tseg sh off (a # as) e \<longleftrightarrow>
     a = off \<and> (\<exists>n f. sh a = Some (n, f) \<and> tseg sh (off + HEADER_SIZE + unat n) as e)"

lemma tseg_append: "tseg sh off (xs @ ys) e \<longleftrightarrow> (\<exists>mid. tseg sh off xs mid \<and> tseg sh mid ys e)"
  by (induction xs arbitrary: off) auto

lemma tseg_le: "tseg sh off as e \<Longrightarrow> off \<le> e"
  by (induction as arbitrary: off) fastforce+

lemma tseg_mem:
  assumes "tseg sh off as e" and "a \<in> set as"
  obtains n f where "off \<le> a" "sh a = Some (n, f)" "a + HEADER_SIZE + unat n \<le> e"
  using assms
proof (induction as arbitrary: off thesis)
  case (Cons x xs)
  obtain n f where x: "x = off" "sh x = Some (n, f)" "tseg sh (off + HEADER_SIZE + unat n) xs e"
    using Cons.prems(2) by auto
  show ?case
  proof (cases "a = x")
    case True
    then show ?thesis using Cons.prems(1) x tseg_le [OF x(3)] by simp
  next
    case False
    then have "a \<in> set xs" using Cons.prems(3) by simp
    from Cons.IH [OF _ x(3) this] show ?thesis
      using Cons.prems(1) by (metis add_leD1)
  qed
qed simp

lemma tseg_other: "a \<notin> set as \<Longrightarrow> tseg (sh(a \<mapsto> x)) off as e = tseg sh off as e"
  by (induction as arbitrary: off) auto

lemma tseg_flag: "sh a = Some (n, f) \<Longrightarrow> tseg (sh(a \<mapsto> (n, f'))) off as e = tseg sh off as e"
  by (induction as arbitrary: off) auto

lemma tseg_at:
  assumes "tseg sh off (xs @ a # ys) e"
  obtains n f where "sh a = Some (n, f)" "tseg sh off xs a" "tseg sh (a + HEADER_SIZE + unat n) ys e"
    "a \<notin> set xs" "a \<notin> set ys"
proof -
  obtain n f where nf: "sh a = Some (n, f)" "tseg sh off xs a" "tseg sh (a + HEADER_SIZE + unat n) ys e"
    using assms by (auto simp: tseg_append)
  have "a \<notin> set xs"
  proof
    assume "a \<in> set xs"
    then show False by (rule tseg_mem [OF nf(2)]) (simp add: HEADER_SIZE_def)
  qed
  moreover have "a \<notin> set ys"
  proof
    assume "a \<in> set ys"
    then show False by (rule tseg_mem [OF nf(3)]) (simp add: HEADER_SIZE_def)
  qed
  ultimately show ?thesis using that nf by blast
qed

lemma tseg_disjoint:
  assumes t: "tseg sh off as e" and ab: "a \<in> set as" "b \<in> set as" "a < b" and a: "sh a = Some (n, f)"
  shows "a + HEADER_SIZE + unat n \<le> b"
proof -
  obtain xs ys where s: "as = xs @ a # ys" using ab(1) by (auto dest: split_list)
  obtain n' f' where r: "sh a = Some (n', f')" "tseg sh off xs a" "tseg sh (a + HEADER_SIZE + unat n') ys e"
    by (rule tseg_at [OF t [unfolded s]])
  have "b \<notin> set xs"
  proof
    assume "b \<in> set xs"
    then show False by (rule tseg_mem [OF r(2)]) (use ab(3) in simp)
  qed
  then have "b \<in> set ys" using ab s by auto
  then show ?thesis by (rule tseg_mem [OF r(3)]) (use a r(1) in simp)
qed

lemma tseg_aligned:
  assumes "tseg sh off as e" and "16 dvd off" and "\<forall>a \<in> set as. \<forall>n f. sh a = Some (n, f) \<longrightarrow> 16 dvd unat n"
    and "a \<in> set as"
  shows "16 dvd a"
  using assms
proof (induction as arbitrary: off)
  case (Cons x xs)
  obtain n f where x: "x = off" "sh x = Some (n, f)" "tseg sh (off + HEADER_SIZE + unat n) xs e"
    using Cons.prems(1) by auto
  have "16 dvd unat n" using Cons.prems(3) x(2) by auto
  then have "16 dvd off + HEADER_SIZE + unat n" using Cons.prems(2) by (simp add: HEADER_SIZE_def)
  then show ?case using Cons.IH [OF x(3)] Cons.prems(2,3,4) x(1) by auto
qed simp

text \<open>Cutting a block in two, and joining two.\<close>

lemma tseg_split:
  assumes "tseg sh off (xs @ a # ys) e" and "sh a = Some (n, f)" and "unat k + HEADER_SIZE + unat r = unat n"
    and c: "c = a + HEADER_SIZE + unat k"
  shows "tseg (sh(c \<mapsto> (r, g), a \<mapsto> (k, f'))) off (xs @ a # c # ys) e" and "c \<notin> set (xs @ a # ys)"
proof -
  obtain n' f'' where a: "sh a = Some (n', f'')" "tseg sh off xs a" "tseg sh (a + HEADER_SIZE + unat n') ys e"
      "a \<notin> set xs" "a \<notin> set ys"
    by (rule tseg_at [OF assms(1)])
  have n: "n' = n" using a(1) assms(2) by simp
  have "c \<notin> set xs"
  proof
    assume "c \<in> set xs"
    then show False by (rule tseg_mem [OF a(2)]) (simp add: c HEADER_SIZE_def)
  qed
  moreover have "c \<notin> set ys"
  proof
    assume "c \<in> set ys"
    then show False
      by (rule tseg_mem [OF a(3)]) (use assms(3) n in \<open>simp add: c HEADER_SIZE_def\<close>)
  qed
  moreover have "c \<noteq> a" by (simp add: c HEADER_SIZE_def)
  ultimately show "c \<notin> set (xs @ a # ys)" by simp
  have e: "c + HEADER_SIZE + unat r = a + HEADER_SIZE + unat n" using assms(3) c by simp
  have "tseg sh (c + HEADER_SIZE + unat r) ys e" using a(3) unfolding e n .
  then show "tseg (sh(c \<mapsto> (r, g), a \<mapsto> (k, f'))) off (xs @ a # c # ys) e"
    using a \<open>c \<notin> set xs\<close> \<open>c \<notin> set ys\<close> \<open>c \<noteq> a\<close>
    by (simp add: tseg_append tseg_other c [symmetric])
qed

lemma tseg_join:
  assumes "tseg sh off (xs @ a # c # ys) e" and "sh a = Some (n, f)" and "sh c = Some (r, g)"
    and "unat k = unat n + HEADER_SIZE + unat r"
  shows "tseg (sh(a \<mapsto> (k, f'))) off (xs @ a # ys) e"
proof -
  obtain n' f'' where a: "sh a = Some (n', f'')" "tseg sh off xs a"
      "tseg sh (a + HEADER_SIZE + unat n') (c # ys) e" "a \<notin> set xs" "a \<notin> set (c # ys)"
    by (rule tseg_at [OF assms(1)])
  have "c = a + HEADER_SIZE + unat n" "tseg sh (a + HEADER_SIZE + unat k) ys e"
    using a(1,3) assms(2-4) by (auto simp: algebra_simps)
  then show ?thesis using a by (simp add: tseg_append tseg_other)
qed

section \<open>The invariant\<close>

definition blocks_aligned :: "(nat \<rightharpoonup> u64 \<times> bool) \<Rightarrow> nat list \<Rightarrow> bool" where
  "blocks_aligned sh os \<longleftrightarrow> (\<forall>a \<in> set os. \<forall>n f. sh a = Some (n, f) \<longrightarrow> 16 dvd unat n)"

definition free_blocks :: "(nat \<rightharpoonup> u64 \<times> bool) \<Rightarrow> nat list \<Rightarrow> nat set" where
  "free_blocks sh os = {a \<in> set os. \<exists>n. sh a = Some (n, True)}"

definition heap_inv :: "kheap \<Rightarrow> nat list \<Rightarrow> nat list \<Rightarrow> bool" where
  "heap_inv h os fl \<longleftrightarrow> heap_initialized h \<and> tseg (shape h) 0 os heap_size \<and> blocks_aligned (shape h) os \<and>
     dseg (hdrs h) None fl None \<and> free_list_head h = hd_or fl None \<and> distinct fl \<and>
     set fl = free_blocks (shape h) os"

text \<open>The memory handed out: where it starts and how long it is.\<close>

definition used :: "kheap \<Rightarrow> nat list \<Rightarrow> nat \<rightharpoonup> nat" where
  "used h os p =
     (if HEADER_SIZE \<le> p \<and> p - HEADER_SIZE \<in> set os
      then (case shape h (p - HEADER_SIZE) of
              None \<Rightarrow> None | Some (n, f) \<Rightarrow> if f then None else Some (unat n))
      else None)"

lemma heap_invD:
  assumes "heap_inv h os fl"
  shows "heap_initialized h" "tseg (shape h) 0 os heap_size" "blocks_aligned (shape h) os"
    "dseg (hdrs h) None fl None" "free_list_head h = hd_or fl None" "distinct fl"
    "set fl = free_blocks (shape h) os"
  using assms by (simp_all add: heap_inv_def)

lemma init_heap_inv: "heap_inv (init_heap static_heap) [0] [0]" "used (init_heap static_heap) [0] = Map.empty"
  by (auto intro!: ext simp: heap_inv_def init_heap_def static_heap_def shape_def blocks_aligned_def free_blocks_def
      used_def heap_size_def HEADER_SIZE_def)

lemma align_up_nat:
  assumes "unat n \<le> 2 ^ 64 - 16"
  shows "unat (align_up n) = (unat n + 15) - (unat n + 15) mod 16"
proof -
  define x where "x = n + 15"
  have x: "unat x = unat n + 15" using assms by (simp add: x_def unat_word_ariths)
  have "(x AND NOT 15) + (x AND 15) = (x AND NOT 15) OR (x AND 15)"
    by (rule disjunctive_add) (auto simp: bit_simps)
  also have "\<dots> = x" by (rule bit_eqI) (auto simp: bit_simps)
  finally have s: "x AND NOT 15 = x - (x AND 15)" by (simp add: eq_diff_eq)
  have m: "x AND 15 = take_bit 4 x" by (simp add: take_bit_eq_mask mask_eq_exp_minus_1)
  have "unat (x AND 15) = unat x mod 16" unfolding m by (simp only: unsigned_take_bit_eq) (simp add: take_bit_eq_mod)
  then have "unat (x AND NOT 15) = unat x - unat x mod 16"
    unfolding s by (simp add: unat_sub word_le_nat_alt)
  then show ?thesis
    unfolding x by (simp add: align_up_def ALIGNMENT_def x_def algebra_simps del: unsigned_and_eq)
qed

lemma align_up_ok:
  assumes "0 < n" and "unat n \<le> 2 ^ 64 - 16"
  shows "unat n \<le> unat (align_up n)" "16 dvd unat (align_up n)" "\<not> align_up n < 1"
proof -
  have "(unat n + 15) mod 16 \<le> 15" by simp
  then show a: "unat n \<le> unat (align_up n)" unfolding align_up_nat [OF assms(2)] by linarith
  show "16 dvd unat (align_up n)" unfolding align_up_nat [OF assms(2)] by (rule dvd_minus_mod)
  show "\<not> align_up n < 1" using a assms(1) by (auto simp: word_less_nat_alt)
qed

section \<open>Steps that keep the invariant\<close>

lemma blocks_aligned_upd:
  "blocks_aligned sh os \<Longrightarrow> 16 dvd unat n \<Longrightarrow> blocks_aligned (sh(a \<mapsto> (n, f))) os"
  by (auto simp: blocks_aligned_def)

lemma used_other:
  "(\<And>a. a \<in> set os \<Longrightarrow> shape h' a = shape h a) \<Longrightarrow> used h' os = used h os"
  by (intro ext) (simp add: used_def)

lemma take_block:
  assumes inv: "heap_inv h os (fx @ a # fy)" and a: "shape h a = Some (n, True)"
  obtains h2 h3 where "remove_from_free_list a h = Some h2" "upd a (is_free_update (\<lambda>_. False)) h2 = Some h3"
    "heap_inv h3 os (fx @ fy)" "used h3 os = (used h os)(a + HEADER_SIZE \<mapsto> unat n)"
proof -
  note I = heap_invD [OF inv]
  have aos: "a \<in> set os" using I(7) by (auto simp: free_blocks_def)
  obtain h2 where h2: "remove_from_free_list a h = Some h2" "dseg (hdrs h2) None (fx @ fy) None"
      "free_list_head h2 = hd_or (fx @ fy) None" "shape h2 = shape h" "heap_initialized h2 = heap_initialized h"
    by (rule remove_correct [OF I(4,6,5)])
  obtain b where b: "hdrs h2 a = Some b" "bh_size b = n" "is_free b"
    using shape_SomeD [of h2 a n True] a h2(4) by auto
  define h3 where "h3 = h2\<lparr>hdrs := (hdrs h2)(a \<mapsto> b\<lparr>is_free := False\<rparr>)\<rparr>"
  have s3: "shape h3 = (shape h)(a \<mapsto> (n, False))"
    using b by (simp add: h3_def shape_upd h2(4))
  have "set (fx @ fy) = free_blocks (shape h3) os"
    using I(6,7) unfolding s3 free_blocks_def by (auto split: if_splits)
  moreover have "16 dvd unat n" using I(3) aos a by (auto simp: blocks_aligned_def)
  ultimately have "heap_inv h3 os (fx @ fy)"
    using I(1,2,3,6) h2(2,3,5) unfolding heap_inv_def s3 tseg_flag [of "shape h", OF a]
    by (simp add: h3_def b(1) dseg_same_links [of "hdrs h2" a b] blocks_aligned_upd)
  moreover have "used h3 os = (used h os)(a + HEADER_SIZE \<mapsto> unat n)"
    using aos by (intro ext) (auto simp: used_def s3)
  moreover have "upd a (is_free_update (\<lambda>_. False)) h2 = Some h3" using b(1) by (simp add: upd_def h3_def)
  ultimately show ?thesis using that h2(1) by blast
qed

lemma add_block:
  assumes inv: "heap_inv h os fl" and aos: "a \<in> set os" and a: "shape h a = Some (n, False)"
  obtains h1 where "add_to_free_list a h = Some h1" "heap_inv h1 os (a # fl)"
    "shape h1 = (shape h)(a \<mapsto> (n, True))" "used h1 os = (used h os)(a + HEADER_SIZE := None)"
proof -
  note I = heap_invD [OF inv]
  obtain b where b: "hdrs h a = Some b" "bh_size b = n" using shape_SomeD [OF a] by auto
  have new: "a \<notin> set fl" unfolding I(7) free_blocks_def using a by simp
  obtain h1 where h1: "add_to_free_list a h = Some h1" "dseg (hdrs h1) None (a # fl) None"
    "free_list_head h1 = Some a" "shape h1 = (shape h)(a \<mapsto> (bh_size b, True))"
    "heap_initialized h1 = heap_initialized h"
    by (rule add_correct [OF I(4,6,5) new b(1)])
  have s1: "shape h1 = (shape h)(a \<mapsto> (n, True))" using h1(4) b(2) by simp
  have "set (a # fl) = free_blocks (shape h1) os"
    using I(7) aos unfolding s1 free_blocks_def by (auto split: if_splits)
  moreover have "16 dvd unat n" using I(3) aos a by (auto simp: blocks_aligned_def)
  ultimately have "heap_inv h1 os (a # fl)"
    using I(1,2,3,6) new h1(2,3,5) unfolding heap_inv_def s1 tseg_flag [of "shape h", OF a]
    by (simp add: blocks_aligned_upd del: dseg.simps(2))
  moreover have "used h1 os = (used h os)(a + HEADER_SIZE := None)"
    using aos by (intro ext) (auto simp: used_def s1)
  ultimately show ?thesis using that h1(1) s1 by blast
qed

text \<open>Cutting the block: the rest becomes a free block of its own.\<close>

lemma split_correct:
  assumes inv: "heap_inv h (xs @ a # ys) fl" and a: "shape h a = Some (n, True)" and "k \<le> n"
    and big: "of_nat HEADER_SIZE + ALIGNMENT < n - k" and k: "16 dvd unat k"
  obtains h1 where "split_block a k (n - k) h = Some h1"
    "heap_inv h1 (xs @ a # (a + HEADER_SIZE + unat k) # ys) ((a + HEADER_SIZE + unat k) # fl)"
    "shape h1 a = Some (k, True)"
    "used h1 (xs @ a # (a + HEADER_SIZE + unat k) # ys) = used h (xs @ a # ys)"
proof -
  note I = heap_invD [OF inv]
  define c where "c = a + HEADER_SIZE + unat k"
  define r where "r = n - k - of_nat HEADER_SIZE"
  define old where "old = (case hdrs h c of Some b \<Rightarrow> b
      | None \<Rightarrow> \<lparr>bh_size = 0, is_free = False, bh_next = None, bh_prev = None\<rparr>)"
  have nk: "unat (n - k) = unat n - unat k" using \<open>k \<le> n\<close> by (simp add: unat_sub)
  have "48 < unat (n - k)" using big by (simp add: word_less_nat_alt HEADER_SIZE_def ALIGNMENT_def)
  moreover from this have "(of_nat HEADER_SIZE :: u64) \<le> n - k" by (simp add: HEADER_SIZE_def word_le_nat_alt)
  ultimately have r: "unat k + HEADER_SIZE + unat r = unat n"
    unfolding r_def using nk by (simp add: unat_sub HEADER_SIZE_def)
  obtain b where b: "hdrs h a = Some b" "bh_size b = n" "is_free b" using shape_SomeD [OF a] by auto
  note sp = tseg_split [OF I(2) a r c_def]
  have cna: "c \<noteq> a" "c \<notin> set xs" "c \<notin> set ys" "c \<notin> set (xs @ a # ys)" using sp(2) by auto
  have cfl: "c \<notin> set fl" using cna(4) unfolding I(7) free_blocks_def by simp
  define h0 where "h0 = h\<lparr>hdrs := (hdrs h)(c \<mapsto> old\<lparr>bh_size := r, is_free := False\<rparr>)\<rparr>"
  define h1 where "h1 = h0\<lparr>hdrs := (hdrs h0)(a \<mapsto> b\<lparr>bh_size := k\<rparr>)\<rparr>"
  have s1: "shape h1 = (shape h)(c \<mapsto> (r, False), a \<mapsto> (k, True))"
    unfolding h1_def shape_upd unfolding h0_def shape_upd using b by simp
  have "unat n = unat k + 32 + unat r" using r by (simp add: HEADER_SIZE_def)
  moreover have "16 dvd unat n" using I(3) a by (auto simp: blocks_aligned_def)
  ultimately have "16 dvd unat k + 32 + unat r" by simp
  then have r16: "16 dvd unat r" using k by presburger
  have fb: "set fl = free_blocks (shape h1) (xs @ a # c # ys)"
    using I(7) cna a unfolding s1 free_blocks_def by auto
  have al: "blocks_aligned (shape h1) (xs @ a # c # ys)"
    using I(3) k r16 cna unfolding s1 blocks_aligned_def by auto
  have seg: "dseg (hdrs h1) None fl None"
    using I(4) cfl b(1) cna(1) by (simp add: h1_def h0_def dseg_same_links [of "(hdrs h)(c \<mapsto> old\<lparr>bh_size := r, is_free := False\<rparr>)" a b] dseg_other)
  have i1: "heap_inv h1 (xs @ a # c # ys) fl"
    unfolding heap_inv_def using I(1,5,6) sp(1) fb al seg s1 by (simp add: h1_def h0_def)
  have u1: "(used h1 (xs @ a # c # ys))(c + HEADER_SIZE := None) = used h (xs @ a # ys)"
    using cna a by (intro ext) (auto simp: used_def s1)
  obtain h2 where h2: "add_to_free_list c h1 = Some h2" "heap_inv h2 (xs @ a # c # ys) (c # fl)"
    "shape h2 = (shape h1)(c \<mapsto> (r, True))" "used h2 (xs @ a # c # ys) = (used h1 (xs @ a # c # ys))(c + HEADER_SIZE := None)"
    by (rule add_block [OF i1, of c r]) (use s1 cna in auto)
  have "split_block a k (n - k) h = Some h2"
    using h2(1) b(1) cna(1)
    by (simp add: split_block_def Let_def c_def [symmetric] r_def [symmetric] old_def [symmetric] upd_def h1_def h0_def)
  moreover have "shape h2 a = Some (k, True)" using s1 cna(1) h2(3) by simp
  ultimately show ?thesis using that [folded c_def, of h2] h2(2,4) u1 by simp
qed

lemma used_range:
  assumes inv: "heap_inv h os fl" and "used h os p = Some n"
  shows "16 dvd p" and "HEADER_SIZE \<le> p" and "p + n \<le> heap_size"
proof -
  note I = heap_invD [OF inv]
  obtain w where w: "HEADER_SIZE \<le> p" "p - HEADER_SIZE \<in> set os" "shape h (p - HEADER_SIZE) = Some (w, False)" "unat w = n"
    using assms(2) by (auto simp: used_def split: if_splits option.splits)
  show "HEADER_SIZE \<le> p" by (rule w(1))
  obtain n' f' where "shape h (p - HEADER_SIZE) = Some (n', f')" "p - HEADER_SIZE + HEADER_SIZE + unat n' \<le> heap_size"
    by (rule tseg_mem [OF I(2) w(2)])
  then show "p + n \<le> heap_size" using w by simp
  have "16 dvd p - HEADER_SIZE"
    using tseg_aligned [OF I(2) _ _ w(2)] I(3) by (simp add: blocks_aligned_def)
  then have "16 dvd (p - HEADER_SIZE) + 32" by simp
  then show "16 dvd p" using w(1) by (simp add: HEADER_SIZE_def)
qed

lemma used_disjoint:
  assumes inv: "heap_inv h os fl" and p: "used h os p = Some n" and q: "used h os q = Some m" and "p < q"
  shows "p + n \<le> q"
proof -
  note I = heap_invD [OF inv]
  obtain w where w: "HEADER_SIZE \<le> p" "p - HEADER_SIZE \<in> set os" "shape h (p - HEADER_SIZE) = Some (w, False)" "unat w = n"
    using p by (auto simp: used_def split: if_splits option.splits)
  have q': "HEADER_SIZE \<le> q" "q - HEADER_SIZE \<in> set os"
    using q by (auto simp: used_def split: if_splits)
  have "p - HEADER_SIZE + HEADER_SIZE + unat w \<le> q - HEADER_SIZE"
    by (rule tseg_disjoint [OF I(2) w(2) q'(2) _ w(3)]) (use \<open>p < q\<close> w(1) in linarith)
  then show ?thesis using w by simp
qed

lemma initialized_init: "heap_initialized h \<Longrightarrow> init_heap h = h" by (simp add: init_heap_def)

lemma allocate_correct:
  assumes inv: "heap_inv h os fl" and req: "0 < req" "unat req \<le> 2 ^ 64 - 16"
  obtains (full) "allocate_memory req h = Some (None, h)"
      "\<And>a n. a \<in> set os \<Longrightarrow> shape h a = Some (n, True) \<Longrightarrow> n < align_up req"
  | (block) p n h' os' fl' where "allocate_memory req h = Some (Some p, h')" "heap_inv h' os' fl'"
      "used h' os' = (used h os)(p \<mapsto> n)" "unat req \<le> n" "used h os p = None"
proof -
  note I = heap_invD [OF inv]
  define k where "k = align_up req"
  note k = align_up_ok [OF req, folded k_def]
  let ?P = "\<lambda>a. is_free (the (hdrs h a)) \<and> k \<le> bh_size (the (hdrs h a))"
  have ff: "first_fit (hdrs h) k (free_list_head h) = Some (find ?P fl)"
    unfolding I(5) by (rule first_fit_dseg [OF I(4)])
  show ?thesis
  proof (cases "find ?P fl")
    case None
    have "n < k" if aos: "a \<in> set os" and sa: "shape h a = Some (n, True)" for a n
    proof -
      obtain b where "hdrs h a = Some b" "bh_size b = n" "is_free b" using shape_SomeD [OF sa] by auto
      moreover have "a \<in> set fl" using aos sa I(7) by (auto simp: free_blocks_def)
      moreover from this None have "\<not> ?P a" unfolding find_None_iff by blast
      ultimately show ?thesis by (simp add: not_le)
    qed
    moreover have "allocate_memory req h = Some (None, h)"
      using ff None k(3) by (simp add: allocate_memory_def initialized_init [OF I(1)] k_def [symmetric] Let_def)
    ultimately show ?thesis using full by (simp add: k_def)
  next
    case (Some a)
    then have a: "a \<in> set fl" "?P a" by (auto simp: find_Some_iff)
    obtain n where n: "a \<in> set os" "shape h a = Some (n, True)" using a(1) I(7) by (auto simp: free_blocks_def)
    obtain b where b: "hdrs h a = Some b" "bh_size b = n" "is_free b" using shape_SomeD [OF n(2)] by auto
    have kn: "k \<le> n" using a(2) b by simp
    obtain fx fy where fl: "fl = fx @ a # fy" using a(1) by (auto dest: split_list)
    obtain xs ys where os: "os = xs @ a # ys" using n(1) by (auto dest: split_list)
    define big where "big \<longleftrightarrow> of_nat HEADER_SIZE + ALIGNMENT < n - k"
    define cont where "cont h1 = do {
          h2 \<leftarrow> remove_from_free_list a h1;
          h3 \<leftarrow> upd a (is_free_update (\<lambda>_. False)) h2;
          Some (Some (a + HEADER_SIZE), h3) }" for h1
    have run: "allocate_memory req h = Option.bind (if big then split_block a k (n - k) h else Some h) cont"
      using ff Some k(3) b unfolding big_def cont_def
      by (simp add: allocate_memory_def initialized_init [OF I(1)] k_def [symmetric] Let_def)
    have fresh: "used h os (a + HEADER_SIZE) = None" using n by (simp add: used_def)
    show ?thesis
    proof (cases big)
      case True
      define c where "c = a + HEADER_SIZE + unat k"
      obtain h1 where h1: "split_block a k (n - k) h = Some h1" "heap_inv h1 (xs @ a # c # ys) (c # fl)"
          "shape h1 a = Some (k, True)" "used h1 (xs @ a # c # ys) = used h os"
        using split_correct [OF inv [unfolded os] n(2) kn True [unfolded big_def] k(2)] unfolding c_def os by blast
      have h1': "heap_inv h1 (xs @ a # c # ys) ((c # fx) @ a # fy)" using h1(2) fl by simp
      obtain h2 h3 where h3: "remove_from_free_list a h1 = Some h2" "upd a (is_free_update (\<lambda>_. False)) h2 = Some h3"
        "heap_inv h3 (xs @ a # c # ys) ((c # fx) @ fy)"
        "used h3 (xs @ a # c # ys) = (used h1 (xs @ a # c # ys))(a + HEADER_SIZE \<mapsto> unat k)"
        by (rule take_block [OF h1' h1(3)])
      have "allocate_memory req h = Some (Some (a + HEADER_SIZE), h3)"
        unfolding run using True h1(1) h3(1,2) by (simp add: cont_def)
      then show ?thesis using block [OF _ h3(3), of "a + HEADER_SIZE" "unat k"] h3(4) h1(4) k(1) fresh by simp
    next
      case False
      obtain h2 h3 where h3: "remove_from_free_list a h = Some h2" "upd a (is_free_update (\<lambda>_. False)) h2 = Some h3"
        "heap_inv h3 os (fx @ fy)" "used h3 os = (used h os)(a + HEADER_SIZE \<mapsto> unat n)"
        by (rule take_block [OF inv [unfolded fl] n(2)])
      have "allocate_memory req h = Some (Some (a + HEADER_SIZE), h3)"
        unfolding run using False h3(1,2) by (simp add: cont_def)
      moreover have "unat req \<le> unat n" using k(1) kn by (simp add: word_le_nat_alt)
      ultimately show ?thesis using block [OF _ h3(3), of "a + HEADER_SIZE" "unat n"] h3(4) fresh by simp
    qed
  qed
qed

text \<open>Joining a free block with the one behind it.\<close>

lemma coalesce_correct:
  assumes inv: "heap_inv h (xs @ a # ys) fl" and a: "shape h a = Some (n, True)"
  obtains h' ys' fl' where "coalesce a h = Some h'" "heap_inv h' (xs @ a # ys') fl'"
    "used h' (xs @ a # ys') = used h (xs @ a # ys)"
proof -
  note I = heap_invD [OF inv]
  obtain b where b: "hdrs h a = Some b" "bh_size b = n" "is_free b" using shape_SomeD [OF a] by auto
  obtain n' f' where t: "shape h a = Some (n', f')" "tseg (shape h) 0 xs a"
      "tseg (shape h) (a + HEADER_SIZE + unat n') ys heap_size" "a \<notin> set xs" "a \<notin> set ys"
    by (rule tseg_at [OF I(2)])
  define c where "c = a + HEADER_SIZE + unat n"
  have ys: "tseg (shape h) c ys heap_size" using t(1,3) a by (simp add: c_def)
  show ?thesis
  proof (cases ys)
    case Nil
    then have "\<not> c + HEADER_SIZE \<le> heap_size" using ys by (simp add: HEADER_SIZE_def)
    then have "coalesce a h = Some h"
      using b by (simp add: coalesce_def c_def [symmetric] Let_def)
    then show ?thesis using that [of h ys fl] inv by simp
  next
    case (Cons d ys')
    obtain m g where d: "d = c" "shape h c = Some (m, g)" "tseg (shape h) (c + HEADER_SIZE + unat m) ys' heap_size"
      using ys Cons by auto
    have le: "c + HEADER_SIZE \<le> heap_size" using tseg_le [OF d(3)] by simp
    obtain nb where nb: "hdrs h c = Some nb" "bh_size nb = m" "is_free nb = g" using shape_SomeD [OF d(2)] by auto
    have listed: "is_in_free_list c h = Some (c \<in> set fl)"
      unfolding is_in_free_list_def I(5) by (rule in_list_from_dseg [OF I(4)])
    have cfl: "c \<in> set fl \<longleftrightarrow> g" unfolding I(7) free_blocks_def using d(1,2) Cons by simp
    show ?thesis
    proof (cases g)
      case False
      then have "coalesce a h = Some h"
        using b nb le by (simp add: coalesce_def c_def [symmetric] Let_def)
      then show ?thesis using that [of h ys fl] inv by simp
    next
      case True
      obtain fx fy where fl: "fl = fx @ c # fy" using True cfl by (auto dest: split_list)
      obtain h1 where h1: "remove_from_free_list c h = Some h1" "dseg (hdrs h1) None (fx @ fy) None"
        "free_list_head h1 = hd_or (fx @ fy) None" "shape h1 = shape h" "heap_initialized h1 = heap_initialized h"
        by (rule remove_correct [OF I(4,6,5) [unfolded fl]])
      obtain b1 where b1: "hdrs h1 a = Some b1" "bh_size b1 = n" "is_free b1"
        using shape_SomeD [of h1 a n True] a h1(4) by auto
      obtain nb1 where nb1: "hdrs h1 c = Some nb1" "bh_size nb1 = m"
        using shape_SomeD [of h1 c m g] d(2) h1(4) by auto
      define k where "k = n + (of_nat HEADER_SIZE + m)"
      have "unat n + 32 + unat m \<le> heap_size" using tseg_le [OF d(3)] by (simp add: c_def HEADER_SIZE_def)
      then have k: "unat k = unat n + HEADER_SIZE + unat m"
        by (simp add: k_def HEADER_SIZE_def heap_size_def unat_word_ariths)
      define h2 where "h2 = h1\<lparr>hdrs := (hdrs h1)(a \<mapsto> b1\<lparr>bh_size := k\<rparr>)\<rparr>"
      have s2: "shape h2 = (shape h)(a \<mapsto> (k, True))" using b1 by (simp add: h2_def shape_upd h1(4))
      have un: "upd a (\<lambda>b. b\<lparr>bh_size := bh_size b + (of_nat HEADER_SIZE + bh_size nb1)\<rparr>) h1 = Some h2"
        using b1 nb1 by (simp add: upd_def h2_def k_def)
      have "coalesce a h = Some h2"
        using b nb True le listed cfl h1(1) nb1(1) un
        by (simp add: coalesce_def c_def [symmetric] Let_def)
      moreover have "tseg (shape h2) 0 (xs @ a # ys') heap_size"
        unfolding s2 using I(2) Cons d(1,2) by (intro tseg_join [of "shape h" 0 xs a c ys' heap_size n True m g]) (simp_all add: k a)
      moreover have ca: "c \<notin> set (xs @ ys')" "c \<noteq> a"
      proof -
        have "tseg (shape h) 0 ((xs @ [a]) @ c # ys') heap_size" using I(2) Cons d(1) by simp
        then have "c \<notin> set (xs @ [a])" "c \<notin> set ys'" by (blast elim: tseg_at)+
        then show "c \<notin> set (xs @ ys')" "c \<noteq> a" by auto
      qed
      moreover have "set (fx @ fy) = free_blocks (shape h2) (xs @ a # ys')"
        using I(6,7) a ca unfolding s2 free_blocks_def fl Cons d(1) by auto
      moreover have "blocks_aligned (shape h2) (xs @ a # ys')"
      proof -
        have "16 dvd unat n" "16 dvd unat m" using I(3) a d(1,2) Cons by (auto simp: blocks_aligned_def)
        then have "16 dvd unat k" unfolding k HEADER_SIZE_def by simp
        then show ?thesis using I(3) unfolding s2 blocks_aligned_def Cons by auto
      qed
      moreover have "dseg (hdrs h2) None (fx @ fy) None"
        using h1(2) b1(1) dseg_same_links [of "hdrs h1" a b1] by (simp add: h2_def)
      ultimately have "coalesce a h = Some h2" "heap_inv h2 (xs @ a # ys') (fx @ fy)"
        using h1(3,5) I(1,6) unfolding heap_inv_def by (simp_all add: h2_def fl)
      moreover have "used h2 (xs @ a # ys') = used h (xs @ a # ys)"
        using ca a d(2) True by (intro ext) (auto simp: used_def s2 Cons d(1))
      ultimately show ?thesis by (rule that)
    qed
  qed
qed

lemma free_correct:
  assumes inv: "heap_inv h os fl" and p: "used h os p = Some n"
  obtains h' os' fl' where "free_memory (Some p) h = Some h'" "heap_inv h' os' fl'"
    "used h' os' = (used h os)(p := None)"
proof -
  define a where "a = p - HEADER_SIZE"
  obtain w where w: "HEADER_SIZE \<le> p" "a \<in> set os" "shape h a = Some (w, False)"
    using p by (auto simp: used_def a_def split: if_splits option.splits)
  obtain b where b: "hdrs h a = Some b" "bh_size b = w" "\<not> is_free b" using shape_SomeD [OF w(3)] by auto
  obtain h1 where h1: "add_to_free_list a h = Some h1" "heap_inv h1 os (a # fl)"
    "shape h1 = (shape h)(a \<mapsto> (w, True))" "used h1 os = (used h os)(a + HEADER_SIZE := None)"
    by (rule add_block [OF inv w(2,3)])
  obtain xs ys where os: "os = xs @ a # ys" using w(2) by (auto dest: split_list)
  have s1: "shape h1 a = Some (w, True)" using h1(3) by simp
  obtain h' ys' fl' where h': "coalesce a h1 = Some h'" "heap_inv h' (xs @ a # ys') fl'"
    "used h' (xs @ a # ys') = used h1 (xs @ a # ys)"
    by (rule coalesce_correct [OF h1(2) [unfolded os] s1])
  have "free_memory (Some p) h = Some h'"
    using w(1) b h1(1) h'(1) by (simp add: free_memory_def a_def [symmetric] Let_def)
  then show ?thesis using that [OF _ h'(2)] h'(3) h1(4) w(1) by (simp add: os a_def)
qed

section \<open>What an allocator promises\<close>

text \<open>\<open>rep h m\<close>: the blocks handed out and not yet given back start at the offsets in \<open>m\<close> and have
  at least the lengths it gives.\<close>

locale allocator =
  fixes alloc :: "u64 \<Rightarrow> 'h \<Rightarrow> (nat option \<times> 'h) option"
    and dealloc :: "nat option \<Rightarrow> 'h \<Rightarrow> 'h option"
    and rep :: "'h \<Rightarrow> (nat \<rightharpoonup> nat) \<Rightarrow> bool" and limit :: nat
  assumes alloc_law: "rep h m \<Longrightarrow> 0 < n \<Longrightarrow> unat n \<le> 2 ^ 64 - 16 \<Longrightarrow>
      \<exists>r h'. alloc n h = Some (r, h') \<and>
        (case r of None \<Rightarrow> rep h' m
         | Some p \<Rightarrow> m p = None \<and> (\<exists>k \<ge> unat n. rep h' (m(p \<mapsto> k))))"
    and dealloc_law: "rep h m \<Longrightarrow> m p = Some k \<Longrightarrow> \<exists>h'. dealloc (Some p) h = Some h' \<and> rep h' (m(p := None))"
    and apart_law: "rep h m \<Longrightarrow> m p = Some a \<Longrightarrow> m q = Some b \<Longrightarrow> p < q \<Longrightarrow> p + a \<le> q"
    and place_law: "rep h m \<Longrightarrow> m p = Some a \<Longrightarrow> 16 dvd p \<and> p + a \<le> limit"
begin

text \<open>What a program asked for, and still holds.\<close>

inductive run :: "'h \<Rightarrow> 'h \<Rightarrow> (nat \<rightharpoonup> nat) \<Rightarrow> bool" for h0 where
  start: "run h0 h0 Map.empty"
| new: "run h0 h m \<Longrightarrow> 0 < n \<Longrightarrow> unat n \<le> 2 ^ 64 - 16 \<Longrightarrow> alloc n h = Some (Some p, h') \<Longrightarrow>
    run h0 h' (m(p \<mapsto> unat n))"
| refused: "run h0 h m \<Longrightarrow> 0 < n \<Longrightarrow> unat n \<le> 2 ^ 64 - 16 \<Longrightarrow> alloc n h = Some (None, h') \<Longrightarrow> run h0 h' m"
| delete: "run h0 h m \<Longrightarrow> m p = Some n \<Longrightarrow> dealloc (Some p) h = Some h' \<Longrightarrow> run h0 h' (m(p := None))"

definition covers :: "(nat \<rightharpoonup> nat) \<Rightarrow> (nat \<rightharpoonup> nat) \<Rightarrow> bool" where
  "covers k m \<longleftrightarrow> (\<forall>p n. m p = Some n \<longrightarrow> (\<exists>l \<ge> n. k p = Some l))"

lemma covers_upd: "covers k m \<Longrightarrow> n \<le> l \<Longrightarrow> covers (k(p \<mapsto> l)) (m(p \<mapsto> n))"
  "covers k m \<Longrightarrow> covers (k(p := None)) (m(p := None))"
  by (simp_all add: covers_def)

lemma coversD: "covers k m \<Longrightarrow> m p = Some n \<Longrightarrow> \<exists>l \<ge> n. k p = Some l"
  by (simp add: covers_def)

lemma run_rep:
  assumes "run h0 h m" and "rep h0 Map.empty"
  shows "\<exists>k. rep h k \<and> covers k m"
  using assms
proof (induction rule: run.induct)
  case start
  then show ?case by (intro exI [of _ Map.empty]) (simp add: covers_def)
next
  case (new h m n p h')
  then obtain k where k: "rep h k" "covers k m" by blast
  from alloc_law [OF k(1) new.hyps(2,3)] new.hyps(4) obtain l where "unat n \<le> l" "rep h' (k(p \<mapsto> l))" by auto
  then show ?case using covers_upd(1) [OF k(2)] by blast
next
  case (refused h m n h')
  then obtain k where k: "rep h k" "covers k m" by blast
  from alloc_law [OF k(1) refused.hyps(2,3)] refused.hyps(4) have "rep h' k" by simp
  then show ?case using k(2) by blast
next
  case (delete h m p n h')
  then obtain k where k: "rep h k" "covers k m" by blast
  obtain l where "k p = Some l" using coversD [OF k(2) delete.hyps(2)] by blast
  from dealloc_law [OF k(1) this] delete.hyps(3) have "rep h' (k(p := None))" by simp
  then show ?case using covers_upd(2) [OF k(2)] by blast
qed

lemma run_apart:
  assumes "run h0 h m" and "rep h0 Map.empty" and p: "m p = Some a" and q: "m q = Some b" and "p \<noteq> q"
  shows "p + a \<le> q \<or> q + b \<le> p"
proof -
  obtain k where k: "rep h k" "covers k m" using run_rep [OF assms(1,2)] by blast
  obtain a' where a': "a \<le> a'" "k p = Some a'" using coversD [OF k(2) p] by blast
  obtain b' where b': "b \<le> b'" "k q = Some b'" using coversD [OF k(2) q] by blast
  show ?thesis
    using apart_law [OF k(1) a'(2) b'(2)] apart_law [OF k(1) b'(2) a'(2)] a'(1) b'(1) \<open>p \<noteq> q\<close> by linarith
qed

lemma run_place:
  assumes "run h0 h m" and "rep h0 Map.empty" and p: "m p = Some a"
  shows "16 dvd p" and "p + a \<le> limit"
proof -
  obtain k where k: "rep h k" "covers k m" using run_rep [OF assms(1,2)] by blast
  obtain a' where a': "a \<le> a'" "k p = Some a'" using coversD [OF k(2) p] by blast
  show "16 dvd p" "p + a \<le> limit" using place_law [OF k(1) a'(2)] a'(1) by simp_all
qed

lemma run_goes_on:
  assumes "run h0 h m" and "rep h0 Map.empty"
  shows "0 < n \<Longrightarrow> unat n \<le> 2 ^ 64 - 16 \<Longrightarrow> alloc n h \<noteq> None"
    and "m p = Some a \<Longrightarrow> dealloc (Some p) h \<noteq> None"
proof -
  obtain k where k: "rep h k" "covers k m" using run_rep [OF assms] by blast
  show "alloc n h \<noteq> None" if "0 < n" "unat n \<le> 2 ^ 64 - 16"
    using alloc_law [OF k(1) that] by auto
  show "dealloc (Some p) h \<noteq> None" if mp: "m p = Some a"
  proof -
    obtain l where "k p = Some l" using coversD [OF k(2) mp] by blast
    from dealloc_law [OF k(1) this] show ?thesis by auto
  qed
qed

lemma new_delete_restores:
  assumes "rep h m" and "0 < n" and "unat n \<le> 2 ^ 64 - 16" and "alloc n h = Some (Some p, h')"
  shows "\<exists>h''. dealloc (Some p) h' = Some h'' \<and> rep h'' m"
proof -
  from alloc_law [OF assms(1-3)] assms(4) obtain k where k: "m p = None" "rep h' (m(p \<mapsto> k))" by auto
  have "(m(p \<mapsto> k))(p := None) = m" using k(1) by auto
  then show ?thesis using dealloc_law [OF k(2), of p k] by simp
qed

end

section \<open>The kernel heap is one\<close>

definition heap_rep :: "kheap \<Rightarrow> (nat \<rightharpoonup> nat) \<Rightarrow> bool" where
  "heap_rep h m \<longleftrightarrow> (\<exists>os fl. heap_inv h os fl \<and> m = used h os) \<or> h = static_heap \<and> m = Map.empty"

lemma allocate_init: "allocate_memory n h = allocate_memory n (init_heap h)"
  by (simp add: allocate_memory_def init_heap_def)

interpretation kheap: allocator allocate_memory operator_delete heap_rep heap_size
proof unfold_locales
  fix h m and n :: u64
  assume rep: "heap_rep h m" and n: "0 < n" "unat n \<le> 2 ^ 64 - 16"
  obtain os fl where inv: "heap_inv (init_heap h) os fl" "m = used (init_heap h) os"
  proof (cases "h = static_heap \<and> m = Map.empty")
    case True
    then show ?thesis using that [of "[0]" "[0]"] init_heap_inv by simp
  next
    case False
    then show ?thesis
      using rep that initialized_init [OF heap_invD(1)] by (auto simp: heap_rep_def)
  qed
  show "\<exists>r h'. allocate_memory n h = Some (r, h') \<and>
        (case r of None \<Rightarrow> heap_rep h' m
         | Some p \<Rightarrow> m p = None \<and> (\<exists>k \<ge> unat n. heap_rep h' (m(p \<mapsto> k))))"
    using inv(1) n
  proof (cases rule: allocate_correct)
    case full
    then show ?thesis using inv by (subst allocate_init) (auto simp: heap_rep_def)
  next
    case (block p k h' os' fl')
    then have "heap_rep h' (m(p \<mapsto> k))" unfolding heap_rep_def inv(2) by metis
    then show ?thesis using block(1,4,5) inv(2) by (subst allocate_init) auto
  qed
next
  fix h m p k
  assume rep: "heap_rep h m" and p: "m p = Some k"
  then obtain os fl where inv: "heap_inv h os fl" "m = used h os" by (auto simp: heap_rep_def)
  obtain h' os' fl' where "free_memory (Some p) h = Some h'" "heap_inv h' os' fl'"
      "used h' os' = (used h os)(p := None)"
    using free_correct [OF inv(1), of p k] p inv(2) by blast
  then show "\<exists>h'. operator_delete (Some p) h = Some h' \<and> heap_rep h' (m(p := None))"
    unfolding operator_delete_def heap_rep_def inv(2) by metis
next
  fix h m p a q b
  assume "heap_rep h m" and "m p = Some a" "m q = Some b" "p < q"
  then show "p + a \<le> q" using used_disjoint by (fastforce simp: heap_rep_def)
next
  fix h m p a
  assume "heap_rep h m" and "m p = Some a"
  then show "16 dvd p \<and> p + a \<le> heap_size" using used_range by (fastforce simp: heap_rep_def)
qed

section \<open>Properties\<close>

text \<open>The kernel's use of its heap: what it asked for with \<^verbatim>\<open>new\<close>, for sizes that do not wrap, and
  still holds.\<close>

inductive heap_run :: "kheap \<Rightarrow> (nat \<rightharpoonup> nat) \<Rightarrow> bool" where
  boot: "heap_run static_heap Map.empty"
| call_new: "heap_run h m \<Longrightarrow> 0 < n \<Longrightarrow> unat n \<le> 2 ^ 64 - 16 \<Longrightarrow> operator_new n h = Some (p, h') \<Longrightarrow>
    heap_run h' (m(p \<mapsto> unat n))"
| call_delete: "heap_run h m \<Longrightarrow> m p = Some n \<Longrightarrow> operator_delete (Some p) h = Some h' \<Longrightarrow>
    heap_run h' (m(p := None))"

lemma heap_run_run: "heap_run h m \<Longrightarrow> kheap.run static_heap h m"
proof (induction rule: heap_run.induct)
  case (call_new h m n p h')
  then have "allocate_memory n h = Some (Some p, h')"
    by (auto simp: operator_new_def split: option.splits)
  then show ?case using call_new by (intro kheap.new)
qed (rule kheap.start, rule kheap.delete)

lemma boot_rep: "heap_rep static_heap Map.empty" by (simp add: heap_rep_def)

lemmas heap_eval = allocate_memory_def init_heap_def static_heap_def first_fit.simps align_up_def
  ALIGNMENT_def heap_size_def HEADER_SIZE_def Let_def split_block_def upd_def add_to_free_list_def
  remove_from_free_list_def

text \<open>The heap after \<^verbatim>\<open>new\<close> of 100 bytes: a block of 112 and the rest.\<close>

definition heap_100 :: kheap where
  "heap_100 = \<lparr>hdrs = [0 \<mapsto> \<lparr>bh_size = 112, is_free = False, bh_next = None, bh_prev = None\<rparr>,
       144 \<mapsto> \<lparr>bh_size = 16777040, is_free = True, bh_next = None, bh_prev = None\<rparr>],
     free_list_head = Some 144, heap_initialized = True\<rparr>"

lemma new_100: "operator_new 100 static_heap = Some (32, heap_100)"
  unfolding operator_new_def by (simp add: heap_eval heap_100_def) (auto simp: fun_eq_iff)

lemma new_5: "\<exists>h. operator_new 5 heap_100 = Some (176, h)"
  unfolding operator_new_def by (simp add: heap_eval heap_100_def)

lemma two_blocks: "\<exists>h. heap_run h [32 \<mapsto> 100, 176 \<mapsto> 5]"
proof -
  obtain h where h: "operator_new 5 heap_100 = Some (176, h)" using new_5 by blast
  have "heap_run heap_100 [32 \<mapsto> 100]"
    using heap_run.call_new [OF heap_run.boot _ _ new_100] by simp
  from heap_run.call_new [OF this _ _ h] show ?thesis by auto
qed

text \<open>C8: after any sequence of allocations, each of 1 to \<open>2 ^ 64 - 16\<close> bytes, and releases, the blocks the kernel
  holds never overlap, lie within the heap's 16 MiB and start at multiples of 16.\<close>

theorem live_blocks_apart:
  assumes "heap_run h m" and "m p = Some a" and "m q = Some b" and "p \<noteq> q"
  shows "(p + a \<le> q \<or> q + b \<le> p) \<and> 16 dvd p \<and> p + a \<le> heap_size"
  using kheap.run_apart [OF heap_run_run [OF assms(1)] boot_rep assms(2-4)]
    kheap.run_place [OF heap_run_run [OF assms(1)] boot_rep assms(2)] by blast

theorem live_blocks_apart_witness:
  "\<exists>h. heap_run h [32 \<mapsto> 100, 176 \<mapsto> 5] \<and> (32 + 100 \<le> (176 :: nat) \<or> 176 + 5 \<le> (32 :: nat)) \<and> 16 dvd (32 :: nat)
     \<and> 32 + 100 \<le> heap_size"
proof -
  obtain h where h: "heap_run h [32 \<mapsto> 100, 176 \<mapsto> 5]" using two_blocks by blast
  have "(32 + 100 \<le> (176 :: nat) \<or> 176 + 5 \<le> (32 :: nat)) \<and> 16 dvd (32 :: nat) \<and> 32 + 100 \<le> heap_size"
    by (rule live_blocks_apart [OF h]) simp_all
  then show ?thesis using h by blast
qed

text \<open>C10: the heap never gets stuck. After any sequence of allocations, each of 1 to \<open>2 ^ 64 - 16\<close> bytes, and releases,
  also after none, the next such allocation comes to an end, with memory or without: every walk along the list ends and every
  header it reads is there; and every block that was handed out can be given back.\<close>

theorem heap_never_stuck:
  assumes "heap_run h m" and "0 < n" and "unat n \<le> 2 ^ 64 - 16"
  shows "allocate_memory n h \<noteq> None \<and> (\<forall>p\<in>dom m. operator_delete (Some p) h \<noteq> None)"
  using kheap.run_goes_on [OF heap_run_run [OF assms(1)] boot_rep] assms(2,3) by blast

theorem heap_never_stuck_witness:
  "allocate_memory 4096 static_heap \<noteq> None \<and>
   (\<exists>h. heap_run h [32 \<mapsto> 100, 176 \<mapsto> 5] \<and> allocate_memory 4096 h \<noteq> None \<and>
     operator_delete (Some 32) h \<noteq> None \<and> operator_delete (Some 176) h \<noteq> None)"
proof -
  obtain h where h: "heap_run h [32 \<mapsto> 100, 176 \<mapsto> 5]" using two_blocks by blast
  then show ?thesis using heap_never_stuck [OF h, of 4096] heap_never_stuck [OF heap_run.boot, of 4096] by auto
qed

text \<open>Sizes outside that range are not refused. The largest requests wrap to the smallest and get a
  block of one byte, and after a request for no bytes the next block is no longer aligned.\<close>

theorem bad_sizes_granted:
  "(\<exists>h. operator_new (- 1) static_heap = Some (32, h) \<and> shape h 0 = Some (1, False)) \<and>
   (\<exists>h h'. operator_new 0 static_heap = Some (32, h) \<and> operator_new 16 h = Some (65, h'))"
  unfolding operator_new_def by (simp add: heap_eval shape_def)

end
