(* ===== verification/Display.thy ===== *)
theory Display
  imports DynArr
begin

unbundle bit_operations_syntax

text \<open>
  The screens (\<^verbatim>\<open>include/AlopexOS/display.hpp\<close>, \<^verbatim>\<open>src/kernel/display.cpp\<close>): drawing into the boot
  loader's frame buffers and the list of them. Video memory is a function from addresses to
  32-bit pixels; the coordinates and sizes are 32-bit words that wrap, the lines are drawn in
  \<^verbatim>\<open>int\<close>, where an overflow has no value.
\<close>

section \<open>Screens\<close>

record vector2D =
  vx :: u32
  vy :: u32

definition vec :: "u32 \<Rightarrow> u32 \<Rightarrow> vector2D" where "vec a b = \<lparr>vx = a, vy = b\<rparr>"

record limine_framebuffer =
  fb_address :: u64
  fb_width :: u64
  fb_height :: u64
  fb_pitch :: u64

type_synonym screen = "limine_framebuffer option"
type_synonym video = "u64 \<Rightarrow> u32"

definition screen_ctor :: screen where "screen_ctor = None"
definition screen_of :: "limine_framebuffer option \<Rightarrow> screen" where "screen_of buffer = buffer"

text \<open>\<^verbatim>\<open>p[i] = v\<close> for a pointer to 32-bit pixels.\<close>

definition store_pixel :: "u64 \<Rightarrow> u64 \<Rightarrow> u32 \<Rightarrow> video \<Rightarrow> video" where
  "store_pixel p i v m = m(p + 4 * i := v)"

text \<open>The getters dereference the buffer without a check.\<close>

definition getPixels :: "screen \<Rightarrow> u64 option" where "getPixels sc = map_option fb_address sc"

definition getPitch :: "screen \<Rightarrow> u64 option" where
  "getPitch sc = map_option (\<lambda>fb. drop_bit 2 (fb_pitch fb)) sc"

definition get_screen_size :: "screen \<Rightarrow> vector2D option" where
  "get_screen_size sc = map_option (\<lambda>fb. vec (ucast (fb_width fb)) (ucast (fb_height fb))) sc"

definition set_pixel :: "screen \<Rightarrow> vector2D \<Rightarrow> u32 \<Rightarrow> video \<Rightarrow> video" where
  "set_pixel sc coord color m = (case sc of
     None \<Rightarrow> m
   | Some fb \<Rightarrow>
       if fb_width fb \<le> ucast (vx coord) \<or> fb_height fb \<le> ucast (vy coord) then m
       else (let pitch_pixels = drop_bit 2 (fb_pitch fb) in
             if fb_address fb = 0 then m
             else store_pixel (fb_address fb) (ucast (vy coord) * pitch_pixels + ucast (vx coord)) color m))"

text \<open>The row loop that \<^verbatim>\<open>clear\<close> and \<^verbatim>\<open>fill_rect\<close> share: \<open>n\<close> pixels from \<open>row_start\<close>.\<close>

definition fill_row :: "u64 \<Rightarrow> nat \<Rightarrow> u32 \<Rightarrow> video \<Rightarrow> video" where
  "fill_row row_start n color m = fold (\<lambda>x. store_pixel row_start (of_nat x) color) [0..<n] m"

definition clear_screen :: "screen \<Rightarrow> u32 \<Rightarrow> video \<Rightarrow> video" where
  "clear_screen sc color m = (case sc of
     None \<Rightarrow> m
   | Some fb \<Rightarrow>
       (let pitch_pixels = drop_bit 2 (fb_pitch fb) in
        if fb_address fb = 0 then m
        else fold (\<lambda>y. fill_row (fb_address fb + 4 * (of_nat y * pitch_pixels)) (unat (fb_width fb)) color)
               [0..<unat (fb_height fb)] m))"

definition fill_rect :: "screen \<Rightarrow> vector2D \<Rightarrow> vector2D \<Rightarrow> u32 \<Rightarrow> video \<Rightarrow> video" where
  "fill_rect sc pos sz color m = (case sc of
     None \<Rightarrow> m
   | Some fb \<Rightarrow>
       (let x1 = vx pos; y1 = vy pos; x2 = vx pos + vx sz; y2 = vy pos + vy sz;
            max_w = ucast (fb_width fb); max_h = ucast (fb_height fb)
        in if max_w \<le> x1 \<or> max_h \<le> y1 then m
           else (let x2 = (if max_w < x2 then max_w else x2);
                     y2 = (if max_h < y2 then max_h else y2);
                     pitch_pixels = drop_bit 2 (fb_pitch fb)
                 in if fb_address fb = 0 then m
                    else fold (\<lambda>y. fill_row (fb_address fb + 4 * (of_nat y * pitch_pixels + ucast x1))
                                     (unat (x2 - x1)) color)
                           [unat y1..<unat y2] m)))"

definition draw_rect :: "screen \<Rightarrow> vector2D \<Rightarrow> vector2D \<Rightarrow> u32 \<Rightarrow> video \<Rightarrow> video" where
  "draw_rect sc pos sz color m = (case sc of
     None \<Rightarrow> m
   | Some fb \<Rightarrow>
       (let x1 = vx pos; y1 = vy pos; x2 = vx pos + vx sz; y2 = vy pos + vy sz;
            max_w = ucast (fb_width fb); max_h = ucast (fb_height fb)
        in if max_w \<le> x1 \<or> max_h \<le> y1 then m
           else (let x2 = (if max_w < x2 then max_w else x2);
                     y2 = (if max_h < y2 then max_h else y2);
                     m1 = fold (\<lambda>x m. let m = set_pixel sc (vec (of_nat x) y1) color m in
                             if y1 < y2 - 1 then set_pixel sc (vec (of_nat x) (y2 - 1)) color m else m)
                           [unat x1..<unat x2] m
                 in fold (\<lambda>y m. let m = set_pixel sc (vec x1 (of_nat y)) color m in
                             if x1 < x2 - 1 then set_pixel sc (vec (x2 - 1) (of_nat y)) color m else m)
                      [unat (y1 + 1)..<unat (y2 - 1)] m1)))"

section \<open>Lines\<close>

text \<open>\<^verbatim>\<open>int\<close> arithmetic: no value on overflow.\<close>

definition i32 :: "int \<Rightarrow> int option" where
  "i32 i = (if - (2 ^ 31) \<le> i \<and> i < 2 ^ 31 then Some i else None)"

record line =
  ln_x :: int
  ln_y :: int
  ln_err :: int

text \<open>What a line is drawn with: \<open>dx\<close>, \<open>sx\<close>, \<open>dy\<close>, \<open>sy\<close> and the end point.\<close>

record line_par =
  lp_dx :: int
  lp_sx :: int
  lp_dy :: int
  lp_sy :: int
  lp_x1 :: int
  lp_y1 :: int

text \<open>The part of the loop after the test: the error and the next point.\<close>

definition line_step :: "line_par \<Rightarrow> line \<Rightarrow> line option" where
  "line_step lp l = do {
     e2 \<leftarrow> i32 (2 * ln_err l);
     l1 \<leftarrow> (if lp_dy lp \<le> e2
            then do { e \<leftarrow> i32 (ln_err l + lp_dy lp); x \<leftarrow> i32 (ln_x l + lp_sx lp);
                      Some (l\<lparr>ln_err := e, ln_x := x\<rparr>) }
            else Some l);
     (if e2 \<le> lp_dx lp
      then do { e \<leftarrow> i32 (ln_err l1 + lp_dx lp); y \<leftarrow> i32 (ln_y l1 + lp_sy lp);
                Some (l1\<lparr>ln_err := e, ln_y := y\<rparr>) }
      else Some l1) }"

partial_function (option) line_loop ::
    "screen \<Rightarrow> line_par \<Rightarrow> u32 \<Rightarrow> line \<Rightarrow> video \<Rightarrow> video option" where
  "line_loop sc lp color l m =
     (let m1 = set_pixel sc (vec (of_int (ln_x l)) (of_int (ln_y l))) color m in
      if ln_x l = lp_x1 lp \<and> ln_y l = lp_y1 lp then Some m1
      else Option.bind (line_step lp l) (\<lambda>l'. line_loop sc lp color l' m1))"

definition line_setup :: "vector2D \<Rightarrow> vector2D \<Rightarrow> (line_par \<times> line) option" where
  "line_setup p0 p1 = do {
     d1 \<leftarrow> i32 (sint (vx p1) - sint (vx p0));
     dx \<leftarrow> i32 \<bar>d1\<bar>;
     d2 \<leftarrow> i32 (sint (vy p1) - sint (vy p0));
     ady \<leftarrow> i32 \<bar>d2\<bar>;
     err \<leftarrow> i32 (dx + - ady);
     Some (\<lparr>lp_dx = dx, lp_sx = (if vx p0 < vx p1 then 1 else -1), lp_dy = - ady,
             lp_sy = (if vy p0 < vy p1 then 1 else -1), lp_x1 = sint (vx p1), lp_y1 = sint (vy p1)\<rparr>,
           \<lparr>ln_x = sint (vx p0), ln_y = sint (vy p0), ln_err = err\<rparr>) }"

definition draw_line :: "screen \<Rightarrow> vector2D \<Rightarrow> vector2D \<Rightarrow> u32 \<Rightarrow> video \<Rightarrow> video option" where
  "draw_line sc p0 p1 color m =
     Option.bind (line_setup p0 p1) (\<lambda>(lp, l). line_loop sc lp color l m)"

section \<open>The list of screens\<close>

text \<open>The boot loader's answer: a count and an array of pointers to frame buffers, itself possibly null.\<close>

record framebuffer_response =
  framebuffer_count :: u64
  framebuffers :: "limine_framebuffer option list option"

record displays =
  response :: "framebuffer_response option"
  screen_buffer :: "screen dynarr"

definition displays_fields :: displays where
  "displays_fields = \<lparr>response = None, screen_buffer = dyn_init\<rparr>"

text \<open>\<open>framebuffers[i]\<close>, which must have that many entries.\<close>

fun place_screens :: "limine_framebuffer option list \<Rightarrow> nat list \<Rightarrow> screen dynarr \<Rightarrow> screen dynarr option" where
  "place_screens fbs [] d = Some d"
| "place_screens fbs (i # is) d =
     (if i < length fbs then
        (case fbs ! i of
           None \<Rightarrow> place_screens fbs is d
         | Some fb \<Rightarrow> Option.bind (dyn_set d i (screen_of (Some fb))) (place_screens fbs is))
      else None)"

text \<open>Without an answer the constructor waits for ever.\<close>

definition displays_ctor :: "framebuffer_response option \<Rightarrow> displays option" where
  "displays_ctor req = (case req of
     None \<Rightarrow> None
   | Some r \<Rightarrow>
       (let d = displays_fields\<lparr>response := Some r\<rparr> in
        case framebuffers r of
          None \<Rightarrow> Some d
        | Some fbs \<Rightarrow>
            if framebuffer_count r = 0 then Some d
            else do {
              b \<leftarrow> dyn_resize screen_ctor (unat (framebuffer_count r)) (screen_buffer d);
              b' \<leftarrow> place_screens fbs [0..<size_field b] b;
              Some (d\<lparr>screen_buffer := b'\<rparr>) }))"

text \<open>The singleton: the object that was made first, or a new one.\<close>

definition displays_initialize ::
    "framebuffer_response option \<Rightarrow> displays option \<Rightarrow> displays option" where
  "displays_initialize req instance = (case instance of Some d \<Rightarrow> Some d | None \<Rightarrow> displays_ctor req)"

definition get_screen_count :: "displays \<Rightarrow> u8" where
  "get_screen_count d = of_nat (size_field (screen_buffer d))"

definition get_screen :: "displays \<Rightarrow> u8 \<Rightarrow> screen option option" where
  "get_screen d i =
     (if size_field (screen_buffer d) \<le> unat i then Some None
      else map_option Some (dyn_index (screen_buffer d) (unat i)))"

definition get_screens :: "displays \<Rightarrow> screen dynarr" where "get_screens d = screen_buffer d"

section \<open>Lines reach their end\<close>

text \<open>After \<open>i\<close> steps across and \<open>j\<close> steps down, out of \<open>a\<close> and \<open>b\<close>.\<close>

definition line_inv :: "line_par \<Rightarrow> int \<Rightarrow> int \<Rightarrow> int \<Rightarrow> int \<Rightarrow> line \<Rightarrow> bool" where
  "line_inv lp x0 y0 i j l \<longleftrightarrow>
     ln_x l = x0 + i * lp_sx lp \<and> ln_y l = y0 + j * lp_sy lp \<and>
     ln_err l = (j + 1) * lp_dx lp + (i + 1) * lp_dy lp \<and>
     0 \<le> i \<and> i \<le> lp_dx lp \<and> 0 \<le> j \<and> j \<le> - lp_dy lp \<and>
     3 * lp_dy lp \<le> 2 * ln_err l \<and> 2 * ln_err l \<le> 3 * lp_dx lp"

definition line_ok :: "line_par \<Rightarrow> int \<Rightarrow> int \<Rightarrow> bool" where
  "line_ok lp x0 y0 \<longleftrightarrow>
     lp_sx lp \<in> {-1, 1} \<and> lp_sy lp \<in> {-1, 1} \<and> 0 \<le> lp_dx lp \<and> lp_dy lp \<le> 0 \<and>
     lp_dx lp < 2 ^ 29 \<and> - (2 ^ 29) < lp_dy lp \<and>
     lp_x1 lp = x0 + lp_dx lp * lp_sx lp \<and> lp_y1 lp = y0 + - lp_dy lp * lp_sy lp \<and>
     0 \<le> x0 \<and> x0 < 2 ^ 29 \<and> 0 \<le> y0 \<and> y0 < 2 ^ 29"

text \<open>At the end of one axis only the other one moves.\<close>

lemma axis_done:
  fixes dx dy :: int
  assumes "0 \<le> dx" and "dy \<le> 0" and "j + 1 \<le> - dy" and "err = (j + 1) * dx + (dx + 1) * dy"
  shows "err \<le> dy"
proof -
  have "(j + 1) * dx \<le> - dy * dx" using assms(1,3) by (intro mult_right_mono) simp_all
  then show ?thesis using assms(4) by (simp add: algebra_simps)
qed

lemma axis_done':
  fixes dx dy :: int
  assumes "0 \<le> dx" and "dy \<le> 0" and "i + 1 \<le> dx" and "err = (- dy + 1) * dx + (i + 1) * dy"
  shows "dx \<le> err"
proof -
  have "dx * dy \<le> (i + 1) * dy" using assms(2,3) by (intro mult_right_mono_neg) simp_all
  then show ?thesis using assms(4) by (simp add: algebra_simps)
qed

lemma i32_small: "- (2 ^ 31) \<le> i \<Longrightarrow> i < 2 ^ 31 \<Longrightarrow> i32 i = Some i" by (simp add: i32_def)

lemma unit_mult_bound: "s \<in> {-1, 1 :: int} \<Longrightarrow> 0 \<le> i \<Longrightarrow> i < n \<Longrightarrow> - n < i * s \<and> i * s < n" by auto

lemma line_step_ok:
  assumes ok: "line_ok lp x0 y0" and inv: "line_inv lp x0 y0 i j l"
    and more: "\<not> (i = lp_dx lp \<and> j = - lp_dy lp)"
  obtains l' i' j' where "line_step lp l = Some l'" "line_inv lp x0 y0 i' j' l'"
    "i' \<in> {i, i + 1}" "j' \<in> {j, j + 1}" "i + j < i' + j'"
proof -
  define dx dy err where "dx = lp_dx lp" "dy = lp_dy lp" "err = ln_err l"
  note d = this
  have o: "lp_sx lp \<in> {-1, 1}" "lp_sy lp \<in> {-1, 1}" "0 \<le> dx" "dy \<le> 0" "dx < 2 ^ 29" "- (2 ^ 29) < dy"
    "0 \<le> x0" "x0 < 2 ^ 29" "0 \<le> y0" "y0 < 2 ^ 29"
    using ok by (simp_all add: line_ok_def d)
  have v: "ln_x l = x0 + i * lp_sx lp" "ln_y l = y0 + j * lp_sy lp" "err = (j + 1) * dx + (i + 1) * dy"
    "0 \<le> i" "i \<le> dx" "0 \<le> j" "j \<le> - dy" "3 * dy \<le> 2 * err" "2 * err \<le> 3 * dx"
    using inv by (simp_all add: line_inv_def d)
  have xm: "i < dx" if "dy \<le> 2 * err"
  proof (rule ccontr)
    assume "\<not> i < dx"
    then have "i = dx" using v(5) by simp
    then have "j + 1 \<le> - dy" using more v(7) by (simp add: d)
    then have "err \<le> dy" using axis_done [OF o(3,4)] v(3) \<open>i = dx\<close> by simp
    moreover have "dy < 0" using \<open>j + 1 \<le> - dy\<close> v(6) by simp
    ultimately show False using that by simp
  qed
  have ym: "j < - dy" if "2 * err \<le> dx"
  proof (rule ccontr)
    assume "\<not> j < - dy"
    then have "j = - dy" using v(7) by simp
    then have "i + 1 \<le> dx" using more v(5) by (simp add: d)
    then have "dx \<le> err" using axis_done' [OF o(3,4)] v(3) \<open>j = - dy\<close> by simp
    moreover have "0 < dx" using \<open>i + 1 \<le> dx\<close> v(4) by simp
    ultimately show False using that by simp
  qed
  define mx my where "mx \<longleftrightarrow> dy \<le> 2 * err" "my \<longleftrightarrow> 2 * err \<le> dx"
  note m = this
  define i' j' where "i' = (if mx then i + 1 else i)" "j' = (if my then j + 1 else j)"
  note ij = this
  define l' where "l' = \<lparr>ln_x = x0 + i' * lp_sx lp, ln_y = y0 + j' * lp_sy lp,
    ln_err = (j' + 1) * dx + (i' + 1) * dy\<rparr>"
  have some: "mx \<or> my" using o(3,4) unfolding m by linarith
  have bx: "i32 (ln_x l + lp_sx lp) = Some (x0 + (i + 1) * lp_sx lp)"
    using o v unit_mult_bound [OF o(1), of "i + 1" "2 ^ 30"]
    by (intro trans [OF i32_small]) (simp_all add: algebra_simps)
  have "by": "i32 (ln_y l + lp_sy lp) = Some (y0 + (j + 1) * lp_sy lp)"
    using o v unit_mult_bound [OF o(2), of "j + 1" "2 ^ 30"]
    by (intro trans [OF i32_small]) (simp_all add: algebra_simps)
  have e2: "i32 (2 * err) = Some (2 * err)" using o v by (intro i32_small) simp_all
  have e: "i32 (err + dy) = Some (err + dy)" "i32 (err + dx) = Some (err + dx)"
    "mx \<Longrightarrow> i32 (err + dy + dx) = Some (err + dy + dx)"
    using o v by (intro i32_small; simp)+
  have errs: "(j' + 1) * dx + (i' + 1) * dy = err + (if mx then dy else 0) + (if my then dx else 0)"
    unfolding v(3) ij by (simp add: algebra_simps)
  have "line_step lp l = Some l'"
  proof -
    obtain lx ly le where l: "l = \<lparr>ln_x = lx, ln_y = ly, ln_err = le\<rparr>" by (cases l)
    have le: "le = err" using d(3) l by simp
    have lxy: "lx = x0 + i * lp_sx lp" "ly = y0 + j * lp_sy lp" using v(1,2) l by simp_all
    have c: "lp_dy lp \<le> 2 * le \<longleftrightarrow> mx" "2 * le \<le> lp_dx lp \<longleftrightarrow> my" by (simp_all add: m le d(1,2))
    have b: "i32 (lx + lp_sx lp) = Some (x0 + (i + 1) * lp_sx lp)"
      "i32 (ly + lp_sy lp) = Some (y0 + (j + 1) * lp_sy lp)"
      using bx "by" l by simp_all
    have E: "i32 (2 * le) = Some (2 * le)" "i32 (le + lp_dy lp) = Some (le + lp_dy lp)"
      "i32 (le + lp_dx lp) = Some (le + lp_dx lp)"
      "mx \<Longrightarrow> i32 (le + lp_dy lp + lp_dx lp) = Some (le + lp_dy lp + lp_dx lp)"
      using e2 e by (simp_all add: le d(1,2))
    have L: "l' = \<lparr>ln_x = x0 + i' * lp_sx lp, ln_y = y0 + j' * lp_sy lp,
        ln_err = le + (if mx then lp_dy lp else 0) + (if my then lp_dx lp else 0)\<rparr>"
      using errs by (simp add: l'_def le d(1,2))
    show ?thesis
      unfolding line_step_def L ij l using b E by (cases mx; cases my) (simp_all add: c lxy)
  qed
  moreover have "line_inv lp x0 y0 i' j' l'"
  proof -
    have "0 \<le> i'" "i' \<le> dx" "0 \<le> j'" "j' \<le> - dy" using v xm ym unfolding ij m by auto
    moreover have "3 * dy \<le> 2 * ln_err l'" "2 * ln_err l' \<le> 3 * dx"
      using o v some unfolding l'_def line.simps errs m by (simp_all split: if_splits)
    ultimately show ?thesis by (simp add: line_inv_def l'_def d(1,2) [symmetric])
  qed
  ultimately show ?thesis using that [of l' i' j'] some by (auto simp: ij)
qed

text \<open>Consecutive points are neighbours.\<close>

fun connected :: "(int \<times> int) list \<Rightarrow> bool" where
  "connected ((x, y) # (x', y') # ps) \<longleftrightarrow>
     \<bar>x' - x\<bar> \<le> 1 \<and> \<bar>y' - y\<bar> \<le> 1 \<and> (x', y') \<noteq> (x, y) \<and> connected ((x', y') # ps)"
| "connected ps \<longleftrightarrow> True"

definition plot :: "screen \<Rightarrow> u32 \<Rightarrow> (int \<times> int) list \<Rightarrow> video \<Rightarrow> video" where
  "plot sc color ps m = fold (\<lambda>(x, y). set_pixel sc (vec (of_int x) (of_int y)) color) ps m"

lemma line_loop_plots:
  assumes ok: "line_ok lp x0 y0" and inv: "line_inv lp x0 y0 i j l"
  shows "\<exists>ps. line_loop sc lp color l m = Some (plot sc color ((ln_x l, ln_y l) # ps) m) \<and>
    last ((ln_x l, ln_y l) # ps) = (lp_x1 lp, lp_y1 lp) \<and> connected ((ln_x l, ln_y l) # ps)"
  using inv
proof (induction "nat (lp_dx lp - i) + nat (- lp_dy lp - j)" arbitrary: i j l m rule: less_induct)
  case less
  let ?m1 = "set_pixel sc (vec (of_int (ln_x l)) (of_int (ln_y l))) color m"
  have s: "lp_sx lp \<in> {-1, 1}" "lp_sy lp \<in> {-1, 1}" using ok by (simp_all add: line_ok_def)
  have x: "ln_x l = x0 + i * lp_sx lp" "ln_y l = y0 + j * lp_sy lp"
    "i \<le> lp_dx lp" "j \<le> - lp_dy lp"
    using less.prems by (simp_all add: line_inv_def)
  have e: "lp_x1 lp = x0 + lp_dx lp * lp_sx lp" "lp_y1 lp = y0 + - lp_dy lp * lp_sy lp"
    using ok by (simp_all add: line_ok_def)
  have at_end: "ln_x l = lp_x1 lp \<and> ln_y l = lp_y1 lp \<longleftrightarrow> i = lp_dx lp \<and> j = - lp_dy lp"
    using s unfolding x(1,2) e by auto
  show ?case
  proof (cases "i = lp_dx lp \<and> j = - lp_dy lp")
    case True
    then show ?thesis
      using at_end by (subst line_loop.simps) (auto simp: plot_def intro!: exI [of _ "[]"])
  next
    case False
    obtain l' i' j' where st: "line_step lp l = Some l'" "line_inv lp x0 y0 i' j' l'"
      "i' \<in> {i, i + 1}" "j' \<in> {j, j + 1}" "i + j < i' + j'"
      by (rule line_step_ok [OF ok less.prems False])
    have x': "ln_x l' = x0 + i' * lp_sx lp" "ln_y l' = y0 + j' * lp_sy lp"
      "i' \<le> lp_dx lp" "j' \<le> - lp_dy lp"
      using st(2) by (simp_all add: line_inv_def)
    have "nat (lp_dx lp - i') + nat (- lp_dy lp - j') < nat (lp_dx lp - i) + nat (- lp_dy lp - j)"
      using st(3-5) x(3,4) x'(3,4) by auto
    then obtain ps where ps: "line_loop sc lp color l' ?m1 = Some (plot sc color ((ln_x l', ln_y l') # ps) ?m1)"
      "last ((ln_x l', ln_y l') # ps) = (lp_x1 lp, lp_y1 lp)" "connected ((ln_x l', ln_y l') # ps)"
      using less.hyps [OF _ st(2), of ?m1] by blast
    have "line_loop sc lp color l m = line_loop sc lp color l' ?m1"
      using False st(1) unfolding line_loop.simps [of sc lp color l m] at_end Let_def
      by (simp only: if_False Option.bind.simps)
    moreover have "\<bar>ln_x l' - ln_x l\<bar> \<le> 1" "\<bar>ln_y l' - ln_y l\<bar> \<le> 1" "(ln_x l', ln_y l') \<noteq> (ln_x l, ln_y l)"
      using st(3-5) s unfolding x(1,2) x'(1,2) by auto
    ultimately show ?thesis
      using ps by (intro exI [of _ "(ln_x l', ln_y l') # ps"]) (simp add: plot_def)
  qed
qed

lemma sint_small: "uint (w :: u32) < 2 ^ 31 \<Longrightarrow> sint w = uint w"
proof -
  assume "uint w < 2 ^ 31"
  moreover have "- (2 ^ 31) \<le> uint w" by (rule order_trans [OF _ uint_ge_0]) simp
  ultimately have "signed_take_bit 31 (uint w) = uint w" by (intro signed_take_bit_int_eq_self)
  then show ?thesis by (simp add: sint_uint)
qed

lemma line_setup_ok:
  assumes "uint (vx p0) < 2 ^ 29" "uint (vy p0) < 2 ^ 29" "uint (vx p1) < 2 ^ 29" "uint (vy p1) < 2 ^ 29"
  obtains lp l where "line_setup p0 p1 = Some (lp, l)" "line_ok lp (uint (vx p0)) (uint (vy p0))"
    "line_inv lp (uint (vx p0)) (uint (vy p0)) 0 0 l" "ln_x l = uint (vx p0)" "ln_y l = uint (vy p0)"
    "lp_x1 lp = uint (vx p1)" "lp_y1 lp = uint (vy p1)"
proof -
  define a b c d where "a = uint (vx p0)" "b = uint (vy p0)" "c = uint (vx p1)" "d = uint (vy p1)"
  note n = this
  have r: "0 \<le> a" "a < 2 ^ 29" "0 \<le> b" "b < 2 ^ 29" "0 \<le> c" "c < 2 ^ 29" "0 \<le> d" "d < 2 ^ 29"
    using assms by (simp_all add: n)
  have s: "sint (vx p0) = a" "sint (vy p0) = b" "sint (vx p1) = c" "sint (vy p1) = d"
    unfolding n using assms by (auto intro!: sint_small)
  define lp where "lp = \<lparr>lp_dx = \<bar>c - a\<bar>, lp_sx = (if vx p0 < vx p1 then 1 else -1), lp_dy = - \<bar>d - b\<bar>,
             lp_sy = (if vy p0 < vy p1 then 1 else -1), lp_x1 = c, lp_y1 = d\<rparr>"
  define l where "l = \<lparr>ln_x = a, ln_y = b, ln_err = \<bar>c - a\<bar> + - \<bar>d - b\<bar>\<rparr>"
  have "i32 (c - a) = Some (c - a)" "i32 \<bar>c - a\<bar> = Some \<bar>c - a\<bar>" "i32 (d - b) = Some (d - b)"
    "i32 \<bar>d - b\<bar> = Some \<bar>d - b\<bar>" "i32 (\<bar>c - a\<bar> + - \<bar>d - b\<bar>) = Some (\<bar>c - a\<bar> + - \<bar>d - b\<bar>)"
    using r by (simp_all add: i32_def abs_if)
  then have "line_setup p0 p1 = Some (lp, l)"
    by (simp add: line_setup_def s lp_def l_def)
  moreover have lt: "vx p0 < vx p1 \<longleftrightarrow> a < c" "vy p0 < vy p1 \<longleftrightarrow> b < d"
    by (simp_all add: n word_less_def)
  moreover have "line_ok lp a b"
    using r unfolding line_ok_def lp_def line_par.simps lt by auto
  moreover have "line_inv lp a b 0 0 l"
  proof -
    have "- (2 * \<bar>d - b\<bar>) \<le> \<bar>c - a\<bar>" by (rule order_trans [of _ 0]) simp_all
    then show ?thesis unfolding line_inv_def lp_def l_def by simp
  qed
  ultimately show ?thesis using that [folded n, of lp l] by (simp add: lp_def l_def)
qed

section \<open>Rectangles\<close>

text \<open>A frame buffer that fits in memory: its rows are as wide as its pixels, it does not wrap, and its
  size fits the 32-bit coordinates.\<close>

definition pitch_pixels :: "limine_framebuffer \<Rightarrow> u64" where "pitch_pixels fb = drop_bit 2 (fb_pitch fb)"

definition fb_ok :: "limine_framebuffer \<Rightarrow> bool" where
  "fb_ok fb \<longleftrightarrow> fb_address fb \<noteq> 0 \<and> unat (fb_width fb) \<le> unat (pitch_pixels fb) \<and>
     unat (fb_width fb) < 2 ^ 32 \<and> unat (fb_height fb) < 2 ^ 32 \<and>
     unat (fb_address fb) + 4 * (unat (fb_height fb) * unat (pitch_pixels fb)) \<le> 2 ^ 64"

definition pixel_addr :: "limine_framebuffer \<Rightarrow> nat \<Rightarrow> nat \<Rightarrow> u64" where
  "pixel_addr fb x y = fb_address fb + 4 * (of_nat y * pitch_pixels fb + of_nat x)"

definition rect_pixels :: "limine_framebuffer \<Rightarrow> nat set \<Rightarrow> nat set \<Rightarrow> u64 set" where
  "rect_pixels fb X Y = (\<Union>y \<in> Y. (\<lambda>x. pixel_addr fb x y) ` X)"

lemma fold_store:
  "fold (\<lambda>x. store_pixel p (of_nat x) c) xs m a =
     (if a \<in> (\<lambda>x. p + 4 * of_nat x) ` set xs then c else m a)"
  by (induction xs arbitrary: m) (auto simp: store_pixel_def)

lemma fill_row_pixels:
  "fill_row p n c m a = (if a \<in> (\<lambda>x. p + 4 * of_nat x) ` {0..<n} then c else m a)"
  unfolding fill_row_def fold_store by simp

lemma fold_rows:
  "fold (\<lambda>y. fill_row (p y) n c) ys m a =
     (if a \<in> (\<Union>y \<in> set ys. (\<lambda>x. p y + 4 * of_nat x) ` {0..<n}) then c else m a)"
proof (induction ys arbitrary: m)
  case (Cons y ys)
  have "fold (\<lambda>y. fill_row (p y) n c) (y # ys) m a = fold (\<lambda>y. fill_row (p y) n c) ys (fill_row (p y) n c m) a"
    by simp
  also have "\<dots> = (if a \<in> (\<Union>y \<in> set ys. (\<lambda>x. p y + 4 * of_nat x) ` {0..<n}) then c
      else fill_row (p y) n c m a)"
    by (rule Cons)
  finally show ?case unfolding fill_row_pixels by simp
qed simp

lemma row_pixels:
  "(\<lambda>x. fb_address fb + 4 * (of_nat y * pitch_pixels fb + of_nat x1) + 4 * of_nat x) ` {0..<n}
     = (\<lambda>x. pixel_addr fb x y) ` {x1..<x1 + n}"
proof -
  have "{x1..<x1 + n} = (\<lambda>x. x1 + x) ` {0..<n}" by (simp add: add.commute)
  then have "(\<lambda>x. pixel_addr fb x y) ` {x1..<x1 + n} = (\<lambda>x. pixel_addr fb (x1 + x) y) ` {0..<n}"
    by (simp only: image_image)
  then show ?thesis by (simp add: pixel_addr_def algebra_simps)
qed

lemma clear_screen_pixels:
  assumes "fb_ok fb"
  shows "clear_screen (Some fb) c m a =
    (if a \<in> rect_pixels fb {0..<unat (fb_width fb)} {0..<unat (fb_height fb)} then c else m a)"
proof -
  have "clear_screen (Some fb) c m = fold (\<lambda>y. fill_row (fb_address fb + 4 * (of_nat y * pitch_pixels fb + of_nat 0))
      (unat (fb_width fb)) c) [0..<unat (fb_height fb)] m"
    using assms by (simp add: clear_screen_def fb_ok_def pitch_pixels_def Let_def)
  then show ?thesis unfolding fold_rows row_pixels by (simp add: rect_pixels_def)
qed

lemma fill_rect_pixels:
  assumes "unat (vx pos) + unat (vx sz) < 2 ^ 32" and "unat (vy pos) + unat (vy sz) < 2 ^ 32" and ok: "fb_ok fb"
    and inside: "unat (vx pos) < unat (fb_width fb)" "unat (vy pos) < unat (fb_height fb)"
  shows "fill_rect (Some fb) pos sz c m a =
    (if a \<in> rect_pixels fb {unat (vx pos)..<min (unat (vx pos) + unat (vx sz)) (unat (fb_width fb))}
         {unat (vy pos)..<min (unat (vy pos) + unat (vy sz)) (unat (fb_height fb))} then c else m a)"
proof -
  define W H :: u32 where "W = ucast (fb_width fb)" "H = ucast (fb_height fb)"
  have u: "unat W = unat (fb_width fb)" "unat H = unat (fb_height fb)"
    using ok by (simp_all add: W_H_def fb_ok_def unsigned_ucast_eq take_bit_nat_eq_self)
  have s: "unat (vx pos + vx sz) = unat (vx pos) + unat (vx sz)"
    "unat (vy pos + vy sz) = unat (vy pos) + unat (vy sz)"
    using assms(1,2) by (simp_all add: unat_word_ariths)
  have i: "\<not> (W \<le> vx pos \<or> H \<le> vy pos)"
    using inside u by (simp add: word_le_nat_alt)
  define x2 y2 where "x2 = (if W < vx pos + vx sz then W else vx pos + vx sz)"
    "y2 = (if H < vy pos + vy sz then H else vy pos + vy sz)"
  have n: "unat x2 = min (unat (vx pos) + unat (vx sz)) (unat (fb_width fb))"
    "unat y2 = min (unat (vy pos) + unat (vy sz)) (unat (fb_height fb))"
    by (simp_all add: x2_y2_def word_less_nat_alt s u min_def)
  have le: "vx pos \<le> x2" unfolding word_le_nat_alt n(1) using inside by simp
  have d: "unat (vx pos) + unat (x2 - vx pos) = unat x2" using le by (simp add: unat_sub word_le_nat_alt)
  have c: "(ucast (vx pos) :: u64) = of_nat (unat (vx pos))" by simp
  have "fill_rect (Some fb) pos sz c m = fold (\<lambda>y. fill_row (fb_address fb + 4 *
      (of_nat y * pitch_pixels fb + of_nat (unat (vx pos)))) (unat (x2 - vx pos)) c) [unat (vy pos)..<unat y2] m"
    using i ok unfolding c [symmetric]
    by (simp add: fill_rect_def fb_ok_def pitch_pixels_def Let_def W_H_def x2_y2_def)
  then show ?thesis unfolding fold_rows row_pixels d n by (simp add: rect_pixels_def)
qed

lemma pixel_addr_inj:
  assumes ok: "fb_ok fb" and x: "x < unat (fb_width fb)" "x' < unat (fb_width fb)"
    and y: "y < unat (fb_height fb)" "y' < unat (fb_height fb)"
  shows "pixel_addr fb x y = pixel_addr fb x' y' \<longleftrightarrow> x = x' \<and> y = y'"
proof -
  define P where "P = unat (pitch_pixels fb)"
  have p: "pitch_pixels fb = of_nat P" by (simp add: P_def)
  have bound: "unat (fb_address fb) + 4 * (unat (fb_height fb) * P) \<le> 2 ^ 64" "unat (fb_width fb) \<le> P"
    using ok by (simp_all add: fb_ok_def P_def)
  have u: "unat (pixel_addr fb a b) = unat (fb_address fb) + 4 * (b * P + a)"
    if "a < unat (fb_width fb)" "b < unat (fb_height fb)" for a b
  proof -
    have "Suc b * P \<le> unat (fb_height fb) * P" using that(2) by (intro mult_right_mono) simp_all
    then have "unat (fb_address fb) + 4 * (b * P + a) < 2 ^ 64" using that(1) bound by simp
    moreover have "pixel_addr fb a b = fb_address fb + of_nat (4 * (b * P + a))"
      unfolding pixel_addr_def p by simp
    ultimately show ?thesis by (simp only: unat_plus_nat64)
  qed
  have "pixel_addr fb x y = pixel_addr fb x' y' \<longleftrightarrow> y * P + x = y' * P + x'"
    unfolding word_unat_eq_iff u [OF x(1) y(1)] u [OF x(2) y(2)]
    by (simp only: add_left_cancel mult_left_cancel)
  also have "\<dots> \<longleftrightarrow> y = y' \<and> x = x'"
    using x bound(2) by (intro radix_eq) simp_all
  finally show ?thesis by blast
qed

lemma rect_pixels_mem:
  assumes "fb_ok fb" "x < unat (fb_width fb)" "y < unat (fb_height fb)"
    and "X \<subseteq> {0..<unat (fb_width fb)}" "Y \<subseteq> {0..<unat (fb_height fb)}"
  shows "pixel_addr fb x y \<in> rect_pixels fb X Y \<longleftrightarrow> x \<in> X \<and> y \<in> Y"
proof -
  have "pixel_addr fb x y = pixel_addr fb x' y' \<longleftrightarrow> x = x' \<and> y = y'" if "x' \<in> X" "y' \<in> Y" for x' y'
  proof (rule pixel_addr_inj [OF assms(1,2) _ assms(3)])
    show "x' < unat (fb_width fb)" "y' < unat (fb_height fb)" using that assms(4,5) by auto
  qed
  then show ?thesis unfolding rect_pixels_def by blast
qed

text \<open>The width is computed as \<^verbatim>\<open>x2 - x1\<close> after \<^verbatim>\<open>x2\<close> may have wrapped: then the row runs past the
  frame buffer, here 4 pixels by 4.\<close>

definition small_fb :: limine_framebuffer where
  "small_fb = \<lparr>fb_address = 0x1000, fb_width = 4, fb_height = 4, fb_pitch = 16\<rparr>"

lemma small_fb_ok: "fb_ok small_fb"
  by (simp add: fb_ok_def small_fb_def pitch_pixels_def)

lemma fill_rect_overruns:
  "fill_rect (Some small_fb) (vec 1 3) (vec 0xFFFFFFFF 1) c m (0x1000 + 4 * 1000) = c"
proof -
  have "(0x1000 + 4 * 1000 :: u64) \<in> (\<lambda>x. 0x1000 + 4 * (3 * 4 + 1) + 4 * of_nat x) ` {0..<unat (0xFFFFFFFF :: u32)}"
    by (rule image_eqI [of _ _ 987]) simp_all
  moreover have "fill_rect (Some small_fb) (vec 1 3) (vec 0xFFFFFFFF 1) c m =
      fill_row (0x1000 + 4 * (3 * 4 + 1)) (unat (0xFFFFFFFF :: u32)) c m"
    by (simp add: fill_rect_def small_fb_def vec_def Let_def word_le_nat_alt)
  ultimately show ?thesis by (simp only: fill_row_pixels if_True)
qed

section \<open>Properties\<close>

text \<open>C35: a filled rectangle, as long as its corner does not wrap, is exactly the rectangle cut to the
  screen: every pixel of the screen in it has the colour, every other pixel and every other word
  of memory is what it was.\<close>

theorem fill_rect_paints:
  assumes "unat (vx pos) + unat (vx sz) < 2 ^ 32" and "unat (vy pos) + unat (vy sz) < 2 ^ 32" and ok: "fb_ok fb"
  shows "(\<forall>x < unat (fb_width fb). \<forall>y < unat (fb_height fb).
      fill_rect (Some fb) pos sz c m (pixel_addr fb x y) =
        (if unat (vx pos) \<le> x \<and> x < unat (vx pos) + unat (vx sz) \<and>
            unat (vy pos) \<le> y \<and> y < unat (vy pos) + unat (vy sz) then c else m (pixel_addr fb x y))) \<and>
    (\<forall>a. a \<notin> rect_pixels fb {0..<unat (fb_width fb)} {0..<unat (fb_height fb)} \<longrightarrow>
      fill_rect (Some fb) pos sz c m a = m a)"
proof (cases "unat (vx pos) < unat (fb_width fb) \<and> unat (vy pos) < unat (fb_height fb)")
  case True
  let ?X = "{unat (vx pos)..<min (unat (vx pos) + unat (vx sz)) (unat (fb_width fb))}"
  let ?Y = "{unat (vy pos)..<min (unat (vy pos) + unat (vy sz)) (unat (fb_height fb))}"
  have f: "fill_rect (Some fb) pos sz c m a = (if a \<in> rect_pixels fb ?X ?Y then c else m a)" for a
    using True by (intro fill_rect_pixels assms) simp_all
  have "?X \<subseteq> {0..<unat (fb_width fb)}" "?Y \<subseteq> {0..<unat (fb_height fb)}" by auto
  then have mem: "pixel_addr fb x y \<in> rect_pixels fb ?X ?Y \<longleftrightarrow> x \<in> ?X \<and> y \<in> ?Y"
    if "x < unat (fb_width fb)" "y < unat (fb_height fb)" for x y
    using that by (intro rect_pixels_mem ok)
  have sub: "rect_pixels fb ?X ?Y \<subseteq> rect_pixels fb {0..<unat (fb_width fb)} {0..<unat (fb_height fb)}"
    unfolding rect_pixels_def by (intro UN_mono image_mono) auto
  show ?thesis
  proof (intro conjI allI impI)
    fix x y assume "x < unat (fb_width fb)" "y < unat (fb_height fb)"
    then show "fill_rect (Some fb) pos sz c m (pixel_addr fb x y) =
        (if unat (vx pos) \<le> x \<and> x < unat (vx pos) + unat (vx sz) \<and>
            unat (vy pos) \<le> y \<and> y < unat (vy pos) + unat (vy sz) then c else m (pixel_addr fb x y))"
      unfolding f by (simp add: mem)
  next
    fix a assume "a \<notin> rect_pixels fb {0..<unat (fb_width fb)} {0..<unat (fb_height fb)}"
    then show "fill_rect (Some fb) pos sz c m a = m a" unfolding f using sub by auto
  qed
next
  case False
  have u: "unat (ucast (fb_width fb) :: u32) = unat (fb_width fb)"
    "unat (ucast (fb_height fb) :: u32) = unat (fb_height fb)"
    using ok by (simp_all add: fb_ok_def unsigned_ucast_eq take_bit_nat_eq_self)
  then have "(ucast (fb_width fb) :: u32) \<le> vx pos \<or> (ucast (fb_height fb) :: u32) \<le> vy pos"
    using False by (auto simp: word_le_nat_alt)
  then have "fill_rect (Some fb) pos sz c m = m"
    by (auto simp: fill_rect_def Let_def)
  then show ?thesis using False by auto
qed

theorem fill_rect_paints_witness:
  "fill_rect (Some small_fb) (vec 1 1) (vec 2 9) 7 (\<lambda>_. 0) (pixel_addr small_fb 2 3) = 7 \<and>
   fill_rect (Some small_fb) (vec 1 1) (vec 2 9) 7 (\<lambda>_. 0) (pixel_addr small_fb 3 3) = 0"
  using fill_rect_paints [of "vec 1 1" "vec 2 9" small_fb 7 "\<lambda>_. 0", OF _ _ small_fb_ok]
  by (simp add: vec_def small_fb_def)

text \<open>C24: a line between two points with coordinates below 2^29 is drawn in finitely many steps, with
  no overflow: it plots a chain of neighbouring pixels from the first point to the second.\<close>

theorem draw_line_connects:
  assumes "uint (vx p0) < 2 ^ 29" "uint (vy p0) < 2 ^ 29" "uint (vx p1) < 2 ^ 29" "uint (vy p1) < 2 ^ 29"
  shows "\<exists>ps. draw_line sc p0 p1 color m = Some (plot sc color ps m) \<and> ps \<noteq> [] \<and>
    hd ps = (uint (vx p0), uint (vy p0)) \<and> last ps = (uint (vx p1), uint (vy p1)) \<and> connected ps"
proof -
  obtain lp l where s: "line_setup p0 p1 = Some (lp, l)" "line_ok lp (uint (vx p0)) (uint (vy p0))"
    "line_inv lp (uint (vx p0)) (uint (vy p0)) 0 0 l" "ln_x l = uint (vx p0)" "ln_y l = uint (vy p0)"
    "lp_x1 lp = uint (vx p1)" "lp_y1 lp = uint (vy p1)"
    by (rule line_setup_ok [OF assms])
  obtain ps where ps: "line_loop sc lp color l m = Some (plot sc color ((ln_x l, ln_y l) # ps) m)"
    "last ((ln_x l, ln_y l) # ps) = (lp_x1 lp, lp_y1 lp)" "connected ((ln_x l, ln_y l) # ps)"
    using line_loop_plots [OF s(2,3)] by blast
  have "draw_line sc p0 p1 color m = Some (plot sc color ((ln_x l, ln_y l) # ps) m)"
    by (simp add: draw_line_def s(1) ps(1))
  then show ?thesis
    using ps(2,3) s(4-7) by (intro exI [of _ "(ln_x l, ln_y l) # ps"]) simp
qed

theorem draw_line_connects_witness:
  "\<exists>ps. draw_line (Some small_fb) (vec 0 3) (vec 3 1) 7 (\<lambda>_. 0) = Some (plot (Some small_fb) 7 ps (\<lambda>_. 0)) \<and>
     ps \<noteq> [] \<and> hd ps = (0, 3) \<and> last ps = (3, 1) \<and> connected ps"
  using draw_line_connects [of "vec 0 3" "vec 3 1" "Some small_fb" 7 "\<lambda>_. 0"] by (simp add: vec_def)

end
