(* ===== verification/Avfs.thy ===== *)
theory Avfs
  imports AbtrfsProps IBus Gaossd
begin

unbundle bit_operations_syntax

text \<open>
  The virtual file system (\<^verbatim>\<open>include/AlopexOS/AVFS/avfs.hpp\<close>, \<^verbatim>\<open>src/AVFS/avfs.cpp\<close>,
  \<^verbatim>\<open>src/AVFS/drive.cpp\<close>): the table of drives, filled from the bus manager's storage devices and
  the storage driver's devices, paths of the form \<^verbatim>\<open>drive://path\<close>, and the file operations, each
  of which mounts an AbtrFS of its own on the drive's device. \<open>g\<close> is the storage driver that
  \<^verbatim>\<open>_gaossd\<close> points to; its block operations are the ones AbtrFS takes. What is printed on the
  serial port is left out.
\<close>

section \<open>Drives\<close>

record drive =
  drv_base_address :: u64
  drv_hhdm_offset :: u64
  drv_device_handle :: u64
  drv_name :: basic_string
  drv_format :: basic_string

definition drive_init :: drive where
  "drive_init = \<lparr>drv_base_address = 0, drv_hhdm_offset = 0, drv_device_handle = 0,
     drv_name = str_init 23, drv_format = str_init 8\<rparr>"

text \<open>The getters that fill a variable of the caller's leave it alone if the pointer is null.\<close>

definition BaseAdress_Get :: "drive \<Rightarrow> u64" where "BaseAdress_Get d = drv_base_address d"
definition BaseAdress_Get_to :: "u64 option \<Rightarrow> drive \<Rightarrow> u64 option \<times> u64" where
  "BaseAdress_Get_to p d = (map_option (\<lambda>_. drv_base_address d) p, drv_base_address d)"
definition BaseAdress_Cpy :: "drive \<Rightarrow> u64" where "BaseAdress_Cpy d = drv_base_address d"
definition BaseAdress_Set :: "u64 \<Rightarrow> drive \<Rightarrow> errorCode \<times> drive" where
  "BaseAdress_Set a d = (Success, d\<lparr>drv_base_address := a\<rparr>)"

definition HHDMOffset_Get :: "drive \<Rightarrow> u64" where "HHDMOffset_Get d = drv_hhdm_offset d"
definition HHDMOffset_Get_to :: "u64 option \<Rightarrow> drive \<Rightarrow> u64 option \<times> u64" where
  "HHDMOffset_Get_to p d = (map_option (\<lambda>_. drv_hhdm_offset d) p, drv_hhdm_offset d)"
definition HHDMOffset_Cpy :: "drive \<Rightarrow> u64" where "HHDMOffset_Cpy d = drv_hhdm_offset d"
definition HHDMOffset_Set :: "u64 \<Rightarrow> drive \<Rightarrow> errorCode \<times> drive" where
  "HHDMOffset_Set a d = (Success, d\<lparr>drv_hhdm_offset := a\<rparr>)"

definition DeviceHandle_Get :: "drive \<Rightarrow> u64" where "DeviceHandle_Get d = drv_device_handle d"
definition DeviceHandle_Get_to :: "u64 option \<Rightarrow> drive \<Rightarrow> u64 option \<times> u64" where
  "DeviceHandle_Get_to p d = (map_option (\<lambda>_. drv_device_handle d) p, drv_device_handle d)"
definition DeviceHandle_Cpy :: "drive \<Rightarrow> u64" where "DeviceHandle_Cpy d = drv_device_handle d"
definition DeviceHandle_Set :: "u64 \<Rightarrow> drive \<Rightarrow> errorCode \<times> drive" where
  "DeviceHandle_Set a d = (Success, d\<lparr>drv_device_handle := a\<rparr>)"

text \<open>A target of the same type, or none.\<close>

definition copy_to :: "nat \<Rightarrow> basic_string option \<Rightarrow> basic_string \<Rightarrow> basic_string option option" where
  "copy_to cap p s = (case p of None \<Rightarrow> Some None | Some t \<Rightarrow> map_option Some (str_assign cap t s))"

definition Name_Get :: "drive \<Rightarrow> basic_string" where "Name_Get d = drv_name d"
definition Name_Get_to ::
    "basic_string option \<Rightarrow> drive \<Rightarrow> (basic_string option \<times> basic_string) option" where
  "Name_Get_to p d = map_option (\<lambda>t. (t, drv_name d)) (copy_to 23 p (drv_name d))"
definition Name_Cpy :: "drive \<Rightarrow> basic_string option" where "Name_Cpy d = str_copy 23 (drv_name d)"
definition Name_Set :: "basic_string \<Rightarrow> drive \<Rightarrow> (errorCode \<times> drive) option" where
  "Name_Set s d = map_option (\<lambda>t. (Success, d\<lparr>drv_name := t\<rparr>)) (str_assign 23 (drv_name d) s)"

definition Format_Get :: "drive \<Rightarrow> basic_string" where "Format_Get d = drv_format d"
definition Format_Get_to ::
    "basic_string option \<Rightarrow> drive \<Rightarrow> (basic_string option \<times> basic_string) option" where
  "Format_Get_to p d = map_option (\<lambda>t. (t, drv_format d)) (copy_to 8 p (drv_format d))"
definition Format_Cpy :: "drive \<Rightarrow> basic_string option" where "Format_Cpy d = str_copy 8 (drv_format d)"
definition Format_Set :: "basic_string \<Rightarrow> drive \<Rightarrow> (errorCode \<times> drive) option" where
  "Format_Set s d = map_option (\<lambda>t. (Success, d\<lparr>drv_format := t\<rparr>)) (str_assign 8 (drv_format d) s)"

text \<open>The copy constructor of a drive, which \<^verbatim>\<open>push_back\<close> uses.\<close>

definition drive_copy :: "drive \<Rightarrow> drive option" where
  "drive_copy d = do {
     nm \<leftarrow> str_copy 23 (drv_name d);
     fm \<leftarrow> str_copy 8 (drv_format d);
     Some (d\<lparr>drv_name := nm, drv_format := fm\<rparr>) }"

section \<open>The table of drives\<close>

record AVFS =
  drives :: "drive dynarr"
  avfs_hhdm :: u64
  avfs_gaossd :: Gaossd.ptr

definition AVFS_init :: AVFS where
  "AVFS_init = \<lparr>drives = dyn_init, avfs_hhdm = 0, avfs_gaossd = 0\<rparr>"

definition AVFS_attach_gaossd :: "Gaossd.ptr \<Rightarrow> AVFS \<Rightarrow> errorCode \<times> AVFS" where
  "AVFS_attach_gaossd p av = (Success, av\<lparr>avfs_gaossd := p\<rparr>)"

definition AVFS_gaossd_instance :: "AVFS \<Rightarrow> Gaossd.ptr" where
  "AVFS_gaossd_instance av = avfs_gaossd av"

text \<open>The AbtrFS each operation makes, attached to the same driver.\<close>

definition fs_of :: "AVFS \<Rightarrow> AbtrFS" where "fs_of av = snd (attach_gaossd (avfs_gaossd av) AbtrFS_init)"

text \<open>The loop over the storage driver's devices, and the fall back to the first of them.\<close>

fun match_loop :: "'w gaossd \<Rightarrow> u64 \<Rightarrow> nat list \<Rightarrow> u64" where
  "match_loop g base_addr [] = InvalidHandle"
| "match_loop g base_addr (h # hs) =
     (case get_device g (of_nat h) of
        Some dev \<Rightarrow> if address dev = base_addr then of_nat h else match_loop g base_addr hs
      | None \<Rightarrow> match_loop g base_addr hs)"

definition match_handle :: "'w gaossd \<Rightarrow> u64 \<Rightarrow> u64" where
  "match_handle g base_addr =
     (let h = match_loop g base_addr [0..<unat (device_count g)]
      in if h = InvalidHandle \<and> 0 < device_count g then 0 else h)"

text \<open>Without a driver the loop dereferences a null pointer.\<close>

definition drive_handle :: "'w gaossd \<Rightarrow> AVFS \<Rightarrow> u64 \<Rightarrow> u64 option" where
  "drive_handle g av base_addr =
     (if avfs_gaossd av = 0 then None else Some (match_handle g base_addr))"

text \<open>\<^verbatim>\<open>exists\<close> in \<^verbatim>\<open>Init\<close> compares pointers: the buffer of the name of a copied drive with the name
  in the device, or with a literal.\<close>

datatype char_ptr = In_drive_copy nat | In_device u64 | Literal

definition name_ptr :: "u64 \<Rightarrow> 'w PhysicalStorage \<Rightarrow> char_ptr" where
  "name_ptr h dev = (if dev_name dev ! 0 \<noteq> 0 then In_device h else Literal)"

fun registered_loop :: "char_ptr \<Rightarrow> nat list \<Rightarrow> bool" where
  "registered_loop p [] = False"
| "registered_loop p (i # is) = (if In_drive_copy i = p then True else registered_loop p is)"

definition already_registered :: "drive dynarr \<Rightarrow> char_ptr \<Rightarrow> bool" where
  "already_registered ds p =
     (if size_field ds = 0 then False else registered_loop p [0..<size_field ds])"

definition drive_device_name :: "'w PhysicalStorage \<Rightarrow> bytes" where
  "drive_device_name dev = (if dev_name dev ! 0 \<noteq> 0 then dev_name dev else bytes_of ''ALOPEX_NVME_01'' @ [0])"

text \<open>One turn of the loop of \<^verbatim>\<open>Init\<close>.\<close>

definition init_drive :: "'w gaossd \<Rightarrow> BusDeviceInfo \<Rightarrow> drive dynarr \<Rightarrow> drive dynarr option" where
  "init_drive g sd ds =
     (let h = match_handle g (base_address sd) in
      case get_device g h of
        None \<Rightarrow> Some ds
      | Some dev \<Rightarrow>
          if already_registered ds (name_ptr h dev) then Some ds
          else do {
            let (_, d) = BaseAdress_Set (base_address sd) drive_init;
            nm \<leftarrow> str_of_cstr 23 (Some (drive_device_name dev));
            (_, d') \<leftarrow> Name_Set nm d;
            c \<leftarrow> drive_copy d';
            dyn_push_back ds c })"

text \<open>The device count is asked for before the loop, so the driver must be there.\<close>

definition AVFS_Init :: "'w gaossd \<Rightarrow> 'p machine \<Rightarrow> AVFS \<Rightarrow> AlopexIBus \<times> 'p \<Rightarrow>
    (AVFS \<times> AlopexIBus \<times> 'p) option" where
  "AVFS_Init g mc av st = do {
     (_, ib, s) \<leftarrow> scan_all_buses mc st;
     ib' \<leftarrow> get_storage_devices ib;
     _ \<leftarrow> drive_handle g av 0;
     let av1 = av\<lparr>avfs_hhdm := get_hhdm_offset ib'\<rparr>;
     ds \<leftarrow> each (\<lambda>i ds. do { sd \<leftarrow> dyn_index (storage_devices ib') i; init_drive g sd ds })
            [0..<size_field (storage_devices ib')] (drives av1);
     Some (av1\<lparr>drives := ds\<rparr>, ib', s) }"

section \<open>Paths\<close>

text \<open>The name, without the blanks at its end.\<close>

fun trim_len :: "bytes \<Rightarrow> nat \<Rightarrow> nat" where
  "trim_len b 0 = 0"
| "trim_len b (Suc n) = (if b ! n = of_char CHR '' '' then trim_len b n else Suc n)"

fun append_chars :: "nat \<Rightarrow> basic_string \<Rightarrow> bytes \<Rightarrow> basic_string option" where
  "append_chars cap s [] = Some s"
| "append_chars cap s (c # cs) = Option.bind (str_append_char cap s c) (\<lambda>s'. append_chars cap s' cs)"

definition trimmed_name :: "basic_string \<Rightarrow> basic_string option" where
  "trimmed_name s = do {
     len \<leftarrow> cstr_length (c_str s);
     append_chars 16 (str_init 16) (take (trim_len (c_str s) len) (c_str s)) }"

definition starts_slashes :: "bytes \<Rightarrow> bool" where
  "starts_slashes cs \<longleftrightarrow> (case cs of a # b # _ \<Rightarrow> a = of_char CHR ''/'' \<and> b = of_char CHR ''/'' | _ \<Rightarrow> False)"

fun find_drive_loop :: "bytes \<Rightarrow> basic_string \<Rightarrow> basic_string expected option" where
  "find_drive_loop [] nm = Some (Inl Generic_Error)"
| "find_drive_loop (c # cs) nm =
     (if c = 0 then Some (Inl Generic_Error)
      else if c = of_char CHR '':'' then
        (if starts_slashes cs then map_option Inr (trimmed_name nm) else Some (Inl Generic_Error))
      else Option.bind (str_append_char 16 nm c) (find_drive_loop cs))"

definition findDrive :: "bytes \<Rightarrow> basic_string expected option" where
  "findDrive pth = find_drive_loop pth (str_init 16)"

text \<open>Where the path after the separator starts.\<close>

fun separator_loop :: "bytes \<Rightarrow> nat \<Rightarrow> nat option" where
  "separator_loop [] i = None"
| "separator_loop (c # cs) i =
     (if c = 0 then None
      else if c = of_char CHR '':'' then (if starts_slashes cs then Some (i + 3) else None)
      else separator_loop cs (i + 1))"

fun copy_path_loop :: "bytes \<Rightarrow> bytes \<Rightarrow> nat \<Rightarrow> bytes \<times> nat" where
  "copy_path_loop [] dir k = (dir, k)"
| "copy_path_loop (c # cs) dir k =
     (if c = 0 then (dir[k := c], k + 1) else copy_path_loop cs (dir[k := c]) (k + 1))"

definition findPathAfterDrive :: "bytes \<Rightarrow> bytes expected" where
  "findPathAfterDrive pth = (case separator_loop pth 0 of
     None \<Rightarrow> Inl Generic_Error
   | Some start \<Rightarrow>
       (case copy_path_loop (drop start pth) (replicate 2048 0) 0 of (dir, k) \<Rightarrow>
          Inr (if k < length pth then dir[k := 0] else dir)))"

text \<open>\<^verbatim>\<open>retrieveDrive\<close>: the index of the first drive with that name.\<close>

fun retrieve_loop :: "drive dynarr \<Rightarrow> basic_string \<Rightarrow> nat list \<Rightarrow> nat expected option" where
  "retrieve_loop ds nm [] = Some (Inl NotFound)"
| "retrieve_loop ds nm (i # is) = do {
     d \<leftarrow> dyn_index ds i;
     len \<leftarrow> cstr_length (c_str (Name_Get d));
     stored \<leftarrow> append_chars 16 (str_init 16) (take len (c_str (Name_Get d)));
     if str_eq stored nm then Some (Inr i) else retrieve_loop ds nm is }"

definition retrieveDrive :: "AVFS \<Rightarrow> basic_string \<Rightarrow> nat expected option" where
  "retrieveDrive av nm = retrieve_loop (drives av) nm [0..<size_field (drives av)]"

section \<open>The operations\<close>

definition AVFS_mount :: "'w gaossd \<Rightarrow> 's block_read \<Rightarrow> bytes \<Rightarrow> AVFS \<Rightarrow> 's \<Rightarrow>
    (errorCode \<times> AVFS \<times> 's) option" where
  "AVFS_mount g rb pth av w = do {
     dn \<leftarrow> findDrive pth;
     (case dn of Inl e \<Rightarrow> Some (e, av, w) | Inr nm \<Rightarrow> do {
        dp \<leftarrow> retrieveDrive av nm;
        (case dp of Inl e \<Rightarrow> Some (e, av, w) | Inr i \<Rightarrow> do {
           d \<leftarrow> dyn_index (drives av) i;
           h \<leftarrow> drive_handle g av (BaseAdress_Get d);
           if h = InvalidHandle then Some (DeviceNotMounted, av, w)
           else do {
             (_, fs, w1) \<leftarrow> mount rb (BaseAdress_Get d) (avfs_hhdm av) h (fs_of av) w;
             if is_mounted fs then do {
               fm \<leftarrow> str_of_cstr 8 (Some (bytes_of ''abtrfs'' @ [0]));
               (_, d') \<leftarrow> Format_Set fm d;
               ds \<leftarrow> dyn_set (drives av) i d';
               Some (Success, av\<lparr>drives := ds\<rparr>, w1) }
             else Some (DeviceNotMounted, av, w1) } }) }) }"

text \<open>The loop of \<^verbatim>\<open>write\<close> that drops the zero bytes.\<close>

fun clean_loop :: "bytes \<Rightarrow> byte dynarr \<Rightarrow> byte dynarr option" where
  "clean_loop [] d = Some d"
| "clean_loop (x # xs) d = (if x \<noteq> 0 then Option.bind (dyn_push_back d x) (clean_loop xs) else clean_loop xs d)"

definition clean_data :: "byte dynarr \<Rightarrow> byte dynarr option" where
  "clean_data dat = do {
     c \<leftarrow> dyn_reserve (size_field dat) dyn_init;
     xs \<leftarrow> read_all (DynArr.data dat) [0..<size_field dat];
     clean_loop xs c }"

definition AVFS_write :: "'w gaossd \<Rightarrow> 's block_read \<Rightarrow> 's block_write \<Rightarrow> bytes \<Rightarrow> byte dynarr \<Rightarrow> AVFS \<Rightarrow>
    's \<Rightarrow> (errorCode \<times> 's) option" where
  "AVFS_write g rb wb pth dat av w = do {
     dn \<leftarrow> findDrive pth;
     (case dn of Inl e \<Rightarrow> Some (e, w) | Inr nm \<Rightarrow> do {
        dp \<leftarrow> retrieveDrive av nm;
        (case dp of Inl e \<Rightarrow> Some (e, w) | Inr i \<Rightarrow> do {
           d \<leftarrow> dyn_index (drives av) i;
           h \<leftarrow> drive_handle g av (BaseAdress_Get d);
           if h = InvalidHandle then Some (DeviceNotMounted, w)
           else (case findPathAfterDrive pth of Inl e \<Rightarrow> Some (e, w) | Inr dir \<Rightarrow> do {
             c \<leftarrow> clean_data dat;
             (fs, w1) \<leftarrow> mount_existing rb (BaseAdress_Get d) (avfs_hhdm av) h (fs_of av) w;
             (e, _, w2) \<leftarrow> write_file rb wb fs dir (dyn_abs c) 0 w1;
             Some (e, w2) }) }) }) }"

text \<open>\<^verbatim>\<open>read\<close> stores into the array it was given, by reference.\<close>

definition AVFS_read :: "'w gaossd \<Rightarrow> 's block_read \<Rightarrow> bytes \<Rightarrow> byte dynarr \<Rightarrow> AVFS \<Rightarrow>
    's \<Rightarrow> (errorCode \<times> byte dynarr \<times> 's) option" where
  "AVFS_read g rb pth dat av w = do {
     dn \<leftarrow> findDrive pth;
     (case dn of Inl e \<Rightarrow> Some (e, dat, w) | Inr nm \<Rightarrow> do {
        dp \<leftarrow> retrieveDrive av nm;
        (case dp of Inl e \<Rightarrow> Some (e, dat, w) | Inr i \<Rightarrow> do {
           d \<leftarrow> dyn_index (drives av) i;
           h \<leftarrow> drive_handle g av (BaseAdress_Get d);
           if h = InvalidHandle then Some (DeviceNotMounted, dat, w)
           else (case findPathAfterDrive pth of Inl e \<Rightarrow> Some (e, dat, w) | Inr dir \<Rightarrow> do {
             (fs, w1) \<leftarrow> mount_existing rb (BaseAdress_Get d) (avfs_hhdm av) h (fs_of av) w;
             (r, data', w2) \<leftarrow> read_file rb fs dir (Some dat) 0 (of_nat (size_field dat)) w1;
             Some (case r of Inl e \<Rightarrow> e | Inr _ \<Rightarrow> Success, the data', w2) }) }) }) }"

definition AVFS_exists :: "bytes \<Rightarrow> AVFS \<Rightarrow> errorCode option" where
  "AVFS_exists pth av = do {
     dn \<leftarrow> findDrive pth;
     (case dn of Inl e \<Rightarrow> Some e | Inr nm \<Rightarrow> do {
        dp \<leftarrow> retrieveDrive av nm;
        Some (case dp of Inl e \<Rightarrow> e | Inr _ \<Rightarrow> Success) }) }"

definition AVFS_dismount :: "bytes \<Rightarrow> AVFS \<Rightarrow> (errorCode \<times> AVFS) option" where
  "AVFS_dismount pth av = do {
     dn \<leftarrow> findDrive pth;
     (case dn of Inl e \<Rightarrow> Some (e, av) | Inr nm \<Rightarrow> do {
        dp \<leftarrow> retrieveDrive av nm;
        (case dp of Inl e \<Rightarrow> Some (e, av) | Inr i \<Rightarrow> do {
           d \<leftarrow> dyn_index (drives av) i;
           fm \<leftarrow> str_of_cstr 8 (Some [0]);
           (_, d') \<leftarrow> Format_Set fm d;
           ds \<leftarrow> dyn_set (drives av) i d';
           Some (Success, av\<lparr>drives := ds\<rparr>) }) }) }"

section \<open>Names\<close>

lemma append_chars_correct:
  assumes "str_inv cap s"
  obtains s' where "append_chars cap s cs = Some s'" "str_inv cap s'" "str_abs s' = str_abs s @ cs"
  using assms
proof (induction cs arbitrary: s thesis)
  case Nil
  then show ?case by simp
next
  case (Cons c cs)
  obtain s1 where s1: "str_append_char cap s c = Some s1" "str_inv cap s1" "str_abs s1 = str_abs s @ [c]"
    by (rule str_append_char_correct [OF Cons.prems(2)])
  obtain s2 where "append_chars cap s1 cs = Some s2" "str_inv cap s2" "str_abs s2 = str_abs s1 @ cs"
    by (rule Cons.IH [OF _ s1(2)])
  then show ?case using Cons.prems(1) [of s2] s1 by simp
qed

text \<open>A string without zero bytes, as a C string.\<close>

lemma c_str_split:
  assumes "str_inv cap s" and "0 \<notin> set (str_abs s)"
  obtains rest where "c_str s = str_abs s @ 0 # rest" "cstr_length (c_str s) = Some (length (str_abs s))"
proof -
  have n: "str_length s < length (c_str s)" by (rule length_c_str [OF assms(1)])
  have z: "c_str s ! str_length s = 0"
    using assms(1) by (auto simp: str_inv_def c_str_def split: string_storage.splits)
  have e: "c_str s = str_abs s @ 0 # drop (Suc (str_length s)) (c_str s)"
    using id_take_nth_drop [OF n] z by (simp add: str_abs_def)
  have "cstr (c_str s) = str_abs s" by (subst e) (rule cstr_terminated [OF assms(2)])
  moreover have "0 \<in> set (c_str s)" by (subst e) simp
  ultimately have "cstr_length (c_str s) = Some (length (str_abs s))" by (simp add: cstr_length_eq)
  then show ?thesis using that e by blast
qed

definition trim_name :: "bytes \<Rightarrow> bytes" where
  "trim_name xs = rev (dropWhile (\<lambda>c. c = of_char CHR '' '') (rev xs))"

lemma trim_len_take: "n \<le> length b \<Longrightarrow> take (trim_len b n) b = trim_name (take n b)"
proof (induction n)
  case (Suc n)
  then have t: "take (Suc n) b = take n b @ [b ! n]" by (simp add: take_Suc_conv_app_nth)
  show ?case
  proof (cases "b ! n = of_char CHR '' ''")
    case True
    then show ?thesis using Suc t by (simp add: trim_name_def)
  next
    case False
    then have "trim_len b (Suc n) = Suc n" by simp
    moreover have "trim_name (take n b @ [b ! n]) = take n b @ [b ! n]" using False by (simp add: trim_name_def)
    ultimately show ?thesis by (simp only: t)
  qed
qed (simp add: trim_name_def)

lemma trimmed_name_correct:
  assumes "str_inv 16 s" and "0 \<notin> set (str_abs s)"
  obtains t where "trimmed_name s = Some t" "str_inv 16 t" "str_abs t = trim_name (str_abs s)"
proof -
  obtain rest where r: "c_str s = str_abs s @ 0 # rest" "cstr_length (c_str s) = Some (length (str_abs s))"
    by (rule c_str_split [OF assms])
  obtain t where t: "append_chars 16 (str_init 16) (take (trim_len (c_str s) (length (str_abs s))) (c_str s)) = Some t"
      "str_inv 16 t" "str_abs t = str_abs (str_init 16) @ take (trim_len (c_str s) (length (str_abs s))) (c_str s)"
    by (rule append_chars_correct [OF str_inv_init])
  have "take (trim_len (c_str s) (length (str_abs s))) (c_str s) = trim_name (str_abs s)"
    using trim_len_take [of "length (str_abs s)" "c_str s"] r(1) by simp
  then show ?thesis using that [of t] t r(2) by (simp add: trimmed_name_def)
qed

section \<open>Splitting a path\<close>

abbreviation separator :: bytes where
  "separator \<equiv> [of_char CHR '':'', of_char CHR ''/'', of_char CHR ''/'']"

definition plain_name :: "bytes \<Rightarrow> bool" where
  "plain_name nm \<longleftrightarrow> 0 \<notin> set nm \<and> of_char CHR '':'' \<notin> set nm"

lemma find_drive_loop_name:
  assumes "plain_name nm" and "str_inv 16 s" and "0 \<notin> set (str_abs s)"
  obtains t where "find_drive_loop (nm @ separator @ rest) s = Some (Inr t)" "str_inv 16 t"
    "str_abs t = trim_name (str_abs s @ nm)"
  using assms
proof (induction nm arbitrary: s thesis)
  case Nil
  obtain t where "trimmed_name s = Some t" "str_inv 16 t" "str_abs t = trim_name (str_abs s)"
    by (rule trimmed_name_correct [OF Nil.prems(3,4)])
  then show ?case using Nil.prems(1) [of t] by (simp add: starts_slashes_def)
next
  case (Cons c cs)
  obtain s1 where s1: "str_append_char 16 s c = Some s1" "str_inv 16 s1" "str_abs s1 = str_abs s @ [c]"
    by (rule str_append_char_correct [OF Cons.prems(3)])
  have c: "c \<noteq> 0" "c \<noteq> of_char CHR '':''" "plain_name cs" using Cons.prems(2) by (auto simp: plain_name_def)
  have "0 \<notin> set (str_abs s1)" using s1(3) Cons.prems(4) c(1) by simp
  then obtain t where "find_drive_loop (cs @ separator @ rest) s1 = Some (Inr t)" "str_inv 16 t"
      "str_abs t = trim_name (str_abs s1 @ cs)"
    using Cons.IH [OF _ c(3) s1(2)] by blast
  then show ?case using Cons.prems(1) [of t] s1 c(1,2) by simp
qed

lemma separator_loop_name:
  "plain_name nm \<Longrightarrow> separator_loop (nm @ separator @ rest) i = Some (i + length nm + 3)"
  by (induction nm arbitrary: i) (auto simp: plain_name_def starts_slashes_def)

text \<open>The copy stops behind the first zero byte; the rest of the buffer is zero already.\<close>

lemma copy_path_loop_eq:
  assumes "length dir = k + m" and "length cs \<le> m"
  shows "copy_path_loop cs dir k =
    (let c = cstr cs; t = (if 0 \<in> set cs then c @ [0] else c)
     in (take k dir @ t @ drop (k + length t) dir, k + length t))"
  using assms
proof (induction cs arbitrary: dir k m)
  case (Cons c cs)
  have k: "k < length dir" using Cons.prems by simp
  have u: "take (Suc k) (dir[k := c]) = take k dir @ [c]" using k by (simp add: take_Suc_conv_app_nth)
  have v: "dir[k := c] = take k dir @ c # drop (Suc k) dir" using k by (rule upd_conv_take_nth_drop)
  have l: "length (dir[k := c]) = Suc k + (m - 1)" "length cs \<le> m - 1" using Cons.prems by simp_all
  show ?case
  proof (cases "c = 0")
    case True
    then show ?thesis using v by (simp add: cstr_Cons Let_def)
  next
    case False
    then show ?thesis
      using Cons.IH [OF l] u by (auto simp: cstr_Cons Let_def)
  qed
qed simp

lemma findPathAfterDrive_name:
  assumes "plain_name nm" and len: "length (nm @ separator @ rest) = 2048"
  obtains dir where "findPathAfterDrive (nm @ separator @ rest) = Inr dir" "length dir = 2048"
    "cstr dir = cstr rest"
proof -
  let ?path = "nm @ separator @ rest"
  define t where "t = (if 0 \<in> set rest then cstr rest @ [0] else cstr rest)"
  define dir where "dir = t @ drop (length t) (replicate 2048 0 :: bytes)"
  have "length (cstr rest) \<le> length rest" by (simp add: length_cstr_le)
  moreover have "0 \<in> set rest \<Longrightarrow> length (cstr rest) < length rest"
  proof -
    assume "0 \<in> set rest"
    then obtain us vs where "rest = us @ 0 # vs" "0 \<notin> set us" by (meson split_list_first)
    then show "length (cstr rest) < length rest" by (simp add: cstr_terminated)
  qed
  ultimately have lt: "length t \<le> length rest" by (auto simp: t_def)
  then have lt': "length t < 2048" using len by simp
  have s: "separator_loop ?path 0 = Some (length nm + 3)"
    using separator_loop_name [OF assms(1), of rest 0] by simp
  have "drop (length nm + 3) ?path = rest" by simp
  moreover have "copy_path_loop rest (replicate 2048 0) 0 = (dir, length t)"
    using copy_path_loop_eq [of "replicate 2048 0" 0 2048 rest] len by (simp add: t_def dir_def Let_def)
  ultimately have f: "findPathAfterDrive ?path = Inr (dir[length t := 0])"
    using s lt' len by (simp add: findPathAfterDrive_def)
  have r: "drop (length t) (replicate 2048 0 :: bytes) = 0 # replicate (2047 - length t) 0"
    using lt' by (simp add: Suc_diff_le flip: replicate_Suc)
  have "dir[length t := 0] = dir" unfolding dir_def r by (simp add: list_update_append)
  moreover have "length dir = 2048" using lt' by (simp add: dir_def)
  moreover have "cstr dir = cstr rest"
  proof (cases "0 \<in> set rest")
    case True
    then show ?thesis using cstr_terminated [OF cstr_no_nul] by (simp add: dir_def t_def)
  next
    case False
    then show ?thesis unfolding dir_def r using cstr_terminated [OF cstr_no_nul, of rest] by (simp add: t_def)
  qed
  ultimately show ?thesis using that f by simp
qed

section \<open>Finding a drive\<close>

definition drive_inv :: "drive \<Rightarrow> bool" where
  "drive_inv d \<longleftrightarrow> str_inv 23 (drv_name d) \<and> str_inv 8 (drv_format d) \<and> 0 \<notin> set (str_abs (drv_name d))"

definition avfs_inv :: "AVFS \<Rightarrow> bool" where
  "avfs_inv av \<longleftrightarrow> dyn_inv (drives av) \<and> (\<forall>d \<in> set (dyn_abs (drives av)). drive_inv d)"

definition drive_names :: "AVFS \<Rightarrow> bytes list" where
  "drive_names av = map (\<lambda>d. str_abs (drv_name d)) (dyn_abs (drives av))"

text \<open>The position of the first element that is equal.\<close>

fun position :: "'a \<Rightarrow> 'a list \<Rightarrow> nat \<Rightarrow> nat option" where
  "position x [] i = None"
| "position x (y # ys) i = (if y = x then Some i else position x ys (i + 1))"

lemma retrieve_loop_position:
  assumes "avfs_inv av" and "str_inv 16 nm" and "i \<le> length (drive_names av)"
  shows "retrieve_loop (drives av) nm [i..<length (drive_names av)] =
    Some (case position (str_abs nm) (drop i (drive_names av)) i of None \<Rightarrow> Inl NotFound | Some j \<Rightarrow> Inr j)"
  using assms(3)
proof (induction "length (drive_names av) - i" arbitrary: i)
  case 0
  then show ?case by simp
next
  case (Suc k)
  then have i: "i < length (drive_names av)" by simp
  let ?d = "dyn_abs (drives av) ! i"
  have l: "i < length (dyn_abs (drives av))" using i by (simp add: drive_names_def)
  then have d: "dyn_index (drives av) i = Some ?d" "drive_inv ?d"
    using assms(1) by (simp_all add: avfs_inv_def dyn_index_correct)
  obtain rest where c: "c_str (drv_name ?d) = str_abs (drv_name ?d) @ 0 # rest"
    "cstr_length (c_str (drv_name ?d)) = Some (length (str_abs (drv_name ?d)))"
    using d(2) by (auto simp: drive_inv_def elim: c_str_split)
  obtain st where st: "append_chars 16 (str_init 16) (str_abs (drv_name ?d)) = Some st" "str_inv 16 st"
    "str_abs st = str_abs (str_init 16) @ str_abs (drv_name ?d)"
    by (rule append_chars_correct [OF str_inv_init])
  have eq: "str_eq st nm \<longleftrightarrow> drive_names av ! i = str_abs nm"
    using str_eq_iff [OF st(2) assms(2)] st(3) l by (simp add: drive_names_def)
  have up: "[i..<length (drive_names av)] = i # [Suc i..<length (drive_names av)]"
    using i by (simp add: upt_conv_Cons)
  have dr: "drop i (drive_names av) = drive_names av ! i # drop (Suc i) (drive_names av)"
    using i by (simp add: Cons_nth_drop_Suc)
  have IH: "retrieve_loop (drives av) nm [Suc i..<length (drive_names av)] =
    Some (case position (str_abs nm) (drop (Suc i) (drive_names av)) (Suc i) of None \<Rightarrow> Inl NotFound | Some j \<Rightarrow> Inr j)"
    using Suc i by (intro Suc.hyps(1)) simp_all
  show ?case
    unfolding up dr using d(1) c st(1) eq IH by (simp add: Name_Get_def)
qed

lemma retrieveDrive_correct:
  assumes "avfs_inv av" and "str_inv 16 nm"
  shows "retrieveDrive av nm =
    Some (case position (str_abs nm) (drive_names av) 0 of None \<Rightarrow> Inl NotFound | Some j \<Rightarrow> Inr j)"
  using retrieve_loop_position [OF assms, of 0] assms(1)
  by (simp add: retrieveDrive_def avfs_inv_def size_field_abs drive_names_def)

lemma position_Some: "position x ys i = Some j \<Longrightarrow> i \<le> j \<and> j - i < length ys \<and> ys ! (j - i) = x"
proof (induction ys arbitrary: i)
  case (Cons y ys)
  show ?case
  proof (cases "y = x")
    case False
    then have "i + 1 \<le> j \<and> j - (i + 1) < length ys \<and> ys ! (j - (i + 1)) = x" using Cons by simp
    then have "j - i = Suc (j - (i + 1))" "i \<le> j" "j - (i + 1) < length ys" "ys ! (j - (i + 1)) = x" by auto
    then show ?thesis by simp
  qed (use Cons.prems in simp)
qed simp

lemma position_None_iff: "position x ys i = None \<longleftrightarrow> x \<notin> set ys"
  by (induction ys arbitrary: i) auto

section \<open>File systems on a device that works\<close>

context block_device
begin

lemma mount_existing_finds_files:
  assumes w: "dinv w" "good w" and lay: "fs_layout handle n (disk w) fs0 files" and root: "tree_inv (root_node fs)"
  shows "\<exists>fs' w'. mount_existing rb base_addr hhdm handle fs w = Some (fs', w') \<and> dinv w' \<and> good w' \<and>
    disk w' = disk w \<and> fs_layout handle n (disk w') fs' files"
proof -
  note l = layout_facts [OF lay]
  have "0 < n" using l(7,10,11) by linarith
  then obtain r w' where r: "rb handle 0 w = Some (r, w')" "dinv w'" "disk w' = disk w"
      "r = None \<or> r = Some (disk w ! 0)" "r \<noteq> None" "good w'"
    using read_law [OF w(1), of 0] w(2) by auto
  have d: "decode_partition (disk w ! 0) = partition_header fs0"
    using lay by (simp add: fs_layout_def Let_def)
  have "r = Some (disk w ! 0)" using r(4,5) by simp
  then show ?thesis
    using r lay l(5) d root
    by (auto simp: mount_existing_def Let_def fs_layout_def fs_at_def)
qed

text \<open>Reading into memory the array does not own has no defined result.\<close>

lemma read_file_view_undefined:
  assumes w: "dinv w" "good w" and lay: "fs_layout handle n (disk w) fs files" and p: "good_path p"
    and c: "map_of files (cstr p) = Some c"
  shows "read_file rb fs p (Some (dyn_view (Some xs) k)) 0 mx w = None"
proof -
  have lp: "length p = 2048" using p by (simp add: good_path_def)
  obtain i where loc: "locate files 1 (cstr p) = Some i"
    using c locate_None_iff [of files 1 "cstr p"] by (cases "locate files 1 (cstr p)")
      (auto simp: map_of_eq_None_iff [symmetric])
  obtain c' where f: "map_of files (cstr p) = Some c'" "file_at (disk w) i (cstr p) c'" "0 < length c'"
    "unat (of_nat (length c') :: u64) = length c'"
    by (rule file_facts [OF w(1) lay loc])
  have h: "header_total_size (decode_header (disk w ! i)) = of_nat (length c')"
    using f(2) by (auto simp: file_at_def Let_def)
  obtain w' where fnd: "fs_find rb fs p w = Some (Some (decode_header (disk w ! i)), w')"
    using fs_find_files [OF w(1) lay lp] loc w(2) by auto
  define T :: u64 where "T = of_nat (length c')"
  have T: "T \<noteq> 0" "header_total_size (decode_header (disk w ! i)) = T"
    using f(3,4) h by (auto simp: T_def)
  define B where "B = (if 0 < mx \<and> mx < T then mx else T)"
  have "B \<noteq> 0" using T(1) by (auto simp: B_def)
  then have "0 < unat B" by (simp add: unat_gt_0)
  then have B: "dyn_resize 0 (unat B) (dyn_view (Some xs) k) = None" by (rule dyn_resize_view)
  have "read_found rb fs (decode_header (disk w ! i)) (Some (dyn_view (Some xs) k)) 0 mx w' = None"
    using T(1) B by (simp add: read_found_def Let_def T(2) B_def [symmetric])
  moreover obtain segs where "chopPath p = Some (Inr segs)" "segs \<noteq> []"
    by (rule chopPath_good [OF p])
  moreover have "is_mounted fs" using layout_facts(1) [OF lay] .
  ultimately show ?thesis using fnd by (simp add: read_file_def)
qed

end

section \<open>The operations on a drive that is found\<close>

definition resolves :: "'w gaossd \<Rightarrow> AVFS \<Rightarrow> bytes \<Rightarrow> u64 \<Rightarrow> bool" where
  "resolves g av nm h \<longleftrightarrow> avfs_inv av \<and> avfs_gaossd av \<noteq> 0 \<and> h \<noteq> InvalidHandle \<and>
     (\<exists>i. position (trim_name nm) (drive_names av) 0 = Some i \<and>
          match_handle g (drv_base_address (dyn_abs (drives av) ! i)) = h)"

lemma resolved:
  assumes "resolves g av nm h" and "plain_name nm" and len: "length (nm @ separator @ rest) = 2048"
  obtains s i d dir where "findDrive (nm @ separator @ rest) = Some (Inr s)" "retrieveDrive av s = Some (Inr i)"
    "dyn_index (drives av) i = Some d" "drive_handle g av (BaseAdress_Get d) = Some h" "h \<noteq> InvalidHandle"
    "findPathAfterDrive (nm @ separator @ rest) = Inr dir" "length dir = 2048" "cstr dir = cstr rest"
    "i < length (dyn_abs (drives av))" "d = dyn_abs (drives av) ! i"
    "position (trim_name nm) (drive_names av) 0 = Some i"
    "match_handle g (drv_base_address d) = h"
proof -
  obtain i where i: "avfs_inv av" "avfs_gaossd av \<noteq> 0" "h \<noteq> InvalidHandle"
      "position (trim_name nm) (drive_names av) 0 = Some i"
      "match_handle g (drv_base_address (dyn_abs (drives av) ! i)) = h"
    using assms(1) by (auto simp: resolves_def)
  obtain s where s: "find_drive_loop (nm @ separator @ rest) (str_init 16) = Some (Inr s)" "str_inv 16 s"
    "str_abs s = trim_name (str_abs (str_init 16) @ nm)"
    by (rule find_drive_loop_name [OF assms(2) str_inv_init]) simp_all
  have "retrieveDrive av s = Some (Inr i)"
    using retrieveDrive_correct [OF i(1) s(2)] s(3) i(4) by simp
  moreover have l: "i < length (dyn_abs (drives av))"
    using position_Some [OF i(4)] by (simp add: drive_names_def)
  then have "dyn_index (drives av) i = Some (dyn_abs (drives av) ! i)"
    using i(1) by (simp add: avfs_inv_def dyn_index_correct)
  moreover obtain dir where "findPathAfterDrive (nm @ separator @ rest) = Inr dir" "length dir = 2048"
    "cstr dir = cstr rest"
    by (rule findPathAfterDrive_name [OF assms(2) len])
  ultimately show ?thesis
    using that [of s i "dyn_abs (drives av) ! i" dir] s(1) i(2-5) l
    by (simp add: findDrive_def drive_handle_def BaseAdress_Get_def)
qed

lemma clean_loop_correct:
  assumes "dyn_inv d"
  obtains c where "clean_loop xs d = Some c" "dyn_inv c" "dyn_abs c = dyn_abs d @ filter (\<lambda>b. b \<noteq> 0) xs"
  using assms
proof (induction xs arbitrary: d thesis)
  case Nil
  then show ?case by simp
next
  case (Cons x xs)
  show ?case
  proof (cases "x = 0")
    case True
    obtain c where "clean_loop xs d = Some c" "dyn_inv c" "dyn_abs c = dyn_abs d @ filter (\<lambda>b. b \<noteq> 0) xs"
      by (rule Cons.IH [OF _ Cons.prems(2)])
    then show ?thesis using True Cons.prems(1) [of c] by simp
  next
    case False
    obtain d' where d': "dyn_push_back d x = Some d'" "dyn_inv d'" "dyn_abs d' = dyn_abs d @ [x]"
      by (rule dyn_push_back_correct [OF Cons.prems(2)])
    obtain c where "clean_loop xs d' = Some c" "dyn_inv c" "dyn_abs c = dyn_abs d' @ filter (\<lambda>b. b \<noteq> 0) xs"
      by (rule Cons.IH [OF _ d'(2)])
    then show ?thesis using False d' Cons.prems(1) [of c] by simp
  qed
qed

lemma clean_data_correct:
  assumes "read_all (DynArr.data dat) [0..<size_field dat] = Some content"
  obtains c where "clean_data dat = Some c" "dyn_abs c = filter (\<lambda>b. b \<noteq> 0) content"
proof -
  obtain d :: "byte dynarr" where d: "dyn_reserve (size_field dat) dyn_init = Some d" "dyn_inv d" "dyn_abs d = []"
  proof (cases "size_field dat = 0")
    case True
    then show ?thesis using that [of dyn_init] dyn_init_correct by (simp add: dyn_reserve_def)
  next
    case False
    obtain d' :: "byte dynarr" where "dyn_grow (size_field dat) dyn_init = Some d'" "dyn_inv d'" "dyn_abs d' = dyn_abs dyn_init"
      by (rule dyn_grow_correct [OF dyn_init_correct(1), of "size_field dat"]) (use False in \<open>simp_all add: dyn_init_def\<close>)
    then show ?thesis using that [of d'] False dyn_init_correct(2) by (simp add: dyn_reserve_def dyn_init_def)
  qed
  obtain c where "clean_loop content d = Some c" "dyn_abs c = dyn_abs d @ filter (\<lambda>b. b \<noteq> 0) content"
    by (rule clean_loop_correct [OF d(2)])
  then show ?thesis using that [of c] d assms by (simp add: clean_data_def)
qed

lemma tree_inv_fs_of: "tree_inv (root_node (fs_of av))"
  by (simp add: fs_of_def attach_gaossd_def AbtrFS_init_def)

lemma avfs_write_eq:
  assumes dev: "block_device rb wb h n disk dinv good" and w: "dinv w" "good w"
    and lay: "fs_layout h n (disk w) fs0 files" and av: "resolves g av nm h" "plain_name nm"
    and len: "length (nm @ separator @ rest) = 2048"
    and dat: "read_all (DynArr.data dat) [0..<size_field dat] = Some content"
  obtains dir fs w1 where "length dir = 2048" "cstr dir = cstr rest" "dinv w1" "good w1" "disk w1 = disk w"
    "fs_layout h n (disk w1) fs files"
    "AVFS_write g rb wb (nm @ separator @ rest) dat av w =
       map_option (\<lambda>(e, fs', w2). (e, w2)) (write_file rb wb fs dir (filter (\<lambda>b. b \<noteq> 0) content) 0 w1)"
proof -
  obtain s i d dir where r: "findDrive (nm @ separator @ rest) = Some (Inr s)" "retrieveDrive av s = Some (Inr i)"
    "dyn_index (drives av) i = Some d" "drive_handle g av (BaseAdress_Get d) = Some h" "h \<noteq> InvalidHandle"
    "findPathAfterDrive (nm @ separator @ rest) = Inr dir" "length dir = 2048" "cstr dir = cstr rest"
    by (rule resolved [OF av len])
  obtain c where c: "clean_data dat = Some c" "dyn_abs c = filter (\<lambda>b. b \<noteq> 0) content"
    by (rule clean_data_correct [OF dat])
  obtain fs w1 where m: "mount_existing rb (BaseAdress_Get d) (avfs_hhdm av) h (fs_of av) w = Some (fs, w1)"
    "dinv w1" "good w1" "disk w1 = disk w" "fs_layout h n (disk w1) fs files"
    using block_device.mount_existing_finds_files [OF dev w lay tree_inv_fs_of] by blast
  have "AVFS_write g rb wb (nm @ separator @ rest) dat av w =
       map_option (\<lambda>(e, fs', w2). (e, w2)) (write_file rb wb fs dir (filter (\<lambda>b. b \<noteq> 0) content) 0 w1)"
    unfolding AVFS_write_def using r c m(1)
    by (cases "write_file rb wb fs dir (filter (\<lambda>b. b \<noteq> 0) content) 0 w1") auto
  then show ?thesis using that r(7,8) m(2-5) by blast
qed

lemma avfs_read_eq:
  assumes dev: "block_device rb wb h n disk dinv good" and w: "dinv w" "good w"
    and lay: "fs_layout h n (disk w) fs0 files" and av: "resolves g av nm h" "plain_name nm"
    and len: "length (nm @ separator @ rest) = 2048"
  obtains dir fs w1 where "length dir = 2048" "cstr dir = cstr rest" "dinv w1" "good w1" "disk w1 = disk w"
    "fs_layout h n (disk w1) fs files"
    "AVFS_read g rb (nm @ separator @ rest) dat av w =
       map_option (\<lambda>(r, dat', w2). (case r of Inl e \<Rightarrow> e | Inr _ \<Rightarrow> Success, the dat', w2))
         (read_file rb fs dir (Some dat) 0 (of_nat (size_field dat)) w1)"
proof -
  obtain s i d dir where r: "findDrive (nm @ separator @ rest) = Some (Inr s)" "retrieveDrive av s = Some (Inr i)"
    "dyn_index (drives av) i = Some d" "drive_handle g av (BaseAdress_Get d) = Some h" "h \<noteq> InvalidHandle"
    "findPathAfterDrive (nm @ separator @ rest) = Inr dir" "length dir = 2048" "cstr dir = cstr rest"
    by (rule resolved [OF av len])
  obtain fs w1 where m: "mount_existing rb (BaseAdress_Get d) (avfs_hhdm av) h (fs_of av) w = Some (fs, w1)"
    "dinv w1" "good w1" "disk w1 = disk w" "fs_layout h n (disk w1) fs files"
    using block_device.mount_existing_finds_files [OF dev w lay tree_inv_fs_of] by blast
  have "AVFS_read g rb (nm @ separator @ rest) dat av w =
       map_option (\<lambda>(r, dat', w2). (case r of Inl e \<Rightarrow> e | Inr _ \<Rightarrow> Success, the dat', w2))
         (read_file rb fs dir (Some dat) 0 (of_nat (size_field dat)) w1)"
    unfolding AVFS_read_def using r m(1)
    by (cases "read_file rb fs dir (Some dat) 0 (of_nat (size_field dat)) w1") auto
  then show ?thesis using that r(7,8) m(2-5) by blast
qed

text \<open>Mounting and dismounting change the format of a drive only.\<close>

lemma map_update_same:
  assumes "i < length ds" and "f d = f (ds ! i)"
  shows "map f (ds[i := d]) = map f ds"
  using assms by (metis list_update_id map_update)

definition same_drives :: "AVFS \<Rightarrow> AVFS \<Rightarrow> bool" where
  "same_drives av av' \<longleftrightarrow> avfs_inv av' \<and> avfs_gaossd av' = avfs_gaossd av \<and> drive_names av' = drive_names av \<and>
     map drv_base_address (dyn_abs (drives av')) = map drv_base_address (dyn_abs (drives av))"

lemma same_drives_resolves: "same_drives av av' \<Longrightarrow> resolves g av nm h \<Longrightarrow> resolves g av' nm h"
proof -
  assume same: "same_drives av av'" and r: "resolves g av nm h"
  obtain i where i: "position (trim_name nm) (drive_names av) 0 = Some i"
    "match_handle g (drv_base_address (dyn_abs (drives av) ! i)) = h"
    using r by (auto simp: resolves_def)
  have l: "i < length (dyn_abs (drives av))" using position_Some [OF i(1)] by (simp add: drive_names_def)
  have m: "map drv_base_address (dyn_abs (drives av')) = map drv_base_address (dyn_abs (drives av))"
    using same by (simp add: same_drives_def)
  then have "length (dyn_abs (drives av')) = length (dyn_abs (drives av))" by (rule map_eq_imp_length_eq)
  then have "drv_base_address (dyn_abs (drives av') ! i) = drv_base_address (dyn_abs (drives av) ! i)"
    using arg_cong [OF m, of "\<lambda>xs. xs ! i"] l by simp
  then show ?thesis using same r i by (simp add: resolves_def same_drives_def)
qed

text \<open>All drives of the table are on one device.\<close>

definition drives_on :: "'w gaossd \<Rightarrow> AVFS \<Rightarrow> u64 \<Rightarrow> bool" where
  "drives_on g av h \<longleftrightarrow> avfs_inv av \<and> avfs_gaossd av \<noteq> 0 \<and> h \<noteq> InvalidHandle \<and>
     (\<forall>a \<in> set (map drv_base_address (dyn_abs (drives av))). match_handle g a = h)"

lemma drives_on_same: "drives_on g av h \<Longrightarrow> same_drives av av' \<Longrightarrow> drives_on g av' h"
  unfolding drives_on_def same_drives_def by metis

lemma drives_on_resolves:
  assumes "drives_on g av h" and "trim_name nm \<in> set (drive_names av)"
  shows "resolves g av nm h"
proof -
  obtain i where i: "position (trim_name nm) (drive_names av) 0 = Some i"
    using position_None_iff [of "trim_name nm" "drive_names av" 0] assms(2) by auto
  then have "i < length (dyn_abs (drives av))" using position_Some [OF i] by (simp add: drive_names_def)
  then show ?thesis using assms(1) i by (auto simp: resolves_def drives_on_def)
qed

lemma set_format_same:
  assumes inv: "avfs_inv av" and i: "i < length (dyn_abs (drives av))" and fm: "str_inv 8 fm"
  obtains d' ds where "Format_Set fm (dyn_abs (drives av) ! i) = Some (Success, d')"
    "dyn_set (drives av) i d' = Some ds" "same_drives av (av\<lparr>drives := ds\<rparr>)"
proof -
  let ?d = "dyn_abs (drives av) ! i"
  have dv: "drive_inv ?d" using inv i by (simp add: avfs_inv_def)
  then have "str_inv 8 (drv_format ?d)" by (simp add: drive_inv_def)
  then obtain t where t: "str_assign 8 (drv_format ?d) fm = Some t" "str_inv 8 t"
    by (rule str_assign_correct [OF _ fm])
  let ?d' = "?d\<lparr>drv_format := t\<rparr>"
  have dy: "dyn_inv (drives av)" using inv by (simp add: avfs_inv_def)
  obtain ds where ds: "dyn_set (drives av) i ?d' = Some ds" "dyn_inv ds" "dyn_abs ds = (dyn_abs (drives av))[i := ?d']"
    using dyn_set_correct [OF dy i, of ?d'] by blast
  have "drive_inv ?d'" using dv t(2) by (simp add: drive_inv_def)
  then have "avfs_inv (av\<lparr>drives := ds\<rparr>)"
    using inv ds(2,3) set_update_subset_insert [of "dyn_abs (drives av)" i ?d'] by (auto simp: avfs_inv_def)
  then have "same_drives av (av\<lparr>drives := ds\<rparr>)"
    using i by (simp add: same_drives_def drive_names_def ds(3) map_update_same)
  then show ?thesis using that [of ?d' ds] t(1) ds(1) by (simp add: Format_Set_def)
qed

lemma avfs_mount_same:
  assumes dev: "block_device rb wb h n disk dinv good" and w: "dinv w" "good w"
    and lay: "fs_layout h n (disk w) fs0 files" and av: "resolves g av nm h" "plain_name nm"
    and len: "length (nm @ separator @ rest) = 2048"
  obtains av' w' where "AVFS_mount g rb (nm @ separator @ rest) av w = Some (Success, av', w')"
    "dinv w'" "good w'" "disk w' = disk w" "same_drives av av'"
proof -
  obtain s i d dir where r: "findDrive (nm @ separator @ rest) = Some (Inr s)" "retrieveDrive av s = Some (Inr i)"
    "dyn_index (drives av) i = Some d" "drive_handle g av (BaseAdress_Get d) = Some h" "h \<noteq> InvalidHandle"
    "findPathAfterDrive (nm @ separator @ rest) = Inr dir" "length dir = 2048" "cstr dir = cstr rest"
    "i < length (dyn_abs (drives av))" "d = dyn_abs (drives av) ! i"
    "position (trim_name nm) (drive_names av) 0 = Some i" "match_handle g (drv_base_address d) = h"
    by (rule resolved [OF av len])
  have inv: "avfs_inv av" using av(1) by (simp add: resolves_def)
  obtain ok fs w1 where m: "mount rb (BaseAdress_Get d) (avfs_hhdm av) h (fs_of av) w = Some (ok, fs, w1)"
    "dinv w1" "disk w1 = disk w" "good w \<longrightarrow> ok \<and> good w1" "is_mounted fs = ok"
    using block_device.mount_finds_files [OF dev w(1) lay tree_inv_fs_of, of "BaseAdress_Get d" "avfs_hhdm av" av] by blast
  obtain fm where fm: "str_of_cstr 8 (Some (bytes_of ''abtrfs'' @ [0])) = Some fm" "str_inv 8 fm"
    by (rule str_of_cstr_correct [of "bytes_of ''abtrfs'' @ [0]" 8]) simp_all
  obtain d' ds where f: "Format_Set fm d = Some (Success, d')" "dyn_set (drives av) i d' = Some ds"
    "same_drives av (av\<lparr>drives := ds\<rparr>)"
    using set_format_same [OF inv r(9) fm(2)] unfolding r(10) by blast
  have "AVFS_mount g rb (nm @ separator @ rest) av w = Some (Success, av\<lparr>drives := ds\<rparr>, w1)"
    unfolding AVFS_mount_def using r(1-5) m w(2) fm(1) f(1,2) by simp
  then show ?thesis using that [of "av\<lparr>drives := ds\<rparr>" w1] m(2,3,4) w(2) f(3) by simp
qed

lemma avfs_mount_good:
  assumes dev: "block_device rb wb h n disk dinv good" and w: "dinv w" "good w"
    and lay: "fs_layout h n (disk w) fs0 files" and av: "resolves g av nm h" "plain_name nm"
    and len: "length (nm @ separator @ rest) = 2048"
  obtains av' w' where "AVFS_mount g rb (nm @ separator @ rest) av w = Some (Success, av', w')"
    "dinv w'" "good w'" "disk w' = disk w" "resolves g av' nm h"
proof -
  obtain av' w' where "AVFS_mount g rb (nm @ separator @ rest) av w = Some (Success, av', w')"
    "dinv w'" "good w'" "disk w' = disk w" "same_drives av av'"
    by (rule avfs_mount_same [OF assms])
  then show ?thesis using that same_drives_resolves [OF _ av(1)] by blast
qed

lemma avfs_dismount_same:
  assumes av: "resolves g av nm h" "plain_name nm" and len: "length (nm @ separator @ rest) = 2048"
  obtains av' where "AVFS_dismount (nm @ separator @ rest) av = Some (Success, av')" "same_drives av av'"
proof -
  obtain s i d dir where r: "findDrive (nm @ separator @ rest) = Some (Inr s)" "retrieveDrive av s = Some (Inr i)"
    "dyn_index (drives av) i = Some d" "drive_handle g av (BaseAdress_Get d) = Some h" "h \<noteq> InvalidHandle"
    "findPathAfterDrive (nm @ separator @ rest) = Inr dir" "length dir = 2048" "cstr dir = cstr rest"
    "i < length (dyn_abs (drives av))" "d = dyn_abs (drives av) ! i"
    "position (trim_name nm) (drive_names av) 0 = Some i" "match_handle g (drv_base_address d) = h"
    by (rule resolved [OF av len])
  have inv: "avfs_inv av" using av(1) by (simp add: resolves_def)
  obtain fm where fm: "str_of_cstr 8 (Some [0]) = Some fm" "str_inv 8 fm"
    by (rule str_of_cstr_correct [of "[0]" 8]) simp_all
  obtain d' ds where f: "Format_Set fm d = Some (Success, d')" "dyn_set (drives av) i d' = Some ds"
    "same_drives av (av\<lparr>drives := ds\<rparr>)"
    using set_format_same [OF inv r(9) fm(2)] unfolding r(10) by blast
  have "AVFS_dismount (nm @ separator @ rest) av = Some (Success, av\<lparr>drives := ds\<rparr>)"
    unfolding AVFS_dismount_def using r(1-3) fm(1) f(1,2) by simp
  then show ?thesis using that f(3) by blast
qed

section \<open>A drive and a path for the witnesses\<close>

definition drive_A :: drive where
  "drive_A = drive_init\<lparr>drv_name := \<lparr>str_storage = SSO (65 # replicate 23 0), is_sso = True, str_length = 1\<rparr>\<rparr>"

definition avfs_A :: AVFS where
  "avfs_A = \<lparr>drives = \<lparr>data = owned [drive_A] 1, size_field = 1, capacity_field = 1\<rparr>, avfs_hhdm = 0, avfs_gaossd = 1\<rparr>"

lemma drive_A_name: "str_abs (drv_name drive_A) = [65]"
  by (simp add: drive_A_def str_abs_def c_str_def)

lemma avfs_A_drives: "dyn_abs (drives avfs_A) = [drive_A]"
  by (simp add: avfs_A_def)

lemma avfs_A_inv: "avfs_inv avfs_A"
proof -
  have "drive_inv drive_A"
    unfolding drive_inv_def drive_A_name by (simp add: drive_A_def drive_init_def str_inv_def str_init_def)
  moreover have "dyn_inv (drives avfs_A)" by (rule dyn_invI [of _ "[drive_A]"]) (simp_all add: avfs_A_def)
  ultimately show ?thesis unfolding avfs_inv_def avfs_A_drives by simp
qed

lemma one_device_handle: "match_handle one_device 0 = 0"
  by (simp add: match_handle_def device_count_def one_device_def get_device_def default_PhysicalStorage_def
      InvalidHandle_def Let_def)

lemma avfs_A_resolves: "resolves one_device avfs_A [65] 0"
proof -
  have "drive_names avfs_A = [[65]]" by (simp add: drive_names_def avfs_A_drives drive_A_name)
  moreover have "trim_name [65] = [65]" by (simp add: trim_name_def)
  moreover have "drv_base_address drive_A = 0" by (simp add: drive_A_def drive_init_def)
  ultimately show ?thesis
    using avfs_A_inv one_device_handle
    by (simp add: resolves_def avfs_A_drives) (simp add: avfs_A_def InvalidHandle_def)
qed

definition rest_A :: bytes where "rest_A = [47, 65] @ replicate 2042 0"

lemma rest_A_facts: "length ([65] @ separator @ rest_A) = 2048" "cstr rest_A = [47, 65]"
  "segments_of [] (cstr rest_A) \<noteq> []"
proof -
  show "length ([65] @ separator @ rest_A) = 2048" by (simp add: rest_A_def)
  have "rest_A = [47, 65] @ 0 # replicate 2041 0" by (simp add: rest_A_def flip: replicate_Suc)
  then have "cstr rest_A = cstr ([47, 65] @ 0 # replicate 2041 0)" by (rule arg_cong)
  also have "\<dots> = [47, 65]" by (rule cstr_terminated) simp
  finally show c: "cstr rest_A = [47, 65]" .
  show "segments_of [] (cstr rest_A) \<noteq> []"
    unfolding c by (simp add: segments_of_Nil_iff)
qed

lemma plain_A: "plain_name [65]" by (simp add: plain_name_def)

section \<open>Properties\<close>

text \<open>C27: a path \<^verbatim>\<open>name://rest\<close> is split at the separator: the drive name without the blanks at its
  end, and a full path buffer that holds the rest.\<close>

theorem avfs_path_splits:
  assumes "plain_name nm" and "length (nm @ separator @ rest) = 2048"
  shows "\<exists>s dir. findDrive (nm @ separator @ rest) = Some (Inr s) \<and> str_inv 16 s \<and> str_abs s = trim_name nm \<and>
    findPathAfterDrive (nm @ separator @ rest) = Inr dir \<and> length dir = 2048 \<and> cstr dir = cstr rest"
proof -
  obtain s where "find_drive_loop (nm @ separator @ rest) (str_init 16) = Some (Inr s)" "str_inv 16 s"
    "str_abs s = trim_name (str_abs (str_init 16) @ nm)"
    by (rule find_drive_loop_name [OF assms(1) str_inv_init]) simp_all
  moreover obtain dir where "findPathAfterDrive (nm @ separator @ rest) = Inr dir" "length dir = 2048"
    "cstr dir = cstr rest"
    by (rule findPathAfterDrive_name [OF assms])
  ultimately show ?thesis by (simp add: findDrive_def)
qed

theorem avfs_path_splits_witness:
  "\<exists>s dir. findDrive ([65] @ separator @ rest_A) = Some (Inr s) \<and> str_abs s = [65] \<and>
     findPathAfterDrive ([65] @ separator @ rest_A) = Inr dir \<and> cstr dir = [47, 65]"
proof -
  have "trim_name [65] = [65]" by (simp add: trim_name_def)
  then show ?thesis
    using avfs_path_splits [OF plain_A rest_A_facts(1)] rest_A_facts(2) by auto
qed

text \<open>C7: a new file written through the virtual file system is read back through it, each operation
  mounting the file system anew; what comes back is the data without its zero bytes, cut to the size
  of the reader's array unless that is empty.\<close>

theorem avfs_write_then_read:
  assumes dev: "block_device rb wb h n disk dinv good" and w: "dinv w" "good w"
    and lay: "fs_layout h n (disk w) fs0 files" and av: "resolves g av nm h" "plain_name nm"
    and path: "length (nm @ separator @ rest) = 2048" "segments_of [] (cstr rest) \<noteq> []" "length (cstr rest) < 255"
    and new: "map_of files (cstr rest) = None"
    and dat: "read_all (DynArr.data dat) [0..<size_field dat] = Some content" "length content + 4096 \<le> 18446744073709551616"
    and wr: "AVFS_write g rb wb (nm @ separator @ rest) dat av w = Some (Success, w1)" and buf: "dyn_inv buf"
  shows "\<exists>buf' w2. AVFS_read g rb (nm @ separator @ rest) buf av w1 = Some (Success, buf', w2) \<and>
    dyn_abs buf' = file_slice 0 (of_nat (size_field buf)) (filter (\<lambda>b. b \<noteq> 0) content)"
proof -
  let ?c = "filter (\<lambda>b. b \<noteq> 0) content"
  obtain dir fs w' where a: "length dir = 2048" "cstr dir = cstr rest" "dinv w'" "good w'" "disk w' = disk w"
    "fs_layout h n (disk w') fs files"
    "AVFS_write g rb wb (nm @ separator @ rest) dat av w =
       map_option (\<lambda>(e, fs', w2). (e, w2)) (write_file rb wb fs dir ?c 0 w')"
    by (rule avfs_write_eq [OF dev w lay av path(1) dat(1)])
  then obtain fs1 where wf: "write_file rb wb fs dir ?c 0 w' = Some (Success, fs1, w1)"
    using wr by auto
  have p: "good_path dir" "length (cstr dir) < 255" using a(1,2) path(2,3) by (simp_all add: good_path_def)
  have "length ?c \<le> length content" by (rule length_filter_le)
  then have "length ?c + 4096 \<le> 18446744073709551616" using dat(2) by linarith
  then have fits: "write_fits (map_of files (cstr dir)) (unat 0) (length ?c)"
    using new a(2) by (simp add: write_fits_def)
  obtain files' where f: "dinv w1" "good w1" "fs_layout h n (disk w1) fs1 files'" "map_of files' (cstr rest) = Some ?c"
    using block_device.write_file_refines [OF dev a(3,4,6) p fits] wf new a(2)
    by (auto simp: written_def overlay_Nil)
  obtain dir' fs2 w2 where b: "length dir' = 2048" "cstr dir' = cstr rest" "dinv w2" "good w2" "disk w2 = disk w1"
    "fs_layout h n (disk w2) fs2 files'"
    "AVFS_read g rb (nm @ separator @ rest) buf av w1 =
       map_option (\<lambda>(r, dat', w2). (case r of Inl e \<Rightarrow> e | Inr _ \<Rightarrow> Success, the dat', w2))
         (read_file rb fs2 dir' (Some buf) 0 (of_nat (size_field buf)) w2)"
    by (rule avfs_read_eq [OF dev f(1-3) av path(1)])
  have p': "good_path dir'" using b(1,2) path(2) by (simp add: good_path_def)
  have arg: "\<forall>d. Some buf = Some d \<longrightarrow> dyn_inv d" using buf by simp
  from block_device.read_file_reads [OF dev b(3,6) p' arg, of 0 "of_nat (size_field buf)"]
  obtain r arg' w3 where r: "read_file rb fs2 dir' (Some buf) 0 (of_nat (size_field buf)) w2 = Some (r, arg', w3)"
      "\<forall>e. r = Inl e \<longrightarrow> map_of files' (cstr dir') = None \<or> \<not> good w2"
      "\<forall>d. r = Inr d \<longrightarrow> (\<exists>c a'. map_of files' (cstr dir') = Some c \<and> dyn_abs d = file_slice 0 (of_nat (size_field buf)) c \<and>
         arg' = Some a' \<and> dyn_abs a' = dyn_abs d)"
    by (elim exE conjE) (rule that, assumption+, auto split: sum.split_asm)
  then obtain d where "r = Inr d" using b(2,4) f(4) by (cases r) auto
  then show ?thesis using r(1,3) b(2,7) f(4) by auto
qed

theorem avfs_write_then_read_witness:
  "\<exists>w w1 buf w2. AVFS_write one_device ref_read ref_write ([65] @ separator @ rest_A) (dyn_view (Some [1, 0, 2]) 3) avfs_A w
       = Some (Success, w1) \<and>
     AVFS_read one_device ref_read ([65] @ separator @ rest_A) dyn_init avfs_A w1 = Some (Success, buf, w2) \<and>
     dyn_abs buf = [1, 2]"
proof -
  obtain fs w where f: "ref_inv w" "ref_good w" "fs_layout 0 204800 (ref_blocks w) fs []"
    "free_blocks_count (partition_header fs) = 204799"
    by (rule formatted_ref)
  have dat: "read_all (DynArr.data (dyn_view (Some [1, 0, 2]) 3)) [0..<size_field (dyn_view (Some [1 :: u8, 0, 2]) 3)] = Some [1, 0, 2]"
    by (simp add: dyn_view_def mem_read_def upt_rec)
  obtain dir fs1 w1 where a: "length dir = 2048" "cstr dir = cstr rest_A" "ref_inv w1" "ref_good w1" "ref_blocks w1 = ref_blocks w"
    "fs_layout 0 204800 (ref_blocks w1) fs1 []"
    "AVFS_write one_device ref_read ref_write ([65] @ separator @ rest_A) (dyn_view (Some [1, 0, 2]) 3) avfs_A w =
       map_option (\<lambda>(e, fs', w2). (e, w2)) (write_file ref_read ref_write fs1 dir (filter (\<lambda>b. b \<noteq> 0) [1, 0, 2]) 0 w1)"
    by (rule avfs_write_eq [OF ref.block_device_axioms f(1-3) avfs_A_resolves plain_A rest_A_facts(1) dat])
  have "partition_header fs1 = partition_header fs"
    using a(5,6) f(3) by (simp add: fs_layout_def Let_def)
  then have free: "\<not> unat (free_blocks_count (partition_header fs1)) < 1 + blocks_of (unat (0 :: u64) + length [1 :: u8, 2])"
    using f(4) by (simp add: blocks_of_def)
  have p: "good_path dir" "length (cstr dir) < 255" using a(1,2) rest_A_facts(2,3) by (simp_all add: good_path_def)
  have fits: "write_fits (map_of [] (cstr dir)) (unat 0) (length [1 :: u8, 2])"
    by (simp add: write_fits_def)
  obtain fs2 w2 where "write_file ref_read ref_write fs1 dir [1, 2] 0 w1 = Some (Success, fs2, w2)"
    using ref.write_file_refines [OF a(3,4,6) p fits] free by (auto split: if_splits)
  then have wr: "AVFS_write one_device ref_read ref_write ([65] @ separator @ rest_A) (dyn_view (Some [1, 0, 2]) 3) avfs_A w
      = Some (Success, w2)"
    using a(7) by simp
  have "map_of [] (cstr rest_A) = None" "length (cstr rest_A) < 255" "length [1 :: u8, 0, 2] + 4096 \<le> 18446744073709551616"
    using rest_A_facts(2) by simp_all
  from avfs_write_then_read [OF ref.block_device_axioms f(1-3) avfs_A_resolves plain_A rest_A_facts(1,3) this(2,1) dat this(3) wr
      dyn_init_correct(1)]
  obtain buf w3 where "AVFS_read one_device ref_read ([65] @ separator @ rest_A) dyn_init avfs_A w2 = Some (Success, buf, w3)"
    "dyn_abs buf = [1, 2]"
    by (auto simp: file_slice_def dyn_init_def)
  then show ?thesis using wr by blast
qed

section \<open>Registering the drives\<close>

definition drive_table :: "drive dynarr \<Rightarrow> (u64 \<times> bytes) list" where
  "drive_table ds = map (\<lambda>d. (drv_base_address d, str_abs (drv_name d))) (dyn_abs ds)"

definition drives_inv :: "drive dynarr \<Rightarrow> bool" where
  "drives_inv ds \<longleftrightarrow> dyn_inv ds \<and> (\<forall>d \<in> set (dyn_abs ds). drive_inv d)"

text \<open>The storage driver's devices: there is one, there are not too many, and names are terminated.\<close>

definition devices_ok :: "'w gaossd \<Rightarrow> bool" where
  "devices_ok g \<longleftrightarrow> storageDevices g \<noteq> [] \<and> length (storageDevices g) < 2 ^ 64 \<and>
     (\<forall>dev \<in> set (storageDevices g). 0 \<in> set (dev_name dev))"

definition device_for :: "'w gaossd \<Rightarrow> u64 \<Rightarrow> 'w PhysicalStorage" where
  "device_for g base_addr = storageDevices g ! unat (match_handle g base_addr)"

text \<open>The comparison of pointers never finds a drive.\<close>

lemma never_registered: "already_registered ds (name_ptr h dev) = False"
proof -
  have "registered_loop (name_ptr h dev) is = False" for "is"
    by (induction "is") (simp_all add: name_ptr_def)
  then show ?thesis by (simp add: already_registered_def)
qed

lemma match_loop_range:
  "match_loop g a hs = InvalidHandle \<or> (\<exists>h \<in> set hs. match_loop g a hs = of_nat h)"
  by (induction hs) (auto split: option.splits)

lemma device_found:
  assumes "devices_ok g"
  shows "get_device g (match_handle g a) = Some (device_for g a)" "device_for g a \<in> set (storageDevices g)"
proof -
  let ?n = "length (storageDevices g)"
  have n: "unat (device_count g) = ?n" "0 < ?n" "?n < 2 ^ 64"
    using assms by (auto simp: devices_ok_def device_count_def word_nat)
  have pos: "0 < device_count g" using n(1,2) by (simp add: word_less_nat_alt)
  have "unat (match_handle g a) < ?n"
    using match_loop_range [of g a "[0..<?n]"]
  proof (elim disjE bexE)
    assume "match_loop g a [0..<?n] = InvalidHandle"
    then have "match_handle g a = 0" using pos n(1) by (simp add: match_handle_def Let_def)
    then show ?thesis using n(2) by simp
  next
    fix h assume h: "h \<in> set [0..<?n]" "match_loop g a [0..<?n] = of_nat h"
    show ?thesis
    proof (cases "match_loop g a [0..<?n] = InvalidHandle")
      case True
      then have "match_handle g a = 0" using pos n(1) by (simp add: match_handle_def Let_def)
      then show ?thesis using n(2) by simp
    next
      case False
      then have "match_handle g a = of_nat h" using h(2) n(1) by (simp add: match_handle_def Let_def)
      moreover have "unat (of_nat h :: u64) = h" using h(1) n(3) by (simp add: word_nat)
      ultimately show ?thesis using h(1) by simp
    qed
  qed
  then show "get_device g (match_handle g a) = Some (device_for g a)" "device_for g a \<in> set (storageDevices g)"
    by (simp_all add: get_device_def device_for_def)
qed

lemma device_name_terminated: "devices_ok g \<Longrightarrow> 0 \<in> set (drive_device_name (device_for g a))"
  using device_found(2) [of g a] by (auto simp: drive_device_name_def devices_ok_def)

lemma init_drive_correct:
  assumes g: "devices_ok g" and ds: "drives_inv ds"
  shows "\<exists>ds'. init_drive g sd ds = Some ds' \<and> drives_inv ds' \<and>
    drive_table ds' = drive_table ds @ [(base_address sd, cstr (drive_device_name (device_for g (base_address sd))))]"
proof -
  define a where "a = base_address sd"
  define nm where "nm = drive_device_name (device_for g a)"
  have z: "0 \<in> set nm" using device_name_terminated [OF g] by (simp add: nm_def)
  obtain s where s: "str_of_cstr 23 (Some nm) = Some s" "str_inv 23 s" "str_abs s = cstr nm"
    by (rule str_of_cstr_correct [OF z])
  obtain t where t: "str_assign 23 (str_init 23) s = Some t" "str_inv 23 t" "str_abs t = str_abs s"
    by (rule str_assign_correct [OF str_inv_init s(2)])
  obtain u where u: "str_copy 23 t = Some u" "str_inv 23 u" "str_abs u = str_abs t"
    by (rule str_copy_correct [OF t(2)])
  obtain fm where fm: "str_copy 8 (str_init 8) = Some fm" "str_inv 8 fm"
    by (rule str_copy_correct [OF str_inv_init [of 8], of 8])
  define d where "d = drive_init\<lparr>drv_base_address := a, drv_name := u, drv_format := fm\<rparr>"
  have dr: "drive_inv d"
    using u t s fm cstr_no_nul [of nm] by (simp add: drive_inv_def d_def)
  obtain ds' where ds': "dyn_push_back ds d = Some ds'" "dyn_inv ds'" "dyn_abs ds' = dyn_abs ds @ [d]"
    using ds by (auto simp: drives_inv_def elim: dyn_push_back_correct)
  have "init_drive g sd ds = Some ds'"
    using device_found(1) [OF g, of a] s(1) t(1) u(1) fm(1) ds'(1) unfolding a_def nm_def
    by (simp add: init_drive_def never_registered Let_def BaseAdress_Set_def Name_Set_def drive_copy_def
        drive_init_def d_def a_def)
  then show ?thesis
    using ds' ds dr u(3) t(3) s(3) by (simp add: drives_inv_def drive_table_def d_def a_def nm_def)
qed

text \<open>Without a device no drive is registered.\<close>

definition named_devices :: "'w gaossd \<Rightarrow> bool" where
  "named_devices g \<longleftrightarrow> length (storageDevices g) < 2 ^ 64 \<and> (\<forall>dev \<in> set (storageDevices g). 0 \<in> set (dev_name dev))"

definition init_rows :: "'w gaossd \<Rightarrow> u64 \<Rightarrow> (u64 \<times> bytes) list" where
  "init_rows g a = (if storageDevices g = [] then [] else [(a, cstr (drive_device_name (device_for g a)))])"

lemma init_drive_rows:
  assumes g: "named_devices g" and ds: "drives_inv ds"
  shows "\<exists>ds'. init_drive g sd ds = Some ds' \<and> drives_inv ds' \<and> drive_table ds' = drive_table ds @ init_rows g (base_address sd)"
proof (cases "storageDevices g = []")
  case True
  then show ?thesis using ds by (simp add: init_drive_def get_device_def init_rows_def Let_def)
next
  case False
  then have "devices_ok g" using g by (simp add: devices_ok_def named_devices_def)
  from init_drive_correct [OF this ds, of sd] show ?thesis using False by (simp add: init_rows_def)
qed

lemma AVFS_Init_rows:
  assumes space: "port_space mc ok cfg" and s: "ok s" and ib: "ibus_inv ib" and g: "named_devices g"
    and av: "drives_inv (drives av)" "avfs_gaossd av \<noteq> 0"
  obtains av' ib' s' where "AVFS_Init g mc av (ib, s) = Some (av', ib', s')" "drives_inv (drives av')"
    "avfs_hhdm av' = hhdm_offset ib'" "avfs_gaossd av' = avfs_gaossd av"
    "drive_table (drives av') = drive_table (drives av) @
      concat (map (\<lambda>p. init_rows g (base_address (device_of (cfg s) p)))
        (filter (\<lambda>(b, sl, f). class_code (cfg s b sl f 8) = 1) (present_places (cfg s))))"
proof -
  let ?ps = "filter (\<lambda>(b, sl, f). class_code (cfg s b sl f 8) = 1) (present_places (cfg s))"
  obtain ib1 s1 where r: "scan_all_buses mc (ib, s) = Some (Success, ib1, s1)" "ibus_inv ib1"
      "dyn_abs (discovered_devices ib1) = map (device_of (cfg s)) (present_places (cfg s))"
    by (rule scan_all_buses_correct [OF space s ib])
  obtain ib2 where ib2: "get_storage_devices ib1 = Some ib2" "ibus_inv ib2" "dyn_abs (storage_devices ib2) =
      filter (\<lambda>x. is_storage_type (deduced_type x)) (dyn_abs (discovered_devices ib1))"
    using get_storage_devices_correct [OF r(2)] by blast
  have "(\<lambda>x. is_storage_type (deduced_type x)) \<circ> device_of (cfg s) = (\<lambda>(b, sl, f). class_code (cfg s b sl f 8) = 1)"
    by (intro ext) (simp add: storage_type_class split: prod.split)
  then have sds: "dyn_abs (storage_devices ib2) = map (device_of (cfg s)) ?ps"
    using ib2(3) r(3) by (simp add: filter_map)
  define sds where "sds = dyn_abs (storage_devices ib2)"
  have inv: "dyn_inv (storage_devices ib2)" using ib2(2) by (simp add: ibus_inv_def)
  let ?f = "\<lambda>i ds. do { sd \<leftarrow> dyn_index (storage_devices ib2) i; init_drive g sd ds }"
  let ?row = "\<lambda>sd. init_rows g (base_address sd)"
  have step: "\<exists>ds'. ?f i ds = Some ds' \<and> drives_inv ds' \<and> drive_table ds' = drive_table ds @ ?row (sds ! i)"
    if "i \<in> set [0..<length sds]" "drives_inv ds" for i ds
    using init_drive_rows [OF g that(2), of "sds ! i"] that(1) dyn_index_correct [OF inv, of i]
    by (simp add: sds_def)
  obtain ds where ds: "each ?f [0..<length sds] (drives av) = Some ds" "drives_inv ds"
    "drive_table ds = drive_table (drives av) @ concat (map (\<lambda>i. ?row (sds ! i)) [0..<length sds])"
    using each_invariant [of "[0..<length sds]" drives_inv ?f drive_table "\<lambda>i. ?row (sds ! i)", OF step av(1)] by blast
  have "map (\<lambda>i. ?row (sds ! i)) [0..<length sds] = map ?row sds"
    by (rule nth_equalityI) simp_all
  then have cc: "concat (map (\<lambda>i. ?row (sds ! i)) [0..<length sds]) = concat (map ?row sds)" by simp
  have tab: "drive_table ds = drive_table (drives av) @ concat (map ?row sds)" unfolding ds(3) cc ..
  have "AVFS_Init g mc av (ib, s) = Some (av\<lparr>avfs_hhdm := get_hhdm_offset ib2, drives := ds\<rparr>, ib2, s1)"
    using r(1) ib2(1) ds(1) av(2) size_field_abs [OF inv]
    by (simp add: AVFS_Init_def drive_handle_def sds_def Let_def)
  then show ?thesis
    using ds(2) tab unfolding sds_def sds
    by (intro that [of "av\<lparr>avfs_hhdm := get_hhdm_offset ib2, drives := ds\<rparr>" ib2 s1])
      (simp_all add: get_hhdm_offset_def Let_def comp_def)
qed

lemma AVFS_Init_correct:
  assumes space: "port_space mc ok cfg" and s: "ok s" and ib: "ibus_inv ib" and g: "devices_ok g"
    and av: "drives_inv (drives av)" "avfs_gaossd av \<noteq> 0"
  obtains av' ib' s' where "AVFS_Init g mc av (ib, s) = Some (av', ib', s')" "drives_inv (drives av')"
    "avfs_hhdm av' = hhdm_offset ib'" "avfs_gaossd av' = avfs_gaossd av"
    "drive_table (drives av') = drive_table (drives av) @
      map (\<lambda>p. let a = base_address (device_of (cfg s) p) in (a, cstr (drive_device_name (device_for g a))))
        (filter (\<lambda>(b, sl, f). class_code (cfg s b sl f 8) = 1) (present_places (cfg s)))"
proof -
  have n: "named_devices g" "storageDevices g \<noteq> []" using g by (simp_all add: named_devices_def devices_ok_def)
  show ?thesis
    by (rule AVFS_Init_rows [OF space s ib n(1) av]) (rule that, simp_all add: init_rows_def n(2) Let_def)
qed

text \<open>C28: \<^verbatim>\<open>Init\<close> scans the buses and, when the attached driver has a device, appends one drive for every
  storage device found, with its base address and the name of the driver's device for it (or a fixed one); when
  it has none, nothing is appended. Drives that are registered already are never recognised.\<close>

theorem init_registers_storage_devices:
  assumes space: "port_space mc ok cfg" and s: "ok s" and ib: "ibus_inv ib" and g: "named_devices g"
    and av: "drives_inv (drives av)" "avfs_gaossd av \<noteq> 0"
  shows "\<exists>av' ib' s'. AVFS_Init g mc av (ib, s) = Some (av', ib', s') \<and> drives_inv (drives av') \<and>
    avfs_hhdm av' = hhdm_offset ib' \<and>
    drive_table (drives av') = drive_table (drives av) @
      (if storageDevices g = [] then []
       else map (\<lambda>p. let a = base_address (device_of (cfg s) p) in (a, cstr (drive_device_name (device_for g a))))
         (filter (\<lambda>(b, sl, f). class_code (cfg s b sl f 8) = 1) (present_places (cfg s))))"
  by (rule AVFS_Init_rows [OF assms]) (simp add: init_rows_def Let_def)

theorem init_registers_storage_devices_witness:
  "\<exists>av' ib' s'. AVFS_Init one_device port_machine avfs_A (ibus_fields, one_nvme) = Some (av', ib', s') \<and>
     set (drive_table (drives av')) = {(0, [65]), (0xFEB00000, bytes_of ''ALOPEX_NVME_01'')}"
proof -
  let ?lit = "bytes_of ''ALOPEX_NVME_01''"
  have g: "devices_ok one_device" "named_devices one_device" "storageDevices one_device \<noteq> []"
    by (simp_all add: devices_ok_def named_devices_def one_device_def default_PhysicalStorage_def)
  have nm: "cstr (drive_device_name (device_for one_device a)) = ?lit" for a
  proof -
    have "device_for one_device a \<in> set (storageDevices one_device)" by (rule device_found(2) [OF g(1)])
    then have "dev_name (device_for one_device a) = replicate 64 0"
      by (simp add: one_device_def default_PhysicalStorage_def)
    then have "drive_device_name (device_for one_device a) = ?lit @ 0 # []" by (simp add: drive_device_name_def)
    moreover have "0 \<notin> set ?lit" by (simp add: bytes_of_def)
    ultimately show ?thesis using cstr_terminated by simp
  qed
  have av: "drives_inv (drives avfs_A)" "avfs_gaossd avfs_A \<noteq> 0"
    using avfs_A_inv by (simp_all add: drives_inv_def avfs_inv_def) (simp add: avfs_A_def)
  have "{p \<in> set (present_places (port_cfg one_nvme)). case p of (b, sl, f) \<Rightarrow> class_code (port_cfg one_nvme b sl f 8) = 1}
      = {(0, 3, 0)}"
    unfolding one_nvme_present by (auto simp: one_nvme_regs class_code_def)
  moreover have "base_address (device_of (port_cfg one_nvme) (0, 3, 0)) = 0xFEB00000"
    by (simp add: device_of_def device_info_def one_nvme_regs Let_def)
  moreover have "drive_table (drives avfs_A) = [(0, [65])]"
    by (simp add: drive_table_def avfs_A_drives drive_A_name) (simp add: drive_A_def drive_init_def)
  ultimately show ?thesis
    using init_registers_storage_devices [OF ibus_ports.port_space_axioms TrueI ibus_fields_inv g(2) av, of one_nvme] g(3)
    by (elim exE conjE) (simp add: nm Let_def insert_commute)
qed

end
