(* ===== verification/SystemX.thy ===== *)
theory SystemX
  imports Avfs
begin

unbundle bit_operations_syntax

text \<open>
  The system call layer (\<^verbatim>\<open>include/SystemXABI/SystemX.hpp\<close>, \<^verbatim>\<open>include/SystemXABI/ABI.hpp\<close>,
  \<^verbatim>\<open>src/SystemX/AlopexOS/SystemX.cpp\<close>): permissions, the dispatcher and the file calls. The caller's
  memory is a function from addresses to bytes; results are left in the register \<^verbatim>\<open>rcx\<close>. The calls
  for processes, memory and the network have empty bodies in the source.
\<close>

section \<open>Permissions\<close>

type_synonym permission = u64

definition perm_NONE :: permission where "perm_NONE = 0"
definition perm_READ :: permission where "perm_READ = push_bit 0 1"
definition perm_WRITE :: permission where "perm_WRITE = push_bit 1 1"
definition perm_EXECUTE :: permission where "perm_EXECUTE = push_bit 2 1"
definition perm_ADMIN :: permission where "perm_ADMIN = push_bit 3 1"
definition perm_NETWORK :: permission where "perm_NETWORK = push_bit 4 1"
definition perm_STORAGE :: permission where "perm_STORAGE = push_bit 5 1"
definition perm_DIAGNOSTIC :: permission where "perm_DIAGNOSTIC = push_bit 6 1"
definition perm_MEMORY_MAP :: permission where "perm_MEMORY_MAP = push_bit 7 1"
definition perm_RAW_IO :: permission where "perm_RAW_IO = push_bit 8 1"
definition perm_INTERRUPT_CONTROL :: permission where "perm_INTERRUPT_CONTROL = push_bit 9 1"
definition perm_PROCESS_SPAWN :: permission where "perm_PROCESS_SPAWN = push_bit 10 1"
definition perm_DEBUGGER :: permission where "perm_DEBUGGER = push_bit 11 1"
definition perm_SYS_CONFIG :: permission where "perm_SYS_CONFIG = push_bit 12 1"
definition perm_READ_WRITE :: permission where "perm_READ_WRITE = perm_READ OR perm_WRITE"
definition perm_DEFAULT :: permission where "perm_DEFAULT = perm_READ OR perm_WRITE"
definition perm_EXECUTABLE :: permission where
  "perm_EXECUTABLE = perm_READ OR perm_WRITE OR perm_EXECUTE"
definition perm_SANDBOXED :: permission where "perm_SANDBOXED = perm_READ OR perm_EXECUTE"
definition perm_SERVICE_DAEMON :: permission where
  "perm_SERVICE_DAEMON = perm_READ OR perm_WRITE OR perm_EXECUTE OR perm_NETWORK OR perm_STORAGE"
definition perm_SUPERUSER :: permission where "perm_SUPERUSER = 0xFFFFFFFFFFFFFFFF"

definition kernelSpace :: permission where "kernelSpace = perm_SUPERUSER"

definition perm_or :: "permission \<Rightarrow> permission \<Rightarrow> permission" where "perm_or lhs rhs = lhs OR rhs"
definition perm_and :: "permission \<Rightarrow> permission \<Rightarrow> permission" where "perm_and lhs rhs = lhs AND rhs"
definition perm_not :: "permission \<Rightarrow> permission" where "perm_not p = NOT p"

definition has_permission :: "permission \<Rightarrow> permission \<Rightarrow> bool" where
  "has_permission target flag \<longleftrightarrow> target AND flag = flag"

section \<open>State\<close>

record programs =
  pid :: u64
  prog_path :: bytes
  permissions :: permission

record SystemX =
  sx_avfs :: "AVFS option"
  active_programs :: "programs dynarr"

definition SystemX_init :: SystemX where
  "SystemX_init = \<lparr>sx_avfs = None, active_programs = dyn_init\<rparr>"

definition attachAVFS :: "AVFS option \<Rightarrow> SystemX \<Rightarrow> errorCode \<times> SystemX" where
  "attachAVFS av k = (Success, k\<lparr>sx_avfs := av\<rparr>)"

definition getAVFSInstance :: "SystemX \<Rightarrow> AVFS option" where "getAVFSInstance k = sx_avfs k"

definition executeProgram :: "bytes \<Rightarrow> u64" where "executeProgram pth = 0"

text \<open>The registers a call can change, and the state it runs on: the kernel, its disks, the caller's
  memory.\<close>

record 's machine_state =
  ms_kernel :: SystemX
  ms_disk :: 's
  ms_mem :: memory
  ms_rax :: u64
  ms_rcx :: "u64 option"

definition Rax :: "'s machine_state \<Rightarrow> u64" where "Rax st = ms_rax st"
definition Rcx :: "'s machine_state \<Rightarrow> u64 option" where "Rcx st = ms_rcx st"

section \<open>The file calls\<close>

definition path_at :: "memory \<Rightarrow> u64 \<Rightarrow> bytes" where "path_at m p = mem_bytes m p 2048"

text \<open>\<^verbatim>\<open>dynarr<byte> dataView(dataPtr, dataSize)\<close>.\<close>

definition view_at :: "memory \<Rightarrow> u64 \<Rightarrow> u64 \<Rightarrow> byte dynarr" where
  "view_at m p n = dyn_view (if p = 0 then None else Some (mem_bytes m p (unat n))) (unat n)"

text \<open>What was stored through the view.\<close>

definition store_view :: "u64 \<Rightarrow> byte dynarr \<Rightarrow> memory \<Rightarrow> memory" where
  "store_view p d m = (case data d of
     External xs \<Rightarrow> fold (\<lambda>i m. m(p + of_nat i := xs ! i)) [0..<length xs] m
   | _ \<Rightarrow> m)"

definition sys_write :: "'w gaossd \<Rightarrow> 's block_read \<Rightarrow> 's block_write \<Rightarrow> u64 \<Rightarrow> u64 \<Rightarrow> u64 \<Rightarrow>
    's machine_state \<Rightarrow> 's machine_state option" where
  "sys_write g rb wb PathBuffer DataBuffer DataSize st = do {
     av \<leftarrow> getAVFSInstance (ms_kernel st);
     (e, w) \<leftarrow> AVFS_write g rb wb (path_at (ms_mem st) PathBuffer)
        (view_at (ms_mem st) DataBuffer DataSize) av (ms_disk st);
     Some (st\<lparr>ms_disk := w, ms_rcx := Some (errorCode_value e)\<rparr>) }"

definition sys_read :: "'w gaossd \<Rightarrow> 's block_read \<Rightarrow> u64 \<Rightarrow> u64 \<Rightarrow> u64 \<Rightarrow>
    's machine_state \<Rightarrow> 's machine_state option" where
  "sys_read g rb PathBuffer DataBuffer DataSize st = do {
     av \<leftarrow> getAVFSInstance (ms_kernel st);
     (e, d, w) \<leftarrow> AVFS_read g rb (path_at (ms_mem st) PathBuffer)
        (view_at (ms_mem st) DataBuffer DataSize) av (ms_disk st);
     Some (st\<lparr>ms_disk := w, ms_mem := store_view DataBuffer d (ms_mem st), ms_rcx := Some (errorCode_value e)\<rparr>) }"

definition sys_exists :: "u64 \<Rightarrow> 's machine_state \<Rightarrow> 's machine_state option" where
  "sys_exists PathBuffer st = do {
     av \<leftarrow> getAVFSInstance (ms_kernel st);
     e \<leftarrow> AVFS_exists (path_at (ms_mem st) PathBuffer) av;
     Some (st\<lparr>ms_rcx := Some (errorCode_value e)\<rparr>) }"

definition sys_mount :: "'w gaossd \<Rightarrow> 's block_read \<Rightarrow> u64 \<Rightarrow> 's machine_state \<Rightarrow> 's machine_state option" where
  "sys_mount g rb PathBuffer st = do {
     av \<leftarrow> getAVFSInstance (ms_kernel st);
     (e, av', w) \<leftarrow> AVFS_mount g rb (path_at (ms_mem st) PathBuffer) av (ms_disk st);
     Some (st\<lparr>ms_kernel := (ms_kernel st)\<lparr>sx_avfs := Some av'\<rparr>, ms_disk := w,
              ms_rcx := Some (errorCode_value e)\<rparr>) }"

definition sys_dismount :: "u64 \<Rightarrow> 's machine_state \<Rightarrow> 's machine_state option" where
  "sys_dismount PathBuffer st = do {
     av \<leftarrow> getAVFSInstance (ms_kernel st);
     (e, av') \<leftarrow> AVFS_dismount (path_at (ms_mem st) PathBuffer) av;
     Some (st\<lparr>ms_kernel := (ms_kernel st)\<lparr>sx_avfs := Some av'\<rparr>, ms_rcx := Some (errorCode_value e)\<rparr>) }"

text \<open>The address of a literal of the kernel image.\<close>

definition sys_os_arch :: "u64 \<Rightarrow> 's machine_state \<Rightarrow> 's machine_state" where
  "sys_os_arch arch st = st\<lparr>ms_rcx := Some arch\<rparr>"

definition sys_os_type :: "u64 \<Rightarrow> 's machine_state \<Rightarrow> 's machine_state" where
  "sys_os_type os st = st\<lparr>ms_rcx := Some os\<rparr>"

section \<open>The calls that are empty\<close>

text \<open>They set no register, and \<^verbatim>\<open>rcx\<close> is one the functions on the way may use: what it holds afterwards is not known.\<close>

definition rcx_unknown :: "'s machine_state \<Rightarrow> 's machine_state" where "rcx_unknown st = st\<lparr>ms_rcx := None\<rparr>"

definition sys_spawn :: "u64 \<Rightarrow> u64 \<Rightarrow> 's machine_state \<Rightarrow> 's machine_state" where "sys_spawn p a st = rcx_unknown st"
definition sys_kill :: "u64 \<Rightarrow> 's machine_state \<Rightarrow> 's machine_state" where "sys_kill target st = rcx_unknown st"
definition sys_get_pid :: "'s machine_state \<Rightarrow> 's machine_state" where "sys_get_pid st = rcx_unknown st"
definition sys_exit :: "'s machine_state \<Rightarrow> 's machine_state" where "sys_exit st = rcx_unknown st"
definition sys_mmap :: "u64 \<Rightarrow> u64 \<Rightarrow> u64 \<Rightarrow> 's machine_state \<Rightarrow> 's machine_state" where "sys_mmap a n p st = rcx_unknown st"
definition sys_munmap :: "u64 \<Rightarrow> u64 \<Rightarrow> 's machine_state \<Rightarrow> 's machine_state" where "sys_munmap a n st = rcx_unknown st"
definition sys_net_send :: "u64 \<Rightarrow> u64 \<Rightarrow> u64 \<Rightarrow> 's machine_state \<Rightarrow> 's machine_state" where
  "sys_net_send i d n st = rcx_unknown st"
definition sys_net_recv :: "u64 \<Rightarrow> u64 \<Rightarrow> u64 \<Rightarrow> 's machine_state \<Rightarrow> 's machine_state" where
  "sys_net_recv i d n st = rcx_unknown st"
definition sys_diagnostic :: "u64 \<Rightarrow> u64 \<Rightarrow> 's machine_state \<Rightarrow> 's machine_state" where
  "sys_diagnostic a n st = rcx_unknown st"

section \<open>The dispatcher\<close>

definition SYS_WRITE :: u64 where "SYS_WRITE = 0x1"
definition SYS_READ :: u64 where "SYS_READ = 0x2"
definition SYS_EXISTS :: u64 where "SYS_EXISTS = 0x3"
definition SYS_MOUNT :: u64 where "SYS_MOUNT = 0x4"
definition SYS_DISMOUNT :: u64 where "SYS_DISMOUNT = 0x5"
definition SYS_SPAWN :: u64 where "SYS_SPAWN = 0x6"
definition SYS_KILL :: u64 where "SYS_KILL = 0x7"
definition SYS_GET_PID :: u64 where "SYS_GET_PID = 0x8"
definition SYS_EXIT :: u64 where "SYS_EXIT = 0x9"
definition SYS_MMAP :: u64 where "SYS_MMAP = 0xA"
definition SYS_MUNMAP :: u64 where "SYS_MUNMAP = 0xB"
definition SYS_NET_SEND :: u64 where "SYS_NET_SEND = 0xC"
definition SYS_NET_RECV :: u64 where "SYS_NET_RECV = 0xD"
definition SYS_DIAGNOSTIC :: u64 where "SYS_DIAGNOSTIC = 0xE"
definition SYS_OS_ARCH :: u64 where "SYS_OS_ARCH = 0xF"
definition SYS_OS_TYPE :: u64 where "SYS_OS_TYPE = 0x10"

definition syscall :: "'w gaossd \<Rightarrow> 's block_read \<Rightarrow> 's block_write \<Rightarrow> u64 \<Rightarrow> u64 \<Rightarrow> u64 \<Rightarrow> u64 \<Rightarrow> u64 \<Rightarrow> u64 \<Rightarrow>
    's machine_state \<Rightarrow> 's machine_state option" where
  "syscall g rb wb arch os callID arg1 arg2 arg3 st =
     (if callID = SYS_WRITE then sys_write g rb wb arg1 arg2 arg3 st
      else if callID = SYS_READ then sys_read g rb arg1 arg2 arg3 st
      else if callID = SYS_EXISTS then sys_exists arg1 st
      else if callID = SYS_MOUNT then sys_mount g rb arg1 st
      else if callID = SYS_DISMOUNT then sys_dismount arg1 st
      else if callID = SYS_SPAWN then Some (sys_spawn arg1 arg2 st)
      else if callID = SYS_KILL then Some (sys_kill arg1 st)
      else if callID = SYS_GET_PID then Some (sys_get_pid st)
      else if callID = SYS_EXIT then Some (sys_exit st)
      else if callID = SYS_MMAP then Some (sys_mmap arg1 arg2 arg3 st)
      else if callID = SYS_MUNMAP then Some (sys_munmap arg1 arg2 st)
      else if callID = SYS_NET_SEND then Some (sys_net_send arg1 arg2 arg3 st)
      else if callID = SYS_NET_RECV then Some (sys_net_recv arg1 arg2 arg3 st)
      else if callID = SYS_DIAGNOSTIC then Some (sys_diagnostic arg1 arg2 st)
      else if callID = SYS_OS_ARCH then Some (sys_os_arch arch st)
      else if callID = SYS_OS_TYPE then Some (sys_os_type os st)
      else Some (rcx_unknown st))"

section \<open>The call of a program\<close>

text \<open>The registers a program and the kernel share, and the stub of \<^verbatim>\<open>src/AlopexOS.cpp\<close> around the
  instruction \<^verbatim>\<open>syscall\<close>, which is a parameter: the number goes to rax, the arguments to rdi, rsi and
  rdx, the result comes from rax.\<close>

record registers =
  rax :: u64
  rbx :: u64
  rcx :: u64
  rdx :: u64
  rsi :: u64
  rdi :: u64
  r8 :: u64
  r9 :: u64
  r10 :: u64

definition AlopexOS_SysCall :: "(registers \<times> 'm \<Rightarrow> (registers \<times> 'm) option) \<Rightarrow> u64 \<Rightarrow> u64 \<Rightarrow> u64 \<Rightarrow> u64 \<Rightarrow>
    registers \<times> 'm \<Rightarrow> (u64 \<times> registers \<times> 'm) option" where
  "AlopexOS_SysCall insn syscall_number arg1 arg2 arg3 st = (case st of (r, m) \<Rightarrow>
     map_option (\<lambda>(r', m'). (rax r', r', m'))
       (insn (r\<lparr>rax := syscall_number, rdi := arg1, rsi := arg2, rdx := arg3\<rparr>, m)))"

text \<open>The register convention of \<^verbatim>\<open>ABI.hpp\<close>: the number in rbx, the arguments in r8, r9 and r10.\<close>

definition abi_registers :: "registers \<Rightarrow> u64 \<times> u64 \<times> u64 \<times> u64" where
  "abi_registers r = (rbx r, r8 r, r9 r, r10 r)"

text \<open>The stub and the kernel do not agree on it: whatever a program asks for, the kernel would find in its
  registers what they held before.\<close>

lemma stub_sets_no_abi_register:
  "AlopexOS_SysCall (\<lambda>(r, m). Some (r, abi_registers r)) n a1 a2 a3 (r, m0) = Some (k, r', seen) \<Longrightarrow>
     seen = abi_registers r"
  by (auto simp: AlopexOS_SysCall_def abi_registers_def)

section \<open>Properties\<close>

lemma exists_ignores_file:
  assumes "resolves g av nm h" and "plain_name nm" and "length (nm @ separator @ rest) = 2048"
  shows "AVFS_exists (nm @ separator @ rest) av = Some Success"
proof -
  obtain s i where "findDrive (nm @ separator @ rest) = Some (Inr s)" "retrieveDrive av s = Some (Inr i)"
    by (rule resolved [OF assms])
  then show ?thesis by (simp add: AVFS_exists_def)
qed

text \<open>The read call never hands a file's contents to its caller. For a file that exists, on a device
  that works, whatever buffer the program passes, \<^verbatim>\<open>read\<close> makes the view of that buffer grow, which
  frees memory the heap does not own: the call has no defined result.\<close>

lemma sys_read_undefined:
  assumes dev: "block_device rb wb h n disk dinv good" and w: "dinv (ms_disk st)" "good (ms_disk st)"
    and lay: "fs_layout h n (disk (ms_disk st)) fs0 files"
    and av: "sx_avfs (ms_kernel st) = Some av" "resolves g av nm h" "plain_name nm"
    and path: "path_at (ms_mem st) p = nm @ separator @ rest" "segments_of [] (cstr rest) \<noteq> []"
    and stored: "map_of files (cstr rest) = Some c" and buf: "q \<noteq> 0"
  shows "sys_read g rb p q k st = None"
proof -
  have len: "length (nm @ separator @ rest) = 2048"
    unfolding path(1) [symmetric] by (simp add: path_at_def)
  obtain dir fs w1 where a: "length dir = 2048" "cstr dir = cstr rest" "dinv w1" "good w1" "disk w1 = disk (ms_disk st)"
    "fs_layout h n (disk w1) fs files"
    "AVFS_read g rb (nm @ separator @ rest) (view_at (ms_mem st) q k) av (ms_disk st) =
       map_option (\<lambda>(r, dat', w2). (case r of Inl e \<Rightarrow> e | Inr _ \<Rightarrow> Success, the dat', w2))
         (read_file rb fs dir (Some (view_at (ms_mem st) q k)) 0 (of_nat (size_field (view_at (ms_mem st) q k))) w1)"
    by (rule avfs_read_eq [OF dev w lay av(2,3) len])
  have p: "good_path dir" using a(1,2) path(2) by (simp add: good_path_def)
  have c: "map_of files (cstr dir) = Some c" using stored a(2) by simp
  have v: "view_at (ms_mem st) q k = dyn_view (Some (mem_bytes (ms_mem st) q (unat k))) (unat k)"
    using buf by (simp add: view_at_def)
  have "AVFS_read g rb (nm @ separator @ rest) (view_at (ms_mem st) q k) av (ms_disk st) = None"
    unfolding a(7) unfolding v using block_device.read_file_view_undefined [OF dev a(3,4,6) p c] by simp
  then show ?thesis using av(1) path(1) by (simp add: sys_read_def getAVFSInstance_def)
qed

end
