(* ===== verification/NvmeName.thy ===== *)
theory NvmeName
  imports NvmeRef
begin

unbundle bit_operations_syntax

text \<open>
  What a controller that identifies itself leaves in the driver's identify buffer: the laws of the
  Identify command for a controller with a given model number, and the proof that a successful
  bring-up ends with that model number in the buffer, where the storage driver's constructor reads
  the name of its device from. The reference controller keeps these laws.
\<close>

section \<open>The laws of Identify\<close>

text \<open>\<open>named\<close>: the identify buffer holds the controller's data. The Identify command of the
  controller fills the buffer it names; the other commands of bring-up leave it alone.\<close>

locale nvme_named = nvme_boot hw env regs stride idle executed n disk mem sound kbuf phys hhdm bar0 rp
    hhdm_response present enabled programmed cq_made clean half blank
  for hw :: "'h hw" and env :: kernel_env and regs :: u64 and stride :: nat
    and idle :: "nat \<Rightarrow> nat \<Rightarrow> nat \<Rightarrow> bool \<Rightarrow> 'h \<Rightarrow> bool"
    and executed :: "nat \<Rightarrow> SubmissionQueueEntry \<Rightarrow> u16 \<Rightarrow> 'h \<Rightarrow> 'h \<Rightarrow> bool"
    and n :: nat and disk :: "'h \<Rightarrow> bytes list" and mem :: "'h \<Rightarrow> u64 \<Rightarrow> u8"
    and sound :: "'h \<Rightarrow> bool" and kbuf :: "u64 \<Rightarrow> bool" and phys :: "u64 \<Rightarrow> u64"
    and hhdm bar0 :: u64 and rp :: ptr and hhdm_response :: "u64 option"
    and present enabled programmed cq_made clean half :: "'h \<Rightarrow> bool" and blank :: "bytes list" +
  fixes named :: "'h \<Rightarrow> bool" and model :: bytes and ident_page names_page :: u64
  assumes pages: "m_hhdm_offset c = hhdm \<Longrightarrow> virt_to_phys env c (at_identify env) = ident_page"
      "m_hhdm_offset c = hhdm \<Longrightarrow> virt_to_phys env c (at_namespace env) = names_page"
    and identified: "executed 0 cmd st h h' \<Longrightarrow> sqe_opcode cmd = 0x06 \<Longrightarrow> cdw10 cmd = 1 \<Longrightarrow>
      dptr0 cmd = ident_page \<Longrightarrow> check_status st \<Longrightarrow> named h'"
    and named_kept: "executed 0 cmd st h h' \<Longrightarrow> named h \<Longrightarrow>
      sqe_opcode cmd \<in> {0x01, 0x05, 0x15, 0x80} \<or> sqe_opcode cmd = 0x06 \<and> dptr0 cmd = names_page \<Longrightarrow> named h'"
    and named_poke: "named h \<Longrightarrow> named (hw_put_bytes hw (at_attach env) attach_list h)"
    and named_model: "named h \<Longrightarrow> model_number hw env h = model"
begin

lemma identify_named:
  assumes s: "admin_sync c h" and off: "m_hhdm_offset c = hhdm" and r: "identify hw env c h = Some (True, c', h')"
  shows "named h'"
proof -
  let ?mk = "\<lambda>cid. zero_sqe\<lparr>cdw0 := cmd_head 0x06 cid, nsid := 0xFFFFFFFF,
    dptr0 := virt_to_phys env c (at_identify env), cdw10 := 1\<rparr>"
  obtain st c1 h1 where a: "admin_command hw env ?mk c h = Some (st, c1, h1)" "executed 0 (?mk (m_sq_tail c)) st h h1"
    using admin_step [OF s, of ?mk] by blast
  then have "check_status st" "h' = h1" using r by (simp_all add: identify_def)
  then show ?thesis using identified [OF a(2)] pages(1) [OF off] by (simp add: head_opcodes)
qed

lemma identify_namespace_named:
  assumes s: "admin_sync c h" and off: "m_hhdm_offset c = hhdm" and "named h"
    and r: "identify_namespace hw env c h = Some (ok, c', h')"
  shows "named h'"
proof -
  let ?mk = "\<lambda>cid. zero_sqe\<lparr>cdw0 := cmd_head 0x06 cid, nsid := 1,
    dptr0 := virt_to_phys env c (at_namespace env), cdw10 := 0\<rparr>"
  obtain st c1 h1 where a: "admin_command hw env ?mk c h = Some (st, c1, h1)" "executed 0 (?mk (m_sq_tail c)) st h h1"
    using admin_step [OF s, of ?mk] by blast
  then have "h' = h1" using r by (simp add: identify_namespace_def)
  then show ?thesis using named_kept [OF a(2) assms(3)] pages(2) [OF off] by (simp add: head_opcodes)
qed

lemma format_named:
  assumes s: "admin_sync c h" and "named h" and r: "format_namespace hw env c h = Some (ok, c', h')"
  shows "named h'"
proof -
  let ?mk = "\<lambda>cid. zero_sqe\<lparr>cdw0 := cmd_head 0x80 cid, nsid := 1, cdw10 := 0\<rparr>"
  obtain st c1 h1 where a: "admin_command hw env ?mk c h = Some (st, c1, h1)" "executed 0 (?mk (m_sq_tail c)) st h h1"
    using admin_step [OF s, of ?mk] by blast
  then have "h' = h1" using r by (simp add: format_namespace_def)
  then show ?thesis using named_kept [OF a(2) assms(2)] by (simp add: head_opcodes)
qed

lemma attach_named:
  assumes s: "admin_sync c h" and "named h" and r: "namespace_attach hw env c h = Some (ok, c', h')"
  shows "named h'"
proof -
  let ?h = "hw_put_bytes hw (at_attach env) attach_list h"
  let ?mk = "\<lambda>cid. zero_sqe\<lparr>cdw0 := cmd_head 0x15 cid, nsid := 1,
    dptr0 := virt_to_phys env c (at_attach env), cdw10 := 0\<rparr>"
  have "admin_sync c ?h" using s poke(4) by (auto simp: admin_sync_def)
  then obtain st c1 h1 where a: "admin_command hw env ?mk c ?h = Some (st, c1, h1)" "executed 0 (?mk (m_sq_tail c)) st ?h h1"
    using admin_step [of c ?h ?mk] by blast
  then have "h' = h1" using r by (simp add: namespace_attach_def)
  then show ?thesis using named_kept [OF a(2) named_poke [OF assms(2)]] by (simp add: head_opcodes)
qed

lemma queues_named:
  assumes s: "admin_sync c h" and "named h" and r: "create_io_queues hw env c h = Some (ok, c', h')"
  shows "named h'"
proof -
  let ?cq = "\<lambda>cid. zero_sqe\<lparr>cdw0 := cmd_head 0x05 cid,
       dptr0 := virt_to_phys env c (at_io_cq env), cdw10 := push_bit 16 63 OR 1, cdw11 := 1\<rparr>"
  obtain st1 c1 h1 where a: "admin_command hw env ?cq c h = Some (st1, c1, h1)" "admin_sync c1 h1"
    "executed 0 (?cq (m_sq_tail c)) st1 h h1"
    using admin_step [OF s, of ?cq] by blast
  let ?sq = "\<lambda>cid. zero_sqe\<lparr>cdw0 := cmd_head 0x01 cid,
       dptr0 := virt_to_phys env c1 (at_io_sq env), cdw10 := push_bit 16 63 OR 1,
       cdw11 := push_bit 16 1 OR 1\<rparr>"
  obtain st2 c2 h2 where b: "admin_command hw env ?sq c1 h1 = Some (st2, c2, h2)"
    "executed 0 (?sq (m_sq_tail c1)) st2 h1 h2"
    using admin_step [OF a(2), of ?sq] by blast
  have n1: "named h1" using named_kept [OF a(3) assms(2)] by (simp add: head_opcodes)
  then have "named h2" using named_kept [OF b(2)] by (simp add: head_opcodes)
  then show ?thesis using n1 r a(1) b(1) by (auto simp: create_io_queues_def split: if_splits)
qed

text \<open>After a successful bring-up the buffer holds the data.\<close>

lemma init_commands_named:
  assumes s: "admin_sync c h" and off: "m_hhdm_offset c = hhdm"
    and r: "init_commands hw env c h = Some (True, c', h')"
  shows "named h'"
proof -
  obtain ok1 c1 h1 where a: "identify hw env c h = Some (ok1, c1, h1)" "admin_sync c1 h1" "same_io c c1"
    by (rule identify_step [OF s])
  obtain ok2 c2 h2 where b: "identify_namespace hw env c1 h1 = Some (ok2, c2, h2)" "admin_sync c2 h2" "same_io c1 c2"
    by (rule identify_namespace_step [OF a(2)])
  obtain ok3 c3 h3 where f: "format_namespace hw env c2 h2 = Some (ok3, c3, h3)" "admin_sync c3 h3" "same_io c2 c3"
    by (rule format_step [OF b(2)])
  obtain ok4 c4 h4 where t: "namespace_attach hw env c3 h3 = Some (ok4, c4, h4)" "admin_sync c4 h4" "same_io c3 c4"
    by (rule attach_step [OF f(2)])
  have off1: "m_hhdm_offset c1 = hhdm" using off a(3) by (simp add: same_io_def)
  have "m_hhdm_offset c4 = hhdm" using off1 b(3) f(3) t(3) by (simp add: same_io_def)
  then obtain ok5 c5 h5 where q: "create_io_queues hw env c4 h4 = Some (ok5, c5, h5)"
    by (rule queues_step [OF t(2)])
  have fin: "ok1 \<and> h' = h5"
    using r a(1) b(1) f(1) t(1) q by (auto simp: init_commands_def split: if_splits)
  then have "named h1" using identify_named [OF s off] a(1) by simp
  then have "named h2" by (rule identify_namespace_named [OF a(2) off1 _ b(1)])
  then have "named h3" by (rule format_named [OF b(2) _ f(1)])
  then have "named h4" by (rule attach_named [OF f(2) _ t(1)])
  then have "named h5" by (rule queues_named [OF t(2) _ q])
  then show ?thesis using fin by simp
qed

lemma init_named:
  assumes "fresh c" and "present h" and r: "init hw env bar0 hhdm c h = Some (True, c', h')"
  shows "model_number hw env h' = model"
proof -
  obtain ok c1 h6 where i: "init hw env bar0 hhdm c h =
      (if \<not> ok then Some (False, c1, h6) else init_commands hw env c1 h6)"
    "ok \<longrightarrow> admin_sync c1 h6" "m_hhdm_offset c1 = hhdm" by (rule init_starts [OF assms(1,2)])
  have "ok" "init_commands hw env c1 h6 = Some (True, c', h')" using r i(1) by (auto split: if_splits)
  then show ?thesis using init_commands_named [of c1 h6] i by (intro named_model) simp
qed

end

section \<open>The reference controller\<close>

definition ref_ident :: u64 where "ref_ident = 0x304000"
definition ref_names :: u64 where "ref_names = 0x305000"

definition ref_model :: bytes where "ref_model = bytes_of ''QEMU NVMe Ctrl'' @ replicate 26 32"

definition ref_named :: "refhw \<Rightarrow> bool" where
  "ref_named h \<longleftrightarrow> get_mem (d_mem (r_dev h)) (ref_ident + 24) 40 = ref_model"

lemma get_put_mem_inside:
  assumes "j + k \<le> length bs" and "length bs < 2 ^ 64"
  shows "get_mem (put_mem m a bs) (a + of_nat j) k = take k (drop j bs)"
proof (rule nth_equalityI)
  fix i assume "i < length (get_mem (put_mem m a bs) (a + of_nat j) k)"
  then have i: "i < k" by (simp add: get_mem_def)
  have "a + of_nat j + of_nat i - a = (of_nat (j + i) :: u64)" by simp
  moreover have "unat (of_nat (j + i) :: u64) = j + i" using i assms by (intro unat_of_nat64) simp
  ultimately have "unat (a + of_nat j + of_nat i - a) = j + i" by simp
  then show "get_mem (put_mem m a bs) (a + of_nat j) k ! i = take k (drop j bs) ! i"
    using i assms(1) by (simp add: get_mem_def put_mem_def)
qed (use assms(1) in \<open>simp add: get_mem_def\<close>)

lemma get_put_mem_apart:
  assumes "unat (b - a) + k \<le> 2 ^ 64" and "length bs \<le> unat (b - a)"
  shows "get_mem (put_mem m a bs) b k = get_mem m b k"
proof (rule nth_equalityI)
  fix i assume "i < length (get_mem (put_mem m a bs) b k)"
  then have i: "i < k" by (simp add: get_mem_def)
  have eq: "b + of_nat i - a = (b - a) + of_nat i" by simp
  have "unat ((b - a) + of_nat i) = unat (b - a) + i"
    using i assms(1) by (intro unat_plus_nat64) simp_all
  then have "length bs \<le> unat (b + of_nat i - a)" unfolding eq using assms(2) by linarith
  then show "get_mem (put_mem m a bs) b k ! i = get_mem m b k ! i"
    using i by (simp add: get_mem_def put_mem_def)
qed (simp add: get_mem_def)

lemma ref_pages:
  assumes "m_hhdm_offset c = ref_hhdm"
  shows "virt_to_phys ref_env c (at_identify ref_env) = ref_ident" "virt_to_phys ref_env c (at_namespace ref_env) = ref_names"
  using assms by (simp_all add: virt_to_phys_def ref_env_def ref_ident_def ref_names_def)

lemma ref_addresses:
  "ref_phys (at_attach ref_env) = 0x306000" "ref_phys (at_identify ref_env + 24) = ref_ident + 24"
  by (simp_all add: ref_env_def ref_ident_def ref_phys_def)

lemma length_ref_model: "length ref_model = 40"
  by (simp add: ref_model_def bytes_of_def)

lemma length_identify_data: "length identify_data = 4096"
  by (simp add: identify_data_def)

lemma ref_identified:
  assumes e: "ref_executed 0 cmd st h h'" and o: "sqe_opcode cmd = 0x06" "dptr0 cmd = ref_ident"
  shows "ref_named h'"
proof -
  have "r_dev h' = (r_dev h)\<lparr>d_mem := put_mem (d_mem (r_dev h)) ref_ident identify_data\<rparr>"
    using e o by (auto simp: ref_executed_def ref_exec_def ref_admin_def)
  moreover have "take 40 (drop 24 identify_data) = ref_model"
  proof -
    have "drop 24 identify_data = bytes_of ''QEMU NVMe Ctrl'' @ replicate 4058 32"
      by (simp add: identify_data_def bytes_of_def)
    then show ?thesis by (simp add: ref_model_def bytes_of_def)
  qed
  ultimately show ?thesis
    using get_put_mem_inside [of 24 40 identify_data "d_mem (r_dev h)" ref_ident]
    by (simp add: ref_named_def length_identify_data)
qed

lemma ref_named_kept:
  assumes e: "ref_executed 0 cmd st h h'" and n: "ref_named h"
    and o: "sqe_opcode cmd \<in> {0x01, 0x05, 0x15, 0x80} \<or> sqe_opcode cmd = 0x06 \<and> dptr0 cmd = ref_names"
  shows "ref_named h'"
proof -
  have x: "ref_admin cmd (r_dev h) = (st AND NOT 1, r_dev h')"
    using e by (simp add: ref_executed_def ref_exec_def)
  have "d_mem (r_dev h') = (if sqe_opcode cmd = 0x06
      then put_mem (d_mem (r_dev h)) ref_names identify_data else d_mem (r_dev h))"
    using x o by (auto simp: ref_admin_def Let_def split: if_splits dest: sym)
  then show ?thesis
    using n get_put_mem_apart [of "ref_ident + 24" ref_names 40 identify_data "d_mem (r_dev h)"]
    by (simp add: ref_named_def ref_ident_def ref_names_def length_identify_data)
qed

lemma ref_named_poke:
  assumes "ref_named h"
  shows "ref_named (hw_put_bytes ref_hw (at_attach ref_env) attach_list h)"
proof -
  have "length attach_list = 4096" by (simp add: attach_list_def)
  then show ?thesis
    using assms get_put_mem_apart [of "ref_ident + 24" "0x306000" 40 attach_list "d_mem (r_dev h)"]
    by (simp add: ref_named_def ref_addresses(1) ref_ident_def ref_hw_def)
qed

interpretation refname: nvme_named ref_hw ref_env ref_regs 0 ref_idle ref_executed 204800
  "\<lambda>h. d_disk (r_dev h)" "\<lambda>h. d_mem (r_dev h)" "\<lambda>h. d_bad (r_dev h) = []"
  ref_kbuf ref_phys ref_hhdm ref_bar0 1 "Some ref_hhdm"
  ref_present "\<lambda>h. bit (r_cc h) 0" ref_programmed ref_cq_made ref_clean ref_half ref_blank
  ref_named ref_model ref_ident ref_names
proof unfold_locales
  show "ref_named h \<Longrightarrow> model_number ref_hw ref_env h = ref_model" for h
    using ref_addresses(2) length_ref_model by (simp add: model_number_def ref_hw_def ref_named_def get_mem_def)
qed (use ref_pages(1,2) ref_identified ref_named_kept ref_named_poke in simp_all)

end
