(* ===== verification/NvmeLayout.thy ===== *)
theory NvmeLayout
  imports NvmeBoot
begin

unbundle bit_operations_syntax

text \<open>
  The packed structures of \<^verbatim>\<open>include/AlopexOS/PCI/nvme/nvme_regs.hpp\<close> as lists of fields with their
  sizes in bytes, and the positions that follow from them: those of the controller's registers, of the
  model number in the identify data, and the sizes of queue entries and data pages the other theories use.
\<close>

section \<open>Packed structures\<close>

type_synonym layout = "(string \<times> nat) list"

fun offset_from :: "nat \<Rightarrow> layout \<Rightarrow> string \<Rightarrow> nat option" where
  "offset_from n [] f = None"
| "offset_from n ((g, k) # fs) f = (if g = f then Some n else offset_from (n + k) fs f)"

definition offset_of :: "layout \<Rightarrow> string \<Rightarrow> nat option" where "offset_of = offset_from 0"

definition size_of :: "layout \<Rightarrow> nat" where "size_of l = sum_list (map snd l)"

definition ControllerRegs_layout :: layout where
  "ControllerRegs_layout =
    [(''cap'', 8), (''vs'', 4), (''intms'', 4), (''intmc'', 4), (''cc'', 4), (''reserved0'', 4),
     (''csts'', 4), (''nssr'', 4), (''aqa'', 4), (''asq'', 8), (''acq'', 8), (''cmbloc'', 4),
     (''cmbsz'', 4), (''bpinfo'', 4), (''bprsel'', 4), (''bpmbl'', 8), (''cmbmsc'', 8),
     (''cmbsts'', 8), (''reserved1'', 4 * 848)]"

definition SubmissionQueueEntry_layout :: layout where
  "SubmissionQueueEntry_layout =
    [(''cdw0'', 4), (''nsid'', 4), (''reserved0'', 8), (''mptr'', 8), (''dptr'', 8 * 2), (''cdw10'', 4),
     (''cdw11'', 4), (''cdw12'', 4), (''cdw13'', 4), (''cdw14'', 4), (''cdw15'', 4)]"

definition CompletionQueueEntry_layout :: layout where
  "CompletionQueueEntry_layout =
    [(''dw0'', 4), (''reserved'', 4), (''sq_head'', 2), (''sq_id'', 2), (''command_id'', 2), (''status'', 2)]"

definition IdentifyControllerData_layout :: layout where
  "IdentifyControllerData_layout =
    [(''vid'', 2), (''ssvid'', 2), (''sn'', 20), (''mn'', 40), (''fr'', 8), (''rab'', 1), (''ieee'', 3),
     (''cmic'', 1), (''mdts'', 1), (''cntlid'', 2), (''ver'', 4), (''rtd3r'', 4), (''rtd3e'', 4),
     (''oaes'', 4), (''ctratt'', 4), (''reserved0'', 140), (''reserved1'', 256), (''sqes'', 1),
     (''cqes'', 1), (''maxcmd'', 2), (''nn'', 4), (''oncs'', 2), (''fuses'', 2), (''fna'', 1),
     (''vwc'', 1), (''awun'', 2), (''awupf'', 2), (''nvscc'', 1), (''nwpc'', 1), (''acwu'', 2),
     (''reserved2'', 2), (''sgls'', 4), (''reserved3'', 3572)]"

definition IdentifyNamespaceData_layout :: layout where
  "IdentifyNamespaceData_layout =
    [(''nsze'', 8), (''ncap'', 8), (''nuse'', 8), (''nsfeat'', 1), (''nlbaf'', 1), (''flbas'', 1), (''mc'', 1),
     (''dpc'', 1), (''dps'', 1), (''nmic'', 1), (''rescap'', 1), (''fpi'', 1), (''dlfeat'', 1),
     (''nawun'', 2), (''nawupf'', 2), (''nacwu'', 2), (''nabsn'', 2), (''nabo'', 2), (''nabspf'', 2),
     (''noiob'', 2), (''nvmcap'', 16), (''resv1'', 40), (''nguid'', 16), (''eui64'', 8), (''lbaf'', 64),
     (''vs'', 3904)]"

lemmas layout_defs = offset_of_def size_of_def ControllerRegs_layout_def SubmissionQueueEntry_layout_def
  CompletionQueueEntry_layout_def IdentifyControllerData_layout_def IdentifyNamespaceData_layout_def

section \<open>Positions\<close>

lemma register_positions:
  "offset_of ControllerRegs_layout ''cap'' = Some (unat reg_cap)"
  "offset_of ControllerRegs_layout ''cc'' = Some (unat reg_cc)"
  "offset_of ControllerRegs_layout ''csts'' = Some (unat reg_csts)"
  "offset_of ControllerRegs_layout ''aqa'' = Some (unat reg_aqa)"
  "offset_of ControllerRegs_layout ''asq'' = Some (unat reg_asq)"
  "offset_of ControllerRegs_layout ''acq'' = Some (unat reg_acq)"
  by (simp_all add: layout_defs reg_cap_def reg_cc_def reg_csts_def reg_aqa_def reg_asq_def reg_acq_def)

text \<open>The entry sizes \<^verbatim>\<open>enable\<close> writes are the logarithms of the sizes of the structures.\<close>

lemma entry_sizes:
  assumes "cc_ok v"
  shows "size_of SubmissionQueueEntry_layout = 2 ^ unat (drop_bit 16 v AND 0xF)"
    and "size_of CompletionQueueEntry_layout = 2 ^ unat (drop_bit 20 v AND 0xF)"
  using assms by (simp_all add: cc_ok_def layout_defs)

text \<open>The driver and the device agree on where things are. Every register is accessed at the offset its
  field has in the register structure; the entry sizes that \<^verbatim>\<open>enable\<close> programs, whatever the register
  held before, are those of the two entry structures; both identify structures fill their page of 4096
  bytes; and the model number is the 40 bytes from offset 24.\<close>

theorem layouts_agree:
  "map (offset_of ControllerRegs_layout) [''cap'', ''cc'', ''csts'', ''aqa'', ''asq'', ''acq''] =
     map (Some \<circ> unat) [reg_cap, reg_cc, reg_csts, reg_aqa, reg_asq, reg_acq] \<and>
   size_of SubmissionQueueEntry_layout = 2 ^ unat (drop_bit 16 (enable_bits cc) AND 0xF) \<and>
   size_of CompletionQueueEntry_layout = 2 ^ unat (drop_bit 20 (enable_bits cc) AND 0xF) \<and>
   size_of IdentifyControllerData_layout = 4096 \<and> size_of IdentifyNamespaceData_layout = 4096 \<and>
   (\<exists>k. offset_of IdentifyControllerData_layout ''mn'' = Some k \<and>
      model_number hw env h = take 40 (hw_get_bytes hw (at_identify env + of_nat k) 40 h))"
  using register_positions entry_sizes [OF enable_bits_cc_ok [of cc]]
  by (simp add: model_number_def) (simp add: layout_defs)

text \<open>The entry size fields of the identify data are 16 bytes before where the NVMe specification has them
  (512).\<close>

lemma entry_size_fields_early:
  "offset_of IdentifyControllerData_layout ''sqes'' = Some 496"
  "offset_of IdentifyControllerData_layout ''nn'' = Some 500"
  by (simp_all add: layout_defs)

end
