(* ===== verification/Kmain.thy ===== *)
theory Kmain
  imports SystemX Display NvmeName KernelPath
begin

unbundle bit_operations_syntax

text \<open>
  The kernel's main function (\<^verbatim>\<open>kmain\<close> in \<^verbatim>\<open>src/main.cpp\<close>): the order in which it brings up the
  screen, the buses, the storage driver, the file system, the virtual file system and the system call
  object, and writes its first file. What the parts do is in their own theories; here they are put
  together the way the code does, and the boot is followed from a machine just switched on to the point
  where the file system is about to be formatted. What follows depends on where the buffers of the block
  transfers lie (theory \<open>KernelPath\<close>).
\<close>

section \<open>The main function\<close>

text \<open>What the boot loader answers: frame buffers, the offset of its higher half map, the address of
  the RSDP, and the memory its tables are in.\<close>

record boot_info =
  bi_framebuffers :: "framebuffer_response option"
  bi_hhdm :: "u64 option"
  bi_rsdp :: "u64 option"
  bi_memory :: memory

text \<open>What the kernel changes: frame buffer memory, the ports of configuration space, the NVMe
  controller object with its hardware.\<close>

record ('p, 'h) machine_room =
  mr_video :: video
  mr_ports :: 'p
  mr_nvme :: "'h world"

text \<open>Where it halts: without a screen, or after the write, whose code it prints, with the system call object
  and the storage driver it has made.\<close>

datatype 'h halted = No_screen | Halted errorCode SystemX "'h world gaossd"

definition fade_color :: "nat \<Rightarrow> u32" where
  "fade_color step =
     (let r = 0x02 * of_nat step div 5; g = 0x66 * of_nat step div 5; b = 0x99 * of_nat step div 5
      in push_bit 16 r OR push_bit 8 g OR b)"

definition fade_frame :: "screen \<Rightarrow> vector2D \<Rightarrow> u32 \<Rightarrow> video \<Rightarrow> video" where
  "fade_frame sc sz color m =
     fold (\<lambda>y. fold (\<lambda>x. set_pixel sc (vec (of_nat x) (of_nat y)) color) [0..<unat (vx sz)]) [0..<unat (vy sz)] m"

definition fade_in :: "screen \<Rightarrow> vector2D \<Rightarrow> video \<Rightarrow> video" where
  "fade_in sc sz m = fold (\<lambda>step. fade_frame sc sz (fade_color step)) [0..<6] m"

text \<open>A string literal passed as a \<^verbatim>\<open>Path\<close>.\<close>

definition path_literal :: "string \<Rightarrow> bytes option" where
  "path_literal s = arr_of_cstr 2048 (Some (bytes_of s @ [0]))"

text \<open>From the storage driver to the end: the file system is formatted, the virtual file system
  mounted, the first file written. \<open>payload\<close> is the text literal of the file, \<open>ssd_at\<close> the address of the
  storage driver, \<open>rp\<close> that of the request on the stack; \<open>bufs\<close> are the addresses of the buffers the block
  transfers are made from and to, in their order: headers on the stack, members, heap blocks.\<close>

definition boot_storage :: "'p machine \<Rightarrow> 'h hw \<Rightarrow> kernel_env \<Rightarrow> (nat \<Rightarrow> u64) \<Rightarrow> ptr \<Rightarrow> Gaossd.ptr \<Rightarrow> bytes \<Rightarrow> boot_info \<Rightarrow>
    screen \<Rightarrow> AlopexIBus \<Rightarrow> u64 \<Rightarrow> 'h world gaossd \<Rightarrow> ('p, 'h) machine_room \<Rightarrow> ('h halted \<times> ('p, 'h) machine_room) option" where
  "boot_storage mc hw env bufs rp ssd_at payload bi sc ib bar0 ssd st = do {
     let rb = kernel_read_block hw env rp;
     let wb = kernel_write_block hw env (bi_hhdm bi) (pcie_active ib) bar0 rp;
     let (_, fs) = attach_gaossd ssd_at AbtrFS_init;
     sd \<leftarrow> dyn_index (storage_devices ib) 0;
     (ok, _, kw1) \<leftarrow> format wb (base_address sd) (get_hhdm_offset ib) 0 fs
       \<lparr>kw_nvme = mr_nvme st, kw_ssd = Some ssd, kw_buffers = bufs, kw_turn = 0\<rparr>;
     let v1 = (if ok then mr_video st else clear_screen sc 0x00800000 (mr_video st));
     let (_, av0) = AVFS_attach_gaossd ssd_at AVFS_init;
     (av1, _, p1) \<leftarrow> AVFS_Init ssd mc av0 (ib, mr_ports st);
     root \<leftarrow> path_literal ''QEMU NVMe Ctrl://'';
     (code, av2, kw2) \<leftarrow> AVFS_mount ssd rb root av1 kw1;
     let v2 = clear_screen sc (if code = Success then 0x00FF8800 else 0x00880000) v1;
     let (_, sx) = attachAVFS (Some av2) SystemX_init;
     dat \<leftarrow> dyn_of_cstr (Some payload);
     first \<leftarrow> path_literal ''QEMU NVMe Ctrl://Fabian.txt'';
     (write_code, kw3) \<leftarrow> AVFS_write ssd rb wb first dat av2 kw2;
     Some (Halted write_code sx ssd, \<lparr>mr_video = v2, mr_ports = p1, mr_nvme = kw_nvme kw3\<rparr>) }"

definition kmain :: "'p machine \<Rightarrow> 'h hw \<Rightarrow> kernel_env \<Rightarrow> (nat \<Rightarrow> u64) \<Rightarrow> ptr \<Rightarrow> Gaossd.ptr \<Rightarrow> bytes \<Rightarrow> boot_info \<Rightarrow>
    ('p, 'h) machine_room \<Rightarrow> ('h halted \<times> ('p, 'h) machine_room) option" where
  "kmain mc hw env bufs rp ssd_at payload bi st = do {
     _ \<leftarrow> dyn_resize (0 :: u32) 5 dyn_init;
     disp \<leftarrow> displays_initialize (bi_framebuffers bi) None;
     main_screen \<leftarrow> get_screen disp 0;
     (case main_screen of
        None \<Rightarrow> Some (No_screen, st)
      | Some sc \<Rightarrow> do {
          sz \<leftarrow> get_screen_size sc;
          let (ib0, p1) = AlopexIBus_ctor mc (bi_memory bi) (bi_hhdm bi) (bi_rsdp bi) (mr_ports st);
          (_, ib1, p2) \<leftarrow> scan_all_buses mc (ib0, p1);
          let (bar0, p3) = find_nvme_bar0 mc (pcie_map ib1) (pcie_active ib1, p2);
          (ssd, w) \<leftarrow> gaossd_ctor hw env (bi_hhdm bi) (pcie_active ib1) bar0 (mr_nvme st);
          ib2 \<leftarrow> get_storage_devices ib1;
          let v = clear_screen sc 0x00003366 (clear_screen sc 0x001E1E24 (fade_in sc sz (mr_video st)));
          boot_storage mc hw env bufs rp ssd_at payload bi sc ib2 bar0 ssd
            \<lparr>mr_video = v, mr_ports = p3, mr_nvme = w\<rparr> }) }"

section \<open>The screens\<close>

lemma place_screens_fill:
  assumes "dyn_inv d" and "dyn_abs d = take k fbs @ replicate (length fbs - k) None" and "k \<le> length fbs"
  shows "\<exists>d'. place_screens fbs [k..<length fbs] d = Some d' \<and> dyn_inv d' \<and> dyn_abs d' = fbs"
  using assms
proof (induction "length fbs - k" arbitrary: k d)
  case 0
  then show ?case by simp
next
  case (Suc m)
  then have k: "k < length fbs" by simp
  have up: "[k..<length fbs] = k # [Suc k..<length fbs]" using k by (simp add: upt_conv_Cons)
  have rep: "replicate (length fbs - k) None = None # replicate (length fbs - Suc k) (None :: screen)"
    using k by (simp add: Suc_diff_Suc flip: replicate_Suc)
  have tk: "take (Suc k) fbs = take k fbs @ [fbs ! k]" using k by (rule take_Suc_conv_app_nth)
  have m: "m = length fbs - Suc k" "Suc k \<le> length fbs" using Suc.hyps(2) k by simp_all
  have "\<exists>d1. place_screens fbs [k..<length fbs] d = place_screens fbs [Suc k..<length fbs] d1 \<and> dyn_inv d1 \<and>
      dyn_abs d1 = take (Suc k) fbs @ replicate (length fbs - Suc k) None"
  proof (cases "fbs ! k")
    case None
    then show ?thesis
      using k Suc.prems(1,2) by (intro exI [of _ d]) (simp add: up rep tk)
  next
    case (Some fb)
    have "k < length (dyn_abs d)" using Suc.prems(2) k by simp
    then obtain d1 where "dyn_set d k (Some fb) = Some d1" "dyn_inv d1" "dyn_abs d1 = (dyn_abs d)[k := Some fb]"
      using dyn_set_correct [OF Suc.prems(1)] by blast
    then show ?thesis
      using k Some Suc.prems(2) by (intro exI [of _ d1]) (simp add: up rep tk screen_of_def list_update_append)
  qed
  then obtain d1 where d1: "place_screens fbs [k..<length fbs] d = place_screens fbs [Suc k..<length fbs] d1" "dyn_inv d1"
      "dyn_abs d1 = take (Suc k) fbs @ replicate (length fbs - Suc k) None" by blast
  show ?case using Suc.hyps(1) [OF m(1) d1(2,3) m(2)] d1(1) by simp
qed

text \<open>After the constructor the screens are the frame buffers the boot loader lists.\<close>

lemma displays_ctor_screens:
  assumes "framebuffers r = Some fbs" and "unat (framebuffer_count r) = length fbs" and "fbs \<noteq> []"
  obtains d where "displays_ctor (Some r) = Some d" "dyn_inv (screen_buffer d)" "dyn_abs (screen_buffer d) = fbs"
proof -
  have "dyn_inv (dyn_init :: screen dynarr)" by (rule dyn_init_correct(1))
  from dyn_resize_correct [OF this, of screen_ctor "length fbs"]
  obtain b where b: "dyn_resize screen_ctor (length fbs) (dyn_init :: screen dynarr) = Some b" "dyn_inv b"
    "dyn_abs b = take (length fbs) (dyn_abs (dyn_init :: screen dynarr)) @
       replicate (length fbs - length (dyn_abs (dyn_init :: screen dynarr))) screen_ctor"
    by metis
  have abs: "dyn_abs b = replicate (length fbs) None" using b(3) by (simp add: dyn_init_correct(2) screen_ctor_def)
  obtain b' where b': "place_screens fbs [0..<length fbs] b = Some b'" "dyn_inv b'" "dyn_abs b' = fbs"
    using place_screens_fill [OF b(2), of 0 fbs] abs by auto
  have "framebuffer_count r \<noteq> 0" using assms(2,3) by auto
  then have "displays_ctor (Some r) = Some (displays_fields\<lparr>response := Some r, screen_buffer := b'\<rparr>)"
    using assms(1,2) b(1) b'(1) size_field_abs [OF b(2)] abs
    by (simp add: displays_ctor_def displays_fields_def Let_def)
  then show ?thesis using that b' by simp
qed

lemma first_screen:
  assumes "framebuffers r = Some (Some fb # fbs)" and "unat (framebuffer_count r) = Suc (length fbs)"
  obtains d where "displays_initialize (Some r) None = Some d" "get_screen d 0 = Some (Some (Some fb))"
proof -
  obtain d where d: "displays_ctor (Some r) = Some d" "dyn_inv (screen_buffer d)" "dyn_abs (screen_buffer d) = Some fb # fbs"
    by (rule displays_ctor_screens [of r "Some fb # fbs"]) (use assms in simp_all)
  then have "get_screen d 0 = Some (Some (Some fb))"
    using dyn_index_correct [OF d(2), of 0] size_field_abs [OF d(2)] by (simp add: get_screen_def)
  then show ?thesis using that d(1) by (simp add: displays_initialize_def)
qed

section \<open>The buses\<close>

lemma dyn_index_outside: "dyn_inv d \<Longrightarrow> length (dyn_abs d) \<le> i \<Longrightarrow> dyn_index d i = None"
  by (erule dyn_inv_cases) (auto simp: dyn_index_def mem_read_def owned_def nth_append)

lemma scan_keeps:
  assumes "scan_all_buses mc (ib, s) = Some (e, ib', s')"
  shows "pcie_map ib' = pcie_map ib" "pcie_active ib' = pcie_active ib" "hhdm_offset ib' = hhdm_offset ib"
  using assms by (auto simp: scan_all_buses_def scan_pci_bus_def scan_gpio_bus_def)

lemma storage_keeps:
  assumes "get_storage_devices ib = Some ib'"
  shows "pcie_active ib' = pcie_active ib"
  using assms by (auto simp: get_storage_devices_def)

definition mass_storage :: "config_table \<Rightarrow> (u8 \<times> u8 \<times> u8) list" where
  "mass_storage C = filter (\<lambda>(b, sl, f). class_code (C b sl f 8) = 1) (present_places C)"

lemma mass_storage_mark: "mass_storage (mark L C P) = mass_storage C"
  by (simp add: mass_storage_def present_places_def mark_other)

lemma nvme_is_mass_storage:
  assumes "p \<in> set all_places" and "p \<in> nvme_places C"
  shows "p \<in> set (mass_storage C)"
  using assms by (auto simp: mass_storage_def present_places_def nvme_places_def visible_def nvme_fn_regs)

lemma found_place: "find P xs = Some q \<Longrightarrow> q \<in> set xs \<and> P q"
  by (auto simp: find_Some_iff)

lemma ctor_starts:
  assumes space: "pci_latched mc (pcie_map (fst (AlopexIBus_ctor mc m hh rs s))) good cfg latch" and "good s"
  obtains ib P s1 where "AlopexIBus_ctor mc m hh rs s = (ib, s1)" "ibus_inv ib" "pcie_active ib = (P \<noteq> {})"
    "good s1" "cfg s1 = mark latch (cfg s) P" "P = {p \<in> set all_places. p \<in> nvme_places (cfg s)}"
proof -
  define mcfg where "mcfg = (case rs of None \<Rightarrow> 0
      | Some rsdp \<Rightarrow> if rsdp \<noteq> 0 then locate_acpi_table_mcfg m (rsdt_address m rsdp) else 0)"
  define ib0 where "ib0 = (case hh of Some off \<Rightarrow> ibus_fields\<lparr>hhdm_offset := off\<rparr> | None \<Rightarrow> ibus_fields)"
  have f: "pcie_map ib0 = empty_ECAMMap" "\<not> pcie_active ib0" "ib_mcfg ib0 = 0" "ibus_inv ib0"
    using ibus_fields_inv by (auto simp: ib0_def ibus_fields_def ibus_inv_def split: option.split)
  have c: "AlopexIBus_ctor mc m hh rs s = (case initialize mc m mcfg empty_ECAMMap (False, s) of (g, a, s') \<Rightarrow>
      (ib0\<lparr>ib_mcfg := mcfg, pcie_map := g, pcie_active := a\<rparr>, s'))"
    using f by (simp add: AlopexIBus_ctor_def ib0_def [symmetric] mcfg_def Let_def cong: option.case_cong if_cong)
  have g: "pcie_map (fst (AlopexIBus_ctor mc m hh rs s)) = fst (initialize mc m mcfg empty_ECAMMap (False, s))"
    by (simp add: c split: prod.split)
  let ?P = "{p \<in> set all_places. p \<in> nvme_places (cfg s)}"
  obtain g' s1 where i: "initialize mc m mcfg empty_ECAMMap (False, s) = (g', ?P \<noteq> {}, s1)" "good s1" "cfg s1 = mark latch (cfg s) ?P"
    by (rule initialize_marks [OF space [unfolded g] \<open>good s\<close>]) (rule that)
  have "AlopexIBus_ctor mc m hh rs s = (ib0\<lparr>ib_mcfg := mcfg, pcie_map := g', pcie_active := ?P \<noteq> {}\<rparr>, s1)"
    unfolding c i by simp
  then show ?thesis
    using i(2,3) f(4) by (intro that [of "ib0\<lparr>ib_mcfg := mcfg, pcie_map := g', pcie_active := ?P \<noteq> {}\<rparr>" s1 ?P]) (simp_all add: ibus_inv_def)
qed

text \<open>Up to the constructor of the storage driver: the PCI Express host is active, the base address is that
  of the first NVMe controller, and the storage devices are the functions of class 1.\<close>

lemma buses_up:
  assumes space: "pci_latched mc (pcie_map (fst (AlopexIBus_ctor mc m hh rs s))) good cfg latch" and ports: "port_space mc good cfg"
    and s: "good s" and q: "find (\<lambda>p. p \<in> nvme_places (cfg s)) all_places = Some q"
  obtains ib0 s1 ib1 s2 s3 ib2 where "AlopexIBus_ctor mc m hh rs s = (ib0, s1)"
    "scan_all_buses mc (ib0, s1) = Some (Success, ib1, s2)" "pcie_active ib1"
    "find_nvme_bar0 mc (pcie_map ib1) (True, s2) = (bar0_of (cfg s) q, s3)"
    "get_storage_devices ib1 = Some ib2" "ibus_inv ib2" "pcie_active ib2"
    "dyn_abs (storage_devices ib2) = map (device_of (cfg s)) (mass_storage (cfg s))" "mass_storage (cfg s) \<noteq> []"
proof -
  obtain ib0 P s1 where c': "AlopexIBus_ctor mc m hh rs s = (ib0, s1)" "ibus_inv ib0" "pcie_active ib0 = (P \<noteq> {})"
    "good s1" "cfg s1 = mark latch (cfg s) P" "P = {p \<in> set all_places. p \<in> nvme_places (cfg s)}"
    by (rule ctor_starts [OF space s])
  have "pcie_active ib0" using found_place [OF q] c'(3,6) by blast
  note c = c'(1,2) this c'(4,5)
  obtain ib1 s2 where sc: "scan_all_buses mc (ib0, s1) = Some (Success, ib1, s2)" "ibus_inv ib1" "good s2"
    "cfg s2 = cfg s1" "dyn_abs (discovered_devices ib1) = map (device_of (cfg s1)) (present_places (cfg s1))"
    by (rule scan_all_buses_correct [OF ports c(4,2)])
  note k = scan_keeps [OF sc(1)]
  have pl: "nvme_places (cfg s2) = nvme_places (cfg s)" by (simp add: sc(4) c(5) nvme_places_def)
  have bq: "bar0_of (cfg s2) q = bar0_of (cfg s) q"
    by (simp add: sc(4) c(5) bar0_of_def mark_other Let_def split: prod.split)
  have "pci_latched mc (pcie_map ib1) good cfg latch" using space by (simp add: c(1) k(1))
  note sp = pci_latched.axioms(1) [OF this]
  obtain s3 where f: "find_nvme_bar0 mc (pcie_map ib1) (True, s2) = (bar0_of (cfg s) q, s3)" "good s3" "cfg s3 = cfg s2"
    using pci_space.find_nvme_first [OF sp sc(3), of True] q by (auto simp: pl bq)
  obtain ib2 where st: "get_storage_devices ib1 = Some ib2" "ibus_inv ib2" "dyn_abs (storage_devices ib2) =
      filter (\<lambda>x. is_storage_type (deduced_type x)) (dyn_abs (discovered_devices ib1))"
    using get_storage_devices_correct [OF sc(2)] by blast
  have m: "mass_storage (cfg s) \<noteq> []"
    using found_place [OF q] nvme_is_mass_storage [of q "cfg s"] by auto
  have "device_of (cfg s1) = device_of (cfg s)"
    by (intro ext) (simp add: c(5) device_of_def mark_other split: prod.split)
  moreover have "present_places (cfg s1) = present_places (cfg s)" by (simp add: c(5) present_places_def)
  moreover have "(\<lambda>x. is_storage_type (deduced_type x)) \<circ> device_of (cfg s) = (\<lambda>(b, sl, f). class_code (cfg s b sl f 8) = 1)"
    by (intro ext) (simp add: storage_type_class split: prod.split)
  ultimately have "dyn_abs (storage_devices ib2) = map (device_of (cfg s)) (mass_storage (cfg s))"
    by (simp add: st(3) sc(5) filter_map mass_storage_def)
  then show ?thesis
    using that c(1,3) sc(1) k(2) f(1,2) st(1,2) storage_keeps [OF st(1)] m by simp
qed

text \<open>Without mass storage nothing is found and the host stays inactive.\<close>

lemma buses_empty:
  assumes space: "pci_latched mc (pcie_map (fst (AlopexIBus_ctor mc m hh rs s))) good cfg latch" and ports: "port_space mc good cfg"
    and s: "good s" and none: "mass_storage (cfg s) = []"
  obtains ib0 s1 ib1 s2 ib2 where "AlopexIBus_ctor mc m hh rs s = (ib0, s1)"
    "scan_all_buses mc (ib0, s1) = Some (Success, ib1, s2)" "\<not> pcie_active ib1"
    "get_storage_devices ib1 = Some ib2" "ibus_inv ib2" "dyn_abs (storage_devices ib2) = []"
proof -
  obtain ib0 P s1 where c: "AlopexIBus_ctor mc m hh rs s = (ib0, s1)" "ibus_inv ib0" "pcie_active ib0 = (P \<noteq> {})"
    "good s1" "cfg s1 = mark latch (cfg s) P" "P = {p \<in> set all_places. p \<in> nvme_places (cfg s)}"
    by (rule ctor_starts [OF space s])
  have "P = {}" using nvme_is_mass_storage [of _ "cfg s"] none c(6) by auto
  obtain ib1 s2 where sc: "scan_all_buses mc (ib0, s1) = Some (Success, ib1, s2)" "ibus_inv ib1"
    "dyn_abs (discovered_devices ib1) = map (device_of (cfg s1)) (present_places (cfg s1))"
    by (rule scan_all_buses_correct [OF ports c(4,2)])
  obtain ib2 where st: "get_storage_devices ib1 = Some ib2" "ibus_inv ib2" "dyn_abs (storage_devices ib2) =
      filter (\<lambda>x. is_storage_type (deduced_type x)) (dyn_abs (discovered_devices ib1))"
    using get_storage_devices_correct [OF sc(2)] by blast
  have "mass_storage (cfg s1) = []" using none by (simp add: c(5) mass_storage_mark)
  then have "dyn_abs (storage_devices ib2) = []"
    by (auto simp: st(3) sc(3) mass_storage_def filter_empty_conv storage_type_class)
  then show ?thesis using that c(1,3) \<open>P = {}\<close> sc(1) scan_keeps [OF sc(1)] st(1,2) by simp
qed

section \<open>The storage driver\<close>

context nvme_named
begin

lemma ctor_named:
  assumes f: "fresh c" and p: "present h" and s: "sound h"
  obtains ssd c' h' where "gaossd_ctor hw env hhdm_response True bar0 (c, h) = Some (ssd, c', h')"
    "admin_sync c' h'" "io_sync c' h'" "m_initialized c'" "disk h' = blank" "sound h'" "queue ssd = []"
    "storageDevices ssd = [nvme_storage hw env model]"
proof -
  obtain ok c2 h2 where i: "init hw env bar0 hhdm c h = Some (ok, c2, h2)"
    "ok \<longrightarrow> m_initialized c2 \<and> admin_sync c2 h2 \<and> io_sync c2 h2 \<and> m_hhdm_offset c2 = hhdm \<and> disk h2 = blank"
    "sound h \<longrightarrow> ok \<and> sound h2"
    by (rule init_boots [OF f p])
  then have i': "init hw env bar0 hhdm c h = Some (True, c2, h2)" using s by simp
  define ssd where "ssd = snd (snd (register_device empty_gaossd (nvme_storage hw env model)))"
  have "gaossd_ctor hw env hhdm_response True bar0 (c, h) = Some (ssd, c2, h2)"
    using i' boot(1) response init_named [OF f p i'] by (simp add: gaossd_ctor_def Let_def ssd_def)
  moreover have "queue ssd = []" "storageDevices ssd = [nvme_storage hw env model]"
    by (simp_all add: ssd_def register_device_def empty_gaossd_def)
  ultimately show ?thesis using that i s by blast
qed

end

section \<open>The boot\<close>

lemma test_array: "\<exists>d. dyn_resize (0 :: u32) 5 dyn_init = Some d"
proof -
  have "dyn_inv (dyn_init :: u32 dynarr)" by (rule dyn_init_correct(1))
  from dyn_resize_correct [OF this, of 0 5] show ?thesis by blast
qed

lemma cleared_pixel:
  assumes "fb_ok fb" and "x < unat (fb_width fb)" and "y < unat (fb_height fb)"
  shows "clear_screen (Some fb) c m (pixel_addr fb x y) = c"
proof -
  have "pixel_addr fb x y \<in> rect_pixels fb {0..<unat (fb_width fb)} {0..<unat (fb_height fb)}"
    by (subst rect_pixels_mem [OF assms]) (use assms in simp_all)
  then show ?thesis by (simp only: clear_screen_pixels [OF assms(1)] if_True)
qed

text \<open>C1: the kernel brings the machine up. On a machine with a screen, whose first visible NVMe controller
  works, has the model name the code mounts and sits at the address its BAR gives, \<^verbatim>\<open>kmain\<close> gets to the file system
  without an error on the way. By then every pixel of the first screen has the colour that announces it, the
  storage devices listed are exactly the present functions of class 1, and the storage driver has one device,
  of the controller's name, and an empty queue; both queue pairs of the controller are in step with the driver's
  object, and its namespace has been formatted, whatever it held.\<close>

theorem kmain_brings_up:
  assumes nvme: "nvme_named hw env regs stride idle executed n disk mem sound kbuf phys hhdm bar0 rp (bi_hhdm bi)
      present enabled programmed cq_made clean half blank named (bytes_of ''QEMU NVMe Ctrl'' @ replicate 26 32)
      ident_page names_page"
    and start: "fresh (fst (mr_nvme st))" "present (snd (mr_nvme st))" "sound (snd (mr_nvme st))"
    and screen: "bi_framebuffers bi = Some r" "framebuffers r = Some (Some fb # fbs)"
      "unat (framebuffer_count r) = Suc (length fbs)" "fb_ok fb"
    and pci: "pci_latched mc (pcie_map (fst (AlopexIBus_ctor mc (bi_memory bi) (bi_hhdm bi) (bi_rsdp bi) (mr_ports st)))) good cfg latch"
      "port_space mc good cfg" "good (mr_ports st)"
    and first: "find (\<lambda>p. p \<in> nvme_places (cfg (mr_ports st))) all_places = Some q" "bar0_of (cfg (mr_ports st)) q = bar0"
  shows "\<exists>ib ssd v p c h. kmain mc hw env bufs rp ssd_at payload bi st =
      boot_storage mc hw env bufs rp ssd_at payload bi (Some fb) ib bar0 ssd \<lparr>mr_video = v, mr_ports = p, mr_nvme = (c, h)\<rparr> \<and>
    (\<forall>x < unat (fb_width fb). \<forall>y < unat (fb_height fb). v (pixel_addr fb x y) = 0x00003366) \<and>
    pcie_active ib \<and> dyn_abs (storage_devices ib) = map (device_of (cfg (mr_ports st)))
      (filter (\<lambda>(b, sl, f). class_code (cfg (mr_ports st) b sl f 8) = 1) (present_places (cfg (mr_ports st)))) \<and>
    dyn_abs (storage_devices ib) \<noteq> [] \<and>
    storageDevices ssd = [nvme_storage hw env (bytes_of ''QEMU NVMe Ctrl'' @ replicate 26 32)] \<and> queue ssd = [] \<and>
    m_initialized c \<and> nvme_device.admin_sync regs stride idle c h \<and> nvme_device.io_sync regs stride idle c h \<and>
    disk h = blank"
proof -
  obtain c h where ch: "mr_nvme st = (c, h)" by (cases "mr_nvme st")
  then have c0: "fresh c" "present h" "sound h" using start by simp_all
  obtain t where t: "dyn_resize (0 :: u32) 5 dyn_init = Some t" using test_array by blast
  obtain d where d: "displays_initialize (Some r) None = Some d" "get_screen d 0 = Some (Some (Some fb))"
    by (rule first_screen [OF screen(2,3)])
  obtain ib0 s1 ib1 s2 s3 ib2 where b: "AlopexIBus_ctor mc (bi_memory bi) (bi_hhdm bi) (bi_rsdp bi) (mr_ports st) = (ib0, s1)"
    "scan_all_buses mc (ib0, s1) = Some (Success, ib1, s2)" "pcie_active ib1"
    "find_nvme_bar0 mc (pcie_map ib1) (True, s2) = (bar0_of (cfg (mr_ports st)) q, s3)"
    "get_storage_devices ib1 = Some ib2" "ibus_inv ib2" "pcie_active ib2"
    "dyn_abs (storage_devices ib2) = map (device_of (cfg (mr_ports st))) (mass_storage (cfg (mr_ports st)))"
    "mass_storage (cfg (mr_ports st)) \<noteq> []"
    by (rule buses_up [OF pci first(1)])
  obtain ssd c' h' where g: "gaossd_ctor hw env (bi_hhdm bi) True bar0 (c, h) = Some (ssd, c', h')"
    "nvme_device.admin_sync regs stride idle c' h'" "nvme_device.io_sync regs stride idle c' h'" "m_initialized c'"
    "disk h' = blank" "queue ssd = []" "storageDevices ssd = [nvme_storage hw env (bytes_of ''QEMU NVMe Ctrl'' @ replicate 26 32)]"
    by (rule nvme_named.ctor_named [OF nvme c0]) (rule that)
  define v where "v = clear_screen (Some fb) 0x00003366 (clear_screen (Some fb) 0x001E1E24
      (fade_in (Some fb) (vec (ucast (fb_width fb)) (ucast (fb_height fb))) (mr_video st)))"
  have run: "kmain mc hw env bufs rp ssd_at payload bi st = boot_storage mc hw env bufs rp ssd_at payload bi (Some fb) ib2 bar0 ssd
      \<lparr>mr_video = v, mr_ports = s3, mr_nvme = (c', h')\<rparr>"
    using t d b(1-5) g(1) screen(1) ch first(2)
    by (simp add: kmain_def get_screen_size_def v_def Let_def)
  have px: "v (pixel_addr fb x y) = 0x00003366" if "x < unat (fb_width fb)" "y < unat (fb_height fb)" for x y
    unfolding v_def by (rule cleared_pixel [OF screen(4) that])
  have "dyn_abs (storage_devices ib2) \<noteq> []" using b(8,9) by simp
  then show ?thesis
    using run px b(7,8) g(2-7) unfolding mass_storage_def by blast
qed

text \<open>The reference machine: one screen of four by four pixels, one controller, no ACPI tables.\<close>

definition ref_boot :: boot_info where
  "ref_boot = \<lparr>bi_framebuffers = Some \<lparr>framebuffer_count = 1, framebuffers = Some [Some small_fb]\<rparr>,
     bi_hhdm = Some ref_hhdm, bi_rsdp = None, bi_memory = (\<lambda>_. 0)\<rparr>"

definition ref_room :: "(port_pci, refhw) machine_room" where
  "ref_room = \<lparr>mr_video = (\<lambda>_. 0), mr_ports = one_nvme, mr_nvme = (Controller_init, ref_power_on)\<rparr>"

lemma ref_map: "pcie_map (fst (AlopexIBus_ctor port_machine (\<lambda>_. 0) (Some ref_hhdm) None s)) = empty_ECAMMap"
  using initialize_no_table [of port_machine "\<lambda>_. 0" empty_ECAMMap s]
  by (cases "initialize port_machine (\<lambda>_. 0) 0 empty_ECAMMap (False, s)")
    (simp add: AlopexIBus_ctor_def ibus_fields_def Let_def)

lemma ref_controller: "nvme_named ref_hw ref_env ref_regs 0 ref_idle ref_executed 204800
    (\<lambda>h. d_disk (r_dev h)) (\<lambda>h. d_mem (r_dev h)) (\<lambda>h. d_bad (r_dev h) = [])
    ref_kbuf ref_phys ref_hhdm ref_bar0 1 (bi_hhdm ref_boot)
    ref_present (\<lambda>h. bit (r_cc h) 0) ref_programmed ref_cq_made ref_clean ref_half ref_blank
    ref_named (bytes_of ''QEMU NVMe Ctrl'' @ replicate 26 32) ref_ident ref_names"
  using refname.nvme_named_axioms by (simp add: ref_boot_def ref_model_def)

lemma ref_bar: "bar0_of (port_cfg one_nvme) (0, 3, 0) = ref_bar0"
  by (simp add: bar0_of_regs one_nvme_regs is_64bit_bar_def bar_base_def ref_bar0_def)

theorem kmain_brings_up_witness:
  "\<exists>ib ssd v p c h. kmain port_machine ref_hw ref_env ref_buffers 1 1 [72, 105, 0] ref_boot ref_room =
      boot_storage port_machine ref_hw ref_env ref_buffers 1 1 [72, 105, 0] ref_boot (Some small_fb) ib ref_bar0 ssd
        \<lparr>mr_video = v, mr_ports = p, mr_nvme = (c, h)\<rparr> \<and>
     v (pixel_addr small_fb 3 3) = 0x00003366 \<and> length (storageDevices ssd) = 1 \<and> d_disk (r_dev h) = ref_blank"
proof -
  have r: "bi_framebuffers ref_boot = Some \<lparr>framebuffer_count = 1, framebuffers = Some [Some small_fb]\<rparr>"
    by (simp add: ref_boot_def)
  have f: "framebuffers \<lparr>framebuffer_count = 1, framebuffers = Some [Some small_fb]\<rparr> = Some (Some small_fb # [])"
    "unat (framebuffer_count \<lparr>framebuffer_count = 1, framebuffers = Some [Some small_fb]\<rparr>) = Suc (length ([] :: screen list))"
    by simp_all
  have px: "3 < unat (fb_width small_fb)" "3 < unat (fb_height small_fb)" by (simp_all add: small_fb_def)
  have s: "fresh (fst (mr_nvme ref_room))" "ref_present (snd (mr_nvme ref_room))" "d_bad (r_dev (snd (mr_nvme ref_room))) = []"
    using ref_power_on_facts by (simp_all add: ref_room_def)
  have m: "pci_latched port_machine (pcie_map (fst (AlopexIBus_ctor port_machine (bi_memory ref_boot) (bi_hhdm ref_boot)
      (bi_rsdp ref_boot) (mr_ports ref_room)))) (\<lambda>_. True) port_cfg (\<lambda>_ _ _. pci_latch)"
    using ref_map ports.pci_latched_axioms by (simp add: ref_boot_def)
  have q: "find (\<lambda>p. p \<in> nvme_places (port_cfg (mr_ports ref_room))) all_places = Some (0, 3, 0)"
    "bar0_of (port_cfg (mr_ports ref_room)) (0, 3, 0) = ref_bar0"
    using one_nvme_first ref_bar by (simp_all add: ref_room_def)
  show ?thesis
    using kmain_brings_up [OF ref_controller s r f small_fb_ok m ibus_ports.port_space_axioms TrueI q,
        of ref_buffers 1 "[72, 105, 0]"] px by (elim exE conjE) (intro exI conjI, assumption, simp_all)
qed

text \<open>C40: without mass storage \<^verbatim>\<open>kmain\<close> goes on to read the base address of the first storage device all the
  same. The list is empty, so it reads outside the array.\<close>

theorem kmain_needs_storage:
  assumes screen: "bi_framebuffers bi = Some r" "framebuffers r = Some (Some fb # fbs)"
      "unat (framebuffer_count r) = Suc (length fbs)"
    and pci: "pci_latched mc (pcie_map (fst (AlopexIBus_ctor mc (bi_memory bi) (bi_hhdm bi) (bi_rsdp bi) (mr_ports st)))) good cfg latch"
      "port_space mc good cfg" "good (mr_ports st)"
    and none: "filter (\<lambda>(b, sl, f). class_code (cfg (mr_ports st) b sl f 8) = 1) (present_places (cfg (mr_ports st))) = []"
  shows "kmain mc hw env bufs rp ssd_at payload bi st = None"
proof -
  obtain t where t: "dyn_resize (0 :: u32) 5 dyn_init = Some t" using test_array by blast
  obtain d where d: "displays_initialize (Some r) None = Some d" "get_screen d 0 = Some (Some (Some fb))"
    by (rule first_screen [OF screen(2,3)])
  obtain ib0 s1 ib1 s2 ib2 where b: "AlopexIBus_ctor mc (bi_memory bi) (bi_hhdm bi) (bi_rsdp bi) (mr_ports st) = (ib0, s1)"
    "scan_all_buses mc (ib0, s1) = Some (Success, ib1, s2)" "\<not> pcie_active ib1"
    "get_storage_devices ib1 = Some ib2" "ibus_inv ib2" "dyn_abs (storage_devices ib2) = []"
    by (rule buses_empty [OF pci none [folded mass_storage_def]])
  have bar: "find_nvme_bar0 mc (pcie_map ib1) (False, s2) = (0, s2)"
    by (simp add: find_nvme_bar0_def is_active_def)
  have "dyn_index (storage_devices ib2) 0 = None"
    using b(5,6) by (intro dyn_index_outside) (simp_all add: ibus_inv_def)
  then show ?thesis
    using t d b(1-4) bar screen(1)
    by (simp add: kmain_def get_screen_size_def boot_storage_def gaossd_ctor_def Let_def split: prod.split)
qed

text \<open>A machine with an empty bus.\<close>

definition empty_bus :: port_pci where "empty_bus = \<lparr>pp_latch = 0, pp_regs = (\<lambda>_. 0xFFFFFFFF)\<rparr>"

lemma empty_bus_present: "present_places (port_cfg empty_bus) = []"
proof -
  have "\<not> present_fn (port_cfg empty_bus) b sl f" if "(b, sl, f) \<in> set all_places" for b sl f
    using that ports.slots_range unfolding ports.set_places
    by (auto simp: present_fn_regs port_cfg_def empty_bus_def vendor_id_def)
  then show ?thesis unfolding present_places_def filter_empty_conv by (metis case_prodE)
qed

theorem kmain_needs_storage_witness:
  "kmain port_machine ref_hw ref_env ref_buffers 1 1 [72, 105, 0] ref_boot (ref_room\<lparr>mr_ports := empty_bus\<rparr>) = None"
  by (rule kmain_needs_storage [of _ "\<lparr>framebuffer_count = 1, framebuffers = Some [Some small_fb]\<rparr>" small_fb "[]"
        port_machine _ "\<lambda>_. True" port_cfg "\<lambda>_ _ _. pci_latch"])
    (use ref_map ports.pci_latched_axioms ibus_ports.port_space_axioms empty_bus_present in \<open>simp_all add: ref_room_def ref_boot_def\<close>)

end
