(* ===== verification/KStringOps.thy ===== *)
theory KStringOps
  imports KString DynArr
begin

text \<open>
  The rest of the string class (\<^verbatim>\<open>include/string.hpp\<close>): views, the overloads of \<^verbatim>\<open>operator+=\<close>, the
  move assignment and the destructor; and programs over several strings, which can never break the
  class invariant or leave a buffer.
\<close>

section \<open>Views\<close>

definition view_init :: string_view where
  "view_init = \<lparr>view_data = None, view_length = 0\<rparr>"

definition view_of_cstr :: "bytes option \<Rightarrow> string_view option" where
  "view_of_cstr p = (case p of
     None \<Rightarrow> Some \<lparr>view_data = None, view_length = 0\<rparr>
   | Some cs \<Rightarrow> map_option (\<lambda>len. \<lparr>view_data = Some cs, view_length = len\<rparr>) (cstr_length cs))"

definition view_of_data :: "bytes option \<Rightarrow> nat \<Rightarrow> string_view" where
  "view_of_data p len = \<lparr>view_data = p, view_length = len\<rparr>"

definition view_is_empty :: "string_view \<Rightarrow> bool" where
  "view_is_empty v \<longleftrightarrow> view_length v = 0"

definition view_at :: "string_view \<Rightarrow> nat \<Rightarrow> u8 option" where
  "view_at v i = (case view_data v of
     None \<Rightarrow> None | Some b \<Rightarrow> if i < length b then Some (b ! i) else None)"

section \<open>Appending\<close>

definition str_append_view :: "nat \<Rightarrow> basic_string \<Rightarrow> string_view \<Rightarrow> basic_string option" where
  "str_append_view cap s v =
     str_append cap s (case view_data v of None \<Rightarrow> [] | Some b \<Rightarrow> b) (view_length v)"

definition str_of_view :: "nat \<Rightarrow> string_view \<Rightarrow> basic_string option" where
  "str_of_view cap v = str_append_view cap (str_init cap) v"

definition str_plus :: "nat \<Rightarrow> basic_string \<Rightarrow> basic_string \<Rightarrow> basic_string option" where
  "str_plus cap s other = str_append cap s (c_str other) (str_length other)"

definition str_plus_array :: "nat \<Rightarrow> basic_string \<Rightarrow> bytes \<Rightarrow> basic_string option" where
  "str_plus_array cap s a =
     (let n = length a; len = (if n > 0 \<and> a ! (n - 1) = 0 then n - 1 else n)
      in str_append cap s a len)"

definition str_plus_dynarr :: "nat \<Rightarrow> basic_string \<Rightarrow> byte dynarr \<Rightarrow> basic_string option" where
  "str_plus_dynarr cap s d = do {
     xs \<leftarrow> read_all (DynArr.data d) [0..<size_field d];
     str_append cap s xs (size_field d) }"

definition str_plus_arr :: "nat \<Rightarrow> basic_string \<Rightarrow> bytes \<Rightarrow> basic_string option" where
  "str_plus_arr cap s a = str_append cap s a (length a)"

section \<open>Move assignment and destruction\<close>

text \<open>Between different objects: the target and the emptied source.\<close>

definition str_move_assign ::
    "nat \<Rightarrow> basic_string \<Rightarrow> basic_string \<Rightarrow> (basic_string \<times> basic_string) option" where
  "str_move_assign cap s other =
     (let c = str_clear cap s in
      case str_storage other of
        SSO b \<Rightarrow> do {
          b1 \<leftarrow> store_at (c_str c) 0 (take (str_length other + 1) b);
          Some (\<lparr>str_storage = SSO b1, is_sso = is_sso other, str_length = str_length other\<rparr>,
                other\<lparr>str_storage := SSO (b[0 := 0]), is_sso := True, str_length := 0\<rparr>) }
      | HEAP h \<Rightarrow>
          Some (\<lparr>str_storage = HEAP h, is_sso = is_sso other, str_length = str_length other\<rparr>, str_init cap))"

definition str_destroy :: "nat \<Rightarrow> basic_string \<Rightarrow> basic_string" where
  "str_destroy cap s = str_clear cap s"

lemma str_append_view_correct:
  assumes "str_inv cap s" and "view_data v = Some b" and "view_length v \<le> length b"
  obtains s' where "str_append_view cap s v = Some s'" "str_inv cap s'" "str_abs s' = str_abs s @ take (view_length v) b"
  using str_append_correct [OF assms(1,3)] assms(2) by (auto simp: str_append_view_def)

lemma str_plus_correct:
  assumes "str_inv cap s" and "str_inv cap' t"
  obtains s' where "str_plus cap s t = Some s'" "str_inv cap s'" "str_abs s' = str_abs s @ str_abs t"
  using str_append_correct [OF assms(1), of "str_length t" "c_str t"] length_c_str [OF assms(2)]
  by (auto simp: str_plus_def str_abs_def [of t])

lemma str_plus_dynarr_correct:
  assumes "str_inv cap s" and "dyn_inv d"
  obtains s' where "str_plus_dynarr cap s d = Some s'" "str_inv cap s'" "str_abs s' = str_abs s @ dyn_abs d"
  using str_append_correct [OF assms(1), of "length (dyn_abs d)" "dyn_abs d"] read_all_abs [OF assms(2)]
    size_field_abs [OF assms(2)]
  by (auto simp: str_plus_dynarr_def)

lemma str_plus_array_correct:
  assumes "str_inv cap s"
  obtains s' where "str_plus_array cap s a = Some s'" "str_inv cap s'"
    "str_abs s' = str_abs s @ (if a \<noteq> [] \<and> last a = 0 then butlast a else a)"
proof -
  let ?n = "if length a > 0 \<and> a ! (length a - 1) = 0 then length a - 1 else length a"
  obtain s' where "str_append cap s a ?n = Some s'" "str_inv cap s'" "str_abs s' = str_abs s @ take ?n a"
    by (rule str_append_correct [OF assms, of ?n a]) (simp add: split: if_splits)
  moreover have "take ?n a = (if a \<noteq> [] \<and> last a = 0 then butlast a else a)"
    by (cases "a = []") (simp_all add: butlast_conv_take last_conv_nth)
  ultimately show ?thesis using that by (simp add: str_plus_array_def Let_def)
qed

lemma str_move_assign_correct:
  assumes s: "str_inv cap s" and t: "str_inv cap t"
  obtains a b where "str_move_assign cap s t = Some (a, b)" "str_inv cap a" "str_inv cap b"
    "str_abs a = str_abs t" "str_abs b = []"
proof (cases "str_storage t")
  case (SSO buf)
  let ?n = "str_length t" and ?c = "c_str (str_clear cap s)"
  let ?b1 = "take (?n + 1) buf @ drop (?n + 1) ?c"
  have buf: "length buf = cap + 1" "?n \<le> cap" "buf ! ?n = 0" "is_sso t"
    using t SSO by (simp_all add: str_inv_def)
  have len: "length ?c = cap + 1"
    using str_inv_clear [OF s] by (simp add: str_inv_def c_str_def str_clear_def)
  have "store_at ?c 0 (take (?n + 1) buf) = Some ?b1"
    using buf len by (simp add: store_at_Some)
  moreover have "?b1 ! ?n = 0" "take ?n ?b1 = take ?n buf"
    using buf by (simp_all add: nth_append min_def)
  ultimately show ?thesis
    using that SSO buf len by (simp add: str_move_assign_def str_inv_def str_abs_def c_str_def Let_def)
next
  case (HEAP h)
  then show ?thesis
    using that t by (simp add: str_move_assign_def str_inv_def str_init_def str_abs_def c_str_def Let_def)
qed

section \<open>Programs\<close>

text \<open>A client that makes strings and changes them; a string is named by its position in the order in
  which they were made. The operations on the code's strings, and on lists of bytes.\<close>

datatype str_op = New | New_cstr bytes | New_copy nat | New_move nat | Put_char nat u8 | Put_cstr nat bytes
  | Put_array nat bytes | Plus nat nat | Assign nat nat | Move nat nat | Erase nat

fun str_step :: "nat \<Rightarrow> str_op \<Rightarrow> basic_string list \<Rightarrow> basic_string list option" where
  "str_step cap New ss = Some (ss @ [str_init cap])"
| "str_step cap (New_cstr cs) ss = map_option (\<lambda>s. ss @ [s]) (str_of_cstr cap (Some cs))"
| "str_step cap (New_copy i) ss = map_option (\<lambda>s. ss @ [s]) (str_copy cap (ss ! i))"
| "str_step cap (New_move i) ss = map_option (\<lambda>(a, b). ss[i := b] @ [a]) (str_move cap (ss ! i))"
| "str_step cap (Put_char i c) ss = map_option (\<lambda>s. ss[i := s]) (str_append_char cap (ss ! i) c)"
| "str_step cap (Put_cstr i cs) ss = map_option (\<lambda>s. ss[i := s]) (str_append_cstr cap (ss ! i) (Some cs))"
| "str_step cap (Put_array i a) ss = map_option (\<lambda>s. ss[i := s]) (str_plus_array cap (ss ! i) a)"
| "str_step cap (Plus i j) ss = map_option (\<lambda>s. ss[i := s]) (str_plus cap (ss ! i) (ss ! j))"
| "str_step cap (Assign i j) ss =
     (if i = j then Some ss else map_option (\<lambda>s. ss[i := s]) (str_assign cap (ss ! i) (ss ! j)))"
| "str_step cap (Move i j) ss =
     (if i = j then Some ss else map_option (\<lambda>(a, b). ss[i := a, j := b]) (str_move_assign cap (ss ! i) (ss ! j)))"
| "str_step cap (Erase i) ss = Some (ss[i := str_clear cap (ss ! i)])"

fun list_step :: "str_op \<Rightarrow> bytes list \<Rightarrow> bytes list" where
  "list_step New xs = xs @ [[]]"
| "list_step (New_cstr cs) xs = xs @ [cstr cs]"
| "list_step (New_copy i) xs = xs @ [xs ! i]"
| "list_step (New_move i) xs = xs[i := []] @ [xs ! i]"
| "list_step (Put_char i c) xs = xs[i := xs ! i @ [c]]"
| "list_step (Put_cstr i cs) xs = xs[i := xs ! i @ cstr cs]"
| "list_step (Put_array i a) xs = xs[i := xs ! i @ (if a \<noteq> [] \<and> last a = 0 then butlast a else a)]"
| "list_step (Plus i j) xs = xs[i := xs ! i @ xs ! j]"
| "list_step (Assign i j) xs = xs[i := xs ! j]"
| "list_step (Move i j) xs = (if i = j then xs else xs[i := xs ! j, j := []])"
| "list_step (Erase i) xs = xs[i := []]"

text \<open>Operations name strings that exist, and C strings are terminated.\<close>

fun op_legal :: "str_op \<Rightarrow> nat \<Rightarrow> bool" where
  "op_legal New n \<longleftrightarrow> True"
| "op_legal (New_cstr cs) n \<longleftrightarrow> 0 \<in> set cs"
| "op_legal (New_copy i) n \<longleftrightarrow> i < n"
| "op_legal (New_move i) n \<longleftrightarrow> i < n"
| "op_legal (Put_char i c) n \<longleftrightarrow> i < n"
| "op_legal (Put_cstr i cs) n \<longleftrightarrow> i < n \<and> 0 \<in> set cs"
| "op_legal (Put_array i a) n \<longleftrightarrow> i < n"
| "op_legal (Plus i j) n \<longleftrightarrow> i < n \<and> j < n"
| "op_legal (Assign i j) n \<longleftrightarrow> i < n \<and> j < n"
| "op_legal (Move i j) n \<longleftrightarrow> i < n \<and> j < n"
| "op_legal (Erase i) n \<longleftrightarrow> i < n"

fun str_run :: "nat \<Rightarrow> str_op list \<Rightarrow> basic_string list \<Rightarrow> basic_string list option" where
  "str_run cap [] ss = Some ss"
| "str_run cap (x # xs) ss = Option.bind (str_step cap x ss) (str_run cap xs)"

fun legal :: "str_op list \<Rightarrow> bytes list \<Rightarrow> bool" where
  "legal [] xs \<longleftrightarrow> True"
| "legal (x # ops) xs \<longleftrightarrow> op_legal x (length xs) \<and> legal ops (list_step x xs)"

definition strs :: "nat \<Rightarrow> basic_string list \<Rightarrow> bytes list \<Rightarrow> bool" where
  "strs cap ss xs \<longleftrightarrow> (\<forall>s \<in> set ss. str_inv cap s) \<and> map str_abs ss = xs"

lemma strs_nth: "strs cap ss xs \<Longrightarrow> i < length xs \<Longrightarrow> str_inv cap (ss ! i) \<and> str_abs (ss ! i) = xs ! i"
  by (auto simp: strs_def)

lemma strs_snoc: "strs cap ss xs \<Longrightarrow> str_inv cap s \<Longrightarrow> strs cap (ss @ [s]) (xs @ [str_abs s])"
  by (auto simp: strs_def)

lemma strs_update: "strs cap ss xs \<Longrightarrow> str_inv cap s \<Longrightarrow> strs cap (ss[i := s]) (xs[i := str_abs s])"
  using set_update_subset_insert [of ss i s] by (auto simp: strs_def map_update)

lemma str_step_simulates:
  assumes s: "strs cap ss xs" and l: "op_legal x (length xs)"
  shows "\<exists>ss'. str_step cap x ss = Some ss' \<and> strs cap ss' (list_step x xs)"
proof (cases x)
  case New
  then show ?thesis using strs_snoc [OF s str_inv_init [of cap]] by simp
next
  case (New_cstr cs)
  obtain t where "str_of_cstr cap (Some cs) = Some t" "str_inv cap t" "str_abs t = cstr cs"
    by (rule str_of_cstr_correct [of cs cap]) (use l New_cstr in simp)
  then show ?thesis using strs_snoc [OF s, of t] New_cstr by simp
next
  case (New_copy i)
  obtain t where "str_copy cap (ss ! i) = Some t" "str_inv cap t" "str_abs t = str_abs (ss ! i)"
    by (rule str_copy_correct [of cap "ss ! i" cap]) (use strs_nth [OF s, of i] l New_copy in simp)
  then show ?thesis using strs_snoc [OF s, of t] strs_nth [OF s, of i] l New_copy by simp
next
  case (New_move i)
  obtain a b where "str_move cap (ss ! i) = Some (a, b)" "str_inv cap a" "str_inv cap b"
    "str_abs a = str_abs (ss ! i)" "str_abs b = []"
    by (rule str_move_correct [of cap "ss ! i"]) (use strs_nth [OF s, of i] l New_move in simp)
  then show ?thesis
    using strs_snoc [OF strs_update [OF s, of b i], of a] strs_nth [OF s, of i] l New_move by simp
next
  case (Put_char i c)
  obtain t where "str_append_char cap (ss ! i) c = Some t" "str_inv cap t" "str_abs t = str_abs (ss ! i) @ [c]"
    by (rule str_append_char_correct [of cap "ss ! i" c]) (use strs_nth [OF s, of i] l Put_char in simp)
  then show ?thesis using strs_update [OF s, of t i] strs_nth [OF s, of i] l Put_char by simp
next
  case (Put_cstr i cs)
  obtain t where "str_append_cstr cap (ss ! i) (Some cs) = Some t" "str_inv cap t" "str_abs t = str_abs (ss ! i) @ cstr cs"
    by (rule str_append_cstr_correct [of cap "ss ! i" cs]) (use strs_nth [OF s, of i] l Put_cstr in simp_all)
  then show ?thesis using strs_update [OF s, of t i] strs_nth [OF s, of i] l Put_cstr by simp
next
  case (Put_array i a)
  obtain t where "str_plus_array cap (ss ! i) a = Some t" "str_inv cap t"
    "str_abs t = str_abs (ss ! i) @ (if a \<noteq> [] \<and> last a = 0 then butlast a else a)"
    by (rule str_plus_array_correct [of cap "ss ! i" a]) (use strs_nth [OF s, of i] l Put_array in simp)
  then show ?thesis using strs_update [OF s, of t i] strs_nth [OF s, of i] l Put_array by simp
next
  case (Plus i j)
  obtain t where "str_plus cap (ss ! i) (ss ! j) = Some t" "str_inv cap t" "str_abs t = str_abs (ss ! i) @ str_abs (ss ! j)"
    by (rule str_plus_correct [of cap "ss ! i" cap "ss ! j"])
      (use strs_nth [OF s, of i] strs_nth [OF s, of j] l Plus in simp_all)
  then show ?thesis using strs_update [OF s, of t i] strs_nth [OF s, of i] strs_nth [OF s, of j] l Plus by simp
next
  case (Assign i j)
  show ?thesis
  proof (cases "i = j")
    case True
    then show ?thesis using s Assign by simp
  next
    case False
    obtain t where "str_assign cap (ss ! i) (ss ! j) = Some t" "str_inv cap t" "str_abs t = str_abs (ss ! j)"
      by (rule str_assign_correct [of cap "ss ! i" cap "ss ! j"])
        (use strs_nth [OF s, of i] strs_nth [OF s, of j] l Assign in simp_all)
    then show ?thesis using strs_update [OF s, of t i] strs_nth [OF s, of j] l Assign False by simp
  qed
next
  case (Move i j)
  show ?thesis
  proof (cases "i = j")
    case True
    then show ?thesis using s Move by simp
  next
    case False
    obtain a b where "str_move_assign cap (ss ! i) (ss ! j) = Some (a, b)" "str_inv cap a" "str_inv cap b"
      "str_abs a = str_abs (ss ! j)" "str_abs b = []"
      by (rule str_move_assign_correct [of cap "ss ! i" "ss ! j"])
        (use strs_nth [OF s, of i] strs_nth [OF s, of j] l Move in simp_all)
    then show ?thesis
      using strs_update [OF strs_update [OF s, of a i], of b j] strs_nth [OF s, of j] l Move False by simp
  qed
next
  case (Erase i)
  have "str_inv cap (str_clear cap (ss ! i))"
    by (rule str_inv_clear) (use strs_nth [OF s, of i] l Erase in simp)
  then show ?thesis using strs_update [OF s, of "str_clear cap (ss ! i)" i] Erase by simp
qed

lemma str_run_simulates:
  "strs cap ss xs \<Longrightarrow> legal ops xs \<Longrightarrow>
     \<exists>ss'. str_run cap ops ss = Some ss' \<and> strs cap ss' (fold list_step ops xs)"
proof (induction ops arbitrary: ss xs)
  case (Cons x ops)
  obtain s1 where "str_step cap x ss = Some s1" "strs cap s1 (list_step x xs)"
    using str_step_simulates [OF Cons.prems(1), of x] Cons.prems(2) by auto
  then show ?case using Cons.IH [of s1 "list_step x xs"] Cons.prems(2) by simp
qed simp

text \<open>C17: strings are byte sequences, whatever a program does with them. Any sequence of the operations,
  on any number of strings of any in-object capacity, runs without a read or a store outside a buffer,
  in every representation and every direction of move or copy; every string satisfies the class
  invariant at the end, holds exactly the bytes that the same operations give on plain lists, and two
  of them compare equal, or in order, exactly as their bytes do.\<close>

theorem string_programs_safe:
  assumes "legal ops []"
  shows "\<exists>ss. str_run cap ops [] = Some ss \<and> (\<forall>s \<in> set ss. str_inv cap s) \<and>
    map str_abs ss = fold list_step ops [] \<and>
    (\<forall>s \<in> set ss. \<forall>t \<in> set ss. str_eq s t = (str_abs s = str_abs t) \<and>
      str_less s t = (map sint (str_abs s) < map sint (str_abs t)))"
proof -
  obtain ss where ss: "str_run cap ops [] = Some ss" "strs cap ss (fold list_step ops [])"
    using str_run_simulates [of cap "[]" "[]" ops] assms by (auto simp: strs_def)
  have inv: "str_inv cap s" if "s \<in> set ss" for s using ss(2) that by (simp add: strs_def)
  show ?thesis using ss by (auto simp: strs_def str_eq_iff [OF inv inv] str_less_iff [OF inv inv])
qed

theorem string_programs_safe_witness:
  "\<exists>ss. str_run 3 [New_cstr [65, 66, 0], Plus 0 0, New, Move 1 0, Put_char 0 67] [] = Some ss \<and>
     map str_abs ss = [[67], [65, 66, 65, 66]]"
proof -
  let ?ops = "[New_cstr [65, 66, 0], Plus 0 0, New, Move 1 0, Put_char 0 67]"
  have "legal ?ops []" "fold list_step ?ops [] = [[67], [65, 66, 65, 66]]" by (simp_all add: cstr_def)
  then show ?thesis using string_programs_safe [of ?ops 3] by metis
qed

end
