(* ===== verification/ArrOps.thy ===== *)
theory ArrOps
  imports DynArr
begin

text \<open>
  The fixed array \<^verbatim>\<open>arr\<close> of \<^verbatim>\<open>include/arr.hpp\<close> besides its construction from a C string, and the
  operations of \<^verbatim>\<open>dynarr\<close> that only call others. An \<^verbatim>\<open>arr\<close> is the list of its elements; the loops over
  its elements are folds that construct one element after the other in memory that holds nothing.
\<close>

section \<open>Fixed arrays\<close>

definition construct_all :: "nat \<Rightarrow> (nat \<Rightarrow> 'a) \<Rightarrow> 'a option list" where
  "construct_all n f = fold (\<lambda>i mem. mem[i := Some (f i)]) [0..<n] (replicate n None)"

definition arr_init :: "'a \<Rightarrow> nat \<Rightarrow> 'a option list" where
  "arr_init x0 n = construct_all n (\<lambda>i. x0)"

definition arr_copy :: "'a list \<Rightarrow> 'a option list" where
  "arr_copy other = construct_all (length other) (\<lambda>i. other ! i)"

text \<open>\<open>mv\<close> is the move construction of an element: the new object and what is left of the old one.\<close>

definition arr_move :: "('a \<Rightarrow> 'a \<times> 'a) \<Rightarrow> 'a list \<Rightarrow> 'a option list \<times> 'a list" where
  "arr_move mv other =
     fold (\<lambda>i (mem, src). case mv (src ! i) of (x, rest) \<Rightarrow> (mem[i := Some x], src[i := rest]))
       [0..<length other] (replicate (length other) None, other)"

definition arr_destroy :: "'a option list \<Rightarrow> 'a option list" where
  "arr_destroy mem = fold (\<lambda>i m. m[i := None]) [0..<length mem] mem"

definition arr_size :: "'a list \<Rightarrow> nat" where "arr_size a = length a"
definition arr_empty :: "'a list \<Rightarrow> bool" where "arr_empty a \<longleftrightarrow> length a = 0"

text \<open>\<^verbatim>\<open>operator[]\<close> as a read and as the target of a store; there is no check in the code.\<close>

definition arr_index :: "'a list \<Rightarrow> nat \<Rightarrow> 'a option" where
  "arr_index a i = (if i < length a then Some (a ! i) else None)"

definition arr_put :: "'a list \<Rightarrow> nat \<Rightarrow> 'a \<Rightarrow> 'a list option" where
  "arr_put a i x = (if i < length a then Some (a[i := x]) else None)"

section \<open>Arrays of variable length\<close>

definition dyn_of_size :: "'a \<Rightarrow> nat \<Rightarrow> 'a dynarr option" where
  "dyn_of_size x0 n = dyn_resize x0 n dyn_init"

definition dyn_append :: "'a dynarr \<Rightarrow> 'a \<Rightarrow> 'a dynarr option" where
  "dyn_append d x = dyn_push_back d x"

definition dyn_size :: "'a dynarr \<Rightarrow> nat" where "dyn_size d = size_field d"
definition dyn_capacity :: "'a dynarr \<Rightarrow> nat" where "dyn_capacity d = capacity_field d"
definition dyn_empty :: "'a dynarr \<Rightarrow> bool" where "dyn_empty d \<longleftrightarrow> size_field d = 0"

section \<open>What they do\<close>

lemma construct_prefix:
  "k \<le> n \<Longrightarrow> fold (\<lambda>i mem. mem[i := Some (f i)]) [0..<k] (replicate n None) =
     map (Some \<circ> f) [0..<k] @ replicate (n - k) None"
proof (induction k)
  case (Suc k)
  then have "n - k = Suc (n - Suc k)" by simp
  then show ?case using Suc by (simp add: list_update_append)
qed simp

lemma construct_all_eq: "construct_all n f = map (Some \<circ> f) [0..<n]"
  by (simp add: construct_all_def construct_prefix)

lemma arr_init_eq: "arr_init x0 n = replicate n (Some x0)"
  by (simp add: arr_init_def construct_all_eq map_replicate_const comp_def)

lemma arr_copy_eq: "arr_copy other = map Some other"
  by (rule nth_equalityI) (simp_all add: arr_copy_def construct_all_eq)

lemma arr_move_prefix:
  assumes "k \<le> length xs"
  shows "fold (\<lambda>i (mem, src). case mv (src ! i) of (x, rest) \<Rightarrow> (mem[i := Some x], src[i := rest]))
       [0..<k] (replicate (length xs) None, xs) =
     (map (Some \<circ> fst \<circ> mv) (take k xs) @ replicate (length xs - k) None, map (snd \<circ> mv) (take k xs) @ drop k xs)"
  using assms
proof (induction k)
  case (Suc k)
  have d: "length xs - k = Suc (length xs - Suc k)" "drop k xs = xs ! k # drop (Suc k) xs"
    using Suc.prems by (simp_all add: Cons_nth_drop_Suc)
  show ?case
    using Suc d by (simp add: nth_append list_update_append take_Suc_conv_app_nth split: prod.split)
qed simp

lemma arr_move_eq: "arr_move mv xs = (map (Some \<circ> fst \<circ> mv) xs, map (snd \<circ> mv) xs)"
  by (simp add: arr_move_def arr_move_prefix)

lemma arr_destroy_eq: "arr_destroy mem = replicate (length mem) None"
proof -
  have "fold (\<lambda>i m. m[i := None]) [0..<k] mem = replicate k None @ drop k mem" if "k \<le> length mem" for k
    using that
  proof (induction k)
    case (Suc k)
    then have "drop k mem = mem ! k # drop (Suc k) mem" by (simp add: Cons_nth_drop_Suc)
    then show ?case using Suc by (simp add: list_update_append replicate_append_same)
  qed simp
  then show ?thesis by (simp add: arr_destroy_def)
qed

lemma dyn_of_size_correct:
  obtains d where "dyn_of_size x0 n = Some d" "dyn_inv d" "dyn_abs d = replicate n x0"
proof -
  have "dyn_inv (dyn_init :: 'a dynarr)" by (rule dyn_init_correct(1))
  from dyn_resize_correct [OF this, of x0 n] show ?thesis
    using that by (auto simp: dyn_of_size_def dyn_init_correct(2))
qed

end
