(* ===== verification/Serial.thy ===== *)
theory Serial
  imports Prelude
begin

unbundle bit_operations_syntax

text \<open>
  The kernel's messages: the \<^verbatim>\<open>serial_print\<close> helpers that every source file has a copy of, the
  number printers of \<^verbatim>\<open>src/main.cpp\<close>, \<^verbatim>\<open>src/AVFS/avfs.cpp\<close> and \<^verbatim>\<open>src/PCI/nvme/nvme.cpp\<close>, the report
  of an NVMe status and \<^verbatim>\<open>print_field\<close> of \<^verbatim>\<open>src/gaossd/gaossd.cpp\<close>. What a function does is the
  list of port writes it adds to those made before; \<open>None\<close> is a read or a store outside an array.
\<close>

type_synonym port_log = "(u16 \<times> u8) list"

section \<open>Text\<close>

definition serial_out :: "u16 \<Rightarrow> u8 \<Rightarrow> port_log \<Rightarrow> port_log" where
  "serial_out port val out = out @ [(port, val)]"

fun serial_print :: "bytes \<Rightarrow> port_log \<Rightarrow> port_log option" where
  "serial_print [] out = None"
| "serial_print (c # cs) out = (if c = 0 then Some out else serial_print cs (serial_out 0x3F8 c out))"

text \<open>The writes of a text.\<close>

definition typed :: "bytes \<Rightarrow> port_log" where "typed cs = map (\<lambda>c. (0x3F8, c)) cs"

lemma typed_simps [simp]: "typed [] = []" "typed (c # cs) = (0x3F8, c) # typed cs" "typed (cs @ ds) = typed cs @ typed ds"
  by (simp_all add: typed_def)

lemma serial_print_correct: "0 \<in> set cs \<Longrightarrow> serial_print cs out = Some (out @ typed (cstr cs))"
  by (induction cs arbitrary: out) (auto simp: cstr_Cons serial_out_def)

lemma serial_print_text: "0 \<notin> set cs \<Longrightarrow> serial_print (cs @ [0]) out = Some (out @ typed cs)"
  using serial_print_correct [of "cs @ [0]" out] cstr_terminated [of cs "[]"] by simp

text \<open>A field of at most \<open>len\<close> characters, in an array that may hold no terminator.\<close>

fun field_loop :: "nat \<Rightarrow> bytes \<Rightarrow> port_log \<Rightarrow> port_log option" where
  "field_loop 0 cs out = Some out"
| "field_loop (Suc n) [] out = None"
| "field_loop (Suc n) (c # cs) out = (if c = 0 then Some out else field_loop n cs (serial_out 0x3F8 c out))"

definition print_field :: "bytes \<Rightarrow> bytes \<Rightarrow> nat \<Rightarrow> port_log \<Rightarrow> port_log option" where
  "print_field label str len out = do {
     o1 \<leftarrow> serial_print label out;
     o2 \<leftarrow> field_loop len str o1;
     serial_print [10, 0] o2 }"

lemma field_loop_correct:
  "n \<le> length cs \<Longrightarrow> field_loop n cs out = Some (out @ typed (cstr (take n cs)))"
  by (induction n cs out rule: field_loop.induct) (auto simp: cstr_Cons serial_out_def cstr_def)

lemma print_field_correct:
  assumes "0 \<in> set label" and "len \<le> length str"
  shows "print_field label str len out = Some (out @ typed (cstr label @ cstr (take len str) @ [10]))"
  using assms by (simp add: print_field_def serial_print_correct field_loop_correct serial_out_def)

section \<open>Decimal\<close>

function digits_loop :: "bytes \<Rightarrow> nat \<Rightarrow> u64 \<Rightarrow> (bytes \<times> nat) option" where
  "digits_loop buf pos num =
     (if num > 0 then
        (if pos < length buf then digits_loop (buf[pos := ucast (48 + num mod 10)]) (pos + 1) (num div 10) else None)
      else Some (buf, pos))"
  by pat_completeness auto

termination
  by (relation "measure (\<lambda>(buf, pos, num). unat num)") (auto simp: unat_div_distrib word_less_nat_alt)

declare digits_loop.simps [simp del]

text \<open>The loop from the last digit down.\<close>

fun put_down :: "bytes \<Rightarrow> nat \<Rightarrow> port_log \<Rightarrow> port_log" where
  "put_down buf 0 out = out"
| "put_down buf (Suc i) out = put_down buf i (serial_out 0x3F8 (buf ! i) out)"

definition serial_print_num :: "u64 \<Rightarrow> port_log \<Rightarrow> port_log option" where
  "serial_print_num num out =
     (if num = 0 then Some (serial_out 0x3F8 48 out)
      else do {
        (buf, pos) \<leftarrow> digits_loop (replicate 32 0) 0 num;
        Some (put_down buf pos out) })"

section \<open>Hexadecimal\<close>

definition hex_digit :: "u8 \<Rightarrow> u8" where
  "hex_digit nibble = (if nibble < 10 then 48 + nibble else 65 + nibble - 10)"

definition serial_print_hex16 :: "u16 \<Rightarrow> port_log \<Rightarrow> port_log option" where
  "serial_print_hex16 val out =
     (let buf = fold (\<lambda>i b. b[3 - i := hex_digit (ucast (drop_bit (i * 4) val AND 0xF))]) [3, 2, 1, 0] (replicate 5 0)
      in serial_print (buf[4 := 0]) out)"

definition serial_print_hex64 :: "u64 \<Rightarrow> port_log \<Rightarrow> port_log option" where
  "serial_print_hex64 val out =
     (case fold (\<lambda>i (b, v). (b[i := hex_digit (ucast (v AND 0xF))], drop_bit 4 v)) (rev [2..<18]) ((replicate 19 0)[18 := 0], val) of
        (buf, v) \<Rightarrow> serial_print (buf[0 := 48, 1 := 120]) out)"

section \<open>The report of an NVMe status\<close>

text \<open>Printing a literal, and a literal with a newline at its end.\<close>

definition say :: "string \<Rightarrow> port_log \<Rightarrow> port_log option" where
  "say t out = serial_print (bytes_of t @ [0]) out"

definition say_line :: "string \<Rightarrow> port_log \<Rightarrow> port_log option" where
  "say_line t out = serial_print (bytes_of t @ [10, 0]) out"

definition sct_text :: "u8 \<Rightarrow> string" where
  "sct_text sct =
     (if sct = 0 then ''Generic Command Status''
      else if sct = 1 then ''Command Specific Status''
      else if sct = 2 then ''Media and Data Integrity Error''
      else if sct = 3 then ''Path Related Status''
      else ''Vendor Specific / Reserved'')"

definition generic_text :: "u8 \<Rightarrow> string" where
  "generic_text sc =
     (if sc = 0x00 then ''Successful Completion''
      else if sc = 0x01 then ''Invalid Command Opcode''
      else if sc = 0x02 then ''Invalid Field in Command''
      else if sc = 0x03 then ''Command ID Conflict''
      else if sc = 0x04 then ''Data Transfer Error''
      else if sc = 0x05 then ''Commands Aborted due to Power Loss Notification''
      else if sc = 0x06 then ''Internal Error''
      else if sc = 0x07 then ''Command Abort Requested''
      else if sc = 0x08 then ''Command Aborted due to SQ Deletion''
      else if sc = 0x09 then ''Command Aborted due to Failed Fused Command''
      else if sc = 0x0A then ''Command Aborted due to Missing Fused Command''
      else if sc = 0x0B then ''Invalid Namespace or Format (NSID is invalid/inactive)''
      else if sc = 0x0C then ''Command Sequence Error''
      else ''Unknown Generic Status Code'')"

definition decode_nvme_status :: "u16 \<Rightarrow> bytes \<Rightarrow> port_log \<Rightarrow> port_log option" where
  "decode_nvme_status status_field context_msg out = do {
     let sct = (ucast (drop_bit 9 status_field AND 0x7) :: u8);
     let sc = (ucast (drop_bit 1 status_field AND 0xFF) :: u8);
     let dnr = status_field AND push_bit 11 1 \<noteq> 0;
     let more = status_field AND push_bit 12 1 \<noteq> 0;
     o1 \<leftarrow> say ''[NVME] --- STATUS DECODE FOR: '' out;
     o2 \<leftarrow> serial_print context_msg o1;
     o3 \<leftarrow> say_line '' ---'' o2;
     o4 \<leftarrow> say ''[NVME] Raw Status Field: 0x'' o3;
     o5 \<leftarrow> serial_print_hex16 status_field o4;
     o6 \<leftarrow> say_line [] o5;
     o7 \<leftarrow> say ''[NVME]   - Status Code Type (SCT): '' o6;
     o8 \<leftarrow> say_line (sct_text sct) o7;
     o9 \<leftarrow> say ''[NVME]   - Status Code (SC): 0x'' o8;
     o10 \<leftarrow> serial_print_hex16 (ucast sc) o9;
     o11 \<leftarrow> say '' -> '' o10;
     o12 \<leftarrow> (if sct = 0 then say_line (generic_text sc) o11 else say_line ''Non-generic status type range'' o11);
     o13 \<leftarrow> say ''[NVME]   - Do Not Retry (DNR): '' o12;
     o14 \<leftarrow> say_line (if dnr then ''YES'' else ''NO'') o13;
     o15 \<leftarrow> say ''[NVME]   - More (MORE): '' o14;
     o16 \<leftarrow> say_line (if more then ''YES'' else ''NO'') o15;
     say_line ''[NVME] -----------------------------------------'' o16 }"

text \<open>The namespace size, as four groups of four digits.\<close>

definition print_namespace_size :: "u64 \<Rightarrow> port_log \<Rightarrow> port_log option" where
  "print_namespace_size nsze out = do {
     o1 \<leftarrow> say ''[NVME INFO] Namespace Size (NSZE): '' out;
     o2 \<leftarrow> serial_print_hex16 (ucast (drop_bit 48 nsze)) o1;
     o3 \<leftarrow> serial_print_hex16 (ucast (drop_bit 32 nsze)) o2;
     o4 \<leftarrow> serial_print_hex16 (ucast (drop_bit 16 nsze)) o3;
     o5 \<leftarrow> serial_print_hex16 (ucast (nsze AND 0xFFFF)) o4;
     say_line [] o5 }"

section \<open>The value of a printed number\<close>

definition digit_value :: "u8 \<Rightarrow> nat" where
  "digit_value c = (if unat c < 58 then unat c - 48 else unat c - 55)"

text \<open>A numeral to the base \<open>b\<close> has only the digits 0 to 9 and A to F below it.\<close>

definition numeral_text :: "nat \<Rightarrow> bytes \<Rightarrow> bool" where
  "numeral_text b cs \<longleftrightarrow>
     (\<forall>c \<in> set cs. unat c \<in> {48..<58} \<union> {65..<71} \<and> digit_value c < b)"

fun number_value :: "nat \<Rightarrow> bytes \<Rightarrow> nat" where
  "number_value b [] = 0"
| "number_value b (c # cs) = digit_value c * b ^ length cs + number_value b cs"

lemma number_value_append: "number_value b (xs @ ys) = number_value b xs * b ^ length ys + number_value b ys"
  by (induction xs) (simp_all add: algebra_simps power_add)

definition nibble :: "u64 \<Rightarrow> nat \<Rightarrow> u8" where
  "nibble v i = ucast (drop_bit (4 * i) v AND 0xF)"

lemma unat_nibble: "unat (nibble v i) = unat v div 16 ^ i mod 16"
proof -
  have m: "(15 :: u64) = mask 4" by (simp add: mask_eq_exp_minus_1)
  have "unat (drop_bit (4 * i) v AND 15) = unat v div 16 ^ i mod 16"
    unfolding m take_bit_eq_mask [symmetric] unsigned_take_bit_eq unsigned_drop_bit_eq
    using mod_less [OF unat64_less [of v]] by (simp add: take_bit_eq_mod drop_bit_eq_div power_mult)
  moreover have "unat v div 16 ^ i mod 16 < 256" by (rule less_le_trans [OF mod_less_divisor]) simp_all
  ultimately show ?thesis by (simp add: nibble_def unsigned_ucast_eq take_bit_nat_eq_self)
qed

lemma digit_value_hex: "unat w < 16 \<Longrightarrow> digit_value (hex_digit w) = unat w"
proof -
  assume "unat w < 16"
  moreover from this have "unat (48 + w) = 48 + unat w" "unat (65 + w - 10) = 55 + unat w" if "unat w < 16"
    using that by (simp_all add: unat_word_ariths)
  ultimately show ?thesis by (auto simp: digit_value_def hex_digit_def word_less_nat_alt)
qed

definition hexes :: "nat \<Rightarrow> u64 \<Rightarrow> bytes" where
  "hexes k v = map (\<lambda>i. hex_digit (nibble v i)) (rev [0..<k])"

lemma hexes_value: "number_value 16 (hexes k v) = unat v mod 16 ^ k"
proof (induction k)
  case (Suc k)
  have "number_value 16 (hexes (Suc k) v) = digit_value (hex_digit (nibble v k)) * 16 ^ k + number_value 16 (hexes k v)"
    by (simp add: hexes_def)
  also have "digit_value (hex_digit (nibble v k)) = unat v div 16 ^ k mod 16"
    by (subst digit_value_hex) (simp_all add: unat_nibble)
  finally show ?case using Suc mod_mult2_eq [of "unat v" "16 ^ k" 16] by (simp add: mult.commute)
qed (simp add: hexes_def)

lemma hexes_numeral: "numeral_text 16 (hexes k v)"
proof -
  have "unat (hex_digit w) \<in> {48..<58} \<union> {65..<71} \<and> digit_value (hex_digit w) < 16" if w: "unat w < 16" for w
  proof -
    have "unat (48 + w) = 48 + unat w" "unat (65 + w - 10) = 55 + unat w"
      using w by (simp_all add: unat_word_ariths)
    then have "unat (hex_digit w) \<in> {48..<58} \<union> {65..<71}"
      using w by (auto simp: hex_digit_def word_less_nat_alt)
    then show ?thesis using digit_value_hex [OF w] w by simp
  qed
  moreover have "unat (nibble v i) < 16" for i by (simp add: unat_nibble)
  ultimately show ?thesis by (auto simp: hexes_def numeral_text_def)
qed

lemma hexes_no_nul: "0 \<notin> set (hexes k v)"
proof -
  have "hex_digit w \<noteq> 0" if "unat w < 16" for w
    using that by (auto simp: hex_digit_def word_less_nat_alt word_unat_eq_iff unat_word_ariths)
  then have "hex_digit (nibble v i) \<noteq> 0" for i by (simp add: unat_nibble)
  then show ?thesis by (auto simp: hexes_def dest: sym)
qed

lemma hex64_correct: "serial_print_hex64 v out = Some (out @ typed (bytes_of ''0x'' @ hexes 16 v))"
proof -
  have "rev [2..<18] = [17, 16, 15, 14, 13, 12, 11, 10, 9, 8, 7, 6, 5, 4, 3, 2 :: nat]" by (simp add: upt_rec_numeral)
  then have "serial_print_hex64 v out = serial_print ((bytes_of ''0x'' @ hexes 16 v) @ [0]) out"
    by (simp add: serial_print_hex64_def hexes_def nibble_def upt_rec_numeral bytes_of_def numeral_eq_Suc)
  then show ?thesis using serial_print_text [of "bytes_of ''0x'' @ hexes 16 v" out] hexes_no_nul
    by (simp add: bytes_of_def)
qed

lemma hex16_correct: "serial_print_hex16 v out = Some (out @ typed (hexes 4 (ucast v)))"
proof -
  have n: "ucast (drop_bit k v AND 0xF) = (ucast (drop_bit k (ucast v :: u64) AND 0xF) :: u8)" for k
  proof -
    have m: "(15 :: u64) = mask 4" "(15 :: u16) = mask 4" by (simp_all add: mask_eq_exp_minus_1)
    show ?thesis unfolding m by (rule bit_word_eqI) (auto simp: bit_simps dest: bit_imp_le_length)
  qed
  have "serial_print_hex16 v out = serial_print (hexes 4 (ucast v) @ [0]) out"
    unfolding serial_print_hex16_def n by (simp add: hexes_def nibble_def numeral_eq_Suc)
  then show ?thesis using serial_print_text [OF hexes_no_nul] by simp
qed

fun decimals :: "nat \<Rightarrow> bytes" where
  "decimals n = (if n = 0 then [] else of_nat (48 + n mod 10) # decimals (n div 10))"

declare decimals.simps [simp del]

lemma decimals_digit: "digit_value (of_nat (48 + n mod 10)) = n mod 10" "of_nat (48 + n mod 10) \<noteq> (0 :: u8)"
proof -
  have "48 + n mod 10 < 256" by (rule less_trans [of _ "48 + 10"]) simp_all
  then have "unat (of_nat (48 + n mod 10) :: u8) = 48 + n mod 10" by (simp add: unat_of_nat del: of_nat_add)
  then show "digit_value (of_nat (48 + n mod 10)) = n mod 10" "of_nat (48 + n mod 10) \<noteq> (0 :: u8)"
    by (auto simp: digit_value_def simp del: of_nat_add)
qed

lemma decimals_numeral: "numeral_text 10 (decimals n)"
proof (induction n rule: decimals.induct)
  case (1 n)
  have "48 + n mod 10 < 256" by (rule less_trans [of _ "48 + 10"]) simp_all
  then have u: "unat (of_nat (48 + n mod 10) :: u8) = 48 + n mod 10" by (simp add: unat_of_nat del: of_nat_add)
  have d: "n mod 10 < 10" by simp
  show ?case
  proof (cases "n = 0")
    case True
    then show ?thesis by (subst decimals.simps) (simp add: numeral_text_def)
  next
    case False
    then have "numeral_text 10 (of_nat (48 + n mod 10) # decimals (n div 10))"
      using 1 u d decimals_digit(1) [of n] by (simp add: numeral_text_def del: of_nat_add)
    then show ?thesis using False by (subst decimals.simps) (simp del: of_nat_add)
  qed
qed

lemma decimals_value: "number_value 10 (rev (decimals n)) = n"
proof (induction n rule: decimals.induct)
  case (1 n)
  show ?case
    using 1 decimals_digit(1) [of n] by (subst decimals.simps) (simp add: number_value_append del: of_nat_add)
qed

lemma decimals_length: "n < 10 ^ k \<Longrightarrow> length (decimals n) \<le> k"
proof (induction n arbitrary: k rule: decimals.induct)
  case (1 n)
  show ?case
  proof (cases "n = 0")
    case False
    then obtain j where k: "k = Suc j" using 1(2) by (cases k) auto
    have "n div 10 < 10 ^ j" using 1(2) k by (simp add: div_less_iff_less_mult mult.commute)
    then show ?thesis using 1(1) [OF False] False by (subst decimals.simps) (simp add: k)
  qed (simp add: decimals.simps)
qed

lemma decimals_last: "n \<noteq> 0 \<Longrightarrow> last (decimals n) \<noteq> 48"
proof (induction n rule: decimals.induct)
  case (1 n)
  show ?case
  proof (cases "n div 10 = 0")
    case True
    then have "n mod 10 = n" "n < 10" by simp_all
    then have "of_nat (48 + n) \<noteq> (48 :: u8)" using 1(2) decimals_digit(1) [of n] decimals_digit(1) [of 0] by auto
    then show ?thesis using 1(2) True \<open>n mod 10 = n\<close>
      by (subst decimals.simps) (simp add: decimals.simps [of 0] del: of_nat_add)
  next
    case False
    then have "decimals (n div 10) \<noteq> []" by (subst decimals.simps) simp
    then show ?thesis using 1 False by (subst decimals.simps) simp
  qed
qed

lemma digits_loop_correct:
  assumes "pos + length (decimals (unat num)) \<le> length buf"
  shows "digits_loop buf pos num = Some (take pos buf @ decimals (unat num) @
    drop (pos + length (decimals (unat num))) buf, pos + length (decimals (unat num)))"
  using assms
proof (induction buf pos num rule: digits_loop.induct)
  case (1 buf pos num)
  show ?case
  proof (cases "num = 0")
    case True
    then show ?thesis by (subst digits_loop.simps) (simp add: decimals.simps [of 0])
  next
    case False
    have d: "decimals (unat num) = of_nat (48 + unat num mod 10) # decimals (unat (num div 10))"
      using False by (subst decimals.simps) (simp add: unat_div_distrib unat_eq_0)
    have c: "ucast (48 + num mod 10) = (of_nat (48 + unat num mod 10) :: u8)"
    proof -
      have "unat num mod 10 < 10" by simp
      then have "unat (48 + num mod 10) = 48 + unat num mod 10" "48 + unat num mod 10 < 256"
        by (simp_all add: unat_word_ariths unat_mod_distrib)
      then show ?thesis by (simp add: word_unat_eq_iff unsigned_ucast_eq unat_of_nat take_bit_eq_mod del: of_nat_add)
    qed
    have pos: "pos < length buf" "num > 0" using 1(2) d False by (simp_all add: word_gt_0)
    let ?b = "buf[pos := ucast (48 + num mod 10)]"
    have "digits_loop ?b (pos + 1) (num div 10) = Some (take (pos + 1) ?b @ decimals (unat (num div 10)) @
        drop (pos + 1 + length (decimals (unat (num div 10)))) ?b, pos + 1 + length (decimals (unat (num div 10))))"
      using 1(2) d pos by (intro 1(1)) simp_all
    then show ?thesis
      using pos by (subst digits_loop.simps) (simp add: d c take_Suc_conv_app_nth del: of_nat_add)
  qed
qed

lemma put_down_correct: "pos \<le> length buf \<Longrightarrow> put_down buf pos out = out @ typed (rev (take pos buf))"
  by (induction pos arbitrary: out) (simp_all add: take_Suc_conv_app_nth serial_out_def)

lemma num_correct:
  "serial_print_num n out = Some (out @ typed (if n = 0 then [48] else rev (decimals (unat n))))"
proof (cases "n = 0")
  case False
  let ?k = "length (decimals (unat n))"
  have "?k \<le> 20" by (rule decimals_length) (use unat64_less [of n] in simp)
  then have "digits_loop (replicate 32 0) 0 n = Some (decimals (unat n) @ drop ?k (replicate 32 0), ?k)"
    using digits_loop_correct [of 0 n "replicate 32 0"] by simp
  then show ?thesis using False by (simp add: serial_print_num_def put_down_correct)
qed (simp add: serial_print_num_def serial_out_def)

text \<open>C34: numbers are printed so that they can be read back. For every 64-bit number the decimal printer
  stays inside its buffer of 32 characters and writes the number's decimal digits, without a leading
  zero unless the number is 0; the hexadecimal printers write exactly 16 and 4 digits; all are digits of the
  base, and they have the value of the number.\<close>

theorem printed_numbers_read_back:
  "(\<exists>cs. serial_print_num n out = Some (out @ typed cs) \<and> numeral_text 10 cs \<and> number_value 10 cs = unat n \<and>
      (hd cs = 48) = (n = 0) \<and> length cs \<le> 20) \<and>
   (\<exists>cs. serial_print_hex64 n out = Some (out @ typed (bytes_of ''0x'' @ cs)) \<and> length cs = 16 \<and> numeral_text 16 cs \<and>
      number_value 16 cs = unat n) \<and>
   (\<exists>cs. serial_print_hex16 w out = Some (out @ typed cs) \<and> length cs = 4 \<and> numeral_text 16 cs \<and> number_value 16 cs = unat w)"
proof (intro conjI)
  let ?cs = "if n = 0 then [48] else rev (decimals (unat n))"
  have "unat n < 10 ^ 20" using unat64_less [of n] by simp
  from decimals_length [OF this] have "length ?cs \<le> 20" by simp
  moreover have "numeral_text 10 ?cs" using decimals_numeral [of "unat n"] by (simp add: numeral_text_def digit_value_def)
  moreover have "number_value 10 ?cs = unat n" by (simp add: decimals_value digit_value_def)
  moreover have "(hd ?cs = 48) = (n = 0)" using decimals_last [of "unat n"] by (auto simp: hd_rev unat_eq_0)
  ultimately show "\<exists>cs. serial_print_num n out = Some (out @ typed cs) \<and> numeral_text 10 cs \<and> number_value 10 cs = unat n \<and>
      (hd cs = 48) = (n = 0) \<and> length cs \<le> 20"
    using num_correct [of n out] by blast
  have "unat n mod 16 ^ 16 = unat n" using unat64_less [of n] by simp
  then show "\<exists>cs. serial_print_hex64 n out = Some (out @ typed (bytes_of ''0x'' @ cs)) \<and> length cs = 16 \<and> numeral_text 16 cs \<and>
      number_value 16 cs = unat n"
    using hex64_correct [of n out] hexes_value [of 16 n] hexes_numeral [of 16 n] by (intro exI [of _ "hexes 16 n"]) (simp add: hexes_def)
  have "unat (ucast w :: u64) = unat w" "unat w < 65536"
    using unat_less [of w] by (simp_all add: unsigned_ucast_eq take_bit_nat_eq_self)
  then have "unat (ucast w :: u64) mod 16 ^ 4 = unat w" by simp
  then show "\<exists>cs. serial_print_hex16 w out = Some (out @ typed cs) \<and> length cs = 4 \<and> numeral_text 16 cs \<and> number_value 16 cs = unat w"
    using hex16_correct [of w out] hexes_value [of 4 "ucast w"] hexes_numeral [of 4 "ucast w"]
    by (intro exI [of _ "hexes 4 (ucast w)"]) (simp add: hexes_def)
qed

section \<open>What the report says\<close>

definition plain_text :: "string \<Rightarrow> bool" where "plain_text t \<longleftrightarrow> 0 \<notin> set (bytes_of t)"

lemma say_text: "plain_text t \<Longrightarrow> say t out = Some (out @ typed (bytes_of t))"
  using serial_print_text [of "bytes_of t" out] by (simp add: say_def plain_text_def)

lemma say_line_text: "plain_text t \<Longrightarrow> say_line t out = Some (out @ typed (bytes_of t @ [10]))"
  using serial_print_text [of "bytes_of t @ [10]" out] by (simp add: say_line_def plain_text_def)

lemma texts_plain: "plain_text (sct_text s)" "plain_text (generic_text c)"
  by (simp_all add: sct_text_def generic_text_def plain_text_def bytes_of_def)

text \<open>The report in terms of the number the status field is.\<close>

definition status_report :: "nat \<Rightarrow> bytes \<Rightarrow> bytes \<Rightarrow> bytes \<Rightarrow> bytes" where
  "status_report n context_text raw code =
     (let sct = n div 512 mod 8; sc = n div 2 mod 256 in
      bytes_of ''[NVME] --- STATUS DECODE FOR: '' @ context_text @ bytes_of '' ---'' @ [10] @
      bytes_of ''[NVME] Raw Status Field: 0x'' @ raw @ [10] @
      bytes_of ''[NVME]   - Status Code Type (SCT): '' @ bytes_of (sct_text (of_nat sct)) @ [10] @
      bytes_of ''[NVME]   - Status Code (SC): 0x'' @ code @ bytes_of '' -> '' @
      bytes_of (if sct = 0 then generic_text (of_nat sc) else ''Non-generic status type range'') @ [10] @
      bytes_of ''[NVME]   - Do Not Retry (DNR): '' @ bytes_of (if 4 \<le> sct then ''YES'' else ''NO'') @ [10] @
      bytes_of ''[NVME]   - More (MORE): '' @ bytes_of (if odd (n div 4096) then ''YES'' else ''NO'') @ [10] @
      bytes_of ''[NVME] -----------------------------------------'' @ [10])"

lemma status_fields:
  fixes v :: u16
  shows "unat (drop_bit 9 v AND 0x7) = unat v div 512 mod 8"
    and "unat (drop_bit 1 v AND 0xFF) = unat v div 2 mod 256"
    and "v AND push_bit 11 1 \<noteq> 0 \<longleftrightarrow> 4 \<le> unat v div 512 mod 8"
    and "v AND push_bit 12 1 \<noteq> 0 \<longleftrightarrow> odd (unat v div 4096)"
proof -
  have m: "(7 :: u16) = mask 3" "(0xFF :: u16) = mask 8" by (simp_all add: mask_eq_exp_minus_1)
  have u: "unat v mod 65536 = unat v" using unat_less [of v] by simp
  have d: "unat (drop_bit k v) = unat v div 2 ^ k" for k
    unfolding unsigned_drop_bit_eq using u by (simp add: drop_bit_eq_div take_bit_eq_mod)
  show "unat (drop_bit 9 v AND 0x7) = unat v div 512 mod 8"
    unfolding m take_bit_eq_mask [symmetric] unsigned_take_bit_eq d by (simp add: take_bit_eq_mod)
  show "unat (drop_bit 1 v AND 0xFF) = unat v div 2 mod 256"
    unfolding m take_bit_eq_mask [symmetric] unsigned_take_bit_eq d by (simp add: take_bit_eq_mod)
  have b: "v AND push_bit k 1 \<noteq> 0 \<longleftrightarrow> odd (unat v div 2 ^ k)" if "k < 16" for k
  proof -
    have "v AND push_bit k 1 \<noteq> 0 \<longleftrightarrow> bit v k"
      using and_exp_eq_0_iff_not_bit [of v k] by (simp add: push_bit_eq_mult)
    also have "\<dots> \<longleftrightarrow> bit (unat v) k" by (simp add: bit_unsigned_iff)
    finally show ?thesis by (simp add: bit_iff_odd)
  qed
  have "4 \<le> x mod 8 \<longleftrightarrow> odd (x div 4)" for x :: nat by presburger
  then show "v AND push_bit 11 1 \<noteq> 0 \<longleftrightarrow> 4 \<le> unat v div 512 mod 8"
    using b [of 11] div_mult2_eq [of "unat v" 512 4] by simp
  show "v AND push_bit 12 1 \<noteq> 0 \<longleftrightarrow> odd (unat v div 4096)" using b [of 12] by simp
qed

lemma hexes_groups: "hexes 16 v = hexes 4 (ucast (ucast (drop_bit 48 v) :: u16)) @ hexes 4 (ucast (ucast (drop_bit 32 v) :: u16)) @
    hexes 4 (ucast (ucast (drop_bit 16 v) :: u16)) @ hexes 4 (ucast (ucast (v AND 0xFFFF) :: u16))"
proof -
  have m: "(15 :: u64) = mask 4" "(0xFFFF :: u64) = mask 16" by (simp_all add: mask_eq_exp_minus_1)
  have n: "nibble (ucast (ucast (drop_bit (4 * k) v) :: u16)) i = nibble v (k + i)" if "i < 4" for k i
    unfolding nibble_def m by (rule bit_word_eqI) (use that in \<open>auto simp: bit_simps ac_simps dest: bit_imp_le_length\<close>)
  have l: "nibble (ucast (ucast (v AND 0xFFFF) :: u16)) i = nibble v i" if "i < 4" for i
    unfolding nibble_def m by (rule bit_word_eqI) (use that in \<open>auto simp: bit_simps dest: bit_imp_le_length\<close>)
  have r: "rev [0..<4] = [3, 2, 1, 0 :: nat]" "rev [0..<16] = [15, 14, 13, 12, 11, 10, 9, 8, 7, 6, 5, 4, 3, 2, 1, 0 :: nat]"
    by (simp_all add: upt_rec)
  show ?thesis
    unfolding hexes_def r using n [of _ 12] n [of _ 8] n [of _ 4] l by simp
qed

lemma print_namespace_size_correct: "print_namespace_size v out =
    Some (out @ typed (bytes_of ''[NVME INFO] Namespace Size (NSZE): '' @ hexes 16 v @ [10]))"
proof -
  have "plain_text ''[NVME INFO] Namespace Size (NSZE): ''" "plain_text []" by (simp_all add: plain_text_def bytes_of_def)
  then show ?thesis
    unfolding hexes_groups
    by (simp add: print_namespace_size_def say_text say_line_text hex16_correct bytes_of_def [of "[]"])
qed

text \<open>C39: the report of a status: it prints the raw field and the status code in hexadecimal, the names of
  the code type and, for a generic status, of the code. The line for Do Not Retry is the top bit of the
  code type, so every status of type 4 and above is reported as final, and the real bit is never
  looked at.\<close>

theorem status_report_printed:
  assumes "0 \<in> set context_msg"
  shows "\<exists>raw code. decode_nvme_status v context_msg out = Some (out @ typed (status_report (unat v) (cstr context_msg) raw code)) \<and>
    number_value 16 raw = unat v \<and> number_value 16 code = unat v div 2 mod 256"
proof -
  let ?code = "hexes 4 (ucast (ucast (ucast (drop_bit 1 v AND 0xFF) :: u8) :: u16))"
  have f: "(ucast (drop_bit 9 v AND 0x7) :: u8) = of_nat (unat v div 512 mod 8)"
    "(ucast (drop_bit 1 v AND 0xFF) :: u8) = of_nat (unat v div 2 mod 256)"
    by (metis of_nat_unat status_fields(1)) (metis of_nat_unat status_fields(2))
  have zero: "(of_nat (unat v div 512 mod 8) :: u8) = 0 \<longleftrightarrow> unat v div 512 mod 8 = 0"
    using mod_less_divisor [of 8 "unat v div 512"] by (simp add: word_unat_eq_iff unat_of_nat)
  have p: "plain_text ''[NVME] --- STATUS DECODE FOR: ''" "plain_text '' ---''" "plain_text ''[NVME] Raw Status Field: 0x''"
    "plain_text []" "plain_text ''[NVME]   - Status Code Type (SCT): ''" "plain_text ''[NVME]   - Status Code (SC): 0x''"
    "plain_text '' -> ''" "plain_text ''Non-generic status type range''" "plain_text ''[NVME]   - Do Not Retry (DNR): ''"
    "plain_text ''[NVME]   - More (MORE): ''" "plain_text ''YES''" "plain_text ''NO''"
    "plain_text ''[NVME] -----------------------------------------''"
    by (simp_all add: plain_text_def bytes_of_def)
  have q: "plain_text (if b then ''YES'' else ''NO'')" for b using p(11,12) by simp
  have "decode_nvme_status v context_msg out =
      Some (out @ typed (status_report (unat v) (cstr context_msg) (hexes 4 (ucast v)) ?code))"
    unfolding decode_nvme_status_def Let_def status_fields(3,4) f zero status_report_def
    using serial_print_correct [OF assms]
    by (simp add: say_text say_line_text p q texts_plain hex16_correct bytes_of_def [of "[]"])
  moreover have w: "unat (ucast x :: u64) = unat x" "unat x < 65536" for x :: u16
    using unat_less [of x] by (simp_all add: unsigned_ucast_eq take_bit_nat_eq_self)
  have "number_value 16 (hexes 4 (ucast v)) = unat v" using w [of v] by (simp add: hexes_value)
  moreover have "unat (ucast (of_nat (unat v div 2 mod 256) :: u8) :: u16) = unat v div 2 mod 256"
    by (simp add: unsigned_ucast_eq unat_of_nat take_bit_eq_mod)
  then have "number_value 16 ?code = unat v div 2 mod 256"
    unfolding f hexes_value w by simp
  ultimately show ?thesis by blast
qed

theorem status_report_printed_witness:
  "\<exists>raw code. decode_nvme_status 0x0802 [73, 68, 0] [] = Some (typed (status_report 0x802 [73, 68] raw code)) \<and>
     number_value 16 code = 1"
proof -
  have "0 \<in> set [73, 68, 0 :: u8]" "cstr [73, 68, 0] = [73, 68]" by (simp_all add: cstr_def)
  then show ?thesis using status_report_printed [of "[73, 68, 0]" "0x0802" "[]"] by auto
qed

end
