(* ===== verification/Runtime.thy ===== *)
theory Runtime
  imports Acpi
begin

unbundle bit_operations_syntax

text \<open>
  The C++ runtime of the kernel (\<^verbatim>\<open>src/kernel/cxx_abi.cpp\<close>): the functions the compiler calls for
  filling and copying memory, and the guards of local static objects, which every \<^verbatim>\<open>get_instance\<close> of the
  kernel rests on. Memory is a function from addresses to bytes, addresses wrap.
\<close>

section \<open>Filling and copying\<close>

fun memset_loop :: "u8 \<Rightarrow> nat \<Rightarrow> u64 \<Rightarrow> memory \<Rightarrow> memory" where
  "memset_loop c 0 p m = m"
| "memset_loop c (Suc n) p m = memset_loop c n (p + 1) (m(p := c))"

definition memset :: "u64 \<Rightarrow> 32 word \<Rightarrow> u64 \<Rightarrow> memory \<Rightarrow> u64 \<times> memory" where
  "memset dest c n m = (dest, memset_loop (ucast c) (unat n) dest m)"

fun memcpy_loop :: "nat \<Rightarrow> u64 \<Rightarrow> u64 \<Rightarrow> memory \<Rightarrow> memory" where
  "memcpy_loop 0 d s m = m"
| "memcpy_loop (Suc n) d s m = memcpy_loop n (d + 1) (s + 1) (m(d := m s))"

definition memcpy :: "u64 \<Rightarrow> u64 \<Rightarrow> u64 \<Rightarrow> memory \<Rightarrow> u64 \<times> memory" where
  "memcpy dest src n m = (dest, memcpy_loop (unat n) dest src m)"

section \<open>Guards\<close>

text \<open>The guard's first byte says that the object is there.\<close>

definition cxa_guard_acquire :: "u64 \<Rightarrow> memory \<Rightarrow> bool" where
  "cxa_guard_acquire guard m = (m guard = 0)"

definition cxa_guard_release :: "u64 \<Rightarrow> memory \<Rightarrow> memory" where
  "cxa_guard_release guard m = m(guard := 1)"

definition cxa_guard_abort :: "u64 \<Rightarrow> memory \<Rightarrow> memory" where "cxa_guard_abort guard m = m"

definition cxa_atexit :: "u64 \<Rightarrow> u64 \<Rightarrow> u64 \<Rightarrow> int" where "cxa_atexit f arg dso = 0"

text \<open>The function that gives a local static object, as the compiler writes it around the guard: the
  constructor runs behind the first acquisition.\<close>

definition local_static :: "u64 \<Rightarrow> ('s \<Rightarrow> 's) \<Rightarrow> memory \<times> 's \<Rightarrow> memory \<times> 's" where
  "local_static guard construct st = (case st of (m, s) \<Rightarrow>
     if cxa_guard_acquire guard m then (cxa_guard_release guard m, construct s) else (m, s))"

lemma local_static_once:
  "(local_static guard construct ^^ Suc n) (m, s) = (if m guard = 0 then (m(guard := 1), construct s) else (m, s))"
  by (induction n) (auto simp: local_static_def cxa_guard_acquire_def cxa_guard_release_def)

section \<open>What they do\<close>

lemma memset_loop_eq:
  "n < 2 ^ 64 \<Longrightarrow> memset_loop c n p m a = (if unat (a - p) < n then c else m a)"
proof (induction n arbitrary: p m)
  case (Suc n)
  have "memset_loop c (Suc n) p m a = (if unat (a - (p + 1)) < n then c else (m(p := c)) a)"
    using Suc by simp
  moreover have "unat (a - p) = Suc (unat (a - (p + 1)))" if "a \<noteq> p"
  proof -
    have "a - p \<noteq> 0" using that by simp
    then have "unat (a - p - 1) = unat (a - p) - 1" "0 < unat (a - p)"
      by (simp_all add: unat_minus_one unat_gt_0)
    then show ?thesis by (simp add: diff_diff_eq)
  qed
  ultimately show ?case by auto
qed simp

text \<open>After some steps: the bytes copied so far come from the source, repeated with the distance of the two
  regions as the period.\<close>

definition copied :: "nat \<Rightarrow> u64 \<Rightarrow> u64 \<Rightarrow> memory \<Rightarrow> memory" where
  "copied i d s m = (\<lambda>a. if unat (a - d) < i then m (s + of_nat (unat (a - d) mod unat (d - s))) else m a)"

lemma copied_step:
  assumes "i < 2 ^ 64"
  shows "(copied i d s m)(d + of_nat i := copied i d s m (s + of_nat i)) = copied (Suc i) d s m"
proof
  fix a
  let ?k = "unat (d - s)" and ?j = "unat (a - d)"
  have i: "unat (of_nat i :: u64) = i" using assms by (simp add: unat_of_nat64)
  have src: "copied i d s m (s + of_nat i) = m (s + of_nat (i mod ?k))"
  proof (cases "0 < ?k \<and> ?k \<le> i")
    case True
    have "s + of_nat i - d = of_nat (i - ?k)"
      using True by (simp add: of_nat_diff)
    moreover have "unat (of_nat (i - ?k) :: u64) = i - ?k" using assms by (simp add: unat_of_nat64)
    ultimately have "unat (s + of_nat i - d) = i - ?k" by simp
    then show ?thesis using True by (simp add: copied_def le_mod_geq)
  next
    case False
    have "\<not> unat (s + of_nat i - d) < i"
    proof (cases "?k = 0")
      case True
      then show ?thesis using i by (simp add: unat_eq_0)
    next
      case k: False
      then have lt: "i < ?k" using False by simp
      have "unat (s + of_nat i - d) = unat (of_nat i - (d - s))" by (simp add: algebra_simps)
      also have "\<dots> = 2 ^ 64 + i - ?k" using lt i by (simp add: unat_sub_if')
      finally show ?thesis using unat_less [of "d - s"] by simp
    qed
    then show ?thesis using False by (cases "?k = 0") (simp_all add: copied_def)
  qed
  have "a = d + of_nat i \<longleftrightarrow> ?j = i"
  proof
    assume "?j = i"
    then have "of_nat ?j = (of_nat i :: u64)" by simp
    then show "a = d + of_nat i" by (simp add: diff_eq_eq add.commute)
  qed (use i in simp)
  then show "((copied i d s m)(d + of_nat i := copied i d s m (s + of_nat i))) a = copied (Suc i) d s m a"
    unfolding src by (auto simp: copied_def less_Suc_eq)
qed

lemma memcpy_loop_from:
  "i + n \<le> 2 ^ 64 \<Longrightarrow> memcpy_loop n (d + of_nat i) (s + of_nat i) (copied i d s m) = copied (i + n) d s m"
proof (induction n arbitrary: i)
  case (Suc n)
  have "memcpy_loop (Suc n) (d + of_nat i) (s + of_nat i) (copied i d s m) =
      memcpy_loop n (d + of_nat (Suc i)) (s + of_nat (Suc i)) (copied (Suc i) d s m)"
    using copied_step [of i d s m] Suc.prems by (simp add: ac_simps)
  then show ?case using Suc.IH [of "Suc i"] Suc.prems by simp
qed simp

lemma memcpy_loop_eq:
  assumes "n < 2 ^ 64"
  shows "memcpy_loop n d s m = copied n d s m"
proof -
  have "copied 0 d s m = m" by (simp add: copied_def fun_eq_iff)
  then show ?thesis using memcpy_loop_from [of 0 n d s m] assms by simp
qed

text \<open>C36: \<^verbatim>\<open>memset\<close> and \<^verbatim>\<open>memcpy\<close> for any addresses and lengths, with wrap-around and overlap. Filling
  changes exactly the bytes of the region. Copying changes no other byte either, and puts into byte
  \<open>i\<close> of the target byte \<open>i mod k\<close> of the source as it was, \<open>k\<close> the distance from the source up to the
  target: the source itself if the target does not begin inside it (a distance of 0 included, where
  nothing changes), otherwise the first \<open>k\<close> bytes over and over.\<close>

theorem memory_functions_exact:
  "fst (memset dest c n m) = dest \<and>
   snd (memset dest c n m) a = (if a - dest < n then ucast c else m a) \<and>
   fst (memcpy dest src n m) = dest \<and>
   snd (memcpy dest src n m) a =
     (if a - dest < n then m (src + of_nat (unat (a - dest) mod unat (dest - src))) else m a)"
  using unat64_less [of n]
  by (simp add: memset_def memcpy_def memset_loop_eq memcpy_loop_eq copied_def word_less_nat_alt)

end
