(* ===== verification/SysCalls.thy ===== *)
theory SysCalls
  imports SystemX AbtrfsSessions
begin

text \<open>
  Programs as sequences of system calls. Every call is given by what the program has in its memory and
  in the registers; the dispatcher, the virtual file system and AbtrFS serve it on one storage device.
  The whole sequence is compared with the same calls on a map from paths to contents, paths that are
  no paths and drives that are not there included.
\<close>

section \<open>Paths that are not found\<close>

text \<open>A path is \<^verbatim>\<open>name://rest\<close>: everything in front of the first colon, which two slashes follow.\<close>

definition split_path :: "bytes \<Rightarrow> (bytes \<times> bytes) option" where
  "split_path pth =
     (let stop = (\<lambda>c. c \<noteq> 0 \<and> c \<noteq> of_char CHR '':''); r = dropWhile stop pth in
      if r \<noteq> [] \<and> hd r = of_char CHR '':'' \<and> starts_slashes (tl r)
      then Some (takeWhile stop pth, drop 3 r) else None)"

lemma starts_slashes_split:
  "starts_slashes cs \<Longrightarrow> cs = [of_char CHR ''/'', of_char CHR ''/''] @ drop 2 cs"
  by (auto simp: starts_slashes_def split: list.splits)

lemma split_path_Some:
  assumes "split_path pth = Some (nm, rest)"
  shows "pth = nm @ separator @ rest" and "plain_name nm"
proof -
  define stop where "stop = (\<lambda>c :: byte. c \<noteq> 0 \<and> c \<noteq> of_char CHR '':'')"
  define r where "r = dropWhile stop pth"
  have a: "r \<noteq> []" "hd r = of_char CHR '':''" "starts_slashes (tl r)" "nm = takeWhile stop pth" "rest = drop 3 r"
    using assms by (auto simp: split_path_def Let_def r_def stop_def split: if_split_asm)
  have "r = of_char CHR '':'' # tl r" using a(1,2) by (cases r) auto
  moreover have "drop 2 (tl r) = rest" using a(1,5) by (cases r) auto
  ultimately have "r = separator @ rest" using starts_slashes_split [OF a(3)] by simp
  moreover have "pth = nm @ r" by (simp add: a(4) r_def)
  ultimately show "pth = nm @ separator @ rest" by simp
  have "\<forall>c \<in> set nm. stop c" unfolding a(4) by (auto dest: set_takeWhileD)
  then show "plain_name nm" by (auto simp: plain_name_def stop_def)
qed

lemma find_drive_loop_None:
  assumes "split_path pth = None" and "str_inv 16 s"
  shows "find_drive_loop pth s = Some (Inl Generic_Error)"
  using assms
proof (induction pth arbitrary: s)
  case Nil
  then show ?case by simp
next
  case (Cons c cs)
  consider "c = 0" | "c = of_char CHR '':''" "c \<noteq> 0" | "c \<noteq> 0" "c \<noteq> of_char CHR '':''" by blast
  then show ?case
  proof cases
    case 1
    then show ?thesis by simp
  next
    case 2
    then have "\<not> starts_slashes cs" using Cons.prems(1) by (auto simp: split_path_def Let_def split: if_split_asm)
    then show ?thesis using 2 by simp
  next
    case 3
    then have "split_path cs = None"
      using Cons.prems(1) by (auto simp: split_path_def Let_def split: if_split_asm)
    moreover obtain s' where "str_append_char 16 s c = Some s'" "str_inv 16 s'"
      by (rule str_append_char_correct [OF Cons.prems(2)])
    ultimately show ?thesis using Cons.IH 3 by simp
  qed
qed

lemma findDrive_None: "split_path pth = None \<Longrightarrow> findDrive pth = Some (Inl Generic_Error)"
  by (simp add: findDrive_def find_drive_loop_None [OF _ str_inv_init])

lemma drive_not_found:
  assumes "avfs_inv av" and "split_path pth = Some (nm, rest)" and "trim_name nm \<notin> set (drive_names av)"
  obtains s where "findDrive pth = Some (Inr s)" "retrieveDrive av s = Some (Inl NotFound)"
proof -
  note p = split_path_Some [OF assms(2)]
  obtain s where s: "find_drive_loop (nm @ separator @ rest) (str_init 16) = Some (Inr s)" "str_inv 16 s"
    "str_abs s = trim_name (str_abs (str_init 16) @ nm)"
    by (rule find_drive_loop_name [OF p(2) str_inv_init]) simp_all
  have "retrieveDrive av s = Some (Inl NotFound)"
    using retrieveDrive_correct [OF assms(1) s(2)] s(3) assms(3) position_None_iff [of "trim_name nm" "drive_names av" 0]
    by simp
  then show ?thesis using that s(1) p(1) by (simp add: findDrive_def)
qed

text \<open>What a path means to a table of drives with these names: an error, or the path on the drive.\<close>

definition vol_path :: "bytes list \<Rightarrow> bytes \<Rightarrow> errorCode + bytes" where
  "vol_path names pth = (case split_path pth of
     None \<Rightarrow> Inl Generic_Error
   | Some (nm, rest) \<Rightarrow> if trim_name nm \<in> set names then Inr rest else Inl NotFound)"

lemma vol_path_Inl:
  assumes "avfs_inv av" and "vol_path (drive_names av) pth = Inl e"
  shows "findDrive pth = Some (Inl e) \<or>
    (\<exists>s. findDrive pth = Some (Inr s) \<and> retrieveDrive av s = Some (Inl e))"
proof (cases "split_path pth")
  case None
  then show ?thesis using assms(2) by (simp add: vol_path_def findDrive_None)
next
  case (Some x)
  obtain nm rest where x: "x = (nm, rest)" by (cases x)
  then have "trim_name nm \<notin> set (drive_names av)" "e = NotFound"
    using assms(2) Some by (auto simp: vol_path_def split: if_split_asm)
  then show ?thesis using drive_not_found [OF assms(1) Some [unfolded x]] by metis
qed

text \<open>Such a path makes every call fail the same way and changes nothing.\<close>

lemma bad_path_calls:
  assumes "avfs_inv av" and "vol_path (drive_names av) pth = Inl e"
  shows "AVFS_write g rb wb pth dat av w = Some (e, w)" "AVFS_read g rb pth dat av w = Some (e, dat, w)"
    "AVFS_exists pth av = Some e" "AVFS_mount g rb pth av w = Some (e, av, w)"
    "AVFS_dismount pth av = Some (e, av)"
  using vol_path_Inl [OF assms]
  by (auto simp: AVFS_write_def AVFS_read_def AVFS_exists_def AVFS_mount_def AVFS_dismount_def)

section \<open>Sequences of calls\<close>

text \<open>What a program does for a call: its memory, the number, three arguments. The answers are what it
  finds in \<^verbatim>\<open>rcx\<close>.\<close>

type_synonym sys_op = "memory \<times> u64 \<times> u64 \<times> u64 \<times> u64"

fun sys_session :: "'w gaossd \<Rightarrow> 's block_read \<Rightarrow> 's block_write \<Rightarrow> u64 \<Rightarrow> u64 \<Rightarrow> sys_op list \<Rightarrow>
    's machine_state \<Rightarrow> (u64 option list \<times> 's machine_state) option" where
  "sys_session g rb wb arch os [] st = Some ([], st)"
| "sys_session g rb wb arch os ((mm, c, a1, a2, a3) # ops) st = do {
     st1 \<leftarrow> syscall g rb wb arch os c a1 a2 a3 (st\<lparr>ms_mem := mm\<rparr>);
     (rs, st2) \<leftarrow> sys_session g rb wb arch os ops st1;
     Some (Rcx st1 # rs, st2) }"

text \<open>The same on a map. Writing drops the zero bytes; a query, a mount and a dismount look at the drive
  only; reading a file that exists and writing from a null pointer are undefined.\<close>

definition vol_file_call :: "nat \<Rightarrow> memory \<Rightarrow> u64 \<Rightarrow> u64 \<Rightarrow> u64 \<Rightarrow> bytes \<Rightarrow> (bytes \<rightharpoonup> bytes) \<Rightarrow>
    (errorCode \<times> (bytes \<rightharpoonup> bytes)) option" where
  "vol_file_call T mm c a2 a3 rest m =
     (if c = SYS_WRITE then
        if a2 = 0 \<and> a3 \<noteq> 0 then None
        else if segments_of [] (cstr rest) = [] then Some (InvalidPath, m)
        else Some (vol_write T (cstr rest) 0 (filter (\<lambda>b. b \<noteq> 0) (mem_bytes mm a2 (unat a3))) m)
      else if c = SYS_READ then
        if segments_of [] (cstr rest) = [] then Some (InvalidPath, m)
        else if m (cstr rest) = None then Some (FileNotFound, m) else None
      else Some (Success, m))"

definition vol_sys :: "nat \<Rightarrow> bytes list \<Rightarrow> u64 \<Rightarrow> u64 \<Rightarrow> sys_op \<Rightarrow> (bytes \<rightharpoonup> bytes) \<Rightarrow>
    (u64 option \<times> (bytes \<rightharpoonup> bytes)) option" where
  "vol_sys T names arch os x m = (case x of (mm, c, a1, a2, a3) \<Rightarrow>
     if c \<in> {SYS_WRITE, SYS_READ, SYS_EXISTS, SYS_MOUNT, SYS_DISMOUNT} then
       (case vol_path names (path_at mm a1) of
          Inl e \<Rightarrow> Some (Some (errorCode_value e), m)
        | Inr rest \<Rightarrow> map_option (\<lambda>(e, m'). (Some (errorCode_value e), m')) (vol_file_call T mm c a2 a3 rest m))
     else if c = SYS_OS_ARCH then Some (Some arch, m)
     else if c = SYS_OS_TYPE then Some (Some os, m)
     else Some (None, m))"

fun vol_sys_session :: "nat \<Rightarrow> bytes list \<Rightarrow> u64 \<Rightarrow> u64 \<Rightarrow> sys_op list \<Rightarrow> (bytes \<rightharpoonup> bytes) \<Rightarrow>
    (u64 option list \<times> (bytes \<rightharpoonup> bytes)) option" where
  "vol_sys_session T names arch os [] m = Some ([], m)"
| "vol_sys_session T names arch os (x # xs) m = do {
     (r, m1) \<leftarrow> vol_sys T names arch os x m;
     (rs, m2) \<leftarrow> vol_sys_session T names arch os xs m1;
     Some (r # rs, m2) }"

text \<open>What a program must keep to: stored paths have at most 254 characters, writes make a file or stay
  inside the blocks of an old one, and files are not read into a null pointer.\<close>

definition sys_ok :: "bytes list \<Rightarrow> sys_op \<Rightarrow> (bytes \<rightharpoonup> bytes) \<Rightarrow> bool" where
  "sys_ok names x m = (case x of (mm, c, a1, a2, a3) \<Rightarrow> (case vol_path names (path_at mm a1) of
      Inl e \<Rightarrow> True
    | Inr rest \<Rightarrow>
       (c = SYS_WRITE \<longrightarrow> length (cstr rest) < 255 \<and>
          write_fits (m (cstr rest)) 0 (length (filter (\<lambda>b. b \<noteq> 0) (mem_bytes mm a2 (unat a3))))) \<and>
       (c = SYS_READ \<longrightarrow> a2 \<noteq> 0)))"

fun sys_session_ok :: "nat \<Rightarrow> bytes list \<Rightarrow> u64 \<Rightarrow> u64 \<Rightarrow> sys_op list \<Rightarrow> (bytes \<rightharpoonup> bytes) \<Rightarrow> bool" where
  "sys_session_ok T names arch os [] m \<longleftrightarrow> True"
| "sys_session_ok T names arch os (x # xs) m \<longleftrightarrow> sys_ok names x m \<and>
     (case vol_sys T names arch os x m of None \<Rightarrow> True | Some (r, m1) \<Rightarrow> sys_session_ok T names arch os xs m1)"

section \<open>Paths and buffers of a call\<close>

lemma vol_path_Inr:
  assumes "drives_on g av h" and "vol_path (drive_names av) pth = Inr rest"
  obtains nm where "pth = nm @ separator @ rest" "plain_name nm" "resolves g av nm h"
proof -
  obtain nm where s: "split_path pth = Some (nm, rest)" "trim_name nm \<in> set (drive_names av)"
    using assms(2) by (auto simp: vol_path_def split: option.split_asm if_split_asm)
  show ?thesis by (rule that [OF split_path_Some [OF s(1)] drives_on_resolves [OF assms(1) s(2)]])
qed

lemma view_at_read:
  "p \<noteq> 0 \<or> n = 0 \<Longrightarrow> read_all (DynArr.data (view_at m p n)) [0..<size_field (view_at m p n)] =
     Some (mem_bytes m p (unat n))"
  by (auto simp: view_at_def dyn_view_def mem_read_def mem_bytes_def list_eq_iff_nth_eq
      intro!: read_all_map [THEN trans] split: option.splits)

lemma view_at_null: "n \<noteq> 0 \<Longrightarrow> read_all (DynArr.data (view_at m 0 n)) [0..<size_field (view_at m 0 n)] = None"
proof -
  assume "n \<noteq> 0"
  then have "0 < unat n" by (simp add: unat_gt_0)
  then have "[0..<unat n] = 0 # [1..<unat n]" by (simp add: upt_conv_Cons)
  then show ?thesis by (simp add: view_at_def dyn_view_def mem_read_def)
qed

lemmas sys_numbers = SYS_WRITE_def SYS_READ_def SYS_EXISTS_def SYS_MOUNT_def SYS_DISMOUNT_def SYS_OS_ARCH_def SYS_OS_TYPE_def

lemmas sys_calls = sys_write_def sys_read_def sys_exists_def sys_mount_def sys_dismount_def sys_os_arch_def
  sys_os_type_def sys_spawn_def sys_kill_def sys_get_pid_def sys_exit_def sys_mmap_def sys_munmap_def
  sys_net_send_def sys_net_recv_def sys_diagnostic_def

lemma if_same_or: "(if P then x else if Q then x else y) = (if P \<or> Q then x else y)"
  by simp

text \<open>The other calls do no more than put the addresses of two literals into \<^verbatim>\<open>rcx\<close>.\<close>

lemma other_syscall:
  assumes "c \<notin> {SYS_WRITE, SYS_READ, SYS_EXISTS, SYS_MOUNT, SYS_DISMOUNT}"
  shows "syscall g rb wb arch os c a1 a2 a3 st = Some
    (if c = SYS_OS_ARCH then st\<lparr>ms_rcx := Some arch\<rparr> else if c = SYS_OS_TYPE then st\<lparr>ms_rcx := Some os\<rparr> else rcx_unknown st)"
proof -
  have "syscall g rb wb arch os c a1 a2 a3 st =
     (if c \<in> {SYS_SPAWN, SYS_KILL, SYS_GET_PID, SYS_EXIT, SYS_MMAP, SYS_MUNMAP, SYS_NET_SEND, SYS_NET_RECV, SYS_DIAGNOSTIC}
      then Some (rcx_unknown st) else if c = SYS_OS_ARCH then Some (st\<lparr>ms_rcx := Some arch\<rparr>)
      else if c = SYS_OS_TYPE then Some (st\<lparr>ms_rcx := Some os\<rparr>) else Some (rcx_unknown st))"
    using assms unfolding syscall_def sys_spawn_def sys_kill_def sys_get_pid_def sys_exit_def sys_mmap_def
      sys_munmap_def sys_net_send_def sys_net_recv_def sys_diagnostic_def sys_os_arch_def sys_os_type_def
    by (simp only: if_same_or insert_iff empty_iff de_Morgan_disj simp_thms if_False)
  moreover have "SYS_OS_ARCH \<notin> S \<and> SYS_OS_TYPE \<notin> S"
    if "S = {SYS_SPAWN, SYS_KILL, SYS_GET_PID, SYS_EXIT, SYS_MMAP, SYS_MUNMAP, SYS_NET_SEND, SYS_NET_RECV, SYS_DIAGNOSTIC}" for S
    unfolding that by (simp add: SYS_SPAWN_def SYS_KILL_def SYS_GET_PID_def SYS_EXIT_def SYS_MMAP_def SYS_MUNMAP_def
        SYS_NET_SEND_def SYS_NET_RECV_def SYS_DIAGNOSTIC_def SYS_OS_ARCH_def SYS_OS_TYPE_def)
  ultimately show ?thesis by (cases "c = SYS_OS_ARCH"; cases "c = SYS_OS_TYPE") simp_all
qed

text \<open>A null pointer is found before the file system is asked.\<close>

lemma avfs_write_no_data:
  assumes "drives_on g av h" and "vol_path (drive_names av) pth = Inr rest" and "length pth = 2048"
    and "clean_data dat = None"
  shows "AVFS_write g rb wb pth dat av w = None"
proof -
  obtain nm where p: "pth = nm @ separator @ rest" "plain_name nm" "resolves g av nm h"
    by (rule vol_path_Inr [OF assms(1,2)])
  have l: "length (nm @ separator @ rest) = 2048" using assms(3) p(1) by simp
  obtain s i d dir where "findDrive (nm @ separator @ rest) = Some (Inr s)" "retrieveDrive av s = Some (Inr i)"
    "dyn_index (drives av) i = Some d" "drive_handle g av (BaseAdress_Get d) = Some h" "h \<noteq> InvalidHandle"
    "findPathAfterDrive (nm @ separator @ rest) = Inr dir"
    by (rule resolved [OF p(3,2) l])
  then show ?thesis unfolding AVFS_write_def p(1) using assms(4) by simp
qed

lemma file_ops_no_segments:
  assumes "is_mounted fs" and "length p = 2048" and "segments_of [] (cstr p) = []"
  shows "write_file rb wb fs p c off w = Some (InvalidPath, fs, w)"
    and "read_file rb fs p arg off mx w = Some (Inl InvalidPath, arg, w)"
proof -
  obtain segs where "chopPath p = Some (Inr segs)" "map str_abs segs = segments_of [] (cstr (take 2048 p))"
    by (rule chopPath_correct)
  then have "chopPath p = Some (Inr [])" using assms(2,3) by simp
  then show "write_file rb wb fs p c off w = Some (InvalidPath, fs, w)"
    "read_file rb fs p arg off mx w = Some (Inl InvalidPath, arg, w)"
    using assms(1) by (simp_all add: write_file_def read_file_def)
qed

section \<open>The calls on a device that works\<close>

context block_device
begin

lemma read_file_missing:
  assumes w: "dinv w" "good w" and lay: "fs_layout handle n (disk w) fs files" and p: "good_path p"
    and none: "map_of files (cstr p) = None"
  shows "\<exists>w'. read_file rb fs p arg off mx w = Some (Inl FileNotFound, arg, w') \<and> dinv w' \<and> good w' \<and> disk w' = disk w"
proof -
  have lp: "length p = 2048" using p by (simp add: good_path_def)
  have loc: "locate files 1 (cstr p) = None" using none by (simp add: locate_None_iff map_of_eq_None_iff)
  obtain w' where "fs_find rb fs p w = Some (None, w')" "dinv w'" "good w'" "disk w' = disk w"
    using fs_find_files [OF w(1) lay lp] loc w(2) by auto
  moreover obtain segs where "chopPath p = Some (Inr segs)" "segs \<noteq> []" by (rule chopPath_good [OF p])
  ultimately show ?thesis using layout_facts(1) [OF lay] by (simp add: read_file_def)
qed

definition serves :: "'w gaossd \<Rightarrow> bytes list \<Rightarrow> nat \<Rightarrow> (bytes \<rightharpoonup> bytes) \<Rightarrow> 's machine_state \<Rightarrow> bool" where
  "serves g names T m st \<longleftrightarrow> (\<exists>av fs. sx_avfs (ms_kernel st) = Some av \<and> drives_on g av handle \<and>
     drive_names av = names \<and> holds T m fs (ms_disk st))"

lemma holds_layout:
  assumes "holds T m fs w"
  obtains files where "dinv w" "good w" "fs_layout handle n (disk w) fs files" "map_of files = m"
  using assms by (auto simp: holds_def)

lemma holds_again:
  assumes "holds T m fs0 w" and "dinv w1" "good w1" "disk w1 = disk w"
    and "fs_layout handle n (disk w1) fs files" "map_of files = m"
  shows "holds T m fs w1"
proof -
  have "partition_header fs = decode_partition (disk w ! 0)" using assms(4,5) by (simp add: fs_layout_def Let_def)
  moreover have "partition_header fs0 = decode_partition (disk w ! 0)"
    using assms(1) by (auto simp: holds_def fs_layout_def Let_def)
  ultimately show ?thesis using assms by (auto simp: holds_def)
qed

lemma write_call_serves:
  assumes h: "holds T m fs0 w" and av: "drives_on g av handle"
    and vp: "vol_path (drive_names av) pth = Inr rest" and len: "length pth = 2048"
    and ok: "length (cstr rest) < 255" "write_fits (m (cstr rest)) 0 (length c)"
    and dat: "read_all (DynArr.data dat) [0..<size_field dat] = Some content" and c: "c = filter (\<lambda>b. b \<noteq> 0) content"
  shows "\<exists>fs' w'. (if segments_of [] (cstr rest) = []
      then AVFS_write g rb wb pth dat av w = Some (InvalidPath, w') \<and> holds T m fs' w'
      else AVFS_write g rb wb pth dat av w = Some (fst (vol_write T (cstr rest) 0 c m), w') \<and>
        holds T (snd (vol_write T (cstr rest) 0 c m)) fs' w')"
proof -
  obtain nm where p: "pth = nm @ separator @ rest" "plain_name nm" "resolves g av nm handle"
    by (rule vol_path_Inr [OF av vp])
  obtain files where lay: "dinv w" "good w" "fs_layout handle n (disk w) fs0 files" "map_of files = m"
    by (rule holds_layout [OF h])
  have l: "length (nm @ separator @ rest) = 2048" using len p(1) by simp
  obtain dir fs w1 where a: "length dir = 2048" "cstr dir = cstr rest" "dinv w1" "good w1" "disk w1 = disk w"
    "fs_layout handle n (disk w1) fs files"
    "AVFS_write g rb wb (nm @ separator @ rest) dat av w =
       map_option (\<lambda>(e, fs', w2). (e, w2)) (write_file rb wb fs dir (filter (\<lambda>b. b \<noteq> 0) content) 0 w1)"
    by (rule avfs_write_eq [OF block_device_axioms lay(1-3) p(3,2) l dat])
  have h1: "holds T m fs w1" by (rule holds_again [OF h a(3-6) lay(4)])
  show ?thesis
  proof (cases "segments_of [] (cstr rest) = []")
    case True
    then have n: "segments_of [] (cstr dir) = []" using a(2) by simp
    have "AVFS_write g rb wb pth dat av w = Some (InvalidPath, w1)"
      unfolding p(1) a(7) file_ops_no_segments(1) [OF layout_facts(1) [OF a(6)] a(1) n] by simp
    then show ?thesis using True h1 by auto
  next
    case False
    then have "good_path dir" using a(1,2) by (simp add: good_path_def)
    from write_is_volume_write [OF h1 this, of 0 c] ok a(2)
    obtain fs' w' where "write_file rb wb fs dir c 0 w1 = Some (fst (vol_write T (cstr rest) 0 c m), fs', w')"
      "holds T (snd (vol_write T (cstr rest) 0 c m)) fs' w'" by auto
    then show ?thesis using a(7) False by (auto simp: p(1) c)
  qed
qed

lemma read_call_serves:
  assumes h: "holds T m fs0 w" and av: "drives_on g av handle"
    and vp: "vol_path (drive_names av) pth = Inr rest" and len: "length pth = 2048"
    and none: "segments_of [] (cstr rest) \<noteq> [] \<longrightarrow> m (cstr rest) = None"
  shows "\<exists>fs' w'. AVFS_read g rb pth dat av w =
      Some (if segments_of [] (cstr rest) = [] then InvalidPath else FileNotFound, dat, w') \<and> holds T m fs' w'"
proof -
  obtain nm where p: "pth = nm @ separator @ rest" "plain_name nm" "resolves g av nm handle"
    by (rule vol_path_Inr [OF av vp])
  obtain files where lay: "dinv w" "good w" "fs_layout handle n (disk w) fs0 files" "map_of files = m"
    by (rule holds_layout [OF h])
  have l: "length (nm @ separator @ rest) = 2048" using len p(1) by simp
  obtain dir fs w1 where a: "length dir = 2048" "cstr dir = cstr rest" "dinv w1" "good w1" "disk w1 = disk w"
    "fs_layout handle n (disk w1) fs files"
    "AVFS_read g rb (nm @ separator @ rest) dat av w =
       map_option (\<lambda>(r, dat', w2). (case r of Inl e \<Rightarrow> e | Inr _ \<Rightarrow> Success, the dat', w2))
         (read_file rb fs dir (Some dat) 0 (of_nat (size_field dat)) w1)"
    by (rule avfs_read_eq [OF block_device_axioms lay(1-3) p(3,2) l])
  have h1: "holds T m fs w1" by (rule holds_again [OF h a(3-6) lay(4)])
  show ?thesis
  proof (cases "segments_of [] (cstr rest) = []")
    case True
    then have n: "segments_of [] (cstr dir) = []" using a(2) by simp
    have "AVFS_read g rb pth dat av w = Some (InvalidPath, dat, w1)"
      unfolding p(1) a(7) file_ops_no_segments(2) [OF layout_facts(1) [OF a(6)] a(1) n] by simp
    then show ?thesis using True h1 by auto
  next
    case False
    then have g: "good_path dir" "map_of files (cstr dir) = None"
      using a(1,2) none lay(4) by (simp_all add: good_path_def)
    from read_file_missing [OF a(3,4,6) g]
    obtain w' where r: "read_file rb fs dir (Some dat) 0 (of_nat (size_field dat)) w1 = Some (Inl FileNotFound, Some dat, w')"
      "dinv w'" "good w'" "disk w' = disk w1" by blast
    have "holds T m fs w'" using holds_again [OF h1 r(2-4)] a(6) r(4) lay(4) by simp
    then show ?thesis using a(7) r(1) False by (auto simp: p(1))
  qed
qed

lemma exists_call_serves:
  assumes av: "drives_on g av handle" and vp: "vol_path (drive_names av) pth = Inr rest" and len: "length pth = 2048"
  shows "AVFS_exists pth av = Some Success"
proof -
  obtain nm where p: "pth = nm @ separator @ rest" "plain_name nm" "resolves g av nm handle"
    by (rule vol_path_Inr [OF av vp])
  show ?thesis using exists_ignores_file [OF p(3,2)] len by (simp add: p(1))
qed

lemma mount_call_serves:
  assumes h: "holds T m fs0 w" and av: "drives_on g av handle"
    and vp: "vol_path (drive_names av) pth = Inr rest" and len: "length pth = 2048"
  shows "\<exists>av' fs' w'. AVFS_mount g rb pth av w = Some (Success, av', w') \<and> drives_on g av' handle \<and>
    drive_names av' = drive_names av \<and> holds T m fs' w'"
proof -
  obtain nm where p: "pth = nm @ separator @ rest" "plain_name nm" "resolves g av nm handle"
    by (rule vol_path_Inr [OF av vp])
  obtain files where lay: "dinv w" "good w" "fs_layout handle n (disk w) fs0 files" "map_of files = m"
    by (rule holds_layout [OF h])
  have l: "length (nm @ separator @ rest) = 2048" using len p(1) by simp
  obtain av' w' where a: "AVFS_mount g rb (nm @ separator @ rest) av w = Some (Success, av', w')"
    "dinv w'" "good w'" "disk w' = disk w" "same_drives av av'"
    by (rule avfs_mount_same [OF block_device_axioms lay(1-3) p(3,2) l])
  have "holds T m fs0 w'" using holds_again [OF h a(2-4)] lay(3,4) a(4) by simp
  then show ?thesis using a(1,5) drives_on_same [OF av a(5)] by (auto simp: p(1) same_drives_def)
qed

lemma dismount_call_serves:
  assumes av: "drives_on g av handle"
    and vp: "vol_path (drive_names av) pth = Inr rest" and len: "length pth = 2048"
  shows "\<exists>av'. AVFS_dismount pth av = Some (Success, av') \<and> drives_on g av' handle \<and> drive_names av' = drive_names av"
proof -
  obtain nm where p: "pth = nm @ separator @ rest" "plain_name nm" "resolves g av nm handle"
    by (rule vol_path_Inr [OF av vp])
  have l: "length (nm @ separator @ rest) = 2048" using len p(1) by simp
  obtain av' where a: "AVFS_dismount (nm @ separator @ rest) av = Some (Success, av')" "same_drives av av'"
    by (rule avfs_dismount_same [OF p(3,2) l])
  show ?thesis using a drives_on_same [OF av a(2)] by (auto simp: p(1) same_drives_def)
qed

text \<open>One call.\<close>

lemma bad_path_served:
  assumes s: "serves g names T m st" and c: "c \<in> {SYS_WRITE, SYS_READ, SYS_EXISTS, SYS_MOUNT, SYS_DISMOUNT}"
    and vp: "vol_path names (path_at mm a1) = Inl e"
  shows "\<exists>st'. syscall g rb wb arch os c a1 a2 a3 (st\<lparr>ms_mem := mm\<rparr>) = Some st' \<and>
    Rcx st' = Some (errorCode_value e) \<and> serves g names T m st'"
proof -
  obtain av fs where a: "sx_avfs (ms_kernel st) = Some av" "drives_on g av handle" "drive_names av = names"
    "holds T m fs (ms_disk st)"
    using s by (auto simp: serves_def)
  have inv: "avfs_inv av" using a(2) by (simp add: drives_on_def)
  note calls = bad_path_calls [OF inv vp [folded a(3)]]
  have sv: "serves g names T m st'" if "sx_avfs (ms_kernel st') = Some av" "ms_disk st' = ms_disk st" for st'
    using a that by (auto simp: serves_def)
  show ?thesis
    using c by (elim insertE emptyE)
      (simp_all add: syscall_def sys_numbers sys_calls getAVFSInstance_def Rcx_def a(1) calls sv)
qed

lemma write_served:
  assumes s: "serves g names T m st" and vp: "vol_path names (path_at mm a1) = Inr rest"
    and ok: "length (cstr rest) < 255"
      "write_fits (m (cstr rest)) 0 (length (filter (\<lambda>b. b \<noteq> 0) (mem_bytes mm a2 (unat a3))))"
  shows "case vol_file_call T mm SYS_WRITE a2 a3 rest m of
      None \<Rightarrow> sys_write g rb wb a1 a2 a3 (st\<lparr>ms_mem := mm\<rparr>) = None
    | Some (e, m') \<Rightarrow> \<exists>st'. sys_write g rb wb a1 a2 a3 (st\<lparr>ms_mem := mm\<rparr>) = Some st' \<and>
        Rcx st' = Some (errorCode_value e) \<and> serves g names T m' st'"
proof -
  obtain av fs where a: "sx_avfs (ms_kernel st) = Some av" "drives_on g av handle" "drive_names av = names"
    "holds T m fs (ms_disk st)"
    using s by (auto simp: serves_def)
  let ?pth = "path_at mm a1"
  have len: "length ?pth = 2048" by (simp add: path_at_def)
  note vp = vp [folded a(3)]
  show ?thesis
  proof (cases "a2 = 0 \<and> a3 \<noteq> 0")
    case True
    then have "clean_data (view_at mm a2 a3) = None"
      using view_at_null [of a3 mm] by (simp add: clean_data_def bind_eq_None_conv)
    then have "AVFS_write g rb wb ?pth (view_at mm a2 a3) av (ms_disk st) = None"
      by (rule avfs_write_no_data [OF a(2) vp len])
    then show ?thesis using a(1) True by (simp add: vol_file_call_def sys_write_def getAVFSInstance_def)
  next
    case False
    then have dat: "read_all (DynArr.data (view_at mm a2 a3)) [0..<size_field (view_at mm a2 a3)] =
        Some (mem_bytes mm a2 (unat a3))" by (intro view_at_read) auto
    from write_call_serves [OF a(4,2) vp len ok dat refl]
    show ?thesis using False a
      by (auto simp: vol_file_call_def sys_write_def getAVFSInstance_def Rcx_def serves_def case_prod_unfold
          split: if_split_asm)
  qed
qed

lemma read_served:
  assumes s: "serves g names T m st" and vp: "vol_path names (path_at mm a1) = Inr rest" and ok: "a2 \<noteq> 0"
  shows "case vol_file_call T mm SYS_READ a2 a3 rest m of
      None \<Rightarrow> sys_read g rb a1 a2 a3 (st\<lparr>ms_mem := mm\<rparr>) = None
    | Some (e, m') \<Rightarrow> \<exists>st'. sys_read g rb a1 a2 a3 (st\<lparr>ms_mem := mm\<rparr>) = Some st' \<and>
        Rcx st' = Some (errorCode_value e) \<and> serves g names T m' st'"
proof -
  obtain av fs where a: "sx_avfs (ms_kernel st) = Some av" "drives_on g av handle" "drive_names av = names"
    "holds T m fs (ms_disk st)"
    using s by (auto simp: serves_def)
  let ?pth = "path_at mm a1"
  have len: "length ?pth = 2048" by (simp add: path_at_def)
  note vp = vp [folded a(3)]
  show ?thesis
  proof (cases "segments_of [] (cstr rest) = [] \<or> m (cstr rest) = None")
    case True
    from True read_call_serves [OF a(4,2) vp len, of "view_at mm a2 a3"]
    show ?thesis using a
      by (auto simp: vol_file_call_def sys_read_def getAVFSInstance_def Rcx_def serves_def sys_numbers) blast+
  next
    case False
    then obtain content where f: "m (cstr rest) = Some content" "segments_of [] (cstr rest) \<noteq> []" by auto
    obtain files where lay: "dinv (ms_disk st)" "good (ms_disk st)" "fs_layout handle n (disk (ms_disk st)) fs files"
      "map_of files = m"
      by (rule holds_layout [OF a(4)])
    obtain nm where p: "?pth = nm @ separator @ rest" "plain_name nm" "resolves g av nm handle"
      by (rule vol_path_Inr [OF a(2) vp])
    let ?st = "st\<lparr>ms_mem := mm\<rparr>"
    have st: "dinv (ms_disk ?st)" "good (ms_disk ?st)" "fs_layout handle n (disk (ms_disk ?st)) fs files"
      "sx_avfs (ms_kernel ?st) = Some av" "path_at (ms_mem ?st) a1 = nm @ separator @ rest"
      using lay a(1) p(1) by simp_all
    have "map_of files (cstr rest) = Some content" using lay(4) f(1) by simp
    then have "sys_read g rb a1 a2 a3 ?st = None"
      by (rule sys_read_undefined [OF block_device_axioms st(1-4) p(3,2) st(5) f(2) _ ok])
    then show ?thesis using f by (simp add: vol_file_call_def sys_numbers)
  qed
qed

lemma other_served:
  assumes s: "serves g names T m st" and vp: "vol_path names (path_at mm a1) = Inr rest"
  shows "\<exists>st'. sys_exists a1 (st\<lparr>ms_mem := mm\<rparr>) = Some st' \<and> Rcx st' = Some (errorCode_value Success) \<and> serves g names T m st'"
    and "\<exists>st'. sys_mount g rb a1 (st\<lparr>ms_mem := mm\<rparr>) = Some st' \<and> Rcx st' = Some (errorCode_value Success) \<and> serves g names T m st'"
    and "\<exists>st'. sys_dismount a1 (st\<lparr>ms_mem := mm\<rparr>) = Some st' \<and> Rcx st' = Some (errorCode_value Success) \<and> serves g names T m st'"
proof -
  obtain av fs where a: "sx_avfs (ms_kernel st) = Some av" "drives_on g av handle" "drive_names av = names"
    "holds T m fs (ms_disk st)"
    using s by (auto simp: serves_def)
  have len: "length (path_at mm a1) = 2048" by (simp add: path_at_def)
  note vp = vp [folded a(3)]
  note unf = getAVFSInstance_def Rcx_def serves_def
  show "\<exists>st'. sys_exists a1 (st\<lparr>ms_mem := mm\<rparr>) = Some st' \<and> Rcx st' = Some (errorCode_value Success) \<and> serves g names T m st'"
    using exists_call_serves [OF a(2) vp len] a by (auto simp: sys_exists_def unf)
  show "\<exists>st'. sys_mount g rb a1 (st\<lparr>ms_mem := mm\<rparr>) = Some st' \<and> Rcx st' = Some (errorCode_value Success) \<and> serves g names T m st'"
    using mount_call_serves [OF a(4,2) vp len] a(1,3) by (auto simp: sys_mount_def unf)
  show "\<exists>st'. sys_dismount a1 (st\<lparr>ms_mem := mm\<rparr>) = Some st' \<and> Rcx st' = Some (errorCode_value Success) \<and> serves g names T m st'"
    using dismount_call_serves [OF a(2) vp len] a(1,3,4) by (auto simp: sys_dismount_def unf)
qed

lemma syscall_serves:
  assumes s: "serves g names T m st" and ok: "sys_ok names (mm, c, a1, a2, a3) m"
  shows "case vol_sys T names arch os (mm, c, a1, a2, a3) m of
      None \<Rightarrow> syscall g rb wb arch os c a1 a2 a3 (st\<lparr>ms_mem := mm\<rparr>) = None
    | Some (r, m') \<Rightarrow> \<exists>st'. syscall g rb wb arch os c a1 a2 a3 (st\<lparr>ms_mem := mm\<rparr>) = Some st' \<and>
        Rcx st' = r \<and> serves g names T m' st'"
proof (cases "c \<in> {SYS_WRITE, SYS_READ, SYS_EXISTS, SYS_MOUNT, SYS_DISMOUNT}")
  case True
  show ?thesis
  proof (cases "vol_path names (path_at mm a1)")
    case (Inl e)
    then show ?thesis using bad_path_served [OF s True Inl] True by (simp add: vol_sys_def)
  next
    case (Inr rest)
    have v: "vol_sys T names arch os (mm, c, a1, a2, a3) m =
        map_option (\<lambda>(e, m'). (Some (errorCode_value e), m')) (vol_file_call T mm c a2 a3 rest m)"
      using True Inr by (simp add: vol_sys_def)
    show ?thesis using True
    proof (elim insertE emptyE)
      assume c: "c = SYS_WRITE"
      have "length (cstr rest) < 255"
        "write_fits (m (cstr rest)) 0 (length (filter (\<lambda>b. b \<noteq> 0) (mem_bytes mm a2 (unat a3))))"
        using ok c Inr by (simp_all add: sys_ok_def)
      from write_served [OF s Inr this] show ?thesis
        unfolding v unfolding c by (auto simp: syscall_def split: option.splits)
    next
      assume c: "c = SYS_READ"
      have "a2 \<noteq> 0" using ok c Inr by (simp add: sys_ok_def)
      from read_served [OF s Inr this, of a3] show ?thesis
        unfolding v unfolding c by (auto simp: syscall_def sys_numbers split: option.splits)
    next
      assume c: "c = SYS_EXISTS"
      show ?thesis using other_served(1) [OF s Inr] unfolding v unfolding c by (simp add: syscall_def sys_numbers vol_file_call_def)
    next
      assume c: "c = SYS_MOUNT"
      show ?thesis using other_served(2) [OF s Inr] unfolding v unfolding c by (simp add: syscall_def sys_numbers vol_file_call_def)
    next
      assume c: "c = SYS_DISMOUNT"
      show ?thesis using other_served(3) [OF s Inr] unfolding v unfolding c by (simp add: syscall_def sys_numbers vol_file_call_def)
    qed
  qed
next
  case False
  have sv: "serves g names T m st'" if "ms_kernel st' = ms_kernel st" "ms_disk st' = ms_disk st" for st'
    using s that by (auto simp: serves_def)
  show ?thesis
    unfolding other_syscall [OF False] using False sv by (simp add: vol_sys_def Rcx_def rcx_unknown_def)
qed

lemma session_serves:
  assumes "serves g names T m st" and "sys_session_ok T names arch os ops m"
  shows "case vol_sys_session T names arch os ops m of
      None \<Rightarrow> sys_session g rb wb arch os ops st = None
    | Some (rs, m') \<Rightarrow> \<exists>st'. sys_session g rb wb arch os ops st = Some (rs, st') \<and> serves g names T m' st'"
  using assms
proof (induction ops arbitrary: m st)
  case Nil
  then show ?case by simp
next
  case (Cons x ops)
  obtain mm c a1 a2 a3 where x: "x = (mm, c, a1, a2, a3)" by (cases x)
  have ok: "sys_ok names (mm, c, a1, a2, a3) m" using Cons.prems(2) by (simp add: x)
  note one = syscall_serves [OF Cons.prems(1) ok, of arch os]
  show ?case
  proof (cases "vol_sys T names arch os x m")
    case None
    then show ?thesis using one by (simp add: x)
  next
    case (Some s1)
    obtain r m1 where s1: "s1 = (r, m1)" by (cases s1)
    obtain st1 where st1: "syscall g rb wb arch os c a1 a2 a3 (st\<lparr>ms_mem := mm\<rparr>) = Some st1" "Rcx st1 = r"
      "serves g names T m1 st1"
      using one Some by (auto simp: x s1)
    have "sys_session_ok T names arch os ops m1" using Cons.prems(2) Some s1 st1(2) by simp
    from Cons.IH [OF st1(3) this] show ?thesis
      using Some st1(1,2) by (auto simp: x s1 split: option.splits)
  qed
qed

end

section \<open>Every sequence of calls\<close>

text \<open>C2: Programs that use the file calls get a volume. The device works, all drives of the table are on it, and the program
  keeps to three rules: the paths it writes to have at most 254 characters, a write to an old file stays inside the
  blocks the file has, and no read goes to a null pointer. Then a sequence of system calls is undefined
  exactly if, on a map from paths to contents, it comes to read a file that exists or to write from a null pointer.
  Otherwise every answer left in \<^verbatim>\<open>rcx\<close> is the one of the map: written data lose their zero bytes, a
  query answers for the drive and not for the file, a malformed path, an unknown drive, a path without
  segments and a full disk give their errors and change nothing, and the calls that do nothing leave no answer.
  At the end the disk holds the files of the map.\<close>

theorem system_calls_refine:
  assumes dev: "block_device rb wb h n disk dinv good" and w: "dinv (ms_disk st)" "good (ms_disk st)"
    and lay: "fs_layout h n (disk (ms_disk st)) fs files"
    and av: "sx_avfs (ms_kernel st) = Some av" "drives_on g av h"
    and ok: "sys_session_ok (unat (total_blocks (partition_header fs))) (drive_names av) arch os ops (map_of files)"
  shows "case vol_sys_session (unat (total_blocks (partition_header fs))) (drive_names av) arch os ops (map_of files) of
      None \<Rightarrow> sys_session g rb wb arch os ops st = None
    | Some (rs, m) \<Rightarrow> \<exists>st' fs' files'. sys_session g rb wb arch os ops st = Some (rs, st') \<and>
        dinv (ms_disk st') \<and> good (ms_disk st') \<and> fs_layout h n (disk (ms_disk st')) fs' files' \<and> map_of files' = m"
proof -
  let ?T = "unat (total_blocks (partition_header fs))"
  note defs = block_device.serves_def [OF dev] block_device.holds_def [OF dev]
  have "block_device.serves h n disk dinv good g (drive_names av) ?T (map_of files) st"
    using w lay av by (auto simp: defs)
  from block_device.session_serves [OF dev this ok] show ?thesis
    by (auto simp: defs split: option.splits)
qed

text \<open>A program with a path at address 0x1000 and data at address 0x8000.\<close>

definition prog_mem :: "bytes \<Rightarrow> bytes \<Rightarrow> memory" where
  "prog_mem p d a =
     (if 0x8000 \<le> a then (if unat (a - 0x8000) < length d then d ! unat (a - 0x8000) else 0)
      else if 0x1000 \<le> a then p ! unat (a - 0x1000) else 0)"

definition drive_path :: "byte \<Rightarrow> bytes \<Rightarrow> bytes" where
  "drive_path d cs = [d] @ separator @ cs @ replicate (2044 - length cs) 0"

lemma prog_mem_path: "length p = 2048 \<Longrightarrow> path_at (prog_mem p d) 0x1000 = p"
proof (rule nth_equalityI)
  assume l: "length p = 2048"
  then show "length (path_at (prog_mem p d) 0x1000) = length p" by (simp add: path_at_def)
  fix i assume "i < length (path_at (prog_mem p d) 0x1000)"
  then have i: "i < 2048" by (simp add: path_at_def)
  have "unat (0x1000 + of_nat i :: u64) = 0x1000 + i" using i by (simp add: unat_word_ariths unat_of_nat)
  then have "\<not> (0x8000 :: u64) \<le> 0x1000 + of_nat i" "(0x1000 :: u64) \<le> 0x1000 + of_nat i"
    using i by (simp_all add: word_le_nat_alt)
  moreover have "unat (of_nat i :: u64) = i" using i by (simp add: unat_of_nat)
  ultimately show "path_at (prog_mem p d) 0x1000 ! i = p ! i"
    using i l by (simp add: path_at_def mem_bytes_def prog_mem_def)
qed

lemma prog_mem_data: "length d < 2048 \<Longrightarrow> mem_bytes (prog_mem p d) 0x8000 (length d) = d"
proof (rule nth_equalityI)
  assume l: "length d < 2048"
  fix i assume "i < length (mem_bytes (prog_mem p d) 0x8000 (length d))"
  then have i: "i < length d" by simp
  have "unat (0x8000 + of_nat i :: u64) = 0x8000 + i" using i l by (simp add: unat_word_ariths unat_of_nat)
  then have "(0x8000 :: u64) \<le> 0x8000 + of_nat i" by (simp add: word_le_nat_alt)
  moreover have "unat (of_nat i :: u64) = i" using i l by (simp add: unat_of_nat)
  ultimately show "mem_bytes (prog_mem p d) 0x8000 (length d) ! i = d ! i"
    using i by (simp add: mem_bytes_def prog_mem_def)
qed simp

text \<open>A sequence: the file is written, asked for on a drive that is there, and another one is not read. A path of
  zero bytes, a drive that is not there, a mount, an operating system question. Reading the file after
  that is undefined.\<close>

definition path_on :: "byte \<Rightarrow> byte \<Rightarrow> memory" where
  "path_on d c = prog_mem (drive_path d [47, c]) [1, 0, 2]"

definition sample_calls :: "sys_op list" where
  "sample_calls =
     [(path_on 65 65, SYS_WRITE, 0x1000, 0x8000, 3), (path_on 65 66, SYS_EXISTS, 0x1000, 0, 0),
      (path_on 65 66, SYS_READ, 0x1000, 0x8000, 16), (prog_mem (replicate 2048 0) [], SYS_WRITE, 0x1000, 0x8000, 3),
      (path_on 67 65, SYS_DISMOUNT, 0x1000, 0, 0), (path_on 65 65, SYS_MOUNT, 0x1000, 0, 0),
      (path_on 65 65, SYS_OS_TYPE, 0x1000, 0, 0), (path_on 65 65, SYS_KILL, 0x1000, 0, 0)]"

definition read_back :: sys_op where
  "read_back = (path_on 65 65, SYS_READ, 0x1000, 0x8000, 3)"

lemma cstr_rest: "c \<noteq> 0 \<Longrightarrow> cstr (47 # c # replicate 2042 0) = [47, c]"
proof -
  assume c: "c \<noteq> 0"
  have "[47, c] @ replicate 2042 0 = [47, c] @ 0 # replicate 2041 0" by (simp flip: replicate_Suc)
  then have "cstr ([47, c] @ replicate 2042 0) = cstr ([47, c] @ 0 # replicate 2041 0)" by (rule arg_cong)
  also have "\<dots> = [47, c]" using c by (intro cstr_terminated) simp
  finally show "cstr (47 # c # replicate 2042 0) = [47, c]" by simp
qed

lemma drive_path_facts:
  assumes "d \<noteq> 0" "d \<noteq> 58" "d \<noteq> 32" "c \<noteq> 0"
  shows "path_at (path_on d c) 0x1000 = drive_path d [47, c]"
    and "mem_bytes (path_on d c) 0x8000 3 = [1, 0, 2]"
    and "vol_path [[65]] (drive_path d [47, c]) = (if d = 65 then Inr (47 # c # replicate 2042 0) else Inl NotFound)"
proof -
  have l: "length (drive_path d [47, c]) = 2048" by (simp add: drive_path_def)
  show "path_at (path_on d c) 0x1000 = drive_path d [47, c]" unfolding path_on_def by (rule prog_mem_path [OF l])
  have "mem_bytes (path_on d c) 0x8000 (length [1, 0, 2 :: byte]) = [1, 0, 2]"
    unfolding path_on_def by (rule prog_mem_data) simp
  then show "mem_bytes (path_on d c) 0x8000 3 = [1, 0, 2]" by (simp add: numeral_3_eq_3)
  have "split_path (drive_path d [47, c]) = Some ([d], 47 # c # replicate 2042 0)"
    using assms by (simp add: split_path_def drive_path_def starts_slashes_def Let_def numeral_3_eq_3)
  moreover have "trim_name [d] = [d]" using assms by (simp add: trim_name_def)
  ultimately show "vol_path [[65]] (drive_path d [47, c]) =
      (if d = 65 then Inr (47 # c # replicate 2042 0) else Inl NotFound)" by (simp add: vol_path_def)
qed

lemma zero_path: "path_at (prog_mem (replicate 2048 0) []) 0x1000 = replicate 2048 0"
    "vol_path [[65]] (replicate 2048 0) = Inl Generic_Error"
  by (rule prog_mem_path) (simp_all add: vol_path_def split_path_def Let_def dropWhile_replicate)

lemma sample_calls_volume:
  fixes os :: u64
  defines "rs \<equiv> map (Some \<circ> errorCode_value) [Success, Success, FileNotFound, Generic_Error, NotFound, Success] @ [Some os, None]"
  shows "vol_sys_session 204800 [[65]] arch os sample_calls Map.empty = Some (rs, [[47, 65] \<mapsto> [1, 2]])"
    and "vol_sys_session 204800 [[65]] arch os (sample_calls @ [read_back]) Map.empty = None"
    and "sys_session_ok 204800 [[65]] arch os sample_calls Map.empty"
    and "sys_session_ok 204800 [[65]] arch os (sample_calls @ [read_back]) Map.empty"
  unfolding rs_def sample_calls_def read_back_def
  by (simp_all add: vol_sys_def vol_file_call_def vol_write_def sys_ok_def sys_numbers SYS_KILL_def drive_path_facts cstr_rest zero_path
      room_def blocks_of_def written_def overlay_def write_fits_def segments_of_Nil_iff)

definition fresh_machine :: "ref_disk \<Rightarrow> ref_disk machine_state" where
  "fresh_machine w = \<lparr>ms_kernel = SystemX_init\<lparr>sx_avfs := Some avfs_A\<rparr>, ms_disk = w, ms_mem = (\<lambda>a. 0),
     ms_rax = 0, ms_rcx = None\<rparr>"

lemma avfs_A_on: "drives_on one_device avfs_A 0" "drive_names avfs_A = [[65]]"
proof -
  have "drv_base_address drive_A = 0" by (simp add: drive_A_def drive_init_def)
  then show "drives_on one_device avfs_A 0"
    using avfs_A_resolves avfs_A_inv one_device_handle by (simp add: drives_on_def resolves_def avfs_A_drives)
  show "drive_names avfs_A = [[65]]" by (simp add: drive_names_def avfs_A_drives drive_A_name)
qed

theorem system_calls_refine_witness:
  "\<exists>w st' fs' files'.
     sys_session one_device ref_read ref_write 0 7 sample_calls (fresh_machine w) = Some
       (map (Some \<circ> errorCode_value) [Success, Success, FileNotFound, Generic_Error, NotFound, Success] @ [Some 7, None], st') \<and>
     fs_layout 0 204800 (ref_blocks (ms_disk st')) fs' files' \<and> map_of files' = [[47, 65] \<mapsto> [1, 2]] \<and>
     sys_session one_device ref_read ref_write 0 7 (sample_calls @ [read_back]) (fresh_machine w) = None"
proof -
  obtain fs w where f: "format ref_write 0 0 0 AbtrFS_init blank_disk = Some (True, fs, w)"
    "ref_inv w" "ref_good w" "fs_layout 0 204800 (ref_blocks w) fs []"
    by (rule formatted_ref)
  have T: "unat (total_blocks (partition_header fs)) = 204800" by (rule format_total [OF f(1)])
  have st: "ref_inv (ms_disk (fresh_machine w))" "ref_good (ms_disk (fresh_machine w))"
    "fs_layout 0 204800 (ref_blocks (ms_disk (fresh_machine w))) fs []"
    "sx_avfs (ms_kernel (fresh_machine w)) = Some avfs_A"
    using f by (simp_all add: fresh_machine_def)
  note use = system_calls_refine [OF ref.block_device_axioms st(1-4) avfs_A_on(1), unfolded T avfs_A_on(2) map_of.simps(1)]
  from use [OF sample_calls_volume(3), of 0 7] use [OF sample_calls_volume(4), of 0 7]
  show ?thesis unfolding sample_calls_volume(1,2) by auto
qed

end
