(* ===== verification/LimineDisk.thy ===== *)
theory LimineDisk
  imports Prelude
begin

text \<open>
  How the installer of the boot loader (\<^verbatim>\<open>lib/limine/limine.c\<close>) reaches a disk: a cache of one block over
  a stdio stream, and a journal of everything it overwrites, from which an installation is undone. The
  streams of the C library are a parameter, with their laws in the locale \<open>disk_file\<close>. Messages to the
  standard error stream are left out.
\<close>

section \<open>Streams\<close>

text \<open>\<^verbatim>\<open>fseek\<close> from the start and from the current position, \<^verbatim>\<open>rewind\<close>, \<^verbatim>\<open>fread\<close> and \<^verbatim>\<open>fwrite\<close> of one object. \<^verbatim>\<open>fread\<close>
  gives the bytes it stored: as many as were asked for when it returns 1, fewer when it returns 0. \<open>malloc_ok\<close>
  tells whether memory is to be had, \<open>LONG_MAX\<close> how wide a file position can be.\<close>

record 'f stdio =
  fseek_set :: "u64 \<Rightarrow> 'f \<Rightarrow> bool \<times> 'f"
  fseek_cur :: "u64 \<Rightarrow> 'f \<Rightarrow> bool \<times> 'f"
  rewind_file :: "'f \<Rightarrow> 'f"
  fread_bytes :: "nat \<Rightarrow> 'f \<Rightarrow> bytes \<times> 'f"
  fwrite_bytes :: "bytes \<Rightarrow> 'f \<Rightarrow> bool \<times> 'f"
  malloc_ok :: "'f \<Rightarrow> nat \<Rightarrow> bool"
  LONG_MAX :: nat

fun seek_jumps :: "'f stdio \<Rightarrow> nat \<Rightarrow> u64 \<Rightarrow> 'f \<Rightarrow> bool \<times> 'f" where
  "seek_jumps io 0 jump f = (True, f)"
| "seek_jumps io (Suc n) jump f =
     (case fseek_cur io jump f of (ok, f') \<Rightarrow> if ok then seek_jumps io n jump f' else (False, f'))"

definition set_pos :: "'f stdio \<Rightarrow> u64 \<Rightarrow> 'f \<Rightarrow> bool \<times> 'f" where
  "set_pos io pos f =
    (if 2 ^ 63 - 1 \<le> LONG_MAX io then fseek_set io pos f
     else (let jump_size = LONG_MAX io div 2 + 1;
               last_jump = unat pos mod jump_size;
               jumps = unat pos div jump_size
           in case seek_jumps io jumps (of_nat jump_size) (rewind_file io f) of (ok, f') \<Rightarrow>
                if ok then fseek_cur io (of_nat last_jump) f' else (False, f')))"

section \<open>Arithmetic that is checked\<close>

definition mul_u64_overflow :: "u64 \<Rightarrow> u64 \<Rightarrow> bool \<times> u64" where
  "mul_u64_overflow a b = (a \<noteq> 0 \<and> - 1 div a < b, a * b)"

definition add_u64_overflow :: "u64 \<Rightarrow> u64 \<Rightarrow> bool \<times> u64" where
  "add_u64_overflow a b = (- 1 - b < a, a + b)"

section \<open>The cache of one block\<close>

datatype cache_state = CACHE_CLEAN | CACHE_DIRTY

text \<open>An entry of the journal: what was at \<open>ud_loc\<close>; its count is the length of the data.\<close>

record uninstall_data =
  ud_data :: bytes
  ud_loc :: u64

text \<open>The static variables of the tool.\<close>

record 'f tool =
  device :: 'f
  cache :: bytes
  cache_state :: cache_state
  cached_block :: u64
  block_size :: nat
  uninstalling :: bool
  undo :: "uninstall_data list"

definition tool_init :: "'f \<Rightarrow> 'f tool" where
  "tool_init f = \<lparr>device = f, cache = [], cache_state = CACHE_CLEAN, cached_block = 0, block_size = 0,
     uninstalling = False, undo = []\<rparr>"

definition UNINSTALL_DATA_MAX :: nat where "UNINSTALL_DATA_MAX = 256"

text \<open>The block size is the first guess that can be read.\<close>

fun guess_loop :: "'f stdio \<Rightarrow> nat list \<Rightarrow> 'f tool \<Rightarrow> bool \<times> 'f tool" where
  "guess_loop io [] st = (False, st)"
| "guess_loop io (g # gs) st =
     (if \<not> malloc_ok io (device st) g then (False, st)
      else (case fread_bytes io g (rewind_file io (device st)) of (xs, f) \<Rightarrow>
        let st1 = st\<lparr>device := f, cache := xs @ drop (length xs) (cache st)\<rparr> in
        if length xs \<noteq> g then guess_loop io gs st1
        else (True, st1\<lparr>cache := xs, block_size := g, cache_state := CACHE_CLEAN, cached_block := 0\<rparr>)))"

definition device_init :: "'f stdio \<Rightarrow> 'f tool \<Rightarrow> bool \<times> 'f tool" where
  "device_init io st = guess_loop io [512, 2048, 4096] st"

definition device_flush_cache :: "'f stdio \<Rightarrow> 'f tool \<Rightarrow> bool \<times> 'f tool" where
  "device_flush_cache io st =
    (if cache_state st = CACHE_CLEAN then (True, st)
     else case set_pos io (cached_block st * of_nat (block_size st)) (device st) of (ok, f) \<Rightarrow>
       if \<not> ok then (False, st\<lparr>device := f\<rparr>)
       else case fwrite_bytes io (cache st) f of (ok, f') \<Rightarrow>
         if \<not> ok then (False, st\<lparr>device := f'\<rparr>)
         else (True, st\<lparr>device := f', cache_state := CACHE_CLEAN\<rparr>))"

text \<open>A short read has already overwritten the start of the cache when it is noticed.\<close>

definition device_cache_block :: "'f stdio \<Rightarrow> u64 \<Rightarrow> 'f tool \<Rightarrow> bool \<times> 'f tool" where
  "device_cache_block io block st =
    (if cached_block st = block then (True, st)
     else case (if cache_state st = CACHE_DIRTY then device_flush_cache io st else (True, st)) of (ok, st1) \<Rightarrow>
       if \<not> ok then (False, st1)
       else case set_pos io (block * of_nat (block_size st1)) (device st1) of (ok, f) \<Rightarrow>
         if \<not> ok then (False, st1\<lparr>device := f\<rparr>)
         else case fread_bytes io (block_size st1) f of (xs, f') \<Rightarrow>
           let st2 = st1\<lparr>device := f', cache := xs @ drop (length xs) (cache st1)\<rparr> in
           if length xs \<noteq> block_size st1 then (False, st2)
           else (True, st2\<lparr>cached_block := block\<rparr>))"

section \<open>Reading and writing\<close>

text \<open>The loops of \<^verbatim>\<open>_device_read\<close> and \<^verbatim>\<open>_device_write\<close>. \<^verbatim>\<open>device_init\<close> never leaves a block size of 0, by
  which the code would divide.\<close>

lemma chunk_progress:
  assumes "\<not> n \<le> progress" and "0 < (b :: nat)"
  shows "n - (progress + min (n - progress) (b - a mod b)) < n - progress"
proof -
  have "0 < b - a mod b" using assms(2) by simp
  then have "0 < min (n - progress) (b - a mod b)" using assms(1) by simp
  then show ?thesis using assms(1) by simp
qed

function read_loop :: "'f stdio \<Rightarrow> u64 \<Rightarrow> nat \<Rightarrow> nat \<Rightarrow> bytes \<Rightarrow> 'f tool \<Rightarrow> bytes option \<times> 'f tool" where
  "read_loop io loc count progress buffer st =
    (if count \<le> progress \<or> block_size st = 0 then (if count \<le> progress then Some buffer else None, st)
     else (let at = unat (loc + of_nat progress) in
       case device_cache_block io (of_nat (at div block_size st)) st of (ok, st1) \<Rightarrow>
         if \<not> ok then (None, st1)
         else (let offset = at mod block_size st; chunk = min (count - progress) (block_size st - offset) in
           read_loop io loc count (progress + chunk) (buffer @ take chunk (drop offset (cache st1))) st1)))"
  by pat_completeness auto
termination
  by (relation "measure (\<lambda>(io, loc, count, progress, buffer, st). count - progress)") (auto simp: chunk_progress)

definition device_read :: "'f stdio \<Rightarrow> u64 \<Rightarrow> nat \<Rightarrow> 'f tool \<Rightarrow> bytes option \<times> 'f tool" where
  "device_read io loc count st = read_loop io loc count 0 [] st"

function write_loop :: "'f stdio \<Rightarrow> u64 \<Rightarrow> bytes \<Rightarrow> nat \<Rightarrow> 'f tool \<Rightarrow> bool \<times> 'f tool" where
  "write_loop io loc dat progress st =
    (if length dat \<le> progress \<or> block_size st = 0 then (length dat \<le> progress, st)
     else (let at = unat (loc + of_nat progress) in
       case device_cache_block io (of_nat (at div block_size st)) st of (ok, st1) \<Rightarrow>
         if \<not> ok then (False, st1)
         else (let offset = at mod block_size st; chunk = min (length dat - progress) (block_size st - offset) in
           write_loop io loc dat (progress + chunk)
             (st1\<lparr>cache := take offset (cache st1) @ take chunk (drop progress dat) @ drop (offset + chunk) (cache st1),
                  cache_state := CACHE_DIRTY\<rparr>))))"
  by pat_completeness auto
termination
  by (relation "measure (\<lambda>(io, loc, dat, progress, st). length dat - progress)") (auto simp: chunk_progress)

definition device_write :: "'f stdio \<Rightarrow> bytes \<Rightarrow> u64 \<Rightarrow> 'f tool \<Rightarrow> bool \<times> 'f tool" where
  "device_write io dat loc st =
    (if uninstalling st then write_loop io loc dat 0 st
     else if UNINSTALL_DATA_MAX \<le> length (undo st) then (False, st)
     else if \<not> malloc_ok io (device st) (length dat) then (False, st)
     else case device_read io loc (length dat) st of
       (None, st1) \<Rightarrow> (False, st1)
     | (Some old, st1) \<Rightarrow>
         (case write_loop io loc dat 0 st1 of (ok, st2) \<Rightarrow>
            if ok then (True, st2\<lparr>undo := undo st2 @ [\<lparr>ud_data = old, ud_loc = loc\<rparr>]\<rparr>) else (False, st2)))"

declare read_loop.simps [simp del] write_loop.simps [simp del]

lemma loop_done [simp]:
  "count \<le> progress \<Longrightarrow> read_loop io loc count progress buffer st = (Some buffer, st)"
  "length dat \<le> progress \<Longrightarrow> write_loop io loc dat progress st = (True, st)"
  by (simp_all add: read_loop.simps write_loop.simps)

section \<open>Undoing\<close>

definition forget_cache :: "'f tool \<Rightarrow> 'f tool" where
  "forget_cache st = st\<lparr>cache_state := CACHE_CLEAN, cached_block := - 1\<rparr>"

text \<open>One entry: a write that fails is tried once more, after the cache has been flushed and forgotten. The
  two flags tell of failed writes and failed flushes.\<close>

definition restore_entry :: "'f stdio \<Rightarrow> uninstall_data \<Rightarrow> bool \<times> bool \<times> 'f tool \<Rightarrow> bool \<times> bool \<times> 'f tool" where
  "restore_entry io ud s = (case s of (write_fail, flush_fail, st) \<Rightarrow>
     case device_write io (ud_data ud) (ud_loc ud) st of (ok, st1) \<Rightarrow>
       if ok then (write_fail, flush_fail, st1)
       else case device_flush_cache io st1 of (flushed, st2) \<Rightarrow>
         case device_write io (ud_data ud) (ud_loc ud) (forget_cache st2) of (ok, st3) \<Rightarrow>
           (write_fail \<or> \<not> ok, flush_fail \<or> \<not> flushed, st3))"

definition uninstall :: "'f stdio \<Rightarrow> 'f tool \<Rightarrow> bool \<times> 'f tool" where
  "uninstall io st =
    (case fold (restore_entry io) (undo st) (False, False, forget_cache (st\<lparr>uninstalling := True\<rparr>)) of
       (write_fail, flush_fail, st1) \<Rightarrow>
         case device_flush_cache io st1 of (flushed, st2) \<Rightarrow>
           (\<not> write_fail \<and> \<not> (flush_fail \<or> \<not> flushed), st2))"

definition reverse_uninstall_data :: "'f tool \<Rightarrow> 'f tool" where
  "reverse_uninstall_data st = st\<lparr>undo := rev (undo st)\<rparr>"

text \<open>The file the journal is kept in.\<close>

definition store_uninstall_data :: "uninstall_data list \<Rightarrow> bytes" where
  "store_uninstall_data uds = put64 (of_nat (length uds)) @
     concat (map (\<lambda>ud. put64 (ud_loc ud) @ put64 (of_nat (length (ud_data ud))) @ ud_data ud) uds)"

text \<open>Loading it fills a table of pointers. When it fails, the entries loaded so far and the one it was at have
  been freed, but their pointers stay in the table, and the caller frees as many pointers as the first
  field of the file says. \<open>load_uninstall_data\<close> gives the entries, or that number with the
  pointers that are not null.\<close>

datatype pointer = Live bytes | Freed

datatype loaded = Loaded "uninstall_data list" | Load_failed nat "pointer list" | Load_indeterminate

fun load_entries :: "(nat \<Rightarrow> bool) \<Rightarrow> nat \<Rightarrow> nat \<Rightarrow> bytes \<Rightarrow> uninstall_data list \<Rightarrow> loaded" where
  "load_entries mem n 0 bs uds = Loaded uds"
| "load_entries mem n (Suc k) bs uds =
    (let freed = replicate (length uds) Freed; count = unat (get64 (take 8 (drop 8 bs))) in
     if length bs < 16 then Load_failed n freed
     else if \<not> mem count then Load_failed n freed
     else if count = 0 \<or> length bs < 16 + count then Load_failed n (freed @ [Freed])
     else load_entries mem n k (drop (16 + count) bs)
       (uds @ [\<lparr>ud_data = take count (drop 16 bs), ud_loc = get64 (take 8 bs)\<rparr>]))"

definition load_uninstall_data :: "(nat \<Rightarrow> bool) \<Rightarrow> bytes option \<Rightarrow> loaded" where
  "load_uninstall_data mem file = (case file of
     None \<Rightarrow> Load_failed 0 []
   | Some bs \<Rightarrow>
       if bs = [] then Load_failed 0 []
       else if length bs < 8 then Load_indeterminate
       else (let n = unat (get64 (take 8 bs)) in
         if UNINSTALL_DATA_MAX < n then Load_failed n []
         else load_entries mem n n (drop 8 bs) []))"

text \<open>Freeing the first \<open>n\<close> pointers of a table of 256, of which all but the given ones are null: undefined
  when one was freed before or the table is left.\<close>

definition free_uninstall_data :: "nat \<Rightarrow> pointer list \<Rightarrow> unit option" where
  "free_uninstall_data n ps = (if UNINSTALL_DATA_MAX < n \<or> Freed \<in> set (take n ps) then None else Some ())"

end
