(* ===== verification/LimineInstall.thy ===== *)
theory LimineInstall
  imports LimineDisk
begin

text \<open>
  The command \<^verbatim>\<open>bios-install\<close> of \<^verbatim>\<open>lib/limine/limine.c\<close>: its arguments, the search for a partition table, the
  conversion of a GPT on a hybrid image, the checks on the master boot record, the choice of a
  partition, the writing of the boot code, and the clean-up that undoes a failed installation. An
  action gives \<open>None\<close> where the code jumps to its label \<^verbatim>\<open>cleanup\<close>. The host is little-endian.
\<close>

unbundle bit_operations_syntax

section \<open>Actions\<close>

type_synonym ('a, 'f) action = "'f tool \<Rightarrow> 'a option \<times> 'f tool"

definition give :: "'a \<Rightarrow> ('a, 'f) action" where "give x st = (Some x, st)"

definition stop :: "('a, 'f) action" where "stop st = (None, st)"

definition andthen :: "('a, 'f) action \<Rightarrow> ('a \<Rightarrow> ('b, 'f) action) \<Rightarrow> ('b, 'f) action" where
  "andthen m k st = (case m st of (None, st1) \<Rightarrow> (None, st1) | (Some x, st1) \<Rightarrow> k x st1)"

text \<open>The macros \<^verbatim>\<open>device_read\<close> and \<^verbatim>\<open>device_write\<close>.\<close>

definition dread :: "'f stdio \<Rightarrow> u64 \<Rightarrow> nat \<Rightarrow> (bytes \<Rightarrow> ('b, 'f) action) \<Rightarrow> ('b, 'f) action" where
  "dread io loc count k = andthen (device_read io loc count) k"

definition dwrite :: "'f stdio \<Rightarrow> bytes \<Rightarrow> u64 \<Rightarrow> ('b, 'f) action \<Rightarrow> ('b, 'f) action" where
  "dwrite io dat loc k st = (case device_write io dat loc st of (ok, st1) \<Rightarrow> if ok then k st1 else (None, st1))"

section \<open>Partition tables\<close>

record gpt_table_header =
  gpt_signature :: bytes
  gpt_revision :: u32
  gpt_header_size :: u32
  gpt_crc32 :: u32
  my_lba :: u64
  alternate_lba :: u64
  first_usable_lba :: u64
  last_usable_lba :: u64
  disk_guid :: bytes
  partition_entry_lba :: u64
  number_of_partition_entries :: u32
  size_of_partition_entry :: u32
  partition_entry_array_crc32 :: u32

definition sizeof_gpt_table_header :: nat where "sizeof_gpt_table_header = 96"

definition field :: "nat \<Rightarrow> nat \<Rightarrow> bytes \<Rightarrow> bytes" where "field off n bs = take n (drop off bs)"

definition gpt_table_header_of :: "bytes \<Rightarrow> gpt_table_header" where
  "gpt_table_header_of bs = \<lparr>gpt_signature = field 0 8 bs, gpt_revision = get32 (field 8 4 bs),
     gpt_header_size = get32 (field 12 4 bs), gpt_crc32 = get32 (field 16 4 bs), my_lba = get64 (field 24 8 bs),
     alternate_lba = get64 (field 32 8 bs), first_usable_lba = get64 (field 40 8 bs),
     last_usable_lba = get64 (field 48 8 bs), disk_guid = field 56 16 bs, partition_entry_lba = get64 (field 72 8 bs),
     number_of_partition_entries = get32 (field 80 4 bs), size_of_partition_entry = get32 (field 84 4 bs),
     partition_entry_array_crc32 = get32 (field 88 4 bs)\<rparr>"

record gpt_entry =
  partition_type_guid :: "u64 \<times> u64"
  unique_partition_guid :: "u64 \<times> u64"
  starting_lba :: u64
  ending_lba :: u64
  gpt_attributes :: u64
  partition_name :: bytes

definition sizeof_gpt_entry :: nat where "sizeof_gpt_entry = 128"

definition gpt_entry_of :: "bytes \<Rightarrow> gpt_entry" where
  "gpt_entry_of bs = \<lparr>partition_type_guid = (get64 (field 0 8 bs), get64 (field 8 8 bs)),
     unique_partition_guid = (get64 (field 16 8 bs), get64 (field 24 8 bs)), starting_lba = get64 (field 32 8 bs),
     ending_lba = get64 (field 40 8 bs), gpt_attributes = get64 (field 48 8 bs), partition_name = field 56 72 bs\<rparr>"

record gpt2mbr_type_conv =
  gpt_type1 :: u64
  gpt_type2 :: u64
  mbr_type :: u8

definition gpt2mbr_type_conv_table :: "gpt2mbr_type_conv list" where
  "gpt2mbr_type_conv_table =
     [\<lparr>gpt_type1 = 0x11d2f81fc12a7328, gpt_type2 = 0x3bc93ec9a0004bba, mbr_type = 0xef\<rparr>,
      \<lparr>gpt_type1 = 0x4433b9e5ebd0a0a2, gpt_type2 = 0xc79926b7b668c087, mbr_type = 0x07\<rparr>,
      \<lparr>gpt_type1 = 0x11aa000048465300, gpt_type2 = 0xacec4365300011aa, mbr_type = 0xaf\<rparr>]"

text \<open>\<open>None\<close> is the \<open>-1\<close> of the source.\<close>

fun type_loop :: "gpt2mbr_type_conv list \<Rightarrow> u64 \<times> u64 \<Rightarrow> u8 option" where
  "type_loop [] t = None"
| "type_loop (c # cs) t = (if gpt_type1 c = fst t \<and> gpt_type2 c = snd t then Some (mbr_type c) else type_loop cs t)"

definition gpt2mbr_type :: "u64 \<times> u64 \<Rightarrow> u8 option" where
  "gpt2mbr_type t = type_loop gpt2mbr_type_conv_table t"

definition lba2chs :: "u64 \<Rightarrow> bytes" where
  "lba2chs lba =
    (let cylinder = lba div (255 * 63) in
     if 63 * 255 * 1024 < lba \<or> 1024 \<le> cylinder then [0xfe, 0xff, 0xff]
     else (let head = (lba div 63) mod 255; sector = lba mod 63 + 1
           in [ucast head, ucast (drop_bit 2 cylinder AND 0xc0) OR ucast (sector AND 0x3f), ucast cylinder]))"

section \<open>Arguments\<close>

record options =
  opt_force :: bool
  gpt2mbr_allowed :: bool
  uninstall_mode :: bool
  uninstall_file :: "string option"
  opt_device :: "string option"
  part_ndx :: "string option"
  opt_quiet :: bool

definition options_init :: options where
  "options_init = \<lparr>opt_force = False, gpt2mbr_allowed = True, uninstall_mode = False, uninstall_file = None,
     opt_device = None, part_ndx = None, opt_quiet = False\<rparr>"

datatype exit_code = EXIT_SUCCESS | EXIT_FAILURE

text \<open>\<open>opens\<close>: whether \<^verbatim>\<open>fopen\<close> opens the device for reading and writing.\<close>

fun argument_loop :: "(string \<Rightarrow> bool) \<Rightarrow> string list \<Rightarrow> options \<Rightarrow> exit_code + options" where
  "argument_loop opens [] o' = Inr o'"
| "argument_loop opens (a # as) o' =
    (if a = ''--help'' \<or> a = ''-h'' then Inl EXIT_SUCCESS
     else if a = ''--quiet'' then argument_loop opens as (o'\<lparr>opt_quiet := True\<rparr>)
     else if a = ''--force'' then argument_loop opens as (o'\<lparr>opt_force := True\<rparr>)
     else if a = ''--no-gpt-to-mbr-isohybrid-conversion'' then argument_loop opens as (o'\<lparr>gpt2mbr_allowed := False\<rparr>)
     else if a = ''--uninstall'' then argument_loop opens as (o'\<lparr>uninstall_mode := True\<rparr>)
     else if take 22 a = ''--uninstall-data-file='' then
       (if drop 22 a = [] then Inl EXIT_FAILURE
        else argument_loop opens as (o'\<lparr>uninstall_file := Some (drop 22 a)\<rparr>))
     else if opt_device o' \<noteq> None then argument_loop opens as (o'\<lparr>part_ndx := Some a\<rparr>)
     else if opens a then argument_loop opens as (o'\<lparr>opt_device := Some a\<rparr>)
     else Inl EXIT_FAILURE)"

definition bios_install_arguments :: "(string \<Rightarrow> bool) \<Rightarrow> string list \<Rightarrow> exit_code + options" where
  "bios_install_arguments opens argv =
    (if length argv < 2 then Inl EXIT_FAILURE
     else case argument_loop opens (tl argv) options_init of
       Inl e \<Rightarrow> Inl e
     | Inr o' \<Rightarrow> if opt_device o' = None then Inl EXIT_FAILURE else Inr o')"

section \<open>Checks\<close>

text \<open>A file system is recognised by a few bytes at a place; with \<^verbatim>\<open>--force\<close> they are overwritten.\<close>

definition wipe_hint :: "'f stdio \<Rightarrow> bool \<Rightarrow> u64 \<Rightarrow> bytes \<Rightarrow> nat \<Rightarrow> (bool, 'f) action \<Rightarrow> (bool, 'f) action" where
  "wipe_hint io force loc hint zeros k =
     dread io loc (length hint) (\<lambda>h.
       if h = hint then (if \<not> force then give False else dwrite io (replicate zeros 0) loc k) else k)"

definition validate_or_force :: "'f stdio \<Rightarrow> u64 \<Rightarrow> bool \<Rightarrow> (bool, 'f) action" where
  "validate_or_force io offset force =
     wipe_hint io force (offset + 3) (bytes_of ''NTFS'') 4
    (wipe_hint io force (offset + 54) (bytes_of ''FAT'') 5
    (wipe_hint io force (offset + 82) (bytes_of ''FAT'') 5
    (wipe_hint io force (offset + 3) (bytes_of ''FAT32'') 5
    (dread io (offset + 1080) 2 (\<lambda>h.
       if get16 h = 0xef53 then (if \<not> force then give False else dwrite io (put16 0) (offset + 1080) (give True))
       else give True)))))"

text \<open>The search for a GPT, with the size of a logical block.\<close>

fun probe_gpt :: "'f stdio \<Rightarrow> u64 list \<Rightarrow> ((u64 \<times> gpt_table_header) option, 'f) action" where
  "probe_gpt io [] = give None"
| "probe_gpt io (lb # lbs) = dread io lb sizeof_gpt_table_header (\<lambda>h.
     if gpt_signature (gpt_table_header_of h) = bytes_of ''EFI PART'' then give (Some (lb, gpt_table_header_of h))
     else probe_gpt io lbs)"

definition check_secondary :: "'f stdio \<Rightarrow> u64 \<Rightarrow> gpt_table_header \<Rightarrow> (unit, 'f) action" where
  "check_secondary io lb_size hdr =
    (if size_of_partition_entry hdr < of_nat sizeof_gpt_entry then stop
     else case mul_u64_overflow lb_size (alternate_lba hdr) of (over, secondary_loc) \<Rightarrow>
       if over then stop
       else dread io secondary_loc sizeof_gpt_table_header (\<lambda>h.
         if gpt_signature (gpt_table_header_of h) = bytes_of ''EFI PART'' then give () else stop))"

section \<open>From a GPT to a master boot record\<close>

record part_to_conv =
  lba_start :: u64
  lba_end :: u64
  chs_start :: bytes
  chs_end :: bytes
  part_type :: u8

definition UINT32_MAX :: u64 where "UINT32_MAX = 0xFFFFFFFF"

text \<open>Where the entry of a number is; the sum that overflows is the first result.\<close>

definition entry_location :: "gpt_table_header \<Rightarrow> u64 \<Rightarrow> u64 \<Rightarrow> bool \<times> u64" where
  "entry_location hdr base i = add_u64_overflow base (i * ucast (size_of_partition_entry hdr))"

text \<open>What becomes of an entry: \<open>None\<close> ends the attempt (\<^verbatim>\<open>no_mbr_conv\<close>).\<close>

definition convert_entry :: "gpt_entry \<Rightarrow> part_to_conv list \<Rightarrow> part_to_conv list option" where
  "convert_entry e parts =
    (if unique_partition_guid e = (0, 0) then Some parts
     else if length parts = 4 then None
     else if UINT32_MAX < starting_lba e \<or> UINT32_MAX < ending_lba e then None
     else if UINT32_MAX < ending_lba e - starting_lba e + 1 then None
     else case gpt2mbr_type (partition_type_guid e) of
       None \<Rightarrow> None
     | Some t \<Rightarrow> Some (parts @ [\<lparr>lba_start = starting_lba e, lba_end = ending_lba e,
         chs_start = lba2chs (starting_lba e), chs_end = lba2chs (ending_lba e), part_type = t\<rparr>]))"

fun collect_parts :: "'f stdio \<Rightarrow> gpt_table_header \<Rightarrow> u64 \<Rightarrow> nat list \<Rightarrow> part_to_conv list \<Rightarrow>
    (part_to_conv list option, 'f) action" where
  "collect_parts io hdr base [] parts = give (Some parts)"
| "collect_parts io hdr base (i # is) parts =
    (case entry_location hdr base (of_nat i) of (over, loc) \<Rightarrow>
       if over then give None
       else dread io loc sizeof_gpt_entry (\<lambda>h.
         case convert_entry (gpt_entry_of h) parts of
           None \<Rightarrow> give None
         | Some parts' \<Rightarrow> collect_parts io hdr base is parts'))"

fun write_each :: "'f stdio \<Rightarrow> (bytes \<times> u64) list \<Rightarrow> ('b, 'f) action \<Rightarrow> ('b, 'f) action" where
  "write_each io [] k = k"
| "write_each io ((dat, loc) # ws) k = dwrite io dat loc (write_each io ws k)"

text \<open>The last 33 blocks up to the secondary header.\<close>

fun wipe_secondary :: "'f stdio \<Rightarrow> u64 \<Rightarrow> u64 \<Rightarrow> nat list \<Rightarrow> ('b, 'f) action \<Rightarrow> ('b, 'f) action" where
  "wipe_secondary io lb_size alt_lba [] k = k"
| "wipe_secondary io lb_size alt_lba (i # is) k =
    (case mul_u64_overflow (alt_lba - 32 + of_nat i) lb_size of (over, loc) \<Rightarrow>
       if over then stop
       else dwrite io (replicate (unat lb_size) 0) loc (wipe_secondary io lb_size alt_lba is k))"

definition mbr_entry_writes :: "nat \<Rightarrow> part_to_conv \<Rightarrow> (bytes \<times> u64) list" where
  "mbr_entry_writes i p =
    (let at = 0x1be + of_nat i * 16 in
     [([part_type p], at + 0x04), (put32 (ucast (lba_start p)), at + 0x08),
      (put32 (ucast (lba_end p - lba_start p + 1)), at + 0x0c), (chs_start p, at + 1), (chs_end p, at + 5)])"

text \<open>\<open>rnd\<close> are the four bytes \<^verbatim>\<open>rand\<close> gives for the disk identifier.\<close>

definition write_mbr :: "'f stdio \<Rightarrow> (nat \<Rightarrow> u8) \<Rightarrow> u64 \<Rightarrow> gpt_table_header \<Rightarrow> part_to_conv list \<Rightarrow> (unit, 'f) action" where
  "write_mbr io rnd lb_size hdr parts =
     write_each io (map (\<lambda>i. (replicate (unat lb_size) 0, of_nat i * lb_size)) [0..<34])
      (wipe_secondary io lb_size (alternate_lba hdr) (if 32 \<le> alternate_lba hdr then [0..<33] else [])
        (write_each io (map (\<lambda>i. ([rnd i], 0x1b8 + of_nat i)) [0..<4])
          (write_each io (concat (map (\<lambda>i. mbr_entry_writes i (parts ! i)) [0..<length parts]))
            (give ()))))"

text \<open>Whether the disk still has a GPT afterwards.\<close>

definition convert_isohybrid :: "'f stdio \<Rightarrow> (nat \<Rightarrow> u8) \<Rightarrow> bool \<Rightarrow> u64 \<Rightarrow> gpt_table_header \<Rightarrow> (bool, 'f) action" where
  "convert_isohybrid io rnd allowed lb_size hdr =
    (if \<not> allowed then give True
     else dread io 32769 5 (\<lambda>sig.
       if sig \<noteq> bytes_of ''CD001'' then give True
       else case mul_u64_overflow (partition_entry_lba hdr) lb_size of (over, base) \<Rightarrow>
         if over then give True
         else andthen (collect_parts io hdr base [0..<unat (number_of_partition_entries hdr)] []) (\<lambda>r.
           case r of
             None \<Rightarrow> give True
           | Some parts \<Rightarrow> (\<lambda>st. if \<not> malloc_ok io (device st) (unat lb_size) then stop st
               else andthen (write_mbr io rnd lb_size hdr parts) (\<lambda>_. give False) st))))"

section \<open>The master boot record\<close>

text \<open>One of the four entries: its active flag, then its first sector. The state is the verdict \<^verbatim>\<open>mbr\<close> and
  \<^verbatim>\<open>any_active\<close>.\<close>

definition check_mbr_entry :: "'f stdio \<Rightarrow> bool \<Rightarrow> u64 \<Rightarrow> bool \<times> bool \<Rightarrow> (bool \<times> bool, 'f) action" where
  "check_mbr_entry io force at s = (case s of (mbr, any_active) \<Rightarrow>
     dread io at 1 (\<lambda>h.
       let bad = hd h \<noteq> 0 \<and> hd h \<noteq> 0x80;
           sectors = (\<lambda>s'. dread io (at + 4) 1 (\<lambda>t.
             if hd t = 0 then give s'
             else dread io (at + 8) 4 (\<lambda>start. if get32 start < 63 then stop else give s')));
           active = any_active \<or> hd h AND 0x80 \<noteq> 0
       in if bad \<and> force then dwrite io [hd h AND 0x80] at (sectors (mbr, active))
          else sectors (mbr \<and> \<not> bad, active)))"

fun check_mbr_entries :: "'f stdio \<Rightarrow> bool \<Rightarrow> u64 list \<Rightarrow> bool \<times> bool \<Rightarrow> (bool \<times> bool, 'f) action" where
  "check_mbr_entries io force [] s = give s"
| "check_mbr_entries io force (at # ats) s =
     andthen (check_mbr_entry io force at s) (check_mbr_entries io force ats)"

definition check_mbr :: "'f stdio \<Rightarrow> bool \<Rightarrow> (unit, 'f) action" where
  "check_mbr io force =
     andthen (check_mbr_entries io force [446, 462, 478, 494] (True, False)) (\<lambda>(mbr, any_active).
       andthen (if mbr then validate_or_force io 0 force else give False) (\<lambda>mbr.
         if \<not> mbr then stop
         else if \<not> any_active then dwrite io [0x80] 446 (give ())
         else give ()))"

section \<open>The boot partition\<close>

definition is_bios_boot :: "gpt_entry \<Rightarrow> bool" where
  "is_bios_boot e \<longleftrightarrow> put64 (fst (partition_type_guid e)) @ put64 (snd (partition_type_guid e)) = bytes_of ''Hah!IdontNeedEFI''"

fun find_bios_boot :: "'f stdio \<Rightarrow> gpt_table_header \<Rightarrow> u64 \<Rightarrow> nat list \<Rightarrow> (gpt_entry, 'f) action" where
  "find_bios_boot io hdr base [] = stop"
| "find_bios_boot io hdr base (i # is) =
    (case entry_location hdr base (of_nat i) of (over, loc) \<Rightarrow>
       if over then stop
       else dread io loc sizeof_gpt_entry (\<lambda>h.
         if is_bios_boot (gpt_entry_of h) then give (gpt_entry_of h) else find_bios_boot io hdr base is))"

text \<open>\<open>scan\<close> is what \<^verbatim>\<open>sscanf\<close> makes of the argument.\<close>

definition chosen_partition :: "'f stdio \<Rightarrow> (string \<Rightarrow> u32 option) \<Rightarrow> bool \<Rightarrow> gpt_table_header \<Rightarrow> u64 \<Rightarrow> string \<Rightarrow>
    (gpt_entry, 'f) action" where
  "chosen_partition io scan force hdr base ndx = (case scan ndx of
     None \<Rightarrow> stop
   | Some n \<Rightarrow>
       if number_of_partition_entries hdr \<le> n - 1 then stop
       else case entry_location hdr base (ucast (n - 1)) of (over, loc) \<Rightarrow>
         if over then stop
         else dread io loc sizeof_gpt_entry (\<lambda>h.
           let e = gpt_entry_of h in
           if unique_partition_guid e = (0, 0) then stop
           else if \<not> force \<and> \<not> is_bios_boot e then stop
           else give e))"

definition stage2_location :: "'f stdio \<Rightarrow> bool \<Rightarrow> u64 \<Rightarrow> gpt_entry \<Rightarrow> (u64, 'f) action" where
  "stage2_location io force lb_size e =
    (if ending_lba e < starting_lba e then stop
     else case mul_u64_overflow (ending_lba e - starting_lba e + 1) lb_size of (over, part_size) \<Rightarrow>
       if over \<or> part_size < 32768 then stop
       else case mul_u64_overflow (starting_lba e) lb_size of (over, loc) \<Rightarrow>
         if over then stop
         else andthen (validate_or_force io loc force) (\<lambda>valid. if valid then give loc else stop))"

definition gpt_stage2 :: "'f stdio \<Rightarrow> (string \<Rightarrow> u32 option) \<Rightarrow> options \<Rightarrow> u64 \<Rightarrow> gpt_table_header \<Rightarrow> (u64, 'f) action" where
  "gpt_stage2 io scan opts lb_size hdr =
    (case mul_u64_overflow (partition_entry_lba hdr) lb_size of (over, base) \<Rightarrow>
       if over then stop
       else andthen (case part_ndx opts of
           Some ndx \<Rightarrow> chosen_partition io scan (opt_force opts) hdr base ndx
         | None \<Rightarrow> find_bios_boot io hdr base [0..<unat (number_of_partition_entries hdr)])
         (stage2_location io (opt_force opts) lb_size))"

section \<open>The installation\<close>

definition flush_or_stop :: "'f stdio \<Rightarrow> (unit, 'f) action" where
  "flush_or_stop io st = (case device_flush_cache io st of (ok, st1) \<Rightarrow> (if ok then Some () else None, st1))"

text \<open>\<open>img\<close> is the image of the boot code, \<^verbatim>\<open>limine-bios-hdd.h\<close>. The timestamp and the partition table of the
  boot sector stay what they were.\<close>

definition write_stages :: "'f stdio \<Rightarrow> bytes \<Rightarrow> u64 \<Rightarrow> (unit, 'f) action" where
  "write_stages io img stage2_loc =
     dread io 218 6 (\<lambda>timestamp.
     dread io 440 70 (\<lambda>orig_mbr.
     dwrite io (take 512 img) 0
    (dwrite io (drop 512 img) stage2_loc
    (dwrite io (put64 stage2_loc) 0x1a4
    (dwrite io timestamp 218
    (dwrite io orig_mbr 440
    (flush_or_stop io)))))))"

definition install :: "'f stdio \<Rightarrow> (nat \<Rightarrow> u8) \<Rightarrow> (string \<Rightarrow> u32 option) \<Rightarrow> bytes \<Rightarrow> options \<Rightarrow> (unit, 'f) action" where
  "install io rnd scan img opts =
    andthen (probe_gpt io [512, 4096]) (\<lambda>probed.
      andthen (case probed of
          None \<Rightarrow> give False
        | Some (lb_size, hdr) \<Rightarrow> andthen (check_secondary io lb_size hdr) (\<lambda>_.
            convert_isohybrid io rnd (gpt2mbr_allowed opts) lb_size hdr)) (\<lambda>gpt.
        andthen (if gpt then gpt_stage2 io scan opts (fst (the probed)) (snd (the probed))
                 else andthen (check_mbr io (opt_force opts)) (\<lambda>_. give 512)) (\<lambda>stage2_loc.
          write_stages io img stage2_loc)))"

text \<open>The whole command on an open device. \<open>files\<close> are the files that can be read. The result is the exit code,
  the state the tool ends in and what it puts into the file for the journal; \<open>None\<close> where memory is freed
  twice.\<close>

definition run_bios_install :: "'f stdio \<Rightarrow> (nat \<Rightarrow> u8) \<Rightarrow> (string \<Rightarrow> u32 option) \<Rightarrow> bytes \<Rightarrow> (string \<Rightarrow> bytes option) \<Rightarrow>
    options \<Rightarrow> 'f \<Rightarrow> (exit_code \<times> 'f tool \<times> (string \<times> bytes) option) option" where
  "run_bios_install io rnd scan img files opts f =
    (case device_init io (tool_init f) of (ok, st) \<Rightarrow>
       if \<not> ok then Some (EXIT_FAILURE, st, None)
       else if uninstall_mode opts then
         (case uninstall_file opts of
            None \<Rightarrow> Some (EXIT_FAILURE, st, None)
          | Some name \<Rightarrow> (case load_uninstall_data (malloc_ok io (device st)) (files name) of
              Load_failed n ps \<Rightarrow> map_option (\<lambda>_. (EXIT_FAILURE, st, None)) (free_uninstall_data n ps)
            | Load_indeterminate \<Rightarrow> None
            | Loaded uds \<Rightarrow> (case uninstall io (st\<lparr>undo := uds\<rparr>) of (ok, st1) \<Rightarrow>
                Some (if ok then EXIT_SUCCESS else EXIT_FAILURE, st1, None))))
       else case install io rnd scan img opts st of (r, st1) \<Rightarrow>
         let st2 = reverse_uninstall_data st1 in
         (case r of
            None \<Rightarrow> Some (EXIT_FAILURE, snd (uninstall io st2), None)
          | Some _ \<Rightarrow> Some (EXIT_SUCCESS, st2,
              map_option (\<lambda>name. (name, store_uninstall_data (undo st2))) (uninstall_file opts))))"

definition bios_install :: "'f stdio \<Rightarrow> (nat \<Rightarrow> u8) \<Rightarrow> (string \<Rightarrow> u32 option) \<Rightarrow> bytes \<Rightarrow> (string \<Rightarrow> bytes option) \<Rightarrow>
    (string \<Rightarrow> 'f option) \<Rightarrow> string list \<Rightarrow> (exit_code \<times> 'f tool option \<times> (string \<times> bytes) option) option" where
  "bios_install io rnd scan img files devices argv =
    (case bios_install_arguments (\<lambda>name. devices name \<noteq> None) argv of
       Inl e \<Rightarrow> Some (e, None, None)
     | Inr opts \<Rightarrow> map_option (\<lambda>(e, st, u). (e, Some st, u))
         (run_bios_install io rnd scan img files opts (the (devices (the (opt_device opts))))))"

end
