(* ===== verification/LimineCache.thy ===== *)
theory LimineCache
  imports LimineDisk
begin

text \<open>
  The cache of the installer over a disk that works: reads and writes through the cache are reads and
  writes of the bytes of the disk, whatever the cache holds back, and they are refused exactly where the
  disk has no whole block. The laws of the stream are the locale \<open>disk_file\<close>; image files obey it.
\<close>

section \<open>Bytes of a disk\<close>

definition patch :: "bytes \<Rightarrow> nat \<Rightarrow> bytes \<Rightarrow> bytes" where
  "patch d a xs = take a d @ xs @ drop (a + length xs) d"

definition window :: "bytes \<Rightarrow> nat \<Rightarrow> nat \<Rightarrow> bytes" where
  "window d a n = take n (drop a d)"

lemma length_patch [simp]: "a + length xs \<le> length d \<Longrightarrow> length (patch d a xs) = length d"
  by (simp add: patch_def)

lemma patch_nth:
  assumes "a + length xs \<le> length d" and "i < length d"
  shows "patch d a xs ! i = (if a \<le> i \<and> i < a + length xs then xs ! (i - a) else d ! i)"
  using assms by (auto simp: patch_def nth_append min_def)

lemma length_window [simp]: "a + n \<le> length d \<Longrightarrow> length (window d a n) = n"
  by (simp add: window_def)

lemma window_nth: "a + n \<le> length d \<Longrightarrow> i < n \<Longrightarrow> window d a n ! i = d ! (a + i)"
  by (simp add: window_def)

lemma patch_eqI:
  assumes "a + length xs \<le> length d" and "length e = length d"
    and "\<And>i. i < length d \<Longrightarrow> e ! i = (if a \<le> i \<and> i < a + length xs then xs ! (i - a) else d ! i)"
  shows "e = patch d a xs"
  using assms by (intro nth_equalityI) (simp_all add: patch_nth)

lemma patch_Nil [simp]: "patch d a [] = d"
  by (simp add: patch_def)

lemma patch_window: "a + n \<le> length d \<Longrightarrow> patch d a (window d a n) = d"
  by (rule sym, rule patch_eqI) (auto simp: window_nth)

lemma patch_within:
  assumes "b + length c \<le> length d" and "a + length xs \<le> length c"
  shows "patch d b (patch c a xs) = patch (patch d b c) (b + a) xs"
  using assms by (intro patch_eqI) (auto simp: patch_nth)

lemma patch_append:
  assumes "a + length xs + length ys \<le> length d"
  shows "patch (patch d a xs) (a + length xs) ys = patch d a (xs @ ys)"
  using assms by (intro patch_eqI) (auto simp: patch_nth nth_append)

lemma window_append: "a + m + n \<le> length d \<Longrightarrow> window d a m @ window d (a + m) n = window d a (m + n)"
  by (simp add: window_def take_add add.commute)

lemma window_patch_in:
  assumes "b + length c \<le> length d" and "a + n \<le> length c"
  shows "window (patch d b c) (b + a) n = window c a n"
  using assms by (intro nth_equalityI) (auto simp: window_nth patch_nth)

lemma block_place:
  fixes k :: u64
  assumes "unat k * b < 2 ^ 63" and "b \<le> 4096"
  shows "unat (k * of_nat b) = unat k * b"
proof -
  have "unat (of_nat b :: u64) = b" using assms(2) by (simp add: unat_of_nat64)
  then show ?thesis using assms(1) by (subst unat_times64) simp_all
qed

section \<open>A disk that works\<close>

text \<open>What the C library promises for a stream on a disk of fixed size on a 64-bit host: seeking within range
  and reading do not change the disk, a read gives the bytes that are there, a write inside the disk is done.\<close>

locale disk_file =
  fixes io :: "'f stdio" and contents :: "'f \<Rightarrow> bytes" and pos :: "'f \<Rightarrow> nat"
  assumes long64: "2 ^ 63 - 1 \<le> LONG_MAX io"
    and seek_law: "fseek_set io p f = (ok, f') \<Longrightarrow> contents f' = contents f \<and> (ok \<longrightarrow> pos f' = unat p)"
    and seek_ok: "unat p < 2 ^ 63 \<Longrightarrow> fst (fseek_set io p f)"
    and rewind_law: "contents (rewind_file io f) = contents f" "pos (rewind_file io f) = 0"
    and read_law: "fread_bytes io n f = (xs, f') \<Longrightarrow> contents f' = contents f \<and> xs = window (contents f) (pos f) n"
    and write_law: "fwrite_bytes io xs f = (ok, f') \<Longrightarrow> pos f + length xs \<le> length (contents f) \<Longrightarrow>
      ok \<and> contents f' = patch (contents f) (pos f) xs"
begin

lemma set_pos_law: "set_pos io p f = (ok, f') \<Longrightarrow> contents f' = contents f \<and> (ok \<longrightarrow> pos f' = unat p)"
  using long64 seek_law by (simp add: set_pos_def)

lemma set_pos_ok: "unat p < 2 ^ 63 \<Longrightarrow> fst (set_pos io p f)"
  using long64 seek_ok by (simp add: set_pos_def)

definition whole :: "'f tool \<Rightarrow> nat" where
  "whole st = length (contents (device st)) div block_size st * block_size st"

definition sized :: "'f tool \<Rightarrow> bool" where
  "sized st \<longleftrightarrow> 512 \<le> block_size st \<and> block_size st \<le> 4096 \<and> length (cache st) = block_size st \<and>
     length (contents (device st)) < 2 ^ 63"

definition cache_at :: "'f tool \<Rightarrow> nat" where "cache_at st = unat (cached_block st) * block_size st"

text \<open>The cache holds a block of the disk, or, after \<^verbatim>\<open>uninstall\<close> has forgotten it, none.\<close>

definition coherent :: "'f tool \<Rightarrow> bool" where
  "coherent st \<longleftrightarrow> sized st \<and>
     (cached_block st \<noteq> - 1 \<longrightarrow> cache_at st + block_size st \<le> length (contents (device st)) \<and>
        (cache_state st = CACHE_CLEAN \<longrightarrow> cache st = window (contents (device st)) (cache_at st) (block_size st))) \<and>
     (cache_state st = CACHE_DIRTY \<longrightarrow> cached_block st \<noteq> - 1)"

text \<open>The disk as the tool sees it.\<close>

definition logical :: "'f tool \<Rightarrow> bytes" where
  "logical st = (if cache_state st = CACHE_DIRTY then patch (contents (device st)) (cache_at st) (cache st)
     else contents (device st))"

abbreviation on_disk :: "'f tool \<Rightarrow> bytes" where "on_disk st \<equiv> contents (device st)"

definition same_run :: "'f tool \<Rightarrow> 'f tool \<Rightarrow> bool" where
  "same_run st st' \<longleftrightarrow> undo st' = undo st \<and> uninstalling st' = uninstalling st \<and> block_size st' = block_size st \<and>
     length (contents (device st')) = length (contents (device st))"

lemma same_run_refl [simp]: "same_run st st"
  by (simp add: same_run_def)

lemma same_run_trans: "same_run a b \<Longrightarrow> same_run b c \<Longrightarrow> same_run a c"
  by (simp add: same_run_def)

lemma same_run_whole: "same_run a b \<Longrightarrow> whole b = whole a"
  by (simp add: same_run_def whole_def)

lemma length_logical: "coherent st \<Longrightarrow> length (logical st) = length (contents (device st))"
  by (auto simp: logical_def coherent_def sized_def)

lemma flush_coherent:
  assumes "coherent st"
  obtains st' where "device_flush_cache io st = (True, st')" "coherent st'" "logical st' = logical st"
    "contents (device st') = logical st" "cache_state st' = CACHE_CLEAN" "same_run st st'" "cache st' = cache st"
proof (cases "cache_state st")
  case CACHE_CLEAN
  then show ?thesis using assms by (intro that [of st]) (simp_all add: device_flush_cache_def logical_def)
next
  case CACHE_DIRTY
  have c: "cache_at st + block_size st \<le> length (contents (device st))" "length (cache st) = block_size st"
    "cached_block st \<noteq> - 1" "512 \<le> block_size st" "block_size st \<le> 4096"
    using assms CACHE_DIRTY by (auto simp: coherent_def sized_def)
  have small: "cache_at st < 2 ^ 63" using c(1) assms by (simp add: coherent_def sized_def)
  then have at: "unat (cached_block st * of_nat (block_size st)) = cache_at st"
    using c(5) unfolding cache_at_def by (rule block_place)
  then have lt: "unat (cached_block st * of_nat (block_size st)) < 2 ^ 63" using small by simp
  obtain f where f: "set_pos io (cached_block st * of_nat (block_size st)) (device st) = (True, f)"
    "contents f = contents (device st)" "pos f = cache_at st"
    using set_pos_ok [OF lt, of "device st"] set_pos_law at
    by (cases "set_pos io (cached_block st * of_nat (block_size st)) (device st)") fastforce
  obtain ok f' where w: "fwrite_bytes io (cache st) f = (ok, f')" by (cases "fwrite_bytes io (cache st) f")
  then have f': "ok" "contents f' = patch (contents (device st)) (cache_at st) (cache st)"
    using write_law [OF w] f(2,3) c(1,2) by simp_all
  let ?st = "st\<lparr>device := f', cache_state := CACHE_CLEAN\<rparr>"
  have "device_flush_cache io st = (True, ?st)" using f w f'(1) CACHE_DIRTY by (simp add: device_flush_cache_def)
  moreover have "cache st = window (contents f') (cache_at st) (block_size st)"
    using window_patch_in [of "cache_at st" "cache st" "contents (device st)" 0 "block_size st"] c(1,2) f'(2)
    by (simp add: window_def [of "cache st"])
  ultimately show ?thesis
    using assms CACHE_DIRTY c f'(2)
    by (intro that [of ?st]) (simp_all add: coherent_def sized_def logical_def same_run_def cache_at_def)
qed

lemma logical_clean: "cache_state st = CACHE_CLEAN \<Longrightarrow> logical st = contents (device st)"
  by (simp add: logical_def)

text \<open>What is in the cache is what the tool sees at its place.\<close>

lemma cache_logical:
  assumes "coherent st" and "cached_block st \<noteq> - 1"
  shows "cache st = window (logical st) (cache_at st) (block_size st)"
proof (cases "cache_state st")
  case CACHE_CLEAN
  then show ?thesis using assms by (simp add: coherent_def logical_def)
next
  case CACHE_DIRTY
  then have "cache_at st + block_size st \<le> length (contents (device st))" "length (cache st) = block_size st"
    using assms by (simp_all add: coherent_def sized_def)
  then show ?thesis
    using CACHE_DIRTY window_patch_in [of "cache_at st" "cache st" "contents (device st)" 0 "block_size st"]
    by (simp add: logical_def window_def [of "cache st"])
qed

lemma fetch_block:
  assumes "coherent st" and "cache_state st = CACHE_CLEAN" and "unat k * block_size st < 2 ^ 64"
  shows "case set_pos io (k * of_nat (block_size st)) (device st) of (ok, f) \<Rightarrow>
    contents f = contents (device st) \<and> (ok \<longrightarrow> pos f = unat k * block_size st) \<and>
    (unat k * block_size st < 2 ^ 63 \<longrightarrow> ok)"
proof -
  have bs: "block_size st \<le> 4096" using assms(1) by (simp add: coherent_def sized_def)
  have "unat (of_nat (block_size st) :: u64) = block_size st" using bs by (simp add: unat_of_nat64)
  then have at: "unat (k * of_nat (block_size st)) = unat k * block_size st"
    using assms(3) by (subst unat_times64) simp_all
  show ?thesis
    using set_pos_law [of "k * of_nat (block_size st)" "device st"]
      set_pos_ok [of "k * of_nat (block_size st)" "device st"] at
    by (auto split: prod.split)
qed

lemma block_not_none:
  assumes "unat k * b < 2 ^ 64" and "2 \<le> b"
  shows "k \<noteq> (- 1 :: u64)"
proof
  assume "k = - 1"
  then have "unat k = 2 ^ 64 - 1" by (simp add: unsigned_minus_1_eq_mask mask_eq_exp_minus_1)
  moreover have "unat k * 2 \<le> unat k * b" using assms(2) by simp
  ultimately show False using assms(1) by simp
qed

lemma read_at: "fread_bytes io n f = (xs, f') \<Longrightarrow> contents f' = contents f" "fread_bytes io n f = (xs, f') \<Longrightarrow> xs = window (contents f) (pos f) n"
  using read_law by blast+

lemma window_short: "length d < a + n \<Longrightarrow> length (window d a n) < n \<or> n = 0"
  by (auto simp: window_def)

text \<open>The positions outside \<open>S\<close> keep their value, on the disk at least one of the two the tool knew.\<close>

definition settled :: "nat set \<Rightarrow> 'f tool \<Rightarrow> 'f tool \<Rightarrow> bool" where
  "settled S st st' \<longleftrightarrow> same_run st st' \<and> (\<forall>p < length (on_disk st). p \<notin> S \<longrightarrow>
     on_disk st' ! p \<in> {on_disk st ! p, logical st ! p} \<and> logical st' ! p = logical st ! p)"

lemma settled_run: "settled S st st' \<Longrightarrow> same_run st st'" "settled S st st' \<Longrightarrow> whole st' = whole st"
  by (simp_all add: settled_def same_run_whole)

lemma settled_refl [simp]: "settled S st st"
  by (simp add: settled_def)

lemma settled_trans:
  assumes "settled S a b" and "settled S b c"
  shows "settled S a c"
  using assms same_run_trans [of a b c] by (fastforce simp: settled_def same_run_def)

lemma settled_same: "same_run st st' \<Longrightarrow> logical st' = logical st \<Longrightarrow> on_disk st' \<in> {on_disk st, logical st} \<Longrightarrow> settled S st st'"
  by (auto simp: settled_def)

lemma clean_first:
  assumes "coherent st"
  obtains st' where "(if cache_state st = CACHE_DIRTY then device_flush_cache io st else (True, st)) = (True, st')"
    "coherent st'" "logical st' = logical st" "on_disk st' = logical st" "cache_state st' = CACHE_CLEAN"
    "same_run st st'" "cache st' = cache st"
proof (cases "cache_state st")
  case CACHE_CLEAN
  then show ?thesis using assms by (intro that [of st]) (simp_all add: logical_def)
next
  case CACHE_DIRTY
  obtain st' where "device_flush_cache io st = (True, st')" "coherent st'" "logical st' = logical st"
    "on_disk st' = logical st" "cache_state st' = CACHE_CLEAN" "same_run st st'" "cache st' = cache st"
    using flush_coherent [OF assms] .
  then show ?thesis using CACHE_DIRTY by (intro that [of st']) simp_all
qed

lemma cache_block_in:
  assumes "coherent st" and "unat k * block_size st + block_size st \<le> length (on_disk st)"
  obtains st' where "device_cache_block io k st = (True, st')" "coherent st'" "logical st' = logical st"
    "cached_block st' = k" "cache st' = window (logical st) (unat k * block_size st) (block_size st)" "settled {} st st'"
proof (cases "cached_block st = k")
  have small: "unat k * block_size st < 2 ^ 63" and b: "2 \<le> block_size st"
    using assms by (simp_all add: coherent_def sized_def)
  have k: "k \<noteq> - 1" using small b by (intro block_not_none [of k "block_size st"]) simp_all
  case True
  then show ?thesis using assms k cache_logical [OF assms(1)]
    by (intro that [of st]) (simp_all add: device_cache_block_def cache_at_def)
next
  have small: "unat k * block_size st < 2 ^ 63"
    using assms by (simp add: coherent_def sized_def)
  case False
  obtain s1 where s1: "(if cache_state st = CACHE_DIRTY then device_flush_cache io st else (True, st)) = (True, s1)"
    "coherent s1" "logical s1 = logical st" "on_disk s1 = logical st" "cache_state s1 = CACHE_CLEAN" "same_run st s1"
    using clean_first [OF assms(1)] by metis
  have bs: "block_size s1 = block_size st" using s1(6) by (simp add: same_run_def)
  obtain f where f: "set_pos io (k * of_nat (block_size s1)) (device s1) = (True, f)"
    "contents f = logical st" "pos f = unat k * block_size st"
    using fetch_block [OF s1(2,5), of k] small bs s1(4)
    by (cases "set_pos io (k * of_nat (block_size s1)) (device s1)") auto
  obtain xs f' where r: "fread_bytes io (block_size s1) f = (xs, f')" by (cases "fread_bytes io (block_size s1) f")
  have xs: "xs = window (logical st) (unat k * block_size st) (block_size st)" "contents f' = logical st"
    using read_at [OF r] f(2,3) bs by simp_all
  have len: "length (logical st) = length (on_disk st)" using length_logical assms(1) .
  have lx: "length xs = block_size st" using xs(1) assms(2) len by simp
  have lc: "length (cache s1) = block_size st" using s1(2) bs by (simp add: coherent_def sized_def)
  let ?s = "s1\<lparr>device := f', cache := xs, cached_block := k\<rparr>"
  have "device_cache_block io k st = (True, ?s)"
    using False s1(1) f(1) r lx lc bs by (simp add: device_cache_block_def)
  moreover have "coherent ?s"
    using s1(2,4,5,6) xs lx lc assms(2) bs len by (simp add: coherent_def sized_def cache_at_def)
  moreover have "logical ?s = logical st" using s1(5) xs(2) by (simp add: logical_def)
  moreover have "same_run st ?s" using s1(4,6) xs(2) by (simp add: same_run_def)
  ultimately show ?thesis using xs by (intro that [of ?s]) (simp_all add: settled_same)
qed

text \<open>A block the disk does not have in full: the cache has lost what it held, but what it held back is on
  the disk.\<close>

lemma cache_block_out:
  assumes "coherent st" and "unat k * block_size st < 2 ^ 64" and "length (on_disk st) < unat k * block_size st + block_size st"
    and "k \<noteq> - 1"
  obtains st' where "device_cache_block io k st = (False, st')" "on_disk st' = logical st" "sized st'" "same_run st st'"
proof -
  have "cached_block st \<noteq> k" using assms(1,3,4) by (auto simp: coherent_def cache_at_def)
  obtain s1 where s1: "(if cache_state st = CACHE_DIRTY then device_flush_cache io st else (True, st)) = (True, s1)"
    "coherent s1" "logical s1 = logical st" "on_disk s1 = logical st" "cache_state s1 = CACHE_CLEAN" "same_run st s1"
    using clean_first [OF assms(1)] by metis
  have bs: "block_size s1 = block_size st" using s1(6) by (simp add: same_run_def)
  have len: "length (logical st) = length (on_disk st)" using length_logical assms(1) .
  obtain ok f where f: "set_pos io (k * of_nat (block_size s1)) (device s1) = (ok, f)"
    "contents f = logical st" "ok \<longrightarrow> pos f = unat k * block_size st"
    using fetch_block [OF s1(2,5), of k] assms(2) bs s1(4)
    by (cases "set_pos io (k * of_nat (block_size s1)) (device s1)") auto
  show ?thesis
  proof (cases ok)
    case False
    then show ?thesis using \<open>cached_block st \<noteq> k\<close> s1 f assms(1) len bs
      by (intro that [of "s1\<lparr>device := f\<rparr>"])
        (simp_all add: device_cache_block_def same_run_def sized_def coherent_def)
  next
    case True
    obtain xs f' where r: "fread_bytes io (block_size s1) f = (xs, f')" by (cases "fread_bytes io (block_size s1) f")
    have xs: "xs = window (logical st) (unat k * block_size st) (block_size st)" "contents f' = logical st"
      using read_at [OF r] f(2,3) bs True by simp_all
    have b0: "0 < block_size st" using assms(1) by (simp add: coherent_def sized_def)
    then have lx: "length xs < block_size st" using window_short [of "logical st" "unat k * block_size st" "block_size st"] assms(3) len xs(1) by simp
    have lc: "length (cache s1) = block_size st" using s1(2) bs by (simp add: coherent_def sized_def)
    show ?thesis using \<open>cached_block st \<noteq> k\<close> s1 f(1) True r xs(2) lx lc assms(1) bs len
      by (intro that [of "s1\<lparr>device := f', cache := xs @ drop (length xs) (cache s1)\<rparr>"])
        (simp_all add: device_cache_block_def same_run_def sized_def coherent_def)
  qed
qed

lemma whole_bound: "coherent st \<Longrightarrow> whole st \<le> length (logical st)"
  by (simp add: whole_def length_logical)

lemma whole_small: "coherent st \<Longrightarrow> whole st < 2 ^ 63"
  unfolding whole_def by (rule le_less_trans [OF div_times_less_eq_dividend]) (simp add: coherent_def sized_def)

lemma block_in_iff:
  fixes a b n :: nat
  assumes "0 < b"
  shows "a div b * b + b \<le> n \<longleftrightarrow> a < n div b * b"
proof -
  have "a div b * b + b \<le> n \<longleftrightarrow> Suc (a div b) \<le> n div b"
    using assms by (simp add: less_eq_div_iff_mult_less_eq add.commute)
  also have "\<dots> \<longleftrightarrow> a < n div b * b" using assms by (simp add: Suc_le_eq div_less_iff_less_mult)
  finally show ?thesis .
qed

text \<open>One step of a loop: the block of the byte at \<open>a\<close>.\<close>

lemma block_step_in:
  assumes "coherent st" and "a < whole st"
  obtains st' where "device_cache_block io (of_nat (a div block_size st)) st = (True, st')" "coherent st'"
    "logical st' = logical st" "cached_block st' = of_nat (a div block_size st)"
    "cache_at st' = a div block_size st * block_size st"
    "cache st' = window (logical st) (a div block_size st * block_size st) (block_size st)" "settled {} st st'"
proof -
  have b: "512 \<le> block_size st" using assms(1) by (simp add: coherent_def sized_def)
  have fits: "a div block_size st * block_size st + block_size st \<le> length (on_disk st)"
    using assms(2) b by (simp add: block_in_iff whole_def)
  have "a div block_size st \<le> a" by simp
  also have "a < 2 ^ 64" using assms(2) whole_small [OF assms(1)] by simp
  finally have k: "unat (of_nat (a div block_size st) :: u64) = a div block_size st" by (rule unat_of_nat64)
  obtain st' where "device_cache_block io (of_nat (a div block_size st)) st = (True, st')" "coherent st'" "logical st' = logical st"
    "cached_block st' = of_nat (a div block_size st)"
    "cache st' = window (logical st) (a div block_size st * block_size st) (block_size st)" "settled {} st st'"
    using cache_block_in [OF assms(1), of "of_nat (a div block_size st)"] fits k by metis
  then show ?thesis using k by (intro that [of st']) (simp_all add: cache_at_def settled_def same_run_def)
qed

lemma block_here:
  assumes "coherent st" and "a < whole st"
  shows "(of_nat (a div block_size st) :: u64) \<noteq> - 1"
proof -
  have b: "2 \<le> block_size st" using assms(1) by (simp add: coherent_def sized_def)
  have "a div block_size st * block_size st < 2 ^ 64"
    by (rule le_less_trans [OF div_times_less_eq_dividend]) (use assms(2) whole_small [OF assms(1)] in simp)
  moreover have "unat (of_nat (a div block_size st) :: u64) = a div block_size st"
    by (intro unat_of_nat64 le_less_trans [OF div_le_dividend]) (use assms(2) whole_small [OF assms(1)] in simp)
  ultimately show ?thesis using b by (intro block_not_none [of _ "block_size st"]) simp_all
qed

lemma block_step_out:
  assumes "coherent st" and "whole st \<le> a" and "a < 2 ^ 64"
  obtains st' where "device_cache_block io (of_nat (a div block_size st)) st = (False, st')" "on_disk st' = logical st"
    "sized st'" "same_run st st'"
proof -
  have b: "512 \<le> block_size st" using assms(1) by (simp add: coherent_def sized_def)
  have small: "a div block_size st * block_size st < 2 ^ 64"
    using div_times_less_eq_dividend [of a "block_size st"] assms(3) by linarith
  have "a div block_size st \<le> a" by simp
  then have k: "unat (of_nat (a div block_size st) :: u64) = a div block_size st" using assms(3) by (intro unat_of_nat64) linarith
  have "(of_nat (a div block_size st) :: u64) \<noteq> - 1" using small b k by (intro block_not_none [of _ "block_size st"]) simp_all
  moreover have "\<not> a div block_size st * block_size st + block_size st \<le> length (on_disk st)"
    using assms(2) b by (simp add: block_in_iff whole_def)
  ultimately show ?thesis using small k
    by (intro cache_block_out [OF assms(1), of "of_nat (a div block_size st)", OF _ _ _ that]) simp_all
qed

section \<open>Reading\<close>

text \<open>The part of a piece that lies in the block of its first byte.\<close>

lemma chunk_within:
  fixes a b n :: nat
  assumes "0 < b" and "0 < n"
  shows "0 < min n (b - a mod b)" "a mod b + min n (b - a mod b) \<le> b" "a div b * b + a mod b = a"
proof -
  have "a mod b < b" using assms(1) by simp
  then show "0 < min n (b - a mod b)" "a mod b + min n (b - a mod b) \<le> b" using assms(2) by simp_all
qed simp

lemma window_part:
  assumes "i + n \<le> m"
  shows "take n (drop i (window d a m)) = window d (a + i) n"
  using assms by (simp add: window_def drop_take min_def add.commute)

lemma at_place:
  fixes loc :: u64
  assumes "unat loc + p < 2 ^ 64"
  shows "unat (loc + of_nat p) = unat loc + p"
proof -
  have "unat (of_nat p :: u64) = p" using assms by (intro unat_of_nat64) linarith
  then show ?thesis using assms by (subst unat_plus64) simp_all
qed

lemma same_run_size: "same_run st st' \<Longrightarrow> block_size st' = block_size st" "settled S st st' \<Longrightarrow> block_size st' = block_size st"
  by (simp_all add: same_run_def settled_def)

lemma read_loop_step:
  assumes "progress < count" and "0 < block_size st" and "unat (loc + of_nat progress) = a"
  shows "read_loop io loc count progress buf st = (case device_cache_block io (of_nat (a div block_size st)) st of
      (ok, st1) \<Rightarrow> if \<not> ok then (None, st1)
        else read_loop io loc count (progress + min (count - progress) (block_size st - a mod block_size st))
          (buf @ take (min (count - progress) (block_size st - a mod block_size st)) (drop (a mod block_size st) (cache st1))) st1)"
  using assms by (subst read_loop.simps) (simp add: Let_def split: prod.split)

lemma read_loop_in:
  assumes "coherent st" and "progress \<le> count" and "unat loc + count \<le> whole st"
  shows "\<exists>st'. read_loop io loc count progress buf st
      = (Some (buf @ window (logical st) (unat loc + progress) (count - progress)), st') \<and>
    coherent st' \<and> logical st' = logical st \<and> settled {} st st'"
  using assms
proof (induction "count - progress" arbitrary: progress buf st rule: less_induct)
  case less
  show ?case
  proof (cases "count \<le> progress")
    case True
    then show ?thesis using less.prems(1) by (simp add: window_def)
  next
    case False
    have b: "0 < block_size st" "block_size st \<noteq> 0" using less.prems(1) by (auto simp: coherent_def sized_def)
    let ?a = "unat loc + progress"
    have a: "?a < whole st" using less.prems(3) False by simp
    then have at: "unat (loc + of_nat progress) = ?a" using whole_small [OF less.prems(1)] by (intro at_place) simp
    define n where n_def: "n = min (count - progress) (block_size st - ?a mod block_size st)"
    obtain s1 where s1: "device_cache_block io (of_nat (?a div block_size st)) st = (True, s1)" "coherent s1"
      "logical s1 = logical st" "settled {} st s1"
      "cache s1 = window (logical st) (?a div block_size st * block_size st) (block_size st)"
      using block_step_in [OF less.prems(1) a] by metis
    have n: "0 < n" "?a mod block_size st + n \<le> block_size st" "n \<le> count - progress"
      using chunk_within [OF b(1), of "count - progress" ?a] False by (simp_all add: n_def)
    have piece: "take n (drop (?a mod block_size st) (cache s1)) = window (logical st) ?a n"
      using n(2) by (simp add: s1(5) window_part)
    have w: "whole s1 = whole st" using s1(4) same_run_whole by (simp add: settled_def)
    have shorter: "count - (progress + n) < count - progress" "progress + n \<le> count" using n False by simp_all
    obtain s2 where s2: "read_loop io loc count (progress + n) (buf @ window (logical st) ?a n) s1
      = (Some ((buf @ window (logical st) ?a n) @ window (logical s1) (unat loc + (progress + n)) (count - (progress + n))), s2)"
      "coherent s2" "logical s2 = logical s1" "settled {} s1 s2"
      using less.hyps [OF shorter(1) s1(2) shorter(2), of "buf @ window (logical st) ?a n"] less.prems(3) w by auto
    have "read_loop io loc count progress buf st = read_loop io loc count (progress + n) (buf @ window (logical st) ?a n) s1"
      using read_loop_step [OF _ b(1) at, of count buf] False s1(1) piece by (simp flip: n_def)
    moreover have "window (logical st) ?a n @ window (logical st) (unat loc + (progress + n)) (count - (progress + n))
        = window (logical st) ?a (count - progress)"
    proof -
      have "?a + n + (count - (progress + n)) \<le> length (logical st)"
        using n(3) False less.prems(3) whole_bound [OF less.prems(1)] by linarith
      then show ?thesis using window_append [of ?a n "count - (progress + n)" "logical st"] n(3) False
        by (simp add: add.assoc)
    qed
    ultimately show ?thesis using s1 s2 settled_trans [OF s1(4) s2(4)] by (intro exI [of _ s2]) simp
  qed
qed

lemma read_loop_out:
  assumes "coherent st" and "progress < count" and "\<not> unat loc + count \<le> whole st"
    and "progress = 0 \<or> unat loc + progress \<le> whole st"
  shows "\<exists>st'. read_loop io loc count progress buf st = (None, st') \<and> on_disk st' = logical st \<and> sized st' \<and> same_run st st'"
  using assms
proof (induction "count - progress" arbitrary: progress buf st rule: less_induct)
  case less
  have b: "0 < block_size st" "block_size st \<noteq> 0" using less.prems(1) by (auto simp: coherent_def sized_def)
  let ?a = "unat loc + progress"
  have lb: "unat loc < 2 ^ 64" using unsigned_less [of loc] by simp
  then have a64: "?a < 2 ^ 64" using less.prems(4) whole_small [OF less.prems(1)] by auto
  then have at: "unat (loc + of_nat progress) = ?a" by (rule at_place)
  note step = read_loop_step [OF less.prems(2) b(1) at]
  show ?case
  proof (cases "whole st \<le> ?a")
    case True
    obtain s1 where "device_cache_block io (of_nat (?a div block_size st)) st = (False, s1)" "on_disk s1 = logical st"
      "sized s1" "same_run st s1"
      using block_step_out [OF less.prems(1) True a64] by metis
    then show ?thesis using step by simp
  next
    case False
    define n where n_def: "n = min (count - progress) (block_size st - ?a mod block_size st)"
    obtain s1 where s1: "device_cache_block io (of_nat (?a div block_size st)) st = (True, s1)" "coherent s1"
      "logical s1 = logical st" "settled {} st s1"
      using block_step_in [OF less.prems(1), of ?a] False by (metis not_le)
    have n: "0 < n" "?a mod block_size st + n \<le> block_size st" "?a div block_size st * block_size st + ?a mod block_size st = ?a"
      using chunk_within [OF b(1), of "count - progress" ?a] less.prems(2) by (simp_all add: n_def)
    have w: "whole s1 = whole st" and run: "same_run st s1" using s1(4) same_run_whole by (simp_all add: settled_def)
    have "?a div block_size st * block_size st + block_size st \<le> length (on_disk st)"
      using False b(1) by (simp add: block_in_iff whole_def)
    then have "Suc (?a div block_size st) \<le> length (on_disk st) div block_size st"
      using b(1) by (simp add: less_eq_div_iff_mult_less_eq add.commute)
    then have "Suc (?a div block_size st) * block_size st \<le> whole st" unfolding whole_def by (rule mult_le_mono1)
    then have fits: "unat loc + (progress + n) \<le> whole st" using n(2,3) unfolding mult_Suc by linarith
    then have more: "progress + n < count" using less.prems(3) by simp
    then have "count - (progress + n) < count - progress" using n(1) by simp
    then obtain s2 where "read_loop io loc count (progress + n)
        (buf @ take n (drop (?a mod block_size st) (cache s1))) s1 = (None, s2)" "on_disk s2 = logical s1" "sized s2" "same_run s1 s2"
      using less.hyps [of "progress + n" s1 "buf @ take n (drop (?a mod block_size st) (cache s1))"] s1(2) more less.prems(3) fits w
      by auto
    then show ?thesis using step s1 same_run_trans [OF run] by (simp flip: n_def)
  qed
qed

theorem device_read_in:
  assumes "coherent st" and "unat loc + n \<le> whole st"
  obtains st' where "device_read io loc n st = (Some (window (logical st) (unat loc) n), st')" "coherent st'"
    "logical st' = logical st" "settled {} st st'"
  using read_loop_in [of st 0 n loc "[]"] assms by (auto simp: device_read_def)

theorem device_read_out:
  assumes "coherent st" and "\<not> unat loc + n \<le> whole st" and "0 < n"
  obtains st' where "device_read io loc n st = (None, st')" "on_disk st' = logical st" "sized st'" "same_run st st'"
  using read_loop_out [of st 0 n loc "[]"] assms by (auto simp: device_read_def)

section \<open>Writing\<close>

lemma settled_mono: "settled S a b \<Longrightarrow> S \<subseteq> T \<Longrightarrow> settled T a b"
  by (auto simp: settled_def)

lemma cached_in_place: "coherent st \<Longrightarrow> cached_block st \<noteq> - 1 \<Longrightarrow> patch (on_disk st) (cache_at st) (cache st) = logical st"
  by (cases "cache_state st") (auto simp: coherent_def logical_def patch_window)

lemma write_cached:
  assumes "coherent st" and "cached_block st \<noteq> - 1" and "off + length xs \<le> block_size st"
    and s': "st' = st\<lparr>cache := take off (cache st) @ xs @ drop (off + length xs) (cache st), cache_state := CACHE_DIRTY\<rparr>"
  shows "coherent st'" "logical st' = patch (logical st) (cache_at st + off) xs"
    "settled {cache_at st + off ..< cache_at st + off + length xs} st st'"
proof -
  have c: "cache_at st + block_size st \<le> length (on_disk st)" "length (cache st) = block_size st" "sized st"
    using assms(1,2) by (simp_all add: coherent_def sized_def)
  have eq: "take off (cache st) @ xs @ drop (off + length xs) (cache st) = patch (cache st) off xs"
    by (simp add: patch_def)
  show "coherent st'" using assms(2,3) c by (simp add: s' eq coherent_def sized_def cache_at_def)
  have "logical st' = patch (on_disk st) (cache_at st) (patch (cache st) off xs)"
    by (simp add: s' eq logical_def cache_at_def)
  also have "\<dots> = patch (patch (on_disk st) (cache_at st) (cache st)) (cache_at st + off) xs"
    using c assms(3) by (intro patch_within) simp_all
  finally show l: "logical st' = patch (logical st) (cache_at st + off) xs"
    using cached_in_place [OF assms(1,2)] by simp
  have "cache_at st + off + length xs \<le> length (logical st)" using c(1) assms(1,3) length_logical by simp
  moreover have "on_disk st' = on_disk st" "same_run st st'" by (simp_all add: s' same_run_def)
  ultimately show "settled {cache_at st + off ..< cache_at st + off + length xs} st st'"
    using assms(1) by (simp add: settled_def l patch_nth length_logical)
qed

lemma write_loop_step:
  assumes "progress < length dat" and "0 < block_size st" and "unat (loc + of_nat progress) = a"
  shows "write_loop io loc dat progress st = (case device_cache_block io (of_nat (a div block_size st)) st of
      (ok, st1) \<Rightarrow> if \<not> ok then (False, st1)
        else let n = min (length dat - progress) (block_size st - a mod block_size st) in
          write_loop io loc dat (progress + n)
            (st1\<lparr>cache := take (a mod block_size st) (cache st1) @ take n (drop progress dat) @ drop (a mod block_size st + n) (cache st1),
                 cache_state := CACHE_DIRTY\<rparr>))"
  using assms by (subst write_loop.simps) (simp add: Let_def split: prod.split)

lemma write_loop_in:
  assumes "coherent st" and "progress \<le> length dat" and "unat loc + length dat \<le> whole st"
  shows "\<exists>st'. write_loop io loc dat progress st = (True, st') \<and> coherent st' \<and>
    logical st' = patch (logical st) (unat loc + progress) (drop progress dat) \<and>
    settled {unat loc + progress ..< unat loc + length dat} st st'"
  using assms
proof (induction "length dat - progress" arbitrary: progress st rule: less_induct)
  case less
  show ?case
  proof (cases "length dat \<le> progress")
    case True
    then show ?thesis using less.prems(1) by simp
  next
    case False
    have b: "0 < block_size st" using less.prems(1) by (auto simp: coherent_def sized_def)
    let ?a = "unat loc + progress"
    have a: "?a < whole st" using less.prems(3) False by simp
    then have at: "unat (loc + of_nat progress) = ?a" using whole_small [OF less.prems(1)] by (intro at_place) simp
    define n where n_def: "n = min (length dat - progress) (block_size st - ?a mod block_size st)"
    obtain s1 where s1: "device_cache_block io (of_nat (?a div block_size st)) st = (True, s1)" "coherent s1"
      "logical s1 = logical st" "cached_block s1 \<noteq> - 1" "cache_at s1 = ?a div block_size st * block_size st" "settled {} st s1"
      using block_step_in [OF less.prems(1) a] block_here [OF less.prems(1) a] by metis
    have n: "0 < n" "?a mod block_size st + n \<le> block_size st" "cache_at s1 + ?a mod block_size st = ?a" "n \<le> length dat - progress"
      using chunk_within [OF b(1), of "length dat - progress" ?a] False s1(5) by (simp_all add: n_def)
    let ?xs = "take n (drop progress dat)"
    define s2 where s2_def: "s2 = s1\<lparr>cache := take (?a mod block_size st) (cache s1) @ ?xs @ drop (?a mod block_size st + n) (cache s1),
      cache_state := CACHE_DIRTY\<rparr>"
    have lx: "length ?xs = n" using n(4) by simp
    have bs: "block_size s1 = block_size st" and w1: "whole s1 = whole st"
      using s1(6) same_run_size(2) settled_run(2) by auto
    have s2: "coherent s2" "logical s2 = patch (logical st) ?a ?xs" "settled {?a ..< ?a + n} s1 s2"
      using write_cached [OF s1(2,4), of "?a mod block_size st" ?xs s2] n(2,3) lx bs s1(3) by (simp_all add: s2_def)
    have w: "whole s2 = whole st" using settled_run(2) [OF s2(3)] w1 by simp
    have shorter: "length dat - (progress + n) < length dat - progress" "progress + n \<le> length dat" using n False by simp_all
    obtain s3 where s3: "write_loop io loc dat (progress + n) s2 = (True, s3)" "coherent s3"
      "logical s3 = patch (logical s2) (unat loc + (progress + n)) (drop (progress + n) dat)"
      "settled {unat loc + (progress + n) ..< unat loc + length dat} s2 s3"
      using less.hyps [OF shorter(1) s2(1) shorter(2)] less.prems(3) w by auto
    have step: "write_loop io loc dat progress st = (True, s3)"
      using write_loop_step [OF _ b at, of dat] False s1(1) s3(1) by (simp add: Let_def flip: n_def s2_def)
    have "?a + length ?xs + length (drop (progress + n) dat) \<le> length (logical st)"
      using less.prems(3) whole_bound [OF less.prems(1)] lx shorter(2) by simp
    from patch_append [OF this] have "logical s3 = patch (logical st) ?a (?xs @ drop (progress + n) dat)"
      using lx by (simp add: s3(3) s2(2) add.assoc)
    also have "?xs @ drop (progress + n) dat = drop progress dat"
      by (metis append_take_drop_id drop_drop add.commute)
    finally have l: "logical s3 = patch (logical st) ?a (drop progress dat)" .
    have "settled {?a ..< unat loc + length dat} st s3"
    proof (rule settled_trans [OF settled_mono [OF s1(6)]], simp, rule settled_trans)
      show "settled {?a ..< unat loc + length dat} s1 s2" using s2(3) by (rule settled_mono) (use shorter(2) in auto)
      show "settled {?a ..< unat loc + length dat} s2 s3" using s3(4) by (rule settled_mono) auto
    qed
    then show ?thesis using step s3(2) l by blast
  qed
qed

text \<open>An installing write: the journal gets what was there. It is refused where the disk has no whole block, where
  the journal is full, and without memory.\<close>

definition fits :: "'f tool \<Rightarrow> u64 \<Rightarrow> nat \<Rightarrow> bool" where
  "fits st loc n \<longleftrightarrow> n = 0 \<or> unat loc + n \<le> whole st"

definition saved :: "'f tool \<Rightarrow> u64 \<Rightarrow> nat \<Rightarrow> uninstall_data" where
  "saved st loc n = \<lparr>ud_data = window (logical st) (unat loc) n, ud_loc = loc\<rparr>"

lemma window_0 [simp]: "window d a 0 = []"
  by (simp add: window_def)

lemma device_read_fits:
  assumes "coherent st" and "fits st loc n"
  obtains st' where "device_read io loc n st = (Some (window (logical st) (unat loc) n), st')" "coherent st'"
    "logical st' = logical st" "settled {} st st'"
proof (cases "n = 0")
  case True
  then show ?thesis using assms that [of st] by (simp add: device_read_def)
next
  case False
  then show ?thesis using assms that by (metis device_read_in fits_def)
qed

lemma device_read_unfit:
  assumes "coherent st" and "\<not> fits st loc n"
  obtains st' where "device_read io loc n st = (None, st')" "on_disk st' = logical st" "sized st'" "same_run st st'"
  using device_read_out [of st loc n] assms that by (auto simp: fits_def)

lemma write_loop_fits:
  assumes "coherent st" and "fits st loc (length dat)"
  obtains st' where "write_loop io loc dat 0 st = (True, st')" "coherent st'" "logical st' = patch (logical st) (unat loc) dat"
    "settled {unat loc ..< unat loc + length dat} st st'"
proof (cases "dat = []")
  case True
  then show ?thesis using assms that [of st] by simp
next
  case False
  then show ?thesis using write_loop_in [of st 0 dat loc] assms that by (auto simp: fits_def)
qed

theorem device_write_fits:
  assumes "coherent st" and "\<not> uninstalling st" and "length (undo st) < UNINSTALL_DATA_MAX"
    and "malloc_ok io (device st) (length dat)" and "fits st loc (length dat)"
  obtains st' where "device_write io dat loc st = (True, st'\<lparr>undo := undo st @ [saved st loc (length dat)]\<rparr>)" "coherent st'"
    "logical st' = patch (logical st) (unat loc) dat" "settled {unat loc ..< unat loc + length dat} st st'"
proof -
  obtain s1 where s1: "device_read io loc (length dat) st = (Some (window (logical st) (unat loc) (length dat)), s1)"
    "coherent s1" "logical s1 = logical st" "settled {} st s1"
    using device_read_fits assms(1,5) .
  have "fits s1 loc (length dat)" using assms(5) settled_run(2) [OF s1(4)] by (simp add: fits_def)
  then obtain s2 where s2: "write_loop io loc dat 0 s1 = (True, s2)" "coherent s2" "logical s2 = patch (logical s1) (unat loc) dat"
    "settled {unat loc ..< unat loc + length dat} s1 s2"
    using write_loop_fits s1(2) by metis
  have run: "settled {unat loc ..< unat loc + length dat} st s2" using settled_trans [OF settled_mono [OF s1(4)] s2(4)] by simp
  then have "undo s2 = undo st" by (simp add: settled_def same_run_def)
  then show ?thesis using assms(2-4) s1 s2 run
    by (intro that [of s2]) (simp_all add: device_write_def saved_def)
qed

theorem device_write_refused:
  assumes "coherent st" and "\<not> uninstalling st"
    and "UNINSTALL_DATA_MAX \<le> length (undo st) \<or> \<not> malloc_ok io (device st) (length dat) \<or> \<not> fits st loc (length dat)"
  obtains st' where "device_write io dat loc st = (False, st')" "on_disk st' \<in> {on_disk st, logical st}" "sized st'" "same_run st st'"
proof (cases "UNINSTALL_DATA_MAX \<le> length (undo st) \<or> \<not> malloc_ok io (device st) (length dat)")
  case True
  then have "device_write io dat loc st = (False, st)" using assms(2) by (auto simp: device_write_def)
  then show ?thesis using assms(1) that [of st] by (simp add: coherent_def)
next
  case False
  then obtain s1 where "device_read io loc (length dat) st = (None, s1)" "on_disk s1 = logical st" "sized s1" "same_run st s1"
    using device_read_unfit assms by metis
  then show ?thesis using False assms(2) that [of s1] by (auto simp: device_write_def)
qed

lemma device_write_uninstalling:
  assumes "coherent st" and "uninstalling st" and "fits st loc (length dat)"
  obtains st' where "device_write io dat loc st = (True, st')" "coherent st'" "logical st' = patch (logical st) (unat loc) dat"
    "same_run st st'"
  using write_loop_fits assms settled_run(1) by (metis device_write_def)

section \<open>Starting\<close>

text \<open>A disk of at least one block of 512 bytes.\<close>

lemma device_init_starts:
  assumes "512 \<le> length (contents f)" and "length (contents f) < 2 ^ 63" and "malloc_ok io f 512"
  obtains st where "device_init io (tool_init f) = (True, st)" "coherent st" "logical st = contents f" "on_disk st = contents f"
    "block_size st = 512" "undo st = []" "\<not> uninstalling st"
proof -
  obtain xs f' where r: "fread_bytes io 512 (rewind_file io f) = (xs, f')" by (cases "fread_bytes io 512 (rewind_file io f)")
  have xs: "xs = window (contents f) 0 512" "contents f' = contents f" using read_at [OF r] rewind_law by simp_all
  let ?s = "tool_init f\<lparr>device := f', cache := xs, block_size := 512, cache_state := CACHE_CLEAN, cached_block := 0\<rparr>"
  have "length xs = 512" using xs(1) assms(1) by simp
  then have "device_init io (tool_init f) = (True, ?s)"
    using assms(3) r by (simp add: device_init_def tool_init_def Let_def)
  then show ?thesis using xs assms(1,2)
    by (intro that [of ?s]) (simp_all add: tool_init_def coherent_def sized_def cache_at_def logical_def)
qed

lemma device_init_refused:
  assumes "length (contents f) < 512"
  obtains st where "device_init io (tool_init f) = (False, st)" "on_disk st = contents f"
proof -
  have short: "fread_bytes io n (rewind_file io g) = (xs, g') \<Longrightarrow> contents g = contents f \<Longrightarrow> 512 \<le> n \<Longrightarrow>
      contents g' = contents f \<and> length xs \<noteq> n" for n g xs g'
    using read_at [of n "rewind_file io g" xs g'] rewind_law assms window_short [of "contents f" 0 n] by auto
  have "\<exists>st'. guess_loop io gs st = (False, st') \<and> on_disk st' = contents f"
    if "\<forall>g\<in>set gs. 512 \<le> g" "on_disk st = contents f" for gs and st :: "'f tool"
    using that
  proof (induction gs arbitrary: st)
    case (Cons g gs)
    obtain xs f' where r: "fread_bytes io g (rewind_file io (device st)) = (xs, f')"
      by (cases "fread_bytes io g (rewind_file io (device st))")
    then have "contents f' = contents f" "length xs \<noteq> g" using short Cons.prems by auto
    then show ?case using Cons.IH [of "st\<lparr>device := f', cache := xs @ drop (length xs) (cache st)\<rparr>"] Cons.prems r
      by (simp add: Let_def)
  qed simp
  from this [of "[512, 2048, 4096]" "tool_init f"] show ?thesis using that by (auto simp: device_init_def tool_init_def)
qed

end

section \<open>Image files\<close>

text \<open>A file on a 64-bit host, opened for reading and writing: the usual thing to install to. Reads stop at its end,
  writes behind its end fill the gap with zeros.\<close>

record image =
  image_bytes :: bytes
  image_pos :: nat

definition image_io :: "(nat \<Rightarrow> bool) \<Rightarrow> image stdio" where
  "image_io mem =
    \<lparr>fseek_set = (\<lambda>p f. if unat p < 2 ^ 63 then (True, f\<lparr>image_pos := unat p\<rparr>) else (False, f)),
     fseek_cur = (\<lambda>p f. if image_pos f + unat p < 2 ^ 63 then (True, f\<lparr>image_pos := image_pos f + unat p\<rparr>) else (False, f)),
     rewind_file = (\<lambda>f. f\<lparr>image_pos := 0\<rparr>),
     fread_bytes = (\<lambda>n f. (let xs = take n (drop (image_pos f) (image_bytes f))
       in (xs, f\<lparr>image_pos := image_pos f + length xs\<rparr>))),
     fwrite_bytes = (\<lambda>xs f. (True, f\<lparr>image_pos := image_pos f + length xs, image_bytes :=
       take (image_pos f) (image_bytes f @ replicate (image_pos f - length (image_bytes f)) 0) @ xs
         @ drop (image_pos f + length xs) (image_bytes f)\<rparr>)),
     malloc_ok = (\<lambda>f n. mem n),
     LONG_MAX = 2 ^ 63 - 1\<rparr>"

interpretation img: disk_file "image_io mem" image_bytes image_pos
proof unfold_locales
  fix p and f f' :: image and ok
  show "2 ^ 63 - 1 \<le> LONG_MAX (image_io mem)" by (simp add: image_io_def)
  show "fseek_set (image_io mem) p f = (ok, f') \<Longrightarrow> image_bytes f' = image_bytes f \<and> (ok \<longrightarrow> image_pos f' = unat p)"
    by (auto simp: image_io_def split: if_splits)
  show "unat p < 2 ^ 63 \<Longrightarrow> fst (fseek_set (image_io mem) p f)" by (simp add: image_io_def)
  show "image_bytes (rewind_file (image_io mem) f) = image_bytes f" "image_pos (rewind_file (image_io mem) f) = 0"
    by (simp_all add: image_io_def)
next
  fix n xs and f f' :: image and ok
  show "fread_bytes (image_io mem) n f = (xs, f') \<Longrightarrow>
      image_bytes f' = image_bytes f \<and> xs = window (image_bytes f) (image_pos f) n"
    by (auto simp: image_io_def Let_def window_def)
  show "fwrite_bytes (image_io mem) xs f = (ok, f') \<Longrightarrow> image_pos f + length xs \<le> length (image_bytes f) \<Longrightarrow>
      ok \<and> image_bytes f' = patch (image_bytes f) (image_pos f) xs"
    by (auto simp: image_io_def patch_def)
qed

section \<open>Any sequence of accesses\<close>

datatype access = Read_at u64 nat | Write_at bytes u64

text \<open>Through the cache, up to the first that fails.\<close>

fun run_accesses :: "'f stdio \<Rightarrow> access list \<Rightarrow> 'f tool \<Rightarrow> bytes list option \<times> 'f tool" where
  "run_accesses io [] st = (Some [], st)"
| "run_accesses io (Read_at loc n # as) st = (case device_read io loc n st of
     (None, st1) \<Rightarrow> (None, st1)
   | (Some bs, st1) \<Rightarrow> (case run_accesses io as st1 of (r, st2) \<Rightarrow> (map_option (\<lambda>rs. bs # rs) r, st2)))"
| "run_accesses io (Write_at dat loc # as) st = (case device_write io dat loc st of
     (ok, st1) \<Rightarrow> if ok then run_accesses io as st1 else (None, st1))"

text \<open>On plain bytes: what is read and what the bytes become. \<open>k\<close> counts the writes done.\<close>

definition in_blocks :: "bytes \<Rightarrow> u64 \<Rightarrow> nat \<Rightarrow> bool" where
  "in_blocks d loc n \<longleftrightarrow> n = 0 \<or> unat loc + n \<le> length d div 512 * 512"

fun flat_accesses :: "(nat \<Rightarrow> bool) \<Rightarrow> access list \<Rightarrow> nat \<Rightarrow> bytes \<Rightarrow> (bytes list \<times> bytes) option" where
  "flat_accesses mem [] k d = Some ([], d)"
| "flat_accesses mem (Read_at loc n # as) k d =
    (if in_blocks d loc n then map_option (map_prod ((#) (window d (unat loc) n)) id) (flat_accesses mem as k d) else None)"
| "flat_accesses mem (Write_at dat loc # as) k d =
    (if k < UNINSTALL_DATA_MAX \<and> mem (length dat) \<and> in_blocks d loc (length dat)
     then flat_accesses mem as (Suc k) (patch d (unat loc) dat) else None)"

lemma image_mem [simp]: "malloc_ok (image_io mem) f n = mem n"
  by (simp add: image_io_def)

text \<open>The undo list is no part of what the cache sees.\<close>

lemma undo_irrelevant [simp]:
  "img.coherent (st\<lparr>undo := u\<rparr>) = img.coherent st" "img.logical (st\<lparr>undo := u\<rparr>) = img.logical st"
  "img.sized (st\<lparr>undo := u\<rparr>) = img.sized st" "img.whole (st\<lparr>undo := u\<rparr>) = img.whole st"
  by (simp_all add: img.coherent_def img.logical_def img.sized_def img.whole_def img.cache_at_def)

lemma fits_in_blocks:
  "img.coherent st \<Longrightarrow> block_size st = 512 \<Longrightarrow> img.fits st loc n = in_blocks (img.logical st) loc n"
  by (simp add: img.fits_def in_blocks_def img.whole_def img.length_logical)

lemma run_accesses_flat:
  assumes "img.coherent st" and "block_size st = 512" and "\<not> uninstalling st"
  shows "case run_accesses (image_io mem) as st of
      (None, st1) \<Rightarrow> flat_accesses mem as (length (undo st)) (img.logical st) = None
    | (Some rs, st1) \<Rightarrow> flat_accesses mem as (length (undo st)) (img.logical st) = Some (rs, img.logical st1) \<and> img.coherent st1"
  using assms
proof (induction as arbitrary: st)
  case (Cons a as)
  show ?case
  proof (cases a)
    case (Read_at loc n)
    show ?thesis
    proof (cases "img.fits st loc n")
      case True
      obtain s1 where s1: "device_read (image_io mem) loc n st = (Some (window (img.logical st) (unat loc) n), s1)"
        "img.coherent s1" "img.logical s1 = img.logical st" "img.settled {} st s1"
        using img.device_read_fits [OF Cons.prems(1) True] .
      moreover have "block_size s1 = 512" "\<not> uninstalling s1" "undo s1 = undo st"
        using img.settled_run(1) [OF s1(4)] Cons.prems by (simp_all add: img.same_run_def)
      ultimately show ?thesis using Cons.IH [of s1] True Cons.prems
        by (auto simp: Read_at fits_in_blocks split: prod.split option.split)
    next
      case False
      then obtain s1 where "device_read (image_io mem) loc n st = (None, s1)"
        using img.device_read_unfit [OF Cons.prems(1) False] by metis
      then show ?thesis using False Cons.prems by (simp add: Read_at fits_in_blocks)
    qed
  next
    case (Write_at dat loc)
    show ?thesis
    proof (cases "length (undo st) < UNINSTALL_DATA_MAX \<and> mem (length dat) \<and> img.fits st loc (length dat)")
      case True
      obtain s1 where s1: "device_write (image_io mem) dat loc st = (True, s1\<lparr>undo := undo st @ [img.saved st loc (length dat)]\<rparr>)"
        "img.coherent s1" "img.logical s1 = patch (img.logical st) (unat loc) dat"
        "img.settled {unat loc ..< unat loc + length dat} st s1"
        using img.device_write_fits [OF Cons.prems(1,3), of mem dat loc] True by auto
      moreover have "block_size s1 = 512" "\<not> uninstalling s1"
        using img.settled_run(1) [OF s1(4)] Cons.prems by (simp_all add: img.same_run_def)
      ultimately show ?thesis using Cons.IH [of "s1\<lparr>undo := undo st @ [img.saved st loc (length dat)]\<rparr>"] True Cons.prems
        by (simp add: Write_at fits_in_blocks split: prod.splits option.splits)
    next
      case False
      then obtain s1 where "device_write (image_io mem) dat loc st = (False, s1)"
        using img.device_write_refused [OF Cons.prems(1,3), of mem dat loc] by (metis image_mem not_le)
      then show ?thesis using False Cons.prems by (auto simp: Write_at fits_in_blocks)
    qed
  qed
qed simp

text \<open>C22: Through its one-block cache the installer reads and writes an image file as if it were plain bytes. It
  refuses an image shorter than a block of 512 bytes; of the others every sequence of reads and writes gives the
  bytes a flat array would give, fails exactly where a piece is not within whole blocks, where the journal is full
  or memory is not to be had, and after a flush the file holds exactly the bytes written.\<close>

theorem cache_is_transparent:
  assumes "length d < 2 ^ 63" and "mem 512"
  shows "case device_init (image_io mem) (tool_init \<lparr>image_bytes = d, image_pos = p\<rparr>) of (started, st) \<Rightarrow>
    (started \<longleftrightarrow> 512 \<le> length d) \<and>
    (started \<longrightarrow> (case run_accesses (image_io mem) as st of
        (None, st1) \<Rightarrow> flat_accesses mem as 0 d = None
      | (Some rs, st1) \<Rightarrow> (case device_flush_cache (image_io mem) st1 of (flushed, st2) \<Rightarrow>
          flushed \<and> flat_accesses mem as 0 d = Some (rs, image_bytes (device st2)))))"
proof (cases "512 \<le> length d")
  case True
  obtain st where st: "device_init (image_io mem) (tool_init \<lparr>image_bytes = d, image_pos = p\<rparr>) = (True, st)"
    "img.coherent st" "img.logical st = d" "block_size st = 512" "undo st = []" "\<not> uninstalling st"
    using img.device_init_starts [of "\<lparr>image_bytes = d, image_pos = p\<rparr>" mem] True assms by auto
  obtain r st1 where r: "run_accesses (image_io mem) as st = (r, st1)" by (cases "run_accesses (image_io mem) as st")
  show ?thesis
  proof (cases r)
    case None
    then show ?thesis using run_accesses_flat [OF st(2,4,6), of mem as] r st True by simp
  next
    case (Some rs)
    then have flat: "flat_accesses mem as 0 d = Some (rs, img.logical st1)" and co: "img.coherent st1"
      using run_accesses_flat [OF st(2,4,6), of mem as] r st by simp_all
    obtain st2 where "device_flush_cache (image_io mem) st1 = (True, st2)" "image_bytes (device st2) = img.logical st1"
      using img.flush_coherent [OF co] by metis
    then show ?thesis using Some r st(1) True flat by simp
  qed
next
  case False
  then obtain st where "device_init (image_io mem) (tool_init \<lparr>image_bytes = d, image_pos = p\<rparr>) = (False, st)"
    using img.device_init_refused [of "\<lparr>image_bytes = d, image_pos = p\<rparr>"] by auto
  then show ?thesis using False by simp
qed

lemma cache_is_transparent_witness:
  "case device_init (image_io (\<lambda>_. True)) (tool_init \<lparr>image_bytes = replicate 1024 0, image_pos = 0\<rparr>) of (started, st) \<Rightarrow>
    started \<and> (case run_accesses (image_io (\<lambda>_. True)) [Write_at [1, 2] 511, Read_at 510 4] st of (r, st1) \<Rightarrow>
      r = Some [[0, 1, 2, 0]] \<and>
      image_bytes (device (snd (device_flush_cache (image_io (\<lambda>_. True)) st1))) = replicate 511 0 @ [1, 2] @ replicate 511 0)"
proof -
  have "replicate 1024 0 = replicate 511 0 @ replicate 513 (0 :: u8)" by (simp flip: replicate_add)
  then have "patch (replicate 1024 0) 511 [1, 2] = replicate 511 0 @ [1, 2] @ replicate 511 (0 :: u8)" by (simp add: patch_def)
  moreover have "window (replicate 511 0 @ [1, 2] @ replicate 511 (0 :: u8)) 510 4 = [0, 1, 2, 0]"
    by (simp add: window_def)
  ultimately have flat: "flat_accesses (\<lambda>_. True) [Write_at [1, 2] 511, Read_at 510 4] 0 (replicate 1024 0)
      = Some ([[0, 1, 2, 0]], replicate 511 0 @ [1, 2] @ replicate 511 0)"
    by (simp add: in_blocks_def UNINSTALL_DATA_MAX_def)
  let ?io = "image_io (\<lambda>_. True)"
  obtain ok st where st: "device_init ?io (tool_init \<lparr>image_bytes = replicate 1024 0, image_pos = 0\<rparr>) = (ok, st)" by fastforce
  obtain r st1 where r: "run_accesses ?io [Write_at [1, 2] 511, Read_at 510 4] st = (r, st1)" by fastforce
  obtain f st2 where f: "device_flush_cache ?io st1 = (f, st2)" by fastforce
  show ?thesis
    using cache_is_transparent [where d = "replicate 1024 0" and mem = "\<lambda>_. True" and p = 0
      and as = "[Write_at [1, 2] 511, Read_at 510 4]"] flat
    by (cases r) (simp_all add: st r f del: run_accesses.simps flat_accesses.simps)
qed

end
