(* ===== verification/LimineUndo.thy ===== *)
theory LimineUndo
  imports LimineInstall LimineCache
begin

text \<open>
  The journal of the installer: at every moment of an installation it leads back to the disk as it was
  found, so that a failed installation leaves the disk unchanged, and the file a successful one
  leaves behind undoes it.
\<close>

section \<open>Journals\<close>

definition covered :: "uninstall_data list \<Rightarrow> nat set" where
  "covered uds = (\<Union>ud\<in>set uds. {unat (ud_loc ud) ..< unat (ud_loc ud) + length (ud_data ud)})"

lemma covered_simps [simp]: "covered [] = {}" "covered (uds @ [ud]) = covered uds \<union> {unat (ud_loc ud) ..< unat (ud_loc ud) + length (ud_data ud)}"
  by (auto simp: covered_def)

text \<open>Two disks that differ at most at \<open>C\<close>.\<close>

definition agrees :: "nat set \<Rightarrow> bytes \<Rightarrow> bytes \<Rightarrow> bool" where
  "agrees C d orig \<longleftrightarrow> length d = length orig \<and> (\<forall>p < length orig. p \<notin> C \<longrightarrow> d ! p = orig ! p)"

lemma agrees_refl [simp]: "agrees C d d"
  by (simp add: agrees_def)

definition replay :: "uninstall_data list \<Rightarrow> bytes \<Rightarrow> bytes" where
  "replay uds d = fold (\<lambda>ud e. patch e (unat (ud_loc ud)) (ud_data ud)) uds d"

text \<open>Whatever the writes have left, replaying the journal backwards gives the disk as it was found.\<close>

definition journal :: "bytes \<Rightarrow> uninstall_data list \<Rightarrow> bool" where
  "journal orig uds \<longleftrightarrow> (\<forall>d. agrees (covered uds) d orig \<longrightarrow> replay (rev uds) d = orig)"

lemma journal_Nil [simp]: "journal orig []"
  by (auto simp: journal_def replay_def agrees_def intro: nth_equalityI)

lemma journal_snoc:
  assumes "journal orig uds" and "agrees (covered uds) d orig" and "n = 0 \<or> unat loc + n \<le> length d"
  shows "journal orig (uds @ [\<lparr>ud_data = window d (unat loc) n, ud_loc = loc\<rparr>])"
  unfolding journal_def
proof (intro allI impI)
  fix e
  assume e: "agrees (covered (uds @ [\<lparr>ud_data = window d (unat loc) n, ud_loc = loc\<rparr>])) e orig"
  let ?e = "patch e (unat loc) (window d (unat loc) n)"
  have "agrees (covered uds) ?e orig"
  proof (cases "n = 0")
    case False
    then have n: "unat loc + n \<le> length d" using assms(3) by simp
    then have "length ?e = length orig" using e assms(2) by (simp add: agrees_def)
    moreover have "?e ! p = orig ! p" if "p < length orig" "p \<notin> covered uds" for p
      using e assms(2) n that by (auto simp: agrees_def patch_nth window_nth)
    ultimately show ?thesis by (simp add: agrees_def)
  qed (use e in simp)
  then have "replay (rev uds) ?e = orig" using assms(1) by (simp add: journal_def)
  then show "replay (rev (uds @ [\<lparr>ud_data = window d (unat loc) n, ud_loc = loc\<rparr>])) e = orig" by (simp add: replay_def)
qed

section \<open>Installing keeps the journal\<close>

lemma put_nonempty [simp]: "put16 a \<noteq> []" "put32 b \<noteq> []" "put64 c \<noteq> []"
  by (simp_all flip: length_greater_0_conv)

lemma lba2chs_nonempty [simp]: "lba2chs lba \<noteq> []"
  by (simp add: lba2chs_def Let_def)

definition converts :: "part_to_conv list \<Rightarrow> bool" where
  "converts parts \<longleftrightarrow> (\<forall>p\<in>set parts. chs_start p \<noteq> [] \<and> chs_end p \<noteq> [])"

lemma convert_converts: "convert_entry e parts = Some parts' \<Longrightarrow> converts parts \<Longrightarrow> converts parts'"
  by (auto simp: convert_entry_def converts_def split: if_splits option.splits)

definition entry_ok :: "bool \<Rightarrow> nat \<Rightarrow> uninstall_data \<Rightarrow> bool" where
  "entry_ok full n ud \<longleftrightarrow> ud_data ud = [] \<and> \<not> full \<or> ud_data ud \<noteq> [] \<and> unat (ud_loc ud) + length (ud_data ud) \<le> n"

context disk_file
begin

definition journaled :: "bool \<Rightarrow> bytes \<Rightarrow> 'f tool \<Rightarrow> bool" where
  "journaled full orig st \<longleftrightarrow> \<not> uninstalling st \<and> block_size st = 512 \<and> length (undo st) \<le> UNINSTALL_DATA_MAX \<and>
     (\<forall>ud\<in>set (undo st). entry_ok full (whole st) ud) \<and> journal orig (undo st) \<and>
     agrees (covered (undo st)) (on_disk st) orig"

definition working :: "bool \<Rightarrow> bytes \<Rightarrow> 'f tool \<Rightarrow> bool" where
  "working full orig st \<longleftrightarrow> coherent st \<and> journaled full orig st \<and> agrees (covered (undo st)) (logical st) orig"

text \<open>After a failed access the cache is no longer to be trusted.\<close>

definition broken :: "bool \<Rightarrow> bytes \<Rightarrow> 'f tool \<Rightarrow> bool" where
  "broken full orig st \<longleftrightarrow> sized st \<and> journaled full orig st"

definition undoable :: "bool \<Rightarrow> bytes \<Rightarrow> ('a, 'f) action \<Rightarrow> ('a \<Rightarrow> bool) \<Rightarrow> bool" where
  "undoable full orig m Q \<longleftrightarrow> (\<forall>st. working full orig st \<longrightarrow>
     (case m st of (None, st') \<Rightarrow> broken full orig st' | (Some x, st') \<Rightarrow> working full orig st' \<and> Q x))"

lemma working_broken: "working full orig st \<Longrightarrow> broken full orig st"
  by (simp add: working_def broken_def coherent_def)

lemma settled_agrees:
  assumes "settled S st st'" and "agrees C (on_disk st) orig" and "agrees C (logical st) orig" and "coherent st'"
  shows "agrees (C \<union> S) (on_disk st') orig" "agrees (C \<union> S) (logical st') orig"
  using assms length_logical [OF assms(4)] by (auto simp: settled_def same_run_def agrees_def)

lemma working_settled:
  assumes "working full orig st" and "settled {} st st'" and "coherent st'"
  shows "working full orig st'"
  using assms settled_agrees [OF assms(2) _ _ assms(3), of "covered (undo st)" orig] settled_run [OF assms(2)]
  by (simp add: working_def journaled_def same_run_def)

lemma broken_after:
  assumes "working full orig st" and "on_disk st' \<in> {on_disk st, logical st}" and "sized st'" and "same_run st st'"
  shows "broken full orig st'"
  using assms same_run_whole [OF assms(4)] by (auto simp: working_def broken_def journaled_def same_run_def)

named_theorems undoable_intros

lemma undoable_give [undoable_intros]: "Q x \<Longrightarrow> undoable full orig (give x) Q"
  by (simp add: undoable_def give_def)

lemma undoable_stop [undoable_intros]: "undoable full orig stop Q"
  by (simp add: undoable_def stop_def working_broken)

lemma undoable_andthen:
  assumes "undoable full orig m R" and "\<And>x. R x \<Longrightarrow> undoable full orig (k x) Q"
  shows "undoable full orig (andthen m k) Q"
  using assms by (fastforce simp: undoable_def andthen_def split: prod.split option.split)

lemma undoable_dread [undoable_intros]:
  assumes "\<And>h. length h = n \<Longrightarrow> undoable full orig (k h) Q"
  shows "undoable full orig (dread io loc n k) Q"
  unfolding undoable_def
proof (intro allI impI)
  fix st
  assume w: "working full orig st"
  then have co: "coherent st" by (simp add: working_def)
  show "case dread io loc n k st of (None, st') \<Rightarrow> broken full orig st' | (Some x, st') \<Rightarrow> working full orig st' \<and> Q x"
  proof (cases "fits st loc n")
    case True
    obtain s1 where s1: "device_read io loc n st = (Some (window (logical st) (unat loc) n), s1)" "coherent s1" "settled {} st s1"
      using device_read_fits [OF co True] by metis
    have "length (window (logical st) (unat loc) n) = n"
      using True whole_bound [OF co] by (auto simp: fits_def)
    then show ?thesis using assms working_settled [OF w s1(3,2)] s1(1) by (simp add: dread_def andthen_def undoable_def)
  next
    case False
    obtain s1 where s1: "device_read io loc n st = (None, s1)" "on_disk s1 = logical st" "sized s1" "same_run st s1"
      using device_read_unfit [OF co False] .
    then show ?thesis using broken_after [OF w, of s1] by (simp add: dread_def andthen_def)
  qed
qed

lemma undoable_dwrite [undoable_intros]:
  assumes "full \<Longrightarrow> dat \<noteq> []" and "undoable full orig k Q"
  shows "undoable full orig (dwrite io dat loc k) Q"
  unfolding undoable_def
proof (intro allI impI)
  fix st
  assume w: "working full orig st"
  then have co: "coherent st" "\<not> uninstalling st" by (simp_all add: working_def journaled_def)
  show "case dwrite io dat loc k st of (None, st') \<Rightarrow> broken full orig st' | (Some x, st') \<Rightarrow> working full orig st' \<and> Q x"
  proof (cases "length (undo st) < UNINSTALL_DATA_MAX \<and> malloc_ok io (device st) (length dat) \<and> fits st loc (length dat)")
    case True
    then obtain s1 where s1: "device_write io dat loc st = (True, s1\<lparr>undo := undo st @ [saved st loc (length dat)]\<rparr>)" "coherent s1"
      "settled {unat loc ..< unat loc + length dat} st s1"
      using device_write_fits [OF co] by metis
    let ?s = "s1\<lparr>undo := undo st @ [saved st loc (length dat)]\<rparr>"
    have room: "length dat = 0 \<or> unat loc + length dat \<le> length (logical st)"
      using True whole_bound [OF co(1)] by (auto simp: fits_def)
    then have len: "length (window (logical st) (unat loc) (length dat)) = length dat" by auto
    have "journal orig (undo st @ [saved st loc (length dat)])"
      using w room unfolding saved_def by (intro journal_snoc) (simp_all add: working_def journaled_def)
    moreover have "entry_ok full (whole st) (saved st loc (length dat))"
      using True assms(1) len by (auto simp: entry_ok_def saved_def fits_def)
    ultimately have "working full orig ?s"
      using settled_agrees [OF s1(3) _ _ s1(2), of "covered (undo st)" orig] w s1(2) settled_run [OF s1(3)] True len
      by (auto simp: working_def journaled_def same_run_def saved_def coherent_def sized_def logical_def cache_at_def whole_def)
    then show ?thesis using assms(2) s1(1) by (simp add: dwrite_def undoable_def)
  next
    case False
    then obtain s1 where "device_write io dat loc st = (False, s1)" "on_disk s1 \<in> {on_disk st, logical st}" "sized s1" "same_run st s1"
      using device_write_refused [OF co] by (metis not_le)
    then show ?thesis using broken_after [OF w] by (simp add: dwrite_def)
  qed
qed

abbreviation keeps_journal :: "bool \<Rightarrow> bytes \<Rightarrow> ('a, 'f) action \<Rightarrow> bool" where
  "keeps_journal full orig m \<equiv> undoable full orig m (\<lambda>_. True)"

lemma undoable_then [undoable_intros]:
  "keeps_journal full orig m \<Longrightarrow> (\<And>x. undoable full orig (k x) Q) \<Longrightarrow> undoable full orig (andthen m k) Q"
  by (rule undoable_andthen)

lemma undoable_if [undoable_intros]:
  "(P \<Longrightarrow> undoable full orig a Q) \<Longrightarrow> (\<not> P \<Longrightarrow> undoable full orig b Q) \<Longrightarrow> undoable full orig (if P then a else b) Q"
  by simp

lemma undoable_option [undoable_intros]:
  "(r = None \<Longrightarrow> undoable full orig a Q) \<Longrightarrow> (\<And>x. r = Some x \<Longrightarrow> undoable full orig (b x) Q) \<Longrightarrow>
   undoable full orig (case r of None \<Rightarrow> a | Some x \<Rightarrow> b x) Q"
  by (simp split: option.split)

lemma undoable_pair [undoable_intros]:
  "(\<And>x y. r = (x, y) \<Longrightarrow> undoable full orig (b x y) Q) \<Longrightarrow> undoable full orig (case r of (x, y) \<Rightarrow> b x y) Q"
  by (simp split: prod.split)

lemma undoable_malloc [undoable_intros]:
  "undoable full orig m Q \<Longrightarrow> undoable full orig (\<lambda>st. if \<not> malloc_ok io (device st) n then stop st else m st) Q"
  using working_broken by (auto simp: undoable_def stop_def)

lemma undoable_flush [undoable_intros]: "keeps_journal full orig (flush_or_stop io)"
  unfolding undoable_def
proof (intro allI impI)
  fix st
  assume w: "working full orig st"
  then have "coherent st" by (simp add: working_def)
  then obtain s1 where s1: "device_flush_cache io st = (True, s1)" "coherent s1" "logical s1 = logical st" "on_disk s1 = logical st" "same_run st s1"
    using flush_coherent by metis
  then have "settled {} st s1" by (simp add: settled_same)
  then show "case flush_or_stop io st of (None, st') \<Rightarrow> broken full orig st' | (Some x, st') \<Rightarrow> working full orig st' \<and> True"
    using working_settled [OF w _ s1(2)] s1(1) by (simp add: flush_or_stop_def)
qed

lemma keeps_wipe_hint [undoable_intros]:
  "0 < zeros \<Longrightarrow> keeps_journal full orig k \<Longrightarrow> keeps_journal full orig (wipe_hint io force loc hint zeros k)"
  unfolding wipe_hint_def by (intro undoable_intros) simp_all

lemma keeps_validate [undoable_intros]: "keeps_journal full orig (validate_or_force io loc force)"
  unfolding validate_or_force_def by (intro undoable_intros) simp_all

lemma probe_sizes: "\<forall>lb\<in>set lbs. lb \<noteq> 0 \<Longrightarrow> undoable full orig (probe_gpt io lbs) (\<lambda>r. \<forall>lb h. r = Some (lb, h) \<longrightarrow> lb \<noteq> 0)"
proof (induction lbs)
  case (Cons lb lbs)
  then show ?case unfolding probe_gpt.simps by (intro undoable_intros) simp_all
qed (simp add: undoable_intros)

lemma keeps_secondary [undoable_intros]: "keeps_journal full orig (check_secondary io lb hdr)"
  unfolding check_secondary_def by (intro undoable_intros) simp_all

lemma collect_converts:
  "converts parts \<Longrightarrow> undoable full orig (collect_parts io hdr base is parts) (\<lambda>r. \<forall>ps. r = Some ps \<longrightarrow> converts ps)"
proof (induction "is" arbitrary: parts)
  case (Cons i "is")
  then show ?case unfolding collect_parts.simps by (intro undoable_intros Cons.IH) (auto intro: convert_converts)
qed (simp add: undoable_intros)

lemma keeps_write_each [undoable_intros]:
  "\<forall>w\<in>set ws. fst w \<noteq> [] \<Longrightarrow> keeps_journal full orig k \<Longrightarrow> keeps_journal full orig (write_each io ws k)"
proof (induction ws)
  case (Cons w ws)
  then show ?case by (cases w) (auto intro!: undoable_intros)
qed simp

lemma keeps_wipe_secondary [undoable_intros]:
  "lb \<noteq> 0 \<Longrightarrow> keeps_journal full orig k \<Longrightarrow> keeps_journal full orig (wipe_secondary io lb alt is k)"
proof (induction "is")
  case (Cons i "is")
  then show ?case unfolding wipe_secondary.simps by (intro undoable_intros) (simp_all add: unat_gt_0)
qed simp

lemma keeps_write_mbr [undoable_intros]:
  assumes "lb \<noteq> 0" and "converts parts"
  shows "keeps_journal full orig (write_mbr io rnd lb hdr parts)"
proof -
  have lb: "0 < unat lb" using assms(1) by (simp add: unat_gt_0)
  have "parts ! i \<in> set parts" if "i < length parts" for i using that by simp
  then show ?thesis unfolding write_mbr_def using assms lb
    by (intro undoable_intros) (auto simp: mbr_entry_writes_def Let_def converts_def)
qed

lemma keeps_isohybrid [undoable_intros]:
  assumes "lb \<noteq> 0"
  shows "keeps_journal full orig (convert_isohybrid io rnd allowed lb hdr)"
proof -
  have "undoable full orig (collect_parts io hdr base is []) (\<lambda>r. \<forall>ps. r = Some ps \<longrightarrow> converts ps)" for base "is"
    by (rule collect_converts) (simp add: converts_def)
  then show ?thesis unfolding convert_isohybrid_def using assms
    by (intro undoable_if undoable_dread undoable_pair undoable_option undoable_malloc undoable_then
        undoable_andthen [where R = "\<lambda>r. \<forall>ps. r = Some ps \<longrightarrow> converts ps"] undoable_give keeps_write_mbr) simp_all
qed

lemma keeps_check_mbr_entry [undoable_intros]: "keeps_journal full orig (check_mbr_entry io force at s)"
  unfolding check_mbr_entry_def Let_def by (intro undoable_intros) simp_all

lemma keeps_check_mbr_entries [undoable_intros]: "keeps_journal full orig (check_mbr_entries io force ats s)"
  by (induction ats arbitrary: s) (simp_all add: undoable_intros)

lemma keeps_check_mbr [undoable_intros]: "keeps_journal full orig (check_mbr io force)"
  unfolding check_mbr_def by (intro undoable_intros) simp_all

lemma keeps_find [undoable_intros]: "keeps_journal full orig (find_bios_boot io hdr base is)"
proof (induction "is")
  case (Cons i "is")
  then show ?case unfolding find_bios_boot.simps by (intro undoable_intros) simp_all
qed (simp add: undoable_intros)

lemma keeps_chosen [undoable_intros]: "keeps_journal full orig (chosen_partition io scan force hdr base ndx)"
  unfolding chosen_partition_def Let_def by (intro undoable_intros) simp_all

lemma keeps_stage2 [undoable_intros]: "keeps_journal full orig (stage2_location io force lb e)"
  unfolding stage2_location_def by (intro undoable_intros) simp_all

lemma keeps_gpt_stage2 [undoable_intros]: "keeps_journal full orig (gpt_stage2 io scan opts lb hdr)"
  unfolding gpt_stage2_def by (intro undoable_intros)

lemma keeps_write_stages:
  "(full \<Longrightarrow> 512 < length img) \<Longrightarrow> keeps_journal full orig (write_stages io img loc)"
  unfolding write_stages_def by (intro undoable_intros) auto

lemma keeps_install:
  assumes "full \<Longrightarrow> 512 < length img"
  shows "keeps_journal full orig (install io rnd scan img opts)"
  unfolding install_def
proof (rule undoable_andthen)
  show "undoable full orig (probe_gpt io [512, 4096]) (\<lambda>r. \<forall>lb h. r = Some (lb, h) \<longrightarrow> lb \<noteq> 0)"
    by (rule probe_sizes) simp
  fix probed :: "(u64 \<times> gpt_table_header) option"
  assume "\<forall>lb h. probed = Some (lb, h) \<longrightarrow> lb \<noteq> 0"
  then show "keeps_journal full orig (andthen (case probed of
          None \<Rightarrow> give False
        | Some (lb_size, hdr) \<Rightarrow> andthen (check_secondary io lb_size hdr) (\<lambda>_.
            convert_isohybrid io rnd (gpt2mbr_allowed opts) lb_size hdr)) (\<lambda>gpt.
        andthen (if gpt then gpt_stage2 io scan opts (fst (the probed)) (snd (the probed))
                 else andthen (check_mbr io (opt_force opts)) (\<lambda>_. give 512)) (\<lambda>stage2_loc.
          write_stages io img stage2_loc)))"
    using assms by (intro undoable_intros keeps_write_stages) auto
qed

section \<open>Undoing\<close>

lemma fits_settled: "same_run st st' \<Longrightarrow> fits st' loc n = fits st loc n"
  by (simp add: fits_def same_run_whole)

lemma restore_entries:
  assumes "coherent st" and "uninstalling st" and "\<forall>ud\<in>set uds. fits st (ud_loc ud) (length (ud_data ud))"
  shows "\<exists>st'. fold (restore_entry io) uds (False, False, st) = (False, False, st') \<and> coherent st' \<and>
    logical st' = replay uds (logical st) \<and> same_run st st'"
  using assms
proof (induction uds arbitrary: st)
  case (Cons ud uds)
  obtain s1 where s1: "device_write io (ud_data ud) (ud_loc ud) st = (True, s1)" "coherent s1"
    "logical s1 = patch (logical st) (unat (ud_loc ud)) (ud_data ud)" "same_run st s1"
    using device_write_uninstalling [OF Cons.prems(1,2)] Cons.prems(3) by (metis list.set_intros(1))
  have "uninstalling s1" using Cons.prems(2) s1(4) by (simp add: same_run_def)
  moreover have "\<forall>ud\<in>set uds. fits s1 (ud_loc ud) (length (ud_data ud))" using Cons.prems(3) fits_settled [OF s1(4)] by simp
  ultimately obtain s2 where "fold (restore_entry io) uds (False, False, s1) = (False, False, s2)" "coherent s2"
    "logical s2 = replay uds (logical s1)" "same_run s1 s2"
    using Cons.IH [OF s1(2)] by blast
  moreover have "restore_entry io ud (False, False, st) = (False, False, s1)" using s1(1) by (simp add: restore_entry_def)
  ultimately show ?case using s1(3) same_run_trans [OF s1(4)] by (intro exI [of _ s2]) (simp add: replay_def)
qed (simp add: replay_def)

theorem uninstall_replays:
  assumes "sized st" and "\<forall>ud\<in>set (undo st). fits st (ud_loc ud) (length (ud_data ud))"
  obtains st' where "uninstall io st = (True, st')" "on_disk st' = replay (undo st) (on_disk st)"
proof -
  let ?s = "forget_cache (st\<lparr>uninstalling := True\<rparr>)"
  have s: "coherent ?s" "uninstalling ?s" "logical ?s = on_disk st" "undo ?s = undo st"
    using assms(1) by (simp_all add: forget_cache_def coherent_def sized_def logical_def)
  have "whole ?s = whole st" by (simp add: forget_cache_def whole_def)
  then have "\<forall>ud\<in>set (undo st). fits ?s (ud_loc ud) (length (ud_data ud))" using assms(2) by (simp add: fits_def)
  from restore_entries [OF s(1,2) this] obtain s1 where s1: "fold (restore_entry io) (undo st) (False, False, ?s) = (False, False, s1)"
    "coherent s1" "logical s1 = replay (undo st) (on_disk st)"
    using s(3) by auto
  obtain s2 where "device_flush_cache io s1 = (True, s2)" "on_disk s2 = logical s1" using flush_coherent [OF s1(2)] by metis
  then show ?thesis using s1 by (intro that [of s2]) (simp_all add: uninstall_def)
qed

theorem broken_is_undone:
  assumes "broken full orig st"
  obtains st' where "uninstall io (reverse_uninstall_data st) = (True, st')" "on_disk st' = orig"
proof -
  let ?s = "reverse_uninstall_data st"
  have "sized ?s" "\<forall>ud\<in>set (undo ?s). fits ?s (ud_loc ud) (length (ud_data ud))"
    using assms by (auto simp: broken_def journaled_def reverse_uninstall_data_def sized_def fits_def entry_ok_def whole_def)
  then obtain st' where "uninstall io ?s = (True, st')" "on_disk st' = replay (undo ?s) (on_disk ?s)" by (rule uninstall_replays)
  then show ?thesis using assms
    by (intro that [of st']) (simp_all add: broken_def journaled_def journal_def reverse_uninstall_data_def)
qed

end

section \<open>The journal file\<close>

lemma load_entries_store:
  assumes "\<forall>ud\<in>set uds. ud_data ud \<noteq> [] \<and> length (ud_data ud) < 2 ^ 64" and "\<forall>n. mem n"
  shows "load_entries mem n (length uds)
    (concat (map (\<lambda>ud. put64 (ud_loc ud) @ put64 (of_nat (length (ud_data ud))) @ ud_data ud) uds)) acc = Loaded (acc @ uds)"
  using assms(1)
proof (induction uds arbitrary: acc)
  case (Cons ud uds)
  have "unat (of_nat (length (ud_data ud)) :: u64) = length (ud_data ud)" using Cons.prems by (intro unat_of_nat64) simp
  then show ?case using Cons assms(2) by (simp add: Let_def)
qed simp

lemma load_store:
  assumes "\<forall>ud\<in>set uds. ud_data ud \<noteq> [] \<and> length (ud_data ud) < 2 ^ 64" and "\<forall>n. mem n" and "length uds \<le> UNINSTALL_DATA_MAX"
  shows "load_uninstall_data mem (Some (store_uninstall_data uds)) = Loaded uds"
proof -
  have "unat (of_nat (length uds) :: u64) = length uds" using assms(3) by (intro unat_of_nat64) (simp add: UNINSTALL_DATA_MAX_def)
  then show ?thesis using assms(3) load_entries_store [OF assms(1,2), of "length uds" "[]"]
    by (simp add: load_uninstall_data_def store_uninstall_data_def Let_def not_less)
qed

section \<open>Installations on image files\<close>

lemma install_working:
  assumes "img.working full d st" and "full \<Longrightarrow> 512 < length boot"
  shows "case install (image_io mem) rnd scan boot opts st of
      (None, st') \<Rightarrow> img.broken full d st' | (Some x, st') \<Rightarrow> img.working full d st'"
  using img.keeps_install [of full boot d mem rnd scan opts] assms
  by (force simp: img.undoable_def split: prod.split option.split)

lemma fresh_image_working:
  assumes "length d < 2 ^ 63" and "512 \<le> length d" and "mem 512"
  obtains st where "device_init (image_io mem) (tool_init \<lparr>image_bytes = d, image_pos = p\<rparr>) = (True, st)" "img.working full d st"
    "undo st = []" "img.on_disk st = d" "block_size st = 512"
proof -
  obtain st where st: "device_init (image_io mem) (tool_init \<lparr>image_bytes = d, image_pos = p\<rparr>) = (True, st)" "img.coherent st"
    "img.logical st = d" "img.on_disk st = d" "block_size st = 512" "undo st = []" "\<not> uninstalling st"
    using img.device_init_starts [of "\<lparr>image_bytes = d, image_pos = p\<rparr>" mem] assms by auto
  then have "img.working full d st" by (simp add: img.working_def img.journaled_def)
  then show ?thesis using that st by blast
qed

lemma image_refused:
  assumes "\<not> (512 \<le> length d \<and> mem 512)"
  obtains st where "device_init (image_io mem) (tool_init \<lparr>image_bytes = d, image_pos = p\<rparr>) = (False, st)" "img.on_disk st = d"
proof (cases "512 \<le> length d")
  case True
  then have "device_init (image_io mem) (tool_init \<lparr>image_bytes = d, image_pos = p\<rparr>) = (False, tool_init \<lparr>image_bytes = d, image_pos = p\<rparr>)"
    using assms by (simp add: device_init_def)
  then show ?thesis using that by (simp add: tool_init_def)
next
  case False
  then show ?thesis using img.device_init_refused [of "\<lparr>image_bytes = d, image_pos = p\<rparr>" mem] that by auto
qed

end
