(* ===== verification/LimineResult.thy ===== *)
theory LimineResult
  imports LimineUndo
begin

text \<open>
  What an installation that succeeds has done to an image: into a master boot record and the gap behind it, or
  into the BIOS boot partition of a GPT. The actions of the installer are described by what they
  do to the bytes the tool sees.
\<close>

section \<open>Actions on bytes\<close>

text \<open>The tool at work on the bytes \<open>L\<close>, with \<open>u\<close> entries in its journal.\<close>

definition at_work :: "bytes \<Rightarrow> nat \<Rightarrow> image tool \<Rightarrow> bool" where
  "at_work L u st \<longleftrightarrow> img.coherent st \<and> \<not> uninstalling st \<and> block_size st = 512 \<and> img.logical st = L \<and> length (undo st) = u"

text \<open>From there the action ends with \<open>Q\<close>; it may jump to the clean-up only when \<open>F\<close> holds.\<close>

definition spec :: "(nat \<Rightarrow> bool) \<Rightarrow> bool \<Rightarrow> bytes \<Rightarrow> nat \<Rightarrow> ('a, image) action \<Rightarrow> ('a \<Rightarrow> bytes \<Rightarrow> nat \<Rightarrow> bool) \<Rightarrow> bool" where
  "spec mem F L u m Q \<longleftrightarrow> (\<forall>st. at_work L u st \<longrightarrow> (case m st of
      (None, st') \<Rightarrow> F
    | (Some x, st') \<Rightarrow> \<exists>L' u'. at_work L' u' st' \<and> Q x L' u'))"

lemma give_then [simp]: "andthen (give x) k = k x"
  by (rule ext) (simp add: andthen_def give_def)

lemma spec_give: "Q x L u \<Longrightarrow> spec mem F L u (give x) Q"
  by (auto simp: spec_def give_def)

lemma spec_stop: "F \<Longrightarrow> spec mem F L u stop Q"
  by (simp add: spec_def stop_def)

lemma spec_andthen:
  assumes "spec mem F L u m R" and "\<And>x L' u'. R x L' u' \<Longrightarrow> spec mem F L' u' (k x) Q"
  shows "spec mem F L u (andthen m k) Q"
  unfolding spec_def
proof (intro allI impI)
  fix st
  assume "at_work L u st"
  then have m: "case m st of (None, st') \<Rightarrow> F | (Some x, st') \<Rightarrow> \<exists>L' u'. at_work L' u' st' \<and> R x L' u'"
    using assms(1) by (simp add: spec_def)
  show "case andthen m k st of (None, st') \<Rightarrow> F | (Some x, st') \<Rightarrow> \<exists>L' u'. at_work L' u' st' \<and> Q x L' u'"
  proof (cases "m st")
    case (Pair r s1)
    show ?thesis
    proof (cases r)
      case (Some x)
      then obtain L' u' where "at_work L' u' s1" "R x L' u'" using m Pair by auto
      then show ?thesis using assms(2) Pair Some by (simp add: andthen_def spec_def)
    qed (use m Pair in \<open>simp add: andthen_def\<close>)
  qed
qed

lemma spec_dread:
  assumes "in_blocks L loc n \<Longrightarrow> spec mem F L u (k (window L (unat loc) n)) Q" and "\<not> in_blocks L loc n \<Longrightarrow> F"
  shows "spec mem F L u (dread (image_io mem) loc n k) Q"
  unfolding spec_def
proof (intro allI impI)
  fix st
  assume w: "at_work L u st"
  then have co: "img.coherent st" and fits: "img.fits st loc n = in_blocks L loc n"
    by (auto simp: at_work_def fits_in_blocks)
  show "case dread (image_io mem) loc n k st of (None, st') \<Rightarrow> F | (Some x, st') \<Rightarrow> \<exists>L' u'. at_work L' u' st' \<and> Q x L' u'"
  proof (cases "in_blocks L loc n")
    case True
    then obtain s1 where s1: "device_read (image_io mem) loc n st = (Some (window (img.logical st) (unat loc) n), s1)"
      "img.coherent s1" "img.logical s1 = img.logical st" "img.settled {} st s1"
      using img.device_read_fits [OF co] fits by metis
    then have "at_work L u s1" using w img.settled_run(1) [OF s1(4)] by (simp add: at_work_def img.same_run_def)
    then show ?thesis using assms(1) True s1(1) w by (simp add: dread_def andthen_def spec_def at_work_def)
  next
    case False
    then obtain s1 where "device_read (image_io mem) loc n st = (None, s1)" using img.device_read_unfit [OF co] fits by metis
    then show ?thesis using assms(2) False by (simp add: dread_def andthen_def)
  qed
qed

lemma spec_dwrite:
  assumes "\<forall>n. mem n"
    and "in_blocks L loc (length dat) \<Longrightarrow> u < UNINSTALL_DATA_MAX \<Longrightarrow> spec mem F (patch L (unat loc) dat) (Suc u) k Q"
    and "\<not> (in_blocks L loc (length dat) \<and> u < UNINSTALL_DATA_MAX) \<Longrightarrow> F"
  shows "spec mem F L u (dwrite (image_io mem) dat loc k) Q"
  unfolding spec_def
proof (intro allI impI)
  fix st
  assume w: "at_work L u st"
  then have co: "img.coherent st" "\<not> uninstalling st" and fits: "img.fits st loc (length dat) = in_blocks L loc (length dat)"
    by (auto simp: at_work_def fits_in_blocks)
  show "case dwrite (image_io mem) dat loc k st of (None, st') \<Rightarrow> F | (Some x, st') \<Rightarrow> \<exists>L' u'. at_work L' u' st' \<and> Q x L' u'"
  proof (cases "in_blocks L loc (length dat) \<and> u < UNINSTALL_DATA_MAX")
    case True
    then obtain s1 where s1: "device_write (image_io mem) dat loc st = (True, s1\<lparr>undo := undo st @ [img.saved st loc (length dat)]\<rparr>)"
      "img.coherent s1" "img.logical s1 = patch (img.logical st) (unat loc) dat" "img.settled {unat loc ..< unat loc + length dat} st s1"
      using img.device_write_fits [OF co, of mem dat loc] fits assms(1) w by (auto simp: at_work_def)
    then have "at_work (patch L (unat loc) dat) (Suc u) (s1\<lparr>undo := undo st @ [img.saved st loc (length dat)]\<rparr>)"
      using w img.settled_run(1) [OF s1(4)] by (simp add: at_work_def img.same_run_def)
    then show ?thesis using assms(2) True s1(1) by (simp add: dwrite_def spec_def)
  next
    case False
    then obtain s1 where "device_write (image_io mem) dat loc st = (False, s1)"
      using img.device_write_refused [OF co] fits w by (metis at_work_def not_le)
    then show ?thesis using assms(3) False by (simp add: dwrite_def)
  qed
qed

lemma spec_flush: "Q () L u \<Longrightarrow> spec mem F L u (flush_or_stop (image_io mem)) Q"
  unfolding spec_def
proof (intro allI impI)
  fix st
  assume w: "at_work L u st" and q: "Q () L u"
  then obtain s1 where "device_flush_cache (image_io mem) st = (True, s1)" "img.coherent s1" "img.logical s1 = img.logical st" "img.same_run st s1"
    using img.flush_coherent by (metis at_work_def)
  then show "case flush_or_stop (image_io mem) st of (None, st') \<Rightarrow> F | (Some x, st') \<Rightarrow> \<exists>L' u'. at_work L' u' st' \<and> Q x L' u'"
    using w q by (auto simp: flush_or_stop_def at_work_def img.same_run_def)
qed

lemma spec_if: "(P \<Longrightarrow> spec mem F L u a Q) \<Longrightarrow> (\<not> P \<Longrightarrow> spec mem F L u b Q) \<Longrightarrow> spec mem F L u (if P then a else b) Q"
  by simp

lemma spec_weaken: "spec mem F L u m R \<Longrightarrow> (\<And>x L' u'. R x L' u' \<Longrightarrow> Q x L' u') \<Longrightarrow> spec mem F L u m Q"
  by (fastforce simp: spec_def split: prod.split option.split)

section \<open>What succeeds has flushed\<close>

definition ends_clean :: "('a, 'f) action \<Rightarrow> bool" where
  "ends_clean m \<longleftrightarrow> (\<forall>st x st'. m st = (Some x, st') \<longrightarrow> cache_state st' = CACHE_CLEAN)"

lemma ends_clean_intros:
  "(\<And>x. ends_clean (k x)) \<Longrightarrow> ends_clean (andthen m k)"
  "(\<And>h. ends_clean (g h)) \<Longrightarrow> ends_clean (dread io loc n g)"
  "ends_clean m' \<Longrightarrow> ends_clean (dwrite io dat loc m')"
  "ends_clean (flush_or_stop io)"
  by (auto simp: ends_clean_def andthen_def dread_def dwrite_def flush_or_stop_def device_flush_cache_def
      split: prod.splits option.splits if_splits)

lemma install_clean: "ends_clean (install io rnd scan boot opts)"
  unfolding install_def write_stages_def by (intro ends_clean_intros)

section \<open>Installing to a master boot record\<close>

lemma in_blocksI:
  assumes "unat loc + n \<le> k * 512" and "k * 512 \<le> length d"
  shows "in_blocks d loc n"
proof -
  have "k \<le> length d div 512" using assms(2) by (simp add: less_eq_div_iff_mult_less_eq)
  then have "k * 512 \<le> length d div 512 * 512" by (rule mult_le_mono1)
  then show ?thesis using assms(1) by (simp add: in_blocks_def)
qed

definition no_gpt :: "bytes \<Rightarrow> bool" where
  "no_gpt d \<longleftrightarrow> window d 512 8 \<noteq> bytes_of ''EFI PART'' \<and> window d 4096 8 \<noteq> bytes_of ''EFI PART''"

definition mbr_places :: "nat list" where "mbr_places = [446, 462, 478, 494]"

definition entry_fine :: "bytes \<Rightarrow> nat \<Rightarrow> bool" where
  "entry_fine d at \<longleftrightarrow> d ! at \<in> {0, 0x80} \<and> (d ! (at + 4) = 0 \<or> \<not> get32 (window d (at + 8) 4) < 63)"

definition no_filesystem :: "bytes \<Rightarrow> nat \<Rightarrow> bool" where
  "no_filesystem d at \<longleftrightarrow> window d (at + 3) 4 \<noteq> bytes_of ''NTFS'' \<and> window d (at + 54) 3 \<noteq> bytes_of ''FAT'' \<and>
     window d (at + 82) 3 \<noteq> bytes_of ''FAT'' \<and> window d (at + 3) 5 \<noteq> bytes_of ''FAT32'' \<and>
     get16 (window d (at + 1080) 2) \<noteq> 0xef53"

lemma take_window: "i \<le> n \<Longrightarrow> take i (window d a n) = window d a i"
  by (simp add: window_def min_def)

lemma signature_window: "gpt_signature (gpt_table_header_of (window d a sizeof_gpt_table_header)) = window d a 8"
  by (simp add: gpt_table_header_of_def field_def sizeof_gpt_table_header_def take_window)

lemma spec_probe_none:
  assumes "no_gpt L" and "4608 \<le> length L" and "Q None L u"
  shows "spec mem False L u (probe_gpt (image_io mem) [512, 4096]) Q"
proof -
  have "in_blocks L 512 sizeof_gpt_table_header" "in_blocks L 4096 sizeof_gpt_table_header"
    using assms(2) by (auto simp: sizeof_gpt_table_header_def intro!: in_blocksI [of _ _ 9])
  then show ?thesis using assms(1,3) unfolding probe_gpt.simps
    by (intro spec_dread spec_if spec_give) (simp_all add: signature_window no_gpt_def)
qed

lemma hd_window: "a < length d \<Longrightarrow> hd (window d a (Suc 0)) = d ! a"
  by (simp add: window_def hd_drop_conv_nth)

lemma spec_mbr_entry:
  assumes "entry_fine L (unat at)" and "unat at + 12 \<le> 512" and "512 \<le> length L"
    and "Q (mbr, any_active \<or> L ! unat at \<noteq> 0) L u"
  shows "spec mem False L u (check_mbr_entry (image_io mem) force at (mbr, any_active)) Q"
proof -
  have at: "unat (at + 4) = unat at + 4" "unat (at + 8) = unat at + 8"
    using assms(2) by (subst unat_plus64; simp)+
  have b: "in_blocks L at 1" "in_blocks L (at + 4) 1" "in_blocks L (at + 8) 4"
    using assms(2,3) at by (auto intro!: in_blocksI [of _ _ 1])
  have h: "hd (window L (unat at) (Suc 0)) = L ! unat at" "hd (window L (unat at + 4) (Suc 0)) = L ! (unat at + 4)"
    using assms(2,3) by (simp_all add: hd_window)
  have "L ! unat at AND 0x80 \<noteq> 0 \<longleftrightarrow> L ! unat at \<noteq> 0" using assms(1) by (auto simp: entry_fine_def)
  then show ?thesis using assms(1,4) b at h unfolding check_mbr_entry_def Let_def prod.case
    by (intro spec_dread) (auto simp: entry_fine_def intro!: spec_dread spec_give)
qed

lemma spec_mbr_entries:
  assumes "\<forall>at\<in>set ats. entry_fine L (unat at) \<and> unat at + 12 \<le> 512" and "512 \<le> length L"
    and "Q (mbr, any_active \<or> (\<exists>at\<in>set ats. L ! unat at \<noteq> 0)) L u"
  shows "spec mem False L u (check_mbr_entries (image_io mem) force ats (mbr, any_active)) Q"
  using assms
proof (induction ats arbitrary: any_active)
  case Nil
  then show ?case by (simp add: spec_give)
next
  case (Cons at ats)
  have "spec mem False L u (check_mbr_entry (image_io mem) force at (mbr, any_active))
      (\<lambda>s L' u'. s = (mbr, any_active \<or> L ! unat at \<noteq> 0) \<and> L' = L \<and> u' = u)"
    using Cons.prems by (intro spec_mbr_entry) simp_all
  then show ?case unfolding check_mbr_entries.simps
    by (rule spec_andthen) (use Cons in \<open>auto simp: disj_assoc\<close>)
qed

lemma spec_hint:
  assumes "window L (unat loc) (length hint) \<noteq> hint" and "in_blocks L loc (length hint)" and "spec mem False L u k Q"
  shows "spec mem False L u (wipe_hint (image_io mem) force loc hint zeros k) Q"
  using assms unfolding wipe_hint_def by (intro spec_dread) simp_all

lemma in_blocks_sub:
  assumes "in_blocks d loc n" and "0 < n" and "length d < 2 ^ 63" and "unat k + m \<le> n"
  shows "unat (loc + k) = unat loc + unat k" "in_blocks d (loc + k) m"
proof -
  have n: "unat loc + n \<le> length d div 512 * 512" using assms(1,2) by (simp add: in_blocks_def)
  also have "\<dots> < 2 ^ 64" by (rule le_less_trans [OF div_times_less_eq_dividend]) (use assms(3) in simp)
  finally show "unat (loc + k) = unat loc + unat k" using assms(4) by (intro unat_plus64) simp
  then show "in_blocks d (loc + k) m" using n assms(4) by (simp add: in_blocks_def)
qed

lemma hint_lengths: "length (bytes_of ''NTFS'') = 4" "length (bytes_of ''FAT'') = 3" "length (bytes_of ''FAT32'') = 5"
  by (simp_all add: bytes_of_def)

lemma spec_validate:
  assumes "no_filesystem L (unat loc)" and "in_blocks L loc 1082" and "length L < 2 ^ 63" and "Q True L u"
  shows "spec mem False L u (validate_or_force (image_io mem) loc force) Q"
proof -
  note sub = in_blocks_sub [OF assms(2) _ assms(3)]
  have at: "unat (loc + 3) = unat loc + 3" "unat (loc + 54) = unat loc + 54" "unat (loc + 82) = unat loc + 82"
    "unat (loc + 1080) = unat loc + 1080"
    using sub(1) [of 3 0] sub(1) [of 54 0] sub(1) [of 82 0] sub(1) [of 1080 0] by simp_all
  have b: "in_blocks L (loc + 3) 4" "in_blocks L (loc + 54) 3" "in_blocks L (loc + 82) 3" "in_blocks L (loc + 3) 5"
    "in_blocks L (loc + 1080) 2"
    using sub(2) [of 3 4] sub(2) [of 54 3] sub(2) [of 82 3] sub(2) [of 3 5] sub(2) [of 1080 2] by simp_all
  show ?thesis unfolding validate_or_force_def
    by (intro spec_hint spec_dread) (use assms(1,4) at b in \<open>simp_all add: no_filesystem_def spec_give hint_lengths\<close>)
qed

text \<open>The first partition is made active when none is.\<close>

definition some_active :: "bytes \<Rightarrow> bytes" where
  "some_active d = (if \<exists>at\<in>set mbr_places. d ! at \<noteq> 0 then d else patch d 446 [0x80])"

lemma length_some_active: "512 \<le> length d \<Longrightarrow> length (some_active d) = length d"
  by (simp add: some_active_def)

lemma spec_check_mbr:
  assumes "\<forall>n. mem n" and "\<forall>at\<in>set mbr_places. entry_fine L at" and "no_filesystem L 0" and "1536 \<le> length L"
    and "length L < 2 ^ 63" and "u < UNINSTALL_DATA_MAX" and "\<And>u'. u' \<le> Suc u \<Longrightarrow> Q () (some_active L) u'"
  shows "spec mem False L u (check_mbr (image_io mem) force) Q"
  unfolding check_mbr_def
proof (rule spec_andthen)
  show "spec mem False L u (check_mbr_entries (image_io mem) force [446, 462, 478, 494] (True, False))
    (\<lambda>s L' u'. s = (True, \<exists>at\<in>set mbr_places. L ! at \<noteq> 0) \<and> L' = L \<and> u' = u)"
    using assms(2,4) by (intro spec_mbr_entries) (simp_all add: mbr_places_def)
  fix s L' u'
  assume s: "s = (True, \<exists>at\<in>set mbr_places. L ! at \<noteq> 0) \<and> L' = L \<and> u' = u"
  let ?active = "\<exists>at\<in>set mbr_places. L ! at \<noteq> 0"
  have b: "in_blocks L 0 1082" "in_blocks L 446 1" using assms(4) by (auto intro!: in_blocksI [of _ _ 3])
  have "spec mem False L u (if \<not> ?active then dwrite (image_io mem) [0x80] 446 (give ()) else give ()) Q"
  proof (cases ?active)
    case True
    then show ?thesis using assms(7) [of u] by (simp add: spec_give some_active_def)
  next
    case False
    then have "Q () (patch L 446 [0x80]) (Suc u)" using assms(7) [of "Suc u"] by (simp add: some_active_def)
    then have "spec mem False L u (dwrite (image_io mem) [0x80] 446 (give ())) Q"
      using assms(1,6) b(2) by (intro spec_dwrite spec_give) simp_all
    then show ?thesis using False by simp
  qed
  moreover have "spec mem False L u (validate_or_force (image_io mem) 0 force) (\<lambda>b L' u'. b \<and> L' = L \<and> u' = u)"
    using assms(3,5) b(1) by (intro spec_validate) simp_all
  ultimately have "spec mem False L u (andthen (validate_or_force (image_io mem) 0 force) (\<lambda>mbr.
         if \<not> mbr then stop else if \<not> ?active then dwrite (image_io mem) [0x80] 446 (give ()) else give ())) Q"
    by (intro spec_andthen [where R = "\<lambda>b L' u'. b \<and> L' = L \<and> u' = u"]) simp_all
  then show "spec mem False L' u' (case s of (mbr, any_active) \<Rightarrow> andthen (if mbr then validate_or_force (image_io mem) 0 force else give False)
      (\<lambda>mbr. if \<not> mbr then stop else if \<not> any_active then dwrite (image_io mem) [0x80] 446 (give ()) else give ())) Q"
    using s by simp
qed

section \<open>The boot code\<close>

definition stages :: "bytes \<Rightarrow> nat \<Rightarrow> bytes \<Rightarrow> bytes" where
  "stages boot loc d = patch (patch (patch (patch (patch d 0 (take 512 boot)) loc (drop 512 boot)) 0x1a4 (put64 (of_nat loc)))
     218 (window d 218 6)) 440 (window d 440 70)"

lemma length_patch_in: "in_blocks d loc (length xs) \<Longrightarrow> length (patch d (unat loc) xs) = length d"
proof (cases "xs = []")
  case False
  assume "in_blocks d loc (length xs)"
  then have "unat loc + length xs \<le> length d" using False div_times_less_eq_dividend [of "length d" 512] by (simp add: in_blocks_def)
  then show ?thesis by simp
qed simp

lemma in_blocks_length: "length d = length e \<Longrightarrow> in_blocks d loc n = in_blocks e loc n"
  by (simp add: in_blocks_def)

lemma spec_write_stages:
  assumes "\<forall>n. mem n" and "512 \<le> length boot"
    and "\<not> F \<Longrightarrow> in_blocks L loc (length boot - 512) \<and> 512 \<le> length L \<and> u + 5 \<le> UNINSTALL_DATA_MAX"
    and "in_blocks L loc (length boot - 512) \<Longrightarrow> in_blocks L 0 512 \<Longrightarrow> Q () (stages boot (unat loc) L) (u + 5)"
  shows "spec mem F L u (write_stages (image_io mem) boot loc) Q"
proof -
  let ?L1 = "patch L 0 (take 512 boot)"
  let ?L2 = "patch ?L1 (unat loc) (drop 512 boot)"
  have b: "length (take 512 boot) = 512" "length (drop 512 boot) = length boot - 512" using assms(2) by simp_all
  have big: "in_blocks L 0 512 \<longleftrightarrow> 512 \<le> length L"
    using less_eq_div_iff_mult_less_eq [of 512 1 "length L"] by (auto simp: in_blocks_def)
  have l1: "length ?L1 = length L" if "in_blocks L 0 512" using that big by simp
  have l2: "length ?L2 = length L" if "in_blocks L 0 512" "in_blocks L loc (length boot - 512)"
    using that in_blocks_length [OF l1] length_patch_in [of ?L1 loc "drop 512 boot"] l1 b(2) by simp
  have i: "in_blocks L 218 6" "in_blocks L 440 70" "in_blocks L 0x1a4 8" if "in_blocks L 0 512"
    using that big by (auto intro!: in_blocksI [of _ _ 1])
  have last: "spec mem F ?L2 (Suc (Suc u)) (dwrite (image_io mem) (put64 loc) 0x1a4 (dwrite (image_io mem) (window L 218 6) 218
      (dwrite (image_io mem) (window L 440 70) 440 (flush_or_stop (image_io mem))))) Q"
    if fit: "in_blocks L 0 512" "in_blocks L loc (length boot - 512)"
  proof -
    let ?L3 = "patch ?L2 0x1a4 (put64 loc)"
    have n: "length (window L 218 6) = 6" "length (window L 440 70) = 70" using fit(1) big by simp_all
    have l3: "length ?L3 = length L" using l2 [OF fit] fit(1) big by simp
    have l4: "length (patch ?L3 218 (window L 218 6)) = length L" using l3 fit(1) big n by simp
    have F: "F" if "\<not> u + 5 \<le> UNINSTALL_DATA_MAX" using assms(3) that by blast
    have s5: "Suc (Suc (Suc (Suc (Suc u)))) = u + 5" by simp
    have Q: "Q () (patch (patch ?L3 218 (window L 218 6)) 440 (window L 440 70)) (Suc (Suc (Suc (Suc (Suc u)))))"
      using assms(4) [OF fit(2,1)] unfolding stages_def s5 by simp
    show ?thesis using assms(1) i [OF fit(1)] F Q n
      by (intro spec_dwrite spec_flush)
        (auto simp: in_blocks_length [OF l2 [OF fit]] in_blocks_length [OF l3] in_blocks_length [OF l4])
  qed
  have F: "F" if "\<not> (in_blocks L loc (length boot - 512) \<and> in_blocks L 0 512 \<and> u + 5 \<le> UNINSTALL_DATA_MAX)"
    using assms(3) that big by blast
  show ?thesis unfolding write_stages_def
  proof (rule spec_dread, rule spec_dread, rule spec_dwrite [OF assms(1)], rule spec_dwrite [OF assms(1)])
    assume "in_blocks L 0 (length (take 512 boot))" "in_blocks (patch L (unat (0 :: u64)) (take 512 boot)) loc (length (drop 512 boot))"
    then show "spec mem F (patch (patch L (unat (0 :: u64)) (take 512 boot)) (unat loc) (drop 512 boot)) (Suc (Suc u))
        (dwrite (image_io mem) (put64 loc) 0x1a4 (dwrite (image_io mem) (window L (unat (218 :: u64)) 6) 218
          (dwrite (image_io mem) (window L (unat (440 :: u64)) 70) 440 (flush_or_stop (image_io mem))))) Q"
      using last b in_blocks_length [OF l1] by simp
  qed (use F b in_blocks_length [OF l1] i in auto)
qed

lemma stages_nth:
  assumes "512 \<le> length boot" and "512 \<le> length d" and "loc + (length boot - 512) \<le> length d" and "i < length d"
  shows "stages boot loc d ! i =
    (if 218 \<le> i \<and> i < 224 \<or> 440 \<le> i \<and> i < 510 then d ! i
     else if 420 \<le> i \<and> i < 428 then put64 (of_nat loc) ! (i - 420)
     else if loc \<le> i \<and> i < loc + (length boot - 512) then boot ! (512 + (i - loc))
     else if i < 512 then boot ! i
     else d ! i)"
proof -
  have n: "length (window d 218 6) = 6" "length (window d 440 70) = 70" "length (take 512 boot) = 512" using assms(1,2) by simp_all
  show ?thesis using assms n by (auto simp: stages_def patch_nth window_nth)
qed

lemma length_stages:
  assumes "512 \<le> length boot" and "512 \<le> length d" and "loc + (length boot - 512) \<le> length d"
  shows "length (stages boot loc d) = length d"
proof -
  have n: "length (window d 218 6) = 6" "length (window d 440 70) = 70" "length (take 512 boot) = 512" using assms(1,2) by simp_all
  show ?thesis using assms n by (simp add: stages_def)
qed

text \<open>An image with a clean master boot record, and room for the boot code.\<close>

definition mbr_clean :: "bytes \<Rightarrow> bool" where
  "mbr_clean d \<longleftrightarrow> no_gpt d \<and> (\<forall>at\<in>set mbr_places. entry_fine d at) \<and> no_filesystem d 0 \<and>
     4608 \<le> length d \<and> length d < 2 ^ 63"

definition mbr_ready :: "bytes \<Rightarrow> bytes \<Rightarrow> bool" where
  "mbr_ready boot d \<longleftrightarrow> mbr_clean d \<and> 512 \<le> length boot \<and> length boot \<le> length d div 512 * 512"

lemma spec_can_fail: "spec mem False L u m Q \<Longrightarrow> spec mem F L u m Q"
  by (auto simp: spec_def split: prod.split option.split)

lemma spec_install_mbr:
  assumes "\<forall>n. mem n" and "mbr_clean d" and "512 \<le> length boot"
    and "\<not> F \<Longrightarrow> length boot \<le> length d div 512 * 512"
    and "\<And>u. in_blocks d 512 (length boot - 512) \<Longrightarrow> Q () (stages boot 512 (some_active d)) u"
  shows "spec mem F d 0 (install (image_io mem) rnd scan boot opts) Q"
  unfolding install_def
proof (rule spec_andthen)
  show "spec mem F d 0 (probe_gpt (image_io mem) [512, 4096]) (\<lambda>r L' u'. r = None \<and> L' = d \<and> u' = 0)"
    using assms(2) by (intro spec_can_fail [where F = F, OF spec_probe_none]) (simp_all add: mbr_clean_def)
  fix probed :: "(u64 \<times> gpt_table_header) option" and L' and u' :: nat
  assume p: "probed = None \<and> L' = d \<and> u' = 0"
  let ?d = "some_active d"
  have len: "length ?d = length d" using assms(2) by (simp add: length_some_active mbr_clean_def)
  have room: "in_blocks ?d 512 (length boot - 512)" if "\<not> F" using assms(3,4) len that by (auto simp: in_blocks_def)
  have mbr: "spec mem F d 0 (check_mbr (image_io mem) (opt_force opts)) (\<lambda>x L' u'. L' = ?d \<and> u' \<le> 1)"
    using assms(1,2) by (intro spec_can_fail [where F = F, OF spec_check_mbr]) (simp_all add: mbr_clean_def UNINSTALL_DATA_MAX_def)
  have stages: "spec mem F ?d u (write_stages (image_io mem) boot 512) Q" if "u \<le> 1" for u
    using assms(1-3,5) room len that by (intro spec_write_stages)
      (simp_all add: mbr_clean_def UNINSTALL_DATA_MAX_def in_blocks_length [OF len])
  have "spec mem F d 0 (andthen (check_mbr (image_io mem) (opt_force opts)) (\<lambda>_. give 512)) (\<lambda>loc L' u'. loc = 512 \<and> L' = ?d \<and> u' \<le> 1)"
    by (rule spec_andthen [OF mbr]) (simp add: spec_give)
  then have "spec mem F d 0 (andthen (andthen (check_mbr (image_io mem) (opt_force opts)) (\<lambda>_. give 512))
      (\<lambda>loc. write_stages (image_io mem) boot loc)) Q"
    by (rule spec_andthen) (use stages in auto)
  then show "spec mem F L' u' (andthen (case probed of
          None \<Rightarrow> give False
        | Some (lb_size, hdr) \<Rightarrow> andthen (check_secondary (image_io mem) lb_size hdr) (\<lambda>_.
            convert_isohybrid (image_io mem) rnd (gpt2mbr_allowed opts) lb_size hdr)) (\<lambda>gpt.
        andthen (if gpt then gpt_stage2 (image_io mem) scan opts (fst (the probed)) (snd (the probed))
                 else andthen (check_mbr (image_io mem) (opt_force opts)) (\<lambda>_. give 512)) (\<lambda>stage2_loc.
          write_stages (image_io mem) boot stage2_loc))) Q"
    using p by simp
qed

text \<open>A successful run ends with everything on the disk.\<close>

lemma run_from_spec:
  assumes "length d < 2 ^ 63" and "512 \<le> length d" and "mem 512" and "\<not> uninstall_mode opts"
    and "spec mem F d 0 (install (image_io mem) rnd scan boot opts) (\<lambda>_ L _. Q L)"
  shows "F \<and> (\<exists>st. run_bios_install (image_io mem) rnd scan boot files opts \<lparr>image_bytes = d, image_pos = p\<rparr> = Some (EXIT_FAILURE, st, None)) \<or>
    (\<exists>st. run_bios_install (image_io mem) rnd scan boot files opts \<lparr>image_bytes = d, image_pos = p\<rparr> =
      Some (EXIT_SUCCESS, st, map_option (\<lambda>name. (name, store_uninstall_data (undo st))) (uninstall_file opts)) \<and> Q (image_bytes (device st)))"
proof -
  obtain s0 where s0: "device_init (image_io mem) (tool_init \<lparr>image_bytes = d, image_pos = p\<rparr>) = (True, s0)" "img.working True d s0"
    "undo s0 = []" "img.on_disk s0 = d" "block_size s0 = 512"
    using fresh_image_working assms(1-3) .
  have "img.logical s0 = d" using s0(2) by (auto simp: img.working_def s0(3) agrees_def intro: nth_equalityI)
  then have w: "at_work d 0 s0" using s0 by (simp add: at_work_def img.working_def img.journaled_def)
  obtain r s1 where r: "install (image_io mem) rnd scan boot opts s0 = (r, s1)" by (cases "install (image_io mem) rnd scan boot opts s0")
  show ?thesis
  proof (cases r)
    case None
    then have F using assms(5) w r by (fastforce simp: spec_def)
    then show ?thesis using assms(4) s0(1) r None by (simp add: run_bios_install_def Let_def)
  next
    case (Some x)
    then obtain L u where L: "at_work L u s1" "Q L" using assms(5) w r by (fastforce simp: spec_def)
    have "cache_state s1 = CACHE_CLEAN" using install_clean [of "image_io mem" rnd scan boot opts] r Some by (auto simp: ends_clean_def)
    then have "image_bytes (device s1) = L" using L(1) by (simp add: at_work_def img.logical_def)
    then show ?thesis using assms(4) s0(1) r Some L(2) by (simp add: run_bios_install_def Let_def reverse_uninstall_data_def)
  qed
qed

lemma mbr_install_runs:
  assumes "\<forall>n. mem n" and "mbr_ready boot d" and "\<not> uninstall_mode opts"
  shows "\<exists>st. run_bios_install (image_io mem) rnd scan boot files opts \<lparr>image_bytes = d, image_pos = p\<rparr> =
      Some (EXIT_SUCCESS, st, map_option (\<lambda>name. (name, store_uninstall_data (undo st))) (uninstall_file opts)) \<and>
    image_bytes (device st) = stages boot 512 (some_active d)"
  using run_from_spec [of d mem opts False rnd scan boot "\<lambda>L. L = stages boot 512 (some_active d)" files p]
    spec_install_mbr [of mem d boot False "\<lambda>_ L _. L = stages boot 512 (some_active d)" rnd scan opts] assms
  by (simp add: mbr_ready_def mbr_clean_def)

end
