(* ===== verification/LimineProps.thy ===== *)
theory LimineProps
  imports LimineResult
begin

text \<open>
  What the installer of the boot loader promises to somebody who runs it on an image file: a failed
  installation changes nothing, a successful one can be undone, and what it writes where.
\<close>

section \<open>An empty disk\<close>

lemma window_replicate [simp]: "window (replicate n x) a m = replicate (min m (n - a)) x"
  by (simp add: window_def)

lemma zeros_differ: "y \<noteq> x \<Longrightarrow> replicate n x \<noteq> y # ys"
  by (cases n) auto

lemma le_nat_zeros [simp]: "le_nat (replicate n 0) = 0"
  by (induction n) simp_all

lemma zeros_clean: "4608 \<le> n \<Longrightarrow> n < 2 ^ 63 \<Longrightarrow> mbr_clean (replicate n 0)"
  by (simp add: mbr_clean_def no_gpt_def no_filesystem_def mbr_places_def entry_fine_def bytes_of_def zeros_differ get16_def)

section \<open>Failing, undoing, succeeding\<close>


text \<open>C19: Uninstalling undoes an installation: after one that succeeded, running the command on the image with the journal
  file it wrote succeeds and gives back every byte the image had before the installation.\<close>

theorem uninstall_restores_image:
  assumes "length d < 2 ^ 63" and "512 < length boot" and "\<forall>n. mem n"
    and "\<not> uninstall_mode opts" and "uninstall_mode opts'" and "uninstall_file opts' = Some name"
    and "run_bios_install (image_io mem) rnd scan boot files opts \<lparr>image_bytes = d, image_pos = p\<rparr> = Some (EXIT_SUCCESS, st, Some (name, file))"
    and "files' name = Some file"
  shows "\<exists>st'. run_bios_install (image_io mem) rnd' scan' boot' files' opts' \<lparr>image_bytes = image_bytes (device st), image_pos = q\<rparr>
    = Some (EXIT_SUCCESS, st', None) \<and> image_bytes (device st') = d"
proof -
  have big: "512 \<le> length d"
  proof (rule ccontr)
    assume "\<not> 512 \<le> length d"
    then obtain s where "device_init (image_io mem) (tool_init \<lparr>image_bytes = d, image_pos = p\<rparr>) = (False, s)"
      using image_refused [of d mem p] by metis
    then show False using assms(7) by (simp add: run_bios_install_def)
  qed
  obtain s0 where s0: "device_init (image_io mem) (tool_init \<lparr>image_bytes = d, image_pos = p\<rparr>) = (True, s0)" "img.working True d s0"
    using fresh_image_working [of d mem p True] assms(1,3) big by auto
  obtain s1 where s1: "install (image_io mem) rnd scan boot opts s0 = (Some (), s1)" and st: "st = reverse_uninstall_data s1"
    and written: "file = store_uninstall_data (undo st)"
    using assms(4,7) s0(1)
    by (cases "install (image_io mem) rnd scan boot opts s0")
      (auto simp: run_bios_install_def Let_def split: option.splits prod.splits if_splits)
  have w: "img.working True d s1" using install_working [OF s0(2), of boot mem rnd scan opts] assms(2) s1 by simp
  have j: "img.journaled True d s1" using w by (simp add: img.working_def)
  let ?D = "img.on_disk s1" and ?uds = "rev (undo s1)"
  have len: "length ?D = length d" using j by (simp add: img.journaled_def agrees_def)
  have whole: "img.whole s1 = length d div 512 * 512" using j len by (simp add: img.whole_def img.journaled_def)
  have entries: "\<forall>ud\<in>set ?uds. ud_data ud \<noteq> [] \<and> unat (ud_loc ud) + length (ud_data ud) \<le> length d div 512 * 512"
    using j whole by (auto simp: img.journaled_def entry_ok_def)
  have "length d div 512 * 512 < 2 ^ 64"
    by (rule le_less_trans [OF div_times_less_eq_dividend]) (use assms(1) in simp)
  then have "\<forall>ud\<in>set ?uds. ud_data ud \<noteq> [] \<and> length (ud_data ud) < 2 ^ 64" using entries by fastforce
  moreover have "length ?uds \<le> UNINSTALL_DATA_MAX" using j by (simp add: img.journaled_def)
  ultimately have load: "load_uninstall_data mem (Some file) = Loaded ?uds"
    using load_store [OF _ assms(3), of ?uds] by (simp add: written st reverse_uninstall_data_def)
  obtain s2 where s2: "device_init (image_io mem) (tool_init \<lparr>image_bytes = ?D, image_pos = q\<rparr>) = (True, s2)" "img.working True ?D s2"
    "img.on_disk s2 = ?D" "block_size s2 = 512"
    using fresh_image_working [of ?D mem q True] assms(1,3) big len by auto
  let ?s = "s2\<lparr>undo := ?uds\<rparr>"
  have "img.whole ?s = length d div 512 * 512" using s2 len by (simp add: img.whole_def)
  then have "\<forall>ud\<in>set (undo ?s). img.fits ?s (ud_loc ud) (length (ud_data ud))" using entries by (simp add: img.fits_def)
  moreover have "img.sized ?s" using s2(2) by (simp add: img.working_def img.coherent_def)
  ultimately obtain s3 where s3: "uninstall (image_io mem) ?s = (True, s3)" "img.on_disk s3 = replay ?uds ?D"
    using img.uninstall_replays [of ?s mem] s2(3) by auto
  have "replay ?uds ?D = d" using j by (simp add: img.journaled_def journal_def)
  then show ?thesis using s2(1) load assms(5,6,8) s3
    by (simp add: run_bios_install_def st reverse_uninstall_data_def image_io_def)
qed

text \<open>C20: An image without a GPT whose master boot record passes the checks is installed to, with and without force: the command
  succeeds, writes the journal to the file named for it, and the image then holds the boot code from its
  first byte on, with the position 512 of the second stage patched in, while the timestamp, the disk
  identifier and the partition table are kept, except that partition 1 is made active when none is; no byte
  behind the boot code is touched.\<close>

theorem mbr_install_writes:
  assumes "\<forall>n. mem n" and "mbr_ready boot d" and "\<not> uninstall_mode opts"
  shows "\<exists>st. run_bios_install (image_io mem) rnd scan boot files opts \<lparr>image_bytes = d, image_pos = p\<rparr> =
      Some (EXIT_SUCCESS, st, map_option (\<lambda>name. (name, store_uninstall_data (undo st))) (uninstall_file opts)) \<and>
    length (image_bytes (device st)) = length d \<and>
    (\<forall>i < length d. image_bytes (device st) ! i =
      (if 218 \<le> i \<and> i < 224 then d ! i
       else if i = 446 \<and> (\<forall>at\<in>{446, 462, 478, 494}. d ! at = 0) then 0x80
       else if 440 \<le> i \<and> i < 510 then d ! i
       else if 420 \<le> i \<and> i < 428 then put64 512 ! (i - 420)
       else if i < length boot then boot ! i
       else d ! i))"
proof -
  let ?d = "some_active d"
  have len: "length ?d = length d" using assms(2) by (simp add: length_some_active mbr_ready_def mbr_clean_def)
  have b: "512 \<le> length boot" "512 \<le> length ?d" "512 + (length boot - 512) \<le> length ?d" "446 < length d"
    using assms(2) len div_times_less_eq_dividend [of "length d" 512] by (auto simp: mbr_ready_def mbr_clean_def)
  have "stages boot 512 ?d ! i =
      (if 218 \<le> i \<and> i < 224 then d ! i
       else if i = 446 \<and> (\<forall>at\<in>{446, 462, 478, 494}. d ! at = 0) then 0x80
       else if 440 \<le> i \<and> i < 510 then d ! i
       else if 420 \<le> i \<and> i < 428 then put64 512 ! (i - 420)
       else if i < length boot then boot ! i
       else d ! i)" if "i < length d" for i
    using stages_nth [OF b(1,2,3), of i] len that b(1,4) by (auto simp: some_active_def mbr_places_def patch_nth)
  moreover obtain st where "run_bios_install (image_io mem) rnd scan boot files opts \<lparr>image_bytes = d, image_pos = p\<rparr> =
      Some (EXIT_SUCCESS, st, map_option (\<lambda>name. (name, store_uninstall_data (undo st))) (uninstall_file opts))"
    "image_bytes (device st) = stages boot 512 ?d"
    using mbr_install_runs [OF assms] by blast
  ultimately show ?thesis using length_stages [OF b(1,2,3)] len by (intro exI [of _ st]) simp
qed

section \<open>On concrete images\<close>

definition run_zeros :: "nat \<Rightarrow> options \<Rightarrow> bytes \<Rightarrow> (exit_code \<times> image tool \<times> (string \<times> bytes) option) option" where
  "run_zeros n opts boot = run_bios_install (image_io (\<lambda>_. True)) (\<lambda>_. 0) (\<lambda>_. None) boot (\<lambda>_. None) opts
     \<lparr>image_bytes = replicate n 0, image_pos = 0\<rparr>"

lemma mbr_install_writes_witness:
  "\<exists>st. run_zeros 8192 options_init (replicate 1024 7) = Some (EXIT_SUCCESS, st, None) \<and>
    map ((!) (image_bytes (device st))) [0, 218, 420, 421, 446, 600, 1024] = [7, 0, 0, 2, 0x80, 7, 0]"
proof -
  let ?boot = "replicate 1024 7 :: bytes" and ?d = "replicate 8192 0 :: bytes"
  have ready: "mbr_ready ?boot ?d" using zeros_clean [of 8192] by (simp add: mbr_ready_def)
  obtain st where run: "run_zeros 8192 options_init ?boot = Some (EXIT_SUCCESS, st, map_option (\<lambda>name. (name, store_uninstall_data (undo st))) (uninstall_file options_init))"
    and at: "i < length ?d \<Longrightarrow> image_bytes (device st) ! i =
      (if 218 \<le> i \<and> i < 224 then ?d ! i
       else if i = 446 \<and> (\<forall>at\<in>{446, 462, 478, 494}. ?d ! at = 0) then 0x80
       else if 440 \<le> i \<and> i < 510 then ?d ! i
       else if 420 \<le> i \<and> i < 428 then put64 512 ! (i - 420)
       else if i < length ?boot then ?boot ! i
       else ?d ! i)" for i
    using mbr_install_writes [OF _ ready, of "\<lambda>_. True" options_init "\<lambda>_. 0" "\<lambda>_. None" "\<lambda>_. None" 0]
    unfolding run_zeros_def by (simp add: options_init_def del: nth_replicate) blast
  have "put64 512 ! 0 = 0" "put64 512 ! 1 = 2" by code_simp+
  then show ?thesis using run at [of 0] at [of 218] at [of 420] at [of 421] at [of 446] at [of 600] at [of 1024]
    by (intro exI [of _ st]) (simp add: options_init_def)
qed


lemma uninstall_restores_image_witness:
  "\<exists>st file st'. run_zeros 8192 (options_init\<lparr>uninstall_file := Some ''undo''\<rparr>) (replicate 1024 7) = Some (EXIT_SUCCESS, st, Some (''undo'', file)) \<and>
    image_bytes (device st) ! 0 = 7 \<and>
    run_bios_install (image_io (\<lambda>_. True)) (\<lambda>_. 0) (\<lambda>_. None) [] (\<lambda>_. Some file)
      (options_init\<lparr>uninstall_mode := True, uninstall_file := Some ''undo''\<rparr>) \<lparr>image_bytes = image_bytes (device st), image_pos = 0\<rparr>
      = Some (EXIT_SUCCESS, st', None) \<and> image_bytes (device st') = replicate 8192 0"
proof -
  let ?opts = "options_init\<lparr>uninstall_file := Some ''undo''\<rparr>"
  have ready: "mbr_ready (replicate 1024 7) (replicate 8192 0)" using zeros_clean [of 8192] by (simp add: mbr_ready_def)
  then obtain st where st: "run_zeros 8192 ?opts (replicate 1024 7)
      = Some (EXIT_SUCCESS, st, Some (''undo'', store_uninstall_data (undo st)))"
    "image_bytes (device st) = stages (replicate 1024 7) 512 (some_active (replicate 8192 0))"
    using mbr_install_runs [of "\<lambda>_. True" "replicate 1024 7" "replicate 8192 0" ?opts "\<lambda>_. 0" "\<lambda>_. None" "\<lambda>_. None" 0]
    by (auto simp: run_zeros_def options_init_def)
  have "stages (replicate 1024 7) 512 (some_active (replicate 8192 0)) ! 0 = 7"
    using length_some_active [of "replicate 8192 0"] by (subst stages_nth) simp_all
  moreover have "\<exists>st'. run_bios_install (image_io (\<lambda>_. True)) (\<lambda>_. 0) (\<lambda>_. None) [] (\<lambda>_. Some (store_uninstall_data (undo st)))
      (options_init\<lparr>uninstall_mode := True, uninstall_file := Some ''undo''\<rparr>) \<lparr>image_bytes = image_bytes (device st), image_pos = 0\<rparr>
      = Some (EXIT_SUCCESS, st', None) \<and> image_bytes (device st') = replicate 8192 0"
    using st(1) unfolding run_zeros_def
    by (intro uninstall_restores_image [where opts = ?opts and name = "''undo''" and boot = "replicate 1024 7"])
      (simp_all add: options_init_def)
  ultimately show ?thesis using st by auto
qed

end
