(* ===== verification/LimineGpt.thy ===== *)
theory LimineGpt
  imports LimineResult
begin

text \<open>
  Installing to a disk with a GPT: where the second stage goes, and that nothing outside the boot sector and the
  BIOS boot partition is touched.
\<close>

section \<open>Checked arithmetic\<close>

lemma mul_checked: "mul_u64_overflow a b = (False, c) \<Longrightarrow> unat c = unat a * unat b"
proof -
  assume m: "mul_u64_overflow a b = (False, c)"
  have "unat a * unat b < 2 ^ 64"
  proof (cases "a = 0")
    case False
    have "unat b \<le> unat (- 1 div a)" using m False by (simp add: mul_u64_overflow_def word_le_nat_alt not_less)
    also have "\<dots> = (2 ^ 64 - 1) div unat a" by (simp add: unat_div unsigned_minus_1_eq_mask mask_eq_exp_minus_1)
    finally have "unat b \<le> (2 ^ 64 - 1) div unat a" .
    then have "unat a * unat b \<le> unat a * ((2 ^ 64 - 1) div unat a)" by (rule mult_le_mono2)
    also have "\<dots> \<le> 2 ^ 64 - 1" by (rule times_div_less_eq_dividend)
    finally show ?thesis by simp
  qed simp
  then show ?thesis using m by (auto simp: mul_u64_overflow_def unat_times64)
qed

lemma add_checked: "add_u64_overflow a b = (False, c) \<Longrightarrow> unat c = unat a + unat b"
proof -
  assume m: "add_u64_overflow a b = (False, c)"
  have "unat (- 1 - b) = 2 ^ 64 - 1 - unat b"
    using unat_less [of b] by (simp add: unat_sub_if' unsigned_minus_1_eq_mask mask_eq_exp_minus_1)
  then have "unat a \<le> 2 ^ 64 - 1 - unat b" using m by (simp add: add_u64_overflow_def word_le_nat_alt not_less)
  moreover have "unat b < 2 ^ 64" using unsigned_less [of b] by simp
  ultimately have "unat a + unat b < 2 ^ 64" by simp
  then show ?thesis using m by (auto simp: add_u64_overflow_def unat_plus64)
qed

section \<open>The steps\<close>

text \<open>An image with a GPT in blocks of 512 bytes, and the entry of a number in its table.\<close>

definition header512 :: "bytes \<Rightarrow> gpt_table_header" where
  "header512 d = gpt_table_header_of (window d 512 96)"

definition table_entry :: "bytes \<Rightarrow> nat \<Rightarrow> gpt_entry" where
  "table_entry d i = gpt_entry_of (window d (unat (partition_entry_lba (header512 d)) * 512
     + i * unat (size_of_partition_entry (header512 d))) 128)"

definition reads_only :: "bytes \<Rightarrow> nat \<Rightarrow> ('a \<Rightarrow> bool) \<Rightarrow> 'a \<Rightarrow> bytes \<Rightarrow> nat \<Rightarrow> bool" where
  "reads_only d u Q x L' u' \<longleftrightarrow> L' = d \<and> u' = u \<and> Q x"

lemma spec_reads_then:
  assumes "spec mem True d u m (reads_only d u R)" and "\<And>x. R x \<Longrightarrow> spec mem True d u (k x) Q"
  shows "spec mem True d u (andthen m k) Q"
  by (rule spec_andthen [OF assms(1)]) (use assms(2) in \<open>auto simp: reads_only_def\<close>)

lemma spec_reads_weaken:
  "spec mem F d u m (reads_only d u R) \<Longrightarrow> (\<And>x. R x \<Longrightarrow> R' x) \<Longrightarrow> spec mem F d u m (reads_only d u R')"
  by (erule spec_weaken) (simp add: reads_only_def)

lemma spec_give_reads: "R x \<Longrightarrow> spec mem F d u (give x) (reads_only d u R)"
  by (simp add: spec_give reads_only_def)

lemma spec_probe_gpt:
  assumes "window d 512 8 = bytes_of ''EFI PART''"
  shows "spec mem True d u (probe_gpt (image_io mem) [512, 4096]) (reads_only d u (\<lambda>r. r = Some (512, header512 d)))"
proof -
  have "window d 512 sizeof_gpt_table_header = window d 512 96" by (simp add: sizeof_gpt_table_header_def)
  then show ?thesis unfolding probe_gpt.simps(2) [of _ 512]
    by (intro spec_dread) (use assms signature_window [of d 512] in \<open>simp_all add: header512_def spec_give_reads\<close>)
qed

lemma spec_secondary: "spec mem True d u (check_secondary (image_io mem) lb hdr) (reads_only d u (\<lambda>_. True))"
  unfolding check_secondary_def
  by (intro spec_if spec_stop) (auto simp: spec_stop split: prod.split intro!: spec_if spec_dread spec_give_reads)

lemma spec_no_conversion:
  assumes "\<not> allowed \<or> window d 32769 5 \<noteq> bytes_of ''CD001''"
  shows "spec mem True d u (convert_isohybrid (image_io mem) rnd allowed lb hdr) (reads_only d u (\<lambda>gpt. gpt))"
proof (cases allowed)
  case True
  then have "window d (unat (32769 :: u64)) 5 \<noteq> bytes_of ''CD001''" using assms by simp
  then have "spec mem True d u (dread (image_io mem) 32769 5 (\<lambda>sig.
       if sig \<noteq> bytes_of ''CD001'' then give True else k sig)) (reads_only d u (\<lambda>gpt. gpt))" for k
    by (intro spec_dread) (simp_all add: spec_give_reads)
  then show ?thesis using True unfolding convert_isohybrid_def by simp
qed (simp add: convert_isohybrid_def spec_give_reads)

lemma spec_hint_careful:
  "spec mem True d u k (reads_only d u R) \<Longrightarrow> R False \<Longrightarrow>
   spec mem True d u (wipe_hint (image_io mem) False loc hint zeros k) (reads_only d u R)"
  unfolding wipe_hint_def by (intro spec_dread) (simp_all add: spec_give_reads)

lemma spec_validate_careful:
  "spec mem True d u (validate_or_force (image_io mem) loc False) (reads_only d u (\<lambda>_. True))"
  unfolding validate_or_force_def by (intro spec_hint_careful spec_dread) (simp_all add: spec_give_reads)

lemma entry_place:
  assumes "mul_u64_overflow (partition_entry_lba (header512 d)) 512 = (False, base)" and "i < 2 ^ 32"
    and "entry_location (header512 d) base (of_nat i) = (False, loc)"
  shows "gpt_entry_of (window d (unat loc) sizeof_gpt_entry) = table_entry d i"
proof -
  let ?s = "size_of_partition_entry (header512 d)"
  have i: "unat (of_nat i :: u64) = i" using assms(2) by (intro unat_of_nat64) simp
  have "unat ?s < 2 ^ 32" using unat_less [of ?s] by simp
  then have s: "unat (ucast ?s :: u64) = unat ?s" by (simp add: unsigned_ucast_eq take_bit_nat_eq_self_iff)
  have "i * unat ?s < 2 ^ 32 * 2 ^ 32"
    using assms(2) \<open>unat ?s < 2 ^ 32\<close> by (intro mult_strict_mono) simp_all
  then have "unat (of_nat i * ucast ?s :: u64) = i * unat ?s" using i s by (subst unat_times64) simp_all
  moreover have "unat loc = unat base + unat (of_nat i * ucast ?s :: u64)"
    using assms(3) by (simp add: entry_location_def add_checked)
  moreover have "unat base = unat (partition_entry_lba (header512 d)) * 512" using mul_checked [OF assms(1)] by simp
  ultimately show ?thesis by (simp add: table_entry_def sizeof_gpt_entry_def)
qed

lemma spec_find:
  assumes "mul_u64_overflow (partition_entry_lba (header512 d)) 512 = (False, base)" and "\<forall>i\<in>set is. i < 2 ^ 32"
  shows "spec mem True d u (find_bios_boot (image_io mem) (header512 d) base is)
    (reads_only d u (\<lambda>e. is_bios_boot e \<and> (\<exists>i\<in>set is. e = table_entry d i)))"
  using assms(2)
proof (induction "is")
  case (Cons i "is")
  have rest: "spec mem True d u (find_bios_boot (image_io mem) (header512 d) base is)
    (reads_only d u (\<lambda>e. is_bios_boot e \<and> (\<exists>j\<in>set (i # is). e = table_entry d j)))"
    by (rule spec_reads_weaken [OF Cons.IH]) (use Cons.prems in auto)
  obtain over loc where l: "entry_location (header512 d) base (of_nat i) = (over, loc)" by fastforce
  show ?case
  proof (cases over)
    case False
    then have "gpt_entry_of (window d (unat loc) sizeof_gpt_entry) = table_entry d i"
      using l Cons.prems by (intro entry_place [OF assms(1)]) simp_all
    then show ?thesis using l False rest by (auto intro!: spec_dread spec_give_reads)
  qed (simp add: l spec_stop)
qed (simp add: spec_stop)

lemma spec_chosen:
  assumes "mul_u64_overflow (partition_entry_lba (header512 d)) 512 = (False, base)"
  shows "spec mem True d u (chosen_partition (image_io mem) scan False (header512 d) base ndx)
    (reads_only d u (\<lambda>e. is_bios_boot e \<and> (\<exists>i < unat (number_of_partition_entries (header512 d)). e = table_entry d i)))"
proof (cases "scan ndx")
  case (Some n)
  let ?i = "unat (n - 1)"
  obtain over loc where l: "entry_location (header512 d) base (ucast (n - 1)) = (over, loc)" by fastforce
  have i: "ucast (n - 1) = (of_nat ?i :: u64)" by simp
  show ?thesis
  proof (cases "over \<or> number_of_partition_entries (header512 d) \<le> n - 1")
    case True
    then show ?thesis using Some l by (auto simp: chosen_partition_def spec_stop)
  next
    case False
    then have "?i < unat (number_of_partition_entries (header512 d))" by (simp add: word_less_nat_alt not_le)
    moreover have "?i < 2 ^ 32" using unat_less [of "n - 1"] by simp
    then have "gpt_entry_of (window d (unat loc) sizeof_gpt_entry) = table_entry d ?i"
      using l False unfolding i by (intro entry_place [OF assms]) simp_all
    ultimately show ?thesis using Some l False
      by (auto simp: chosen_partition_def Let_def intro!: spec_dread spec_if spec_stop spec_give_reads)
  qed
qed (simp add: chosen_partition_def spec_stop)

lemma spec_location:
  "spec mem True d u (stage2_location (image_io mem) False 512 e) (reads_only d u (\<lambda>loc.
     unat loc = unat (starting_lba e) * 512 \<and> unat loc + 32768 \<le> (unat (ending_lba e) + 1) * 512))"
proof (cases "ending_lba e < starting_lba e")
  case False
  let ?n = "ending_lba e - starting_lba e + 1"
  obtain over size where s: "mul_u64_overflow ?n 512 = (over, size)" by fastforce
  obtain over' loc where l: "mul_u64_overflow (starting_lba e) 512 = (over', loc)" by fastforce
  show ?thesis
  proof (cases "over \<or> size < 32768 \<or> over'")
    case True
    then show ?thesis using False s l by (auto simp: stage2_location_def spec_stop)
  next
    case ok: False
    have size: "unat size = unat ?n * 512" using s ok mul_checked [of ?n 512] by simp
    have loc: "unat loc = unat (starting_lba e) * 512" using l ok mul_checked [of "starting_lba e" 512] by simp
    have "32768 \<le> unat size" using ok by (simp add: word_less_nat_alt not_less)
    moreover have "unat ?n \<le> unat (ending_lba e - starting_lba e) + 1"
      by (simp add: unat_word_ariths) 
    moreover have "unat (ending_lba e - starting_lba e) = unat (ending_lba e) - unat (starting_lba e)"
      using False by (simp add: unat_sub not_less)
    moreover have "unat (starting_lba e) \<le> unat (ending_lba e)" using False by (simp add: word_le_nat_alt not_less)
    ultimately have "unat loc + 32768 \<le> (unat (ending_lba e) + 1) * 512" using size loc by simp
    then have "spec mem True d u (andthen (validate_or_force (image_io mem) loc False) (\<lambda>valid. if valid then give loc else stop))
      (reads_only d u (\<lambda>loc. unat loc = unat (starting_lba e) * 512 \<and> unat loc + 32768 \<le> (unat (ending_lba e) + 1) * 512))"
      using loc by (intro spec_reads_then [OF spec_validate_careful] spec_if spec_give_reads spec_stop) simp_all
    then show ?thesis using False s l ok by (simp add: stage2_location_def)
  qed
qed (simp add: stage2_location_def spec_stop)

lemma spec_gpt_stage2:
  assumes "\<not> opt_force opts"
  shows "spec mem True d u (gpt_stage2 (image_io mem) scan opts 512 (header512 d)) (reads_only d u (\<lambda>loc.
     \<exists>i < unat (number_of_partition_entries (header512 d)). is_bios_boot (table_entry d i) \<and>
       unat loc = unat (starting_lba (table_entry d i)) * 512 \<and>
       unat loc + 32768 \<le> (unat (ending_lba (table_entry d i)) + 1) * 512))"
  (is "spec mem True d u _ (reads_only d u ?Q)")
proof -
  obtain over base where b: "mul_u64_overflow (partition_entry_lba (header512 d)) 512 = (over, base)" by fastforce
  show ?thesis
  proof (cases over)
    case False
    let ?R = "\<lambda>e. is_bios_boot e \<and> (\<exists>i < unat (number_of_partition_entries (header512 d)). e = table_entry d i)"
    have n: "\<forall>i\<in>set [0..<unat (number_of_partition_entries (header512 d))]. i < 2 ^ 32"
      using unat_less [of "number_of_partition_entries (header512 d)"] by auto
    have "spec mem True d u (case part_ndx opts of
           Some ndx \<Rightarrow> chosen_partition (image_io mem) scan (opt_force opts) (header512 d) base ndx
         | None \<Rightarrow> find_bios_boot (image_io mem) (header512 d) base [0..<unat (number_of_partition_entries (header512 d))])
        (reads_only d u ?R)"
    proof (cases "part_ndx opts")
      case None
      have "mul_u64_overflow (partition_entry_lba (header512 d)) 512 = (False, base)" using b False by simp
      from spec_find [OF this n] show ?thesis unfolding None option.case by (rule spec_reads_weaken) auto
    next
      case (Some ndx)
      then show ?thesis using spec_chosen b False assms by simp
    qed
    then have "spec mem True d u (andthen (case part_ndx opts of
           Some ndx \<Rightarrow> chosen_partition (image_io mem) scan (opt_force opts) (header512 d) base ndx
         | None \<Rightarrow> find_bios_boot (image_io mem) (header512 d) base [0..<unat (number_of_partition_entries (header512 d))])
        (stage2_location (image_io mem) (opt_force opts) 512)) (reads_only d u ?Q)"
    proof (rule spec_reads_then)
      fix e
      assume "?R e"
      then show "spec mem True d u (stage2_location (image_io mem) (opt_force opts) 512 e) (reads_only d u ?Q)"
        using assms by (simp only: simp_thms) (rule spec_reads_weaken [OF spec_location], blast)
    qed
    then show ?thesis using b False by (simp add: gpt_stage2_def)
  qed (simp add: b gpt_stage2_def spec_stop)
qed

section \<open>The result\<close>

definition gpt_disk :: "bytes \<Rightarrow> options \<Rightarrow> bool" where
  "gpt_disk d opts \<longleftrightarrow> window d 512 8 = bytes_of ''EFI PART'' \<and>
     (\<not> gpt2mbr_allowed opts \<or> window d 32769 5 \<noteq> bytes_of ''CD001'')"

definition boot_partition :: "bytes \<Rightarrow> nat \<Rightarrow> gpt_entry \<Rightarrow> bool" where
  "boot_partition d i e \<longleftrightarrow> i < unat (number_of_partition_entries (header512 d)) \<and> e = table_entry d i \<and> is_bios_boot e \<and>
     unat (starting_lba e) * 512 + 32768 \<le> (unat (ending_lba e) + 1) * 512"

lemma spec_install_gpt:
  assumes "\<forall>n. mem n" and "gpt_disk d opts" and "\<not> opt_force opts" and "512 < length boot"
    and "\<And>i e. boot_partition d i e \<Longrightarrow> unat (starting_lba e) * 512 + (length boot - 512) \<le> length d \<Longrightarrow> 512 \<le> length d \<Longrightarrow>
      Q (stages boot (unat (starting_lba e) * 512) d)"
  shows "spec mem True d 0 (install (image_io mem) rnd scan boot opts) (\<lambda>_ L _. Q L)"
  unfolding install_def
proof (rule spec_reads_then)
  show "spec mem True d 0 (probe_gpt (image_io mem) [512, 4096]) (reads_only d 0 (\<lambda>r. r = Some (512, header512 d)))"
    using assms(2) by (intro spec_probe_gpt) (simp add: gpt_disk_def)
  fix probed :: "(u64 \<times> gpt_table_header) option"
  assume p: "probed = Some (512, header512 d)"
  have conv: "spec mem True d 0 (andthen (check_secondary (image_io mem) 512 (header512 d)) (\<lambda>_.
            convert_isohybrid (image_io mem) rnd (gpt2mbr_allowed opts) 512 (header512 d))) (reads_only d 0 (\<lambda>gpt. gpt))"
    using assms(2) by (intro spec_reads_then [OF spec_secondary] spec_no_conversion) (simp add: gpt_disk_def)
  have stages: "spec mem True d 0 (write_stages (image_io mem) boot loc) (\<lambda>_ L _. Q L)"
    if "boot_partition d i e" "unat loc = unat (starting_lba e) * 512" for loc i e
  proof (rule spec_write_stages [OF assms(1)])
    assume "in_blocks d loc (length boot - 512)" "in_blocks d 0 512"
    then have "unat loc + (length boot - 512) \<le> length d div 512 * 512" "512 \<le> length d div 512 * 512"
      using assms(4) by (auto simp: in_blocks_def)
    then have "unat loc + (length boot - 512) \<le> length d" "512 \<le> length d"
      using div_times_less_eq_dividend [of "length d" 512] by (auto intro: le_trans)
    then show "Q (stages boot (unat loc) d)" using assms(5) [OF that(1)] that(2) by simp
  qed (use assms(4) in simp_all)
  show "spec mem True d 0 (andthen (case probed of
          None \<Rightarrow> give False
        | Some (lb_size, hdr) \<Rightarrow> andthen (check_secondary (image_io mem) lb_size hdr) (\<lambda>_.
            convert_isohybrid (image_io mem) rnd (gpt2mbr_allowed opts) lb_size hdr)) (\<lambda>gpt.
        andthen (if gpt then gpt_stage2 (image_io mem) scan opts (fst (the probed)) (snd (the probed))
                 else andthen (check_mbr (image_io mem) (opt_force opts)) (\<lambda>_. give 512)) (\<lambda>stage2_loc.
          write_stages (image_io mem) boot stage2_loc))) (\<lambda>_ L _. Q L)"
    unfolding p option.case prod.case option.sel fst_conv snd_conv
  proof (rule spec_reads_then [OF conv])
    fix gpt :: bool
    assume gpt
    have "spec mem True d 0 (andthen (gpt_stage2 (image_io mem) scan opts 512 (header512 d)) (\<lambda>stage2_loc.
          write_stages (image_io mem) boot stage2_loc)) (\<lambda>_ L _. Q L)"
      by (rule spec_reads_then [OF spec_gpt_stage2 [OF assms(3)]]) (use stages in \<open>auto simp: boot_partition_def\<close>)
    then show "spec mem True d 0 (andthen (if gpt then gpt_stage2 (image_io mem) scan opts 512 (header512 d)
                 else andthen (check_mbr (image_io mem) (opt_force opts)) (\<lambda>_. give 512)) (\<lambda>stage2_loc.
          write_stages (image_io mem) boot stage2_loc)) (\<lambda>_ L _. Q L)"
      using \<open>gpt\<close> by simp
  qed
qed

text \<open>C21: On a disk with a GPT in blocks of 512 bytes that is not converted, an installation without force that succeeds has found
  an entry of the partition table of the BIOS boot type with at least 32 KiB. It has put the second stage at the start of that
  partition, has kept the disk identifier and the old partition entries of the boot sector, and has
  not changed a byte outside the first sector and that partition, for a boot image of up to 33280 bytes.\<close>

theorem gpt_install_stays_inside:
  assumes "\<forall>n. mem n" and "length d < 2 ^ 63" and "512 < length boot" and "length boot \<le> 512 + 32768"
    and "gpt_disk d opts" and "\<not> opt_force opts" and "\<not> uninstall_mode opts"
    and "run_bios_install (image_io mem) rnd scan boot files opts \<lparr>image_bytes = d, image_pos = p\<rparr> = Some (EXIT_SUCCESS, st, written)"
  shows "\<exists>i e. boot_partition d i e \<and> length (image_bytes (device st)) = length d \<and>
    (\<forall>k < length boot - 512. 0 < starting_lba e \<longrightarrow> image_bytes (device st) ! (unat (starting_lba e) * 512 + k) = boot ! (512 + k)) \<and>
    (\<forall>k. 440 \<le> k \<and> k < 510 \<longrightarrow> image_bytes (device st) ! k = d ! k) \<and>
    (\<forall>k < length d. 512 \<le> k \<and> \<not> (unat (starting_lba e) * 512 \<le> k \<and> k < (unat (ending_lba e) + 1) * 512) \<longrightarrow>
      image_bytes (device st) ! k = d ! k)"
proof -
  let ?Q = "\<lambda>L. \<exists>i e. boot_partition d i e \<and> unat (starting_lba e) * 512 + (length boot - 512) \<le> length d \<and> 512 \<le> length d \<and>
    L = stages boot (unat (starting_lba e) * 512) d"
  have "spec mem True d 0 (install (image_io mem) rnd scan boot opts) (\<lambda>_ L _. ?Q L)"
  proof (rule spec_install_gpt [OF assms(1,5,6,3)])
    fix i e
    assume "boot_partition d i e" "unat (starting_lba e) * 512 + (length boot - 512) \<le> length d" "512 \<le> length d"
    then show "?Q (stages boot (unat (starting_lba e) * 512) d)" by blast
  qed
  moreover have "512 \<le> length d"
  proof (rule ccontr)
    assume "\<not> 512 \<le> length d"
    then obtain s where "device_init (image_io mem) (tool_init \<lparr>image_bytes = d, image_pos = p\<rparr>) = (False, s)"
      using image_refused [of d mem p] by metis
    then show False using assms(8) by (simp add: run_bios_install_def)
  qed
  ultimately have "?Q (image_bytes (device st))"
    using run_from_spec [of d mem opts True rnd scan boot ?Q files p] assms(1,2,7,8) by auto
  then obtain i e where e: "boot_partition d i e" "unat (starting_lba e) * 512 + (length boot - 512) \<le> length d" "512 \<le> length d"
    and L: "image_bytes (device st) = stages boot (unat (starting_lba e) * 512) d"
    by blast
  let ?loc = "unat (starting_lba e) * 512"
  have boot: "512 \<le> length boot" using assms(3) by simp
  have inside: "?loc + (length boot - 512) \<le> (unat (ending_lba e) + 1) * 512"
    using e(1) assms(4) unfolding boot_partition_def by linarith
  note nth = stages_nth [OF boot e(3,2)]
  have "stages boot ?loc d ! (?loc + k) = boot ! (512 + k)" if "k < length boot - 512" "0 < starting_lba e" for k
  proof -
    have "512 \<le> ?loc" using that(2) unat_gt_0 [of "starting_lba e"] by auto
    moreover have "?loc + k < ?loc + (length boot - 512)" "?loc + k < length d" using that(1) e(2) by linarith+
    ultimately show ?thesis using nth [of "?loc + k"] by (simp only: split: if_splits) simp_all
  qed
  moreover have "stages boot ?loc d ! k = d ! k" if "440 \<le> k" "k < 510" for k using nth [of k] that e(3) by simp
  moreover have "stages boot ?loc d ! k = d ! k"
    if "k < length d" "512 \<le> k" "\<not> (?loc \<le> k \<and> k < (unat (ending_lba e) + 1) * 512)" for k
    using nth [of k] that inside by auto
  ultimately show ?thesis using e(1) length_stages [OF boot e(3,2)] L by (intro exI [of _ i] exI [of _ e]) auto
qed

section \<open>A small GPT disk\<close>

text \<open>One entry, of the BIOS boot type, for 64 blocks from block 3 on; the image ends after six blocks.\<close>

definition gpt_header_bytes :: bytes where
  "gpt_header_bytes = bytes_of ''EFI PART'' @ replicate 24 0 @ put64 1 @ replicate 32 0 @ put64 2 @ put32 1 @ put32 128 @ replicate 8 0"

definition gpt_entry_bytes :: bytes where
  "gpt_entry_bytes = bytes_of ''Hah!IdontNeedEFI'' @ replicate 16 1 @ put64 3 @ put64 66 @ replicate 80 0"

definition gpt_image :: bytes where
  "gpt_image = replicate 512 0 @ gpt_header_bytes @ replicate 416 0 @ gpt_entry_bytes @ replicate 1920 0"

lemma gpt_image_length: "length gpt_header_bytes = 96" "length gpt_entry_bytes = 128" "length gpt_image = 3072"
  by (simp_all add: gpt_image_def gpt_header_bytes_def gpt_entry_bytes_def bytes_of_def)

lemma window_parts: 
  "length xs \<le> a \<Longrightarrow> window (xs @ ys) a n = window ys (a - length xs) n"
  "a = 0 \<Longrightarrow> n = length xs \<Longrightarrow> window (xs @ ys) a n = xs"
  by (simp_all add: window_def)

lemma gpt_image_header: "window gpt_image 512 96 = gpt_header_bytes"
  by (simp add: gpt_image_def window_parts gpt_image_length)

lemma gpt_image_entry: "window gpt_image 1024 128 = gpt_entry_bytes"
  by (simp add: gpt_image_def window_parts gpt_image_length)

lemma gpt_image_zeros: "1152 \<le> a \<Longrightarrow> a + n \<le> 3072 \<Longrightarrow> window gpt_image a n = replicate n 0"
  by (simp add: gpt_image_def window_parts gpt_image_length) (simp add: window_def min_def)

lemma gpt_image_fields:
  "gpt_signature (header512 gpt_image) = bytes_of ''EFI PART''" "alternate_lba (header512 gpt_image) = 1"
  "partition_entry_lba (header512 gpt_image) = 2" "number_of_partition_entries (header512 gpt_image) = 1"
  "size_of_partition_entry (header512 gpt_image) = 128"
  by (simp_all add: header512_def gpt_image_header gpt_header_bytes_def gpt_table_header_of_def field_def bytes_of_def)

lemma gpt_image_entry_fields:
  "is_bios_boot (gpt_entry_of gpt_entry_bytes)" "starting_lba (gpt_entry_of gpt_entry_bytes) = 3"
  "ending_lba (gpt_entry_of gpt_entry_bytes) = 66"
  by (simp_all add: gpt_entry_bytes_def gpt_entry_of_def field_def bytes_of_def is_bios_boot_def)

definition gpt_boot :: bytes where "gpt_boot = replicate 600 7"

definition gpt_options :: options where "gpt_options = options_init\<lparr>gpt2mbr_allowed := False\<rparr>"

lemma gpt_image_blocks: "unat loc + n \<le> 3072 \<Longrightarrow> in_blocks gpt_image loc n"
  by (simp add: in_blocks_def gpt_image_length)

lemma replicate_bytes: "replicate 2 x = [x, x]" "replicate 3 x = [x, x, x]" "replicate 4 x = [x, x, x, x]" "replicate 5 x = [x, x, x, x, x]"
  by (simp_all add: numeral_eq_Suc)

lemma gpt_image_no_filesystem: "no_filesystem gpt_image 1536"
  by (simp add: no_filesystem_def gpt_image_zeros bytes_of_def replicate_bytes get16_def)

lemma gpt_image_probe:
  "Q (Some (512, header512 gpt_image)) gpt_image u \<Longrightarrow> spec mem False gpt_image u (probe_gpt (image_io mem) [512, 4096]) Q"
  unfolding probe_gpt.simps(2) [of _ 512]
  by (intro spec_dread)
    (simp_all add: gpt_image_blocks sizeof_gpt_table_header_def spec_give gpt_image_fields header512_def [symmetric])

lemma gpt_image_installs:
  "spec (\<lambda>_. True) False gpt_image 0 (install (image_io (\<lambda>_. True)) rnd scan gpt_boot gpt_options) (\<lambda>_ _ _. True)"
proof -
  have o: "\<not> gpt2mbr_allowed gpt_options" "\<not> opt_force gpt_options" "part_ndx gpt_options = None"
    by (simp_all add: gpt_options_def options_init_def)
  have sec: "Q () gpt_image 0 \<Longrightarrow> spec (\<lambda>_. True) False gpt_image 0 (check_secondary (image_io (\<lambda>_. True)) 512 (header512 gpt_image)) Q"
    for Q
    unfolding check_secondary_def
    by (simp add: gpt_image_fields sizeof_gpt_entry_def mul_u64_overflow_def)
      (intro spec_dread, simp_all add: gpt_image_blocks sizeof_gpt_table_header_def spec_give gpt_image_fields header512_def [symmetric])
  have "unat (3 :: u64) * 512 = 1536" by simp
  have val: "Q True gpt_image 0 \<Longrightarrow> spec (\<lambda>_. True) False gpt_image 0 (validate_or_force (image_io (\<lambda>_. True)) 1536 False) Q" for Q
    by (rule spec_validate) (simp_all add: gpt_image_no_filesystem gpt_image_blocks gpt_image_length)
  have loc: "Q 1536 gpt_image 0 \<Longrightarrow> spec (\<lambda>_. True) False gpt_image 0
      (stage2_location (image_io (\<lambda>_. True)) False 512 (gpt_entry_of gpt_entry_bytes)) Q" for Q
    unfolding stage2_location_def
    by (simp add: gpt_image_entry_fields mul_u64_overflow_def) (rule spec_andthen [OF val [where Q = "\<lambda>b L u. b \<and> L = gpt_image \<and> u = 0"]], simp_all add: spec_give)
  have gpt: "Q 1536 gpt_image 0 \<Longrightarrow> spec (\<lambda>_. True) False gpt_image 0
      (gpt_stage2 (image_io (\<lambda>_. True)) scan gpt_options 512 (header512 gpt_image)) Q" for Q
    unfolding gpt_stage2_def
    by (simp add: o gpt_image_fields mul_u64_overflow_def entry_location_def add_u64_overflow_def)
      (rule spec_andthen [where R = "\<lambda>e L u. e = gpt_entry_of gpt_entry_bytes \<and> L = gpt_image \<and> u = 0"],
       intro spec_dread, simp_all add: sizeof_gpt_entry_def gpt_image_entry gpt_image_entry_fields gpt_image_blocks spec_give loc)
  have stages: "spec (\<lambda>_. True) False gpt_image 0 (write_stages (image_io (\<lambda>_. True)) gpt_boot 1536) (\<lambda>_ _ _. True)"
    by (rule spec_write_stages) (simp_all add: gpt_boot_def gpt_image_length gpt_image_blocks UNINSTALL_DATA_MAX_def)
  show ?thesis unfolding install_def
    by (rule spec_andthen [OF gpt_image_probe [where Q = "\<lambda>r L u. r = Some (512, header512 gpt_image) \<and> L = gpt_image \<and> u = 0"]], simp,
        rule spec_andthen [where R = "\<lambda>gpt L u. gpt \<and> L = gpt_image \<and> u = 0"])
      (auto simp: o convert_isohybrid_def spec_give intro!: spec_andthen [OF sec [where Q = "\<lambda>_ L u. L = gpt_image \<and> u = 0"]]
        spec_andthen [OF gpt [where Q = "\<lambda>loc L u. loc = 1536 \<and> L = gpt_image \<and> u = 0"]] stages)
qed

lemma gpt_image_run:
  "\<exists>st. run_bios_install (image_io (\<lambda>_. True)) (\<lambda>_. 0) (\<lambda>_. None) gpt_boot (\<lambda>_. None) gpt_options
    \<lparr>image_bytes = gpt_image, image_pos = 0\<rparr> = Some (EXIT_SUCCESS, st, None)"
  using run_from_spec [OF _ _ _ _ gpt_image_installs, where files = "\<lambda>_. None" and p = 0 and rnd = "\<lambda>_. 0" and scan = "\<lambda>_. None"]
  by (simp add: gpt_image_length gpt_options_def options_init_def)

theorem gpt_install_stays_inside_witness:
  "\<exists>st i e. run_bios_install (image_io (\<lambda>_. True)) (\<lambda>_. 0) (\<lambda>_. None) gpt_boot (\<lambda>_. None) gpt_options
      \<lparr>image_bytes = gpt_image, image_pos = 0\<rparr> = Some (EXIT_SUCCESS, st, None) \<and>
    boot_partition gpt_image i e \<and> length (image_bytes (device st)) = length gpt_image"
proof -
  obtain st where st: "run_bios_install (image_io (\<lambda>_. True)) (\<lambda>_. 0) (\<lambda>_. None) gpt_boot (\<lambda>_. None) gpt_options
      \<lparr>image_bytes = gpt_image, image_pos = 0\<rparr> = Some (EXIT_SUCCESS, st, None)"
    using gpt_image_run ..
  have disk: "gpt_disk gpt_image gpt_options" 
    using gpt_image_fields(1) signature_window [of gpt_image 512]
    by (simp add: gpt_disk_def gpt_options_def options_init_def header512_def sizeof_gpt_table_header_def)
  show ?thesis
    using st gpt_install_stays_inside [OF _ _ _ _ disk _ _ st]
    by (fastforce simp: gpt_image_length gpt_boot_def gpt_options_def options_init_def)
qed

end
