(* ===== verification/LimineEnroll.thy ===== *)
theory LimineEnroll
  imports LimineInstall LimineCache
begin

text \<open>
  The other commands of \<^verbatim>\<open>lib/limine/limine.c\<close>: \<^verbatim>\<open>enroll-config\<close>, which writes a checksum behind a signature
  in an executable, \<^verbatim>\<open>version\<close>, and the choice of the command. What they print is left out. Files are
  regular files that can be read and written whole.
\<close>

section \<open>Arguments\<close>

text \<open>\<^verbatim>\<open>remove_arg\<close> shortens the array \<open>argv\<close> by the entry at an index.\<close>

definition remove_arg :: "string list \<Rightarrow> nat \<Rightarrow> string list" where
  "remove_arg argv index = take index argv @ drop (Suc index) argv"

function enroll_args :: "nat \<Rightarrow> string list \<Rightarrow> bool \<Rightarrow> exit_code + string list \<times> bool" where
  "enroll_args i argv reset =
    (if length argv \<le> i then Inr (argv, reset)
     else if argv ! i = ''--help'' \<or> argv ! i = ''-h'' then Inl EXIT_SUCCESS
     else if argv ! i = ''--quiet'' then enroll_args i (remove_arg argv i) reset
     else if argv ! i = ''--reset'' then enroll_args i (remove_arg argv i) True
     else enroll_args (Suc i) argv reset)"
  by pat_completeness auto
termination by (relation "measure (\<lambda>(i, argv, reset). length argv - i)") (auto simp: remove_arg_def)

declare enroll_args.simps [simp del]

definition is_hex :: "char \<Rightarrow> bool" where
  "is_hex c \<longleftrightarrow> (let n = (of_char c :: nat) in 48 \<le> n \<and> n \<le> 57 \<or> 97 \<le> n \<and> n \<le> 102 \<or> 65 \<le> n \<and> n \<le> 70)"

section \<open>The signature\<close>

definition CONFIG_B2SUM_SIGNATURE :: bytes where
  "CONFIG_B2SUM_SIGNATURE = bytes_of ''++CONFIG_B2SUM_SIGNATURE++''"

text \<open>The search. \<open>i\<close> is the byte looked at, \<open>checked\<close> how many of the signature have matched before it. The result is where
  the checksum goes.\<close>

function search_loop :: "bytes \<Rightarrow> bytes \<Rightarrow> nat \<Rightarrow> nat \<Rightarrow> nat \<Rightarrow> nat option" where
  "search_loop sign boot bound i checked =
    (if bound \<le> i then None
     else if boot ! i \<noteq> sign ! checked then search_loop sign boot bound (if 0 < checked then i - checked + 1 else i + 1) 0
     else if length sign \<le> checked + 1 then Some (i + 1)
     else search_loop sign boot bound (i + 1) (checked + 1))"
  by pat_completeness auto
termination
  by (relation "measures [\<lambda>(sign, boot, bound, i, checked). bound - (i - checked),
      \<lambda>(sign, boot, bound, i, checked). length sign - checked]") auto

declare search_loop.simps [simp del]

definition min_size :: nat where "min_size = length CONFIG_B2SUM_SIGNATURE + 128"

section \<open>The command\<close>

text \<open>The exit code and, when something is written, the file and its new contents. \<open>mem\<close> tells what \<^verbatim>\<open>malloc\<close> grants.\<close>

definition enroll_config :: "(nat \<Rightarrow> bool) \<Rightarrow> (string \<Rightarrow> bytes option) \<Rightarrow> string list \<Rightarrow> exit_code \<times> (string \<times> bytes) option" where
  "enroll_config mem files argv = (case enroll_args 1 argv False of
     Inl e \<Rightarrow> (e, None)
   | Inr (args, reset) \<Rightarrow>
       if length args \<le> (if reset then 1 else 2) then (EXIT_FAILURE, None)
       else if \<not> reset \<and> (length (args ! 2) \<noteq> 128 \<or> \<not> list_all is_hex (args ! 2)) then (EXIT_FAILURE, None)
       else (case files (args ! 1) of
         None \<Rightarrow> (EXIT_FAILURE, None)
       | Some boot \<Rightarrow>
           if length boot < min_size then (EXIT_FAILURE, None)
           else if \<not> mem (length boot) then (EXIT_FAILURE, None)
           else (case search_loop CONFIG_B2SUM_SIGNATURE boot (length boot - min_size + 1) 0 0 of
             None \<Rightarrow> (EXIT_FAILURE, None)
           | Some loc \<Rightarrow>
               let checksum = if reset then replicate 128 0x30 else bytes_of (args ! 2)
               in (EXIT_SUCCESS, Some (args ! 1, take loc boot @ checksum @ drop (loc + 128) boot)))))"

section \<open>Version and choice of the command\<close>

definition version :: "string list \<Rightarrow> exit_code" where
  "version argv = EXIT_SUCCESS"

text \<open>The tool: exit code, the device it has used, and the file it has written. \<open>datadir\<close> tells whether it was built with a
  data directory. \<open>None\<close> as in \<open>bios_install\<close>.\<close>

definition limine_main :: "'f stdio \<Rightarrow> (nat \<Rightarrow> u8) \<Rightarrow> (string \<Rightarrow> u32 option) \<Rightarrow> bytes \<Rightarrow> (nat \<Rightarrow> bool) \<Rightarrow> bool \<Rightarrow>
    (string \<Rightarrow> bytes option) \<Rightarrow> (string \<Rightarrow> 'f option) \<Rightarrow> string list \<Rightarrow>
    (exit_code \<times> 'f tool option \<times> (string \<times> bytes) option) option" where
  "limine_main io rnd scan img mem datadir files devices argv =
    (if length argv \<le> 1 then Some (EXIT_FAILURE, None, None)
     else if argv ! 1 = ''help'' \<or> argv ! 1 = ''--help'' \<or> argv ! 1 = ''-h'' then Some (EXIT_SUCCESS, None, None)
     else if argv ! 1 = ''bios-install'' then bios_install io rnd scan img files devices (tl argv)
     else if argv ! 1 = ''enroll-config'' then (case enroll_config mem files (tl argv) of (e, w) \<Rightarrow> Some (e, None, w))
     else if argv ! 1 = ''--print-datadir'' then Some (if datadir then EXIT_SUCCESS else EXIT_FAILURE, None, None)
     else if argv ! 1 = ''version'' \<or> argv ! 1 = ''--version'' then Some (version (tl argv), None, None)
     else Some (EXIT_FAILURE, None, None))"

section \<open>What the search finds\<close>

definition occurs :: "bytes \<Rightarrow> bytes \<Rightarrow> nat \<Rightarrow> bool" where
  "occurs sign boot s \<longleftrightarrow> window boot s (length sign) = sign"

lemma occurs_nth:
  assumes "s + length sign \<le> length boot"
  shows "occurs sign boot s \<longleftrightarrow> (\<forall>k < length sign. boot ! (s + k) = sign ! k)"
  using assms by (simp add: occurs_def list_eq_iff_nth_eq window_nth)

text \<open>The first occurrence that ends before the bound.\<close>

lemma search_loop_first:
  assumes "checked < length sign" and "checked \<le> i" and "bound \<le> length boot"
    and "\<forall>k < checked. boot ! (i - checked + k) = sign ! k"
    and "\<forall>s < i - checked. s + length sign \<le> bound \<longrightarrow> \<not> occurs sign boot s"
  shows "case search_loop sign boot bound i checked of
      None \<Rightarrow> \<forall>s. s + length sign \<le> bound \<longrightarrow> \<not> occurs sign boot s
    | Some loc \<Rightarrow> \<exists>s. loc = s + length sign \<and> loc \<le> bound \<and> occurs sign boot s \<and> (\<forall>s' < s. \<not> occurs sign boot s')"
  using assms
proof (induction sign boot bound i checked rule: search_loop.induct)
  case (1 sign boot bound i checked)
  let ?s = "i - checked"
  show ?case
  proof (cases "bound \<le> i")
    case True
    have "\<not> occurs sign boot s" if "s + length sign \<le> bound" for s
      using "1.prems"(1,2,5) True that by simp
    then show ?thesis using True by (simp add: search_loop.simps)
  next
    case False
    show ?thesis
    proof (cases "boot ! i = sign ! checked")
      case False
      have no: "\<not> occurs sign boot ?s" if "?s + length sign \<le> bound"
        using occurs_nth [of ?s sign boot] that "1.prems"(1-3) False by (auto dest: spec [of _ checked])
      let ?i = "if 0 < checked then i - checked + 1 else i + 1"
      have i: "?i = ?s + 1" by simp
      have "\<forall>s < ?i - 0. s + length sign \<le> bound \<longrightarrow> \<not> occurs sign boot s"
        using no "1.prems"(5) by (auto simp: i less_Suc_eq)
      moreover have "sign \<noteq> []" using "1.prems"(1) by auto
      ultimately show ?thesis using "1.IH"(1) False \<open>\<not> bound \<le> i\<close> "1.prems"(1,3)
        by (subst search_loop.simps) (simp add: i del: One_nat_def split del: if_split)
    next
      case True
      have so: "\<forall>k < Suc checked. boot ! (?s + k) = sign ! k"
        using "1.prems"(2,4) True by (auto simp: less_Suc_eq)
      show ?thesis
      proof (cases "length sign \<le> checked + 1")
        case True
        then have len: "length sign = Suc checked" using "1.prems"(1) by simp
        then have s: "?s + length sign = i + 1" "?s + length sign \<le> length boot" using "1.prems"(2,3) \<open>\<not> bound \<le> i\<close> by simp_all
        then have "occurs sign boot ?s" using so len by (simp add: occurs_nth)
        moreover have "\<forall>s' < ?s. \<not> occurs sign boot s'" using "1.prems"(5) s(1) \<open>\<not> bound \<le> i\<close> by auto
        ultimately have "\<exists>s. i + 1 = s + length sign \<and> i + 1 \<le> bound \<and> occurs sign boot s \<and> (\<forall>s' < s. \<not> occurs sign boot s')"
          using s(1) \<open>\<not> bound \<le> i\<close> by (intro exI [of _ ?s]) simp
        then show ?thesis using True \<open>boot ! i = sign ! checked\<close> \<open>\<not> bound \<le> i\<close> by (subst search_loop.simps) simp
      next
        case False
        have "search_loop sign boot bound i checked = search_loop sign boot bound (i + 1) (checked + 1)"
          using False True \<open>\<not> bound \<le> i\<close> by (subst search_loop.simps) simp
        moreover have "i + 1 - (checked + 1) = ?s" by simp
        ultimately show ?thesis using "1.IH"(2) [OF \<open>\<not> bound \<le> i\<close> _ False] True "1.prems" so False by simp
      qed
    qed
  qed
qed

lemma signature_length [simp]: "length CONFIG_B2SUM_SIGNATURE = 26"
  by (simp add: CONFIG_B2SUM_SIGNATURE_def bytes_of_def)

text \<open>C33: Enrolling a checksum writes the 128 characters behind the first occurrence of the signature, and nothing else, if an
  occurrence begins more than 178 bytes before the end of the executable; it fails in every other
  case, and so also for an occurrence that begins between 178 and 154 bytes before the end, behind which the
  checksum would still fit.\<close>

theorem enroll_config_writes:
  assumes "length digest = 128" and "list_all is_hex digest" and "files name = Some boot" and "mem (length boot)"
    and "\<forall>a\<in>{name, digest}. a \<notin> {''--help'', ''-h'', ''--quiet'', ''--reset''}"
  shows "case enroll_config mem files [''enroll-config'', name, digest] of (e, written) \<Rightarrow>
    if \<exists>s. s + 178 < length boot \<and> occurs CONFIG_B2SUM_SIGNATURE boot s
    then e = EXIT_SUCCESS \<and> (\<exists>s. occurs CONFIG_B2SUM_SIGNATURE boot s \<and> (\<forall>s' < s. \<not> occurs CONFIG_B2SUM_SIGNATURE boot s') \<and>
      s + 154 \<le> length boot \<and> written = Some (name, patch boot (s + 26) (bytes_of digest)))
    else e = EXIT_FAILURE \<and> written = None"
proof -
  let ?S = CONFIG_B2SUM_SIGNATURE and ?bound = "length boot - min_size + 1"
  have args: "enroll_args 1 [''enroll-config'', name, digest] False = Inr ([''enroll-config'', name, digest], False)"
    using assms(5) by (simp add: enroll_args.simps)
  have cmd: "enroll_config mem files [''enroll-config'', name, digest] =
      (if length boot < min_size then (EXIT_FAILURE, None)
       else case search_loop ?S boot ?bound 0 0 of
         None \<Rightarrow> (EXIT_FAILURE, None)
       | Some loc \<Rightarrow> (EXIT_SUCCESS, Some (name, take loc boot @ bytes_of digest @ drop (loc + 128) boot)))"
    using assms(1-4) unfolding enroll_config_def args by (simp add: Let_def split: option.split)
  have dlen: "length (bytes_of digest) = 128" using assms(1) by (simp add: bytes_of_def)
  show ?thesis
  proof (cases "length boot < min_size")
    case True
    then show ?thesis by (auto simp: cmd min_size_def)
  next
    case False
    then have reach: "s + length ?S \<le> ?bound \<longleftrightarrow> s + 178 < length boot" for s by (auto simp: min_size_def)
    have first: "case search_loop ?S boot ?bound 0 0 of
        None \<Rightarrow> \<forall>s. s + length ?S \<le> ?bound \<longrightarrow> \<not> occurs ?S boot s
      | Some loc \<Rightarrow> \<exists>s. loc = s + length ?S \<and> loc \<le> ?bound \<and> occurs ?S boot s \<and> (\<forall>s' < s. \<not> occurs ?S boot s')"
      using False by (intro search_loop_first) (simp_all add: min_size_def)
    show ?thesis
    proof (cases "search_loop ?S boot ?bound 0 0")
      case None
      then show ?thesis using first reach False by (auto simp: cmd)
    next
      case (Some loc)
      then obtain s where s: "loc = s + length ?S" "loc \<le> ?bound" "occurs ?S boot s" "\<forall>s' < s. \<not> occurs ?S boot s'"
        using first by auto
      then have "s + 178 < length boot" using reach by simp
      then show ?thesis using Some s False dlen by (auto simp: cmd patch_def intro!: exI [of _ s])
    qed
  qed
qed

lemma enroll_config_writes_witness:
  "(case enroll_config (\<lambda>_. True) (\<lambda>_. Some (replicate 10 0 @ CONFIG_B2SUM_SIGNATURE @ replicate 200 0))
      [''enroll-config'', ''BOOTX64.EFI'', replicate 128 (CHR ''f'')] of (e, written) \<Rightarrow> e = EXIT_SUCCESS \<and> written \<noteq> None) \<and>
   (case enroll_config (\<lambda>_. True) (\<lambda>_. Some (CONFIG_B2SUM_SIGNATURE @ replicate 128 0))
      [''enroll-config'', ''BOOTX64.EFI'', replicate 128 (CHR ''f'')] of (e, written) \<Rightarrow> e = EXIT_FAILURE)"
proof -
  let ?d = "replicate 128 (CHR ''f'')" and ?n = "''BOOTX64.EFI''"
  have hex: "list_all is_hex ?d" by (simp add: is_hex_def list_all_iff)
  have neq: "\<forall>a\<in>{?n, ?d}. a \<notin> {''--help'', ''-h'', ''--quiet'', ''--reset''}"
    by (auto dest!: arg_cong [where f = length])
  have "occurs CONFIG_B2SUM_SIGNATURE (replicate 10 0 @ CONFIG_B2SUM_SIGNATURE @ replicate 200 0) 10"
    by (simp add: occurs_def window_def)
  then have 1: "\<exists>s. s + 178 < length (replicate 10 0 @ CONFIG_B2SUM_SIGNATURE @ replicate 200 0)
      \<and> occurs CONFIG_B2SUM_SIGNATURE (replicate 10 0 @ CONFIG_B2SUM_SIGNATURE @ replicate 200 0) s"
    by (intro exI [of _ 10]) simp
  have 2: "\<not> (\<exists>s. s + 178 < length (CONFIG_B2SUM_SIGNATURE @ replicate 128 0) \<and> occurs CONFIG_B2SUM_SIGNATURE (CONFIG_B2SUM_SIGNATURE @ replicate 128 0) s)"
    by simp
  show ?thesis
    using enroll_config_writes [where digest = ?d and name = ?n and mem = "\<lambda>_. True"
        and files = "\<lambda>_. Some (replicate 10 0 @ CONFIG_B2SUM_SIGNATURE @ replicate 200 0)", OF _ hex refl TrueI neq]
      enroll_config_writes [where digest = ?d and name = ?n and mem = "\<lambda>_. True"
        and files = "\<lambda>_. Some (CONFIG_B2SUM_SIGNATURE @ replicate 128 0)", OF _ hex refl TrueI neq] 1 2
    by (auto split: prod.splits)
qed

end
