(* ===== verification/Spec2Isabelle.thy ===== *)
theory Spec2Isabelle
  imports ErrorCodes Expected KString DynArr DiskFormat Gaossd AbtrFS AbtrfsPath
    AbtrfsProps AbtrfsSessions AbtrfsCrash KernelPath NvmeReset OldNvme PciLayout BootRequests
    Acpi Pcie IBus KHeap Display Avfs SystemX NvmeName NvmeLayout Kmain
    KStringOps ArrOps Serial Runtime SysCalls
    LimineProps LimineGpt LimineEnroll
begin

text \<open>
  Verification of the AlopexOS kernel, a 64-bit kernel in freestanding C++ that boots from Limine, finds
  an NVMe disk on the PCI bus, formats it with its own file system and stores files.

  \<^bold>\<open>The program and how its parts meet.\<close> \<^verbatim>\<open>kmain\<close> (\<^verbatim>\<open>src/main.cpp\<close>) sets up the display from the
  boot loader's frame buffers, the bus manager, which scans PCI and lists the storage devices, the PCIe
  host, which sets the bus master bits and finds the registers of the NVMe controller, and the storage
  driver, whose constructor brings the controller up. It then formats the disk, mounts it under its drive name, makes the
  system call object and writes a file. A file operation goes through five layers: AVFS (drive names) or AbtrFS directly (paths,
  headers, blocks), \<^verbatim>\<open>read_block\<close> and \<^verbatim>\<open>write_block\<close>, the storage driver's request queue,
  its NVMe handlers, and the controller driver with its two pairs of rings in memory the device shares.
  Below them lie a heap, strings, arrays and expected values of the kernel's own.

  \<^bold>\<open>Vocabulary and containers.\<close>
  \<^item> \<open>Prelude\<close>: the words of \<^verbatim>\<open>primitives.hpp\<close>, little-endian encodings, packed structures as lists of
    field lengths, and the locale \<open>seq\<close>, the promise of a growing sequence.
  \<^item> \<open>ErrorCodes\<close>, \<open>Expected\<close>: \<^verbatim>\<open>AlopexOS_ErrorCodes.hpp\<close> with its printer, \<^verbatim>\<open>expected.hpp\<close>.
  \<^item> \<open>KString\<close>, \<open>KStringOps\<close>: \<^verbatim>\<open>string.hpp\<close>; a string is a small buffer or a heap block. Every program
    of its operations keeps the invariant and computes on lists of characters what it should.
  \<^item> \<open>DynArr\<close>, \<open>ArrOps\<close>: \<^verbatim>\<open>arr.hpp\<close>; a \<^verbatim>\<open>dynarr\<close> owns its memory or views the caller's, which
    it must not grow. Sizes in the model of arrays and strings are natural numbers, and an allocation they
    make always succeeds: what is shown holds of the code while byte counts stay below \<open>2^64\<close> and the heap is not
    exhausted, when \<^verbatim>\<open>operator new\<close> halts the kernel. \<open>string_adt\<close> and \<open>array_adt\<close> extend \<open>seq\<close> and are interpreted on the two classes.
  \<^item> \<open>KHeap\<close>: \<^verbatim>\<open>new.cpp\<close>; headers are a map from offsets; the invariant says that blocks tile the buffer and
    that the list links exactly the free ones. The locale \<open>allocator\<close> states what a heap promises; live blocks never
    overlap, every request returns, and the sizes at which \<^verbatim>\<open>align_up\<close> goes wrong are exact.
  \<^item> \<open>Runtime\<close>, \<open>Serial\<close>: \<^verbatim>\<open>cxx_abi.cpp\<close>; the messages as the port writes they make.

  \<^bold>\<open>The disk.\<close>
  \<^item> \<open>DiskFormat\<close>: the headers of \<^verbatim>\<open>format.hpp\<close> and \<^verbatim>\<open>partition_header.hpp\<close> as records, and the
    memory image of each: the code writes a structure to the disk as it lies in memory, and encoding and decoding are that.
  \<^item> \<open>AbtrFS\<close>: the operations of \<^verbatim>\<open>abtrfs.cpp\<close> over two functions that read and write a block.
  \<^item> \<open>AbtrfsPath\<close>, \<open>AbtrfsSpec\<close>: paths; \<open>fs_layout\<close> says that a disk holds a list of named files one behind
    the other. The locale \<open>block_device\<close> is the interface: a read returns the block or fails, a write
    stores it or fails, a device that is good does not fail.
  \<^item> \<open>AbtrfsProps\<close>: one operation against a map from paths to contents, failures included, and what the code
    does not do (appended bytes, a corrupted section count).
  \<^item> \<open>AbtrfsSessions\<close>: any run of operations and new mounts is a run on that map, with a number of blocks as
    its only other state (\<open>vol_session\<close>); the map decides every result.
  \<^item> \<open>AbtrfsCrash\<close>: a run of file creations that a failing device breaks off, and what the next mount finds.
  \<^item> \<open>Avfs\<close>, \<open>SystemX\<close>: \<^verbatim>\<open>AVFS/\<close> and the system calls. What a write through a drive name stores, and why
    the read call has no defined result.
  \<^item> \<open>SysCalls\<close>: a sequence of system calls, malformed paths and unknown drives included, gives the answers of the
    same calls on a map (\<open>vol_sys_session\<close>), and is undefined exactly where those are.

  In \<open>AbtrfsProps\<close>, \<open>AbtrfsSessions\<close> and \<open>SysCalls\<close> written paths have at most 254 characters and no write grows a file
  past the blocks it has, because there the code goes wrong: a longer path is never found again, and the blocks behind a file
  are those of the next one. A register that a system call does not set has an unknown value afterwards.

  \<^bold>\<open>The device.\<close>
  \<^item> \<open>Gaossd\<close>, \<open>GaossdNvme\<close>: \<^verbatim>\<open>gaossd.cpp\<close>, with handlers as functions in the device record. The NVMe handlers poll; they
    return, and keep driver and device in step (\<open>in_step\<close>), when they start in step.
  \<^item> \<open>Nvme\<close>: \<^verbatim>\<open>PCI/nvme/nvme.cpp\<close> over a record \<open>hw\<close> of loads and stores. \<open>NvmeSpec\<close> states the queue
    protocol (locale \<open>nvme_device\<close>), \<open>AbtrfsIO\<close> the disk behind it (\<open>nvme_disk\<close>), \<open>NvmeBoot\<close> the registers and
    admin commands (\<open>nvme_boot\<close>), \<open>NvmeName\<close> the identify data (\<open>nvme_named\<close>), \<open>NvmeReset\<close> a controller
    reset (\<open>nvme_reset\<close>, over \<open>nvme_device\<close> again). Each of the others extends the one before. \<open>nvme_disk\<close> has
    the data pointers of the NVMe specification: what they do not name is not moved. \<open>NvmeRef\<close> has a concrete controller that keeps every
    one of these laws; all the locales are interpreted on it and the witnesses run there.
  \<^item> \<open>KernelPath\<close>: bring-up ends with driver and device in step, and they stay in step for any number of commands; and what
    \<^verbatim>\<open>read_block\<close> and \<^verbatim>\<open>write_block\<close> transfer. The buffers are where their callers put them: on the stack, in the heap, in a
    packed member at an odd address. Only the part of a buffer in its first page takes part, so the two are a
    \<open>block_device\<close>, and the results on files hold of the kernel's own path to the disk, only for buffers that start a page, which
    the code does not see to. Of any other storage with blocks (\<open>block_device\<close>) they hold as they are.
  \<^item> \<open>NvmeLayout\<close>, \<open>PciLayout\<close>: the packed structures, and that the drivers' offsets and shifts are theirs.
  \<^item> \<open>OldNvme\<close>: the earlier driver in \<^verbatim>\<open>src/drivers/nvme\<close>, against the present one.
  \<^item> \<open>Acpi\<close>, \<open>Pcie\<close>, \<open>IBus\<close>: \<^verbatim>\<open>ACPI/\<close>, \<^verbatim>\<open>pcie.cpp\<close> and \<^verbatim>\<open>AlopexIBus.cpp\<close>. The locale \<open>pci_space\<close> (and
    \<open>port_space\<close> for the bus manager) states that a machine has a configuration space; the scans are then equal to searches
    in it; \<open>pci_latched\<close> adds what a write to a command register does. They are interpreted on a machine with the two
    configuration ports.
  \<^item> \<open>Display\<close>, \<open>BootRequests\<close>: drawing on frame buffer memory; what the kernel asks the boot loader.
  \<^item> \<open>Kmain\<close>: the kernel's main function over all of the above; with a screen and an NVMe
    controller whose model the code mounts it gets to the file system, with an erased disk and a driver in step with it.
    What follows depends on the addresses of its buffers, which are arguments. Without a storage device it has no defined result.

  \<^bold>\<open>The installer of the boot loader\<close>, \<^verbatim>\<open>lib/limine/limine.c\<close>, which the repository ships and an image is made with.
  \<^item> \<open>LimineDisk\<close>, \<open>LimineCache\<close>: a cache of one block over a stdio stream and the journal of what is overwritten; the locale
    \<open>disk_file\<close> states what a stream on a disk promises, and is interpreted on image files. The cache is invisible.
  \<^item> \<open>LimineInstall\<close>: \<^verbatim>\<open>bios-install\<close>, as actions that stop where the code jumps to its clean-up. \<open>LimineUndo\<close>: each of them
    keeps the journal good, so that a failed installation is taken back and a finished one can be. \<open>LimineResult\<close>: a
    calculus for what an action does to the bytes; \<open>LimineProps\<close>, \<open>LimineGpt\<close>: what is on the image afterwards, for a
    master boot record and for a GPT.
  \<^item> \<open>LimineEnroll\<close>: \<^verbatim>\<open>enroll-config\<close>, \<^verbatim>\<open>version\<close> and the choice of the command.

  \<^bold>\<open>Conventions.\<close> Integers are words of their width, but for the sizes in arrays and strings; addresses are 64-bit words, null is 0 or None. An error is a
  value of \<open>errorCode\<close> or the left side of a sum, as in the source. The result None of a function
  stands for code that does not return or has no defined behaviour: loops that may not end are
  \<^verbatim>\<open>partial_function (option)\<close>, and no definition has fuel, so every theorem that gives a result Some is also a
  proof that the code returns. State is passed explicitly; a device is a state of which only the laws of its
  locale are known. Numbers fixed by the code stay as they are: rings of 64 entries, blocks of
  4096 bytes, paths of 2048 bytes of which 255 are stored, a partition of 204800 blocks, a heap of 16 MiB.

  \<^bold>\<open>Parameters.\<close> The instructions that reach hardware (\<open>hw\<close>, the port and memory accesses of \<open>machine\<close>, the
  system call instruction), the boot loader's answers, the addresses of static and stack objects and of the buffers of
  block transfers, and the text \<^verbatim>\<open>kmain\<close> writes to its file.

  \<^bold>\<open>Not modelled.\<close> The rest of \<^verbatim>\<open>limine.h\<close>, which the kernel does not use; the boot code in \<^verbatim>\<open>limine-bios-hdd.h\<close>, which is data and an
  argument; the messages and help texts of the installer; the
  forwarding templates of \<^verbatim>\<open>memory.hpp\<close>, whose calls appear as the value operations they are; declarations
  without a body (the class \<^verbatim>\<open>Device\<close> of \<^verbatim>\<open>pci.hpp\<close>); the assembly entry. The messages are
  modelled in \<open>Serial\<close> only: they change no other state, and the other theories leave the calls out. Of the class
  of the earlier NVMe driver the header is missing, so the types of its members are not known.
\<close>

end
